(* ===== verification/Prelude.thy ===== *)
theory Prelude
  imports Main "HOL-Library.Word"
begin

text \<open>
  What the components share: the machine integers of the Rust sources as words, the crate's
  error type and \<open>Result\<close> (with a panic as a third outcome), the sequencing of fallible
  operations, and generic facts on lists, words and byte strings.

  Conventions of the development. A \<open>u8\<close>, \<open>u16\<close>, \<open>u32\<close>, \<open>u64\<close> or \<open>u128\<close> of the sources is a
  word of that width, so that \<open>+\<close> and \<open>-\<close> wrap as they do in the release profile
  (\<open>Cargo.toml\<close> sets no overflow checks). A \<open>usize\<close> that is the length of a buffer in memory or
  an index into one is a natural number. \<open>Ok\<close> and \<open>Err\<close> are Rust's, and \<open>Panic\<close> stands for
  \<open>unwrap\<close> of \<open>None\<close>, \<open>unreachable!\<close>, \<open>panic!\<close> and an index out of range. On \<open>Err\<close> and \<open>Panic\<close>
  the buffer or component under construction is dropped.
\<close>

unbundle bit_operations_syntax

section \<open>Machine integers\<close>

type_synonym u8 = "8 word"
type_synonym u16 = "16 word"
type_synonym u32 = "32 word"
type_synonym u64 = "64 word"
type_synonym u128 = "128 word"

lemma unat_u8: "unat (x :: u8) < 256"
  using unsigned_less [of x, where ?'a = nat] by simp

lemma unat_u64: "unat (x :: u64) < 2 ^ 64"
  using unsigned_less [of x, where ?'a = nat] by simp

lemma unat_ucast_up:
  "LENGTH('a::len) \<le> LENGTH('b::len) \<Longrightarrow> unat (ucast (x :: 'a word) :: 'b word) = unat x"
proof -
  assume le: "LENGTH('a) \<le> LENGTH('b)"
  have "unat x < 2 ^ LENGTH('b)"
    using unsigned_less [of x, where ?'a = nat] power_increasing [OF le, of "2 :: nat"] by linarith
  then show ?thesis by (simp add: unsigned_ucast_eq take_bit_nat_eq_self)
qed

lemma u64_eq_iff: "(a :: u64) = b \<longleftrightarrow> unat a = unat b"
  by (auto simp: word_unat_eq_iff)

lemma unat_add64: "unat (a + b :: u64) = (unat a + unat b) mod 2 ^ 64"
  by (simp add: unat_word_ariths)

lemma unat_add64_less: "unat a + unat b < 2 ^ 64 \<Longrightarrow> unat (a + b :: u64) = unat a + unat b"
  by (simp add: unat_word_ariths)

lemma unat_sub64: "b \<le> a \<Longrightarrow> unat (a - b :: u64) = unat a - unat b"
  by (rule unat_sub)

lemma unat_of_nat64: "n < 2 ^ 64 \<Longrightarrow> unat (of_nat n :: u64) = n"
  by (simp add: unat_of_nat)

text \<open>\<open>u64::saturating_add\<close>.\<close>

definition sat_add64 :: "u64 \<Rightarrow> u64 \<Rightarrow> u64" where
  "sat_add64 a b = (if unat a + unat b < 2 ^ 64 then a + b else - 1)"

lemma unat_sat_add64: "unat (sat_add64 a b) = min (unat a + unat b) (2 ^ 64 - 1)"
  using unat_u64 [of a] unat_u64 [of b]
  by (auto simp: sat_add64_def unat_add64 unsigned_minus_1_eq_mask mask_eq_exp_minus_1)

section \<open>Errors and results\<close>

text \<open>\<open>Error\<close> of \<open>src/lib.rs\<close>; \<open>From<BufferTooShortError>\<close> maps the buffer error of
  \<open>src/octets.rs\<close> to \<open>BufferTooShort\<close>, so one type serves both.\<close>

datatype error =
    Done
  | BufferTooShort
  | UnknownVersion
  | InvalidFrame
  | InvalidPacket
  | InvalidState
  | InvalidStreamState
  | InvalidTransportParam
  | CryptoFail
  | TlsFail
  | FlowControl
  | StreamLimit
  | FinalSize
  | CongestionControl
  | SchedulerTypeError

text \<open>The wire code of an error (\<open>Error::to_wire\<close>).\<close>

fun to_wire :: "error \<Rightarrow> u64" where
  "to_wire Done = 0x0"
| "to_wire InvalidFrame = 0x7"
| "to_wire InvalidStreamState = 0x5"
| "to_wire InvalidTransportParam = 0x8"
| "to_wire CryptoFail = 0x100"
| "to_wire TlsFail = 0x100"
| "to_wire FlowControl = 0x3"
| "to_wire StreamLimit = 0x4"
| "to_wire FinalSize = 0x6"
| "to_wire _ = 0xa"

datatype ('e, 'a) res = Ok 'a | Err 'e | Panic

type_synonym 'a result = "(error, 'a) res"

text \<open>The \<open>?\<close> operator: run the continuation on \<open>Ok\<close>, pass \<open>Err\<close> and \<open>Panic\<close> on.\<close>

fun bnd :: "('e, 'a) res \<Rightarrow> ('a \<Rightarrow> ('e, 'b) res) \<Rightarrow> ('e, 'b) res" where
  "bnd (Ok x) f = f x"
| "bnd (Err e) f = Err e"
| "bnd Panic f = Panic"

definition is_ok :: "('e, 'a) res \<Rightarrow> bool" where
  "is_ok r = (case r of Ok _ \<Rightarrow> True | _ \<Rightarrow> False)"

text \<open>\<open>Option::unwrap\<close> and \<open>Option::ok_or\<close>.\<close>

fun unwrap :: "'a option \<Rightarrow> ('e, 'a) res" where
  "unwrap (Some x) = Ok x"
| "unwrap None = Panic"

fun ok_or :: "'e \<Rightarrow> 'a option \<Rightarrow> ('e, 'a) res" where
  "ok_or e (Some x) = Ok x"
| "ok_or e None = Err e"

text \<open>\<open>From\<close> applied to the error by \<open>?\<close>, and \<open>Result::map_err\<close>.\<close>

fun map_err :: "('e \<Rightarrow> 'f) \<Rightarrow> ('e, 'a) res \<Rightarrow> ('f, 'a) res" where
  "map_err f (Ok x) = Ok x"
| "map_err f (Err e) = Err (f e)"
| "map_err f Panic = Panic"

lemma map_err_Ok_iff [simp]: "map_err f m = Ok x \<longleftrightarrow> m = Ok x"
  by (cases m) auto

lemma map_err_Panic_iff [simp]: "map_err f m = Panic \<longleftrightarrow> m = Panic"
  by (cases m) auto

lemma bnd_assoc: "bnd (bnd m f) g = bnd m (\<lambda>x. bnd (f x) g)"
  by (cases m) auto

lemma bnd_Ok_iff [simp]: "bnd m f = Ok y \<longleftrightarrow> (\<exists>x. m = Ok x \<and> f x = Ok y)"
  by (cases m) auto

lemma bnd_Panic_iff: "bnd m f = Panic \<longleftrightarrow> m = Panic \<or> (\<exists>x. m = Ok x \<and> f x = Panic)"
  by (cases m) auto

lemma bnd_Err_iff: "bnd m f = Err e \<longleftrightarrow> m = Err e \<or> (\<exists>x. m = Ok x \<and> f x = Err e)"
  by (cases m) auto

lemma bnd_cong [fundef_cong]:
  "m = m' \<Longrightarrow> (\<And>x. m' = Ok x \<Longrightarrow> f x = f' x) \<Longrightarrow> bnd m f = bnd m' f'"
  by (cases m') auto

text \<open>For evaluating concrete runs: do not enter the continuation before its argument is known.\<close>

lemma bnd_weak_cong: "m = m' \<Longrightarrow> bnd m f = bnd m' f"
  by simp

lemma bnd_no_Panic: "m \<noteq> Panic \<Longrightarrow> (\<And>x. m = Ok x \<Longrightarrow> f x \<noteq> Panic) \<Longrightarrow> bnd m f \<noteq> Panic"
  by (cases m) auto

lemma unwrap_Ok_iff [simp]: "unwrap x = Ok y \<longleftrightarrow> x = Some y"
  by (cases x) auto

lemma ok_or_Ok_iff [simp]: "ok_or e x = Ok y \<longleftrightarrow> x = Some y"
  by (cases x) auto

lemma ok_or_Err_iff [simp]: "ok_or e x = Err e' \<longleftrightarrow> x = None \<and> e' = e"
  by (cases x) auto

lemma ok_or_no_Panic [simp]: "ok_or e x \<noteq> Panic"
  by (cases x) auto

section \<open>Big-endian byte strings\<close>

text \<open>Network byte order: the value of a byte string, and the \<open>n\<close> low-order bytes of a value.\<close>

fun be_nat_acc :: "nat \<Rightarrow> u8 list \<Rightarrow> nat" where
  "be_nat_acc a [] = a"
| "be_nat_acc a (x # xs) = be_nat_acc (256 * a + unat x) xs"

definition be_nat :: "u8 list \<Rightarrow> nat" where
  "be_nat xs = be_nat_acc 0 xs"

fun be_bytes :: "nat \<Rightarrow> nat \<Rightarrow> u8 list" where
  "be_bytes 0 v = []"
| "be_bytes (Suc n) v = be_bytes n (v div 256) @ [of_nat v]"

lemma length_be_bytes [simp]: "length (be_bytes n v) = n"
  by (induction n arbitrary: v) auto

lemma be_nat_acc_append: "be_nat_acc a (xs @ ys) = be_nat_acc (be_nat_acc a xs) ys"
  by (induction xs arbitrary: a) auto

lemma be_nat_Cons: "be_nat (x # xs) = unat x * 256 ^ length xs + be_nat xs"
proof -
  have "be_nat_acc a xs = a * 256 ^ length xs + be_nat_acc 0 xs" for a
  proof (induction xs arbitrary: a)
    case Nil
    show ?case by simp
  next
    case (Cons z zs)
    show ?case
      using Cons [of "256 * a + unat z"] Cons [of "unat z"] by (simp add: algebra_simps)
  qed
  from this [of "unat x"] show ?thesis by (simp add: be_nat_def)
qed

lemma be_nat_be_bytes: "be_nat (be_bytes n v) = v mod 256 ^ n"
proof (induction n arbitrary: v)
  case 0
  then show ?case by (simp add: be_nat_def)
next
  case (Suc n)
  have "be_nat (be_bytes (Suc n) v) = 256 * (v div 256 mod 256 ^ n) + v mod 256"
    using Suc [of "v div 256"]
    by (simp add: be_nat_def be_nat_acc_append unat_of_nat)
  also have "\<dots> = v mod 256 ^ Suc n"
    by (metis add.commute mod_mult2_eq power_Suc)
  finally show ?case .
qed

lemma be_nat_less: "be_nat xs < 256 ^ length xs"
proof -
  have "be_nat_acc a xs < (a + 1) * 256 ^ length xs" for a
  proof (induction xs arbitrary: a)
    case Nil
    then show ?case by simp
  next
    case (Cons x xs)
    have x: "unat x < 256" by (rule unat_u8)
    have "be_nat_acc (256 * a + unat x) xs < (256 * a + unat x + 1) * 256 ^ length xs"
      by (rule Cons)
    also have "\<dots> \<le> (256 * (a + 1)) * 256 ^ length xs"
      using x by (intro mult_le_mono1) simp
    finally show ?case by (simp add: algebra_simps)
  qed
  from this [of 0] show ?thesis by (simp add: be_nat_def)
qed

lemma be_bytes_be_nat: "be_bytes (length xs) (be_nat xs) = xs"
proof (induction xs rule: rev_induct)
  case Nil
  then show ?case by (simp add: be_nat_def)
next
  case (snoc x xs)
  have x: "unat x < 256" by (rule unat_u8)
  have v: "be_nat (xs @ [x]) = 256 * be_nat xs + unat x"
    by (simp add: be_nat_def be_nat_acc_append)
  have "of_nat (256 * be_nat xs + unat x) = x"
  proof -
    have "unat (of_nat (256 * be_nat xs + unat x) :: u8) = (256 * be_nat xs + unat x) mod 2 ^ LENGTH(8)"
      by (rule unat_of_nat)
    also have "\<dots> = unat x" using x by simp
    finally show ?thesis by (simp only: word_unat_eq_iff)
  qed
  with snoc x show ?case by (simp add: v)
qed

text \<open>The two most significant bits of a byte, as a tag above a six-bit payload.\<close>

lemma u8_and_3f: "m < 64 \<Longrightarrow> t < 4 \<Longrightarrow> (of_nat (64 * t + m) :: u8) AND 0x3f = of_nat m"
proof -
  assume "m < 64" "t < 4"
  have "a AND (63::nat) = a mod 64" for a 
    using take_bit_eq_mask [of 6 a] by (simp add: mask_eq_exp_minus_1 take_bit_eq_mod)
  with \<open>m < 64\<close> \<open>t < 4\<close> show ?thesis
    by (simp only: word_unat_eq_iff unsigned_and_eq unat_of_nat) simp
qed

lemma u8_drop_bit_6: "m < 64 \<Longrightarrow> t < 4 \<Longrightarrow> drop_bit 6 (of_nat (64 * t + m) :: u8) = of_nat t"
  by (simp only: word_unat_eq_iff unsigned_drop_bit_eq unat_of_nat) (simp add: drop_bit_eq_div take_bit_eq_mod)

lemma u8_or_tag: "m < 64 \<Longrightarrow> t < 4 \<Longrightarrow> (of_nat m :: u8) OR of_nat (64 * t) = of_nat (64 * t + m)"
proof -
  assume a: "m < 64" "t < 4"
  have "m AND (64 * t) = 0"
  proof (rule bit_eqI)
    fix i
    have "m = take_bit 6 m" using a by (simp add: take_bit_nat_eq_self)
    moreover have "64 * t = push_bit 6 t" by (simp add: push_bit_eq_mult)
    ultimately show "bit (m AND (64 * t)) i = bit (0::nat) i"
      by (metis bit_0_eq bit_and_iff bit_push_bit_iff_nat bit_take_bit_iff bot_apply bot_bool_def not_less)
  qed
  then have "m OR (64 * t) = 64 * t + m" by (simp flip: disjunctive_add_eq_or)
  moreover from a have "(m OR (64 * t)) mod 256 = m OR (64 * t)" using calculation by simp
  ultimately show ?thesis using a
    by (simp only: word_unat_eq_iff unsigned_or_eq unat_of_nat) simp
qed

lemma be_bytes_Cons: "be_bytes (Suc n) v = of_nat (v div 256 ^ n) # be_bytes n v"
proof (induction n arbitrary: v)
  case 0
  then show ?case by simp
next
  case (Suc n)
  have "be_bytes (Suc (Suc n)) v = be_bytes (Suc n) (v div 256) @ [of_nat v]"
    by simp
  also have "\<dots> = of_nat (v div 256 div 256 ^ n) # be_bytes n (v div 256) @ [of_nat v]"
    by (simp only: Suc append_Cons)
  also have "\<dots> = of_nat (v div 256 ^ Suc n) # be_bytes (Suc n) v"
    by (simp add: div_mult2_eq)
  finally show ?case .
qed

lemma be_bytes_add: "be_bytes n (256 ^ n * q + v) = be_bytes n v"
proof (induction n arbitrary: v)
  case 0
  then show ?case by simp
next
  case (Suc n)
  have "(256 ^ Suc n * q + v) div 256 = 256 ^ n * q + v div 256"
    by simp
  moreover have "(of_nat (256 ^ Suc n * q + v) :: u8) = of_nat v"
    by (simp add: word_of_nat_eq_iff take_bit_eq_mod mult.assoc del: of_nat_add of_nat_mult)
  ultimately show ?case
    by (simp add: Suc)
qed

section \<open>Options and lists\<close>

lemma option_eqI: "(\<And>v. x = Some v \<longleftrightarrow> y = Some v) \<Longrightarrow> x = y"
  by (cases x; cases y) auto

lemma set_list_update_subset: "set (xs[i := v]) \<subseteq> insert v (set xs)"
  by (rule set_update_subset_insert)

lemma sorted_wrt_snoc:
  "sorted_wrt P (xs @ [x]) \<longleftrightarrow> sorted_wrt P xs \<and> (\<forall>y \<in> set xs. P y x)"
  by (simp add: sorted_wrt_append)

end
