(* ===== verification/Octets.thy ===== *)
theory Octets
  imports Prelude
begin

text \<open>
  The byte buffer of \<open>src/octets.rs\<close>: reading and writing fixed-width big-endian integers,
  QUIC variable-length integers and byte strings at a moving offset. The operations come first,
  in the order of the source, then their effect described by three list functions (\<open>as_ref\<close>,
  the unread bytes; \<open>advance\<close>, moving the offset; \<open>wr\<close>, overwriting at the offset), then the
  locale \<open>wire_codec\<close>, the contract of a get/put pair, interpreted by every integer width and by
  the variable-length integer. Packet and frame coding rest on the facts of these
  interpretations.
\<close>

section \<open>State\<close>

record octets =
  buf :: "u8 list"
  off :: nat

definition with_slice :: "u8 list \<Rightarrow> octets" where
  "with_slice bs = \<lparr>buf = bs, off = 0\<rparr>"

text \<open>Remaining capacity, total length, and the bytes from the current offset on
  (\<open>as_ref\<close>, which \<open>to_vec\<close> copies).\<close>

definition cap :: "octets \<Rightarrow> nat" where
  "cap b = length (buf b) - off b"

definition oct_len :: "octets \<Rightarrow> nat" where
  "oct_len b = length (buf b)"

definition as_ref :: "octets \<Rightarrow> u8 list" where
  "as_ref b = drop (off b) (buf b)"

section \<open>Fixed-width integers\<close>

text \<open>The macros \<open>peek_u!\<close>, \<open>get_u!\<close> and \<open>put_u!\<close>: \<open>n\<close> bytes copied into, or out of, the low-order
  end of a big-endian integer.\<close>

definition peek_u :: "nat \<Rightarrow> octets \<Rightarrow> 'w::len word result" where
  "peek_u n b =
     (let src = drop (off b) (buf b) in
      if length src < n then Err BufferTooShort
      else Ok (of_nat (be_nat (take n src))))"

definition get_u :: "nat \<Rightarrow> octets \<Rightarrow> ('w::len word \<times> octets) result" where
  "get_u n b = bnd (peek_u n b) (\<lambda>out. Ok (out, b\<lparr>off := off b + n\<rparr>))"

definition put_u :: "nat \<Rightarrow> 'w::len word \<Rightarrow> octets \<Rightarrow> octets result" where
  "put_u n v b =
     (if length (buf b) < off b + n then Err BufferTooShort
      else Ok (b\<lparr>buf := take (off b) (buf b) @ be_bytes n (unat v) @ drop (off b + n) (buf b),
                 off := off b + n\<rparr>))"

definition get_u8 :: "octets \<Rightarrow> (u8 \<times> octets) result" where
  "get_u8 b = get_u 1 b"

definition peek_u8 :: "octets \<Rightarrow> u8 result" where
  "peek_u8 b = peek_u 1 b"

definition put_u8 :: "u8 \<Rightarrow> octets \<Rightarrow> octets result" where
  "put_u8 v b = put_u 1 v b"

definition get_u16 :: "octets \<Rightarrow> (u16 \<times> octets) result" where
  "get_u16 b = get_u 2 b"

definition put_u16 :: "u16 \<Rightarrow> octets \<Rightarrow> octets result" where
  "put_u16 v b = put_u 2 v b"

definition get_u24 :: "octets \<Rightarrow> (u32 \<times> octets) result" where
  "get_u24 b = get_u 3 b"

definition put_u24 :: "u32 \<Rightarrow> octets \<Rightarrow> octets result" where
  "put_u24 v b = put_u 3 v b"

definition get_u32 :: "octets \<Rightarrow> (u32 \<times> octets) result" where
  "get_u32 b = get_u 4 b"

definition put_u32 :: "u32 \<Rightarrow> octets \<Rightarrow> octets result" where
  "put_u32 v b = put_u 4 v b"

definition get_u64 :: "octets \<Rightarrow> (u64 \<times> octets) result" where
  "get_u64 b = get_u 8 b"

definition put_u64 :: "u64 \<Rightarrow> octets \<Rightarrow> octets result" where
  "put_u64 v b = put_u 8 v b"

section \<open>Byte strings and slices\<close>

definition get_bytes :: "nat \<Rightarrow> octets \<Rightarrow> (octets \<times> octets) result" where
  "get_bytes n b =
     (if cap b < n then Err BufferTooShort
      else Ok (\<lparr>buf = take n (drop (off b) (buf b)), off = 0\<rparr>, b\<lparr>off := off b + n\<rparr>))"

definition get_bytes_with_u8_length :: "octets \<Rightarrow> (octets \<times> octets) result" where
  "get_bytes_with_u8_length b = bnd (get_u8 b) (\<lambda>(n, b). get_bytes (unat n) b)"

definition get_bytes_with_u16_length :: "octets \<Rightarrow> (octets \<times> octets) result" where
  "get_bytes_with_u16_length b = bnd (get_u16 b) (\<lambda>(n, b). get_bytes (unat n) b)"

definition peek_bytes :: "nat \<Rightarrow> octets \<Rightarrow> octets result" where
  "peek_bytes n b =
     (if cap b < n then Err BufferTooShort
      else Ok \<lparr>buf = take n (drop (off b) (buf b)), off = 0\<rparr>)"

definition put_bytes :: "u8 list \<Rightarrow> octets \<Rightarrow> octets result" where
  "put_bytes v b =
     (let n = length v in
      if cap b < n then Err BufferTooShort
      else if n = 0 then Ok b
      else Ok (b\<lparr>buf := take (off b) (buf b) @ v @ drop (off b + n) (buf b), off := off b + n\<rparr>))"

definition split_at :: "nat \<Rightarrow> octets \<Rightarrow> (octets \<times> octets) result" where
  "split_at at b =
     (if oct_len b < at then Err BufferTooShort
      else Ok (\<lparr>buf = take at (buf b), off = 0\<rparr>, \<lparr>buf = drop at (buf b), off = 0\<rparr>))"

definition slice :: "nat \<Rightarrow> octets \<Rightarrow> u8 list result" where
  "slice n b =
     (if n > cap b then Err BufferTooShort else Ok (take n (drop (off b) (buf b))))"

text \<open>\<open>slice_last\<close> starts at \<open>cap - n\<close>, counted from the start of the whole buffer.\<close>

definition slice_last :: "nat \<Rightarrow> octets \<Rightarrow> u8 list result" where
  "slice_last n b =
     (if n > cap b then Err BufferTooShort else Ok (drop (cap b - n) (buf b)))"

section \<open>Variable-length integers\<close>

definition varint_len :: "u64 \<Rightarrow> nat result" where
  "varint_len v =
     (if v \<le> 63 then Ok 1
      else if v \<le> 16383 then Ok 2
      else if v \<le> 1073741823 then Ok 4
      else if v \<le> 4611686018427387903 then Ok 8
      else Panic)"

definition varint_parse_len :: "u8 \<Rightarrow> nat result" where
  "varint_parse_len first =
     (let k = drop_bit 6 first in
      if k = 0 then Ok 1
      else if k = 1 then Ok 2
      else if k = 2 then Ok 4
      else if k = 3 then Ok 8
      else Panic)"

definition get_varint :: "octets \<Rightarrow> (u64 \<times> octets) result" where
  "get_varint b =
     bnd (peek_u8 b) (\<lambda>first.
     bnd (varint_parse_len first) (\<lambda>n.
     if n > cap b then Err BufferTooShort
     else bnd (get_bytes n b) (\<lambda>(v, b).
       let vec = as_ref v; vec = vec[0 := vec ! 0 AND 0x3f]; c = with_slice vec in
       if n = 1 then bnd (get_u8 c) (\<lambda>(x, _). Ok (ucast x, b))
       else if n = 2 then bnd (get_u16 c) (\<lambda>(x, _). Ok (ucast x, b))
       else if n = 4 then bnd (get_u32 c) (\<lambda>(x, _). Ok (ucast x, b))
       else if n = 8 then bnd (get_u64 c) (\<lambda>(x, _). Ok (x, b))
       else Panic)))"

text \<open>Setting bits of the first byte just written (\<open>buf[0] |= m\<close> on the slice \<open>put_u!\<close> returns,
  which starts at the old offset).\<close>

definition or_at :: "nat \<Rightarrow> u8 \<Rightarrow> octets \<Rightarrow> octets" where
  "or_at i m b = b\<lparr>buf := (buf b)[i := buf b ! i OR m]\<rparr>"

definition put_varint_with_len :: "u64 \<Rightarrow> nat \<Rightarrow> octets \<Rightarrow> octets result" where
  "put_varint_with_len v n b =
     (if cap b < n then Err BufferTooShort
      else if n = 1 then put_u8 (ucast v) b
      else if n = 2 then bnd (put_u16 (ucast v) b) (\<lambda>b'. Ok (or_at (off b) 0x40 b'))
      else if n = 4 then bnd (put_u32 (ucast v) b) (\<lambda>b'. Ok (or_at (off b) 0x80 b'))
      else if n = 8 then bnd (put_u64 v b) (\<lambda>b'. Ok (or_at (off b) 0xc0 b'))
      else Panic)"

definition put_varint :: "u64 \<Rightarrow> octets \<Rightarrow> octets result" where
  "put_varint v b = bnd (varint_len v) (\<lambda>n. put_varint_with_len v n b)"

definition get_bytes_with_varint_length :: "octets \<Rightarrow> (octets \<times> octets) result" where
  "get_bytes_with_varint_length b = bnd (get_varint b) (\<lambda>(n, b). get_bytes (unat n) b)"

section \<open>The effect of reading and writing on the buffer\<close>

text \<open>\<open>off \<le> buf.len()\<close> holds for every buffer the operations produce.\<close>

definition octets_ok :: "octets \<Rightarrow> bool" where
  "octets_ok b \<longleftrightarrow> off b \<le> length (buf b)"

definition advance :: "nat \<Rightarrow> octets \<Rightarrow> octets" where
  "advance n b = b\<lparr>off := off b + n\<rparr>"

definition wr :: "u8 list \<Rightarrow> octets \<Rightarrow> octets" where
  "wr xs b =
     b\<lparr>buf := take (off b) (buf b) @ xs @ drop (off b + length xs) (buf b),
       off := off b + length xs\<rparr>"

lemma advance_0 [simp]: "advance 0 b = b"
  by (simp add: advance_def)

lemma advance_advance [simp]: "advance m (advance n b) = advance (n + m) b"
  by (simp add: advance_def add.assoc)

lemma buf_advance [simp]: "buf (advance n b) = buf b"
  by (simp add: advance_def)

lemma off_advance [simp]: "off (advance n b) = off b + n"
  by (simp add: advance_def)

lemma as_ref_advance: "as_ref (advance n b) = drop n (as_ref b)"
  by (simp add: as_ref_def add.commute)

lemma length_as_ref: "length (as_ref b) = cap b"
  by (simp add: as_ref_def cap_def)

lemma as_ref_advance_append:
  "as_ref b = xs @ r \<Longrightarrow> n = length xs \<Longrightarrow> as_ref (advance n b) = r"
  by (simp add: as_ref_advance)

lemma octets_ok_advance: "octets_ok b \<Longrightarrow> n \<le> cap b \<Longrightarrow> octets_ok (advance n b)"
  by (auto simp: octets_ok_def cap_def)

lemma octets_ok_with_slice [simp]: "octets_ok (with_slice xs)"
  by (simp add: octets_ok_def with_slice_def)

lemma off_wr [simp]: "off (wr xs b) = off b + length xs"
  by (simp add: wr_def)

lemma length_buf_wr: "octets_ok b \<Longrightarrow> length xs \<le> cap b \<Longrightarrow> length (buf (wr xs b)) = length (buf b)"
  by (auto simp: wr_def octets_ok_def cap_def)

lemma octets_ok_wr [simp]: "octets_ok b \<Longrightarrow> length xs \<le> cap b \<Longrightarrow> octets_ok (wr xs b)"
  by (auto simp: octets_ok_def length_buf_wr cap_def)

lemma cap_wr [simp]: "octets_ok b \<Longrightarrow> length xs \<le> cap b \<Longrightarrow> cap (wr xs b) = cap b - length xs"
  by (auto simp: cap_def [of "wr xs b"] length_buf_wr) (simp add: cap_def)

lemma wr_Nil [simp]: "octets_ok b \<Longrightarrow> wr [] b = b"
  by (simp add: wr_def octets_ok_def)

lemma wr_wr [simp]:
  "octets_ok b \<Longrightarrow> length xs + length ys \<le> cap b \<Longrightarrow> wr ys (wr xs b) = wr (xs @ ys) b"
  by (auto simp: wr_def octets_ok_def cap_def add.commute add.left_commute)

text \<open>What was written is what is read back from the old offset.\<close>

lemma as_ref_wr:
  "octets_ok b \<Longrightarrow> length xs \<le> cap b \<Longrightarrow>
   as_ref ((wr xs b)\<lparr>off := off b\<rparr>) = xs @ drop (length xs) (as_ref b)"
  by (auto simp: wr_def as_ref_def octets_ok_def cap_def add.commute)

lemma take_buf_wr: "octets_ok b \<Longrightarrow> take (off b) (buf (wr xs b)) = take (off b) (buf b)"
  by (auto simp: wr_def octets_ok_def)

section \<open>The contract of a get/put pair\<close>

text \<open>
  A value of the wire has an encoding \<open>enc\<close>; \<open>get\<close> reads it and leaves the offset after it,
  \<open>put\<close> overwrites the buffer with it or reports \<open>BufferTooShort\<close>, and reading never panics nor
  changes the bytes.
\<close>

locale wire_codec =
  fixes enc :: "'a \<Rightarrow> u8 list"
    and get :: "octets \<Rightarrow> ('a \<times> octets) result"
    and put :: "'a \<Rightarrow> octets \<Rightarrow> octets result"
    and valid :: "'a \<Rightarrow> bool"
  assumes get_enc:
      "valid v \<Longrightarrow> as_ref b = enc v @ r \<Longrightarrow> get b = Ok (v, advance (length (enc v)) b)"
    and put_eq:
      "valid v \<Longrightarrow> octets_ok b \<Longrightarrow>
       put v b = (if cap b < length (enc v) then Err BufferTooShort else Ok (wr (enc v) b))"
    and get_no_panic: "get b \<noteq> Panic"
    and get_advance:
      "get b = Ok (v, b') \<Longrightarrow> \<exists>n. b' = advance n b \<and> 0 < n \<and> n \<le> cap b"
begin

lemma get_same_buf: "get b = Ok (v, b') \<Longrightarrow> buf b' = buf b"
  by (auto dest: get_advance)

lemma get_cap_less: "get b = Ok (v, b') \<Longrightarrow> cap b' < cap b"
  by (auto dest!: get_advance simp: cap_def)

lemma get_octets_ok: "octets_ok b \<Longrightarrow> get b = Ok (v, b') \<Longrightarrow> octets_ok b'"
  by (auto dest!: get_advance simp: octets_ok_advance)

lemma put_Ok_iff:
  "valid v \<Longrightarrow> octets_ok b \<Longrightarrow> put v b = Ok b' \<longleftrightarrow> length (enc v) \<le> cap b \<and> b' = wr (enc v) b"
  by (auto simp: put_eq)

text \<open>Reading back from the old offset gives the value written, and leaves the offset where
  the write left it.\<close>

lemma put_get:
  assumes "valid v" "octets_ok b" "put v b = Ok b'"
  shows "get (b'\<lparr>off := off b\<rparr>) = Ok (v, b')"
proof -
  from assms have len: "length (enc v) \<le> cap b" and b': "b' = wr (enc v) b"
    by (auto simp: put_Ok_iff)
  have "as_ref (b'\<lparr>off := off b\<rparr>) = enc v @ drop (length (enc v)) (as_ref b)"
    using assms(2) len by (simp add: b' as_ref_wr)
  from get_enc [OF assms(1) this] show ?thesis
    by (simp add: advance_def b')
qed

text \<open>Distinct values have encodings that differ, and none is a prefix of another's.\<close>

lemma enc_prefix_free:
  assumes "valid v" "valid w" "enc v @ r = enc w @ s"
  shows "v = w \<and> r = s"
proof -
  let ?b = "with_slice (enc v @ r)"
  have "as_ref ?b = enc v @ r" by (simp add: as_ref_def with_slice_def)
  then have "get ?b = Ok (v, advance (length (enc v)) ?b)"
    and "get ?b = Ok (w, advance (length (enc w)) ?b)"
    using assms get_enc by metis+
  then have "v = w" by simp
  with assms(3) show ?thesis by simp
qed

end

section \<open>The contract holds\<close>

definition be_enc :: "nat \<Rightarrow> 'w::len word \<Rightarrow> u8 list" where
  "be_enc n v = be_bytes n (unat v)"

lemma length_be_enc [simp]: "length (be_enc n v) = n"
  by (simp add: be_enc_def)

lemma wire_codec_uint:
  assumes "0 < n" and "256 ^ n \<le> (2::nat) ^ LENGTH('w::len)"
  shows "wire_codec (be_enc n :: 'w word \<Rightarrow> _) (get_u n) (put_u n) (\<lambda>v. unat v < 256 ^ n)"
proof
  fix v :: "'w word" and b r
  assume "unat v < 256 ^ n" and r: "as_ref b = be_enc n v @ r"
  then have "be_nat (take n (drop (off b) (buf b))) = unat v" and "n \<le> length (as_ref b)"
    by (auto simp: as_ref_def be_enc_def be_nat_be_bytes)
  then show "get_u n b = Ok (v, advance (length (be_enc n v)) b)"
    by (auto simp: get_u_def peek_u_def as_ref_def advance_def)
next
  fix v :: "'w word" and b
  assume "octets_ok b"
  then show "put_u n v b =
      (if cap b < length (be_enc n v) then Err BufferTooShort else Ok (wr (be_enc n v) b))"
    by (auto simp: put_u_def wr_def cap_def octets_ok_def be_enc_def)
next
  fix b
  show "(get_u n b :: ('w word \<times> octets) result) \<noteq> Panic"
    by (auto simp: get_u_def peek_u_def Let_def)
next
  fix v :: "'w word" and b b'
  assume "get_u n b = Ok (v, b')"
  then show "\<exists>k. b' = advance k b \<and> 0 < k \<and> k \<le> cap b"
    using assms(1) by (auto simp: get_u_def peek_u_def advance_def cap_def Let_def split: if_splits)
qed

interpretation u8c: wire_codec "be_enc 1" get_u8 put_u8 "\<lambda>_. True"
  using wire_codec_uint [of 1, where ?'w = 8] unat_u8
  by (simp add: get_u8_def [abs_def] put_u8_def [abs_def])

interpretation u16c: wire_codec "be_enc 2" get_u16 put_u16 "\<lambda>_. True"
  using wire_codec_uint [of 2, where ?'w = 16] unsigned_less [where ?'a = nat and ?'b = 16]
  by (simp add: get_u16_def [abs_def] put_u16_def [abs_def])

interpretation u24c: wire_codec "be_enc 3" get_u24 put_u24 "\<lambda>v. unat v < 2 ^ 24"
  using wire_codec_uint [of 3, where ?'w = 32]
  by (simp add: get_u24_def [abs_def] put_u24_def [abs_def])

interpretation u32c: wire_codec "be_enc 4" get_u32 put_u32 "\<lambda>_. True"
  using wire_codec_uint [of 4, where ?'w = 32] unsigned_less [where ?'a = nat and ?'b = 32]
  by (simp add: get_u32_def [abs_def] put_u32_def [abs_def])

interpretation u64c: wire_codec "be_enc 8" get_u64 put_u64 "\<lambda>_. True"
  using wire_codec_uint [of 8, where ?'w = 64] unsigned_less [where ?'a = nat and ?'b = 64]
  by (simp add: get_u64_def [abs_def] put_u64_def [abs_def])

subsection \<open>Variable-length integers\<close>

text \<open>
  The encoding as the QUIC drafts state it: the two most significant bits of the first byte
  hold the binary logarithm of the length, the remaining bits the value in network byte order.
\<close>

definition varint_class :: "u64 \<Rightarrow> nat" where
  "varint_class v =
     (if unat v < 2 ^ 6 then 0 else if unat v < 2 ^ 14 then 1 else if unat v < 2 ^ 30 then 2 else 3)"

definition varint_enc :: "u64 \<Rightarrow> u8 list" where
  "varint_enc v =
     (let k = varint_class v; n = 2 ^ k in be_bytes n (k * 2 ^ (8 * n - 2) + unat v))"

definition varint_ok :: "u64 \<Rightarrow> bool" where
  "varint_ok v \<longleftrightarrow> unat v < 2 ^ 62"

lemma length_varint_enc: "length (varint_enc v) = 2 ^ varint_class v"
  by (simp add: varint_enc_def Let_def)

lemma varint_len_eq: "varint_len v = (if varint_ok v then Ok (length (varint_enc v)) else Panic)"
  by (auto simp: varint_len_def varint_ok_def length_varint_enc varint_class_def word_le_nat_alt)

lemma varint_len_cases:
  "length (varint_enc v) \<in> {1, 2, 4, 8}"
  by (simp add: length_varint_enc varint_class_def)

text \<open>One tagged encoding of \<open>n + 1\<close> bytes: a first byte with tag \<open>t\<close>, then \<open>n\<close> bytes.\<close>

lemma tagged_be_bytes:
  assumes "v < 64 * 256 ^ n"
  shows "be_bytes (Suc n) (t * (64 * 256 ^ n) + v)
       = of_nat (64 * t + v div 256 ^ n) # be_bytes n v"
proof -
  have "(t * (64 * 256 ^ n) + v) div 256 ^ n = 64 * t + v div 256 ^ n"
    by (simp add: mult.assoc [symmetric] mult.commute)
  moreover have "be_bytes n (t * (64 * 256 ^ n) + v) = be_bytes n v"
    using be_bytes_add [of n "64 * t" v] by (simp add: algebra_simps)
  ultimately show ?thesis by (simp only: be_bytes_Cons)
qed

lemma or_at_put_u:
  assumes "octets_ok b" "Suc n \<le> cap b" "v < 64 * 256 ^ n" "t < 4"
  shows "or_at (off b) (of_nat (64 * t)) (wr (be_bytes (Suc n) v) b)
       = wr (be_bytes (Suc n) (t * (64 * 256 ^ n) + v)) b"
proof -
  have "v div 256 ^ n < 64" using assms(3) by (simp add: less_mult_imp_div_less)
  then have "of_nat (v div 256 ^ n) OR of_nat (64 * t) = (of_nat (64 * t + v div 256 ^ n) :: u8)"
    using assms(4) by (rule u8_or_tag)
  moreover have "min (length (buf b)) (off b) = off b"
    using assms(1) by (simp add: octets_ok_def)
  ultimately show ?thesis
    unfolding tagged_be_bytes [OF assms(3)] be_bytes_Cons [of n v]
    by (simp add: or_at_def wr_def nth_append list_update_append)
qed

lemma put_varint_eq:
  assumes "octets_ok b"
  shows "put_varint v b =
    (if varint_ok v
     then if cap b < length (varint_enc v) then Err BufferTooShort else Ok (wr (varint_enc v) b)
     else Panic)"
proof (cases "varint_ok v")
  case False
  then show ?thesis by (simp add: put_varint_def varint_len_eq)
next
  case True
  then have v62: "unat v < 2 ^ 62" by (simp add: varint_ok_def)
  have put: "put_u (Suc n) (w :: 'w::len word) b =
      (if cap b < Suc n then Err BufferTooShort else Ok (wr (be_bytes (Suc n) (unat w)) b))" for n w
    using assms by (auto simp: put_u_def wr_def cap_def octets_ok_def)
  consider (c0) "unat v < 2 ^ 6" | (c1) "2 ^ 6 \<le> unat v" "unat v < 2 ^ 14"
    | (c2) "2 ^ 14 \<le> unat v" "unat v < 2 ^ 30" | (c3) "2 ^ 30 \<le> unat v"
    by linarith
  then show ?thesis
  proof cases
    case c0
    then have "unat (ucast v :: u8) = unat v" by (simp add: unsigned_ucast_eq take_bit_eq_mod)
    with c0 True show ?thesis
      using put [of 0 "ucast v :: u8"]
      by (simp add: put_varint_def varint_len_eq length_varint_enc varint_class_def
          put_varint_with_len_def put_u8_def varint_enc_def)
  next
    case c1
    then have "unat (ucast v :: u16) = unat v" by (simp add: unsigned_ucast_eq take_bit_eq_mod)
    with c1 True show ?thesis
      using put [of 1 "ucast v :: u16", unfolded Suc_1]
        or_at_put_u [of b 1 "unat v" 1, unfolded Suc_1] assms
      by (simp add: put_varint_def varint_len_eq length_varint_enc varint_class_def
          put_varint_with_len_def put_u16_def varint_enc_def del: be_bytes.simps)
  next
    case c2
    then have "unat (ucast v :: u32) = unat v" by (simp add: unsigned_ucast_eq take_bit_eq_mod)
    with c2 True show ?thesis
      using put [of 3 "ucast v :: u32"] or_at_put_u [of b 3 "unat v" 2] assms
      by (simp add: put_varint_def varint_len_eq length_varint_enc varint_class_def
          put_varint_with_len_def put_u32_def varint_enc_def del: be_bytes.simps)
  next
    case c3
    with v62 True show ?thesis
      using put [of 7 v] or_at_put_u [of b 7 "unat v" 3] assms
      by (simp add: put_varint_def varint_len_eq length_varint_enc varint_class_def
          put_varint_with_len_def put_u64_def varint_enc_def del: be_bytes.simps)
  qed
qed

text \<open>Reading: the length is that of the first byte's tag, the value that of the remaining bits.\<close>

lemma varint_parse_len_eq: "varint_parse_len x = Ok (2 ^ (unat x div 64))"
proof -
  have "unat (drop_bit 6 x) = drop_bit 6 (take_bit LENGTH(8) (unat x))"
    by (rule unsigned_drop_bit_eq)
  then have u: "unat (drop_bit 6 x) = unat x div 64"
    using unat_u8 [of x] by (simp only: drop_bit_eq_div take_bit_eq_mod) simp
  have lt: "unat x div 64 < 4" using unat_u8 [of x] by simp
  then consider "unat x div 64 = 0" | "unat x div 64 = 1" | "unat x div 64 = 2" | "unat x div 64 = 3"
    by linarith
  then show ?thesis
    by cases (use u in \<open>simp_all add: varint_parse_len_def Let_def word_unat_eq_iff\<close>)
qed

lemma get_u_with_slice:
  assumes "length xs = n" "256 ^ n \<le> (2::nat) ^ LENGTH('w::len)"
  shows "\<exists>w b'. (get_u n (with_slice xs) :: ('w word \<times> octets) result) = Ok (w, b')
      \<and> unat w = be_nat xs"
proof -
  have "unat (of_nat (be_nat xs) :: 'w word) = be_nat xs"
    using be_nat_less [of xs] assms by (simp add: unat_of_nat)
  with assms(1) show ?thesis
    by (simp add: get_u_def peek_u_def with_slice_def)
qed

lemma get_varint_eq:
  "get_varint b =
    (if cap b = 0 then Err BufferTooShort
     else let n = 2 ^ (unat (as_ref b ! 0) div 64) in
       if n > cap b then Err BufferTooShort
       else Ok (of_nat (be_nat ((take n (as_ref b))[0 := as_ref b ! 0 AND 0x3f])), advance n b))"
proof (cases "cap b = 0")
  case True
  then show ?thesis by (simp add: get_varint_def peek_u8_def peek_u_def cap_def)
next
  case False
  define x where "x = as_ref b ! 0"
  define n :: nat where "n = 2 ^ (unat x div 64)"
  have peek: "peek_u8 b = Ok x"
  proof -
    from False have "0 < length (as_ref b)" by (simp add: length_as_ref)
    then obtain y ys where "as_ref b = y # ys" by (cases "as_ref b") auto
    then show ?thesis
      using False by (simp add: peek_u8_def peek_u_def x_def be_nat_def as_ref_def [symmetric] length_as_ref)
  qed
  show ?thesis
  proof (cases "n > cap b")
    case True
    with False show ?thesis
      by (simp add: get_varint_def peek varint_parse_len_eq x_def [symmetric] n_def [symmetric] Let_def)
  next
    case n: False
    define vec where "vec = (take n (as_ref b))[0 := x AND 0x3f]"
    have len: "length vec = n" using n by (simp add: vec_def length_as_ref)
    have n0: "0 < n" by (simp add: n_def)
    have v: "(as_ref \<lparr>buf = take n (drop (off b) (buf b)), off = 0\<rparr>)
        [0 := as_ref \<lparr>buf = take n (drop (off b) (buf b)), off = 0\<rparr> ! 0 AND 0x3f] = vec"
      using n0 by (simp add: vec_def x_def as_ref_def)
    let ?tail = "if n = 1 then bnd (get_u8 (with_slice vec)) (\<lambda>(x, _). Ok (ucast x, advance n b))
       else if n = 2 then bnd (get_u16 (with_slice vec)) (\<lambda>(x, _). Ok (ucast x, advance n b))
       else if n = 4 then bnd (get_u32 (with_slice vec)) (\<lambda>(x, _). Ok (ucast x, advance n b))
       else if n = 8 then bnd (get_u64 (with_slice vec)) (\<lambda>(x, _). Ok (x, advance n b))
       else Panic"
    have tail: "get_varint b = ?tail"
      by (simp only: get_varint_def peek bnd.simps varint_parse_len_eq n_def [symmetric] n if_False
          get_bytes_def prod.case Let_def v advance_def [symmetric])
    have "unat x div 64 < 4" using unat_u8 [of x] by simp
    then have "unat x div 64 \<in> {0, 1, 2, 3}" by auto
    then have "n \<in> {1, 2, 4, 8}" by (auto simp: n_def)
    then have "\<exists>w. ?tail = Ok (w :: u64, advance n b) \<and> unat w = be_nat vec"
      using get_u_with_slice [OF len, where ?'w = 8] get_u_with_slice [OF len, where ?'w = 16]
        get_u_with_slice [OF len, where ?'w = 32] get_u_with_slice [OF len, where ?'w = 64]
      by (auto simp: get_u8_def get_u16_def get_u32_def get_u64_def unat_ucast_up)
    then obtain w where w: "get_varint b = Ok (w, advance n b)" "unat w = be_nat vec"
      unfolding tail by blast
    then have "w = of_nat (be_nat vec)" by (simp flip: w(2))
    with w n False show ?thesis
      by (simp add: x_def [symmetric] n_def [symmetric] vec_def [symmetric] Let_def)
  qed
qed

lemma get_varint_enc:
  assumes "varint_ok v" and "as_ref b = varint_enc v @ r"
  shows "get_varint b = Ok (v, advance (length (varint_enc v)) b)"
proof -
  let ?k = "varint_class v"
  obtain n where n: "2 ^ ?k = Suc n" by (metis Suc_pred zero_less_numeral zero_less_power)
  have k4: "?k < 4" by (simp add: varint_class_def)
  then have "?k \<in> {0, 1, 2, 3}" by auto
  then have pow: "2 ^ (8 * 2 ^ ?k - 2) = (64 :: nat) * 256 ^ n"
    using n by auto
  have v: "unat v < 64 * 256 ^ n"
    using assms(1) n by (auto simp: varint_ok_def varint_class_def split: if_splits)
  define m where "m = unat v div 256 ^ n"
  have m: "m < 64" using v by (simp add: m_def less_mult_imp_div_less)
  have enc: "varint_enc v = of_nat (64 * ?k + m) # be_bytes n (unat v)"
    using tagged_be_bytes [OF v, of ?k, folded pow] by (simp only: varint_enc_def Let_def n m_def)
  have hd: "unat (of_nat (64 * ?k + m) :: u8) div 64 = ?k"
    using m k4 by (simp only: unat_of_nat) simp
  have "be_nat (of_nat m # be_bytes n (unat v)) = be_nat (be_bytes (Suc n) (unat v))"
    by (simp only: be_bytes_Cons m_def)
  also have "\<dots> = unat v"
    using v by (simp add: be_nat_be_bytes del: be_bytes.simps)
  finally have val: "be_nat (of_nat m # be_bytes n (unat v)) = unat v" .
  have "Suc n \<le> cap b"
    using assms(2) by (simp flip: length_as_ref add: enc)
  then show ?thesis
    using assms(2) m k4
    by (simp add: get_varint_eq enc hd n u8_and_3f val del: of_nat_add of_nat_mult)
qed

interpretation vi: wire_codec varint_enc get_varint put_varint varint_ok
proof
  show "\<And>v b r. varint_ok v \<Longrightarrow> as_ref b = varint_enc v @ r \<Longrightarrow>
      get_varint b = Ok (v, advance (length (varint_enc v)) b)"
    by (rule get_varint_enc)
  show "\<And>v b. varint_ok v \<Longrightarrow> octets_ok b \<Longrightarrow> put_varint v b =
      (if cap b < length (varint_enc v) then Err BufferTooShort else Ok (wr (varint_enc v) b))"
    by (simp add: put_varint_eq)
  show "\<And>b. get_varint b \<noteq> Panic"
    by (simp add: get_varint_eq Let_def)
  show "\<And>b v b'. get_varint b = Ok (v, b') \<Longrightarrow> \<exists>n. b' = advance n b \<and> 0 < n \<and> n \<le> cap b"
    by (auto simp: get_varint_eq Let_def split: if_splits)
qed

text \<open>What is read is always a value that can be written: below \<open>2 ^ 62\<close>.\<close>

lemma get_varint_bound:
  assumes "get_varint b = Ok (v, b')"
  shows "varint_ok v"
proof -
  define x where "x = as_ref b ! 0"
  define k where "k = unat x div 64"
  define vec where "vec = (take (2 ^ k) (as_ref b))[0 := x AND 0x3f]"
  from assms have v: "v = of_nat (be_nat vec)" and len: "2 ^ k \<le> length (as_ref b)"
    by (auto simp: get_varint_eq Let_def x_def k_def vec_def length_as_ref split: if_splits)
  have k: "k \<le> 3" using unat_u8 [of x] by (simp add: k_def)
  obtain n where n: "2 ^ k = Suc n" by (metis Suc_pred zero_less_numeral zero_less_power)
  with len obtain y ys where take: "take (2 ^ k) (as_ref b) = y # ys" and "length ys = n"
    by (metis Suc_length_conv length_take min.absorb2)
  then have vec: "vec = (x AND 0x3f) # ys" by (simp add: vec_def)
  have "unat (x AND 0x3f) < 64"
  proof -
    have "unat (x AND 0x3f) = unat x AND 63" by (simp add: unsigned_and_eq)
    also have "\<dots> = unat x mod 64"
      using take_bit_eq_mask [of 6 "unat x"] by (simp add: mask_eq_exp_minus_1 take_bit_eq_mod)
    finally show ?thesis by simp
  qed
  moreover have "be_nat vec = unat (x AND 0x3f) * 256 ^ n + be_nat ys"
    using \<open>length ys = n\<close> by (simp add: vec be_nat_Cons)
  moreover have "be_nat ys < 256 ^ n"
    using be_nat_less [of ys] \<open>length ys = n\<close> by simp
  ultimately have "be_nat vec < (unat (x AND 0x3f) + 1) * 256 ^ n"
    and "(unat (x AND 0x3f) + 1) * 256 ^ n \<le> 64 * 256 ^ n"
    by (simp_all add: Suc_leI)
  then have "be_nat vec < 64 * 256 ^ n" by (rule order_less_le_trans)
  also have "\<dots> \<le> 2 ^ 62"
  proof -
    from k have "k \<in> {0, 1, 2, 3}" by auto
    with n have "n \<in> {0, 1, 3, 7}" by auto
    then show ?thesis by auto
  qed
  finally show ?thesis
    by (simp add: varint_ok_def v unat_of_nat)
qed

subsection \<open>Byte strings\<close>

lemma get_bytes_append:
  "as_ref b = xs @ r \<Longrightarrow> length xs = n \<Longrightarrow> get_bytes n b = Ok (with_slice xs, advance n b)"
proof -
  assume "as_ref b = xs @ r" "length xs = n"
  then have "n \<le> length (as_ref b)" and "take n (drop (off b) (buf b)) = xs"
    by (auto simp: as_ref_def)
  then show ?thesis
    by (simp add: get_bytes_def length_as_ref with_slice_def advance_def)
qed

lemma put_bytes_eq:
  "octets_ok b \<Longrightarrow>
   put_bytes v b = (if cap b < length v then Err BufferTooShort else Ok (wr v b))"
  by (auto simp: put_bytes_def wr_def octets_ok_def Let_def)

lemma as_ref_with_slice [simp]: "as_ref (with_slice xs) = xs"
  by (simp add: as_ref_def with_slice_def)

lemma get_bytes_no_panic: "get_bytes n b \<noteq> Panic"
  by (simp add: get_bytes_def)

lemma get_bytes_advance:
  "get_bytes n b = Ok (v, b') \<Longrightarrow> b' = advance n b \<and> n \<le> cap b \<and> length (as_ref v) = n"
  by (auto simp: get_bytes_def advance_def as_ref_def cap_def split: if_splits)

text \<open>A byte string behind its length as a variable-length integer.\<close>

definition bytes_enc :: "u8 list \<Rightarrow> u8 list" where
  "bytes_enc xs = varint_enc (of_nat (length xs)) @ xs"

lemma get_bytes_with_varint_length_enc:
  assumes "length xs < 2 ^ 62" and "as_ref b = bytes_enc xs @ r"
  shows "get_bytes_with_varint_length b = Ok (with_slice xs, advance (length (bytes_enc xs)) b)"
proof -
  have u: "unat (of_nat (length xs) :: u64) = length xs"
    using assms(1) by (intro unat_of_nat64) simp
  then have ok: "varint_ok (of_nat (length xs))"
    using assms(1) by (simp add: varint_ok_def)
  have b: "as_ref b = varint_enc (of_nat (length xs)) @ xs @ r"
    using assms(2) by (simp add: bytes_enc_def)
  have "as_ref (advance (length (varint_enc (of_nat (length xs)))) b) = xs @ r"
    by (rule as_ref_advance_append [OF b refl])
  from get_bytes_append [OF this refl] show ?thesis
    by (simp add: get_bytes_with_varint_length_def vi.get_enc [OF ok b] u bytes_enc_def)
qed

text \<open>The bundle the parsers are computed with.\<close>

lemmas codec_get =
  u8c.get_enc u16c.get_enc u24c.get_enc u32c.get_enc u64c.get_enc vi.get_enc
  get_bytes_append get_bytes_with_varint_length_enc

lemmas codec_put =
  u8c.put_eq u16c.put_eq u24c.put_eq u32c.put_eq u64c.put_eq put_varint_eq put_bytes_eq

lemmas codec_no_panic =
  u8c.get_no_panic u16c.get_no_panic u24c.get_no_panic u32c.get_no_panic u64c.get_no_panic
  vi.get_no_panic get_bytes_no_panic


section \<open>Properties\<close>

text \<open>Variable-length integers round trip: a value below \<open>2 ^ 62\<close> that was written is read back, and
  reading ends where writing ended; the encoding has the length \<open>varint_len\<close> announces.\<close>

theorem varint_roundtrip:
  assumes "unat v < 2 ^ 62" "octets_ok b" "put_varint v b = Ok b'"
  shows "get_varint (b'\<lparr>off := off b\<rparr>) = Ok (v, b') \<and> varint_len v = Ok (off b' - off b)"
proof -
  have ok: "varint_ok v" using assms(1) by (simp add: varint_ok_def)
  from vi.put_get [OF ok assms(2,3)] assms(3) show ?thesis
    by (auto simp: vi.put_Ok_iff [OF ok assms(2)] varint_len_eq ok)
qed

lemma varint_roundtrip_witness:
  "\<exists>b'. put_varint 15293 (with_slice [0, 0, 9]) = Ok b' \<and> get_varint (b'\<lparr>off := 0\<rparr>) = Ok (15293, b')"
proof -
  let ?b = "with_slice [0, 0, 9]"
  have "is_ok (put_varint 15293 ?b)" by code_simp
  then obtain b' where run: "put_varint 15293 ?b = Ok b'" by (auto simp: is_ok_def split: res.splits)
  from varint_roundtrip [OF _ octets_ok_with_slice run] run show ?thesis by (simp add: with_slice_def)
qed

text \<open>Reading a variable-length integer from any bytes never panics; the value is below \<open>2 ^ 62\<close>, and
  between one and eight bytes of the buffer are consumed.\<close>

theorem get_varint_total:
  "case get_varint b of Panic \<Rightarrow> False | Err e \<Rightarrow> e = BufferTooShort
   | Ok (v, b') \<Rightarrow> unat v < 2 ^ 62 \<and> buf b' = buf b \<and> off b' - off b \<in> {1, 2, 4, 8} \<and> off b' - off b \<le> cap b"
proof (cases "get_varint b")
  case (Ok p)
  then obtain v b' where p: "get_varint b = Ok (v, b')" by (cases p) auto
  have "unat (as_ref b ! 0) div 64 < 4" using unat_u8 [of "as_ref b ! 0"] by simp
  then have "unat (as_ref b ! 0) div 64 \<in> {0, 1, 2, 3}" by auto
  then have "off b' - off b \<in> {1, 2, 4, 8} \<and> off b' - off b \<le> cap b \<and> buf b' = buf b"
    using p by (auto simp: get_varint_eq Let_def split: if_splits)
  with get_varint_bound [OF p] p show ?thesis by (simp add: varint_ok_def)
next
  case (Err e)
  then show ?thesis by (simp add: get_varint_eq Let_def split: if_splits)
next
  case Panic
  then show ?thesis using vi.get_no_panic by blast
qed

end
