(* ===== verification/Wire.thy ===== *)
theory Wire
  imports Octets
begin

text \<open>
  A calculus for printers and parsers over the byte buffer, shared by packets and frames.
  \<open>writes enc p\<close>: the printer \<open>p\<close> overwrites the buffer with \<open>enc\<close> or reports \<open>BufferTooShort\<close>
  (\<open>writes_err\<close>: the error that an HTTP/3 layer makes of it).
  \<open>reads enc v p\<close>: in front of \<open>enc\<close> the parser \<open>p\<close> returns \<open>v\<close> and moves behind it.
  \<open>parses p\<close>: the parser never panics and only moves forward within the buffer. Each is closed
  under sequencing, so that the proof about a printer or parser follows its text; the rules are
  collected in \<open>wire\<close>.
\<close>

definition writes_err :: "'e \<Rightarrow> u8 list \<Rightarrow> (octets \<Rightarrow> ('e, octets) res) \<Rightarrow> bool" where
  "writes_err short enc p \<longleftrightarrow> (\<forall>b. octets_ok b \<longrightarrow>
     p b = (if cap b < length enc then Err short else Ok (wr enc b)))"

abbreviation writes :: "u8 list \<Rightarrow> (octets \<Rightarrow> octets result) \<Rightarrow> bool" where
  "writes \<equiv> writes_err BufferTooShort"

lemmas writes_def = writes_err_def

definition reads :: "u8 list \<Rightarrow> 'a \<Rightarrow> (octets \<Rightarrow> ('e, 'a \<times> octets) res) \<Rightarrow> bool" where
  "reads enc v p \<longleftrightarrow> (\<forall>b r. as_ref b = enc @ r \<longrightarrow> p b = Ok (v, advance (length enc) b))"

definition parses :: "(octets \<Rightarrow> ('e, 'a \<times> octets) res) \<Rightarrow> bool" where
  "parses p \<longleftrightarrow> (\<forall>b. p b \<noteq> Panic \<and> (\<forall>v b'. p b = Ok (v, b') \<longrightarrow> (\<exists>n \<le> cap b. b' = advance n b)))"

named_theorems wire

section \<open>Writing\<close>

lemma writesD: "writes_err short enc p \<Longrightarrow> octets_ok b \<Longrightarrow>
    p b = (if cap b < length enc then Err short else Ok (wr enc b))"
  by (simp add: writes_def)

lemma writes_bnd [wire]:
  assumes "writes_err short e1 p" "writes_err short e2 q"
  shows "writes_err short (e1 @ e2) (\<lambda>b. bnd (p b) q)"
  unfolding writes_def
proof (intro allI impI)
  fix b assume b: "octets_ok b"
  show "bnd (p b) q = (if cap b < length (e1 @ e2) then Err short else Ok (wr (e1 @ e2) b))"
  proof (cases "cap b < length e1")
    case True
    then show ?thesis using writesD [OF assms(1) b] by simp
  next
    case False
    then have "octets_ok (wr e1 b)" "cap (wr e1 b) = cap b - length e1" using b by simp_all
    with False b show ?thesis
      using writesD [OF assms(1) b] writesD [OF assms(2) \<open>octets_ok (wr e1 b)\<close>] by auto
  qed
qed

lemma writes_Ok [wire]: "writes_err short [] Ok"
  by (simp add: writes_def)

lemma writes_eta: "writes_err short e (\<lambda>b. p b) \<Longrightarrow> writes_err short e p"
  by simp

lemma writes_u8 [wire]: "writes (be_enc 1 v) (put_u8 v)"
  by (simp add: writes_def u8c.put_eq)

lemma writes_u16 [wire]: "writes (be_enc 2 v) (put_u16 v)"
  by (simp add: writes_def u16c.put_eq)

lemma writes_u32 [wire]: "writes (be_enc 4 v) (put_u32 v)"
  by (simp add: writes_def u32c.put_eq)

lemma writes_u64 [wire]: "writes (be_enc 8 v) (put_u64 v)"
  by (simp add: writes_def u64c.put_eq)

lemma writes_varint [wire]: "varint_ok v \<Longrightarrow> writes (varint_enc v) (put_varint v)"
  by (simp add: writes_def put_varint_eq)

lemma writes_bytes [wire]: "writes v (put_bytes v)"
  by (simp add: writes_def put_bytes_eq)

lemma writes_map_err [wire]: "writes e p \<Longrightarrow> writes_err (f BufferTooShort) e (\<lambda>b. map_err f (p b))"
  by (simp add: writes_def)

lemma be_enc_u8: "be_enc 1 (v :: u8) = [v]"
  by (simp add: be_enc_def)

section \<open>Reading\<close>

lemma readsD: "reads enc v p \<Longrightarrow> as_ref b = enc @ r \<Longrightarrow> p b = Ok (v, advance (length enc) b)"
  by (simp add: reads_def)

lemma reads_bnd [wire]:
  assumes "reads e1 v p" "reads e2 w (q v)"
  shows "reads (e1 @ e2) w (\<lambda>b. bnd (p b) (\<lambda>(x, b). q x b))"
  unfolding reads_def
proof (intro allI impI)
  fix b r assume b: "as_ref b = (e1 @ e2) @ r"
  then have p: "p b = Ok (v, advance (length e1) b)" using readsD [OF assms(1), of b "e2 @ r"] by simp
  have "as_ref (advance (length e1) b) = e2 @ r"
    using b by (simp add: as_ref_advance)
  from readsD [OF assms(2) this] p
  show "bnd (p b) (\<lambda>(x, b). q x b) = Ok (w, advance (length (e1 @ e2)) b)" by simp
qed

lemma reads_Ok [wire]: "reads [] v (\<lambda>b. Ok (v, b))"
  by (simp add: reads_def)

lemma reads_u8 [wire]: "reads (be_enc 1 v) v get_u8"
  unfolding reads_def using u8c.get_enc by blast

lemma reads_u16 [wire]: "reads (be_enc 2 v) v get_u16"
  unfolding reads_def using u16c.get_enc by blast

lemma reads_u32 [wire]: "reads (be_enc 4 v) v get_u32"
  unfolding reads_def using u32c.get_enc by blast

lemma reads_u64 [wire]: "reads (be_enc 8 v) v get_u64"
  unfolding reads_def using u64c.get_enc by blast

lemma reads_varint [wire]: "varint_ok v \<Longrightarrow> reads (varint_enc v) v get_varint"
  unfolding reads_def using vi.get_enc by blast

lemma reads_bytes [wire]: "length xs = n \<Longrightarrow> reads xs (with_slice xs) (get_bytes n)"
  unfolding reads_def using get_bytes_append by blast

lemma reads_bytes_varint [wire]:
  "length xs < 2 ^ 62 \<Longrightarrow> reads (bytes_enc xs) (with_slice xs) get_bytes_with_varint_length"
  unfolding reads_def using get_bytes_with_varint_length_enc by blast

lemma reads_map [wire]:
  "reads e v p \<Longrightarrow> w = f v \<Longrightarrow> reads e w (\<lambda>b. bnd (p b) (\<lambda>(x, b). Ok (f x, b)))"
  by (simp add: reads_def)

lemma reads_map_err [wire]: "reads e v p \<Longrightarrow> reads e v (\<lambda>b. map_err f (p b))"
  by (simp add: reads_def)

lemma writes_eqI: "writes_err short e p \<Longrightarrow> e' = e \<Longrightarrow> writes_err short e' p"
  by simp

section \<open>Totality\<close>

lemma parses_bnd [wire]:
  assumes "parses p" "\<And>x. parses (q x)"
  shows "parses (\<lambda>b. bnd (p b) (\<lambda>(x, b). q x b))"
  unfolding parses_def
proof (intro allI conjI impI)
  fix b
  show "bnd (p b) (\<lambda>(x, b). q x b) \<noteq> Panic"
    using assms by (cases "p b") (auto simp: parses_def split: prod.split)
  fix w b' assume "bnd (p b) (\<lambda>(x, b). q x b) = Ok (w, b')"
  then obtain x b1 where 1: "p b = Ok (x, b1)" "q x b1 = Ok (w, b')" by auto
  with assms obtain n1 n2 where n: "n1 \<le> cap b" "b1 = advance n1 b" "n2 \<le> cap b1" "b' = advance n2 b1"
    unfolding parses_def by metis
  then have "cap b1 = cap b - n1" by (simp add: cap_def)
  with n show "\<exists>n \<le> cap b. b' = advance n b" by (intro exI [of _ "n1 + n2"]) auto
qed

lemma parses_Ok [wire]: "parses (\<lambda>b. Ok (v, b))"
  unfolding parses_def by (auto intro: exI [of _ 0])

lemma parses_Err [wire]: "parses (\<lambda>b. Err e)"
  by (simp add: parses_def)

lemma parses_map_err [wire]: "parses p \<Longrightarrow> parses (\<lambda>b. map_err f (p b))"
  by (simp add: parses_def)

lemma parses_if [wire]: "(c \<Longrightarrow> parses p) \<Longrightarrow> (\<not> c \<Longrightarrow> parses q) \<Longrightarrow> parses (\<lambda>b. if c then p b else q b)"
  by (cases c) simp_all

lemma parses_if_b: "parses p \<Longrightarrow> parses q \<Longrightarrow> parses (\<lambda>b. if c b then p b else q b)"
  unfolding parses_def by (auto split: if_splits)

lemma parses_codec [wire]: "parses get_u8" "parses get_u16" "parses get_u24" "parses get_u32" "parses get_u64"
    "parses get_varint"
  unfolding parses_def
  using u8c.get_no_panic u16c.get_no_panic u24c.get_no_panic u32c.get_no_panic u64c.get_no_panic vi.get_no_panic
    u8c.get_advance u16c.get_advance u24c.get_advance u32c.get_advance u64c.get_advance vi.get_advance
  by (meson)+

lemma parses_get_bytes [wire]: "parses (get_bytes n)"
  unfolding parses_def using get_bytes_advance get_bytes_no_panic by blast

lemma parses_get_bytes_varint [wire]: "parses get_bytes_with_varint_length"
proof -
  have "parses (\<lambda>b. bnd (get_varint b) (\<lambda>(n, b). get_bytes (unat n) b))"
    by (intro parses_bnd parses_codec parses_get_bytes)
  then show ?thesis unfolding get_bytes_with_varint_length_def .
qed

section \<open>Round trips\<close>

lemma advance_at_off: "octets_ok b \<Longrightarrow> advance (length e) ((wr e b)\<lparr>off := off b\<rparr>) = wr e b"
  by (simp add: advance_def wr_def)

text \<open>What a printer wrote is read back, from where it started, by the parser of the same encoding.\<close>

lemma writes_reads:
  assumes "writes_err short e p" "reads e v q" "octets_ok b" "p b = Ok b'"
  shows "q (b'\<lparr>off := off b\<rparr>) = Ok (v, b')"
proof -
  from writesD [OF assms(1,3)] assms(4) have len: "length e \<le> cap b" and b': "b' = wr e b"
    by (auto split: if_splits)
  from readsD [OF assms(2) as_ref_wr [OF assms(3) len]] show ?thesis
    by (simp add: b' advance_at_off [OF assms(3)])
qed

lemma parses_pure [wire]: "m \<noteq> Panic \<Longrightarrow> (\<And>x. parses (q x)) \<Longrightarrow> parses (\<lambda>b. bnd m (\<lambda>x. q x b))"
  by (cases m) (simp_all add: parses_def)

lemma parses_get_bytes_dep: "parses (\<lambda>b. get_bytes (f b) b)"
  unfolding parses_def using get_bytes_advance get_bytes_no_panic by blast

text \<open>The same without the calculus' quantifiers: the form in which the properties state it.\<close>

lemma parses_cases:
  "parses p \<Longrightarrow> (case p b of Panic \<Rightarrow> False | Err e \<Rightarrow> True | Ok (v, b') \<Rightarrow> buf b' = buf b \<and> off b \<le> off b' \<and> off b' \<le> off b + cap b)"
  by (cases "p b") (auto simp: parses_def dest!: spec [of _ b])

section \<open>Writers stay in the buffer\<close>

text \<open>Whatever it is asked to write, a printer that succeeds leaves the buffer as long as it was and its
  offset inside it.\<close>

definition fills :: "(octets \<Rightarrow> ('e, octets) res) \<Rightarrow> bool" where
  "fills p \<longleftrightarrow> (\<forall>b b'. octets_ok b \<longrightarrow> p b = Ok b' \<longrightarrow>
     octets_ok b' \<and> length (buf b') = length (buf b) \<and> off b \<le> off b')"

lemma fillsD:
  assumes "fills p" "octets_ok b" "p b = Ok b'"
  shows "octets_ok b'" "length (buf b') = length (buf b)" "off b \<le> off b'"
  using assms by (auto simp: fills_def)

lemma fillsI:
  "(\<And>b b'. octets_ok b \<Longrightarrow> p b = Ok b' \<Longrightarrow> \<exists>e. length e \<le> cap b \<and> b' = wr e b) \<Longrightarrow> fills p"
  unfolding fills_def by (metis length_buf_wr octets_ok_wr off_wr le_add1)

lemma fills_writes: "writes_err short e p \<Longrightarrow> fills p"
  by (rule fillsI) (auto dest!: writesD split: if_splits intro!: exI [of _ e])

lemma fills_bnd:
  assumes "fills p" "fills q"
  shows "fills (\<lambda>b. bnd (p b) q)"
  unfolding fills_def
proof (intro allI impI)
  fix b b' assume b: "octets_ok b" and run: "bnd (p b) q = Ok b'"
  then obtain b1 where 1: "p b = Ok b1" "q b1 = Ok b'" by auto
  show "octets_ok b' \<and> length (buf b') = length (buf b) \<and> off b \<le> off b'"
    using fillsD [OF assms(1) b 1(1)] fillsD [OF assms(2) _ 1(2)] by simp
qed

lemma fills_pure: "(\<And>x. fills (p x)) \<Longrightarrow> fills (\<lambda>b. bnd r (\<lambda>x. p x b))"
  by (cases r) (auto simp: fills_def)

lemma fills_Ok: "fills Ok"
  by (simp add: fills_def)

lemma fills_Err: "fills (\<lambda>b. Err e)"
  by (simp add: fills_def)

lemma fills_if: "fills p \<Longrightarrow> fills q \<Longrightarrow> fills (\<lambda>b. if c then p b else q b)"
  by (cases c) simp_all

lemma fills_varint: "fills (put_varint v)"
proof (cases "varint_ok v")
  case True
  then show ?thesis by (rule fills_writes [OF writes_varint])
next
  case False
  then have "put_varint v = (\<lambda>b. Panic)"
    by (auto simp: put_varint_def varint_len_def varint_ok_def word_le_nat_alt)
  then show ?thesis by (simp add: fills_def)
qed

lemmas fills_rules = fills_bnd fills_pure fills_Ok fills_Err fills_if fills_varint
  fills_writes [OF writes_u8] fills_writes [OF writes_u16] fills_writes [OF writes_u32] fills_writes [OF writes_bytes]

end
