(* ===== verification/BTree.thy ===== *)
theory BTree
  imports Prelude
begin

text \<open>
  The standard library's \<open>BTreeMap\<close>, which the sources use as an ordered dictionary, modelled as
  its list of entries in strictly increasing key order. \<open>ordered_map\<close> is the contract the
  components rely on, interpreted here for the list; \<open>src/ranges.rs\<close>, \<open>src/fec.rs\<close> and
  \<open>src/recovery.rs\<close> keep their state in such maps.
\<close>

type_synonym ('k, 'v) btree = "('k \<times> 'v) list"

fun bt_insert :: "'k::linorder \<Rightarrow> 'v \<Rightarrow> ('k, 'v) btree \<Rightarrow> ('k, 'v) btree" where
  "bt_insert k v [] = [(k, v)]"
| "bt_insert k v (x # xs) =
     (if k < fst x then (k, v) # x # xs
      else if k = fst x then (k, v) # xs
      else x # bt_insert k v xs)"

definition bt_remove :: "'k::linorder \<Rightarrow> ('k, 'v) btree \<Rightarrow> ('k, 'v) btree" where
  "bt_remove k m = filter (\<lambda>x. fst x \<noteq> k) m"

definition bt_get :: "'k::linorder \<Rightarrow> ('k, 'v) btree \<Rightarrow> 'v option" where
  "bt_get k m = map_of m k"

text \<open>The entries of \<open>range(..=k)\<close> and of \<open>range(k..)\<close>, in key order.\<close>

definition bt_upto :: "'k::linorder \<Rightarrow> ('k, 'v) btree \<Rightarrow> ('k \<times> 'v) list" where
  "bt_upto k m = filter (\<lambda>x. fst x \<le> k) m"

definition bt_from :: "'k::linorder \<Rightarrow> ('k, 'v) btree \<Rightarrow> ('k \<times> 'v) list" where
  "bt_from k m = filter (\<lambda>x. k \<le> fst x) m"

definition bt_wf :: "('k::linorder, 'v) btree \<Rightarrow> bool" where
  "bt_wf m \<longleftrightarrow> sorted_wrt (<) (map fst m)"

lemma bt_wf_Nil [simp]: "bt_wf []"
  by (simp add: bt_wf_def)

lemma bt_wf_Cons: "bt_wf (x # xs) \<longleftrightarrow> (\<forall>y \<in> set xs. fst x < fst y) \<and> bt_wf xs"
  by (auto simp: bt_wf_def)

lemma bt_wf_distinct: "bt_wf m \<Longrightarrow> distinct (map fst m)"
  by (auto simp: bt_wf_def strict_sorted_iff)

lemma set_bt_insert:
  "bt_wf m \<Longrightarrow> set (bt_insert k v m) = insert (k, v) {x \<in> set m. fst x \<noteq> k}"
  by (induction m) (auto simp: bt_wf_Cons)

lemma bt_wf_insert: "bt_wf m \<Longrightarrow> bt_wf (bt_insert k v m)"
  by (induction m) (auto simp: bt_wf_Cons set_bt_insert)

lemma set_bt_insert_subset: "set (bt_insert k v m) \<subseteq> insert (k, v) (set m)"
  by (induction m) auto

lemma set_bt_remove [simp]: "set (bt_remove k m) = {x \<in> set m. fst x \<noteq> k}"
  by (auto simp: bt_remove_def)

lemma bt_wf_remove: "bt_wf m \<Longrightarrow> bt_wf (bt_remove k m)"
  by (auto simp: bt_wf_def bt_remove_def sorted_wrt_map intro: sorted_wrt_filter)

lemma bt_get_Some_iff: "bt_wf m \<Longrightarrow> bt_get k m = Some v \<longleftrightarrow> (k, v) \<in> set m"
  by (auto simp: bt_get_def bt_wf_distinct dest: map_of_SomeD)

lemma set_bt_upto [simp]: "set (bt_upto k m) = {x \<in> set m. fst x \<le> k}"
  by (auto simp: bt_upto_def)

lemma set_bt_from [simp]: "set (bt_from k m) = {x \<in> set m. k \<le> fst x}"
  by (auto simp: bt_from_def)

lemma bt_upto_sorted: "bt_wf m \<Longrightarrow> sorted_wrt (<) (map fst (bt_upto k m))"
  by (auto simp: bt_wf_def bt_upto_def sorted_wrt_map intro: sorted_wrt_filter)

lemma bt_from_sorted: "bt_wf m \<Longrightarrow> sorted_wrt (<) (map fst (bt_from k m))"
  by (auto simp: bt_wf_def bt_from_def sorted_wrt_map intro: sorted_wrt_filter)

lemma length_bt_remove_less: "x \<in> set m \<Longrightarrow> fst x = k \<Longrightarrow> length (bt_remove k m) < length m"
  by (auto simp: bt_remove_def intro: length_filter_less)

text \<open>Two ordered lists with the same entries are equal.\<close>

lemma bt_eqI: "bt_wf m \<Longrightarrow> bt_wf m' \<Longrightarrow> set m = set m' \<Longrightarrow> m = m'"
proof (induction m arbitrary: m')
  case Nil
  then show ?case by simp
next
  case (Cons x xs)
  then obtain y ys where m': "m' = y # ys" by (cases m') auto
  have "x = y"
  proof (rule ccontr)
    assume "x \<noteq> y"
    with Cons.prems m' have "y \<in> set xs" "x \<in> set ys" by auto
    with Cons.prems m' have "fst x < fst y" "fst y < fst x" by (auto simp: bt_wf_Cons)
    then show False by simp
  qed
  moreover from this Cons.prems m' have "set xs = set ys"
    by (auto simp: bt_wf_Cons)
  ultimately show ?case
    using Cons m' by (auto simp: bt_wf_Cons)
qed

section \<open>The contract of an ordered dictionary\<close>

locale ordered_map =
  fixes empty :: "'m"
    and ins :: "'k::linorder \<Rightarrow> 'v \<Rightarrow> 'm \<Rightarrow> 'm"
    and del :: "'k \<Rightarrow> 'm \<Rightarrow> 'm"
    and get :: "'k \<Rightarrow> 'm \<Rightarrow> 'v option"
    and entries :: "'m \<Rightarrow> ('k \<times> 'v) list"
    and inv :: "'m \<Rightarrow> bool"
  assumes inv_empty: "inv empty"
    and inv_ins: "inv m \<Longrightarrow> inv (ins k v m)"
    and inv_del: "inv m \<Longrightarrow> inv (del k m)"
    and entries_empty: "entries empty = []"
    and entries_sorted: "inv m \<Longrightarrow> sorted_wrt (<) (map fst (entries m))"
    and entries_ins: "inv m \<Longrightarrow> set (entries (ins k v m)) = insert (k, v) {x \<in> set (entries m). fst x \<noteq> k}"
    and entries_del: "inv m \<Longrightarrow> set (entries (del k m)) = {x \<in> set (entries m). fst x \<noteq> k}"
    and get_entries: "inv m \<Longrightarrow> get k m = Some v \<longleftrightarrow> (k, v) \<in> set (entries m)"
begin

lemma get_empty: "get k empty = None"
  using get_entries [OF inv_empty] by (cases "get k empty") (auto simp: entries_empty)

lemma get_ins: "inv m \<Longrightarrow> get k (ins k' v m) = (if k = k' then Some v else get k m)"
  by (rule option_eqI) (auto simp: get_entries inv_ins entries_ins)

lemma get_del: "inv m \<Longrightarrow> get k (del k' m) = (if k = k' then None else get k m)"
  by (rule option_eqI) (auto simp: get_entries inv_del entries_del)

lemma keys_unique: "inv m \<Longrightarrow> (k, v) \<in> set (entries m) \<Longrightarrow> (k, v') \<in> set (entries m) \<Longrightarrow> v = v'"
  by (metis get_entries option.inject)

lemma sum_ins:
  assumes "inv m" "get k m = None"
  shows "(\<Sum>x \<leftarrow> entries (ins k v m). f x :: 'a::comm_monoid_add) = f (k, v) + (\<Sum>x \<leftarrow> entries m. f x)"
proof -
  have d: "distinct (entries m')" if "inv m'" for m'
    using entries_sorted [OF that] by (simp add: strict_sorted_iff distinct_map)
  have "{x \<in> set (entries m). fst x \<noteq> k} = set (entries m)"
    using assms by (auto simp: get_entries [symmetric])
  moreover have "(k, v) \<notin> set (entries m)" using assms by (simp add: get_entries [symmetric])
  ultimately show ?thesis
    using assms(1) by (simp add: sum_list_distinct_conv_sum_set d inv_ins entries_ins)
qed

lemma sum_del:
  assumes "inv m" "get k m = Some v"
  shows "(\<Sum>x \<leftarrow> entries m. f x :: 'a::comm_monoid_add) = f (k, v) + (\<Sum>x \<leftarrow> entries (del k m). f x)"
proof -
  have d: "distinct (entries m')" if "inv m'" for m'
    using entries_sorted [OF that] by (simp add: strict_sorted_iff distinct_map)
  have kv: "(k, v) \<in> set (entries m)" using assms by (simp add: get_entries)
  have "set (entries (del k m)) = set (entries m) - {(k, v)}"
    using assms kv by (auto simp: entries_del dest: keys_unique)
  with kv show ?thesis
    using assms(1) by (simp add: sum_list_distinct_conv_sum_set d inv_del sum.remove)
qed

end

interpretation bt: ordered_map "[]" bt_insert bt_remove bt_get "\<lambda>m. m" bt_wf
  by unfold_locales
    (auto simp: bt_wf_insert bt_wf_remove set_bt_insert bt_get_Some_iff bt_wf_def [symmetric])

end
