(* ===== verification/Ranges.thy ===== *)
theory Ranges
  imports BTree
begin

text \<open>
  \<open>RangeSet\<close> of \<open>src/ranges.rs\<close>: a set of \<open>u64\<close> kept as a \<open>BTreeMap\<close> from the start of each
  half-open range to its end. The operations are those of the source, over the ordered entry list
  of \<open>BTree\<close>; \<open>rs_set\<close> is the set a map stands for, \<open>rs_wf\<close> the invariant (ranges in order, with
  a gap between any two). The lemmas say that \<open>rs_insert\<close>, \<open>rs_remove_until\<close>, \<open>rs_largest\<close> and the
  iterators compute union, difference, maximum and the increasing enumeration of that set.
\<close>

type_synonym u64_range = "u64 \<times> u64"
type_synonym rangeset = "(u64, u64) btree"

section \<open>Operations\<close>

definition range_contains :: "u64_range \<Rightarrow> u64 \<Rightarrow> bool" where
  "range_contains r x \<longleftrightarrow> fst r \<le> x \<and> x < snd r"

definition range_overlaps :: "u64_range \<Rightarrow> u64_range \<Rightarrow> bool" where
  "range_overlaps r other \<longleftrightarrow>
     fst other \<ge> fst r \<and> fst other \<le> snd r \<or> snd other \<ge> fst r \<and> snd other \<le> snd r"

definition prev_to :: "rangeset \<Rightarrow> u64 \<Rightarrow> u64_range option" where
  "prev_to m item = (case rev (bt_upto item m) of [] \<Rightarrow> None | r # _ \<Rightarrow> Some r)"

definition next_to :: "rangeset \<Rightarrow> u64 \<Rightarrow> u64_range option" where
  "next_to m item = (case bt_from item m of [] \<Rightarrow> None | r # _ \<Rightarrow> Some r)"

lemma next_to_in: "next_to m x = Some r \<Longrightarrow> r \<in> set m \<and> x \<le> fst r"
proof -
  assume "next_to m x = Some r"
  then have "r \<in> set (bt_from x m)" 
    by (auto simp: next_to_def simp del: set_bt_from split: list.splits)
  then show ?thesis by simp
qed

text \<open>The \<open>while let\<close> loop of \<open>insert\<close>, which ends with the insertion of the merged range.\<close>

function rs_insert_loop :: "u64_range \<Rightarrow> u64 \<Rightarrow> u64 \<Rightarrow> rangeset \<Rightarrow> rangeset" where
  "rs_insert_loop item start end m =
     (case next_to m start of
        None \<Rightarrow> bt_insert start end m
      | Some r \<Rightarrow>
          if range_contains item (fst r) \<and> range_contains item (snd r)
          then rs_insert_loop item start end (bt_remove (fst r) m)
          else if \<not> range_overlaps r item then bt_insert start end m
          else rs_insert_loop item (min start (fst r)) (max end (snd r)) (bt_remove (fst r) m))"
  by pat_completeness auto
termination
  by (relation "measure (\<lambda>(item, start, end, m). length m)")
    (auto dest!: next_to_in intro: length_bt_remove_less)

declare rs_insert_loop.simps [simp del]

lemma rs_insert_loop_stop:
  "next_to m start = None \<Longrightarrow> rs_insert_loop item start end m = bt_insert start end m"
  "next_to m start = Some r \<Longrightarrow> \<not> (range_contains item (fst r) \<and> range_contains item (snd r)) \<Longrightarrow>
   \<not> range_overlaps r item \<Longrightarrow> rs_insert_loop item start end m = bt_insert start end m"
  by (simp_all only: rs_insert_loop.simps [of item start "end" m] option.case if_False simp_thms if_True)

lemma rs_insert_loop_step:
  "next_to m start = Some r \<Longrightarrow> range_contains item (fst r) \<and> range_contains item (snd r) \<Longrightarrow>
   rs_insert_loop item start end m = rs_insert_loop item start end (bt_remove (fst r) m)"
  "next_to m start = Some r \<Longrightarrow> \<not> (range_contains item (fst r) \<and> range_contains item (snd r)) \<Longrightarrow>
   range_overlaps r item \<Longrightarrow> rs_insert_loop item start end m =
     rs_insert_loop item (min start (fst r)) (max end (snd r)) (bt_remove (fst r) m)"
  by (simp_all only: rs_insert_loop.simps [of item start "end" m] option.case if_False simp_thms if_True)

definition rs_insert :: "u64_range \<Rightarrow> rangeset \<Rightarrow> rangeset" where
  "rs_insert item m =
     (let start = fst item; end = snd item in
      case prev_to m start of
        None \<Rightarrow> rs_insert_loop item start end m
      | Some r \<Rightarrow>
          if range_overlaps r item
          then rs_insert_loop item (min start (fst r)) (max end (snd r)) (bt_remove (fst r) m)
          else rs_insert_loop item start end m)"

fun rs_remove_until_loop :: "u64 \<Rightarrow> u64_range list \<Rightarrow> rangeset \<Rightarrow> rangeset" where
  "rs_remove_until_loop largest [] m = m"
| "rs_remove_until_loop largest (r # rs) m =
     (let m = bt_remove (fst r) m in
      if snd r > largest + 1
      then rs_remove_until_loop largest rs (rs_insert (largest + 1, snd r) m)
      else rs_remove_until_loop largest rs m)"

definition rs_remove_until :: "u64 \<Rightarrow> rangeset \<Rightarrow> rangeset" where
  "rs_remove_until largest m = rs_remove_until_loop largest (bt_upto largest m) m"

definition rs_push_item :: "u64 \<Rightarrow> rangeset \<Rightarrow> rangeset" where
  "rs_push_item item m = rs_insert (item, item + 1) m"

definition rs_len :: "rangeset \<Rightarrow> nat" where
  "rs_len m = length m"

definition rs_is_empty :: "rangeset \<Rightarrow> bool" where
  "rs_is_empty m \<longleftrightarrow> rs_len m = 0"

text \<open>\<open>PartialEq<Range<u64>>\<close>: one range, equal to the given one.\<close>

definition rs_eq_range :: "rangeset \<Rightarrow> u64_range \<Rightarrow> bool" where
  "rs_eq_range m other =
     (if length m \<noteq> 1 then False else if hd m \<noteq> other then False else True)"

text \<open>The \<open>Iter\<close> iterator yields the entries in order from either end; \<open>Flatten\<close> their elements.\<close>

definition rs_iter_next :: "rangeset \<Rightarrow> (u64_range \<times> rangeset) option" where
  "rs_iter_next it = (case it of [] \<Rightarrow> None | r # rs \<Rightarrow> Some (r, rs))"

definition rs_iter_next_back :: "rangeset \<Rightarrow> (u64_range \<times> rangeset) option" where
  "rs_iter_next_back it = (if it = [] then None else Some (last it, butlast it))"

record flatten =
  fl_inner :: rangeset
  fl_next :: u64
  fl_end :: u64

definition rs_flatten :: "rangeset \<Rightarrow> flatten" where
  "rs_flatten m = \<lparr>fl_inner = m, fl_next = 0, fl_end = 0\<rparr>"

definition flatten_next :: "flatten \<Rightarrow> (u64 \<times> flatten) option" where
  "flatten_next f =
     (if fl_next f = fl_end f
      then (case rs_iter_next (fl_inner f) of
          None \<Rightarrow> None
        | Some ((start, end), inner) \<Rightarrow>
            Some (start, \<lparr>fl_inner = inner, fl_next = start + 1, fl_end = end\<rparr>))
      else Some (fl_next f, f\<lparr>fl_next := fl_next f + 1\<rparr>))"

definition flatten_next_back :: "flatten \<Rightarrow> (u64 \<times> flatten) option" where
  "flatten_next_back f =
     (if fl_next f = fl_end f
      then (case rs_iter_next_back (fl_inner f) of
          None \<Rightarrow> None
        | Some ((start, end), inner) \<Rightarrow>
            Some (end - 1, \<lparr>fl_inner = inner, fl_next = start, fl_end = end - 1\<rparr>))
      else Some (fl_end f - 1, f\<lparr>fl_end := fl_end f - 1\<rparr>))"

definition rs_largest :: "rangeset \<Rightarrow> u64 option" where
  "rs_largest m = map_option fst (flatten_next_back (rs_flatten m))"

section \<open>The set a range map stands for\<close>

definition rs_set :: "rangeset \<Rightarrow> u64 set" where
  "rs_set m = (\<Union>r \<in> set m. {fst r..<snd r})"

text \<open>Ordered, no range ends before it starts, and two ranges never touch.\<close>

definition rs_wf :: "rangeset \<Rightarrow> bool" where
  "rs_wf m \<longleftrightarrow> bt_wf m \<and> (\<forall>r \<in> set m. fst r \<le> snd r)
     \<and> (\<forall>p \<in> set m. \<forall>q \<in> set m. fst p < fst q \<longrightarrow> snd p < fst q)"

definition rs_nonempty :: "rangeset \<Rightarrow> bool" where
  "rs_nonempty m \<longleftrightarrow> (\<forall>r \<in> set m. fst r < snd r)"

lemma rs_wf_Nil [simp]: "rs_wf []"
  by (simp add: rs_wf_def)

lemma rs_set_Nil [simp]: "rs_set [] = {}"
  by (simp add: rs_set_def)

lemma rs_wf_bt [dest]: "rs_wf m \<Longrightarrow> bt_wf m"
  by (simp add: rs_wf_def)

lemma rs_wf_remove: "rs_wf m \<Longrightarrow> rs_wf (bt_remove k m)"
  by (auto simp: rs_wf_def bt_wf_remove)

lemma rs_wf_eq:
  "rs_wf m \<Longrightarrow> p \<in> set m \<Longrightarrow> q \<in> set m \<Longrightarrow> fst p = fst q \<Longrightarrow> p = q"
  using bt.keys_unique [of m "fst p" "snd p" "snd q"] by (cases p; cases q) auto

lemma next_to_least:
  assumes "bt_wf m" "next_to m x = Some r"
  shows "r \<in> set m \<and> x \<le> fst r \<and> (\<forall>q \<in> set m. x \<le> fst q \<longrightarrow> fst r \<le> fst q)"
proof -
  from assms(2) obtain rs where rs: "bt_from x m = r # rs"
    by (auto simp: next_to_def split: list.splits)
  with bt_from_sorted [OF assms(1), of x] have "\<forall>q \<in> set (bt_from x m). fst r \<le> fst q"
    by auto
  moreover have "r \<in> set (bt_from x m)" using rs by simp
  ultimately show ?thesis by auto
qed

lemma next_to_None: "next_to m x = None \<Longrightarrow> q \<in> set m \<Longrightarrow> fst q < x"
proof -
  assume "next_to m x = None" "q \<in> set m"
  then have "q \<notin> set (bt_from x m)"
    by (auto simp: next_to_def simp del: set_bt_from split: list.splits)
  with \<open>q \<in> set m\<close> show ?thesis by simp
qed

lemma prev_to_greatest:
  assumes "bt_wf m" "prev_to m x = Some r"
  shows "r \<in> set m \<and> fst r \<le> x \<and> (\<forall>q \<in> set m. fst q \<le> x \<longrightarrow> fst q \<le> fst r)"
proof -
  from assms(2) obtain rs where "rev (bt_upto x m) = r # rs"
    by (auto simp: prev_to_def split: list.splits)
  then have rs: "bt_upto x m = rev rs @ [r]" by (metis rev_rev_ident rev.simps(2))
  with bt_upto_sorted [OF assms(1), of x] have "\<forall>q \<in> set (bt_upto x m). fst q \<le> fst r"
    by (auto simp: sorted_wrt_append)
  moreover have "r \<in> set (bt_upto x m)" using rs by simp
  ultimately show ?thesis by auto
qed

lemma prev_to_None: "prev_to m x = None \<Longrightarrow> q \<in> set m \<Longrightarrow> x < fst q"
proof -
  assume "prev_to m x = None" "q \<in> set m"
  then have "q \<notin> set (bt_upto x m)"
    by (auto simp: prev_to_def simp del: set_bt_upto split: list.splits)
  with \<open>q \<in> set m\<close> show ?thesis by simp
qed

section \<open>Insertion\<close>

text \<open>Adding a range that touches no other.\<close>

lemma rs_wf_bt_insert:
  assumes "rs_wf m" "s \<le> e" "\<forall>q \<in> set m. snd q < s \<or> e < fst q"
  shows "rs_wf (bt_insert s e m)" and "rs_set (bt_insert s e m) = rs_set m \<union> {s..<e}"
proof -
  have sep: "fst q \<le> snd q \<and> (snd q < s \<or> e < fst q)" if "q \<in> set m" for q
    using assms that by (auto simp: rs_wf_def)
  have "fst q \<noteq> s" if "q \<in> set m" for q
    using sep [OF that] assms(2) by auto
  then have "{x \<in> set m. fst x \<noteq> s} = set m" by auto
  then have set: "set (bt_insert s e m) = insert (s, e) (set m)"
    using assms(1) by (auto simp: set_bt_insert rs_wf_bt)
  then show "rs_set (bt_insert s e m) = rs_set m \<union> {s..<e}"
    by (auto simp: rs_set_def)
  have "snd p < fst q" if "p \<in> insert (s, e) (set m)" "q \<in> insert (s, e) (set m)" "fst p < fst q" for p q
  proof -
    from that(1,2) consider "p = (s, e)" "q = (s, e)" | "p = (s, e)" "q \<in> set m"
      | "p \<in> set m" "q = (s, e)" | "p \<in> set m" "q \<in> set m"
      by auto
    then show ?thesis
    proof cases
      case 2
      with sep [of q] that(3) show ?thesis by auto
    next
      case 3
      with sep [of p] that(3) assms(2) show ?thesis by auto
    qed (use assms(1) that(3) in \<open>auto simp: rs_wf_def\<close>)
  qed
  with assms(1,2) show "rs_wf (bt_insert s e m)"
    by (auto simp: rs_wf_def bt_wf_insert set)
qed

text \<open>
  The loop: \<open>item\<close> is the range asked for, \<open>start..end\<close> what has been merged so far. Ranges that
  begin at or before the item were dealt with before; the others are all beyond \<open>end\<close> once \<open>end\<close>
  exceeds the item's own end.
\<close>

lemma rs_insert_loop_correct:
  assumes "rs_wf m" "fst item \<le> snd item" "start \<le> fst item" "snd item \<le> end"
    and "\<forall>q \<in> set m. fst q \<le> fst item \<longrightarrow> snd q < start"
    and "\<forall>q \<in> set m. fst item < fst q \<longrightarrow> end = snd item \<or> end < fst q"
  shows "rs_wf (rs_insert_loop item start end m)
    \<and> rs_set (rs_insert_loop item start end m) = rs_set m \<union> {start..<end}"
  using assms
proof (induction item start "end" m rule: rs_insert_loop.induct)
  case (1 item start "end" m)
  note wf = "1.prems"(1) and it = "1.prems"(2) and st = "1.prems"(3) and en = "1.prems"(4)
    and left = "1.prems"(5) and right = "1.prems"(6)
  have se: "start \<le> end" using st it en by order
  have le: "fst q \<le> snd q" if "q \<in> set m" for q
    using wf that by (auto simp: rs_wf_def)
  show ?case
  proof (cases "next_to m start")
    case None
    have "snd q < start \<or> end < fst q" if "q \<in> set m" for q
    proof -
      have "fst q < start" using None that by (rule next_to_None)
      then have "fst q \<le> fst item" using st by order
      with left that show ?thesis by blast
    qed
    then show ?thesis
      using rs_wf_bt_insert [OF wf se] by (simp add: rs_insert_loop_stop(1) [OF None])
  next
    case (Some r)
    from next_to_least [OF rs_wf_bt [OF wf] Some]
    have r: "r \<in> set m" "start \<le> fst r" and least: "\<forall>q \<in> set m. start \<le> fst q \<longrightarrow> fst r \<le> fst q"
      by blast+
    have ri: "fst item < fst r"
    proof (rule ccontr)
      assume "\<not> fst item < fst r"
      with left r(1) have "snd r < start" by auto
      with le [OF r(1)] r(2) show False by order
    qed
    have split: "rs_set m = rs_set (bt_remove (fst r) m) \<union> {fst r..<snd r}"
    proof -
      have "q = r" if "q \<in> set m" "fst q = fst r" for q
        using rs_wf_eq [OF wf that(1) r(1) that(2)] .
      then have "set m = insert r (set (bt_remove (fst r) m))"
        using r(1) by auto
      then show ?thesis by (simp only: rs_set_def) auto
    qed
    have left': "\<forall>q \<in> set (bt_remove (fst r) m). fst q \<le> fst item \<longrightarrow> snd q < start"
      using left by simp
    have beyond: "snd r < fst q" if "q \<in> set (bt_remove (fst r) m)" "fst item < fst q" for q
    proof -
      from that(2) st have "start \<le> fst q" by order
      with least that(1) have "fst r \<le> fst q" "fst q \<noteq> fst r" by auto
      then have "fst r < fst q" by order
      with wf r(1) that(1) show ?thesis by (auto simp: rs_wf_def)
    qed
    show ?thesis
    proof (cases "range_contains item (fst r) \<and> range_contains item (snd r)")
      case True
      have "{fst r..<snd r} \<subseteq> {start..<end}"
        using True ri st en by (auto simp: range_contains_def)
      then show ?thesis
        using "1.IH"(1) [OF Some True rs_wf_remove [OF wf] it st en left'] right split
        by (auto simp: rs_insert_loop_step(1) [OF Some True])
    next
      case nc: False
      show ?thesis
      proof (cases "range_overlaps r item")
        case False
        have "snd item < fst r"
          using False nc ri le [OF r(1)] it
          by (auto simp: range_overlaps_def range_contains_def not_le not_less)
        have "snd q < start \<or> end < fst q" if q: "q \<in> set m" for q
        proof (cases "fst q \<le> fst item")
          case True
          with left q show ?thesis by blast
        next
          case nq: False
          then have "start \<le> fst q" using st by order
          with least q \<open>snd item < fst r\<close> have "snd item < fst q" by fastforce
          with right q nq show ?thesis by auto
        qed
        then show ?thesis
          using rs_wf_bt_insert [OF wf se] by (simp add: rs_insert_loop_stop(2) [OF Some nc False])
      next
        case ov: True
        have mins: "min start (fst r) = start" using r(2) by simp
        have touch: "fst r \<le> snd item" "snd item \<le> snd r"
          using ov nc ri it by (auto simp: range_overlaps_def range_contains_def not_le not_less)
        have en': "snd item \<le> max end (snd r)" using en by (simp add: le_max_iff_disj)
        have endr: "end = snd item"
          using right r(1) ri touch(1) en by fastforce
        have right': "\<forall>q \<in> set (bt_remove (fst r) m). fst item < fst q \<longrightarrow>
            max end (snd r) = snd item \<or> max end (snd r) < fst q"
          using beyond endr touch by (auto simp: max_def)
        have "{fst r..<snd r} \<union> {start..<end} = {start..<max end (snd r)}"
          using touch endr ri st it by (auto simp: max_def)
        then show ?thesis
          using "1.IH"(2) [OF Some nc] ov rs_wf_remove [OF wf] it st en' left' right' split
          by (auto simp: rs_insert_loop_step(2) [OF Some nc ov] mins)
      qed
    qed
  qed
qed

lemma rs_insert_correct:
  assumes wf: "rs_wf m" and le: "fst item \<le> snd item"
  shows "rs_wf (rs_insert item m) \<and> rs_set (rs_insert item m) = rs_set m \<union> {fst item..<snd item}"
proof (cases "prev_to m (fst item)")
  case None
  have "snd q < fst item" if "q \<in> set m" "fst q \<le> fst item" for q
    using prev_to_None [OF None that(1)] that(2) by simp
  then have "\<forall>q \<in> set m. fst q \<le> fst item \<longrightarrow> snd q < fst item" by blast
  then show ?thesis
    using rs_insert_loop_correct [OF wf le, of "fst item" "snd item"] None
    by (simp add: rs_insert_def Let_def)
next
  case (Some r)
  from prev_to_greatest [OF rs_wf_bt [OF wf] Some]
  have r: "r \<in> set m" "fst r \<le> fst item"
    and greatest: "\<forall>q \<in> set m. fst q \<le> fst item \<longrightarrow> fst q \<le> fst r" by blast+
  have ler: "fst r \<le> snd r" using wf r(1) by (auto simp: rs_wf_def)
  have before: "snd q < fst r" if "q \<in> set m" "fst q \<le> fst item" "fst q \<noteq> fst r" for q
  proof -
    have "fst q < fst r" using greatest that by fastforce
    with wf r(1) that(1) show ?thesis by (auto simp: rs_wf_def)
  qed
  show ?thesis
  proof (cases "range_overlaps r item")
    case False
    then have "snd r < fst item"
      using r(2) by (auto simp: range_overlaps_def)
    have "snd q < fst item" if "q \<in> set m" "fst q \<le> fst item" for q
    proof (cases "fst q = fst r")
      case True
      with rs_wf_eq [OF wf that(1) r(1)] \<open>snd r < fst item\<close> show ?thesis by simp
    next
      case neq: False
      from before [OF that neq] r(2) show ?thesis by order
    qed
    then have left: "\<forall>q \<in> set m. fst q \<le> fst item \<longrightarrow> snd q < fst item" by blast
    show ?thesis
      using rs_insert_loop_correct [OF wf le order_refl order_refl left] False Some
      by (simp add: rs_insert_def Let_def)
  next
    case True
    have touch: "fst item \<le> snd r"
      using True r(2) le by (auto simp: range_overlaps_def)
    have mins: "min (fst item) (fst r) = fst r" using r(2) by simp
    have left: "\<forall>q \<in> set (bt_remove (fst r) m). fst q \<le> fst item \<longrightarrow> snd q < fst r"
      using before by simp
    have beyond: "snd r < fst q" if "q \<in> set m" "fst item < fst q" for q
    proof -
      have "fst r < fst q" using that(2) r(2) by order
      with wf r(1) that(1) show ?thesis by (auto simp: rs_wf_def)
    qed
    have right: "\<forall>q \<in> set (bt_remove (fst r) m). fst item < fst q \<longrightarrow>
        max (snd item) (snd r) = snd item \<or> max (snd item) (snd r) < fst q"
      using beyond by (auto simp: max_def)
    have "q = r" if "q \<in> set m" "fst q = fst r" for q
      using rs_wf_eq [OF wf that(1) r(1) that(2)] .
    then have "set m = insert r (set (bt_remove (fst r) m))"
      using r(1) by auto
    then have "rs_set m = rs_set (bt_remove (fst r) m) \<union> {fst r..<snd r}"
      by (simp only: rs_set_def) auto
    moreover have "{fst r..<snd r} \<union> {fst item..<snd item} = {fst r..<max (snd item) (snd r)}"
      using touch r(2) le ler by (auto simp: max_def)
    ultimately show ?thesis
      using rs_insert_loop_correct [OF rs_wf_remove [OF wf] le r(2) max.cobounded1 left right] True Some
      by (auto simp: rs_insert_def Let_def mins)
  qed
qed

text \<open>The loop only ever removes entries, and adds one that contains what was asked for.\<close>

lemma set_rs_insert_loop:
  assumes "bt_wf m"
  shows "bt_wf (rs_insert_loop item start end m) \<and> (\<exists>s e. s \<le> start \<and> end \<le> e \<and>
    set (rs_insert_loop item start end m) \<subseteq> insert (s, e) (set m))"
  using assms
proof (induction item start "end" m rule: rs_insert_loop.induct)
  case (1 item start "end" m)
  have stop: "bt_wf (bt_insert start end m) \<and> (\<exists>s e. s \<le> start \<and> end \<le> e \<and>
      set (bt_insert start end m) \<subseteq> insert (s, e) (set m))"
    using "1.prems" by (auto simp: bt_wf_insert set_bt_insert)
  show ?case
  proof (cases "next_to m start")
    case None
    with stop show ?thesis by (simp add: rs_insert_loop_stop(1))
  next
    case (Some r)
    show ?thesis
    proof (cases "range_contains item (fst r) \<and> range_contains item (snd r)")
      case True
      with "1.IH"(1) [OF Some True bt_wf_remove [OF "1.prems"]] show ?thesis
        by (simp add: rs_insert_loop_step(1) [OF Some True]) blast
    next
      case nc: False
      show ?thesis
      proof (cases "range_overlaps r item")
        case False
        with stop show ?thesis by (simp add: rs_insert_loop_stop(2) [OF Some nc])
      next
        case True
        with "1.IH"(2) [OF Some nc _ bt_wf_remove [OF "1.prems"]] show ?thesis
          by (simp add: rs_insert_loop_step(2) [OF Some nc True]) blast
      qed
    qed
  qed
qed

lemma rs_nonempty_insert:
  assumes "bt_wf m" "rs_nonempty m" "fst item < snd item"
  shows "rs_nonempty (rs_insert item m)"
proof -
  have "rs_nonempty (rs_insert_loop item s e m')"
    if "bt_wf m'" "set m' \<subseteq> set m" "s \<le> fst item" "snd item \<le> e" for s e m'
    using set_rs_insert_loop [OF that(1), of item s e] that assms(2,3)
    unfolding rs_nonempty_def by fastforce
  from this [of m "fst item" "snd item"] this [of "bt_remove k m" "min (fst item) a" "max (snd item) b" for k a b]
  show ?thesis
    using assms(1) by (auto simp: rs_insert_def Let_def bt_wf_remove split: option.splits)
qed

section \<open>Canonical form\<close>

text \<open>Which ranges a well-formed map holds is determined by its set: they are the maximal
  runs of it.\<close>

lemma rs_mem_iff:
  assumes wf: "rs_wf m" and ne: "rs_nonempty m"
  shows "(s, e) \<in> set m \<longleftrightarrow>
    s < e \<and> {s..<e} \<subseteq> rs_set m \<and> e \<notin> rs_set m \<and> (\<forall>x \<in> rs_set m. x < s \<longrightarrow> \<not> {x..<s} \<subseteq> rs_set m)"
    (is "_ \<longleftrightarrow> ?run")
proof
  have sep: "snd p < fst q" if "p \<in> set m" "q \<in> set m" "fst p < fst q" for p q
    using wf that by (auto simp: rs_wf_def)
  have ends: "snd p \<notin> rs_set m" if p: "p \<in> set m" for p
  proof
    assume "snd p \<in> rs_set m"
    then obtain q where q: "q \<in> set m" "fst q \<le> snd p" "snd p < snd q" by (auto simp: rs_set_def)
    show False
    proof (cases "fst p" "fst q" rule: linorder_cases)
      case less
      from sep [OF p q(1) this] q(2) show False by simp
    next
      case equal
      with rs_wf_eq [OF wf p q(1)] q(3) show False by simp
    next
      case greater
      from sep [OF q(1) p this] ne p q(3) show False by (fastforce simp: rs_nonempty_def)
    qed
  qed
  {
    assume se: "(s, e) \<in> set m"
    have "\<not> {x..<s} \<subseteq> rs_set m" if x: "x \<in> rs_set m" "x < s" for x
    proof -
      from x obtain q where q: "q \<in> set m" "fst q \<le> x" "x < snd q" by (auto simp: rs_set_def)
      with x have "fst q < s" by order
      with sep [OF q(1) se] have "snd q < s" by simp
      with q have "snd q \<in> {x..<s}" by auto
      with ends [OF q(1)] show ?thesis by blast
    qed
    moreover have "s < e" "{s..<e} \<subseteq> rs_set m"
      using ne se by (auto simp: rs_nonempty_def rs_set_def)
    ultimately show ?run using ends [OF se] by simp
  next
    assume run: ?run
    then have "s \<in> rs_set m" by auto
    then obtain q where q: "q \<in> set m" "fst q \<le> s" "s < snd q" by (auto simp: rs_set_def)
    have sub: "{fst q..<snd q} \<subseteq> rs_set m" using q(1) by (auto simp: rs_set_def)
    have "fst q = s"
    proof (rule ccontr)
      assume "fst q \<noteq> s"
      with q have lt: "fst q < s" by order
      have "fst q \<in> rs_set m" using sub q lt by auto
      moreover have "{fst q..<s} \<subseteq> {fst q..<snd q}" using q(3) by (simp add: less_imp_le)
      then have "{fst q..<s} \<subseteq> rs_set m" using sub by blast
      ultimately show False using run lt by blast
    qed
    moreover have "snd q = e"
    proof (cases "snd q" e rule: linorder_cases)
      case less
      with q(3) run have "snd q \<in> rs_set m" by auto
      with ends [OF q(1)] show ?thesis by simp
    next
      case greater
      with q(2) run have "e \<in> {fst q..<snd q}" by auto
      with sub run show ?thesis by blast
    qed
    ultimately show "(s, e) \<in> set m" using q(1) by (cases q) simp
  }
qed

lemma rs_canonical:
  assumes "rs_wf m" "rs_nonempty m" "rs_wf m'" "rs_nonempty m'" "rs_set m = rs_set m'"
  shows "m = m'"
proof (rule bt_eqI)
  show "set m = set m'"
    using assms by (auto simp: rs_mem_iff)
qed (use assms in \<open>auto simp: rs_wf_bt\<close>)

lemma rs_insert_apart:
  assumes "rs_wf m" "rs_nonempty m" "s < e" "\<forall>q \<in> set m. snd q < s \<or> e < fst q"
  shows "rs_insert (s, e) m = bt_insert s e m"
proof (rule rs_canonical)
  have se: "s \<le> e" using assms(3) by order
  show "rs_wf (rs_insert (s, e) m)" "rs_set (rs_insert (s, e) m) = rs_set (bt_insert s e m)"
    using rs_insert_correct [OF assms(1), of "(s, e)"] rs_wf_bt_insert [OF assms(1) se assms(4)] se
    by auto
  show "rs_wf (bt_insert s e m)" using rs_wf_bt_insert [OF assms(1) se assms(4)] by simp
  show "rs_nonempty (rs_insert (s, e) m)"
    using rs_nonempty_insert [of m "(s, e)"] assms by (auto simp: rs_wf_bt)
  show "rs_nonempty (bt_insert s e m)"
    using assms by (auto simp: rs_nonempty_def set_bt_insert rs_wf_bt)
qed

section \<open>Removal of a prefix\<close>

lemma rs_nonempty_remove: "rs_nonempty m \<Longrightarrow> rs_nonempty (bt_remove k m)"
  by (simp add: rs_nonempty_def)

text \<open>While the entries at or below \<open>largest\<close> are processed one by one, the part of the set above
  \<open>largest\<close> stays the same, and no unprocessed entry is touched.\<close>

lemma rs_remove_until_loop_correct:
  assumes "rs_wf m" "rs_nonempty m" "largest < largest + 1" "distinct rs"
    and "\<forall>r \<in> set rs. r \<in> set m \<and> fst r \<le> largest"
    and "\<forall>r \<in> set m. fst r \<le> largest \<longrightarrow> r \<in> set rs"
  shows "rs_wf (rs_remove_until_loop largest rs m) \<and> rs_nonempty (rs_remove_until_loop largest rs m)
    \<and> rs_set (rs_remove_until_loop largest rs m) = rs_set m - {..largest}"
  using assms
proof (induction rs arbitrary: m)
  case Nil
  then have "\<forall>r \<in> set m. largest < fst r" by auto
  then have "rs_set m \<inter> {..largest} = {}" by (fastforce simp: rs_set_def)
  with Nil show ?case by auto
next
  case (Cons r rs)
  let ?m = "bt_remove (fst r) m"
  have r: "r \<in> set m" "fst r \<le> largest" using Cons.prems by auto
  have uniq: "q = r" if "q \<in> set m" "fst q = fst r" for q
    using rs_wf_eq [OF Cons.prems(1) that(1) r(1) that(2)] .
  then have "set m = insert r (set ?m)" using r(1) by auto
  then have split: "rs_set m = rs_set ?m \<union> {fst r..<snd r}"
    by (simp only: rs_set_def) auto
  have succ: "x \<le> largest \<longleftrightarrow> x < largest + 1" for x
  proof
    assume "x \<le> largest"
    then show "x < largest + 1" using Cons.prems(3) by order
  next
    assume "x < largest + 1"
    with inc_le [of largest x] show "x \<le> largest" by (meson leD leI)
  qed
  have wf: "rs_wf ?m" "rs_nonempty ?m"
    using Cons.prems by (auto intro: rs_wf_remove rs_nonempty_remove)
  have rest: "\<forall>q \<in> set rs. q \<in> set ?m \<and> fst q \<le> largest" "\<forall>q \<in> set ?m. fst q \<le> largest \<longrightarrow> q \<in> set rs"
  proof -
    have "q \<in> set ?m \<and> fst q \<le> largest" if q: "q \<in> set rs" for q
    proof -
      have "q \<in> set m" "fst q \<le> largest" "q \<noteq> r"
        using Cons.prems(4,5) q by auto
      with uniq [of q] show ?thesis by auto
    qed
    moreover have "q \<in> set rs" if "q \<in> set ?m" "fst q \<le> largest" for q
      using Cons.prems(6) that by auto
    ultimately show "\<forall>q \<in> set rs. q \<in> set ?m \<and> fst q \<le> largest"
      "\<forall>q \<in> set ?m. fst q \<le> largest \<longrightarrow> q \<in> set rs" by blast+
  qed
  show ?case
  proof (cases "snd r > largest + 1")
    case False
    then have "{fst r..<snd r} \<subseteq> {..largest}" by (auto simp: succ)
    with Cons.IH [OF wf Cons.prems(3) _ rest] Cons.prems(4) False split show ?thesis
      by (simp add: Let_def) blast
  next
    case True
    let ?m' = "bt_insert (largest + 1) (snd r) ?m"
    have apart: "snd q < largest + 1 \<or> snd r < fst q" if q: "q \<in> set ?m" for q
    proof (cases "fst q < fst r")
      case lt: True
      with Cons.prems(1) r(1) q have "snd q < fst r" by (auto simp: rs_wf_def)
      with r(2) succ [of "fst r"] show ?thesis by auto
    next
      case False
      with q have "fst r < fst q" by auto
      with Cons.prems(1) r(1) q show ?thesis by (auto simp: rs_wf_def)
    qed
    have eq: "rs_insert (largest + 1, snd r) ?m = ?m'"
      using rs_insert_apart [OF wf True] apart by blast
    have le: "largest + 1 \<le> snd r" using True by order
    have wf': "rs_wf ?m'" "rs_set ?m' = rs_set ?m \<union> {largest + 1..<snd r}"
      using rs_wf_bt_insert [OF wf(1) le] apart by blast+
    have set': "set ?m' = insert (largest + 1, snd r) {q \<in> set ?m. fst q \<noteq> largest + 1}"
      using wf(1) by (simp only: set_bt_insert rs_wf_bt)
    have ne': "rs_nonempty ?m'"
      using wf(2) True by (auto simp: rs_nonempty_def set')
    have rest': "\<forall>q \<in> set rs. q \<in> set ?m' \<and> fst q \<le> largest"
      "\<forall>q \<in> set ?m'. fst q \<le> largest \<longrightarrow> q \<in> set rs"
      using rest succ unfolding set' by (auto dest: bspec)
    have "{fst r..<snd r} - {..largest} = {largest + 1..<snd r}"
      using r(2) by (auto simp: succ not_less)
    with Cons.IH [OF wf'(1) ne' Cons.prems(3) _ rest'] Cons.prems(4) True split wf'(2) show ?thesis
      by (auto simp: Let_def eq succ)
  qed
qed

lemma rs_remove_until_correct:
  assumes "rs_wf m" "rs_nonempty m" "largest < largest + 1"
  shows "rs_wf (rs_remove_until largest m) \<and> rs_nonempty (rs_remove_until largest m)
    \<and> rs_set (rs_remove_until largest m) = rs_set m - {..largest}"
proof -
  have "distinct (bt_upto largest m)"
    using bt_upto_sorted [OF rs_wf_bt [OF assms(1)]] by (simp add: strict_sorted_iff distinct_map)
  then show ?thesis
    using rs_remove_until_loop_correct [OF assms, of "bt_upto largest m"]
    by (simp add: rs_remove_until_def)
qed

section \<open>Enumeration\<close>

definition upto64 :: "u64 \<Rightarrow> u64 \<Rightarrow> u64 list" where
  "upto64 a b = map of_nat [unat a..<unat b]"

definition rs_elems :: "rangeset \<Rightarrow> u64 list" where
  "rs_elems m = concat (map (\<lambda>r. upto64 (fst r) (snd r)) m)"

lemma upto64_Nil [simp]: "b \<le> a \<Longrightarrow> upto64 a b = []"
  by (simp add: upto64_def word_le_nat_alt)

lemma upto64_Cons:
  assumes "a < b"
  shows "upto64 a b = a # upto64 (a + 1) b"
proof -
  have "unat (a + 1) = Suc (unat a)"
    using assms unat_u64 [of b] by (simp add: unat_add64 word_less_nat_alt)
  with assms show ?thesis
    by (simp add: upto64_def word_less_nat_alt upt_conv_Cons)
qed

lemma upto64_snoc:
  assumes "a < b"
  shows "upto64 a b = upto64 a (b - 1) @ [b - 1]"
proof -
  have "b \<noteq> 0" using assms by auto
  then have "unat (b - 1) = unat b - 1" "unat a < unat b"
    using assms by (auto simp: word_less_nat_alt unat_minus_one)
  then obtain n where n: "unat b = Suc n" "unat (b - 1) = n" "unat a \<le> n"
    by (cases "unat b") auto
  have "of_nat n = b - 1" using n(2) [symmetric] by simp
  with n show ?thesis by (simp add: upto64_def)
qed

lemma set_upto64 [simp]: "set (upto64 a b) = {a..<b}"
proof -
  have "x \<in> of_nat ` {unat a..<unat b} \<longleftrightarrow> a \<le> x \<and> x < b" for x
    unfolding word_le_nat_alt word_less_nat_alt
  proof
    assume "x \<in> of_nat ` {unat a..<unat b}"
    then obtain n where n: "x = of_nat n" "unat a \<le> n" "n < unat b" by auto
    with unat_u64 [of b] have "unat x = n" by (simp add: unat_of_nat64)
    with n show "unat a \<le> unat x \<and> unat x < unat b" by simp
  next
    assume "unat a \<le> unat x \<and> unat x < unat b"
    then show "x \<in> of_nat ` {unat a..<unat b}"
      by (intro image_eqI [of _ _ "unat x"]) auto
  qed
  then show ?thesis
    unfolding upto64_def set_map set_upt by (intro set_eqI) (simp only: atLeastLessThan_iff)
qed

lemma sorted_upto64: "sorted_wrt (<) (upto64 a b)"
proof -
  have "sorted_wrt (<) (map of_nat [m..<n] :: u64 list)" if "n \<le> 2 ^ 64" for m n
    using that by (induction n) (auto simp: sorted_wrt_append word_less_nat_alt unat_of_nat64)
  from this [of "unat b" "unat a"] unat_u64 [of b] show ?thesis
    by (simp add: upto64_def)
qed

lemma set_rs_elems: "set (rs_elems m) = rs_set m"
  by (auto simp: rs_elems_def rs_set_def)

lemma sorted_rs_elems: "rs_wf m \<Longrightarrow> sorted_wrt (<) (rs_elems m)"
proof (induction m)
  case Nil
  show ?case by (simp add: rs_elems_def)
next
  case (Cons r m)
  have wf: "rs_wf m" and gap: "\<forall>q \<in> set m. snd r < fst q"
    using Cons.prems by (auto simp: rs_wf_def bt_wf_Cons)
  have "x < y" if "x \<in> {fst r..<snd r}" "y \<in> rs_set m" for x y
    using that gap by (fastforce simp: rs_set_def)
  with Cons.IH [OF wf] show ?case
    using sorted_upto64 set_rs_elems [of m] by (auto simp: rs_elems_def sorted_wrt_append)
qed

text \<open>Forward, \<open>Flatten\<close> yields the elements in increasing order; backward, in decreasing order.\<close>

definition flatten_ok :: "flatten \<Rightarrow> bool" where
  "flatten_ok f \<longleftrightarrow> fl_next f \<le> fl_end f \<and> rs_nonempty (fl_inner f)"

definition fl_front :: "flatten \<Rightarrow> u64 list" where
  "fl_front f = upto64 (fl_next f) (fl_end f) @ rs_elems (fl_inner f)"

definition fl_back :: "flatten \<Rightarrow> u64 list" where
  "fl_back f = rs_elems (fl_inner f) @ upto64 (fl_next f) (fl_end f)"

lemma flatten_ok_start: "rs_nonempty m \<Longrightarrow> flatten_ok (rs_flatten m)"
  "fl_front (rs_flatten m) = rs_elems m" "fl_back (rs_flatten m) = rs_elems m"
  by (simp_all add: flatten_ok_def rs_flatten_def fl_front_def fl_back_def)

lemma flatten_next_correct:
  assumes "flatten_ok f"
  shows "case flatten_next f of
      None \<Rightarrow> fl_front f = []
    | Some (x, f') \<Rightarrow> flatten_ok f' \<and> fl_front f = x # fl_front f'"
proof (cases "fl_next f = fl_end f")
  case False
  with assms have lt: "fl_next f < fl_end f" by (auto simp: flatten_ok_def)
  then show ?thesis
    using assms inc_le [OF lt] upto64_Cons [OF lt]
    by (simp add: flatten_next_def False fl_front_def flatten_ok_def)
next
  case eq: True
  show ?thesis
  proof (cases "fl_inner f")
    case Nil
    with eq show ?thesis by (simp add: flatten_next_def rs_iter_next_def fl_front_def rs_elems_def)
  next
    case (Cons r rs)
    with assms have lt: "fst r < snd r" and "rs_nonempty rs"
      by (auto simp: flatten_ok_def rs_nonempty_def)
    with eq Cons inc_le [OF lt] upto64_Cons [OF lt] show ?thesis
      by (cases r)
        (simp add: flatten_next_def rs_iter_next_def fl_front_def rs_elems_def flatten_ok_def)
  qed
qed

lemma flatten_next_back_correct:
  assumes "flatten_ok f"
  shows "case flatten_next_back f of
      None \<Rightarrow> fl_back f = []
    | Some (x, f') \<Rightarrow> flatten_ok f' \<and> fl_back f = fl_back f' @ [x]"
proof -
  have dec: "a \<le> b - 1" if "a < b" for a b :: u64
  proof -
    from that have "b \<noteq> 0" by auto
    with that show ?thesis by (auto simp: word_le_nat_alt word_less_nat_alt unat_minus_one)
  qed
  show ?thesis
  proof (cases "fl_next f = fl_end f")
    case False
    with assms have lt: "fl_next f < fl_end f" by (auto simp: flatten_ok_def)
    then show ?thesis
      using assms dec [OF lt] upto64_snoc [OF lt]
      by (simp add: flatten_next_back_def False fl_back_def flatten_ok_def)
  next
    case eq: True
    show ?thesis
    proof (cases "fl_inner f" rule: rev_cases)
      case Nil
      with eq show ?thesis
        by (simp add: flatten_next_back_def rs_iter_next_back_def fl_back_def rs_elems_def)
    next
      case (snoc rs r)
      with assms have lt: "fst r < snd r" and "rs_nonempty rs"
        by (auto simp: flatten_ok_def rs_nonempty_def)
      with eq snoc dec [OF lt] upto64_snoc [OF lt] show ?thesis
        by (cases r)
          (simp add: flatten_next_back_def rs_iter_next_back_def fl_back_def rs_elems_def
            flatten_ok_def)
    qed
  qed
qed

lemma rs_largest_correct:
  assumes "rs_wf m" "rs_nonempty m"
  shows "rs_largest m = (if rs_set m = {} then None else Some (Max (rs_set m)))"
proof (cases "flatten_next_back (rs_flatten m)")
  case None
  with flatten_next_back_correct [OF flatten_ok_start(1) [OF assms(2)]]
  have "rs_elems m = []" by (simp add: flatten_ok_start)
  then show ?thesis
    using None set_rs_elems [of m] by (simp add: rs_largest_def)
next
  case (Some p)
  with flatten_next_back_correct [OF flatten_ok_start(1) [OF assms(2)]]
  have el: "rs_elems m = fl_back (snd p) @ [fst p]"
    by (auto simp: flatten_ok_start split: prod.splits)
  then have "\<forall>x \<in> set (fl_back (snd p)). x < fst p"
    using sorted_rs_elems [OF assms(1)] by (simp add: sorted_wrt_append)
  then have "Max (set (rs_elems m)) = fst p"
    by (intro Max_eqI) (auto simp: el)
  moreover have "set (rs_elems m) \<noteq> {}" by (simp add: el)
  ultimately show ?thesis
    using Some by (simp add: rs_largest_def set_rs_elems)
qed


section \<open>Properties\<close>

text \<open>The range sets that a client can build, each with the set of integers it should stand for. A range
  ends at most at \<open>2 ^ 64 - 1\<close>, so this largest integer is never pushed or removed.\<close>

inductive range_ops :: "rangeset \<Rightarrow> u64 set \<Rightarrow> bool" where
  new: "range_ops [] {}"
| insert: "range_ops m S \<Longrightarrow> a < b \<Longrightarrow> range_ops (rs_insert (a, b) m) (S \<union> {a..<b})"
| push_item: "range_ops m S \<Longrightarrow> x < x + 1 \<Longrightarrow> range_ops (rs_push_item x m) (S \<union> {x})"
| remove_until: "range_ops m S \<Longrightarrow> l < l + 1 \<Longrightarrow> range_ops (rs_remove_until l m) (S - {..l})"

lemma singleton_range: "x < x + 1 \<Longrightarrow> {x..<x + 1} = {x :: u64}"
proof -
  assume lt: "x < x + 1"
  have "upto64 x (x + 1) = [x]" using upto64_Cons [OF lt] by simp
  then show ?thesis using set_upto64 [of x "x + 1"] by simp
qed

lemma range_ops_inv: "range_ops m S \<Longrightarrow> rs_wf m \<and> rs_nonempty m \<and> rs_set m = S"
proof (induction rule: range_ops.induct)
  case new
  show ?case by (simp add: rs_nonempty_def)
next
  case (insert m S a b)
  then show ?case
    using rs_insert_correct [of m "(a, b)"] rs_nonempty_insert [of m "(a, b)"] by (simp add: rs_wf_bt)
next
  case (push_item m S x)
  then show ?case
    using rs_insert_correct [of m "(x, x + 1)"] rs_nonempty_insert [of m "(x, x + 1)"]
    by (simp add: rs_push_item_def singleton_range rs_wf_bt)
next
  case (remove_until m S l)
  then show ?case using rs_remove_until_correct [of m l] by simp
qed

text \<open>C12. A range set is a set of integers: after any sequence of \<open>insert\<close>, \<open>push_item\<close> and
  \<open>remove_until\<close> its ranges are ordered and never touch, \<open>flatten\<close> enumerates exactly the elements of
  the set, in increasing order, and \<open>largest\<close> is its maximum.\<close>

theorem rangeset_refines_set:
  assumes "range_ops m S"
  shows "rs_wf m \<and> fl_front (rs_flatten m) = sorted_list_of_set S
    \<and> rs_largest m = (if S = {} then None else Some (Max S))"
proof -
  from range_ops_inv [OF assms] have m: "rs_wf m" "rs_nonempty m" "rs_set m = S" by blast+
  have "sorted_wrt (<) (rs_elems m)" "set (rs_elems m) = S"
    using sorted_rs_elems [OF m(1)] set_rs_elems [of m] m(3) by blast+
  then have "rs_elems m = sorted_list_of_set S"
    by (metis sorted_list_of_set.idem_if_sorted_distinct strict_sorted_iff)
  then show ?thesis using m rs_largest_correct [OF m(1,2)] by (simp add: flatten_ok_start)
qed

lemma rangeset_refines_set_witness:
  "rs_largest (rs_insert (3, 5) (rs_push_item 2 [])) = Some 4"
proof -
  have "range_ops (rs_insert (3, 5) (rs_push_item 2 [])) (({} \<union> {2}) \<union> {3..<5})"
    by (intro range_ops.intros) simp_all
  from rangeset_refines_set [OF this] have
    "rs_largest (rs_insert (3, 5) (rs_push_item 2 [])) = Some (Max (({} \<union> {2}) \<union> {3..<5 :: u64}))" by auto
  moreover have "{3..<5 :: u64} = {3, 4}" using set_upto64 [of 3 5] by (simp add: upto64_def upt_rec)
  ultimately show ?thesis by (simp add: max_def)
qed

text \<open>The representation is canonical: two histories that stand for the same set end in the same
  ranges, so that touching and overlapping ranges are always merged.\<close>

theorem rangeset_canonical:
  assumes "range_ops m S" "range_ops m' S"
  shows "m = m'"
  using range_ops_inv [OF assms(1)] range_ops_inv [OF assms(2)] rs_canonical by blast

lemma rangeset_canonical_witness:
  "rs_insert (1, 3) (rs_insert (3, 5) []) = rs_insert (1, 5) []"
proof (rule rangeset_canonical)
  show "range_ops (rs_insert (1, 5) []) ({} \<union> {1..<5})" by (intro range_ops.intros) simp_all
  have "range_ops (rs_insert (1, 3) (rs_insert (3, 5) [])) (({} \<union> {3..<5}) \<union> {1..<3})"
    by (intro range_ops.intros) simp_all
  moreover have "({} \<union> {3..<5}) \<union> {1..<3} = {} \<union> {1..<5 :: u64}"
  proof -
    have "(3::u64) \<le> x \<and> x < 5 \<or> 1 \<le> x \<and> x < 3 \<longleftrightarrow> 1 \<le> x \<and> x < 5" for x :: u64
      unfolding word_le_nat_alt word_less_nat_alt by simp linarith
    then show ?thesis by (intro set_eqI) simp
  qed
  ultimately show "range_ops (rs_insert (1, 3) (rs_insert (3, 5) [])) ({} \<union> {1..<5})" by (simp only:)
qed

text \<open>The iterators. A forward step of \<open>Flatten\<close> yields the first of the remaining elements and a
  backward step the last, and \<open>None\<close> means that none is left.\<close>

theorem flatten_steps:
  assumes "flatten_ok f"
  shows "(case flatten_next f of None \<Rightarrow> fl_front f = []
      | Some (x, f') \<Rightarrow> flatten_ok f' \<and> fl_front f = x # fl_front f')
    \<and> (case flatten_next_back f of None \<Rightarrow> fl_back f = []
      | Some (x, f') \<Rightarrow> flatten_ok f' \<and> fl_back f = fl_back f' @ [x])"
  using flatten_next_correct [OF assms] flatten_next_back_correct [OF assms] by blast

lemma flatten_steps_witness:
  "\<exists>f' f''. flatten_next (rs_flatten [(1, 3), (7, 8)]) = Some (1, f') \<and> fl_front f' = [2, 7]
    \<and> flatten_next_back (rs_flatten [(1, 3), (7, 8)]) = Some (7, f'') \<and> fl_back f'' = [1, 2]"
proof -
  let ?m = "[(1, 3), (7, 8)] :: rangeset"
  have ok: "flatten_ok (rs_flatten ?m)" by (simp add: flatten_ok_start rs_nonempty_def)
  have "upto64 1 3 = [1, 2]" "upto64 7 8 = [7]" by (simp_all add: upto64_def upt_rec)
  then have el: "rs_elems ?m = [1, 2, 7]" by (simp add: rs_elems_def)
  note steps = flatten_steps [OF ok, unfolded flatten_ok_start el]
  from steps have "\<exists>f'. flatten_next (rs_flatten ?m) = Some (1, f') \<and> fl_front f' = [2, 7]"
    by (cases "flatten_next (rs_flatten ?m)") auto
  moreover from steps have "\<exists>f''. flatten_next_back (rs_flatten ?m) = Some (7, f'') \<and> fl_back f'' = [1, 2]"
    by (cases "flatten_next_back (rs_flatten ?m)") auto
  ultimately show ?thesis by blast
qed

end
