(* ===== verification/BinHeap.thy ===== *)
theory BinHeap
  imports Prelude "HOL-Library.Multiset"
begin

text \<open>
  The standard library's \<open>BinaryHeap\<close> as \<open>src/stream.rs\<close> uses it: an array whose iteration order
  (\<open>for b in &heap\<close>) is the array order, a maximum heap for an ordering that the chunks of
  \<open>src/stream.rs\<close> define by the reversed comparison of their offsets, hence here a heap with the
  least key at index 0. Pushing sifts up from the end; popping moves the last element to the
  root, sifts it down to the bottom along the smaller children and up again, as the library
  does, so that the array order of the model is that of the program. \<open>offset_queue\<close> is the
  contract the stream buffers use, interpreted for the array.
\<close>

section \<open>Operations\<close>

definition par :: "nat \<Rightarrow> nat" where
  "par i = (i - 1) div 2"

definition swap_at :: "nat \<Rightarrow> nat \<Rightarrow> 'a list \<Rightarrow> 'a list" where
  "swap_at i j xs = xs[i := xs ! j, j := xs ! i]"

lemma par_less: "0 < i \<Longrightarrow> par i < i"
  by (auto simp: par_def)

function sift_up :: "('a \<Rightarrow> 'k::linorder) \<Rightarrow> nat \<Rightarrow> 'a list \<Rightarrow> 'a list" where
  "sift_up key pos xs =
     (if pos = 0 then xs
      else if key (xs ! par pos) \<le> key (xs ! pos) then xs
      else sift_up key (par pos) (swap_at pos (par pos) xs))"
  by pat_completeness auto
termination
  by (relation "measure (\<lambda>(key, pos, xs). pos)") (auto simp: par_less)

declare sift_up.simps [simp del]

text \<open>The position where the element ends up, and the array with the element there.\<close>

function sift_down_to_bottom :: "('a \<Rightarrow> 'k::linorder) \<Rightarrow> nat \<Rightarrow> 'a list \<Rightarrow> nat \<times> 'a list" where
  "sift_down_to_bottom key pos xs =
     (let child = 2 * pos + 1; right = child + 1 in
      if child < length xs
      then let child = (if right < length xs \<and> key (xs ! right) \<le> key (xs ! child)
                        then right else child)
           in sift_down_to_bottom key child (swap_at pos child xs)
      else (pos, xs))"
  by pat_completeness auto
termination
  by (relation "measure (\<lambda>(key, pos, xs). length xs - pos)") (auto simp: swap_at_def)

declare sift_down_to_bottom.simps [simp del]

definition bh_push :: "('a \<Rightarrow> 'k::linorder) \<Rightarrow> 'a \<Rightarrow> 'a list \<Rightarrow> 'a list" where
  "bh_push key x xs = sift_up key (length xs) (xs @ [x])"

definition bh_peek :: "'a list \<Rightarrow> 'a option" where
  "bh_peek xs = (case xs of [] \<Rightarrow> None | x # _ \<Rightarrow> Some x)"

definition bh_pop :: "('a \<Rightarrow> 'k::linorder) \<Rightarrow> 'a list \<Rightarrow> ('a \<times> 'a list) option" where
  "bh_pop key xs =
     (if xs = [] then None
      else let item = last xs; rest = butlast xs in
        if rest = [] then Some (item, [])
        else let (pos, ys) = sift_down_to_bottom key 0 (rest[0 := item])
             in Some (rest ! 0, sift_up key pos ys))"

section \<open>The contents are kept\<close>

lemma mset_swap_at [simp]: "i < length xs \<Longrightarrow> j < length xs \<Longrightarrow> mset (swap_at i j xs) = mset xs"
  by (simp add: swap_at_def mset_swap)

lemma length_swap_at [simp]: "length (swap_at i j xs) = length xs"
  by (simp add: swap_at_def)

lemma mset_sift_up [simp]: "pos < length xs \<Longrightarrow> mset (sift_up key pos xs) = mset xs"
proof (induction key pos xs rule: sift_up.induct)
  case (1 key pos xs)
  show ?case
  proof (cases "pos = 0 \<or> key (xs ! par pos) \<le> key (xs ! pos)")
    case True
    then show ?thesis by (auto simp: sift_up.simps [of key pos xs])
  next
    case False
    then have "par pos < length xs" using "1.prems" par_less [of pos] by auto
    with False 1 show ?thesis
      by (auto simp: sift_up.simps [of key pos xs])
  qed
qed

lemma mset_sift_down [simp]:
  "pos < length xs \<Longrightarrow> mset (snd (sift_down_to_bottom key pos xs)) = mset xs
    \<and> fst (sift_down_to_bottom key pos xs) < length xs"
proof (induction key pos xs rule: sift_down_to_bottom.induct)
  case (1 key pos xs)
  then show ?case
    by (auto simp: sift_down_to_bottom.simps [of key pos xs] Let_def)
qed

lemma bh_pop_mset: "bh_pop key xs = Some (x, ys) \<Longrightarrow> mset xs = add_mset x (mset ys)"
proof -
  assume pop: "bh_pop key xs = Some (x, ys)"
  then have "xs \<noteq> []" by (auto simp: bh_pop_def)
  then obtain rest item where xs: "xs = rest @ [item]" by (cases xs rule: rev_cases) auto
  show ?thesis
  proof (cases rest)
    case Nil
    with pop xs show ?thesis by (simp add: bh_pop_def)
  next
    case (Cons r rs)
    obtain pos zs where d: "sift_down_to_bottom key 0 (item # rs) = (pos, zs)" by fastforce
    with mset_sift_down [of 0 "item # rs" key] have z: "mset zs = mset (item # rs)" "pos < Suc (length rs)"
      by auto
    from mset_eq_length [OF z(1)] z(2) have "pos < length zs" by simp
    with z(1) pop xs Cons d show ?thesis
      by (auto simp: bh_pop_def)
  qed
qed

lemma bh_pop_length: "bh_pop key xs = Some (x, ys) \<Longrightarrow> length xs = Suc (length ys)"
  by (drule bh_pop_mset) (metis size_add_mset size_mset)

lemma bh_pop_peek: "bh_pop key xs = Some (x, ys) \<Longrightarrow> bh_peek xs = Some x"
proof -
  assume pop: "bh_pop key xs = Some (x, ys)"
  then have "xs \<noteq> []" by (auto simp: bh_pop_def)
  then obtain rest item where "xs = rest @ [item]" by (cases xs rule: rev_cases) auto
  with pop show ?thesis
    by (cases rest) (auto simp: bh_pop_def bh_peek_def Let_def split: prod.splits if_splits)
qed

section \<open>The heap order\<close>

definition heap_inv :: "('a \<Rightarrow> 'k::linorder) \<Rightarrow> 'a list \<Rightarrow> bool" where
  "heap_inv key xs \<longleftrightarrow> (\<forall>i < length xs. 0 < i \<longrightarrow> key (xs ! par i) \<le> key (xs ! i))"

text \<open>The heap order except between \<open>pos\<close> and its neighbours, whose own order holds across
  \<open>pos\<close>.\<close>

definition heap_hole :: "('a \<Rightarrow> 'k::linorder) \<Rightarrow> 'a list \<Rightarrow> nat \<Rightarrow> bool" where
  "heap_hole key xs pos \<longleftrightarrow>
     (\<forall>i < length xs. 0 < i \<longrightarrow> i \<noteq> pos \<longrightarrow> par i \<noteq> pos \<longrightarrow> key (xs ! par i) \<le> key (xs ! i))
   \<and> (\<forall>i < length xs. 0 < i \<longrightarrow> 0 < pos \<longrightarrow> par i = pos \<longrightarrow> key (xs ! par pos) \<le> key (xs ! i))"

text \<open>As \<open>heap_hole\<close>, with the element at \<open>pos\<close> no greater than its children.\<close>

definition heap_up :: "('a \<Rightarrow> 'k::linorder) \<Rightarrow> 'a list \<Rightarrow> nat \<Rightarrow> bool" where
  "heap_up key xs pos \<longleftrightarrow> heap_hole key xs pos
   \<and> (\<forall>i < length xs. 0 < i \<longrightarrow> par i = pos \<longrightarrow> key (xs ! pos) \<le> key (xs ! i))"

lemma heap_up_inv:
  "heap_up key xs pos \<Longrightarrow> pos = 0 \<or> key (xs ! par pos) \<le> key (xs ! pos) \<Longrightarrow> heap_inv key xs"
  unfolding heap_up_def heap_hole_def heap_inv_def by (metis less_numeral_extra(3))

lemma heap_up_step:
  assumes "heap_up key xs pos" "0 < pos" "pos < length xs" "key (xs ! pos) < key (xs ! par pos)"
  shows "heap_up key (swap_at pos (par pos) xs) (par pos)"
proof -
  let ?p = "par pos" and ?ys = "swap_at pos (par pos) xs"
  have p: "?p < pos" "?p < length xs" using assms par_less [of pos] by auto
  have nth: "?ys ! i = (if i = pos then xs ! ?p else if i = ?p then xs ! pos else xs ! i)"
    if "i < length xs" for i
    using that p assms(3) by (auto simp: swap_at_def nth_list_update)
  have hole: "key (xs ! par i) \<le> key (xs ! i)"
    if "i < length xs" "0 < i" "i \<noteq> pos" "par i \<noteq> pos" for i
    using assms(1) that by (auto simp: heap_up_def heap_hole_def)
  have child: "key (xs ! ?p) \<le> key (xs ! i)" if "i < length xs" "0 < i" "par i = pos" for i
    using assms(1,2) that by (auto simp: heap_up_def heap_hole_def)
  have parlt: "par i < length xs" if "i < length xs" for i
    using that by (auto simp: par_def)
  have 1: "key (?ys ! par i) \<le> key (?ys ! i)"
    if i: "i < length xs" "0 < i" "i \<noteq> ?p" "par i \<noteq> ?p" for i
    using i p assms hole [OF i(1,2)] child [OF i(1,2)] parlt [OF i(1)]
    by (auto simp: nth)
  have 2: "key (?ys ! ?p) \<le> key (?ys ! i)" if i: "i < length xs" "0 < i" "par i = ?p" for i
  proof (cases "i = pos")
    case True
    with p assms show ?thesis by (simp add: nth)
  next
    case False
    have "i \<noteq> ?p" using i par_less [of i] by auto
    with False i p assms(3,4) hole [OF i(1,2) False] show ?thesis
      by (auto simp: nth)
  qed
  have 3: "key (?ys ! par ?p) \<le> key (?ys ! i)" if i: "i < length xs" "0 < i" "0 < ?p" "par i = ?p" for i
  proof -
    have pp: "par ?p \<noteq> ?p" "par ?p \<noteq> pos" using i(3) par_less [of ?p] p by auto
    then have up: "key (xs ! par ?p) \<le> key (xs ! ?p)"
      using hole [of ?p] p i(3) by auto
    show ?thesis
    proof (cases "i = pos")
      case True
      with up pp p assms(3) parlt [OF p(2)] show ?thesis by (simp add: nth)
    next
      case False
      have "i \<noteq> ?p" using i par_less [of i] by auto
      with False hole [OF i(1,2) False] i up pp p parlt [OF p(2)] show ?thesis
        by (auto simp: nth)
    qed
  qed
  show ?thesis
    unfolding heap_up_def heap_hole_def using 1 2 3 by auto
qed

lemma heap_inv_sift_up:
  "heap_up key xs pos \<Longrightarrow> pos < length xs \<Longrightarrow> heap_inv key (sift_up key pos xs)"
proof (induction key pos xs rule: sift_up.induct)
  case (1 key pos xs)
  show ?case
  proof (cases "pos = 0 \<or> key (xs ! par pos) \<le> key (xs ! pos)")
    case True
    with heap_up_inv [OF "1.prems"(1)] show ?thesis
      by (auto simp: sift_up.simps [of key pos xs])
  next
    case False
    then have "par pos < length xs" using "1.prems" par_less [of pos] by auto
    with False 1 heap_up_step [OF "1.prems"(1)] show ?thesis
      by (auto simp: sift_up.simps [of key pos xs])
  qed
qed

lemma par_eq_iff: "0 < i \<Longrightarrow> par i = p \<longleftrightarrow> i = 2 * p + 1 \<or> i = 2 * p + 2"
  by (auto simp: par_def)

lemma heap_hole_step:
  assumes "heap_hole key xs pos" "child < length xs" "0 < child" "par child = pos"
    and least: "\<forall>i < length xs. 0 < i \<longrightarrow> par i = pos \<longrightarrow> key (xs ! child) \<le> key (xs ! i)"
  shows "heap_hole key (swap_at pos child xs) child"
proof -
  let ?ys = "swap_at pos child xs"
  have pc: "pos < child" using par_less [OF assms(3)] assms(4) by simp
  then have p: "pos < length xs" using assms(2) by simp
  have nth: "?ys ! i = (if i = child then xs ! pos else if i = pos then xs ! child else xs ! i)"
    if "i < length xs" for i
    using that p assms(2) by (auto simp: swap_at_def nth_list_update)
  have hole: "key (xs ! par i) \<le> key (xs ! i)"
    if "i < length xs" "0 < i" "i \<noteq> pos" "par i \<noteq> pos" for i
    using assms(1) that by (auto simp: heap_hole_def)
  have across: "key (xs ! par pos) \<le> key (xs ! i)"
    if "i < length xs" "0 < i" "0 < pos" "par i = pos" for i
    using assms(1) that by (auto simp: heap_hole_def)
  have parlt: "par i < length xs" if "i < length xs" for i
    using that by (auto simp: par_def)
  have 1: "key (?ys ! par i) \<le> key (?ys ! i)"
    if i: "i < length xs" "0 < i" "i \<noteq> child" "par i \<noteq> child" for i
  proof (cases "i = pos")
    case True
    have pp: "par pos \<noteq> pos" "par pos \<noteq> child" "0 < pos" "par pos < length xs"
      using True i par_less [of pos] pc parlt [OF p] by auto
    have "key (xs ! par pos) \<le> key (xs ! child)"
      by (rule across [OF assms(2,3) pp(3) assms(4)])
    with pp pc p show ?thesis by (simp add: True nth)
  next
    case ip: False
    show ?thesis
    proof (cases "par i = pos")
      case True
      with least i ip p show ?thesis by (auto simp: nth)
    next
      case False
      with hole [OF i(1,2) ip False] i ip parlt [OF i(1)] show ?thesis by (auto simp: nth)
    qed
  qed
  have 2: "key (?ys ! par child) \<le> key (?ys ! i)" if i: "i < length xs" "0 < i" "par i = child" for i
  proof -
    have "i \<noteq> child" "child < i" using i par_less [of i] by auto
    moreover have "i \<noteq> pos" using \<open>child < i\<close> pc by simp
    ultimately show ?thesis
      using hole [OF i(1,2)] i pc p assms(4) by (auto simp: nth)
  qed
  show ?thesis
    unfolding heap_hole_def using 1 2 by auto
qed

lemma heap_up_sift_down:
  assumes "heap_hole key xs pos" "pos < length xs"
  shows "heap_up key (snd (sift_down_to_bottom key pos xs)) (fst (sift_down_to_bottom key pos xs))"
  using assms
proof (induction key pos xs rule: sift_down_to_bottom.induct)
  case (1 key pos xs)
  define c where "c = 2 * pos + 1"
  define ch where "ch = (if c + 1 < length xs \<and> key (xs ! (c + 1)) \<le> key (xs ! c) then c + 1 else c)"
  have unfold: "sift_down_to_bottom key pos xs =
      (if c < length xs then sift_down_to_bottom key ch (swap_at pos ch xs) else (pos, xs))"
    by (simp add: sift_down_to_bottom.simps [of key pos xs] Let_def c_def ch_def)
  show ?case
  proof (cases "c < length xs")
    case False
    then have "\<forall>i < length xs. 0 < i \<longrightarrow> par i \<noteq> pos"
      by (auto simp: par_eq_iff c_def)
    with "1.prems" False show ?thesis
      by (auto simp: unfold heap_up_def)
  next
    case True
    have ch: "ch < length xs" "0 < ch" "par ch = pos"
      using True by (auto simp: ch_def c_def par_def)
    have least: "\<forall>i < length xs. 0 < i \<longrightarrow> par i = pos \<longrightarrow> key (xs ! ch) \<le> key (xs ! i)"
      by (auto simp: par_eq_iff ch_def c_def)
    have "heap_hole key (swap_at pos ch xs) ch"
      by (rule heap_hole_step [OF "1.prems"(1) ch least])
    with "1.IH" [OF refl refl, folded c_def, OF True] ch True show ?thesis
      by (simp add: unfold ch_def)
  qed
qed

lemma heap_inv_root:
  assumes "heap_inv key xs"
  shows "i < length xs \<Longrightarrow> key (xs ! 0) \<le> key (xs ! i)"
proof (induction i rule: less_induct)
  case (less i)
  show ?case
  proof (cases "i = 0")
    case True
    then show ?thesis by simp
  next
    case False
    then have "par i < i" by (simp add: par_less)
    with less have "key (xs ! 0) \<le> key (xs ! par i)" by simp
    also have "\<dots> \<le> key (xs ! i)" using assms less.prems False by (auto simp: heap_inv_def)
    finally show ?thesis .
  qed
qed

section \<open>The contract of a queue ordered by offset\<close>

locale offset_queue =
  fixes key :: "'a \<Rightarrow> 'k::linorder"
    and empty :: "'q"
    and push :: "'a \<Rightarrow> 'q \<Rightarrow> 'q"
    and peek :: "'q \<Rightarrow> 'a option"
    and pop :: "'q \<Rightarrow> ('a \<times> 'q) option"
    and items :: "'q \<Rightarrow> 'a list"
    and inv :: "'q \<Rightarrow> bool"
  assumes inv_empty: "inv empty" and items_empty: "items empty = []"
    and inv_push: "inv q \<Longrightarrow> inv (push x q)"
    and mset_push: "inv q \<Longrightarrow> mset (items (push x q)) = add_mset x (mset (items q))"
    and pop_None: "inv q \<Longrightarrow> pop q = None \<longleftrightarrow> items q = []"
    and pop_inv: "inv q \<Longrightarrow> pop q = Some (x, q') \<Longrightarrow> inv q'"
    and pop_mset: "inv q \<Longrightarrow> pop q = Some (x, q') \<Longrightarrow> mset (items q) = add_mset x (mset (items q'))"
    and pop_least: "inv q \<Longrightarrow> pop q = Some (x, q') \<Longrightarrow> y \<in> set (items q) \<Longrightarrow> key x \<le> key y"
    and peek_pop: "inv q \<Longrightarrow> peek q = map_option fst (pop q)"
begin

lemma set_push: "inv q \<Longrightarrow> set (items (push x q)) = insert x (set (items q))"
  by (metis mset_push set_mset_add_mset_insert set_mset_mset)

lemma pop_set: "inv q \<Longrightarrow> pop q = Some (x, q') \<Longrightarrow> set (items q) = insert x (set (items q'))"
  by (metis pop_mset set_mset_add_mset_insert set_mset_mset)

lemma pop_length: "inv q \<Longrightarrow> pop q = Some (x, q') \<Longrightarrow> length (items q) = Suc (length (items q'))"
  by (metis pop_mset size_add_mset size_mset)

lemma pop_sum:
  "inv q \<Longrightarrow> pop q = Some (x, q') \<Longrightarrow>
   sum_list (map f (items q)) = f x + sum_list (map f (items q') :: nat list)"
  by (metis (no_types, lifting) image_mset_add_mset mset_map pop_mset sum_mset.insert sum_mset_sum_list)

lemma push_sum:
  "inv q \<Longrightarrow> sum_list (map f (items (push x q))) = f x + sum_list (map f (items q) :: nat list)"
  by (metis (no_types, lifting) image_mset_add_mset mset_map mset_push sum_mset.insert sum_mset_sum_list)

lemma peek_Some: "inv q \<Longrightarrow> peek q = Some x \<Longrightarrow> x \<in> set (items q) \<and> (\<forall>y \<in> set (items q). key x \<le> key y)"
  using peek_pop pop_set pop_least by fastforce

lemma peek_None: "inv q \<Longrightarrow> peek q = None \<longleftrightarrow> items q = []"
  by (simp add: peek_pop pop_None)

end

lemma bh_pop_Some:
  assumes "heap_inv key xs" "xs \<noteq> []"
  shows "\<exists>ys. bh_pop key xs = Some (xs ! 0, ys) \<and> heap_inv key ys \<and> mset xs = add_mset (xs ! 0) (mset ys)"
proof (cases "butlast xs")
  case Nil
  with assms(2) obtain x where "xs = [x]" by (cases xs rule: rev_cases) auto
  then show ?thesis by (simp add: bh_pop_def heap_inv_def)
next
  case (Cons r rs)
  define item where "item = last xs"
  have xs: "xs = r # rs @ [item]"
    using Cons assms(2) by (metis append_Cons append_butlast_last_id item_def)
  define zs where "zs = item # rs"
  define d where "d = sift_down_to_bottom key 0 zs"
  have pop: "bh_pop key xs = Some (r, sift_up key (fst d) (snd d))"
    by (simp add: bh_pop_def xs d_def zs_def split: prod.split)
  have "heap_hole key zs 0"
    unfolding heap_hole_def
  proof (intro conjI allI impI)
    fix i assume i: "i < length zs" "0 < i" "i \<noteq> 0" "par i \<noteq> 0"
    have "i < length xs" using i by (simp add: xs zs_def)
    with assms(1) i have "key (xs ! par i) \<le> key (xs ! i)" by (simp add: heap_inv_def)
    moreover have "zs ! i = xs ! i" "zs ! par i = xs ! par i"
      using i par_less [of i] by (auto simp: xs zs_def nth_Cons nth_append split: nat.splits)
    ultimately show "key (zs ! par i) \<le> key (zs ! i)" by simp
  qed simp
  then have up: "heap_up key (snd d) (fst d)" and len: "fst d < length zs" "mset (snd d) = mset zs"
    using heap_up_sift_down [of key zs 0] mset_sift_down [of 0 zs key] by (auto simp: d_def zs_def)
  then have "fst d < length (snd d)" by (metis size_mset)
  with up len show ?thesis
    using heap_inv_sift_up [OF up] pop by (auto simp: xs zs_def)
qed

lemma heap_inv_push: "heap_inv key xs \<Longrightarrow> heap_inv key (bh_push key x xs)"
proof -
  assume inv: "heap_inv key xs"
  have "heap_up key (xs @ [x]) (length xs)"
    unfolding heap_up_def heap_hole_def
  proof (intro conjI allI impI)
    fix i assume "i < length (xs @ [x])" "0 < i" "i \<noteq> length xs"
    then show "key ((xs @ [x]) ! par i) \<le> key ((xs @ [x]) ! i)"
      using inv par_less [of i] by (auto simp: heap_inv_def nth_append)
  next
    fix i assume i: "i < length (xs @ [x])" "0 < i" "par i = length xs"
    with par_less [OF i(2)] have False by simp
    then show "key ((xs @ [x]) ! par (length xs)) \<le> key ((xs @ [x]) ! i)"
      and "key ((xs @ [x]) ! length xs) \<le> key ((xs @ [x]) ! i)" by simp_all
  qed
  then show ?thesis by (simp add: bh_push_def heap_inv_sift_up)
qed

lemma offset_queue_bh: "offset_queue key [] (bh_push key) bh_peek (bh_pop key) (\<lambda>xs. xs) (heap_inv key)"
proof
  fix xs :: "'a list" and x y and q'
  assume inv: "heap_inv key xs"
  show "heap_inv key (bh_push key x xs)" by (rule heap_inv_push [OF inv])
  show "bh_pop key xs = None \<longleftrightarrow> xs = []" using bh_pop_Some [OF inv] by (auto simp: bh_pop_def)
  show "bh_peek xs = map_option fst (bh_pop key xs)"
    using bh_pop_Some [OF inv] by (cases xs) (auto simp: bh_peek_def bh_pop_def)
  assume pop: "bh_pop key xs = Some (x, q')"
  then have ne: "xs \<noteq> []" by (auto simp: bh_pop_def)
  with bh_pop_Some [OF inv] pop show "heap_inv key q'" "mset xs = add_mset x (mset q')" by auto
  assume "y \<in> set xs"
  with bh_pop_Some [OF inv ne] pop heap_inv_root [OF inv] show "key x \<le> key y"
    by (auto simp: in_set_conv_nth)
qed (simp_all add: heap_inv_def bh_push_def)

end
