(* ===== verification/RangeBuf.thy ===== *)
theory RangeBuf
  imports BinHeap
begin

text \<open>
  \<open>RangeBuf\<close> of \<open>src/stream.rs\<close>: a run of stream bytes at an offset, with the flag that it holds the
  final offset; and the min-heap of such chunks that both stream buffers keep. The order of the
  source compares offsets only (reversed, so that the maximum heap of the standard library has
  the least offset at its root); \<open>chunks\<close> interprets the queue contract for it. Chunks are
  compared with a reference content of the stream, a function from offsets to bytes.
\<close>

section \<open>Data and operations\<close>

record range_buf =
  rb_data :: "u8 list"
  rb_off :: u64
  rb_fin :: bool

definition rb_default :: range_buf where
  "rb_default = \<lparr>rb_data = [], rb_off = 0, rb_fin = False\<rparr>"

definition rb_from :: "u8 list \<Rightarrow> u64 \<Rightarrow> bool \<Rightarrow> range_buf" where
  "rb_from buf off fin = \<lparr>rb_data = buf, rb_off = off, rb_fin = fin\<rparr>"

definition rb_len :: "range_buf \<Rightarrow> nat" where
  "rb_len b = length (rb_data b)"

definition rb_max_off :: "range_buf \<Rightarrow> u64" where
  "rb_max_off b = rb_off b + of_nat (rb_len b)"

definition rb_is_empty :: "range_buf \<Rightarrow> bool" where
  "rb_is_empty b \<longleftrightarrow> rb_len b = 0"

text \<open>\<open>split_off\<close>: what stays in \<open>self\<close> and the part that is returned; \<open>Vec::split_off\<close> panics past
  the end.\<close>

definition rb_split_off :: "nat \<Rightarrow> range_buf \<Rightarrow> (range_buf \<times> range_buf) result" where
  "rb_split_off at b =
     (if rb_len b < at then Panic
      else Ok (\<lparr>rb_data = take at (rb_data b), rb_off = rb_off b, rb_fin = False\<rparr>,
               \<lparr>rb_data = drop at (rb_data b), rb_off = rb_off b + of_nat at, rb_fin = rb_fin b\<rparr>))"

interpretation chunks: offset_queue rb_off "[]" "bh_push rb_off" bh_peek "bh_pop rb_off"
  "\<lambda>xs. xs" "heap_inv rb_off"
  by (rule offset_queue_bh)

section \<open>Offsets and content\<close>

text \<open>The offsets of a chunk as natural numbers; \<open>rb_ok\<close>: they do not pass the end of \<open>u64\<close>.\<close>

definition rb_lo :: "range_buf \<Rightarrow> nat" where
  "rb_lo b = unat (rb_off b)"

definition rb_hi :: "range_buf \<Rightarrow> nat" where
  "rb_hi b = unat (rb_off b) + length (rb_data b)"

definition rb_ok :: "range_buf \<Rightarrow> bool" where
  "rb_ok b \<longleftrightarrow> rb_hi b < 2 ^ 64"

definition rb_agrees :: "(nat \<Rightarrow> u8) \<Rightarrow> range_buf \<Rightarrow> bool" where
  "rb_agrees content b \<longleftrightarrow> rb_data b = map content [rb_lo b ..< rb_hi b]"

named_theorems rb_simps

lemma unat_rb_max_off [rb_simps]: "rb_ok b \<Longrightarrow> unat (rb_max_off b) = rb_hi b"
  by (simp add: rb_ok_def rb_hi_def rb_max_off_def rb_len_def unat_add64 unat_of_nat mod_add_right_eq)

lemma unat_rb_off [rb_simps]: "unat (rb_off b) = rb_lo b"
  by (simp add: rb_lo_def)

lemma rb_lo_hi [rb_simps]: "rb_lo b + rb_len b = rb_hi b"
  by (simp add: rb_lo_def rb_hi_def rb_len_def)

lemma rb_lo_le_hi [simp]: "rb_lo b \<le> rb_hi b"
  by (simp add: rb_lo_def rb_hi_def)

lemma rb_is_empty_iff [rb_simps]: "rb_is_empty b \<longleftrightarrow> rb_lo b = rb_hi b"
  by (simp add: rb_is_empty_def rb_len_def rb_lo_def rb_hi_def)

lemma less_rb_max_off_word [rb_simps]: "rb_ok buf \<Longrightarrow> x < rb_max_off buf \<longleftrightarrow> unat x < rb_hi buf"
  by (simp add: word_less_nat_alt unat_rb_max_off)

lemma rb_split_off_Ok:
  assumes "rb_ok b" "at \<le> rb_len b"
  obtains l r where "rb_split_off at b = Ok (l, r)"
    "rb_lo l = rb_lo b" "rb_hi l = rb_lo b + at" "rb_ok l"
    "rb_lo r = rb_lo b + at" "rb_hi r = rb_hi b" "rb_ok r"
    "rb_data b = rb_data l @ rb_data r" "rb_fin r = rb_fin b" "\<not> rb_fin l"
    "rb_len r = rb_len b - at" "rb_len l = at"
proof
  let ?l = "\<lparr>rb_data = take at (rb_data b), rb_off = rb_off b, rb_fin = False\<rparr>"
  let ?r = "\<lparr>rb_data = drop at (rb_data b), rb_off = rb_off b + of_nat at, rb_fin = rb_fin b\<rparr>"
  show "rb_split_off at b = Ok (?l, ?r)"
    using assms by (simp add: rb_split_off_def)
  have off: "unat (rb_off b + of_nat at) = unat (rb_off b) + at"
    using assms by (simp add: rb_ok_def rb_hi_def rb_len_def unat_add64 unat_of_nat mod_add_right_eq)
  show "rb_lo ?r = rb_lo b + at" "rb_hi ?r = rb_hi b" "rb_ok ?r"
    using off assms by (simp_all add: rb_lo_def rb_hi_def rb_ok_def rb_len_def)
qed (use assms in \<open>auto simp: rb_lo_def rb_hi_def rb_ok_def rb_len_def\<close>)

lemma rb_agrees_split:
  assumes "rb_agrees content b" "rb_data b = rb_data l @ rb_data r"
    "rb_lo l = rb_lo b" "rb_hi l = rb_lo r" "rb_hi r = rb_hi b"
  shows "rb_agrees content l \<and> rb_agrees content r"
proof -
  have "[rb_lo b ..< rb_hi b] = [rb_lo l ..< rb_hi l] @ [rb_lo r ..< rb_hi r]"
    using assms rb_lo_le_hi [of l] rb_lo_le_hi [of r]
    by (metis le_Suc_ex upt_add_eq_append)
  with assms(1,2) have "rb_data l @ rb_data r
      = map content [rb_lo l ..< rb_hi l] @ map content [rb_lo r ..< rb_hi r]"
    by (simp add: rb_agrees_def)
  moreover have "length (rb_data l) = length (map content [rb_lo l ..< rb_hi l])"
    by (simp add: rb_lo_def rb_hi_def)
  ultimately show ?thesis by (simp add: rb_agrees_def)
qed

lemma rb_agrees_append:
  assumes "rb_agrees content l" "rb_agrees content r" "rb_hi l = rb_lo r"
  shows "rb_data l @ rb_data r = map content [rb_lo l ..< rb_hi r]"
proof -
  have "[rb_lo l ..< rb_hi r] = [rb_lo l ..< rb_hi l] @ [rb_lo r ..< rb_hi r]"
    using assms rb_lo_le_hi [of l] rb_lo_le_hi [of r]
    by (metis le_Suc_ex upt_add_eq_append)
  with assms(1,2) show ?thesis by (simp add: rb_agrees_def)
qed

text \<open>The set of offsets that a list of chunks holds.\<close>

definition offsets :: "range_buf \<Rightarrow> nat set" where
  "offsets b = {rb_lo b ..< rb_hi b}"

definition apart :: "range_buf \<Rightarrow> range_buf \<Rightarrow> bool" where
  "apart a b \<longleftrightarrow> rb_hi a \<le> rb_lo b \<or> rb_hi b \<le> rb_lo a"

lemma apart_sym: "apart a b \<Longrightarrow> apart b a"
  by (auto simp: apart_def)

text \<open>Pairwise apart, for a multiset of chunks, since the heap permutes them.\<close>

definition all_apart :: "range_buf multiset \<Rightarrow> bool" where
  "all_apart M \<longleftrightarrow> (\<forall>a b. {#a, b#} \<subseteq># M \<longrightarrow> apart a b)"

lemma all_apart_empty [simp]: "all_apart {#}"
  by (simp add: all_apart_def)

lemma all_apart_add: "all_apart (add_mset x M) \<longleftrightarrow> all_apart M \<and> (\<forall>b \<in># M. apart x b)"
proof
  assume all: "all_apart (add_mset x M)"
  have "{#a, b#} \<subseteq># add_mset x M" if "{#a, b#} \<subseteq># M" for a b
    using that by (metis subset_mset.order_trans subset_mset.le_add_same_cancel2 add_mset_add_single
      mset_subset_eq_add_left)
  moreover have "{#x, b#} \<subseteq># add_mset x M" if "b \<in># M" for b
    using that by simp
  ultimately show "all_apart M \<and> (\<forall>b \<in># M. apart x b)"
    using all unfolding all_apart_def by blast
next
  assume all: "all_apart M \<and> (\<forall>b \<in># M. apart x b)"
  show "all_apart (add_mset x M)"
    unfolding all_apart_def
  proof (intro allI impI)
    fix a b assume ab: "{#a, b#} \<subseteq># add_mset x M"
    consider "a = x" | "b = x" | "a \<noteq> x" "b \<noteq> x" by blast
    then show "apart a b"
    proof cases
      case 1
      with ab have "b \<in># M" by simp
      with 1 all show ?thesis by simp
    next
      case 2
      with ab have "a \<in># M" by (simp add: add_mset_commute)
      with 2 all apart_sym show ?thesis by blast
    next
      case 3
      have "{#a, b#} \<subseteq># M"
      proof (rule mset_subset_eqI)
        fix c
        have "count {#a, b#} c \<le> count (add_mset x M) c"
          using ab by (rule mset_subset_eq_count)
        with 3 show "count {#a, b#} c \<le> count M c" by (auto split: if_splits)
      qed
      with all show ?thesis by (simp add: all_apart_def)
    qed
  qed
qed

end
