(* ===== verification/RecvBuf.thy ===== *)
theory RecvBuf
  imports RangeBuf
begin

text \<open>
  \<open>RecvBuf\<close> of \<open>src/stream.rs\<close>: the receive side of a stream. Incoming chunks are checked against
  the flow control limit and the final size, trimmed against the chunks already buffered, and
  read out in offset order. The clock of the sources (\<open>SystemTime::now()\<close> in milliseconds) is
  an argument, read once for each round of the loop that stores a chunk.
\<close>

section \<open>State and operations\<close>

record recv_buf =
  rv_data :: "range_buf list"
  rv_off :: u64
  rv_len :: u64
  rv_max_data :: u64
  rv_max_data_next :: u64
  rv_fin_off :: "u64 option"
  rv_drain :: bool
  rv_block_size :: u64
  rv_bct :: u64
  rv_good_recv :: nat
  rv_block_priority :: u64
  rv_block_deadline :: u64
  rv_start_time :: u128

definition recv_new :: "u64 \<Rightarrow> recv_buf" where
  "recv_new max_data =
     \<lparr>rv_data = [], rv_off = 0, rv_len = 0, rv_max_data = max_data, rv_max_data_next = max_data,
      rv_fin_off = None, rv_drain = False, rv_block_size = 0, rv_bct = 0, rv_good_recv = 0,
      rv_block_priority = 0, rv_block_deadline = 0, rv_start_time = 0\<rparr>"

text \<open>The loop over the buffered chunks, in the array order of the heap: \<open>None\<close> when the incoming
  chunk is contained in a buffered one (the early return), otherwise what is left of it and
  the part split off for the next round.\<close>

fun recv_scan :: "range_buf list \<Rightarrow> range_buf \<Rightarrow> range_buf option
    \<Rightarrow> (range_buf \<times> range_buf option) option result" where
  "recv_scan [] buf tmp = Ok (Some (buf, tmp))"
| "recv_scan (b # bs) buf tmp =
     (if rb_off b \<le> rb_off buf \<and> rb_max_off buf \<le> rb_max_off b then Ok None
      else bnd (if rb_off b \<le> rb_off buf \<and> rb_off buf < rb_max_off b
                then bnd (rb_split_off (unat (rb_max_off b - rb_off buf)) buf) (\<lambda>(_, rest). Ok rest)
                else Ok buf) (\<lambda>buf.
           if rb_off buf < rb_off b \<and> rb_off b < rb_max_off buf
           then bnd (rb_split_off (unat (rb_off b - rb_off buf)) buf)
                  (\<lambda>(buf, rest). recv_scan bs buf (Some rest))
           else recv_scan bs buf tmp))"

lemma rb_split_off_len: "rb_split_off at b = Ok (l, r) \<Longrightarrow> rb_len l = at \<and> rb_len b = at + rb_len r"
  by (auto simp: rb_split_off_def rb_len_def split: if_splits)

lemma recv_scan_len:
  assumes "recv_scan bs buf tmp = Ok (Some (buf', Some t))" "\<forall>s. tmp = Some s \<longrightarrow> rb_len s < n"
    "rb_len buf \<le> n"
  shows "rb_len t < n"
  using assms
proof (induction bs arbitrary: buf tmp)
  case Nil
  then show ?case by simp
next
  case (Cons b bs)
  define trim where "trim = (if rb_off b \<le> rb_off buf \<and> rb_off buf < rb_max_off b
      then bnd (rb_split_off (unat (rb_max_off b - rb_off buf)) buf) (\<lambda>(_, rest). Ok rest)
      else Ok buf)"
  from Cons.prems(1) obtain buf1 where b1: "trim = Ok buf1"
    and step: "(if rb_off buf1 < rb_off b \<and> rb_off b < rb_max_off buf1
           then bnd (rb_split_off (unat (rb_off b - rb_off buf1)) buf1)
                  (\<lambda>(buf, rest). recv_scan bs buf (Some rest))
           else recv_scan bs buf1 tmp) = Ok (Some (buf', Some t))"
    by (auto simp: trim_def split: if_splits)
  have len1: "rb_len buf1 \<le> n"
    using b1 Cons.prems(3) by (auto simp: trim_def dest: rb_split_off_len split: if_splits)
  show ?case
  proof (cases "rb_off buf1 < rb_off b \<and> rb_off b < rb_max_off buf1")
    case True
    then have pos: "0 < unat (rb_off b - rb_off buf1)"
      by (simp add: unat_sub64 less_imp_le word_less_iff_unsigned [where ?'a = nat])
    from True step obtain l r where "rb_split_off (unat (rb_off b - rb_off buf1)) buf1 = Ok (l, r)"
      and rec: "recv_scan bs l (Some r) = Ok (Some (buf', Some t))" by auto
    with len1 pos have "rb_len r < n" "rb_len l \<le> n" by (auto dest: rb_split_off_len)
    with Cons.IH [OF rec] show ?thesis by simp
  next
    case False
    with step Cons.IH [of buf1 tmp] Cons.prems len1 show ?thesis by auto
  qed
qed

text \<open>The loop that stores a chunk (\<open>while let Some(mut buf) = tmp_buf\<close>), with the limit that the
  block completion time is compared with.\<close>

function recv_store :: "u64 \<Rightarrow> (nat \<Rightarrow> u128) \<Rightarrow> nat \<Rightarrow> range_buf \<Rightarrow> recv_buf \<Rightarrow> recv_buf result" where
  "recv_store limit clock n buf r =
     bnd (if rb_off buf < rv_off r
          then bnd (rb_split_off (unat (rv_off r - rb_off buf)) buf) (\<lambda>(_, rest). Ok rest)
          else Ok buf) (\<lambda>buf.
     bnd (recv_scan (rv_data r) buf None) (\<lambda>found.
       case found of
         None \<Rightarrow> Ok r
       | Some (buf, tmp) \<Rightarrow>
           let bct = ucast (clock n) - ucast (rv_start_time r);
               len = max (rv_len r) (rb_max_off buf);
               r = r\<lparr>rv_bct := bct, rv_len := len,
                     rv_good_recv := (if bct \<le>s limit then unat len else rv_good_recv r),
                     rv_data := bh_push rb_off buf (rv_data r)\<rparr>
           in case tmp of None \<Rightarrow> Ok r | Some rest \<Rightarrow> recv_store limit clock (Suc n) rest r))"
  by pat_completeness auto
termination
proof (relation "measure (\<lambda>(limit, clock, n, buf, r). rb_len buf)", goal_cases)
  case (2 limit clock n buf r x xa x2 xb y xc xd xe x2a)
  then have "rb_len x \<le> rb_len buf"
    by (auto split: if_splits dest: rb_split_off_len)
  with 2 show ?case
    using recv_scan_len [of "rv_data r" x None _ _ "rb_len buf"] by auto
qed simp

declare recv_store.simps [simp del]

text \<open>The checks that \<open>push\<close> and \<open>push_evaluation\<close> make, and what they then do with the chunk.\<close>

definition recv_push_until :: "u64 \<Rightarrow> (nat \<Rightarrow> u128) \<Rightarrow> range_buf \<Rightarrow> recv_buf \<Rightarrow> recv_buf result" where
  "recv_push_until limit clock buf r =
     (if rv_max_data r < rb_max_off buf then Err FlowControl
      else if (case rv_fin_off r of None \<Rightarrow> False | Some fin_off \<Rightarrow> fin_off < rb_max_off buf)
      then Err FinalSize
      else if (case rv_fin_off r of None \<Rightarrow> False
               | Some fin_off \<Rightarrow> rb_fin buf \<and> fin_off \<noteq> rb_max_off buf)
      then Err FinalSize
      else if rb_fin buf \<and> rb_max_off buf < rv_len r then Err FinalSize
      else if rv_fin_off r \<noteq> None \<and> rb_is_empty buf then Ok r
      else if rb_fin buf \<and> rb_is_empty buf \<and> rv_fin_off r \<noteq> None then Ok r
      else
        let r = (if rb_fin buf then r\<lparr>rv_fin_off := Some (rb_max_off buf)\<rparr> else r) in
        if \<not> rb_fin buf \<and> rb_is_empty buf then Ok r
        else if rb_max_off buf \<le> rv_off r \<and> \<not> rb_is_empty buf then Ok r
        else if rv_drain r then Ok r
        else recv_store limit clock 0 buf r)"

definition recv_push :: "(nat \<Rightarrow> u128) \<Rightarrow> range_buf \<Rightarrow> recv_buf \<Rightarrow> recv_buf result" where
  "recv_push clock buf r = recv_push_until (rv_block_deadline r) clock buf r"

definition recv_push_evaluation :: "(nat \<Rightarrow> u128) \<Rightarrow> range_buf \<Rightarrow> recv_buf \<Rightarrow> recv_buf result" where
  "recv_push_evaluation clock buf r = recv_push_until 200 clock buf r"

definition recv_ready :: "recv_buf \<Rightarrow> bool" where
  "recv_ready r = (case bh_peek (rv_data r) of None \<Rightarrow> False | Some buf \<Rightarrow> rb_off buf = rv_off r)"

definition recv_is_fin :: "recv_buf \<Rightarrow> bool" where
  "recv_is_fin r \<longleftrightarrow> rv_fin_off r = Some (rv_off r)"

definition recv_all_received :: "recv_buf \<Rightarrow> bool" where
  "recv_all_received r \<longleftrightarrow> rv_fin_off r = Some (rv_len r)"

text \<open>The loop of \<open>pop\<close>: the bytes written to the output buffer so far, of which \<open>cap\<close> are free.\<close>

function recv_pop_loop :: "nat \<Rightarrow> u8 list \<Rightarrow> recv_buf \<Rightarrow> u8 list \<times> recv_buf" where
  "recv_pop_loop cap out r =
     (if 0 < cap \<and> recv_ready r then
        case bh_pop rb_off (rv_data r) of
          None \<Rightarrow> (out, r)
        | Some (buf, data) \<Rightarrow>
            let (buf, data) =
                  (if cap < rb_len buf
                   then (buf\<lparr>rb_data := take cap (rb_data buf), rb_fin := False\<rparr>,
                         bh_push rb_off \<lparr>rb_data = drop cap (rb_data buf),
                                         rb_off = rb_off buf + of_nat cap, rb_fin = rb_fin buf\<rparr> data)
                   else (buf, data))
            in recv_pop_loop (cap - rb_len buf) (out @ rb_data buf)
                 (r\<lparr>rv_data := data, rv_off := rv_off r + of_nat (rb_len buf)\<rparr>)
      else (out, r))"
  by pat_completeness auto
termination
  by (relation "measures [\<lambda>(cap, out, r). cap, \<lambda>(cap, out, r). length (rv_data r)]")
    (auto simp: rb_len_def dest: bh_pop_length split: if_splits)

declare recv_pop_loop.simps [simp del]

definition recv_pop :: "nat \<Rightarrow> recv_buf \<Rightarrow> ((u8 list \<times> bool) \<times> recv_buf) result" where
  "recv_pop cap r =
     (if \<not> recv_ready r then Err Done
      else let (out, r) = recv_pop_loop cap [] r;
               r = r\<lparr>rv_max_data_next := sat_add64 (rv_max_data_next r) (of_nat (length out))\<rparr>
           in Ok ((out, recv_is_fin r), r))"

text \<open>\<open>reset\<close>: the number of bytes to take off the connection's flow control.\<close>

definition recv_reset :: "u64 \<Rightarrow> recv_buf \<Rightarrow> (nat \<times> recv_buf) result" where
  "recv_reset final_size r =
     (if (case rv_fin_off r of None \<Rightarrow> False | Some fin_off \<Rightarrow> fin_off \<noteq> final_size) then Err FinalSize
      else if final_size < rv_len r then Err FinalSize
      else Ok (unat (final_size - rv_len r), r\<lparr>rv_fin_off := Some final_size\<rparr>))"

definition recv_update_max_data :: "recv_buf \<Rightarrow> u64 \<times> recv_buf" where
  "recv_update_max_data r = (rv_max_data_next r, r\<lparr>rv_max_data := rv_max_data_next r\<rparr>)"

definition recv_shutdown :: "recv_buf \<Rightarrow> recv_buf result" where
  "recv_shutdown r =
     (if rv_drain r then Err Done else Ok (r\<lparr>rv_drain := True, rv_data := []\<rparr>))"

definition recv_almost_full :: "recv_buf \<Rightarrow> bool" where
  "recv_almost_full r \<longleftrightarrow>
     rv_fin_off r = None \<and> rv_max_data_next r \<noteq> rv_max_data r
     \<and> rv_max_data r - rv_len r < rv_max_data_next r div 2"

definition recv_set_block_info :: "u64 \<Rightarrow> u64 \<Rightarrow> u64 \<Rightarrow> u128 \<Rightarrow> recv_buf \<Rightarrow> recv_buf" where
  "recv_set_block_info block_size block_priority block_deadline start_time r =
     r\<lparr>rv_block_size := block_size, rv_block_priority := block_priority,
       rv_block_deadline := block_deadline, rv_start_time := start_time\<rparr>"

definition recv_get_block_info :: "recv_buf \<Rightarrow> u64 \<times> u64 \<times> u64" where
  "recv_get_block_info r = (rv_block_size r, rv_block_priority r, rv_block_deadline r)"

section \<open>One round of the loop\<close>

text \<open>What the loop keeps of an incoming chunk: a part of it with the bytes of the stream.\<close>

definition part_of :: "(nat \<Rightarrow> u8) \<Rightarrow> range_buf \<Rightarrow> range_buf \<Rightarrow> bool" where
  "part_of content a b \<longleftrightarrow> rb_lo b \<le> rb_lo a \<and> rb_hi a \<le> rb_hi b \<and> rb_ok a \<and> rb_agrees content a
     \<and> (rb_lo b < rb_hi b \<longrightarrow> rb_lo a < rb_hi a)"

lemma part_of_trans: "part_of content a b \<Longrightarrow> part_of content b c \<Longrightarrow> part_of content a c"
  by (auto simp: part_of_def)

lemma part_of_refl: "rb_ok a \<Longrightarrow> rb_agrees content a \<Longrightarrow> part_of content a a"
  by (simp add: part_of_def)

lemma apart_part_of: "part_of content a b \<Longrightarrow> apart b c \<Longrightarrow> apart a c"
  by (auto simp: part_of_def apart_def)

lemma rb_off_less [rb_simps]: "rb_off a < rb_off b \<longleftrightarrow> rb_lo a < rb_lo b"
  by (simp add: rb_lo_def word_less_iff_unsigned [where ?'a = nat])

lemma rb_off_le [rb_simps]: "rb_off a \<le> rb_off b \<longleftrightarrow> rb_lo a \<le> rb_lo b"
  by (simp add: rb_lo_def word_less_eq_iff_unsigned [where ?'a = nat])

lemma rb_off_less_max [rb_simps]: "rb_ok b \<Longrightarrow> rb_off a < rb_max_off b \<longleftrightarrow> rb_lo a < rb_hi b"
  by (simp add: unat_rb_max_off unat_rb_off word_less_iff_unsigned [where ?'a = nat])

lemma rb_max_off_le [rb_simps]:
  "rb_ok a \<Longrightarrow> rb_ok b \<Longrightarrow> rb_max_off a \<le> rb_max_off b \<longleftrightarrow> rb_hi a \<le> rb_hi b"
  by (simp add: unat_rb_max_off word_less_eq_iff_unsigned [where ?'a = nat])

lemma rb_len_eq: "rb_len b = rb_hi b - rb_lo b"
  by (simp add: rb_len_def rb_lo_def rb_hi_def)

text \<open>One buffered chunk \<open>b\<close>: it contains the incoming one, or leaves a part apart from it, or
  splits it at its own start.\<close>

lemma recv_scan_Cons:
  assumes "rb_ok b" "rb_ok buf" "rb_agrees content buf"
  obtains
    (contained) "rb_lo b \<le> rb_lo buf" "rb_hi buf \<le> rb_hi b" "recv_scan (b # bs) buf tmp = Ok None"
  | (trimmed) buf' where "part_of content buf' buf" "apart buf' b" "rb_hi buf' = rb_hi buf"
      "offsets buf \<subseteq> offsets b \<union> offsets buf'" "\<not> (rb_lo buf < rb_lo b \<and> rb_lo b < rb_hi buf)"
      "rb_fin buf' = rb_fin buf"
      "recv_scan (b # bs) buf tmp = recv_scan bs buf' tmp"
  | (split) l t where "part_of content l buf" "part_of content t buf" "rb_lo l < rb_hi l" "rb_lo t < rb_hi t"
      "rb_lo l = rb_lo buf" "rb_hi l = rb_lo b" "rb_lo t = rb_lo b" "rb_hi t = rb_hi buf"
      "rb_fin t = rb_fin buf"
      "recv_scan (b # bs) buf tmp = recv_scan bs l (Some t)"
proof (cases "rb_lo b \<le> rb_lo buf \<and> rb_hi buf \<le> rb_hi b")
  case True
  with assms contained show ?thesis by (simp add: rb_simps)
next
  case nc: False
  show ?thesis
  proof (cases "rb_lo b \<le> rb_lo buf \<and> rb_lo buf < rb_hi b")
    case True
    with assms have at: "unat (rb_max_off b - rb_off buf) = rb_hi b - rb_lo buf"
      by (simp add: rb_simps unat_sub64 word_less_eq_iff_unsigned [where ?'a = nat])
    from True nc have le: "rb_hi b - rb_lo buf \<le> rb_len buf" by (auto simp: rb_len_eq)
    obtain l r where sp: "rb_split_off (rb_hi b - rb_lo buf) buf = Ok (l, r)"
      "rb_lo l = rb_lo buf" "rb_hi l = rb_lo buf + (rb_hi b - rb_lo buf)"
      "rb_lo r = rb_lo buf + (rb_hi b - rb_lo buf)" "rb_hi r = rb_hi buf" "rb_ok r"
      "rb_data buf = rb_data l @ rb_data r" "rb_fin r = rb_fin buf"
      by (rule rb_split_off_Ok [OF assms(2) le])
    have agr: "rb_agrees content r"
      using rb_agrees_split [OF assms(3) sp(7)] sp by simp
    show ?thesis
    proof (rule trimmed [of r])
      show "part_of content r buf" "apart r b" "rb_hi r = rb_hi buf" "offsets buf \<subseteq> offsets b \<union> offsets r"
        "\<not> (rb_lo buf < rb_lo b \<and> rb_lo b < rb_hi buf)" "rb_fin r = rb_fin buf"
        using sp agr True nc by (auto simp: part_of_def apart_def offsets_def)
      show "recv_scan (b # bs) buf tmp = recv_scan bs r tmp"
        using nc True sp assms by (auto simp: rb_simps at)
    qed
  next
    case nt: False
    show ?thesis
    proof (cases "rb_lo buf < rb_lo b \<and> rb_lo b < rb_hi buf")
      case True
      with assms have at: "unat (rb_off b - rb_off buf) = rb_lo b - rb_lo buf"
        by (simp add: rb_simps unat_sub64 word_less_eq_iff_unsigned [where ?'a = nat])
      from True have le: "rb_lo b - rb_lo buf \<le> rb_len buf" by (auto simp: rb_len_eq)
      obtain l r where sp: "rb_split_off (rb_lo b - rb_lo buf) buf = Ok (l, r)"
        "rb_lo l = rb_lo buf" "rb_hi l = rb_lo buf + (rb_lo b - rb_lo buf)" "rb_ok l"
        "rb_lo r = rb_lo buf + (rb_lo b - rb_lo buf)" "rb_hi r = rb_hi buf" "rb_ok r"
        "rb_data buf = rb_data l @ rb_data r" "rb_fin r = rb_fin buf"
        by (rule rb_split_off_Ok [OF assms(2) le])
      have agr: "rb_agrees content l" "rb_agrees content r"
        using rb_agrees_split [OF assms(3) sp(8)] sp by simp_all
      show ?thesis
      proof (rule split [of l r])
        show "part_of content l buf" "part_of content r buf" "rb_lo l < rb_hi l" "rb_lo r < rb_hi r"
          "rb_lo l = rb_lo buf" "rb_hi l = rb_lo b" "rb_lo r = rb_lo b" "rb_hi r = rb_hi buf"
          "rb_fin r = rb_fin buf"
          using sp agr True by (auto simp: part_of_def)
        show "recv_scan (b # bs) buf tmp = recv_scan bs l (Some r)"
          using nc nt True sp assms by (auto simp: rb_simps at)
      qed
    next
      case False
      show ?thesis
      proof (rule trimmed [of buf])
        show "part_of content buf buf" "apart buf b" "offsets buf \<subseteq> offsets b \<union> offsets buf"
          "\<not> (rb_lo buf < rb_lo b \<and> rb_lo b < rb_hi buf)"
          using assms nc nt False by (auto simp: part_of_def apart_def offsets_def)
        show "recv_scan (b # bs) buf tmp = recv_scan bs buf tmp"
          using nc nt False assms by (auto simp: rb_simps)
      qed simp_all
    qed
  qed
qed

declare recv_scan.simps(2) [simp del]

text \<open>The round does not panic; what it leaves is a part of the chunk apart from all buffered
  chunks, and so is what it splits off for the next round (a non-empty part).\<close>

lemma recv_scan_correct:
  assumes "\<forall>b \<in> set bs. rb_ok b" "rb_ok buf" "rb_agrees content buf" "part_of content buf whole"
    "\<forall>t. tmp = Some t \<longrightarrow> part_of content t whole \<and> rb_lo t < rb_hi t"
  shows "recv_scan bs buf tmp = Ok None
    \<or> (\<exists>buf' tmp'. recv_scan bs buf tmp = Ok (Some (buf', tmp'))
        \<and> part_of content buf' buf \<and> (\<forall>b \<in> set bs. apart buf' b)
        \<and> (\<forall>t. tmp' = Some t \<longrightarrow> part_of content t whole \<and> rb_lo t < rb_hi t))"
  using assms
proof (induction bs arbitrary: buf tmp)
  case Nil
  then show ?case by (simp add: part_of_refl)
next
  case (Cons b bs)
  have ok: "rb_ok b" "\<forall>b \<in> set bs. rb_ok b" using Cons.prems(1) by auto
  from ok(1) Cons.prems(2,3) show ?case
  proof (cases rule: recv_scan_Cons [where bs = bs and tmp = tmp])
    case contained
    then show ?thesis by simp
  next
    case (trimmed buf')
    then have b': "rb_ok buf'" "rb_agrees content buf'" "part_of content buf' whole"
      using Cons.prems(4) by (auto simp: part_of_def)
    from Cons.IH [OF ok(2) b' Cons.prems(5)] show ?thesis
    proof (elim disjE exE conjE)
      fix buf'' tmp'
      assume "recv_scan bs buf' tmp = Ok (Some (buf'', tmp'))" "part_of content buf'' buf'"
        "\<forall>b \<in> set bs. apart buf'' b"
        "\<forall>t. tmp' = Some t \<longrightarrow> part_of content t whole \<and> rb_lo t < rb_hi t"
      with trimmed show ?thesis
        by (auto intro: part_of_trans apart_part_of)
    qed (simp add: trimmed)
  next
    case (split l t)
    then have l: "rb_ok l" "rb_agrees content l" "part_of content l whole" "apart l b"
      using Cons.prems(4) by (auto simp: part_of_def apart_def)
    have t: "\<forall>t'. Some t = Some t' \<longrightarrow> part_of content t' whole \<and> rb_lo t' < rb_hi t'"
      using split Cons.prems(4) by (auto intro: part_of_trans)
    from Cons.IH [OF ok(2) l(1-3) t] show ?thesis
    proof (elim disjE exE conjE)
      fix buf'' tmp'
      assume "recv_scan bs l (Some t) = Ok (Some (buf'', tmp'))" "part_of content buf'' l"
        "\<forall>b \<in> set bs. apart buf'' b"
        "\<forall>t. tmp' = Some t \<longrightarrow> part_of content t whole \<and> rb_lo t < rb_hi t"
      with split l show ?thesis
        by (auto intro: part_of_trans apart_part_of)
    qed (simp add: split)
  qed
qed

section \<open>The invariant, and storing a chunk\<close>

text \<open>The buffered chunks hold the bytes that the stream has at their offsets, are apart from each
  other and lie between the read offset and the highest offset received, which the flow
  control limit and the final size bound; only the final offset may carry an empty chunk.\<close>

definition recv_inv :: "(nat \<Rightarrow> u8) \<Rightarrow> recv_buf \<Rightarrow> bool" where
  "recv_inv content r \<longleftrightarrow>
     heap_inv rb_off (rv_data r) \<and> all_apart (mset (rv_data r))
   \<and> (\<forall>b \<in> set (rv_data r). rb_ok b \<and> rb_agrees content b
        \<and> unat (rv_off r) \<le> rb_lo b \<and> rb_hi b \<le> unat (rv_len r)
        \<and> (rb_lo b < rb_hi b \<or> rv_fin_off r = Some (rb_off b)))
   \<and> rv_off r \<le> rv_len r \<and> rv_len r \<le> rv_max_data r \<and> rv_max_data r \<le> rv_max_data_next r
   \<and> (\<forall>f. rv_fin_off r = Some f \<longrightarrow> rv_len r \<le> f)"

definition buffered :: "recv_buf \<Rightarrow> nat set" where
  "buffered r = (\<Union>b \<in> set (rv_data r). offsets b)"

lemma recv_inv_new: "recv_inv content (recv_new max_data)"
  by (simp add: recv_inv_def recv_new_def heap_inv_def)

text \<open>What storing may not change, and that it only adds offsets of the chunk it is given.\<close>

definition recv_grows :: "nat set \<Rightarrow> recv_buf \<Rightarrow> recv_buf \<Rightarrow> bool" where
  "recv_grows offs r r' \<longleftrightarrow> rv_off r' = rv_off r \<and> rv_fin_off r' = rv_fin_off r
     \<and> rv_max_data r' = rv_max_data r \<and> rv_max_data_next r' = rv_max_data_next r
     \<and> rv_drain r' = rv_drain r \<and> rv_len r \<le> rv_len r'
     \<and> buffered r \<subseteq> buffered r' \<and> buffered r' \<subseteq> buffered r \<union> offs"

lemma recv_grows_trans:
  "recv_grows A r r' \<Longrightarrow> recv_grows B r' r'' \<Longrightarrow> A \<subseteq> C \<Longrightarrow> B \<subseteq> C \<Longrightarrow> recv_grows C r r''"
  unfolding recv_grows_def
  by (elim conjE, intro conjI) (simp_all add: order_trans [of "rv_len r"], blast+)

lemma recv_grows_refl: "recv_grows A r r"
  by (auto simp: recv_grows_def)

text \<open>Storing one part: the state after \<open>self.data.push(buf)\<close>.\<close>

definition recv_put :: "u64 \<Rightarrow> u128 \<Rightarrow> range_buf \<Rightarrow> recv_buf \<Rightarrow> recv_buf" where
  "recv_put limit now buf r =
     (let bct = ucast now - ucast (rv_start_time r); len = max (rv_len r) (rb_max_off buf)
      in r\<lparr>rv_bct := bct, rv_len := len,
           rv_good_recv := (if bct \<le>s limit then unat len else rv_good_recv r),
           rv_data := bh_push rb_off buf (rv_data r)\<rparr>)"

lemma recv_put_correct:
  assumes "recv_inv content r" "rb_ok buf" "rb_agrees content buf"
    "\<forall>b \<in> set (rv_data r). apart buf b" "unat (rv_off r) \<le> rb_lo buf"
    "rb_max_off buf \<le> rv_max_data r" "\<forall>f. rv_fin_off r = Some f \<longrightarrow> rb_max_off buf \<le> f"
    "rb_lo buf < rb_hi buf \<or> rv_fin_off r = Some (rb_off buf)"
  shows "recv_inv content (recv_put limit now buf r)"
    and "recv_grows (offsets buf) r (recv_put limit now buf r)"
    and "offsets buf \<subseteq> buffered (recv_put limit now buf r)"
    and "mset (rv_data (recv_put limit now buf r)) = add_mset buf (mset (rv_data r))"
proof -
  let ?r = "recv_put limit now buf r"
  have inv: "heap_inv rb_off (rv_data r)" using assms(1) by (simp add: recv_inv_def)
  have data: "rv_data ?r = bh_push rb_off buf (rv_data r)"
    and same: "rv_off ?r = rv_off r" "rv_fin_off ?r = rv_fin_off r" "rv_max_data ?r = rv_max_data r"
      "rv_max_data_next ?r = rv_max_data_next r" "rv_drain ?r = rv_drain r"
    and len: "rv_len ?r = max (rv_len r) (rb_max_off buf)"
    by (simp_all add: recv_put_def Let_def)
  have set: "set (rv_data ?r) = insert buf (set (rv_data r))"
    by (simp add: data chunks.set_push [OF inv])
  have hi: "unat (rv_len ?r) = max (unat (rv_len r)) (rb_hi buf)"
    using assms(2) by (simp add: len max_def word_less_eq_iff_unsigned [where ?'a = nat] unat_rb_max_off)
  show m: "mset (rv_data ?r) = add_mset buf (mset (rv_data r))"
    by (simp add: data chunks.mset_push [OF inv])
  have old: "rv_off r \<le> rv_len r" "rv_len r \<le> rv_max_data r" "rv_max_data r \<le> rv_max_data_next r"
    "\<forall>f. rv_fin_off r = Some f \<longrightarrow> rv_len r \<le> f" "all_apart (mset (rv_data r))"
    "\<forall>b \<in> set (rv_data r). rb_ok b \<and> rb_agrees content b \<and> unat (rv_off r) \<le> rb_lo b
       \<and> rb_hi b \<le> unat (rv_len r) \<and> (rb_lo b < rb_hi b \<or> rv_fin_off r = Some (rb_off b))"
    using assms(1) by (simp_all add: recv_inv_def)
  have "\<forall>b \<in> set (rv_data ?r). rb_ok b \<and> rb_agrees content b \<and> unat (rv_off ?r) \<le> rb_lo b
       \<and> rb_hi b \<le> unat (rv_len ?r) \<and> (rb_lo b < rb_hi b \<or> rv_fin_off ?r = Some (rb_off b))"
    unfolding set same hi using old(6) assms by (auto simp: max.coboundedI1)
  moreover have "all_apart (mset (rv_data ?r))"
    using m old(5) assms(4) by (simp add: all_apart_add)
  moreover have "rv_off ?r \<le> rv_len ?r" "rv_len ?r \<le> rv_max_data ?r" "rv_max_data ?r \<le> rv_max_data_next ?r"
    "\<forall>f. rv_fin_off ?r = Some f \<longrightarrow> rv_len ?r \<le> f"
    unfolding same len using old(1-4) assms(6,7) by (simp_all add: max.coboundedI1)
  moreover have "heap_inv rb_off (rv_data ?r)"
    by (simp add: data heap_inv_push [OF inv])
  ultimately show "recv_inv content ?r" unfolding recv_inv_def by blast
  show "recv_grows (offsets buf) r ?r" "offsets buf \<subseteq> buffered ?r"
    by (auto simp: recv_grows_def same len buffered_def set)
qed

text \<open>What the checks of \<open>push\<close> establish for a chunk that reaches the loop.\<close>

definition storable :: "(nat \<Rightarrow> u8) \<Rightarrow> recv_buf \<Rightarrow> range_buf \<Rightarrow> bool" where
  "storable content r buf \<longleftrightarrow> rb_ok buf \<and> rb_agrees content buf \<and> rb_max_off buf \<le> rv_max_data r
     \<and> (\<forall>f. rv_fin_off r = Some f \<longrightarrow> rb_max_off buf \<le> f)
     \<and> (if rb_lo buf < rb_hi buf then unat (rv_off r) < rb_hi buf
        else unat (rv_off r) \<le> rb_lo buf \<and> rv_fin_off r = Some (rb_off buf))"

lemma rb_max_off_part: "part_of content a b \<Longrightarrow> rb_ok b \<Longrightarrow> rb_max_off a \<le> rb_max_off b"
  by (simp add: part_of_def rb_max_off_le)

lemma storable_part:
  assumes "storable content r buf" "part_of content a buf" "unat (rv_off r) \<le> rb_lo a"
  shows "storable content r a"
proof -
  have "rb_max_off a \<le> rb_max_off buf"
    using assms by (auto simp: storable_def intro: rb_max_off_part)
  moreover have "rb_lo a = rb_lo buf \<and> rb_hi a = rb_hi buf" if "\<not> rb_lo buf < rb_hi buf"
    using assms(2) that rb_lo_le_hi [of a] rb_lo_le_hi [of buf] unfolding part_of_def by linarith
  moreover from this have "rb_off a = rb_off buf" if "\<not> rb_lo buf < rb_hi buf"
    using that by (simp add: rb_lo_def word_unat_eq_iff)
  ultimately show ?thesis
    using assms by (auto simp: storable_def part_of_def split: if_splits)
qed

lemma storable_grows: "storable content r buf \<Longrightarrow> recv_grows A r r' \<Longrightarrow> storable content r' buf"
  by (simp add: storable_def recv_grows_def)

lemma recv_store_step:
  assumes "recv_inv content r" "storable content r buf"
  obtains (contained) buf' where "part_of content buf' buf" "rb_hi buf' = rb_hi buf"
      "rb_lo buf' = max (rb_lo buf) (unat (rv_off r))"
      "recv_scan (rv_data r) buf' None = Ok None" "recv_store limit clock n buf r = Ok r"
  | (stored) buf' part rest where "part_of content buf' buf" "rb_hi buf' = rb_hi buf"
      "rb_lo buf' = max (rb_lo buf) (unat (rv_off r))"
      "recv_scan (rv_data r) buf' None = Ok (Some (part, rest))"
      "part_of content part buf'"
      "recv_inv content (recv_put limit (clock n) part r)"
      "recv_grows (offsets part) r (recv_put limit (clock n) part r)"
      "offsets part \<subseteq> buffered (recv_put limit (clock n) part r)"
      "mset (rv_data (recv_put limit (clock n) part r)) = add_mset part (mset (rv_data r))"
      "\<And>t. rest = Some t \<Longrightarrow> part_of content t buf' \<and> rb_len t < rb_len buf
             \<and> storable content (recv_put limit (clock n) part r) t"
      "recv_store limit clock n buf r =
        (case rest of None \<Rightarrow> Ok (recv_put limit (clock n) part r)
         | Some t \<Rightarrow> recv_store limit clock (Suc n) t (recv_put limit (clock n) part r))"
proof -
  define trim where "trim = (if rb_off buf < rv_off r
          then bnd (rb_split_off (unat (rv_off r - rb_off buf)) buf) (\<lambda>(_, rest). Ok rest)
          else Ok buf)"
  have ok: "rb_ok buf" "rb_agrees content buf" using assms(2) by (simp_all add: storable_def)
  have "\<exists>buf'. trim = Ok buf' \<and> part_of content buf' buf \<and> rb_hi buf' = rb_hi buf
      \<and> rb_lo buf' = max (rb_lo buf) (unat (rv_off r))"
  proof (cases "rb_off buf < rv_off r")
    case True
    then have lt: "rb_lo buf < unat (rv_off r)"
      by (simp add: rb_lo_def word_less_iff_unsigned [where ?'a = nat])
    have at: "unat (rv_off r - rb_off buf) = unat (rv_off r) - rb_lo buf"
      using True by (simp add: unat_sub64 less_imp_le rb_lo_def)
    have hi: "unat (rv_off r) < rb_hi buf"
      using assms(2) lt by (auto simp: storable_def split: if_splits)
    then have le: "unat (rv_off r) - rb_lo buf \<le> rb_len buf" by (simp add: rb_len_eq)
    obtain l x where sp: "rb_split_off (unat (rv_off r) - rb_lo buf) buf = Ok (l, x)"
      "rb_lo l = rb_lo buf" "rb_hi l = rb_lo buf + (unat (rv_off r) - rb_lo buf)"
      "rb_lo x = rb_lo buf + (unat (rv_off r) - rb_lo buf)" "rb_hi x = rb_hi buf" "rb_ok x"
      "rb_data buf = rb_data l @ rb_data x"
      by (rule rb_split_off_Ok [OF ok(1) le])
    have "rb_agrees content x" using rb_agrees_split [OF ok(2) sp(7)] sp by simp
    with sp lt hi show ?thesis by (intro exI [of _ x]) (auto simp: trim_def True at part_of_def)
  next
    case False
    then have "unat (rv_off r) \<le> rb_lo buf"
      by (simp add: rb_lo_def word_less_iff_unsigned [where ?'a = nat])
    with False show ?thesis by (auto simp: trim_def part_of_refl ok)
  qed
  then obtain buf' where trim: "trim = Ok buf'" and buf': "part_of content buf' buf" "rb_hi buf' = rb_hi buf"
      "rb_lo buf' = max (rb_lo buf) (unat (rv_off r))" by blast
  have st': "storable content r buf'" using storable_part [OF assms(2) buf'(1)] buf'(3) by simp
  have ok': "rb_ok buf'" "rb_agrees content buf'" using buf'(1) by (auto simp: part_of_def)
  have unfold: "recv_store limit clock n buf r = bnd (recv_scan (rv_data r) buf' None) (\<lambda>found.
       case found of None \<Rightarrow> Ok r
       | Some (buf, tmp) \<Rightarrow>
           (case tmp of None \<Rightarrow> Ok (recv_put limit (clock n) buf r)
            | Some rest \<Rightarrow> recv_store limit clock (Suc n) rest (recv_put limit (clock n) buf r)))"
    by (simp add: recv_store.simps [of limit clock n buf r] trim [unfolded trim_def] recv_put_def Let_def
        cong: option.case_cong)
  have data_ok: "\<forall>b \<in> set (rv_data r). rb_ok b" using assms(1) by (simp add: recv_inv_def)
  from recv_scan_correct [OF data_ok ok' part_of_refl [OF ok'], of None, simplified] show thesis
  proof (elim disjE exE conjE)
    assume "recv_scan (rv_data r) buf' None = Ok None"
    with contained buf' unfold show thesis by simp
  next
    fix part rest
    assume scan: "recv_scan (rv_data r) buf' None = Ok (Some (part, rest))"
      and part: "part_of content part buf'" and apart: "\<forall>b \<in> set (rv_data r). apart part b"
      and rest: "\<forall>t. rest = Some t \<longrightarrow> part_of content t buf' \<and> rb_lo t < rb_hi t"
    have lo: "unat (rv_off r) \<le> rb_lo part" using part buf'(3) by (simp add: part_of_def)
    have stp: "storable content r part" by (rule storable_part [OF st' part lo])
    have ne: "rb_lo part < rb_hi part \<or> rv_fin_off r = Some (rb_off part)"
      using stp by (auto simp: storable_def split: if_splits)
    have p: "rb_ok part" "rb_agrees content part" "rb_max_off part \<le> rv_max_data r"
      "\<forall>f. rv_fin_off r = Some f \<longrightarrow> rb_max_off part \<le> f"
      using stp by (simp_all add: storable_def)
    note put = recv_put_correct [OF assms(1) p(1,2) apart lo p(3,4) ne, of limit "clock n"]
    have "part_of content t buf' \<and> rb_len t < rb_len buf
        \<and> storable content (recv_put limit (clock n) part r) t" if "rest = Some t" for t
    proof -
      from rest that have t: "part_of content t buf'" by simp
      have "rb_len t < rb_len buf'"
        using recv_scan_len [of "rv_data r" buf' None part t "rb_len buf'"] scan that by simp
      moreover have "rb_len buf' \<le> rb_len buf" using buf'(1) by (auto simp: part_of_def rb_len_eq)
      moreover have "storable content r t"
        using storable_part [OF st' t] t buf'(3) by (simp add: part_of_def)
      ultimately show ?thesis using t storable_grows [OF _ put(2)] by simp
    qed
    with stored [OF buf' scan part put] unfold scan show thesis by simp
  qed
qed

lemma recv_store_correct:
  assumes "recv_inv content r" "storable content r buf"
  shows "\<exists>r'. recv_store limit clock n buf r = Ok r' \<and> recv_inv content r' \<and> recv_grows (offsets buf) r r'"
  using assms
proof (induction "rb_len buf" arbitrary: n buf r rule: less_induct)
  case less
  have offs: "offsets a \<subseteq> offsets b" if "part_of content a b" for a b
    using that by (auto simp: part_of_def offsets_def)
  from less.prems show ?case
  proof (cases rule: recv_store_step [where limit = limit and clock = clock and n = n])
    case (contained buf')
    with less.prems show ?thesis by (simp add: recv_grows_refl)
  next
    case (stored buf' part rest)
    let ?r = "recv_put limit (clock n) part r"
    have part: "offsets part \<subseteq> offsets buf" using stored offs by blast
    show ?thesis
    proof (cases rest)
      case None
      have "recv_grows (offsets buf) r ?r"
        by (rule recv_grows_trans [OF stored(7) recv_grows_refl [of "{}"]]) (use part in auto)
      with None stored show ?thesis by simp
    next
      case (Some t)
      from stored(10) [OF Some] have t: "rb_len t < rb_len buf" "storable content ?r t" "part_of content t buf'"
        by simp_all
      from less.hyps [OF t(1) stored(6) t(2), of "Suc n"] obtain r'
        where r': "recv_store limit clock (Suc n) t ?r = Ok r'" "recv_inv content r'" "recv_grows (offsets t) ?r r'"
        by blast
      have "offsets t \<subseteq> offsets buf" using t(3) stored(1) offs by blast
      from recv_grows_trans [OF stored(7) r'(3) part this] r' stored(11) Some show ?thesis by simp
    qed
  qed
qed

section \<open>Pushing\<close>

definition recv_push_error :: "range_buf \<Rightarrow> recv_buf \<Rightarrow> error option" where
  "recv_push_error buf r =
     (if unat (rv_max_data r) < rb_hi buf then Some FlowControl
      else case rv_fin_off r of
        Some f \<Rightarrow> if unat f < rb_hi buf \<or> (rb_fin buf \<and> rb_hi buf < unat f) then Some FinalSize else None
      | None \<Rightarrow> if rb_fin buf \<and> rb_hi buf < unat (rv_len r) then Some FinalSize else None)"

lemma rb_max_off_less [rb_simps]: "rb_ok buf \<Longrightarrow> rb_max_off buf < x \<longleftrightarrow> rb_hi buf < unat x"
  by (simp add: word_less_iff_unsigned [where ?'a = nat] unat_rb_max_off)

lemma rb_max_off_le_word [rb_simps]: "rb_ok buf \<Longrightarrow> rb_max_off buf \<le> x \<longleftrightarrow> rb_hi buf \<le> unat x"
  by (simp add: word_less_eq_iff_unsigned [where ?'a = nat] unat_rb_max_off)

lemma eq_rb_max_off [rb_simps]: "rb_ok buf \<Longrightarrow> x = rb_max_off buf \<longleftrightarrow> unat x = rb_hi buf"
  by (simp add: u64_eq_iff unat_rb_max_off)

lemma recv_push_until_errors:
  assumes "rb_ok buf" "recv_inv content r"
  shows "\<exists>e. recv_push_error buf r = Some e \<Longrightarrow>
           recv_push_until limit clock buf r = Err (the (recv_push_error buf r))"
proof -
  have "\<And>f. rv_fin_off r = Some f \<Longrightarrow> unat (rv_len r) \<le> unat f"
    using assms(2) by (simp add: recv_inv_def word_less_eq_iff_unsigned [where ?'a = nat])
  moreover assume "\<exists>e. recv_push_error buf r = Some e"
  ultimately show ?thesis
    using assms(1)
    by (auto simp: recv_push_error_def recv_push_until_def rb_simps split: option.splits if_splits)
qed

text \<open>The state once the final offset of a chunk is recorded, and what is then done with it.\<close>

definition recv_set_fin :: "range_buf \<Rightarrow> recv_buf \<Rightarrow> recv_buf" where
  "recv_set_fin buf r = (if rb_fin buf then r\<lparr>rv_fin_off := Some (rb_max_off buf)\<rparr> else r)"

lemma recv_set_fin_simps [simp]:
  "rv_off (recv_set_fin buf r) = rv_off r" "rv_len (recv_set_fin buf r) = rv_len r"
  "rv_data (recv_set_fin buf r) = rv_data r" "rv_max_data (recv_set_fin buf r) = rv_max_data r"
  "rv_max_data_next (recv_set_fin buf r) = rv_max_data_next r" "rv_drain (recv_set_fin buf r) = rv_drain r"
  "buffered (recv_set_fin buf r) = buffered r"
  by (simp_all add: recv_set_fin_def buffered_def)

lemma recv_set_fin_inv:
  assumes "rb_ok buf" "recv_inv content r" "recv_push_error buf r = None"
  shows "recv_inv content (recv_set_fin buf r)"
proof (cases "rb_fin buf")
  case True
  have len: "rv_len r \<le> rb_max_off buf"
    using assms True unfolding recv_inv_def recv_push_error_def
    by (auto simp: rb_simps word_less_eq_iff_unsigned [where ?'a = nat] not_less split: option.splits if_splits)
  have fin: "rv_fin_off r = Some f \<Longrightarrow> f = rb_max_off buf" for f
    using assms(1,3) True unfolding recv_push_error_def
    by (auto simp: rb_simps split: if_splits)
  have "rb_lo b < rb_hi b \<or> rb_max_off buf = rb_off b" if "b \<in> set (rv_data r)" for b
    using assms(2) that fin unfolding recv_inv_def by fastforce
  with assms(2) True len show ?thesis by (simp add: recv_inv_def recv_set_fin_def)
qed (simp add: recv_set_fin_def assms)

lemma recv_push_until_eq:
  assumes "rb_ok buf" "recv_inv content r" "recv_push_error buf r = None"
  shows "recv_push_until limit clock buf r =
    (if rb_is_empty buf \<and> (rv_fin_off r \<noteq> None \<or> \<not> rb_fin buf) then Ok r
     else if rv_drain r \<or> (rb_hi buf \<le> unat (rv_off r) \<and> \<not> rb_is_empty buf) then Ok (recv_set_fin buf r)
     else recv_store limit clock 0 buf (recv_set_fin buf r))"
proof -
  have "\<And>f. rv_fin_off r = Some f \<Longrightarrow> unat (rv_len r) \<le> unat f"
    using assms(2) by (simp add: recv_inv_def word_less_eq_iff_unsigned [where ?'a = nat])
  with assms(1,3) show ?thesis
    unfolding recv_push_error_def recv_push_until_def recv_set_fin_def
    by (auto simp: rb_simps Let_def not_less split: option.splits if_splits)
qed

lemma storable_push:
  assumes "rb_ok buf" "rb_agrees content buf" "recv_inv content r" "recv_push_error buf r = None"
    "\<not> (rb_is_empty buf \<and> (rv_fin_off r \<noteq> None \<or> \<not> rb_fin buf))"
    "\<not> (rb_hi buf \<le> unat (rv_off r) \<and> \<not> rb_is_empty buf)"
  shows "storable content (recv_set_fin buf r) buf"
proof -
  have max: "rb_hi buf \<le> unat (rv_max_data r)"
    using assms(4) by (auto simp: recv_push_error_def split: if_splits)
  have fin: "\<forall>f. rv_fin_off (recv_set_fin buf r) = Some f \<longrightarrow> rb_hi buf \<le> unat f"
    using assms(1,4) by (auto simp: recv_push_error_def recv_set_fin_def unat_rb_max_off split: if_splits)
  show ?thesis
  proof (cases "rb_is_empty buf")
    case False
    then have "rb_lo buf < rb_hi buf" using rb_lo_le_hi [of buf] unfolding rb_is_empty_iff by linarith
    with False assms max fin show ?thesis by (auto simp: storable_def rb_simps)
  next
    case True
    then have e: "rb_lo buf = rb_hi buf" by (simp add: rb_is_empty_iff)
    have new: "rb_fin buf" "rv_fin_off r = None" using assms(5) True by auto
    have "rv_off r \<le> rv_len r" using assms(3) by (simp add: recv_inv_def)
    then have "unat (rv_off r) \<le> rb_hi buf"
      using assms(4) new by (auto simp: recv_push_error_def word_less_eq_iff_unsigned [where ?'a = nat] split: if_splits)
    moreover have "rb_max_off buf = rb_off buf"
      using True by (simp add: rb_max_off_def rb_is_empty_def)
    moreover have "rb_max_off buf \<le> rv_max_data r" using max assms(1) by (simp add: rb_max_off_le_word)
    ultimately show ?thesis
      using assms e new by (simp add: storable_def recv_set_fin_def unat_rb_off)
  qed
qed

lemma recv_push_until_correct:
  assumes "rb_ok buf" "rb_agrees content buf" "recv_inv content r"
  shows "recv_push_until limit clock buf r = (case recv_push_error buf r of Some e \<Rightarrow> Err e | None \<Rightarrow>
           recv_push_until limit clock buf r)
    \<and> (recv_push_error buf r = None \<longrightarrow>
        (\<exists>r'. recv_push_until limit clock buf r = Ok r' \<and> recv_inv content r'
          \<and> rv_off r' = rv_off r \<and> rv_len r \<le> rv_len r'
          \<and> rv_fin_off r' = (if rb_fin buf then Some (rb_max_off buf) else rv_fin_off r)
          \<and> buffered r \<subseteq> buffered r' \<and> buffered r' \<subseteq> buffered r \<union> offsets buf))"
proof (intro conjI impI)
  show "recv_push_until limit clock buf r = (case recv_push_error buf r of Some e \<Rightarrow> Err e | None \<Rightarrow>
           recv_push_until limit clock buf r)"
    using recv_push_until_errors [OF assms(1,3), of limit clock] by (auto split: option.split)
next
  assume none: "recv_push_error buf r = None"
  let ?r = "recv_set_fin buf r"
  note eq = recv_push_until_eq [OF assms(1,3) none, of limit clock]
  have inv: "recv_inv content ?r" by (rule recv_set_fin_inv [OF assms(1,3) none])
  have fin: "rv_fin_off ?r = (if rb_fin buf then Some (rb_max_off buf) else rv_fin_off r)"
    by (simp add: recv_set_fin_def)
  show "\<exists>r'. recv_push_until limit clock buf r = Ok r' \<and> recv_inv content r'
          \<and> rv_off r' = rv_off r \<and> rv_len r \<le> rv_len r'
          \<and> rv_fin_off r' = (if rb_fin buf then Some (rb_max_off buf) else rv_fin_off r)
          \<and> buffered r \<subseteq> buffered r' \<and> buffered r' \<subseteq> buffered r \<union> offsets buf"
  proof (cases "rb_is_empty buf \<and> (rv_fin_off r \<noteq> None \<or> \<not> rb_fin buf)")
    case True
    have "rv_fin_off r = Some (rb_max_off buf)" if f: "rb_fin buf"
    proof -
      from True f obtain g where g: "rv_fin_off r = Some g" by auto
      with none f assms(1) have "g = rb_max_off buf"
        by (auto simp: recv_push_error_def rb_simps split: if_splits)
      with g show ?thesis by simp
    qed
    with True eq assms(3) show ?thesis by simp
  next
    case ne: False
    show ?thesis
    proof (cases "rv_drain r \<or> (rb_hi buf \<le> unat (rv_off r) \<and> \<not> rb_is_empty buf)")
      case True
      then have "recv_push_until limit clock buf r = Ok ?r" using eq ne by (simp only: if_False if_True)
      with inv fin show ?thesis by simp
    next
      case False
      then have push: "recv_push_until limit clock buf r = recv_store limit clock 0 buf ?r"
        using eq ne by (simp only: if_False)
      from False have "\<not> (rb_hi buf \<le> unat (rv_off r) \<and> \<not> rb_is_empty buf)" by blast
      from recv_store_correct [OF inv storable_push [OF assms none ne this], of limit clock 0]
      obtain r' where "recv_store limit clock 0 buf ?r = Ok r'" "recv_inv content r'"
          "recv_grows (offsets buf) ?r r'" by blast
      then show ?thesis unfolding push by (auto simp: recv_grows_def fin)
    qed
  qed
qed

section \<open>What is kept of a chunk\<close>

lemma recv_scan_keeps:
  assumes "\<forall>b \<in> set bs. rb_ok b \<and> \<not> (rb_lo buf < rb_lo b \<and> rb_lo b < rb_hi buf)"
    "rb_ok buf" "rb_agrees content buf"
  shows "recv_scan bs buf tmp = Ok None \<and> offsets buf \<subseteq> (\<Union>b \<in> set bs. offsets b)
    \<or> (\<exists>buf'. recv_scan bs buf tmp = Ok (Some (buf', tmp))
        \<and> offsets buf \<subseteq> (\<Union>b \<in> set bs. offsets b) \<union> offsets buf')"
  using assms
proof (induction bs arbitrary: buf)
  case Nil
  then show ?case by simp
next
  case (Cons b bs)
  have b: "rb_ok b" "\<not> (rb_lo buf < rb_lo b \<and> rb_lo b < rb_hi buf)" using Cons.prems(1) by auto
  from b(1) Cons.prems(2,3) show ?case
  proof (cases rule: recv_scan_Cons [where bs = bs and tmp = tmp])
    case contained
    then have "offsets buf \<subseteq> offsets b" by (auto simp: offsets_def)
    with contained show ?thesis by auto
  next
    case (trimmed buf')
    have "rb_ok buf'" "rb_agrees content buf'" "rb_lo buf \<le> rb_lo buf'"
      using trimmed by (auto simp: part_of_def)
    moreover have "\<forall>b \<in> set bs. rb_ok b \<and> \<not> (rb_lo buf' < rb_lo b \<and> rb_lo b < rb_hi buf')"
      using Cons.prems(1) trimmed(3) \<open>rb_lo buf \<le> rb_lo buf'\<close> by auto
    ultimately have "recv_scan bs buf' tmp = Ok None \<and> offsets buf' \<subseteq> (\<Union>b \<in> set bs. offsets b)
      \<or> (\<exists>buf''. recv_scan bs buf' tmp = Ok (Some (buf'', tmp))
        \<and> offsets buf' \<subseteq> (\<Union>b \<in> set bs. offsets b) \<union> offsets buf'')"
      using Cons.IH [of buf'] by blast
    then show ?thesis
    proof (elim disjE exE conjE)
      fix part
      assume "recv_scan bs buf' tmp = Ok (Some (part, tmp))"
        "offsets buf' \<subseteq> (\<Union>b \<in> set bs. offsets b) \<union> offsets part"
      with trimmed(4,7) show ?thesis by fastforce
    qed (use trimmed(4,7) in auto)
  next
    case (split l t)
    with b(2) show ?thesis by linarith
  qed
qed

lemma recv_scan_past:
  assumes "\<forall>b \<in> set bs. rb_ok b \<and> rb_hi buf \<le> rb_lo b" "rb_ok buf" "rb_agrees content buf"
    "rb_lo buf < rb_hi buf"
  shows "recv_scan bs buf tmp = Ok (Some (buf, tmp))"
  using assms(1)
proof (induction bs)
  case Nil
  then show ?case by simp
next
  case (Cons b bs)
  then have "rb_ok b" "rb_lo buf < rb_lo b" "\<not> rb_lo b < rb_hi buf" "\<not> rb_lo b \<le> rb_lo buf"
    using assms(4) by auto
  with Cons assms show ?case by (simp add: recv_scan.simps(2) rb_simps)
qed

text \<open>With the buffered chunks in offset order, a round loses nothing: it keeps a part, and the rest
  starts where a buffered chunk does.\<close>

lemma recv_scan_sorted:
  assumes "\<forall>b \<in> set bs. rb_ok b" "sorted_wrt (\<lambda>a b. rb_lo a \<le> rb_lo b) bs"
    "rb_ok buf" "rb_agrees content buf"
  shows "recv_scan bs buf None = Ok None \<and> offsets buf \<subseteq> (\<Union>b \<in> set bs. offsets b)
    \<or> (\<exists>part. recv_scan bs buf None = Ok (Some (part, None))
        \<and> offsets buf \<subseteq> (\<Union>b \<in> set bs. offsets b) \<union> offsets part)
    \<or> (\<exists>part t. recv_scan bs buf None = Ok (Some (part, Some t)) \<and> rb_hi part = rb_lo t
        \<and> (\<exists>b \<in> set bs. rb_lo t = rb_lo b \<and> rb_lo buf < rb_lo b \<and> rb_lo b < rb_hi buf)
        \<and> offsets buf \<subseteq> (\<Union>b \<in> set bs. offsets b) \<union> offsets part \<union> offsets t)"
  using assms
proof (induction bs arbitrary: buf)
  case Nil
  then show ?case by simp
next
  case (Cons b bs)
  have b: "rb_ok b" using Cons.prems(1) by auto
  from b Cons.prems(3,4) show ?case
  proof (cases rule: recv_scan_Cons [where bs = bs and tmp = None])
    case contained
    then have "offsets buf \<subseteq> offsets b" by (auto simp: offsets_def)
    with contained show ?thesis by auto
  next
    case (trimmed buf')
    have b': "rb_ok buf'" "rb_agrees content buf'" "rb_lo buf \<le> rb_lo buf'" "rb_hi buf' \<le> rb_hi buf"
      using trimmed by (auto simp: part_of_def)
    have hyps: "\<forall>b \<in> set bs. rb_ok b" "sorted_wrt (\<lambda>a b. rb_lo a \<le> rb_lo b) bs"
      using Cons.prems(1,2) by auto
    from Cons.IH [OF hyps b'(1,2)] trimmed(4,7) show ?thesis
    proof (elim disjE exE conjE bexE)
      fix part t c
      assume "recv_scan bs buf' None = Ok (Some (part, Some t))" "rb_hi part = rb_lo t" "c \<in> set bs"
        "rb_lo t = rb_lo c" "rb_lo buf' < rb_lo c" "rb_lo c < rb_hi buf'"
        "offsets buf' \<subseteq> (\<Union>b \<in> set bs. offsets b) \<union> offsets part \<union> offsets t"
      moreover from calculation have "rb_lo buf < rb_lo c" "rb_lo c < rb_hi buf" using b' by linarith+
      ultimately show ?thesis using trimmed(4,7) by fastforce
    qed auto
  next
    case (split l t)
    have "rb_ok l" "rb_agrees content l" using split by (auto simp: part_of_def)
    moreover have "\<forall>c \<in> set bs. rb_ok c \<and> rb_hi l \<le> rb_lo c" using Cons.prems(1,2) split(6) by auto
    ultimately have "recv_scan bs l (Some t) = Ok (Some (l, Some t))"
      using recv_scan_past split(3) by blast
    moreover have "offsets buf \<subseteq> offsets l \<union> offsets t"
      using split by (auto simp: offsets_def)
    moreover have "rb_lo buf < rb_lo b" "rb_lo b < rb_hi buf"
      using split by linarith+
    ultimately show ?thesis using split by auto
  qed
qed

text \<open>A buffered chunk that starts strictly inside the incoming one.\<close>

definition starts_inside :: "range_buf \<Rightarrow> range_buf \<Rightarrow> bool" where
  "starts_inside b buf \<longleftrightarrow> rb_lo buf < rb_lo b \<and> rb_lo b < rb_hi buf"

lemma starts_inside_part: "part_of content a b \<Longrightarrow> starts_inside c a \<Longrightarrow> starts_inside c b"
  by (auto simp: starts_inside_def part_of_def)

lemma recv_inv_ok: "recv_inv content r \<Longrightarrow> b \<in> set (rv_data r) \<Longrightarrow> rb_ok b"
  by (simp add: recv_inv_def)

lemma recv_store_keeps:
  assumes "recv_inv content r" "storable content r buf"
    and inside: "\<forall>b \<in> set (rv_data r). \<not> starts_inside b buf"
  shows "\<exists>r'. recv_store limit clock n buf r = Ok r' \<and> offsets buf \<inter> {unat (rv_off r)..} \<subseteq> buffered r'"
  using assms(1,2)
proof (cases rule: recv_store_step [where limit = limit and clock = clock and n = n])
  case (contained buf')
  have "rb_ok buf'" "rb_agrees content buf'" using contained(1) by (auto simp: part_of_def)
  moreover have "\<forall>b \<in> set (rv_data r). rb_ok b \<and> \<not> (rb_lo buf' < rb_lo b \<and> rb_lo b < rb_hi buf')"
    using recv_inv_ok [OF assms(1)] inside contained(1) starts_inside_part unfolding starts_inside_def by blast
  ultimately have "offsets buf' \<subseteq> buffered r"
    using recv_scan_keeps [of "rv_data r" buf' content None] contained(4) by (auto simp: buffered_def)
  with contained show ?thesis by (auto simp: offsets_def)
next
  case (stored buf' part rest)
  have "rb_ok buf'" "rb_agrees content buf'" using stored(1) by (auto simp: part_of_def)
  moreover have "\<forall>b \<in> set (rv_data r). rb_ok b \<and> \<not> (rb_lo buf' < rb_lo b \<and> rb_lo b < rb_hi buf')"
    using recv_inv_ok [OF assms(1)] inside stored(1) starts_inside_part unfolding starts_inside_def by blast
  ultimately have "rest = None" "offsets buf' \<subseteq> buffered r \<union> offsets part"
    using recv_scan_keeps [of "rv_data r" buf' content None] stored(4) by (auto simp: buffered_def)
  moreover have "offsets buf \<inter> {unat (rv_off r)..} \<subseteq> offsets buf'"
    using stored(2,3) by (auto simp: offsets_def)
  ultimately show ?thesis
    using stored(7,8,11) by (auto simp: recv_grows_def)
qed

lemma recv_store_keeps_sorted:
  assumes "recv_inv content r" "storable content r buf"
    and sorted: "sorted_wrt (\<lambda>a b. rb_lo a \<le> rb_lo b) (rv_data r)"
    and inside: "\<forall>b \<in> set (rv_data r). \<forall>c \<in> set (rv_data r).
      starts_inside b buf \<and> starts_inside c buf \<longrightarrow> rb_lo b = rb_lo c"
  shows "\<exists>r'. recv_store limit clock n buf r = Ok r' \<and> offsets buf \<inter> {unat (rv_off r)..} \<subseteq> buffered r'"
  using assms(1,2)
proof (cases rule: recv_store_step [where limit = limit and clock = clock and n = n])
  case (contained buf')
  have "rb_ok buf'" "rb_agrees content buf'" using contained(1) by (auto simp: part_of_def)
  then have "offsets buf' \<subseteq> buffered r"
    using recv_scan_sorted [OF _ sorted, of buf' content] recv_inv_ok [OF assms(1)] contained(4)
    by (auto simp: buffered_def)
  with contained show ?thesis by (auto simp: offsets_def)
next
  case (stored buf' part rest)
  let ?r = "recv_put limit (clock n) part r"
  have b': "rb_ok buf'" "rb_agrees content buf'" using stored(1) by (auto simp: part_of_def)
  have offs: "offsets buf \<inter> {unat (rv_off r)..} \<subseteq> offsets buf'"
    using stored(2,3) by (auto simp: offsets_def)
  have ok: "\<forall>b \<in> set (rv_data r). rb_ok b" using recv_inv_ok [OF assms(1)] by blast
  have grow: "buffered r \<subseteq> buffered ?r" "rv_off ?r = rv_off r" using stored(7) by (simp_all add: recv_grows_def)
  show ?thesis
  proof (cases rest)
    case None
    with recv_scan_sorted [OF ok sorted b'] stored(4)
    have "offsets buf' \<subseteq> buffered r \<union> offsets part" by (auto simp: buffered_def)
    with offs grow stored(8,11) None show ?thesis by auto
  next
    case (Some t)
    with recv_scan_sorted [OF ok sorted b'] stored(4) obtain b where
      b: "b \<in> set (rv_data r)" "rb_hi part = rb_lo t" "rb_lo t = rb_lo b" "starts_inside b buf'"
      and cover: "offsets buf' \<subseteq> buffered r \<union> offsets part \<union> offsets t"
      by (auto simp: buffered_def starts_inside_def)
    from stored(10) [OF Some] have t: "part_of content t buf'" "storable content ?r t" by simp_all
    have "\<not> starts_inside d t" if "d \<in> set (rv_data ?r)" for d
    proof
      assume d: "starts_inside d t"
      have "set (rv_data ?r) = insert part (set (rv_data r))"
        using stored(9) by (metis set_mset_add_mset_insert set_mset_mset)
      with that consider "d = part" | "d \<in> set (rv_data r)" by auto
      then show False
      proof cases
        case 1
        with d b(2) have "rb_hi part < rb_lo part" by (simp add: starts_inside_def)
        with rb_lo_le_hi [of part] show False by linarith
      next
        case 2
        have "starts_inside d buf" "starts_inside b buf"
          using starts_inside_part [OF part_of_trans [OF t(1) stored(1)] d] starts_inside_part [OF stored(1) b(4)] .
        with inside 2 b(1) have "rb_lo b = rb_lo d" by blast
        with d b(3) show False by (simp add: starts_inside_def)
      qed
    qed
    with recv_store_keeps [OF stored(6) t(2), of limit clock "Suc n"] obtain r' where
      r': "recv_store limit clock (Suc n) t ?r = Ok r'" "offsets t \<inter> {unat (rv_off r)..} \<subseteq> buffered r'"
      using grow by auto
    with recv_store_correct [OF stored(6) t(2), of limit clock "Suc n"] have "buffered ?r \<subseteq> buffered r'"
      by (auto simp: recv_grows_def)
    with grow stored(8) cover offs r'(2) have "offsets buf \<inter> {unat (rv_off r)..} \<subseteq> buffered r'" by blast
    with r'(1) stored(11) Some show ?thesis by simp
  qed
qed

lemma recv_push_until_keeps:
  assumes "rb_ok buf" "rb_agrees content buf" "recv_inv content r" "recv_push_error buf r = None"
    "\<not> rv_drain r" "sorted_wrt (\<lambda>a b. rb_lo a \<le> rb_lo b) (rv_data r)"
    "\<forall>b \<in> set (rv_data r). \<forall>c \<in> set (rv_data r).
      starts_inside b buf \<and> starts_inside c buf \<longrightarrow> rb_lo b = rb_lo c"
  shows "\<exists>r'. recv_push_until limit clock buf r = Ok r' \<and> offsets buf \<inter> {unat (rv_off r)..} \<subseteq> buffered r'"
proof -
  let ?r = "recv_set_fin buf r"
  note eq = recv_push_until_eq [OF assms(1,3,4), of limit clock]
  have empty: "rb_is_empty buf \<Longrightarrow> offsets buf = {}" by (simp add: rb_is_empty_iff offsets_def)
  consider "rb_is_empty buf \<and> (rv_fin_off r \<noteq> None \<or> \<not> rb_fin buf)"
    | "\<not> (rb_is_empty buf \<and> (rv_fin_off r \<noteq> None \<or> \<not> rb_fin buf))" "rb_hi buf \<le> unat (rv_off r) \<and> \<not> rb_is_empty buf"
    | "\<not> (rb_is_empty buf \<and> (rv_fin_off r \<noteq> None \<or> \<not> rb_fin buf))" "\<not> (rb_hi buf \<le> unat (rv_off r) \<and> \<not> rb_is_empty buf)"
    by blast
  then show ?thesis
  proof cases
    case 1
    with eq empty show ?thesis by simp
  next
    case 2
    have "recv_push_until limit clock buf r = Ok ?r" using eq 2 by (simp only: if_False if_True disj_not1 simp_thms)
    moreover have "offsets buf \<inter> {unat (rv_off r)..} = {}" using 2 by (auto simp: offsets_def)
    ultimately show ?thesis by simp
  next
    case 3
    have "recv_push_until limit clock buf r = recv_store limit clock 0 buf ?r"
      using eq 3 assms(5) by (simp only: if_False if_True simp_thms)
    moreover have "recv_inv content ?r" "storable content ?r buf"
      by (rule recv_set_fin_inv [OF assms(1,3,4)], rule storable_push [OF assms(1-4) 3])
    note recv_store_keeps_sorted [OF this, of limit clock 0, unfolded recv_set_fin_simps, OF assms(6,7)]
    ultimately show ?thesis by simp
  qed
qed

text \<open>Whatever the order of the array, a byte that lies below every buffered chunk that starts inside
  the incoming one is kept.\<close>

lemma recv_scan_prefix:
  assumes "\<forall>b \<in> set bs. rb_ok b" "rb_ok buf" "rb_agrees content buf" "k \<in> offsets buf"
    and "\<forall>b \<in> set bs. starts_inside b buf \<longrightarrow> k < rb_lo b" "recv_scan bs buf tmp = Ok found"
  shows "k \<in> (\<Union>b \<in> set bs. offsets b) \<or> (\<exists>part rest. found = Some (part, rest) \<and> k \<in> offsets part)"
  using assms
proof (induction bs arbitrary: buf tmp)
  case Nil
  then show ?case by auto
next
  case (Cons b bs)
  have b: "rb_ok b" "\<forall>b \<in> set bs. rb_ok b" using Cons.prems(1) by auto
  from b(1) Cons.prems(2,3) show ?case
  proof (cases rule: recv_scan_Cons [where bs = bs and tmp = tmp])
    case contained
    with Cons.prems(4) show ?thesis by (auto simp: offsets_def)
  next
    case (trimmed buf')
    have "rb_ok buf'" "rb_agrees content buf'" using trimmed(1) by (auto simp: part_of_def)
    moreover have "\<forall>b \<in> set bs. starts_inside b buf' \<longrightarrow> k < rb_lo b"
      using Cons.prems(5) starts_inside_part [OF trimmed(1)] by auto
    moreover have "recv_scan bs buf' tmp = Ok found" using Cons.prems(6) trimmed(7) by simp
    ultimately have "k \<in> offsets buf' \<Longrightarrow> k \<in> (\<Union>b \<in> set bs. offsets b) \<or> (\<exists>part rest. found = Some (part, rest) \<and> k \<in> offsets part)"
      using Cons.IH [OF b(2)] by blast
    moreover have "k \<in> offsets b \<or> k \<in> offsets buf'" using Cons.prems(4) trimmed(4) by blast
    ultimately show ?thesis by fastforce
  next
    case (split l t)
    have "starts_inside b buf" using split(3-8) by (simp add: starts_inside_def)
    with Cons.prems(4,5) split(5,6) have "k \<in> offsets l" by (auto simp: offsets_def)
    moreover have "rb_ok l" "rb_agrees content l" using split(1) by (auto simp: part_of_def)
    moreover have "\<forall>b \<in> set bs. starts_inside b l \<longrightarrow> k < rb_lo b"
      using Cons.prems(5) starts_inside_part [OF split(1)] by auto
    ultimately show ?thesis
      using Cons.IH [OF b(2), of l "Some t"] Cons.prems(6) split(10) by auto
  qed
qed

lemma recv_store_prefix:
  assumes "recv_inv content r" "storable content r buf" "k \<in> offsets buf" "unat (rv_off r) \<le> k"
    and "\<forall>b \<in> set (rv_data r). starts_inside b buf \<longrightarrow> k < rb_lo b"
  shows "\<exists>r'. recv_store limit clock n buf r = Ok r' \<and> k \<in> buffered r'"
  using assms(1,2)
proof (cases rule: recv_store_step [where limit = limit and clock = clock and n = n])
  case (contained buf')
  have "k \<in> offsets buf'" using assms(3,4) contained(2,3) by (auto simp: offsets_def)
  moreover have "rb_ok buf'" "rb_agrees content buf'" using contained(1) by (auto simp: part_of_def)
  moreover have "\<forall>b \<in> set (rv_data r). starts_inside b buf' \<longrightarrow> k < rb_lo b"
    using assms(5) starts_inside_part [OF contained(1)] by blast
  ultimately have "k \<in> buffered r"
    using recv_scan_prefix [OF _ _ _ _ _ contained(4)] recv_inv_ok [OF assms(1)] by (auto simp: buffered_def)
  with contained show ?thesis by simp
next
  case (stored buf' part rest)
  have "k \<in> offsets buf'" using assms(3,4) stored(2,3) by (auto simp: offsets_def)
  moreover have "rb_ok buf'" "rb_agrees content buf'" using stored(1) by (auto simp: part_of_def)
  moreover have "\<forall>b \<in> set (rv_data r). starts_inside b buf' \<longrightarrow> k < rb_lo b"
    using assms(5) starts_inside_part [OF stored(1)] by blast
  ultimately have "k \<in> buffered r \<union> offsets part"
    using recv_scan_prefix [OF _ _ _ _ _ stored(4)] recv_inv_ok [OF assms(1)] by (auto simp: buffered_def)
  with stored(7,8) have k: "k \<in> buffered (recv_put limit (clock n) part r)" by (auto simp: recv_grows_def)
  show ?thesis
  proof (cases rest)
    case None
    with k stored(11) show ?thesis by simp
  next
    case (Some t)
    with k stored(11) recv_store_correct [OF stored(6), of t limit clock "Suc n"] stored(10) show ?thesis
      by (auto simp: recv_grows_def)
  qed
qed

text \<open>What a round can lose: the part split off at one chunk is replaced by the part split off at a chunk that the
  array has behind it and that starts below. Nothing above the first of the two is then stored.\<close>

lemma recv_scan_below:
  assumes "\<forall>b \<in> set bs. rb_ok b" "rb_ok buf" "rb_agrees content buf" "rb_hi buf \<le> m" "\<forall>t. tmp = Some t \<longrightarrow> rb_hi t \<le> m"
    and "recv_scan bs buf tmp = Ok (Some (part, rest))"
  shows "rb_hi part \<le> m \<and> (\<forall>t. rest = Some t \<longrightarrow> rb_hi t \<le> m)"
  using assms
proof (induction bs arbitrary: buf tmp)
  case Nil
  then show ?case by simp
next
  case (Cons b bs)
  have b: "rb_ok b" "\<forall>b \<in> set bs. rb_ok b" using Cons.prems(1) by auto
  from b(1) Cons.prems(2,3) show ?case
  proof (cases rule: recv_scan_Cons [where bs = bs and tmp = tmp])
    case contained
    with Cons.prems(6) show ?thesis by simp
  next
    case (trimmed buf')
    then have "rb_ok buf'" "rb_agrees content buf'" by (auto simp: part_of_def)
    with Cons.IH [OF b(2), of buf' tmp] Cons.prems(4-6) trimmed(3,7) show ?thesis by simp
  next
    case (split l t)
    then have "rb_ok l" "rb_agrees content l" by (auto simp: part_of_def)
    with Cons.IH [OF b(2), of l "Some t"] Cons.prems(4,6) split(4-8,10) show ?thesis by simp
  qed
qed

lemma recv_scan_drops:
  assumes "\<forall>b \<in> set bs. rb_ok b" "rb_ok buf" "rb_agrees content buf" "c \<in> set bs" "starts_inside c buf"
    and "rb_lo c - 1 \<notin> (\<Union>b \<in> set bs. offsets b)" "recv_scan bs buf tmp = Ok (Some (part, rest))"
  shows "rb_hi part \<le> rb_hi buf \<and> (\<forall>t. rest = Some t \<longrightarrow> rb_hi t \<le> rb_hi buf)"
  using assms
proof (induction bs arbitrary: buf tmp)
  case Nil
  then show ?case by simp
next
  case (Cons b bs)
  have b: "rb_ok b" "\<forall>b \<in> set bs. rb_ok b" using Cons.prems(1) by auto
  from b(1) Cons.prems(2,3) show ?case
  proof (cases rule: recv_scan_Cons [where bs = bs and tmp = tmp])
    case contained
    with Cons.prems(7) show ?thesis by simp
  next
    case (trimmed buf')
    have "rb_ok buf'" "rb_agrees content buf'" using trimmed(1) by (auto simp: part_of_def)
    moreover have "c \<in> set bs" using Cons.prems(4,5) trimmed(5) by (auto simp: starts_inside_def)
    moreover have "rb_lo c - 1 \<in> offsets buf" using Cons.prems(5) by (auto simp: starts_inside_def offsets_def)
    then have "rb_lo c - 1 \<in> offsets buf'" using Cons.prems(6) trimmed(4) by auto
    then have "starts_inside c buf'" using Cons.prems(5) trimmed(3) by (auto simp: starts_inside_def offsets_def)
    ultimately show ?thesis
      using Cons.IH [OF b(2), of buf' tmp] Cons.prems(6,7) trimmed(3,7) by simp
  next
    case (split l t)
    then have "rb_ok l" "rb_agrees content l" by (auto simp: part_of_def)
    from recv_scan_below [OF b(2) this, of "rb_hi buf" "Some t" part rest] Cons.prems(7) split(4-8,10)
    show ?thesis by simp
  qed
qed

lemma recv_scan_loses:
  assumes "\<forall>a \<in> set (pre @ b # post). rb_ok a" "rb_ok buf" "rb_agrees content buf"
    and "\<forall>a \<in> set pre. \<not> starts_inside a buf" "starts_inside b buf" "c \<in> set post" "starts_inside c buf" "rb_lo c < rb_lo b"
    and "rb_lo c - 1 \<notin> (\<Union>a \<in> set (pre @ b # post). offsets a)"
    and "recv_scan (pre @ b # post) buf tmp = Ok (Some (part, rest))"
  shows "rb_hi part \<le> rb_lo b \<and> (\<forall>t. rest = Some t \<longrightarrow> rb_hi t \<le> rb_lo b)"
  using assms
proof (induction pre arbitrary: buf)
  case Nil
  have b: "rb_ok b" "\<forall>a \<in> set post. rb_ok a" using Nil(1) by auto
  from b(1) Nil(2,3) show ?case
  proof (cases rule: recv_scan_Cons [where bs = post and tmp = tmp])
    case (split l t)
    have "rb_ok l" "rb_agrees content l" using split(1) by (auto simp: part_of_def)
    moreover have "starts_inside c l" using Nil(7,8) split(5,6) by (simp add: starts_inside_def)
    ultimately show ?thesis
      using recv_scan_drops [OF b(2), of l content c "Some t" part rest] Nil(6,9,10) split(6,10) by simp
  qed (use Nil(5) in \<open>auto simp: starts_inside_def\<close>)
next
  case (Cons a pre)
  have a: "rb_ok a" "\<forall>a \<in> set (pre @ b # post). rb_ok a" "\<not> starts_inside a buf" using Cons.prems(1,4) by auto
  from a(1) Cons.prems(2,3) show ?case
  proof (cases rule: recv_scan_Cons [where bs = "pre @ b # post" and tmp = tmp])
    case contained
    with Cons.prems(10) show ?thesis by simp
  next
    case (trimmed buf')
    have "rb_ok buf'" "rb_agrees content buf'" using trimmed(1) by (auto simp: part_of_def)
    moreover have "rb_lo c - 1 \<in> offsets buf" using Cons.prems(7) by (auto simp: starts_inside_def offsets_def)
    then have "rb_lo c - 1 \<in> offsets buf'" using Cons.prems(9) trimmed(4) by auto
    then have "starts_inside c buf'" "starts_inside b buf'"
      using Cons.prems(5,7,8) trimmed(3) by (auto simp: starts_inside_def offsets_def)
    moreover have "\<forall>a \<in> set pre. \<not> starts_inside a buf'"
      using Cons.prems(4) starts_inside_part [OF trimmed(1)] by auto
    moreover have "rb_lo c - 1 \<notin> (\<Union>a \<in> set (pre @ b # post). offsets a)" using Cons.prems(9) by simp
    moreover have "recv_scan (pre @ b # post) buf' tmp = Ok (Some (part, rest))" using Cons.prems(10) trimmed(7) by simp
    ultimately show ?thesis using Cons.IH [OF a(2), of buf'] Cons.prems(6,8) by blast
  next
    case (split l t)
    with a(3) show ?thesis by (simp add: starts_inside_def)
  qed
qed

lemma recv_store_loses:
  assumes "recv_inv content r" "storable content r buf" "rv_data r = pre @ b # post"
    and "\<forall>a \<in> set pre. \<not> starts_inside a buf" "starts_inside b buf" "c \<in> set post" "starts_inside c buf" "rb_lo c < rb_lo b"
    and "rb_lo c - 1 \<notin> buffered r" "unat (rv_off r) < rb_lo c"
  shows "\<exists>r'. recv_store limit clock n buf r = Ok r' \<and> buffered r' \<subseteq> buffered r \<union> {..<rb_lo b}"
  using assms(1,2)
proof (cases rule: recv_store_step [where limit = limit and clock = clock and n = n])
  case (contained buf')
  then show ?thesis by simp
next
  case (stored buf' part rest)
  have ok: "rb_ok buf'" "rb_agrees content buf'" using stored(1) by (auto simp: part_of_def)
  have "starts_inside b buf'" "starts_inside c buf'" using assms(5,7,8,10) stored(2,3) by (auto simp: starts_inside_def)
  moreover have "\<forall>a \<in> set pre. \<not> starts_inside a buf'" using assms(4) starts_inside_part [OF stored(1)] by blast
  moreover have "\<forall>a \<in> set (rv_data r). rb_ok a" using recv_inv_ok [OF assms(1)] by blast
  ultimately have m: "rb_hi part \<le> rb_lo b" "\<And>t. rest = Some t \<Longrightarrow> rb_hi t \<le> rb_lo b"
    using recv_scan_loses [of pre b post buf' content c None part rest] ok assms(3,6,8,9) stored(4) by (simp_all add: buffered_def)
  have below: "offsets x \<subseteq> {..<rb_lo b}" if "rb_hi x \<le> rb_lo b" for x using that by (auto simp: offsets_def)
  have put: "buffered (recv_put limit (clock n) part r) \<subseteq> buffered r \<union> {..<rb_lo b}"
    using stored(7) below [OF m(1)] by (auto simp: recv_grows_def)
  show ?thesis
  proof (cases rest)
    case None
    with put stored(11) show ?thesis by simp
  next
    case (Some t)
    with stored(10) recv_store_correct [OF stored(6), of t limit clock "Suc n"] obtain r' where
      "recv_store limit clock (Suc n) t (recv_put limit (clock n) part r) = Ok r'"
      "recv_grows (offsets t) (recv_put limit (clock n) part r) r'" by blast
    with Some put stored(11) below [OF m(2) [OF Some]] show ?thesis by (auto simp: recv_grows_def)
  qed
qed

lemma recv_push_until_stores:
  assumes "rb_ok buf" "rb_agrees content buf" "recv_inv content r" "recv_push_error buf r = None" "\<not> rv_drain r"
    and "k \<in> offsets buf" "unat (rv_off r) \<le> k"
  shows "recv_push_until limit clock buf r = recv_store limit clock 0 buf (recv_set_fin buf r)"
    and "recv_inv content (recv_set_fin buf r)" "storable content (recv_set_fin buf r) buf"
proof -
  have "\<not> rb_is_empty buf" "\<not> rb_hi buf \<le> unat (rv_off r)"
    using assms(6,7) by (auto simp: rb_is_empty_iff offsets_def)
  then show "recv_push_until limit clock buf r = recv_store limit clock 0 buf (recv_set_fin buf r)"
    "storable content (recv_set_fin buf r) buf"
    using recv_push_until_eq [OF assms(1,3,4)] storable_push [OF assms(1-4)] assms(5) by simp_all
  show "recv_inv content (recv_set_fin buf r)" by (rule recv_set_fin_inv [OF assms(1,3,4)])
qed

lemma recv_push_until_prefix:
  assumes "rb_ok buf" "rb_agrees content buf" "recv_inv content r" "recv_push_error buf r = None" "\<not> rv_drain r"
    and "k \<in> offsets buf" "unat (rv_off r) \<le> k" "\<forall>b \<in> set (rv_data r). starts_inside b buf \<longrightarrow> k < rb_lo b"
  shows "\<exists>r'. recv_push_until limit clock buf r = Ok r' \<and> k \<in> buffered r'"
  using recv_store_prefix [OF recv_push_until_stores(2,3) [OF assms(1-7)], of k limit clock 0] assms(6-8)
  by (simp add: recv_push_until_stores(1) [OF assms(1-7)])

lemma recv_push_until_drained:
  assumes "rb_ok buf" "recv_inv content r" "recv_push_error buf r = None" "rv_drain r" "recv_push_until limit clock buf r = Ok r'"
  shows "rv_data r' = rv_data r"
  using recv_push_until_eq [OF assms(1-3), of limit clock] assms(4,5) by (auto split: if_splits)

section \<open>Popping\<close>

lemma recv_inv_heap: "recv_inv content r \<Longrightarrow> heap_inv rb_off (rv_data r)"
  by (simp add: recv_inv_def)

lemma recv_popped_before:
  assumes "recv_inv content r" "mset (rv_data r) = add_mset b (mset data)" "rb_off b = rv_off r" "c \<in> set data"
  shows "rb_hi b \<le> rb_lo c"
proof -
  have mem: "b \<in> set (rv_data r)" "c \<in> set (rv_data r)"
    using assms(2,4) by (metis insertCI set_mset_add_mset_insert set_mset_mset)+
  have apart: "apart b c"
    using assms by (simp add: recv_inv_def all_apart_add)
  have lo: "rb_lo b \<le> rb_lo c"
    using assms(1,3) mem(2) by (auto simp: recv_inv_def rb_lo_def)
  show ?thesis
  proof (rule ccontr)
    assume "\<not> rb_hi b \<le> rb_lo c"
    with apart have "rb_hi c \<le> rb_lo b" by (simp add: apart_def)
    with lo have c: "\<not> rb_lo c < rb_hi c" "rb_lo c = rb_lo b" using rb_lo_le_hi [of c] by linarith+
    with assms(1) mem have "rv_fin_off r = Some (rb_off c)" "rb_hi b \<le> unat (rv_len r)"
      by (auto simp: recv_inv_def)
    with assms(1) have "rb_hi b \<le> rb_lo c"
      by (auto simp: recv_inv_def rb_lo_def word_less_eq_iff_unsigned [where ?'a = nat])
    with \<open>\<not> rb_hi b \<le> rb_lo c\<close> show False ..
  qed
qed

lemma recv_inv_advance:
  assumes "recv_inv content r" "heap_inv rb_off data" "all_apart (mset data)" "off \<le> rv_len r"
    "\<forall>c \<in> set data. rb_ok c \<and> rb_agrees content c \<and> unat off \<le> rb_lo c
        \<and> rb_hi c \<le> unat (rv_len r) \<and> (rb_lo c < rb_hi c \<or> rv_fin_off r = Some (rb_off c))"
  shows "recv_inv content (r\<lparr>rv_data := data, rv_off := off\<rparr>)"
  using assms by (simp add: recv_inv_def)

lemma recv_pop_step:
  assumes "recv_inv content r" "recv_ready r" "0 < cap"
  obtains b data where "bh_pop rb_off (rv_data r) = Some (b, data)" "rb_off b = rv_off r"
    "rb_len b \<le> cap \<Longrightarrow>
       recv_inv content (r\<lparr>rv_data := data, rv_off := rv_off r + of_nat (rb_len b)\<rparr>)
       \<and> unat (rv_off r + of_nat (rb_len b)) = unat (rv_off r) + rb_len b
       \<and> rb_data b = map content [unat (rv_off r) ..< unat (rv_off r) + rb_len b]"
    "cap < rb_len b \<Longrightarrow>
       recv_inv content (r\<lparr>rv_data := bh_push rb_off \<lparr>rb_data = drop cap (rb_data b),
           rb_off = rb_off b + of_nat cap, rb_fin = rb_fin b\<rparr> data, rv_off := rv_off r + of_nat cap\<rparr>)
       \<and> unat (rv_off r + of_nat cap) = unat (rv_off r) + cap
       \<and> take cap (rb_data b) = map content [unat (rv_off r) ..< unat (rv_off r) + cap]"
proof -
  note h = recv_inv_heap [OF assms(1)]
  from assms(2) obtain b where "bh_peek (rv_data r) = Some b" and off: "rb_off b = rv_off r"
    by (auto simp: recv_ready_def split: option.splits)
  then obtain data where pop: "bh_pop rb_off (rv_data r) = Some (b, data)"
    using chunks.peek_pop [OF h] by auto
  note m = chunks.pop_mset [OF h pop]
  have hd: "heap_inv rb_off data" by (rule chunks.pop_inv [OF h pop])
  have set: "set (rv_data r) = insert b (set data)" by (rule chunks.pop_set [OF h pop])
  have apart: "all_apart (mset data)" using assms(1) by (simp add: recv_inv_def m all_apart_add)
  have b: "rb_ok b" "rb_agrees content b" "rb_hi b \<le> unat (rv_len r)"
      "rb_lo b < rb_hi b \<or> rv_fin_off r = Some (rb_off b)"
    using assms(1) by (auto simp: recv_inv_def set)
  have before: "\<forall>c \<in> set data. rb_hi b \<le> rb_lo c"
    using recv_popped_before [OF assms(1) m off] by blast
  have data: "\<forall>c \<in> set data. rb_ok c \<and> rb_agrees content c \<and> rb_hi c \<le> unat (rv_len r)
      \<and> (rb_lo c < rb_hi c \<or> rv_fin_off r = Some (rb_off c))"
    using assms(1) by (auto simp: recv_inv_def set)
  have lo: "rb_lo b = unat (rv_off r)" by (simp add: off rb_lo_def)
  have whole: "recv_inv content (r\<lparr>rv_data := data, rv_off := rv_off r + of_nat (rb_len b)\<rparr>)
       \<and> unat (rv_off r + of_nat (rb_len b)) = unat (rv_off r) + rb_len b
       \<and> rb_data b = map content [unat (rv_off r) ..< unat (rv_off r) + rb_len b]"
  proof (intro conjI)
    have max: "rv_off r + of_nat (rb_len b) = rb_max_off b" by (simp add: rb_max_off_def off)
    show hi: "unat (rv_off r + of_nat (rb_len b)) = unat (rv_off r) + rb_len b"
      unfolding max unat_rb_max_off [OF b(1)] using lo rb_lo_hi [of b] by simp
    then have hi': "unat (rv_off r + of_nat (rb_len b)) = rb_hi b"
      using b(1) by (simp add: max unat_rb_max_off)
    show "recv_inv content (r\<lparr>rv_data := data, rv_off := rv_off r + of_nat (rb_len b)\<rparr>)"
      by (rule recv_inv_advance [OF assms(1) hd apart])
        (use data before b(3) in \<open>simp_all add: hi' word_less_eq_iff_unsigned [where ?'a = nat]\<close>)
    show "rb_data b = map content [unat (rv_off r) ..< unat (rv_off r) + rb_len b]"
      using b(2) hi hi' lo by (simp add: rb_agrees_def)
  qed
  have split: "recv_inv content (r\<lparr>rv_data := bh_push rb_off \<lparr>rb_data = drop cap (rb_data b),
           rb_off = rb_off b + of_nat cap, rb_fin = rb_fin b\<rparr> data, rv_off := rv_off r + of_nat cap\<rparr>)
       \<and> unat (rv_off r + of_nat cap) = unat (rv_off r) + cap
       \<and> take cap (rb_data b) = map content [unat (rv_off r) ..< unat (rv_off r) + cap]"
    if cap: "cap < rb_len b"
  proof -
    from cap have le: "cap \<le> rb_len b" by simp
    obtain l x where sp: "rb_split_off cap b = Ok (l, x)" "rb_lo l = rb_lo b" "rb_hi l = rb_lo b + cap"
      "rb_lo x = rb_lo b + cap" "rb_hi x = rb_hi b" "rb_ok x" "rb_data b = rb_data l @ rb_data x"
      by (rule rb_split_off_Ok [OF b(1) le])
    have x: "x = \<lparr>rb_data = drop cap (rb_data b), rb_off = rb_off b + of_nat cap, rb_fin = rb_fin b\<rparr>"
      and l: "rb_data l = take cap (rb_data b)"
      using sp(1) cap by (auto simp: rb_split_off_def)
    have agr: "rb_agrees content l" "rb_agrees content x"
      using rb_agrees_split [OF b(2) sp(7)] sp by simp_all
    have off': "unat (rv_off r + of_nat cap) = unat (rv_off r) + cap"
      using sp(4) lo by (simp add: x rb_lo_def off)
    have xne: "rb_lo x < rb_hi x" using sp cap by (simp add: rb_len_eq)
    have "recv_inv content (r\<lparr>rv_data := bh_push rb_off x data, rv_off := rv_off r + of_nat cap\<rparr>)"
    proof (rule recv_inv_advance [OF assms(1)])
      show "heap_inv rb_off (bh_push rb_off x data)" by (rule heap_inv_push [OF hd])
      show "all_apart (mset (bh_push rb_off x data))"
        unfolding chunks.mset_push [OF hd] all_apart_add using apart before sp(5) by (auto simp: apart_def)
      show "rv_off r + of_nat cap \<le> rv_len r"
        using off' xne sp(4,5) b(3) lo by (simp add: word_less_eq_iff_unsigned [where ?'a = nat])
      show "\<forall>c \<in> set (bh_push rb_off x data). rb_ok c \<and> rb_agrees content c
          \<and> unat (rv_off r + of_nat cap) \<le> rb_lo c
          \<and> rb_hi c \<le> unat (rv_len r) \<and> (rb_lo c < rb_hi c \<or> rv_fin_off r = Some (rb_off c))"
        unfolding chunks.set_push [OF hd]
      proof
        fix c assume "c \<in> insert x (set data)"
        then show "rb_ok c \<and> rb_agrees content c \<and> unat (rv_off r + of_nat cap) \<le> rb_lo c
          \<and> rb_hi c \<le> unat (rv_len r) \<and> (rb_lo c < rb_hi c \<or> rv_fin_off r = Some (rb_off c))"
        proof
          assume "c = x"
          with sp agr xne off' lo b(3) show ?thesis by simp
        next
          assume c: "c \<in> set data"
          with before have "rb_hi b \<le> rb_lo c" by blast
          then have "unat (rv_off r) + cap \<le> rb_lo c" using xne sp(4,5) lo by linarith
          with data c off' show ?thesis by simp
        qed
      qed
    qed
    moreover have "take cap (rb_data b) = map content [unat (rv_off r) ..< unat (rv_off r) + cap]"
      using agr(1) sp(2,3) lo by (simp add: rb_agrees_def l)
    ultimately show ?thesis using off' by (simp add: x)
  qed
  show thesis by (rule that [OF pop off whole split])
qed

lemma recv_pop_loop_correct:
  assumes "recv_inv content r" "recv_pop_loop cap out r = (out', r')"
  shows "\<exists>n \<le> cap. out' = out @ map content [unat (rv_off r) ..< unat (rv_off r) + n]
    \<and> unat (rv_off r') = unat (rv_off r) + n \<and> recv_inv content r' \<and> (n = cap \<or> \<not> recv_ready r')
    \<and> rv_fin_off r' = rv_fin_off r \<and> rv_len r' = rv_len r \<and> rv_max_data r' = rv_max_data r
    \<and> rv_max_data_next r' = rv_max_data_next r"
  using assms
proof (induction cap out r arbitrary: out' r' rule: recv_pop_loop.induct)
  case (1 cap out r)
  show ?case
  proof (cases "0 < cap \<and> recv_ready r")
    case False
    with "1.prems" show ?thesis
      by (intro exI [of _ 0]) (auto simp: recv_pop_loop.simps [of cap out r] split: if_splits)
  next
    case True
    then have ready: "recv_ready r" "0 < cap" by auto
    from "1.prems"(1) ready show ?thesis
    proof (cases rule: recv_pop_step)
    case (1 b data)
    note pop = 1(1,2) and whole = 1(3) and split = 1(4)
    show ?thesis
    proof (cases "cap < rb_len b")
      case c: True
      then have len: "min (length (rb_data b)) cap = cap" by (simp add: rb_len_def)
      from "1.prems"(2) True pop c have "out' = out @ take cap (rb_data b)"
        "r' = r\<lparr>rv_data := bh_push rb_off \<lparr>rb_data = drop cap (rb_data b),
           rb_off = rb_off b + of_nat cap, rb_fin = rb_fin b\<rparr> data, rv_off := rv_off r + of_nat cap\<rparr>"
        by (auto simp: recv_pop_loop.simps [of cap out r] rb_len_def Let_def len
              recv_pop_loop.simps [of 0] min.absorb2)
      with split [OF c] show ?thesis by (intro exI [of _ cap]) simp
    next
      case c: False
      let ?r = "r\<lparr>rv_data := data, rv_off := rv_off r + of_nat (rb_len b)\<rparr>"
      from "1.prems"(2) True pop c
      have rec: "recv_pop_loop (cap - rb_len b) (out @ rb_data b) ?r = (out', r')"
        by (simp add: recv_pop_loop.simps [of cap out r] Let_def)
      note w = whole [OF leI [OF c]]
      from "1.IH" [OF True pop(1) refl _ refl, of b data] c rec w obtain n where
        n: "n \<le> cap - rb_len b" "out' = (out @ rb_data b) @ map content [unat (rv_off ?r) ..< unat (rv_off ?r) + n]"
          "unat (rv_off r') = unat (rv_off ?r) + n" "recv_inv content r'"
          "n = cap - rb_len b \<or> \<not> recv_ready r'"
          "rv_fin_off r' = rv_fin_off r" "rv_len r' = rv_len r" "rv_max_data r' = rv_max_data r"
          "rv_max_data_next r' = rv_max_data_next r"
        by auto
      have "[unat (rv_off r) ..< unat (rv_off r) + (rb_len b + n)]
          = [unat (rv_off r) ..< unat (rv_off r) + rb_len b] @ [unat (rv_off r) + rb_len b ..< unat (rv_off r) + rb_len b + n]"
        by (metis add.assoc le_add1 upt_add_eq_append)
      with n w c show ?thesis by (intro exI [of _ "rb_len b + n"]) auto
    qed
    qed
  qed
qed

lemma recv_inv_more_credit:
  "recv_inv content r \<Longrightarrow> recv_inv content (r\<lparr>rv_max_data_next := sat_add64 (rv_max_data_next r) n\<rparr>)"
proof -
  assume inv: "recv_inv content r"
  have "unat (rv_max_data_next r) \<le> unat (sat_add64 (rv_max_data_next r) n)"
    using unat_u64 [of "rv_max_data_next r"] by (simp add: unat_sat_add64)
  with inv show ?thesis by (simp add: recv_inv_def word_less_eq_iff_unsigned [where ?'a = nat])
qed

lemma recv_ready_more_credit: "recv_ready (r\<lparr>rv_max_data_next := n\<rparr>) = recv_ready r"
  by (simp add: recv_ready_def split: option.split)

text \<open>For evaluating concrete runs.\<close>

lemmas recv_eval = recv_push_def recv_push_until_def recv_store.simps recv_scan.simps(2)
  rb_from_def recv_new_def rb_max_off_def rb_len_def rb_is_empty_def rb_split_off_def Let_def
  bh_push_def sift_up.simps par_def swap_at_def

definition sample_buf :: "u64 \<Rightarrow> nat \<Rightarrow> range_buf" where
  "sample_buf off n = rb_from (map (\<lambda>i. of_nat (unat off + i)) [0..<n]) off False"

lemma recv_push_inv:
  assumes "recv_push clock buf r = Ok r'" "rb_ok buf" "rb_agrees content buf" "recv_inv content r"
  shows "recv_inv content r'"
  using recv_push_until_correct [OF assms(2-4), of "rv_block_deadline r" clock] assms(1)
    recv_push_until_errors [OF assms(2,4), of "rv_block_deadline r" clock]
  by (cases "recv_push_error buf r") (auto simp: recv_push_def)

lemma sample_buf_ok:
  assumes "unat v + n < 100"
  shows "rb_ok (sample_buf v n)" "rb_agrees of_nat (sample_buf v n)" "rb_lo (sample_buf v n) = unat v"
    "rb_hi (sample_buf v n) = unat v + n"
proof -
  have "map (\<lambda>i. of_nat (unat v + i)) [0..<n] = map (of_nat :: nat \<Rightarrow> u8) [unat v..<unat v + n]"
    by (rule nth_equalityI) simp_all
  then show "rb_ok (sample_buf v n)" "rb_agrees of_nat (sample_buf v n)" "rb_lo (sample_buf v n) = unat v"
    "rb_hi (sample_buf v n) = unat v + n"
    using assms by (simp_all add: rb_ok_def rb_hi_def rb_lo_def rb_agrees_def sample_buf_def rb_from_def
        del: of_nat_add)
qed

lemma three_chunks:
  "\<exists>r. bnd (recv_push (\<lambda>_. 0) (sample_buf 0 1) (recv_new 100)) (\<lambda>r.
       bnd (recv_push (\<lambda>_. 0) (sample_buf 20 1) r) (recv_push (\<lambda>_. 0) (sample_buf 10 1))) = Ok r
     \<and> rv_data r = [sample_buf 0 1] @ sample_buf 20 1 # [sample_buf 10 1] \<and> rv_off r = 0 \<and> \<not> rv_drain r
     \<and> rv_max_data r = 100 \<and> rv_len r = 21 \<and> rv_fin_off r = None"
  by (simp add: sample_buf_def recv_eval buffered_def offsets_def rb_hi_def rb_lo_def word_le_nat_alt
      word_less_nat_alt cong: bnd_weak_cong)

section \<open>Properties\<close>

text \<open>C1. Pushing a chunk. The chunk is refused exactly when it passes the flow control limit
  (\<open>FlowControl\<close>) or contradicts the final size (\<open>FinalSize\<close>), as \<open>recv_push_error\<close> states on the
  offsets as numbers. Otherwise pushing succeeds: the buffer stays well formed with every
  buffered byte the stream's byte at its offset, nothing buffered is lost, only offsets of the
  chunk are added, and the final offset is recorded. A draining stream stores nothing. Any other
  stores of the bytes at or above the read offset: always those below the first buffered chunk that
  starts strictly inside the incoming one (all of them, when there is no such chunk), and all of them
  when the array of chunks is in offset order and at most one starts inside. It never panics and
  always returns.\<close>

theorem recv_push_correct:
  assumes "rb_ok buf" "rb_agrees content buf" "recv_inv content r"
  shows "case recv_push_error buf r of
           Some e \<Rightarrow> recv_push clock buf r = Err e
         | None \<Rightarrow> \<exists>r'. recv_push clock buf r = Ok r' \<and> recv_inv content r'
             \<and> rv_off r' = rv_off r \<and> rv_len r \<le> rv_len r'
             \<and> rv_fin_off r' = (if rb_fin buf then Some (rb_max_off buf) else rv_fin_off r)
             \<and> buffered r \<subseteq> buffered r' \<and> buffered r' \<subseteq> buffered r \<union> offsets buf
             \<and> (if rv_drain r then rv_data r' = rv_data r
                else (\<forall>k \<in> offsets buf. unat (rv_off r) \<le> k
                    \<and> (\<forall>b \<in> set (rv_data r). starts_inside b buf \<longrightarrow> k < rb_lo b) \<longrightarrow> k \<in> buffered r')
                  \<and> (sorted_wrt (\<lambda>a b. rb_lo a \<le> rb_lo b) (rv_data r)
                    \<and> (\<forall>b \<in> set (rv_data r). \<forall>c \<in> set (rv_data r).
                        starts_inside b buf \<and> starts_inside c buf \<longrightarrow> rb_lo b = rb_lo c)
                    \<longrightarrow> offsets buf \<inter> {unat (rv_off r)..} \<subseteq> buffered r'))"
proof (cases "recv_push_error buf r")
  case None
  obtain r' where r': "recv_push clock buf r = Ok r'" "recv_inv content r'"
    "rv_off r' = rv_off r" "rv_len r \<le> rv_len r'"
    "rv_fin_off r' = (if rb_fin buf then Some (rb_max_off buf) else rv_fin_off r)"
    "buffered r \<subseteq> buffered r'" "buffered r' \<subseteq> buffered r \<union> offsets buf"
    using recv_push_until_correct [OF assms, of "rv_block_deadline r" clock] None unfolding recv_push_def by blast
  have "rv_data r' = rv_data r" if "rv_drain r"
    using recv_push_until_drained [OF assms(1,3) None that] r'(1) unfolding recv_push_def by blast
  moreover have "k \<in> buffered r'" if "\<not> rv_drain r" "k \<in> offsets buf" "unat (rv_off r) \<le> k"
      "\<forall>b \<in> set (rv_data r). starts_inside b buf \<longrightarrow> k < rb_lo b" for k
    using recv_push_until_prefix [OF assms None that, of "rv_block_deadline r" clock] r'(1) by (simp add: recv_push_def)
  moreover have "offsets buf \<inter> {unat (rv_off r)..} \<subseteq> buffered r'"
    if "\<not> rv_drain r" "sorted_wrt (\<lambda>a b. rb_lo a \<le> rb_lo b) (rv_data r)" "\<forall>b \<in> set (rv_data r). \<forall>c \<in> set (rv_data r).
        starts_inside b buf \<and> starts_inside c buf \<longrightarrow> rb_lo b = rb_lo c"
    using recv_push_until_keeps [OF assms None that, of "rv_block_deadline r" clock] r'(1) by (simp add: recv_push_def)
  ultimately have "if rv_drain r then rv_data r' = rv_data r
      else (\<forall>k \<in> offsets buf. unat (rv_off r) \<le> k
          \<and> (\<forall>b \<in> set (rv_data r). starts_inside b buf \<longrightarrow> k < rb_lo b) \<longrightarrow> k \<in> buffered r')
        \<and> (sorted_wrt (\<lambda>a b. rb_lo a \<le> rb_lo b) (rv_data r)
          \<and> (\<forall>b \<in> set (rv_data r). \<forall>c \<in> set (rv_data r).
              starts_inside b buf \<and> starts_inside c buf \<longrightarrow> rb_lo b = rb_lo c)
          \<longrightarrow> offsets buf \<inter> {unat (rv_off r)..} \<subseteq> buffered r')" by (cases "rv_drain r") (simp_all only: if_True if_False, blast)
  with r' show ?thesis unfolding None option.case by blast
qed (use recv_push_until_errors [OF assms(1,3), of "rv_block_deadline r" clock] in \<open>simp add: recv_push_def\<close>)

lemma recv_push_correct_witness:
  "\<exists>r'. recv_push (\<lambda>_. 7) (sample_buf 3 4) (recv_new 100) = Ok r' \<and> recv_inv of_nat r' \<and> buffered r' = {3..<7}"
proof -
  have b: "rb_ok (sample_buf 3 4)" "rb_agrees of_nat (sample_buf 3 4)"
    by (simp_all add: rb_ok_def rb_hi_def rb_lo_def rb_agrees_def sample_buf_def rb_from_def upt_rec)
  have new: "recv_push_error (sample_buf 3 4) (recv_new 100) = None" "offsets (sample_buf 3 4) = {3..<7}"
      "buffered (recv_new 100) = {}" "rv_data (recv_new 100) = []" "\<not> rv_drain (recv_new 100)" "rv_off (recv_new 100) = 0"
    by (simp_all add: rb_hi_def rb_lo_def sample_buf_def rb_from_def
        recv_push_error_def recv_new_def offsets_def buffered_def)
  from recv_push_correct [OF b recv_inv_new [of _ 100], of "\<lambda>_. 7"] obtain r' where
    "recv_push (\<lambda>_. 7) (sample_buf 3 4) (recv_new 100) = Ok r'" "recv_inv of_nat r'" "buffered r' \<subseteq> {3..<7}"
    "{3..<7} \<subseteq> buffered r'"
    by (auto simp: new)
  then show ?thesis by blast
qed

text \<open>C2. Bytes are lost otherwise: the loop visits the chunks in the array order of the heap, and
  the part split off at one chunk replaces the part split off at another. Let \<open>b\<close> be the first chunk of
  the array that starts strictly inside the incoming one, and let the array have behind it a chunk
  \<open>c\<close> that starts inside too, below \<open>b\<close> (the byte before \<open>c\<close> being new). Then the push succeeds and
  of the incoming bytes at or above the start of \<open>b\<close> none is added to what was buffered. The witness
  buffers chunks at 0, 20 and 10, in this order, and loses the bytes 21 to 29 of a chunk at 5.\<close>

theorem recv_push_loses_data:
  assumes "rb_ok buf" "rb_agrees content buf" "recv_inv content r" "recv_push_error buf r = None" "\<not> rv_drain r"
    and "rv_data r = pre @ b # post" "c \<in> set post" "starts_inside b buf" "starts_inside c buf" "rb_lo c < rb_lo b"
    and "\<forall>a \<in> set pre. \<not> starts_inside a buf" "unat (rv_off r) < rb_lo c" "rb_lo c - 1 \<notin> buffered r"
  shows "\<exists>r'. recv_push clock buf r = Ok r' \<and> (\<forall>k \<ge> rb_lo b. k \<in> buffered r' \<longleftrightarrow> k \<in> buffered r)"
proof -
  have k: "rb_lo c \<in> offsets buf" "unat (rv_off r) \<le> rb_lo c" using assms(9,12) by (auto simp: starts_inside_def offsets_def)
  let ?r = "recv_set_fin buf r"
  note st = recv_push_until_stores [OF assms(1-5) k]
  have "rv_data ?r = pre @ b # post" "rb_lo c - 1 \<notin> buffered ?r" "unat (rv_off ?r) < rb_lo c"
    using assms(6,12,13) by simp_all
  from recv_store_loses [OF st(2,3) this(1) assms(11,8,7,9,10) this(2,3), of "rv_block_deadline r" clock 0]
  obtain r' where r': "recv_push clock buf r = Ok r'" "buffered r' \<subseteq> buffered r \<union> {..<rb_lo b}"
    by (auto simp: recv_push_def st(1))
  moreover have "buffered r \<subseteq> buffered r'"
    using recv_push_until_correct [OF assms(1-3), of "rv_block_deadline r" clock] assms(4) r'(1) by (auto simp: recv_push_def)
  ultimately show ?thesis by (intro exI [of _ r']) auto
qed

lemma recv_push_loses_data_witness:
  "\<exists>r. bnd (recv_push (\<lambda>_. 0) (sample_buf 0 1) (recv_new 100)) (\<lambda>r.
       bnd (recv_push (\<lambda>_. 0) (sample_buf 20 1) r) (\<lambda>r.
       bnd (recv_push (\<lambda>_. 0) (sample_buf 10 1) r)
       (recv_push (\<lambda>_. 0) (sample_buf 5 25)))) = Ok r \<and> buffered r \<inter> {21..<30} = {}"
proof -
  obtain r where r: "bnd (recv_push (\<lambda>_. 0) (sample_buf 0 1) (recv_new 100)) (\<lambda>r.
       bnd (recv_push (\<lambda>_. 0) (sample_buf 20 1) r) (recv_push (\<lambda>_. 0) (sample_buf 10 1))) = Ok r"
     "rv_data r = [sample_buf 0 1] @ sample_buf 20 1 # [sample_buf 10 1]" "rv_off r = 0" "\<not> rv_drain r"
     "rv_max_data r = 100" "rv_len r = 21" "rv_fin_off r = None"
    using three_chunks by blast
  have inv: "recv_inv of_nat r"
    using r(1) by (auto elim!: recv_push_inv intro: recv_inv_new simp: sample_buf_ok)
  have buf: "rb_ok (sample_buf 5 25)" "rb_agrees of_nat (sample_buf 5 25)" by (simp_all add: sample_buf_ok)
  have "recv_push_error (sample_buf 5 25) r = None" "sample_buf 10 1 \<in> set [sample_buf 10 1]"
    "starts_inside (sample_buf 20 1) (sample_buf 5 25)" "starts_inside (sample_buf 10 1) (sample_buf 5 25)"
    "rb_lo (sample_buf 10 1) < rb_lo (sample_buf 20 1)" "\<forall>a \<in> set [sample_buf 0 1]. \<not> starts_inside a (sample_buf 5 25)"
    "unat (rv_off r) < rb_lo (sample_buf 10 1)" "rb_lo (sample_buf 10 1) - 1 \<notin> buffered r"
    and data: "buffered r = {0, 10, 20}"
    using r(2-7) by (auto simp: recv_push_error_def starts_inside_def sample_buf_ok buffered_def offsets_def)
  from recv_push_loses_data [OF buf inv this(1) r(4,2) this(2-8)] obtain r' where
    "recv_push (\<lambda>_. 0) (sample_buf 5 25) r = Ok r'" "\<forall>k \<ge> 20. k \<in> buffered r' \<longleftrightarrow> k \<in> buffered r"
    by (auto simp: sample_buf_ok)
  with data r(1) show ?thesis by (intro exI [of _ r']) auto
qed

text \<open>C3. Reading. \<open>pop\<close> fails with \<open>Done\<close> exactly when the byte at the read offset is missing;
  otherwise it returns the bytes of the stream from the read offset on, as many as the output
  buffer takes or as are contiguous, moves the read offset past them, keeps the buffer well
  formed, raises the next flow control limit, and reports the end exactly at the final offset.\<close>

theorem recv_pop_correct:
  assumes "recv_inv content r"
  shows "case recv_pop cap r of
      Ok ((out, fin), r') \<Rightarrow> recv_ready r \<and> length out \<le> cap
        \<and> out = map content [unat (rv_off r) ..< unat (rv_off r) + length out]
        \<and> unat (rv_off r') = unat (rv_off r) + length out
        \<and> (length out = cap \<or> \<not> recv_ready r')
        \<and> (fin \<longleftrightarrow> rv_fin_off r = Some (rv_off r'))
        \<and> rv_max_data_next r' = sat_add64 (rv_max_data_next r) (of_nat (length out))
        \<and> recv_inv content r'
    | Err e \<Rightarrow> e = Done \<and> \<not> recv_ready r
    | Panic \<Rightarrow> False"
proof (cases "recv_ready r")
  case True
  obtain out r' where loop: "recv_pop_loop cap [] r = (out, r')" by fastforce
  from recv_pop_loop_correct [OF assms loop] obtain n where n: "n \<le> cap"
    "out = map content [unat (rv_off r) ..< unat (rv_off r) + n]"
    "unat (rv_off r') = unat (rv_off r) + n" "recv_inv content r'" "n = cap \<or> \<not> recv_ready r'"
    "rv_fin_off r' = rv_fin_off r" "rv_max_data_next r' = rv_max_data_next r" by auto
  then have "length out = n" by simp
  with True n recv_inv_more_credit [OF n(4), of "of_nat n"] show ?thesis
    by (auto simp: recv_pop_def loop recv_is_fin_def recv_ready_more_credit)
qed (simp add: recv_pop_def)

lemma recv_pop_correct_witness:
  "case recv_pop 2 (recv_new 100) of Ok _ \<Rightarrow> False | Err e \<Rightarrow> e = Done | Panic \<Rightarrow> False"
  using recv_pop_correct [OF recv_inv_new [of "\<lambda>_. 0" 100], of 2]
  by (simp add: recv_pop_def recv_ready_def recv_new_def bh_peek_def)

text \<open>The other operations keep the buffer well formed: the reset at a final size (refused exactly
  when the size is known to differ or below the data received), the commit of the next flow
  control limit, the shutdown and the block information.\<close>

theorem recv_other_ops_correct:
  assumes "recv_inv content r"
  shows "(case recv_reset fsize r of
           Ok (n, r') \<Rightarrow> recv_inv content r' \<and> n = unat fsize - unat (rv_len r) \<and> rv_fin_off r' = Some fsize
         | Err e \<Rightarrow> e = FinalSize
             \<and> (fsize < rv_len r \<or> (\<exists>f. rv_fin_off r = Some f \<and> f \<noteq> fsize))
         | Panic \<Rightarrow> False)
    \<and> recv_inv content (snd (recv_update_max_data r))
    \<and> (case recv_shutdown r of Ok r' \<Rightarrow> recv_inv content r' \<and> buffered r' = {}
       | Err e \<Rightarrow> e = Done \<and> rv_drain r | Panic \<Rightarrow> False)
    \<and> recv_inv content (recv_set_block_info bs bp bd st r)"
proof (intro conjI)
  have inv: "\<And>b. b \<in> set (rv_data r) \<Longrightarrow> rb_lo b < rb_hi b \<or> rv_fin_off r = Some (rb_off b)"
    "rv_len r \<le> rv_max_data r" "rv_max_data r \<le> rv_max_data_next r"
    using assms by (auto simp: recv_inv_def)
  show "recv_inv content (snd (recv_update_max_data r))"
    using assms inv by (auto simp: recv_update_max_data_def recv_inv_def)
  show "case recv_shutdown r of Ok r' \<Rightarrow> recv_inv content r' \<and> buffered r' = {}
       | Err e \<Rightarrow> e = Done \<and> rv_drain r | Panic \<Rightarrow> False"
    using assms by (auto simp: recv_shutdown_def recv_inv_def buffered_def heap_inv_def)
  show "recv_inv content (recv_set_block_info bs bp bd st r)"
    using assms by (simp add: recv_set_block_info_def recv_inv_def)
  show "case recv_reset fsize r of
           Ok (n, r') \<Rightarrow> recv_inv content r' \<and> n = unat fsize - unat (rv_len r) \<and> rv_fin_off r' = Some fsize
         | Err e \<Rightarrow> e = FinalSize
             \<and> (fsize < rv_len r \<or> (\<exists>f. rv_fin_off r = Some f \<and> f \<noteq> fsize))
         | Panic \<Rightarrow> False"
  proof (cases "rv_fin_off r")
    case None
    with assms inv(1) show ?thesis
      by (auto simp: recv_reset_def recv_inv_def unat_sub64 not_less)
  next
    case (Some f)
    with assms show ?thesis
      by (auto simp: recv_reset_def recv_inv_def unat_sub64 not_less)
  qed
qed

lemma recv_other_ops_correct_witness:
  "case recv_reset 5 (recv_new 100) of Ok (n, r') \<Rightarrow> recv_inv (\<lambda>_. 0) r' \<and> n = 5 \<and> rv_fin_off r' = Some 5
     | Err e \<Rightarrow> False | Panic \<Rightarrow> False"
  using recv_other_ops_correct [OF recv_inv_new [of "\<lambda>_. 0" 100], of 5]
  by (auto simp: recv_reset_def recv_new_def)

end
