(* ===== verification/SendBuf.thy ===== *)
theory SendBuf
  imports RangeBuf Ranges
begin

text \<open>
  \<open>SendBuf\<close> of \<open>src/stream.rs\<close>: the send side of a stream. The application's bytes are cut into
  chunks of at most \<open>MAX_WRITE_SIZE\<close>, queued by offset up to the peer's flow control limit,
  taken out as one contiguous run per frame, and queued again when a frame is lost. The clocks
  (\<open>SystemTime::now()\<close>, nanoseconds relative to the Unix epoch, and \<open>Instant::now()\<close>) are
  arguments. An operation that can fail after changing the buffer returns the buffer next to
  its result.
\<close>

section \<open>State and operations\<close>

definition MAX_WRITE_SIZE :: nat where
  "MAX_WRITE_SIZE = 1000"

definition MAX_DEADLINE :: u64 where
  "MAX_DEADLINE = 9999999"

definition DEFAULT_PRIORITY :: u64 where
  "DEFAULT_PRIORITY = 9999999"

record send_buf =
  sb_data :: "range_buf list"
  sb_off :: u64
  sb_len :: u64
  sb_max_data :: u64
  sb_fin_off :: "u64 option"
  sb_shutdown :: bool
  sb_deadline :: u64
  sb_priority :: u64
  sb_start_time :: "int option"
  sb_start_instant :: "nat option"
  sb_acked :: rangeset
  sb_new :: bool

definition send_new_full :: "int \<Rightarrow> nat \<Rightarrow> u64 \<Rightarrow> u64 \<Rightarrow> u64 \<Rightarrow> u64 \<Rightarrow> send_buf" where
  "send_new_full wall clock max_data deadline priority depend_id =
     \<lparr>sb_data = [], sb_off = 0, sb_len = 0, sb_max_data = max_data, sb_fin_off = None,
      sb_shutdown = False, sb_deadline = deadline, sb_priority = priority,
      sb_start_time = Some wall, sb_start_instant = Some clock, sb_acked = [], sb_new = True\<rparr>"

definition send_new :: "int \<Rightarrow> nat \<Rightarrow> u64 \<Rightarrow> send_buf" where
  "send_new wall clock max_data = send_new_full wall clock max_data MAX_DEADLINE DEFAULT_PRIORITY 0"

text \<open>\<open>start_time\<close> in milliseconds.\<close>

definition send_start_time :: "send_buf \<Rightarrow> u128 result" where
  "send_start_time s =
     bnd (unwrap (sb_start_time s)) (\<lambda>t. if t < 0 then Panic else Ok (of_int (t div 1000000)))"

definition send_block_size :: "send_buf \<Rightarrow> u64" where
  "send_block_size s = (case sb_fin_off s of Some v \<Rightarrow> v | None \<Rightarrow> sb_off s)"

definition send_is_new :: "send_buf \<Rightarrow> bool" where
  "send_is_new s = sb_new s"

definition send_un_new :: "send_buf \<Rightarrow> send_buf" where
  "send_un_new s = s\<lparr>sb_new := False\<rparr>"

definition send_info_frame_lost :: "send_buf \<Rightarrow> send_buf" where
  "send_info_frame_lost s = s\<lparr>sb_new := True\<rparr>"

definition send_cap :: "send_buf \<Rightarrow> nat" where
  "send_cap s = unat (sb_max_data s - sb_off s)"

definition send_ack_off :: "send_buf \<Rightarrow> u64" where
  "send_ack_off s = (case rs_iter_next (sb_acked s) of
      Some (r, _) \<Rightarrow> if fst r = 0 then snd r else 0
    | None \<Rightarrow> 0)"

text \<open>\<open>push\<close> changes nothing before it can fail.\<close>

definition send_push :: "range_buf \<Rightarrow> send_buf \<Rightarrow> send_buf result" where
  "send_push buf s =
     (if (case sb_fin_off s of None \<Rightarrow> False | Some fin_off \<Rightarrow> fin_off < rb_max_off buf) then Err FinalSize
      else if (case sb_fin_off s of None \<Rightarrow> False
               | Some fin_off \<Rightarrow> rb_max_off buf = fin_off \<and> \<not> rb_fin buf) then Err FinalSize
      else if sb_shutdown s then Ok s
      else
        let s = (if rb_fin buf then s\<lparr>sb_fin_off := Some (rb_max_off buf)\<rparr> else s) in
        if rb_max_off buf \<le> send_ack_off s then Ok s
        else
          let s = s\<lparr>sb_len := sb_len s + of_nat (rb_len buf)\<rparr> in
          if rb_is_empty buf then Ok s
          else Ok (s\<lparr>sb_data := bh_push rb_off buf (sb_data s)\<rparr>))"

text \<open>\<open>data.chunks(n)\<close>.\<close>

function chunks_of :: "nat \<Rightarrow> 'a list \<Rightarrow> 'a list list" where
  "chunks_of n xs = (if xs = [] \<or> n = 0 then [] else take n xs # chunks_of n (drop n xs))"
  by pat_completeness auto
termination by (relation "measure (\<lambda>(n, xs). length xs)") auto

declare chunks_of.simps [simp del]

text \<open>The loop of \<open>push_slice\<close>; \<open>data_len\<close> is \<open>data.len()\<close> and \<open>len\<close> what is pushed so far.\<close>

fun send_push_chunks :: "nat \<Rightarrow> bool \<Rightarrow> nat \<Rightarrow> u8 list list \<Rightarrow> send_buf \<Rightarrow> unit result \<times> send_buf" where
  "send_push_chunks data_len fin len [] s = (Ok (), s)"
| "send_push_chunks data_len fin len (chunk # chunks) s =
     (let len = len + length chunk in
      case send_push (rb_from chunk (sb_off s) (len = data_len \<and> fin)) s of
        Ok s \<Rightarrow> send_push_chunks data_len fin len chunks (s\<lparr>sb_off := sb_off s + of_nat (length chunk)\<rparr>)
      | Err e \<Rightarrow> (Err e, s)
      | Panic \<Rightarrow> (Panic, s))"

definition send_push_slice :: "u8 list \<Rightarrow> bool \<Rightarrow> send_buf \<Rightarrow> nat result \<times> send_buf" where
  "send_push_slice data fin s =
     (if sb_shutdown s then (Ok (length data), s)
      else if data = [] then
        (case send_push (rb_from [] (sb_off s) fin) s of
           Ok s \<Rightarrow> (Ok 0, s) | Err e \<Rightarrow> (Err e, s) | Panic \<Rightarrow> (Panic, s))
      else
        let (data, fin) = (if send_cap s < length data then (take (send_cap s) data, False)
                           else (data, fin));
            (r, s) = send_push_chunks (length data) fin 0 (chunks_of MAX_WRITE_SIZE data) s
        in (bnd r (\<lambda>_. Ok (length data)), s))"

definition send_ready :: "send_buf \<Rightarrow> bool" where
  "send_ready s \<longleftrightarrow> sb_data s \<noteq> []"

text \<open>The method \<open>off\<close>: the lowest offset buffered.\<close>

definition send_off :: "send_buf \<Rightarrow> u64" where
  "send_off s = (case bh_peek (sb_data s) of Some v \<Rightarrow> rb_off v | None \<Rightarrow> sb_off s)"

lemma send_pop_split:
  assumes "bh_pop rb_off (sb_data s) = Some (buf, data)" "send_off s < sb_max_data s" "0 < out_len"
  shows "0 < min out_len (unat (sb_max_data s - rb_off buf))"
proof -
  have "send_off s = rb_off buf"
    using bh_pop_peek [OF assms(1)] by (simp add: send_off_def)
  with assms(2) have lt: "rb_off buf < sb_max_data s" by simp
  then have "unat (sb_max_data s - rb_off buf) = unat (sb_max_data s) - unat (rb_off buf)"
    by (simp add: unat_sub64)
  moreover have "unat (rb_off buf) < unat (sb_max_data s)"
    using lt by (simp add: word_less_nat_alt)
  ultimately show ?thesis using assms(3) by simp
qed

text \<open>The loop of \<open>pop\<close>, on the chunk \<open>out\<close> under construction.\<close>

function send_pop_loop :: "nat \<Rightarrow> u64 \<Rightarrow> range_buf \<Rightarrow> send_buf \<Rightarrow> (range_buf \<times> send_buf) result" where
  "send_pop_loop out_len out_off out s =
     (if 0 < out_len \<and> send_ready s \<and> send_off s = out_off \<and> send_off s < sb_max_data s then
        case bh_pop rb_off (sb_data s) of
          None \<Rightarrow> Ok (out, s)
        | Some (buf, data) \<Rightarrow>
            bnd (if out_len < rb_len buf \<or> sb_max_data s < rb_max_off buf
                 then bnd (rb_split_off (min out_len (unat (sb_max_data s - rb_off buf))) buf)
                        (\<lambda>(buf, new_buf). Ok (buf, bh_push rb_off new_buf data))
                 else Ok (buf, data)) (\<lambda>(buf, data).
            send_pop_loop (out_len - rb_len buf) (rb_max_off buf)
              \<lparr>rb_data = rb_data out @ rb_data buf,
               rb_off = (if rb_is_empty out then rb_off buf else rb_off out), rb_fin = rb_fin out\<rparr>
              (s\<lparr>sb_data := data, sb_len := sb_len s - of_nat (rb_len buf)\<rparr>))
      else Ok (out, s))"
  by pat_completeness auto
termination
proof (relation "measures [\<lambda>(out_len, out_off, out, s). out_len, \<lambda>(out_len, out_off, out, s). length (sb_data s)]",
    goal_cases)
  case 1
  then show ?case by simp
next
  case (2 out_len out_off out s p buf data q buf' data')
  have c: "0 < out_len" "send_off s < sb_max_data s" using 2(1) by auto
  have pop: "bh_pop rb_off (sb_data s) = Some (buf, data)" using 2(2,3) by simp
  show ?case
  proof (cases "out_len < rb_len buf \<or> sb_max_data s < rb_max_off buf")
    case True
    with 2(4,5) obtain new_buf where
      "rb_split_off (min out_len (unat (sb_max_data s - rb_off buf))) buf = Ok (buf', new_buf)"
      by auto
    then have "rb_len buf' = min out_len (unat (sb_max_data s - rb_off buf))"
      by (auto simp: rb_split_off_def rb_len_def split: if_splits)
    with send_pop_split [OF pop c(2,1)] c show ?thesis by simp
  next
    case False
    with 2(4,5) have "buf' = buf" "data' = data" by auto
    with bh_pop_length [OF pop] show ?thesis by auto
  qed
qed

declare send_pop_loop.simps [simp del]

definition send_pop :: "nat \<Rightarrow> send_buf \<Rightarrow> (range_buf \<times> send_buf) result" where
  "send_pop max_data s =
     bnd (send_pop_loop max_data (send_off s)
            \<lparr>rb_data = [], rb_off = sb_off s, rb_fin = False\<rparr> s)
       (\<lambda>(out, s). Ok (out\<lparr>rb_fin := (sb_fin_off s = Some (rb_max_off out))\<rparr>, s))"

definition send_update_max_data :: "u64 \<Rightarrow> send_buf \<Rightarrow> send_buf" where
  "send_update_max_data max_data s = s\<lparr>sb_max_data := max (sb_max_data s) max_data\<rparr>"

definition send_ack :: "u64 \<Rightarrow> nat \<Rightarrow> send_buf \<Rightarrow> send_buf" where
  "send_ack off len s = s\<lparr>sb_acked := rs_insert (off, off + of_nat len) (sb_acked s)\<rparr>"

definition send_shutdown :: "send_buf \<Rightarrow> send_buf result" where
  "send_shutdown s =
     (if sb_shutdown s then Err Done else Ok (s\<lparr>sb_shutdown := True, sb_data := []\<rparr>))"

definition send_is_fin :: "send_buf \<Rightarrow> bool" where
  "send_is_fin s \<longleftrightarrow> sb_fin_off s = Some (sb_off s)"

definition send_is_complete :: "send_buf \<Rightarrow> bool" where
  "send_is_complete s = (case sb_fin_off s of
      Some fin_off \<Rightarrow> rs_eq_range (sb_acked s) (0, fin_off)
    | None \<Rightarrow> False)"

definition send_get_block_info :: "send_buf \<Rightarrow> u64 \<times> u64" where
  "send_get_block_info s = (sb_priority s, sb_deadline s)"

section \<open>The invariant\<close>

text \<open>The queued chunks are non-empty, hold the stream's bytes and end at or below the write offset,
  which the flow control limit bounds; \<open>len\<close> is the number of bytes queued; the final offset,
  once known, is the write offset; only written data is acknowledged.\<close>

definition send_inv :: "(nat \<Rightarrow> u8) \<Rightarrow> send_buf \<Rightarrow> bool" where
  "send_inv content s \<longleftrightarrow>
     heap_inv rb_off (sb_data s)
   \<and> (\<forall>b \<in> set (sb_data s). rb_ok b \<and> rb_agrees content b \<and> rb_lo b < rb_hi b
        \<and> rb_hi b \<le> unat (sb_off s))
   \<and> (\<not> sb_shutdown s \<longrightarrow> sb_len s = of_nat (sum_list (map rb_len (sb_data s))))
   \<and> sb_off s \<le> sb_max_data s
   \<and> (\<forall>f. sb_fin_off s = Some f \<longrightarrow> f = sb_off s)
   \<and> rs_wf (sb_acked s) \<and> (\<forall>r \<in> set (sb_acked s). snd r \<le> sb_off s)"

definition send_buffered :: "send_buf \<Rightarrow> nat set" where
  "send_buffered s = (\<Union>b \<in> set (sb_data s). offsets b)"

lemma send_inv_new: "send_inv content (send_new_full wall clock max_data deadline priority dep)"
  by (simp add: send_inv_def send_new_full_def heap_inv_def)

lemma send_ack_off_le: "send_inv content s \<Longrightarrow> send_ack_off s \<le> sb_off s"
  by (auto simp: send_ack_off_def send_inv_def rs_iter_next_def split: list.splits)

lemma send_ack_off_upd: "send_ack_off (s\<lparr>sb_fin_off := f\<rparr>) = send_ack_off s"
  by (simp add: send_ack_off_def)

lemma sum_bh_push:
  "heap_inv rb_off data \<Longrightarrow> sum_list (map rb_len (bh_push rb_off b data)) = rb_len b + sum_list (map rb_len data)"
  by (rule chunks.push_sum)

lemma rs_insert_bound:
  assumes "\<forall>r \<in> set m. snd r \<le> B" "snd item \<le> B"
  shows "\<forall>r \<in> set (rs_insert item m). snd r \<le> B"
proof -
  have loop: "\<forall>r \<in> set m. snd r \<le> B \<Longrightarrow> end \<le> B \<Longrightarrow> \<forall>r \<in> set (rs_insert_loop item start end m). snd r \<le> B"
    for start "end" m
  proof (induction item start "end" m rule: rs_insert_loop.induct)
    case (1 item start "end" m)
    have ins: "\<forall>r \<in> set (bt_insert start end m). snd r \<le> B"
      using "1.prems" set_bt_insert_subset [of start "end" m] by fastforce
    show ?case
    proof (cases "next_to m start")
      case None
      with ins show ?thesis by (simp add: rs_insert_loop_stop)
    next
      case (Some r)
      then have r: "snd r \<le> B" using next_to_in "1.prems"(1) by blast
      have del: "\<forall>q \<in> set (bt_remove (fst r) m). snd q \<le> B" using "1.prems"(1) by auto
      consider "range_contains item (fst r) \<and> range_contains item (snd r)"
        | "\<not> (range_contains item (fst r) \<and> range_contains item (snd r))" "range_overlaps r item"
        | "\<not> (range_contains item (fst r) \<and> range_contains item (snd r))" "\<not> range_overlaps r item" by blast
      then show ?thesis
      proof cases
        case 1
        with "1.IH"(1) [OF Some 1 del "1.prems"(2)] Some show ?thesis by (simp add: rs_insert_loop_step)
      next
        case 2
        with "1.IH"(2) [OF Some 2(1) _ del] Some r "1.prems"(2) show ?thesis by (simp add: rs_insert_loop_step)
      next
        case 3
        with Some ins show ?thesis by (simp add: rs_insert_loop_stop)
      qed
    qed
  qed
  show ?thesis
  proof (cases "prev_to m (fst item)")
    case None
    with loop [OF assms] show ?thesis by (simp add: rs_insert_def)
  next
    case (Some r)
    then have "r \<in> set m"
      by (auto simp: prev_to_def split: list.splits dest!: arg_cong [where f = set])
    then have "snd r \<le> B" "\<forall>q \<in> set (bt_remove (fst r) m). snd q \<le> B" using assms(1) by auto
    with loop [of "bt_remove (fst r) m" "max (snd item) (snd r)"] loop [OF assms] Some assms(2) show ?thesis
      by (simp add: rs_insert_def Let_def)
  qed
qed

section \<open>Writing\<close>

lemma concat_chunks_of: "0 < n \<Longrightarrow> concat (chunks_of n xs) = xs \<and> (\<forall>c \<in> set (chunks_of n xs). c \<noteq> [])"
proof (induction n xs rule: chunks_of.induct)
  case (1 n xs)
  then show ?case
    by (cases "xs = []") (auto simp: chunks_of.simps [of n xs] chunks_of.simps [of n "[]"])
qed

lemma send_push_new:
  assumes "send_inv content s" "\<not> sb_shutdown s" "sb_fin_off s = None" "chunk \<noteq> []"
    "unat (sb_off s) + length chunk \<le> unat (sb_max_data s)"
    "chunk = map content [unat (sb_off s) ..< unat (sb_off s) + length chunk]"
  obtains s' where "send_push (rb_from chunk (sb_off s) fin) s = Ok s'"
    "send_inv content (s'\<lparr>sb_off := sb_off s' + of_nat (length chunk)\<rparr>)"
    "unat (sb_off s' + of_nat (length chunk)) = unat (sb_off s) + length chunk"
    "sb_fin_off s' = (if fin then Some (sb_off s' + of_nat (length chunk)) else None)"
    "\<not> sb_shutdown s'" "sb_max_data s' = sb_max_data s" "sb_acked s' = sb_acked s"
    "send_buffered s' = send_buffered s \<union> {unat (sb_off s) ..< unat (sb_off s) + length chunk}"
    "sb_len s' = sb_len s + of_nat (length chunk)"
proof -
  let ?b = "rb_from chunk (sb_off s) fin" and ?n = "length chunk"
  let ?s = "s\<lparr>sb_fin_off := (if fin then Some (sb_off s + of_nat ?n) else None), sb_len := sb_len s + of_nat ?n,
      sb_data := bh_push rb_off ?b (sb_data s)\<rparr>"
  have pos: "0 < ?n" using assms(4) by simp
  have bound: "unat (sb_off s) + ?n < 2 ^ 64"
    using assms(5) unat_u64 [of "sb_max_data s"] by linarith
  then have off': "unat (sb_off s + of_nat ?n) = unat (sb_off s) + ?n"
    by (simp add: unat_add64 unat_of_nat mod_add_right_eq)
  have b: "rb_lo ?b = unat (sb_off s)" "rb_hi ?b = unat (sb_off s) + ?n" "rb_ok ?b" "rb_agrees content ?b"
    "rb_max_off ?b = sb_off s + of_nat ?n" "rb_len ?b = ?n" "\<not> rb_is_empty ?b" "rb_fin ?b = fin"
    using bound assms(4,6) by (auto simp: rb_from_def rb_lo_def rb_hi_def rb_ok_def rb_agrees_def
        rb_max_off_def rb_len_def rb_is_empty_def)
  have h: "heap_inv rb_off (sb_data s)" using assms(1) by (simp add: send_inv_def)
  have "send_ack_off s < rb_max_off ?b"
  proof -
    have "unat (send_ack_off s) \<le> unat (sb_off s)"
      using send_ack_off_le [OF assms(1)] by (simp add: word_le_nat_alt)
    with pos show ?thesis unfolding b word_less_nat_alt off' by linarith
  qed
  then have push: "send_push ?b s = Ok ?s"
    using assms(2,3) b
    by (cases fin) (auto simp: send_push_def Let_def send_ack_off_upd not_le)
  have set: "set (sb_data ?s) = insert ?b (set (sb_data s))" by (simp add: chunks.set_push [OF h])
  have "send_inv content (?s\<lparr>sb_off := sb_off ?s + of_nat ?n\<rparr>)"
    unfolding send_inv_def
  proof (intro conjI)
    show "heap_inv rb_off (sb_data (?s\<lparr>sb_off := sb_off ?s + of_nat ?n\<rparr>))" by (simp add: heap_inv_push [OF h])
    show "\<forall>b \<in> set (sb_data (?s\<lparr>sb_off := sb_off ?s + of_nat ?n\<rparr>)). rb_ok b \<and> rb_agrees content b \<and> rb_lo b < rb_hi b
        \<and> rb_hi b \<le> unat (sb_off (?s\<lparr>sb_off := sb_off ?s + of_nat ?n\<rparr>))"
      using set b assms(1,4) off' by (auto simp: send_inv_def intro: trans_le_add1)
    show "\<not> sb_shutdown (?s\<lparr>sb_off := sb_off ?s + of_nat ?n\<rparr>) \<longrightarrow>
        sb_len (?s\<lparr>sb_off := sb_off ?s + of_nat ?n\<rparr>)
        = of_nat (sum_list (map rb_len (sb_data (?s\<lparr>sb_off := sb_off ?s + of_nat ?n\<rparr>))))"
      using assms(1,2) b by (simp add: send_inv_def sum_bh_push [OF h] add.commute)
    show "sb_off (?s\<lparr>sb_off := sb_off ?s + of_nat ?n\<rparr>) \<le> sb_max_data (?s\<lparr>sb_off := sb_off ?s + of_nat ?n\<rparr>)"
      using assms(5) off' by (simp add: word_le_nat_alt)
    show "\<forall>r \<in> set (sb_acked (?s\<lparr>sb_off := sb_off ?s + of_nat ?n\<rparr>)). snd r \<le> sb_off (?s\<lparr>sb_off := sb_off ?s + of_nat ?n\<rparr>)"
      using assms(1) off' by (auto simp: send_inv_def word_le_nat_alt intro: trans_le_add1)
  qed (use assms(1) in \<open>auto simp: send_inv_def\<close>)
  then show thesis
    using that [OF push] off' assms(2) set b by (simp add: send_buffered_def offsets_def Un_commute)
qed

lemma send_push_chunks_correct:
  assumes "send_inv content s" "\<not> sb_shutdown s" "sb_fin_off s = None" "\<forall>c \<in> set chunks. c \<noteq> []"
    "unat (sb_off s) + length (concat chunks) \<le> unat (sb_max_data s)"
    "concat chunks = map content [unat (sb_off s) ..< unat (sb_off s) + length (concat chunks)]"
    "len + length (concat chunks) = data_len"
  shows "\<exists>s'. send_push_chunks data_len fin len chunks s = (Ok (), s') \<and> send_inv content s'
    \<and> unat (sb_off s') = unat (sb_off s) + length (concat chunks)
    \<and> sb_fin_off s' = (if fin \<and> chunks \<noteq> [] then Some (sb_off s') else None)
    \<and> \<not> sb_shutdown s' \<and> sb_max_data s' = sb_max_data s
    \<and> sb_len s' = sb_len s + of_nat (length (concat chunks))
    \<and> send_buffered s' = send_buffered s \<union> {unat (sb_off s) ..< unat (sb_off s) + length (concat chunks)}"
  using assms
proof (induction chunks arbitrary: s len)
  case Nil
  then show ?case by simp
next
  case (Cons c cs)
  let ?n = "length c" and ?m = "length (concat cs)" and ?o = "unat (sb_off s)"
  have "[?o ..< ?o + (?n + ?m)] = [?o ..< ?o + ?n] @ [?o + ?n ..< ?o + ?n + ?m]"
    by (metis add.assoc le_add1 upt_add_eq_append)
  then have content: "c = map content [?o ..< ?o + ?n]" "concat cs = map content [?o + ?n ..< ?o + ?n + ?m]"
    using Cons.prems(6) by (simp_all add: append_eq_append_conv)
  have c: "c \<noteq> []" "?o + ?n \<le> unat (sb_max_data s)" using Cons.prems(4,5) by auto
  define fin' where "fin' = (len + ?n = data_len \<and> fin)"
  obtain s1 where s1: "send_push (rb_from c (sb_off s) fin') s = Ok s1"
    "send_inv content (s1\<lparr>sb_off := sb_off s1 + of_nat ?n\<rparr>)"
    "unat (sb_off s1 + of_nat ?n) = ?o + ?n"
    "sb_fin_off s1 = (if fin' then Some (sb_off s1 + of_nat ?n) else None)"
    "\<not> sb_shutdown s1" "sb_max_data s1 = sb_max_data s" "sb_acked s1 = sb_acked s"
    "send_buffered s1 = send_buffered s \<union> {?o ..< ?o + ?n}"
    "sb_len s1 = sb_len s + of_nat ?n"
    by (rule send_push_new [OF Cons.prems(1-3) c content(1), of fin'])
  let ?s = "s1\<lparr>sb_off := sb_off s1 + of_nat ?n\<rparr>"
  have step: "send_push_chunks data_len fin len (c # cs) s = send_push_chunks data_len fin (len + ?n) cs ?s"
    using s1(1) by (simp add: Let_def fin'_def)
  have buf: "send_buffered ?s = send_buffered s1" by (simp add: send_buffered_def)
  show ?case
  proof (cases "cs = []")
    case True
    with Cons.prems(7) have "fin' = fin" by (simp add: fin'_def)
    with True s1 buf step show ?thesis by simp
  next
    case False
    then have "0 < ?m" using Cons.prems(4) by (cases cs) auto
    moreover have "length (concat (c # cs)) = ?n + ?m" by simp
    ultimately have "len + ?n \<noteq> data_len" using Cons.prems(7) by linarith
    then have "\<not> fin'" by (simp add: fin'_def)
    then have "sb_fin_off ?s = None" using s1(4) by simp
    moreover have "\<forall>c \<in> set cs. c \<noteq> []" "unat (sb_off ?s) + ?m \<le> unat (sb_max_data ?s)"
      "concat cs = map content [unat (sb_off ?s) ..< unat (sb_off ?s) + ?m]" "\<not> sb_shutdown ?s"
      "len + ?n + ?m = data_len"
      using Cons.prems(4,5,7) s1 content(2) by (simp_all add: add.assoc)
    ultimately obtain s' where "send_push_chunks data_len fin (len + ?n) cs ?s = (Ok (), s')" "send_inv content s'"
      "unat (sb_off s') = unat (sb_off ?s) + ?m" "sb_fin_off s' = (if fin \<and> cs \<noteq> [] then Some (sb_off s') else None)"
      "\<not> sb_shutdown s'" "sb_max_data s' = sb_max_data ?s" "sb_len s' = sb_len ?s + of_nat ?m"
      "send_buffered s' = send_buffered ?s \<union> {unat (sb_off ?s) ..< unat (sb_off ?s) + ?m}"
      using Cons.IH [of ?s "len + ?n"] s1(2) by blast
    with s1 buf step False show ?thesis
      by (simp add: ivl_disj_un_two(3) Un_assoc add.assoc)
  qed
qed

section \<open>Taking out a run\<close>

lemma send_pop_step:
  assumes "send_inv content s" "send_ready s" "0 < out_len" "send_off s < sb_max_data s"
  obtains b data buf' data' where "bh_pop rb_off (sb_data s) = Some (b, data)"
    "(if out_len < rb_len b \<or> sb_max_data s < rb_max_off b
      then bnd (rb_split_off (min out_len (unat (sb_max_data s - rb_off b))) b)
             (\<lambda>(buf, new_buf). Ok (buf, bh_push rb_off new_buf data))
      else Ok (b, data)) = Ok (buf', data')"
    "rb_ok buf'" "rb_agrees content buf'" "rb_off buf' = send_off s" "0 < rb_len buf'"
    "rb_len buf' \<le> out_len" "rb_hi buf' \<le> unat (sb_off s)"
    "send_inv content (s\<lparr>sb_data := data', sb_len := sb_len s - of_nat (rb_len buf')\<rparr>)"
    "(\<Union>c \<in> set (sb_data s). offsets c) = offsets buf' \<union> (\<Union>c \<in> set data'. offsets c)"
proof -
  have h: "heap_inv rb_off (sb_data s)" using assms(1) by (simp add: send_inv_def)
  from assms(2) obtain b data where pop: "bh_pop rb_off (sb_data s) = Some (b, data)"
    using chunks.pop_None [OF h] by (cases "bh_pop rb_off (sb_data s)") (auto simp: send_ready_def)
  note m = chunks.pop_mset [OF h pop]
  have hd: "heap_inv rb_off data" by (rule chunks.pop_inv [OF h pop])
  have set: "set (sb_data s) = insert b (set data)" by (rule chunks.pop_set [OF h pop])
  have off: "send_off s = rb_off b" using bh_pop_peek [OF pop] by (simp add: send_off_def)
  have b: "rb_ok b" "rb_agrees content b" "rb_lo b < rb_hi b" "rb_hi b \<le> unat (sb_off s)"
    using assms(1) by (auto simp: send_inv_def set)
  have sum: "sum_list (map rb_len (sb_data s)) = rb_len b + sum_list (map rb_len data)"
    by (rule chunks.pop_sum [OF h pop])
  have data: "\<forall>c \<in> set data. rb_ok c \<and> rb_agrees content c \<and> rb_lo c < rb_hi c \<and> rb_hi c \<le> unat (sb_off s)"
    using assms(1) by (auto simp: send_inv_def set)
  have le: "rb_hi b \<le> unat (sb_max_data s)"
    using assms(1) b(4) by (auto simp: send_inv_def word_le_nat_alt)
  then have nle: "\<not> sb_max_data s < rb_max_off b"
    using b(1) by (simp add: less_rb_max_off_word not_less)
  have inv: "send_inv content (s\<lparr>sb_data := data', sb_len := sb_len s - of_nat n\<rparr>)"
    if "heap_inv rb_off data'" "n + sum_list (map rb_len data') = sum_list (map rb_len (sb_data s))"
      "\<forall>c \<in> set data'. rb_ok c \<and> rb_agrees content c \<and> rb_lo c < rb_hi c \<and> rb_hi c \<le> unat (sb_off s)"
    for data' n
  proof -
    have "(of_nat (sum_list (map rb_len (sb_data s))) :: u64) = of_nat n + of_nat (sum_list (map rb_len data'))"
      using that(2) by (metis of_nat_add)
    with assms(1) that(1,3) show ?thesis by (auto simp: send_inv_def)
  qed
  show thesis
  proof (cases "out_len < rb_len b")
    case False
    show thesis
    proof (rule that [OF pop, of b data])
      show "send_inv content (s\<lparr>sb_data := data, sb_len := sb_len s - of_nat (rb_len b)\<rparr>)"
        by (rule inv [OF hd]) (use sum data in auto)
      show "0 < rb_len b" using b(3) by (simp add: rb_len_def rb_lo_def rb_hi_def)
      show "(\<Union>c \<in> set (sb_data s). offsets c) = offsets b \<union> (\<Union>c \<in> set data. offsets c)"
        by (simp add: set)
    qed (use False nle b off in auto)
  next
    case True
    then have "unat (sb_max_data s - rb_off b) = unat (sb_max_data s) - rb_lo b"
      using assms(4) off by (simp add: unat_sub64 less_imp_le rb_lo_def)
    moreover have "rb_lo b + rb_len b = rb_hi b" by (rule rb_lo_hi)
    ultimately have at: "min out_len (unat (sb_max_data s - rb_off b)) = out_len"
      using le True by linarith
    from True have "out_len \<le> rb_len b" by simp
    then obtain l x where sp: "rb_split_off out_len b = Ok (l, x)" "rb_lo l = rb_lo b" "rb_hi l = rb_lo b + out_len"
      "rb_ok l" "rb_lo x = rb_lo b + out_len" "rb_hi x = rb_hi b" "rb_ok x" "rb_data b = rb_data l @ rb_data x"
      "rb_len x = rb_len b - out_len" "rb_len l = out_len"
      by (rule rb_split_off_Ok [OF b(1)])
    have agr: "rb_agrees content l" "rb_agrees content x"
      using rb_agrees_split [OF b(2) sp(8)] sp by simp_all
    have x: "rb_lo x < rb_hi x" using True sp(5,6) rb_lo_hi [of b] by linarith
    show thesis
    proof (rule that [OF pop, of l "bh_push rb_off x data"])
      show "send_inv content (s\<lparr>sb_data := bh_push rb_off x data, sb_len := sb_len s - of_nat (rb_len l)\<rparr>)"
      proof (rule inv [OF heap_inv_push [OF hd]])
        show "rb_len l + sum_list (map rb_len (bh_push rb_off x data)) = sum_list (map rb_len (sb_data s))"
          using True by (simp add: sum_bh_push [OF hd] sp(9,10) sum)
        show "\<forall>c \<in> set (bh_push rb_off x data).
            rb_ok c \<and> rb_agrees content c \<and> rb_lo c < rb_hi c \<and> rb_hi c \<le> unat (sb_off s)"
          using data sp(6,7) agr x b(4) by (simp add: chunks.set_push [OF hd])
      qed
      show "(\<Union>c \<in> set (sb_data s). offsets c) = offsets l \<union> (\<Union>c \<in> set (bh_push rb_off x data). offsets c)"
        using sp(2,3,5,6) x unfolding set chunks.set_push [OF hd]
        by (auto simp: offsets_def)
      show "rb_hi l \<le> unat (sb_off s)" using sp(3) x sp(5,6) b(4) by linarith
      show "rb_off l = send_off s" using sp(2) off by (simp add: rb_lo_def word_unat_eq_iff)
    qed (use True at sp agr assms(3) in auto)
  qed
qed

lemma send_pop_loop_correct:
  assumes "send_inv content s" "rb_ok out" "rb_agrees content out" "rb_hi out \<le> unat (sb_off s)"
    "\<not> rb_is_empty out \<longrightarrow> out_off = rb_max_off out"
  shows "\<exists>out' s'. send_pop_loop out_len out_off out s = Ok (out', s') \<and> send_inv content s'
    \<and> rb_ok out' \<and> rb_agrees content out' \<and> rb_hi out' \<le> unat (sb_off s)
    \<and> rb_len out \<le> rb_len out' \<and> rb_len out' \<le> rb_len out + out_len
    \<and> sb_off s' = sb_off s \<and> sb_fin_off s' = sb_fin_off s \<and> sb_max_data s' = sb_max_data s
    \<and> sb_shutdown s' = sb_shutdown s
    \<and> sb_len s' = sb_len s - of_nat (rb_len out' - rb_len out)
    \<and> send_buffered s \<union> offsets out = send_buffered s' \<union> offsets out'
    \<and> (\<not> rb_is_empty out \<longrightarrow> rb_off out' = rb_off out)
    \<and> (rb_is_empty out \<longrightarrow> 0 < out_len \<and> send_ready s \<and> send_off s = out_off \<and> send_off s < sb_max_data s
         \<longrightarrow> 0 < rb_len out' \<and> rb_off out' = out_off)
    \<and> (rb_is_empty out \<longrightarrow> \<not> (0 < out_len \<and> send_ready s \<and> send_off s = out_off \<and> send_off s < sb_max_data s)
         \<longrightarrow> out' = out)"
  using assms
proof (induction "out_len" arbitrary: out_off out s rule: less_induct)
  case (less out_len)
  show ?case
  proof (cases "0 < out_len \<and> send_ready s \<and> send_off s = out_off \<and> send_off s < sb_max_data s")
    case False
    with less.prems show ?thesis
      by (auto simp: send_pop_loop.simps [of out_len out_off out s])
  next
    case True
    then have c: "send_ready s" "0 < out_len" "send_off s < sb_max_data s" "send_off s = out_off" by auto
    from less.prems(1) c(1-3) show ?thesis
    proof (cases rule: send_pop_step)
    case (1 b data buf data')
    note pop = 1(1) and split = 1(2) and b = 1(3-8) and inv = 1(9) and offs = 1(10)
    let ?s = "s\<lparr>sb_data := data', sb_len := sb_len s - of_nat (rb_len buf)\<rparr>"
    let ?out = "\<lparr>rb_data = rb_data out @ rb_data buf,
               rb_off = (if rb_is_empty out then rb_off buf else rb_off out), rb_fin = rb_fin out\<rparr>"
    have step: "send_pop_loop out_len out_off out s = send_pop_loop (out_len - rb_len buf) (rb_max_off buf) ?out ?s"
      by (simp only: send_pop_loop.simps [of out_len out_off out s] if_P [OF True] pop option.case
          prod.case split bnd.simps)
    have cont: "rb_hi out = rb_lo buf" if "\<not> rb_is_empty out"
      using that less.prems(2,5) b(3) c(4) by (simp add: rb_lo_def flip: unat_rb_max_off)
    have out: "rb_ok ?out \<and> rb_agrees content ?out \<and> rb_hi ?out = rb_hi buf \<and> rb_len ?out = rb_len out + rb_len buf
        \<and> offsets ?out = offsets out \<union> offsets buf \<and> rb_max_off ?out = rb_max_off buf \<and> \<not> rb_is_empty ?out"
    proof (cases "rb_is_empty out")
      case e: True
      then have "rb_data out = []" by (simp add: rb_is_empty_def rb_len_def)
      with b e show ?thesis
        by (auto simp: rb_ok_def rb_agrees_def rb_hi_def rb_lo_def rb_len_def offsets_def rb_max_off_def rb_is_empty_def)
    next
      case ne: False
      note hi = cont [OF ne]
      have lo: "rb_lo ?out = rb_lo out" using ne by (simp add: rb_lo_def)
      have hi': "rb_hi ?out = rb_hi buf"
        using ne hi by (simp add: rb_hi_def rb_lo_def)
      moreover have agr: "rb_agrees content ?out"
        using rb_agrees_append [OF less.prems(3) b(2) hi] unfolding rb_agrees_def lo hi' by simp
      moreover have ok: "rb_ok ?out" using b(1) hi' by (simp add: rb_ok_def)
      moreover have "rb_max_off ?out = rb_max_off buf"
        using unat_rb_max_off [OF ok] unat_rb_max_off [OF b(1)] hi' by (simp add: word_unat_eq_iff)
      moreover have "offsets ?out = offsets out \<union> offsets buf"
        using ivl_disj_un_two(3) [of "rb_lo out" "rb_lo buf" "rb_hi buf"] rb_lo_le_hi [of out]
        unfolding offsets_def lo hi' hi by simp
      moreover have "rb_len ?out = rb_len out + rb_len buf" by (simp add: rb_len_def)
      moreover from this have "\<not> rb_is_empty ?out" using b(4) by (simp add: rb_is_empty_def)
      ultimately show ?thesis by blast
    qed
    have "out_len - rb_len buf < out_len" using b(4) c(2) by simp
    from less.IH [OF this inv, of ?out "rb_max_off buf"] out b(6) obtain out' s' where
      r: "send_pop_loop (out_len - rb_len buf) (rb_max_off buf) ?out ?s = Ok (out', s')" "send_inv content s'"
      "rb_ok out'" "rb_agrees content out'" "rb_hi out' \<le> unat (sb_off ?s)"
      "rb_len ?out \<le> rb_len out'" "rb_len out' \<le> rb_len ?out + (out_len - rb_len buf)"
      "sb_off s' = sb_off ?s" "sb_fin_off s' = sb_fin_off ?s" "sb_max_data s' = sb_max_data ?s"
      "sb_shutdown s' = sb_shutdown ?s"
      "sb_len s' = sb_len ?s - of_nat (rb_len out' - rb_len ?out)"
      "send_buffered ?s \<union> offsets ?out = send_buffered s' \<union> offsets out'" "rb_off out' = rb_off ?out"
      by auto
    have "sb_len s' = sb_len s - of_nat (rb_len out' - rb_len out)"
    proof -
      have "rb_len out' - rb_len out = rb_len buf + (rb_len out' - rb_len ?out)" using r(6) out by simp
      then show ?thesis using r(12) by simp
    qed
    moreover have "send_buffered s \<union> offsets out = send_buffered s' \<union> offsets out'"
    proof -
      have "send_buffered s = offsets buf \<union> send_buffered ?s" using offs by (simp add: send_buffered_def)
      moreover have "offsets ?out = offsets out \<union> offsets buf" using out by blast
      ultimately show ?thesis using r(13) by blast
    qed
    moreover have "rb_len out \<le> rb_len out'" "rb_len out' \<le> rb_len out + out_len" "0 < rb_len out'"
      using r(6,7) out b(4,5) by linarith+
    moreover have "rb_is_empty out \<Longrightarrow> rb_off out' = out_off" "\<not> rb_is_empty out \<Longrightarrow> rb_off out' = rb_off out"
      using r(14) b(3) c(4) by simp_all
    moreover have "send_pop_loop out_len out_off out s = Ok (out', s')" using step r(1) by simp
    ultimately show ?thesis
      using r(2-5,8-11) True
      by (intro exI [of _ out'] exI [of _ s'] conjI impI) simp_all
    qed
  qed
qed

section \<open>Properties\<close>

text \<open>C4. Writing. On an open stream, with the bytes of \<open>data\<close> the next bytes of the stream,
  \<open>push_slice\<close> takes exactly as many bytes as the peer's flow control limit allows, queues them
  (no queued byte is lost and no other is added), advances the write offset and the count of
  queued bytes by that number, and records the final offset only if \<open>fin\<close> was asked for and all
  bytes were taken. It succeeds, and the buffer stays well formed.\<close>

theorem send_push_slice_correct:
  assumes "send_inv content s" "\<not> sb_shutdown s" "sb_fin_off s = None" "data \<noteq> []"
    "data = map content [unat (sb_off s) ..< unat (sb_off s) + length data]"
  shows "\<exists>s' n. send_push_slice data fin s = (Ok n, s')
    \<and> n = min (length data) (unat (sb_max_data s) - unat (sb_off s))
    \<and> send_inv content s' \<and> unat (sb_off s') = unat (sb_off s) + n
    \<and> sb_len s' = sb_len s + of_nat n
    \<and> sb_fin_off s' = (if fin \<and> n = length data then Some (sb_off s') else None)
    \<and> send_buffered s' = send_buffered s \<union> {unat (sb_off s) ..< unat (sb_off s) + n}"
proof -
  have le: "sb_off s \<le> sb_max_data s" using assms(1) by (simp add: send_inv_def)
  then have cap: "send_cap s = unat (sb_max_data s) - unat (sb_off s)"
    by (simp add: send_cap_def unat_sub64)
  define d where "d = take (send_cap s) data"
  define f where "f = (fin \<and> length data \<le> send_cap s)"
  have n: "length d = min (length data) (send_cap s)" by (simp add: d_def min.commute)
  have d: "d = map content [unat (sb_off s) ..< unat (sb_off s) + length d]"
  proof -
    have "d = map content (take (send_cap s) [unat (sb_off s) ..< unat (sb_off s) + length data])"
      using assms(5) unfolding d_def by (metis take_map)
    then show ?thesis by (simp add: n take_upt min_def)
  qed
  let ?cs = "chunks_of MAX_WRITE_SIZE d"
  have cs: "concat ?cs = d" "\<forall>c \<in> set ?cs. c \<noteq> []"
    using concat_chunks_of [of MAX_WRITE_SIZE d] by (simp_all add: MAX_WRITE_SIZE_def)
  have room: "unat (sb_off s) + length (concat ?cs) \<le> unat (sb_max_data s)"
    using le cap n unfolding cs(1) by (simp add: word_le_nat_alt)
  have content: "concat ?cs = map content [unat (sb_off s) ..< unat (sb_off s) + length (concat ?cs)]"
    unfolding cs(1) by (rule d)
  obtain s' where s': "send_push_chunks (length d) f 0 ?cs s = (Ok (), s')" "send_inv content s'"
    "unat (sb_off s') = unat (sb_off s) + length d"
    "sb_fin_off s' = (if f \<and> ?cs \<noteq> [] then Some (sb_off s') else None)"
    "sb_len s' = sb_len s + of_nat (length d)"
    "send_buffered s' = send_buffered s \<union> {unat (sb_off s) ..< unat (sb_off s) + length d}"
    using send_push_chunks_correct [OF assms(1-3) cs(2) room content, of 0 "length d" f] unfolding cs(1) by auto
  have "?cs \<noteq> []" if "f"
  proof
    assume "?cs = []"
    then have "d = []" using cs(1) by simp
    with that assms(4) show False by (simp add: d_def f_def)
  qed
  then have "sb_fin_off s' = (if fin \<and> length d = length data then Some (sb_off s') else None)"
    using s'(4) n by (auto simp: f_def min_def)
  moreover have "send_push_slice data fin s = (Ok (length d), s')"
    using s'(1) assms(2,4) by (auto simp: send_push_slice_def d_def f_def Let_def not_less)
  ultimately show ?thesis using s' n by (simp add: cap)
qed

lemma send_push_slice_correct_witness:
  "\<exists>s' n. send_push_slice [0, 1, 2] True (send_new 0 0 2) = (Ok n, s') \<and> n = 2 \<and> unat (sb_off s') = 2
     \<and> sb_fin_off s' = None \<and> send_buffered s' = {0..<2}"
proof -
  have "send_inv of_nat (send_new 0 0 2)" unfolding send_new_def by (rule send_inv_new)
  from send_push_slice_correct [OF this, of "[0, 1, 2]" True] show ?thesis
    by (auto simp: send_new_def send_new_full_def upt_rec send_buffered_def)
qed

text \<open>C5. Taking out a frame. \<open>pop\<close> always succeeds with at most \<open>max_data\<close> bytes, which are the
  stream's bytes at the offset of the frame and end below the flow control limit; the queued
  bytes are those left in the buffer and those of the frame, \<open>len\<close> falls by the length of the
  frame, and \<open>fin\<close> is set exactly when the frame ends at the final offset. The frame is empty
  only when nothing can be sent, and starts at the lowest queued offset otherwise.\<close>

theorem send_pop_correct:
  assumes "send_inv content s"
  shows "\<exists>out s'. send_pop max_data s = Ok (out, s') \<and> send_inv content s'
    \<and> rb_len out \<le> max_data \<and> rb_agrees content out \<and> rb_hi out \<le> unat (sb_max_data s)
    \<and> send_buffered s = send_buffered s' \<union> offsets out
    \<and> sb_len s' = sb_len s - of_nat (rb_len out)
    \<and> (rb_fin out \<longleftrightarrow> sb_fin_off s = Some (rb_max_off out))
    \<and> (if 0 < max_data \<and> send_ready s \<and> send_off s < sb_max_data s
       then 0 < rb_len out \<and> rb_off out = send_off s
       else rb_len out = 0 \<and> rb_off out = sb_off s)
    \<and> sb_off s' = sb_off s \<and> sb_fin_off s' = sb_fin_off s"
proof -
  let ?out = "\<lparr>rb_data = [], rb_off = sb_off s, rb_fin = False\<rparr>"
  have e: "rb_is_empty ?out" "rb_len ?out = 0" "offsets ?out = {}" "rb_ok ?out" "rb_agrees content ?out"
      "rb_hi ?out = unat (sb_off s)"
    using unat_u64 [of "sb_off s"]
    by (simp_all add: rb_is_empty_def rb_len_def offsets_def rb_lo_def rb_hi_def rb_ok_def rb_agrees_def)
  obtain out s' where r: "send_pop_loop max_data (send_off s) ?out s = Ok (out, s')" "send_inv content s'"
    "rb_ok out" "rb_agrees content out" "rb_hi out \<le> unat (sb_off s)" "rb_len out \<le> max_data"
    "sb_off s' = sb_off s" "sb_fin_off s' = sb_fin_off s" "sb_len s' = sb_len s - of_nat (rb_len out)"
    "send_buffered s = send_buffered s' \<union> offsets out"
    "0 < max_data \<and> send_ready s \<and> send_off s < sb_max_data s \<longrightarrow> 0 < rb_len out \<and> rb_off out = send_off s"
    "\<not> (0 < max_data \<and> send_ready s \<and> send_off s < sb_max_data s) \<longrightarrow> out = ?out"
    using send_pop_loop_correct [OF assms e(4,5), of "send_off s" max_data] e by auto
  let ?o = "out\<lparr>rb_fin := (sb_fin_off s = Some (rb_max_off out))\<rparr>"
  have same: "rb_len ?o = rb_len out" "rb_agrees content ?o = rb_agrees content out" "rb_hi ?o = rb_hi out"
    "offsets ?o = offsets out" "rb_max_off ?o = rb_max_off out"
    by (simp_all add: rb_len_def rb_agrees_def rb_hi_def rb_lo_def offsets_def rb_max_off_def)
  have "unat (sb_off s) \<le> unat (sb_max_data s)" using assms by (simp add: send_inv_def word_le_nat_alt)
  with r(5) have "rb_hi out \<le> unat (sb_max_data s)" by linarith
  moreover have "send_pop max_data s = Ok (?o, s')" by (simp add: send_pop_def r(1,8))
  moreover have "if 0 < max_data \<and> send_ready s \<and> send_off s < sb_max_data s
       then 0 < rb_len out \<and> rb_off out = send_off s
       else rb_len out = 0 \<and> rb_off out = sb_off s"
    using r(11,12) e(2) by auto
  moreover have "rb_off ?o = rb_off out" "rb_fin ?o \<longleftrightarrow> sb_fin_off s = Some (rb_max_off out)" by simp_all
  ultimately show ?thesis
    using r(2,4,6-10) by (intro exI [of _ ?o] exI [of _ s'] conjI) (simp_all only: same)
qed

lemma send_pop_correct_witness:
  "\<exists>out s'. send_pop 5 (send_new 0 0 2) = Ok (out, s') \<and> rb_len out = 0 \<and> \<not> rb_fin out"
proof -
  have "send_inv of_nat (send_new 0 0 2)" unfolding send_new_def by (rule send_inv_new)
  from send_pop_correct [OF this, of 5] show ?thesis
    by (auto simp: send_new_def send_new_full_def send_ready_def)
qed

text \<open>Retransmission and the remaining operations keep the buffer well formed. A chunk of written
  data queued again (with \<open>fin\<close> only at the final offset) is accepted unless it ends at the final
  offset without saying so, and unless all data up to its end is acknowledged its bytes are
  queued; acknowledging written data, raising the flow control limit, shutting down and the
  block information flag never break the buffer.\<close>

theorem send_requeue_correct:
  assumes "send_inv content s" "rb_ok buf" "rb_agrees content buf" "rb_hi buf \<le> unat (sb_off s)"
    "rb_fin buf \<longrightarrow> sb_fin_off s = Some (rb_max_off buf)" "unat off + len \<le> unat (sb_off s)"
  shows "(case send_push buf s of
      Ok s' \<Rightarrow> send_inv content s'
        \<and> send_buffered s' = (if sb_shutdown s \<or> rb_hi buf \<le> unat (send_ack_off s) then send_buffered s
                              else send_buffered s \<union> offsets buf)
    | Err e \<Rightarrow> e = FinalSize \<and> sb_fin_off s = Some (rb_max_off buf) \<and> \<not> rb_fin buf
    | Panic \<Rightarrow> False)
    \<and> send_inv content (send_ack off len s)
    \<and> send_inv content (send_update_max_data limit s)
    \<and> (case send_shutdown s of Ok s' \<Rightarrow> send_inv content s' \<and> send_buffered s' = {}
       | Err e \<Rightarrow> e = Done \<and> sb_shutdown s | Panic \<Rightarrow> False)"
proof (intro conjI)
  have inv: "heap_inv rb_off (sb_data s)"
    "\<forall>b \<in> set (sb_data s). rb_ok b \<and> rb_agrees content b \<and> rb_lo b < rb_hi b \<and> rb_hi b \<le> unat (sb_off s)"
    "\<not> sb_shutdown s \<longrightarrow> sb_len s = of_nat (sum_list (map rb_len (sb_data s)))"
    "sb_off s \<le> sb_max_data s" "\<forall>f. sb_fin_off s = Some f \<longrightarrow> f = sb_off s"
    "rs_wf (sb_acked s)" "\<forall>r \<in> set (sb_acked s). snd r \<le> sb_off s"
    using assms(1) by (simp_all add: send_inv_def)
  have max: "rb_max_off buf \<le> sb_off s"
    using assms(2,4) by (simp add: word_le_nat_alt unat_rb_max_off)
  show "case send_push buf s of
      Ok s' \<Rightarrow> send_inv content s'
        \<and> send_buffered s' = (if sb_shutdown s \<or> rb_hi buf \<le> unat (send_ack_off s) then send_buffered s
                              else send_buffered s \<union> offsets buf)
    | Err e \<Rightarrow> e = FinalSize \<and> sb_fin_off s = Some (rb_max_off buf) \<and> \<not> rb_fin buf
    | Panic \<Rightarrow> False"
  proof (cases "\<exists>f. sb_fin_off s = Some f \<and> rb_max_off buf = f \<and> \<not> rb_fin buf")
    case True
    then show ?thesis by (auto simp: send_push_def)
  next
    case ok: False
    have "\<not> f < rb_max_off buf" if "sb_fin_off s = Some f" for f
      using inv(5) that max by (auto simp: not_less)
    then have push: "send_push buf s =
        (if sb_shutdown s \<or> rb_max_off buf \<le> send_ack_off s then Ok s
         else if rb_is_empty buf then Ok (s\<lparr>sb_len := sb_len s + of_nat (rb_len buf)\<rparr>)
         else Ok (s\<lparr>sb_len := sb_len s + of_nat (rb_len buf), sb_data := bh_push rb_off buf (sb_data s)\<rparr>))"
      using ok assms(5) by (auto simp: send_push_def Let_def send_ack_off_upd split: option.splits)
    have ack: "rb_max_off buf \<le> send_ack_off s \<longleftrightarrow> rb_hi buf \<le> unat (send_ack_off s)"
      using assms(2) by (simp add: word_le_nat_alt unat_rb_max_off)
    consider "sb_shutdown s \<or> rb_max_off buf \<le> send_ack_off s"
      | "\<not> (sb_shutdown s \<or> rb_max_off buf \<le> send_ack_off s)" "rb_is_empty buf"
      | "\<not> (sb_shutdown s \<or> rb_max_off buf \<le> send_ack_off s)" "\<not> rb_is_empty buf" by blast
    then show ?thesis
    proof cases
      case 1
      then have "send_push buf s = Ok s" using push by simp
      with 1 assms(1) ack show ?thesis by auto
    next
      case 2
      from 2(2) have "offsets buf = {}" by (simp add: offsets_def rb_is_empty_iff)
      moreover from 2(2) have "rb_len buf = 0" by (simp add: rb_is_empty_def)
      ultimately show ?thesis using 2 push assms(1) ack by auto
    next
      case 3
      let ?s = "s\<lparr>sb_len := sb_len s + of_nat (rb_len buf), sb_data := bh_push rb_off buf (sb_data s)\<rparr>"
      have "rb_lo buf \<noteq> rb_hi buf" using 3(2) by (simp add: rb_is_empty_iff)
      then have ne: "rb_lo buf < rb_hi buf" using le_neq_implies_less [OF rb_lo_le_hi] by blast
      have "send_push buf s = Ok ?s" using push 3 by simp
      moreover have "send_inv content ?s"
        unfolding send_inv_def
        using inv assms(2-4) ne
        by (simp add: heap_inv_push chunks.set_push [OF inv(1)] sum_bh_push [OF inv(1)] add.commute)
      moreover have "send_buffered ?s = send_buffered s \<union> offsets buf"
        by (simp add: send_buffered_def chunks.set_push [OF inv(1)] Un_commute)
      ultimately show ?thesis using 3 ack by simp
    qed
  qed
  show "send_inv content (send_ack off len s)"
  proof -
    have off: "unat (off + of_nat len) = unat off + len"
      using assms(6) unat_u64 [of "sb_off s"] by (simp add: unat_add64 unat_of_nat mod_add_right_eq)
    then have "off \<le> off + of_nat len" "off + of_nat len \<le> sb_off s"
      using assms(6) by (simp_all add: word_le_nat_alt)
    then have "rs_wf (rs_insert (off, off + of_nat len) (sb_acked s))"
      "\<forall>r \<in> set (rs_insert (off, off + of_nat len) (sb_acked s)). snd r \<le> sb_off s"
      using rs_insert_correct [OF inv(6), of "(off, off + of_nat len)"]
        rs_insert_bound [OF inv(7), of "(off, off + of_nat len)"] by simp_all
    with inv show ?thesis by (simp add: send_inv_def send_ack_def)
  qed
  show "send_inv content (send_update_max_data limit s)"
    using inv by (simp add: send_inv_def send_update_max_data_def max.coboundedI1)
  show "case send_shutdown s of Ok s' \<Rightarrow> send_inv content s' \<and> send_buffered s' = {}
       | Err e \<Rightarrow> e = Done \<and> sb_shutdown s | Panic \<Rightarrow> False"
    using inv by (simp add: send_shutdown_def send_inv_def heap_inv_def send_buffered_def)
qed

lemma send_requeue_correct_witness:
  "case send_push rb_default (send_new 0 0 2) of
     Ok s' \<Rightarrow> send_inv of_nat s' \<and> send_buffered s' = {} | Err e \<Rightarrow> False | Panic \<Rightarrow> False"
proof -
  have inv: "send_inv of_nat (send_new 0 0 2)" unfolding send_new_def by (rule send_inv_new)
  have "rb_ok rb_default" "rb_agrees of_nat rb_default" "rb_hi rb_default \<le> unat (sb_off (send_new 0 0 2))"
    "rb_fin rb_default \<longrightarrow> sb_fin_off (send_new 0 0 2) = Some (rb_max_off rb_default)"
    "unat (0 :: u64) + 0 \<le> unat (sb_off (send_new 0 0 2))" "offsets rb_default = {}"
    "send_buffered (send_new 0 0 2) = {}"
    by (simp_all add: rb_default_def rb_ok_def rb_hi_def rb_lo_def rb_agrees_def offsets_def
        send_buffered_def send_new_def send_new_full_def)
  with send_requeue_correct [OF inv this(1-5)] show ?thesis
    by (auto simp: send_new_def send_new_full_def split: res.splits if_splits)
qed

end
