(* ===== verification/Fec.thy ===== *)
theory Fec
  imports BTree
begin

text \<open>
  Forward error correction, \<open>src/fec.rs\<close>: the per-group record of sent, acknowledged and lost
  packet numbers, and the group of shards that a sender encodes and a receiver reconstructs;
  with the steps of \<open>send\<close> and \<open>recv\<close> of \<open>src/lib.rs\<close> that feed the groups. The Reed-Solomon code
  of the \<open>reed-solomon-erasure\<close> crate is a parameter, a record of the operations of the trait
  \<open>FecAlgorithm\<close>; \<open>erasure_code\<close> states its documented behaviour. A \<open>BTreeMap\<close> is an ordered
  entry list, a \<open>HashSet\<close> a set.
\<close>

section \<open>Status and packet numbers of a group\<close>

record fec_status =
  fs_m :: u8
  fs_n :: u8
  fs_group_id :: u32
  fs_index :: u8

definition fec_status_default :: fec_status where
  "fec_status_default = \<lparr>fs_m = 0, fs_n = 0, fs_group_id = 0, fs_index = 0\<rparr>"

record fec_packet_numbers =
  fpn_m :: u8
  fpn_n :: u8
  fpn_sent :: "(u8, u64) btree"
  fpn_acked :: "u64 set"
  fpn_lost :: "u64 set"

definition fpn_new :: "u8 \<Rightarrow> u8 \<Rightarrow> fec_packet_numbers" where
  "fpn_new m n = \<lparr>fpn_m = m, fpn_n = n, fpn_sent = [], fpn_acked = {}, fpn_lost = {}\<rparr>"

definition fpn_packet_sent :: "u8 \<Rightarrow> u64 \<Rightarrow> fec_packet_numbers \<Rightarrow> fec_packet_numbers" where
  "fpn_packet_sent index pn f = f\<lparr>fpn_sent := bt_insert index pn (fpn_sent f)\<rparr>"

definition fpn_packet_acked :: "u64 \<Rightarrow> fec_packet_numbers \<Rightarrow> fec_packet_numbers" where
  "fpn_packet_acked pn f = f\<lparr>fpn_acked := insert pn (fpn_acked f)\<rparr>"

definition fpn_packet_lost :: "u64 \<Rightarrow> fec_packet_numbers \<Rightarrow> fec_packet_numbers" where
  "fpn_packet_lost pn f = f\<lparr>fpn_lost := insert pn (fpn_lost f)\<rparr>"

text \<open>\<open>get_delta\<close> yields an \<open>i8\<close>: the casts and the subtraction wrap at 8 bits.\<close>

definition fpn_get_delta :: "fec_packet_numbers \<Rightarrow> u8 option" where
  "fpn_get_delta f =
     (if card (fpn_lost f) + card (fpn_acked f) < unat (fpn_m f) + unat (fpn_n f) then None
      else Some (of_nat (card (fpn_acked f)) - fpn_m f))"

definition fpn_get_recovered_pns :: "fec_packet_numbers \<Rightarrow> u64 list option" where
  "fpn_get_recovered_pns f =
     (if unat (fpn_m f) \<le> card (fpn_acked f)
      then Some (filter (\<lambda>pn. pn \<notin> fpn_acked f) (map snd (fpn_sent f)))
      else None)"

section \<open>The code and the group of shards\<close>

record fec_frame =
  ff_info :: fec_status
  ff_data :: "u8 list"

text \<open>The trait \<open>FecAlgorithm\<close>; \<open>None\<close> is its \<open>Err\<close>. \<open>rs_fake\<close> is the implementation compiled
  without the crate's \<open>fec\<close> feature.\<close>

record fec_algorithm =
  fa_encode :: "u8 list list \<Rightarrow> u8 list list option"
  fa_reconstruct_data :: "u8 list option list \<Rightarrow> u8 list option list option"
  fa_verify :: "u8 list list \<Rightarrow> bool option"

definition rs_fake :: "nat \<Rightarrow> nat \<Rightarrow> fec_algorithm option" where
  "rs_fake m n = Some \<lparr>fa_encode = Some, fa_reconstruct_data = Some, fa_verify = (\<lambda>_. Some True)\<rparr>"

record fec_group =
  fg_info :: fec_status
  fg_shard_size :: nat
  fg_r :: fec_algorithm
  fg_next_index :: u8
  fg_shards :: "u8 list option list"
  fg_restored :: bool

text \<open>\<open>rs_new m n\<close> builds the code (\<open>RSFec::new(..).unwrap()\<close>).\<close>

definition fec_group_new :: "(nat \<Rightarrow> nat \<Rightarrow> fec_algorithm option) \<Rightarrow> fec_status \<Rightarrow> nat \<Rightarrow> fec_group result" where
  "fec_group_new rs_new info shard_size =
     bnd (unwrap (rs_new (unat (fs_m info)) (unat (fs_n info)))) (\<lambda>r.
     Ok \<lparr>fg_info = info, fg_shard_size = shard_size, fg_r = r, fg_next_index = 0,
         fg_shards = replicate (unat (fs_m info) + unat (fs_n info)) None, fg_restored = False\<rparr>)"

definition fec_feed_frame :: "fec_frame \<Rightarrow> fec_group \<Rightarrow> fec_group result" where
  "fec_feed_frame frame g =
     (let info = ff_info frame in
      if fs_m info \<noteq> fs_m (fg_info g) then Panic
      else if fs_n info \<noteq> fs_n (fg_info g) then Panic
      else if fs_group_id info \<noteq> fs_group_id (fg_info g) then Panic
      else if length (ff_data frame) \<noteq> fg_shard_size g then Panic
      else if length (fg_shards g) \<le> unat (fs_index info) then Panic
      else Ok (g\<lparr>fg_info := (fg_info g)\<lparr>fs_index := fs_index info\<rparr>,
                 fg_shards := (fg_shards g)[unat (fs_index info) := Some (ff_data frame)]\<rparr>))"

definition fec_full :: "fec_group \<Rightarrow> bool" where
  "fec_full g \<longleftrightarrow> fs_m (fg_info g) \<le> fg_next_index g"

definition fec_filled :: "fec_group \<Rightarrow> u8 list list" where
  "fec_filled g = map (\<lambda>x. case x of Some v \<Rightarrow> v | None \<Rightarrow> replicate (fg_shard_size g) 0) (fg_shards g)"

text \<open>The range \<open>m..m + n\<close> of \<open>encode\<close> is one of \<open>u8\<close>; indexing past the shards panics.\<close>

definition fec_encode :: "fec_group \<Rightarrow> fec_frame list result" where
  "fec_encode g =
     bnd (unwrap (fa_encode (fg_r g) (fec_filled g))) (\<lambda>filled.
     let info = fg_info g; idx = [unat (fs_m info) ..< unat (fs_m info + fs_n info)] in
     if \<exists>i \<in> set idx. length filled \<le> i then Panic
     else Ok (map (\<lambda>i. \<lparr>ff_info = info\<lparr>fs_index := of_nat i\<rparr>, ff_data = filled ! i\<rparr>) idx))"

definition fec_verify :: "fec_group \<Rightarrow> unit result" where
  "fec_verify g = bnd (unwrap (fa_verify (fg_r g) (fec_filled g))) (\<lambda>_. Ok ())"

fun unwrap_all :: "'a option list \<Rightarrow> 'a list result" where
  "unwrap_all [] = Ok []"
| "unwrap_all (x # xs) = bnd (unwrap x) (\<lambda>y. bnd (unwrap_all xs) (\<lambda>ys. Ok (y # ys)))"

definition fec_reconstruct :: "fec_group \<Rightarrow> (u8 list list option \<times> fec_group) result" where
  "fec_reconstruct g =
     (let empty = filter (\<lambda>i. fg_shards g ! i = None \<and> i < unat (fs_m (fg_info g))) [0..<length (fg_shards g)] in
      if empty = [] then Ok (None, g)
      else case fa_reconstruct_data (fg_r g) (fg_shards g) of
        Some shards \<Rightarrow>
          if \<exists>i \<in> set empty. length shards \<le> i then Panic
          else bnd (unwrap_all (map (\<lambda>i. shards ! i) empty)) (\<lambda>r.
            Ok (Some r, g\<lparr>fg_shards := shards\<rparr>))
      | None \<Rightarrow> Ok (None, g))"

section \<open>The steps of a connection\<close>

text \<open>The FEC state of a connection (\<open>src/lib.rs\<close>): the group being sent (the only entry of the map
  \<open>fec\<close> is at key 0), the redundancy frames to send, the next group number and the groups being
  received.\<close>

record fec_conn =
  fc_fec :: "fec_group option"
  fc_encoded :: "fec_frame list"
  fc_next_group_id :: u32
  fc_decoders :: "u32 \<rightharpoonup> fec_group"

definition fec_conn_new :: fec_conn where
  "fec_conn_new = \<lparr>fc_fec = None, fc_encoded = [], fc_next_group_id = 1, fc_decoders = Map.empty\<rparr>"

text \<open>FEC encoding of a packet being sent, with the requested shape \<open>m\<close>, \<open>n\<close>: the status for the
  packet's header and the new state.\<close>

definition fec_on_send :: "(nat \<Rightarrow> nat \<Rightarrow> fec_algorithm option) \<Rightarrow> u8 \<Rightarrow> u8 \<Rightarrow> u8 list \<Rightarrow> fec_conn
    \<Rightarrow> (fec_status option \<times> fec_conn) result" where
  "fec_on_send rs_new m n payload c =
     (if (m \<noteq> 0 \<and> n \<noteq> 0) \<or> fc_fec c \<noteq> None then
        bnd (case fc_fec c of
               Some g \<Rightarrow> Ok (g, c)
             | None \<Rightarrow>
                 bnd (fec_group_new rs_new
                        \<lparr>fs_m = m, fs_n = n, fs_group_id = fc_next_group_id c, fs_index = 0\<rparr> (length payload))
                   (\<lambda>g. Ok (g, c\<lparr>fc_next_group_id := fc_next_group_id c + 1\<rparr>))) (\<lambda>(g, c).
        let g = g\<lparr>fg_info := (fg_info g)\<lparr>fs_index := fg_next_index g\<rparr>, fg_next_index := fg_next_index g + 1\<rparr>;
            info = fg_info g
        in bnd (fec_feed_frame \<lparr>ff_info = info, ff_data = payload\<rparr> g) (\<lambda>g.
           if fec_full g then
             bnd (fec_encode g) (\<lambda>r. Ok (Some info, c\<lparr>fc_fec := None, fc_encoded := fc_encoded c @ r\<rparr>))
           else Ok (Some info, c\<lparr>fc_fec := Some g\<rparr>)))
      else Ok (None, c))"

text \<open>A received packet with FEC status \<open>info\<close>: the payloads restored, if any.\<close>

definition fec_on_recv :: "(nat \<Rightarrow> nat \<Rightarrow> fec_algorithm option) \<Rightarrow> fec_status \<Rightarrow> u8 list \<Rightarrow> fec_conn
    \<Rightarrow> (u8 list list option \<times> fec_conn) result" where
  "fec_on_recv rs_new info payload c =
     (if fs_group_id info \<noteq> 0 then
        bnd (fec_group_new rs_new info (length payload)) (\<lambda>fresh.
        let g = (case fc_decoders c (fs_group_id info) of Some g \<Rightarrow> g | None \<Rightarrow> fresh) in
        bnd (fec_feed_frame \<lparr>ff_info = info, ff_data = payload\<rparr> g) (\<lambda>g.
        bnd (fec_reconstruct g) (\<lambda>(r, g).
        Ok (r, c\<lparr>fc_decoders := (fc_decoders c)(fs_group_id info \<mapsto> g)\<rparr>))))
      else Ok (None, c))"

section \<open>The code as documented\<close>

text \<open>What the Reed-Solomon crate promises for \<open>m\<close> data and \<open>n\<close> parity shards of one non-zero length:
  encoding keeps the data and sets the parity shards; any \<open>m\<close> shards of a code word give back all
  data shards, and with fewer than \<open>m\<close> reconstruction fails.\<close>

definition data_shards :: "nat \<Rightarrow> nat \<Rightarrow> u8 list list \<Rightarrow> bool" where
  "data_shards m L d \<longleftrightarrow> length d = m \<and> 0 < L \<and> (\<forall>x \<in> set d. length x = L)"

definition shards_of :: "u8 list list \<Rightarrow> u8 list option list \<Rightarrow> bool" where
  "shards_of cw shards \<longleftrightarrow> length shards = length cw \<and> (\<forall>i < length cw. shards ! i \<in> {None, Some (cw ! i)})"

definition present :: "'a option list \<Rightarrow> nat set" where
  "present shards = {i. i < length shards \<and> shards ! i \<noteq> None}"

definition erasure_code :: "nat \<Rightarrow> nat \<Rightarrow> (u8 list list \<Rightarrow> u8 list list) \<Rightarrow> fec_algorithm \<Rightarrow> bool" where
  "erasure_code m n parity alg \<longleftrightarrow>
     (\<forall>L d. data_shards m L d \<longrightarrow> data_shards n L (parity d))
   \<and> (\<forall>L d v. data_shards m L d \<longrightarrow> data_shards n L v \<longrightarrow> fa_encode alg (d @ v) = Some (d @ parity d))
   \<and> (\<forall>L d shards. data_shards m L d \<longrightarrow> shards_of (d @ parity d) shards \<longrightarrow>
        (if card (present shards) < m then fa_reconstruct_data alg shards = None
         else \<exists>s. fa_reconstruct_data alg shards = Some s \<and> length s = m + n \<and> take m s = map Some d))"

section \<open>Receiving\<close>

fun fec_feed_all :: "fec_frame list \<Rightarrow> fec_group \<Rightarrow> fec_group result" where
  "fec_feed_all [] g = Ok g"
| "fec_feed_all (f # fs) g = bnd (fec_feed_frame f g) (fec_feed_all fs)"

text \<open>A frame of the group \<open>info\<close> that carries a shard of the code word \<open>cw\<close>.\<close>

definition frame_of :: "fec_status \<Rightarrow> u8 list list \<Rightarrow> fec_frame \<Rightarrow> bool" where
  "frame_of info cw f \<longleftrightarrow> fs_m (ff_info f) = fs_m info \<and> fs_n (ff_info f) = fs_n info
     \<and> fs_group_id (ff_info f) = fs_group_id info
     \<and> unat (fs_index (ff_info f)) < length cw \<and> ff_data f = cw ! unat (fs_index (ff_info f))"

definition frame_indices :: "fec_frame list \<Rightarrow> nat set" where
  "frame_indices fs = (\<lambda>f. unat (fs_index (ff_info f))) ` set fs"

definition group_of :: "fec_status \<Rightarrow> fec_algorithm \<Rightarrow> nat \<Rightarrow> u8 list list \<Rightarrow> fec_group \<Rightarrow> bool" where
  "group_of info alg L cw g \<longleftrightarrow> fs_m (fg_info g) = fs_m info \<and> fs_n (fg_info g) = fs_n info
     \<and> fs_group_id (fg_info g) = fs_group_id info \<and> fg_shard_size g = L \<and> fg_r g = alg
     \<and> shards_of cw (fg_shards g)"

lemma fec_feed_frame_ok:
  assumes "group_of info alg L cw g" "frame_of info cw f" "\<forall>x \<in> set cw. length x = L"
  shows "\<exists>g'. fec_feed_frame f g = Ok g' \<and> group_of info alg L cw g'
    \<and> present (fg_shards g') = insert (unat (fs_index (ff_info f))) (present (fg_shards g))
    \<and> fg_shards g' = (fg_shards g)[unat (fs_index (ff_info f)) := Some (ff_data f)]
    \<and> fg_next_index g' = fg_next_index g"
proof -
  let ?i = "unat (fs_index (ff_info f))"
  have i: "?i < length cw" "ff_data f = cw ! ?i" "?i < length (fg_shards g)"
    using assms(1,2) by (auto simp: frame_of_def group_of_def shards_of_def)
  then have "length (ff_data f) = L" using assms(3) by simp
  then have "fec_feed_frame f g = Ok (g\<lparr>fg_info := (fg_info g)\<lparr>fs_index := fs_index (ff_info f)\<rparr>,
      fg_shards := (fg_shards g)[?i := Some (ff_data f)]\<rparr>)"
    using assms(1,2) i(3) by (simp add: fec_feed_frame_def Let_def group_of_def frame_of_def)
  moreover have "present ((fg_shards g)[?i := Some (ff_data f)]) = insert ?i (present (fg_shards g))"
    using i(3) by (auto simp: present_def nth_list_update)
  moreover have "shards_of cw ((fg_shards g)[?i := Some (ff_data f)])"
    using assms(1) i by (auto simp: group_of_def shards_of_def nth_list_update)
  ultimately show ?thesis using assms(1) by (simp add: group_of_def)
qed

lemma fec_feed_all_ok:
  assumes "group_of info alg L cw g" "\<forall>f \<in> set fs. frame_of info cw f" "\<forall>x \<in> set cw. length x = L"
  shows "\<exists>g'. fec_feed_all fs g = Ok g' \<and> group_of info alg L cw g'
    \<and> present (fg_shards g') = frame_indices fs \<union> present (fg_shards g)"
  using assms(1,2)
proof (induction fs arbitrary: g)
  case Nil
  then show ?case by (simp add: frame_indices_def)
next
  case (Cons f fs)
  from fec_feed_frame_ok [OF Cons.prems(1) _ assms(3), of f] Cons.prems(2) obtain g1 where
    g1: "fec_feed_frame f g = Ok g1" "group_of info alg L cw g1"
      "present (fg_shards g1) = insert (unat (fs_index (ff_info f))) (present (fg_shards g))" by auto
  from Cons.IH [OF g1(2)] Cons.prems(2) g1 show ?case by (auto simp: frame_indices_def)
qed

lemma unwrap_all_Some: "unwrap_all (map Some xs) = Ok xs"
  by (induction xs) auto

lemma fec_reconstruct_eq:
  assumes "erasure_code m n parity alg" "data_shards m L d" "group_of info alg L (d @ parity d) g"
    "unat (fs_m info) = m"
  shows "\<exists>g'. fec_reconstruct g =
     Ok (if {0..<m} \<subseteq> present (fg_shards g) \<or> card (present (fg_shards g)) < m then None
         else Some (map ((!) d) (filter (\<lambda>i. i \<notin> present (fg_shards g)) [0..<m])), g')"
proof -
  let ?p = "present (fg_shards g)"
  define empty where "empty = filter (\<lambda>i. i \<notin> ?p) [0..<m]"
  have par: "data_shards n L (parity d)" using assms(1,2) by (auto simp: erasure_code_def)
  have sh: "shards_of (d @ parity d) (fg_shards g)" and m: "unat (fs_m (fg_info g)) = m" and r: "fg_r g = alg"
    using assms(3,4) by (auto simp: group_of_def)
  then have len: "length (fg_shards g) = m + n"
    using assms(2) par by (simp add: shards_of_def data_shards_def)
  have "filter (\<lambda>i. fg_shards g ! i = None \<and> i < m) [0..<m + n] = filter (\<lambda>i. fg_shards g ! i = None \<and> i < m) [0..<m]"
    unfolding upt_add_eq_append [OF le0] filter_append by (simp add: filter_empty_conv)
  also have "\<dots> = empty"
    unfolding empty_def by (rule filter_cong) (auto simp: present_def len)
  finally have e: "filter (\<lambda>i. fg_shards g ! i = None \<and> i < unat (fs_m (fg_info g))) [0..<length (fg_shards g)] = empty"
    unfolding len m .
  have nil: "empty = [] \<longleftrightarrow> {0..<m} \<subseteq> ?p" by (auto simp: empty_def filter_empty_conv)
  consider "empty = []" | "empty \<noteq> []" "card ?p < m" | "empty \<noteq> []" "\<not> card ?p < m" by blast
  then show ?thesis
  proof cases
    case 1
    with nil show ?thesis by (simp add: fec_reconstruct_def e)
  next
    case 2
    then have "fa_reconstruct_data alg (fg_shards g) = None"
      using assms(1,2) sh by (auto simp: erasure_code_def)
    with 2 nil show ?thesis by (simp add: fec_reconstruct_def e r)
  next
    case 3
    then obtain s where s: "fa_reconstruct_data alg (fg_shards g) = Some s" "length s = m + n" "take m s = map Some d"
      using assms(1,2) sh unfolding erasure_code_def by metis
    have "map ((!) s) empty = map Some (map ((!) d) empty)"
    proof -
      have "s ! i = Some (d ! i)" if "i < m" for i
      proof -
        have "s ! i = take m s ! i" using that by simp
        also have "\<dots> = Some (d ! i)" using that assms(2) by (simp add: s(3) data_shards_def)
        finally show ?thesis .
      qed
      then show ?thesis by (simp add: empty_def)
    qed
    then have "unwrap_all (map (\<lambda>i. s ! i) empty) = Ok (map ((!) d) empty)" by (simp only: unwrap_all_Some)
    moreover have "\<not> (\<exists>i \<in> set empty. length s \<le> i)" using s(2) by (auto simp: empty_def)
    ultimately show ?thesis
      using 3 nil s(1) by (simp add: fec_reconstruct_def e r empty_def [symmetric])
  qed
qed

lemma group_of_new:
  assumes "rs_new (unat (fs_m info)) (unat (fs_n info)) = Some alg" "length cw = unat (fs_m info) + unat (fs_n info)"
  shows "\<exists>g. fec_group_new rs_new info L = Ok g \<and> group_of info alg L cw g \<and> present (fg_shards g) = {}
    \<and> fg_next_index g = 0 \<and> fg_shards g = replicate (length cw) None"
  using assms by (simp add: fec_group_new_def group_of_def shards_of_def present_def)

section \<open>Sending\<close>

fun fec_send_all :: "(nat \<Rightarrow> nat \<Rightarrow> fec_algorithm option) \<Rightarrow> u8 \<Rightarrow> u8 \<Rightarrow> u8 list list \<Rightarrow> fec_conn
    \<Rightarrow> (fec_status option list \<times> fec_conn) result" where
  "fec_send_all rs_new m n [] c = Ok ([], c)"
| "fec_send_all rs_new m n (p # ps) c =
     bnd (fec_on_send rs_new m n p c) (\<lambda>(info, c).
     bnd (fec_send_all rs_new m n ps c) (\<lambda>(infos, c). Ok (info # infos, c)))"

text \<open>The group in which the first \<open>k\<close> payloads of \<open>d\<close> are fed.\<close>

definition sending :: "fec_status \<Rightarrow> fec_algorithm \<Rightarrow> nat \<Rightarrow> nat \<Rightarrow> u8 list list \<Rightarrow> nat \<Rightarrow> fec_group \<Rightarrow> bool" where
  "sending info alg L n d k g \<longleftrightarrow> fs_m (fg_info g) = fs_m info \<and> fs_n (fg_info g) = fs_n info
     \<and> fs_group_id (fg_info g) = fs_group_id info \<and> fg_shard_size g = L \<and> fg_r g = alg
     \<and> fg_next_index g = of_nat k
     \<and> fg_shards g = map Some (take k d) @ replicate (length d - k + n) None"

lemma fec_encode_sending:
  assumes "erasure_code m n parity alg" "data_shards m L d" "sending info alg L n d m g"
    "unat (fs_m info) = m" "unat (fs_n info) = n" "m + n < 256"
  shows "fec_encode g = Ok (map (\<lambda>i. \<lparr>ff_info = (fg_info g)\<lparr>fs_index := of_nat (m + i)\<rparr>, ff_data = parity d ! i\<rparr>) [0..<n])"
proof -
  have len: "length d = m" "0 < L" using assms(2) by (auto simp: data_shards_def)
  have "fec_filled g = d @ replicate n (replicate L 0)"
    using assms(3) len by (simp add: fec_filled_def sending_def map_replicate_const o_def)
  moreover have "data_shards n L (replicate n (replicate L 0))"
    using len by (auto simp: data_shards_def)
  ultimately have enc: "fa_encode (fg_r g) (fec_filled g) = Some (d @ parity d)"
    using assms(1-3) by (auto simp: erasure_code_def sending_def)
  have par: "length (parity d) = n" using assms(1,2) by (auto simp: erasure_code_def data_shards_def)
  have ms: "unat (fs_m (fg_info g)) = m" "unat (fs_m (fg_info g) + fs_n (fg_info g)) = m + n"
    using assms(3-6) by (simp_all add: sending_def unat_word_ariths)
  have idx: "[m ..< m + n] = map (\<lambda>i. i + m) [0..<n]"
    using map_add_upt [of m n] by (simp add: add.commute)
  have "\<not> (\<exists>i \<in> set [m ..< m + n]. length (d @ parity d) \<le> i)" using len par by auto
  then have "fec_encode g = Ok (map (\<lambda>i. \<lparr>ff_info = (fg_info g)\<lparr>fs_index := of_nat i\<rparr>, ff_data = (d @ parity d) ! i\<rparr>)
      [m ..< m + n])"
    by (simp only: fec_encode_def enc unwrap.simps bnd.simps Let_def ms if_False)
  then show ?thesis
    unfolding idx using len by (simp add: nth_append o_def add.commute)
qed

lemma fec_feed_sending:
  assumes "sending info alg L n d k g" "k < length d" "length d + n < 256" "data_shards (length d) L d"
    "info' = (fg_info g)\<lparr>fs_index := of_nat k\<rparr>"
  shows "\<exists>g'. fec_feed_frame \<lparr>ff_info = info', ff_data = d ! k\<rparr>
      (g\<lparr>fg_info := info', fg_next_index := of_nat (Suc k)\<rparr>) = Ok g'
    \<and> sending info alg L n d (Suc k) g' \<and> fg_info g' = info'"
proof -
  have k: "unat (of_nat k :: u8) = k" using assms(2,3) by (simp add: unat_of_nat)
  have "length (d ! k) = L" using assms(2,4) by (auto simp: data_shards_def)
  moreover have "(map Some (take k d) @ replicate (length d - k + n) None)[k := Some (d ! k)]
      = map Some (take (Suc k) d) @ replicate (length d - Suc k + n) None"
  proof -
    have "length d - k + n = Suc (length d - Suc k + n)" using assms(2) by simp
    then have "replicate (length d - k + n) (None :: u8 list option) = None # replicate (length d - Suc k + n) None"
      by simp
    then show ?thesis
      using assms(2) by (simp add: list_update_append take_Suc_conv_app_nth)
  qed
  ultimately show ?thesis
    using assms k by (auto simp: fec_feed_frame_def Let_def sending_def)
qed

text \<open>The next packet of a group that is being sent.\<close>

lemma fec_on_send_group:
  assumes "erasure_code (length d) n parity alg" "data_shards (length d) L d" "sending info alg L n d k g"
    "unat (fs_m info) = length d" "unat (fs_n info) = n" "length d + n < 256" "k < length d"
  defines "st \<equiv> (\<lambda>i. info\<lparr>fs_index := of_nat i\<rparr>)"
  shows "fc_fec c = Some g \<Longrightarrow> \<exists>g'. fec_on_send rs_new m' n' (d ! k) c =
    Ok (Some (st k),
        if Suc k = length d
        then c\<lparr>fc_fec := None, fc_encoded := fc_encoded c @
               map (\<lambda>i. \<lparr>ff_info = st (length d + i), ff_data = parity d ! i\<rparr>) [0..<n]\<rparr>
        else c\<lparr>fc_fec := Some g'\<rparr>) \<and> sending info alg L n d (Suc k) g'"
proof -
  assume c: "fc_fec c = Some g"
  let ?info = "(fg_info g)\<lparr>fs_index := of_nat k\<rparr>"
  have st: "(fg_info g)\<lparr>fs_index := i\<rparr> = info\<lparr>fs_index := i\<rparr>" for i
    using assms(3) by (cases info; cases "fg_info g") (simp add: sending_def)
  from fec_feed_sending [OF assms(3,7,6,2) refl] obtain g' where
    g': "fec_feed_frame \<lparr>ff_info = ?info, ff_data = d ! k\<rparr>
        (g\<lparr>fg_info := ?info, fg_next_index := of_nat (Suc k)\<rparr>) = Ok g'"
      "sending info alg L n d (Suc k) g'" "fg_info g' = ?info" by blast
  have nxt: "fg_next_index g + 1 = of_nat (Suc k)" "fg_next_index g = of_nat k"
    using assms(3) by (simp_all add: sending_def)
  have full: "fec_full g' \<longleftrightarrow> Suc k = length d"
  proof -
    have "unat (fs_m (fg_info g')) = length d" "unat (fg_next_index g') = Suc k"
      using g'(2) assms(4,6,7) by (simp_all add: sending_def unat_of_nat del: of_nat_Suc)
    with assms(7) show ?thesis by (auto simp: fec_full_def word_le_nat_alt)
  qed
  have feed: "fec_feed_frame \<lparr>ff_info = ?info, ff_data = d ! k\<rparr>
      (g\<lparr>fg_info := ?info, fg_next_index := of_nat k + 1\<rparr>) = Ok g'"
    using g'(1) by (simp add: add.commute)
  have send: "fec_on_send rs_new m' n' (d ! k) c =
      (if fec_full g'
       then bnd (fec_encode g') (\<lambda>r. Ok (Some ?info, c\<lparr>fc_fec := None, fc_encoded := fc_encoded c @ r\<rparr>))
       else Ok (Some ?info, c\<lparr>fc_fec := Some g'\<rparr>))"
    using feed nxt(2) by (simp add: fec_on_send_def Let_def c)
  have info: "?info = st k" by (simp add: st st_def)
  show ?thesis
  proof (cases "Suc k = length d")
    case False
    with send g'(2) full show ?thesis by (intro exI [of _ g']) (simp add: info)
  next
    case True
    then have "sending info alg L n d (length d) g'" using g'(2) by simp
    from fec_encode_sending [OF assms(1,2) this assms(4-6)] g'(3)
    have "fec_encode g' = Ok (map (\<lambda>i. \<lparr>ff_info = st (length d + i), ff_data = parity d ! i\<rparr>) [0..<n])"
      using st by (simp add: st_def)
    with True send g'(2) full show ?thesis by (intro exI [of _ g']) (simp add: info)
  qed
qed

lemma drop_Cons_nth: "k < length d \<Longrightarrow> drop k d = d ! k # drop (Suc k) d"
  by (simp add: Cons_nth_drop_Suc)

text \<open>The rest of a group: the statuses given to its packets and the redundancy frames queued.\<close>

lemma fec_send_all_group:
  assumes "erasure_code (length d) n parity alg" "data_shards (length d) L d"
    "unat (fs_m info) = length d" "unat (fs_n info) = n" "length d + n < 256"
  defines "st \<equiv> (\<lambda>i. info\<lparr>fs_index := of_nat i\<rparr>)"
  shows "k < length d \<Longrightarrow> sending info alg L n d k g \<Longrightarrow> fc_fec c = Some g \<Longrightarrow>
    fec_send_all rs_new m' n' (drop k d) c =
      Ok (map (\<lambda>i. Some (st i)) [k..<length d],
          c\<lparr>fc_fec := None, fc_encoded := fc_encoded c @
               map (\<lambda>i. \<lparr>ff_info = st (length d + i), ff_data = parity d ! i\<rparr>) [0..<n]\<rparr>)"
proof (induction "length d - k" arbitrary: k g c)
  case 0
  then show ?case by simp
next
  case (Suc x)
  let ?enc = "map (\<lambda>i. \<lparr>ff_info = st (length d + i), ff_data = parity d ! i\<rparr>) [0..<n]"
  from fec_on_send_group [OF assms(1,2) Suc.prems(2) assms(3-5) Suc.prems(1,3)] obtain g' where
    send: "fec_on_send rs_new m' n' (d ! k) c = Ok (Some (st k),
        if Suc k = length d then c\<lparr>fc_fec := None, fc_encoded := fc_encoded c @ ?enc\<rparr>
        else c\<lparr>fc_fec := Some g'\<rparr>)" and g': "sending info alg L n d (Suc k) g'"
    unfolding st_def by blast
  show ?case
  proof (cases "Suc k = length d")
    case True
    with send show ?thesis by (simp add: drop_Cons_nth [OF Suc.prems(1)] upt_rec)
  next
    case False
    then have k: "Suc k < length d" using Suc.prems(1) by simp
    have "x = length d - Suc k" using Suc.hyps(2) by simp
    from Suc.hyps(1) [OF this k g', of "c\<lparr>fc_fec := Some g'\<rparr>"] send False
    show ?thesis using Suc.prems(1) by (simp add: drop_Cons_nth [OF Suc.prems(1)] upt_rec [of k])
  qed
qed

section \<open>Properties\<close>

text \<open>C6. Sending a group. With a code that does what the crate documents, sending \<open>m\<close> payloads of one
  length while no group is open opens a group with the next group number, numbers the packets
  0, \<dots>, m - 1, and after the last one queues exactly the \<open>n\<close> parity shards with the indices
  m, \<dots>, m + n - 1, closes the group and moves on to the next number, without a panic.\<close>

theorem fec_send_group_correct:
  assumes "erasure_code (length d) n parity alg" "data_shards (length d) L d" "0 < n" "0 < length d"
    "length d + n < 256" "rs_new (length d) n = Some alg" "fc_fec c = None"
  shows "fec_send_all rs_new (of_nat (length d)) (of_nat n) d c =
    (let st = (\<lambda>i. \<lparr>fs_m = of_nat (length d), fs_n = of_nat n, fs_group_id = fc_next_group_id c,
                   fs_index = of_nat i\<rparr>)
     in Ok (map (\<lambda>i. Some (st i)) [0..<length d],
            c\<lparr>fc_next_group_id := fc_next_group_id c + 1,
              fc_encoded := fc_encoded c @
                map (\<lambda>i. \<lparr>ff_info = st (length d + i), ff_data = parity d ! i\<rparr>) [0..<n]\<rparr>))"
proof -
  let ?m = "of_nat (length d) :: u8" and ?n = "of_nat n :: u8"
  define info where "info = \<lparr>fs_m = ?m, fs_n = ?n, fs_group_id = fc_next_group_id c, fs_index = 0\<rparr>"
  have u: "unat ?m = length d" "unat ?n = n" using assms(5) by (simp_all add: unat_of_nat)
  then have nz: "?m \<noteq> 0" "?n \<noteq> 0" using assms(3,4) by (auto simp: word_unat_eq_iff)
  have len: "length (d ! 0) = L" using assms(2,4) by (auto simp: data_shards_def)
  define g where "g = \<lparr>fg_info = info, fg_shard_size = L, fg_r = alg, fg_next_index = 0,
      fg_shards = replicate (length d + n) None, fg_restored = False\<rparr>"
  have new: "fec_group_new rs_new info L = Ok g"
    using assms(6) u by (simp add: fec_group_new_def info_def g_def)
  have sending: "sending info alg L n d 0 g" by (simp add: sending_def g_def)
  let ?c = "c\<lparr>fc_next_group_id := fc_next_group_id c + 1, fc_fec := Some g\<rparr>"
  have "fec_on_send rs_new ?m ?n (d ! 0) c = fec_on_send rs_new ?m ?n (d ! 0) ?c"
    using nz new len assms(7) by (simp add: fec_on_send_def info_def [symmetric] Let_def cong: if_cong)
  moreover have "d = d ! 0 # drop 1 d" using drop_Cons_nth [of 0 d] assms(4) by simp
  ultimately have "fec_send_all rs_new ?m ?n d c = fec_send_all rs_new ?m ?n d ?c"
    by (metis fec_send_all.simps(2))
  also have "\<dots> = fec_send_all rs_new ?m ?n (drop 0 d) ?c" by simp
  also have "\<dots> = Ok (map (\<lambda>i. Some (info\<lparr>fs_index := of_nat i\<rparr>)) [0..<length d],
          ?c\<lparr>fc_fec := None, fc_encoded := fc_encoded ?c @
               map (\<lambda>i. \<lparr>ff_info = info\<lparr>fs_index := of_nat (length d + i)\<rparr>, ff_data = parity d ! i\<rparr>) [0..<n]\<rparr>)"
    using fec_send_all_group [OF assms(1,2) _ _ assms(5,4) sending, of ?c rs_new ?m ?n] u
    by (simp add: info_def)
  finally show ?thesis using assms(7) by (simp add: info_def Let_def)
qed

text \<open>The exclusive-or code with two data shards and one parity shard, a Reed-Solomon code.\<close>

definition xor_bytes :: "u8 list \<Rightarrow> u8 list \<Rightarrow> u8 list" where
  "xor_bytes xs ys = map2 (XOR) xs ys"

definition xor_parity :: "u8 list list \<Rightarrow> u8 list list" where
  "xor_parity d = [xor_bytes (d ! 0) (d ! 1)]"

definition xor_reconstruct :: "u8 list option list \<Rightarrow> u8 list option list option" where
  "xor_reconstruct s =
     (case s of
        [Some a, Some b, p] \<Rightarrow> Some s
      | [Some a, None, Some p] \<Rightarrow> Some [Some a, Some (xor_bytes a p), Some p]
      | [None, Some b, Some p] \<Rightarrow> Some [Some (xor_bytes b p), Some b, Some p]
      | _ \<Rightarrow> None)"

definition xor_alg :: fec_algorithm where
  "xor_alg = \<lparr>fa_encode = (\<lambda>v. Some (take 2 v @ xor_parity v)), fa_reconstruct_data = xor_reconstruct,
     fa_verify = (\<lambda>v. Some (drop 2 v = xor_parity v))\<rparr>"

lemma xor_bytes_cancel: "length xs = length ys \<Longrightarrow> xor_bytes xs (xor_bytes xs ys) = ys"
  "length xs = length ys \<Longrightarrow> xor_bytes ys (xor_bytes xs ys) = xs"
  by (induction xs ys rule: list_induct2) (auto simp: xor_bytes_def xor.left_commute)

lemma erasure_code_xor: "erasure_code 2 1 xor_parity xor_alg"
  unfolding erasure_code_def
proof (intro conjI allI impI)
  fix L d assume "data_shards 2 L d"
  then obtain a b where d: "d = [a, b]" "length a = L" "length b = L" "0 < L"
    by (auto simp: data_shards_def length_Suc_conv numeral_2_eq_2)
  then show "data_shards 1 L (xor_parity d)"
    by (auto simp: data_shards_def xor_parity_def xor_bytes_def)
  fix v show "fa_encode xor_alg (d @ v) = Some (d @ xor_parity d)"
    using d by (simp add: xor_alg_def xor_parity_def)
next
  fix L d shards
  assume "data_shards 2 L d" and s: "shards_of (d @ xor_parity d) shards"
  then obtain a b where d: "d = [a, b]" "length a = length b"
    by (auto simp: data_shards_def length_Suc_conv numeral_2_eq_2)
  with s obtain x y z where sh: "shards = [x, y, z]"
    by (auto simp: shards_of_def xor_parity_def length_Suc_conv)
  have vals: "x \<in> {None, Some a}" "y \<in> {None, Some b}" "z \<in> {None, Some (xor_bytes a b)}"
    using s d sh by (auto simp: shards_of_def xor_parity_def less_Suc_eq)
  have "present shards = (if x = None then {} else {0}) \<union> (if y = None then {} else {1}) \<union> (if z = None then {} else {2})"
  proof -
    have three: "i < length shards \<longleftrightarrow> i = 0 \<or> i = 1 \<or> i = 2" for i by (auto simp: sh)
    have sel: "{i :: nat. i = a \<and> Q i} = (if Q a then {a} else {})" for a Q by auto
    show ?thesis unfolding present_def three conj_disj_distribR Collect_disj_eq sel by (simp add: sh)
  qed
  with vals d show "if card (present shards) < 2 then fa_reconstruct_data xor_alg shards = None
         else \<exists>s. fa_reconstruct_data xor_alg shards = Some s \<and> length s = 2 + 1 \<and> take 2 s = map Some d"
    by (auto simp: sh xor_alg_def xor_reconstruct_def xor_bytes_cancel)
qed

lemma fec_send_group_correct_witness:
  "fec_send_all (\<lambda>m n. Some xor_alg) 2 1 [[1, 2], [3, 5]] fec_conn_new =
     Ok ([Some \<lparr>fs_m = 2, fs_n = 1, fs_group_id = 1, fs_index = 0\<rparr>,
          Some \<lparr>fs_m = 2, fs_n = 1, fs_group_id = 1, fs_index = 1\<rparr>],
         fec_conn_new\<lparr>fc_next_group_id := 2,
           fc_encoded := [\<lparr>ff_info = \<lparr>fs_m = 2, fs_n = 1, fs_group_id = 1, fs_index = 2\<rparr>, ff_data = [2, 7]\<rparr>]\<rparr>)"
proof -
  have code: "erasure_code (length [[1, 2], [3, 5]]) 1 xor_parity xor_alg" using erasure_code_xor by (simp add: numeral_2_eq_2)
  have shards: "data_shards (length [[1, 2], [3, 5]]) 2 [[1, 2], [3, 5]]" by (simp add: data_shards_def)
  show ?thesis
    using fec_send_group_correct [OF code shards, of "\<lambda>m n. Some xor_alg" fec_conn_new]
    by (simp add: fec_conn_new_def xor_parity_def xor_bytes_def Let_def upt_rec)
qed

text \<open>C7. Receiving a group. However many packets of a group arrive, in whatever order and with
  duplicates, feeding them never panics, and reconstruction returns exactly the data shards that
  did not arrive, in order and with the sender's bytes, as soon as \<open>m\<close> distinct packets of the
  group did, and nothing before or when no data shard is missing.\<close>

theorem fec_receive_group_correct:
  assumes "erasure_code m n parity alg" "data_shards m L d" "rs_new m n = Some alg"
    "unat (fs_m info) = m" "unat (fs_n info) = n" "\<forall>f \<in> set frames. frame_of info (d @ parity d) f"
  shows "\<exists>g g'. bnd (fec_group_new rs_new info L) (fec_feed_all frames) = Ok g
    \<and> fec_reconstruct g =
       Ok (if {0..<m} \<subseteq> frame_indices frames \<or> card (frame_indices frames) < m then None
           else Some (map ((!) d) (filter (\<lambda>i. i \<notin> frame_indices frames) [0..<m])), g')"
proof -
  have par: "data_shards n L (parity d)" using assms(1,2) by (auto simp: erasure_code_def)
  then have cw: "length (d @ parity d) = unat (fs_m info) + unat (fs_n info)" "\<forall>x \<in> set (d @ parity d). length x = L"
    using assms(2,4,5) by (auto simp: data_shards_def)
  have "rs_new (unat (fs_m info)) (unat (fs_n info)) = Some alg" using assms(3-5) by simp
  from group_of_new [of rs_new, OF this cw(1), of L] obtain g0 where
    g0: "fec_group_new rs_new info L = Ok g0" "group_of info alg L (d @ parity d) g0" "present (fg_shards g0) = {}"
    by blast
  from fec_feed_all_ok [OF g0(2) assms(6) cw(2)] g0(3) obtain g where
    g: "fec_feed_all frames g0 = Ok g" "group_of info alg L (d @ parity d) g"
      "present (fg_shards g) = frame_indices frames" by auto
  from fec_reconstruct_eq [OF assms(1,2) g(2) assms(4), unfolded g(3)] g(1) g0(1) show ?thesis by simp
qed

lemma fec_receive_group_correct_witness:
  "\<exists>g g'. bnd (fec_group_new (\<lambda>m n. Some xor_alg) \<lparr>fs_m = 2, fs_n = 1, fs_group_id = 1, fs_index = 2\<rparr> 2)
       (fec_feed_all [\<lparr>ff_info = \<lparr>fs_m = 2, fs_n = 1, fs_group_id = 1, fs_index = 2\<rparr>, ff_data = [2, 7]\<rparr>,
                      \<lparr>ff_info = \<lparr>fs_m = 2, fs_n = 1, fs_group_id = 1, fs_index = 0\<rparr>, ff_data = [1, 2]\<rparr>]) = Ok g
    \<and> fec_reconstruct g = Ok (Some [[3, 5]], g')"
proof -
  let ?d = "[[1, 2], [3, 5]] :: u8 list list"
  let ?st = "\<lambda>i. \<lparr>fs_m = 2, fs_n = 1, fs_group_id = 1, fs_index = i\<rparr>"
  let ?fs = "[\<lparr>ff_info = ?st 2, ff_data = [2, 7]\<rparr>, \<lparr>ff_info = ?st 0, ff_data = [1, 2]\<rparr>]"
  have shards: "data_shards 2 2 ?d" by (simp add: data_shards_def)
  have frames: "\<forall>f \<in> set ?fs. frame_of (?st 2) (?d @ xor_parity ?d) f"
    by (simp add: frame_of_def xor_parity_def xor_bytes_def)
  have ix: "frame_indices ?fs = {2, 0}" by (simp add: frame_indices_def insert_commute)
  have "\<not> {0..<2} \<subseteq> {2, 0 :: nat}"
  proof
    assume "{0..<2} \<subseteq> {2, 0 :: nat}"
    then have "(1 :: nat) \<in> {2, 0}" by (rule subsetD) simp
    then show False by simp
  qed
  moreover have "\<not> card {2, 0 :: nat} < 2"
    "map ((!) ?d) (filter (\<lambda>i. i \<notin> {2, 0}) [0..<2]) = [[3, 5]]"
    by (simp_all add: upt_rec)
  ultimately show ?thesis
    using fec_receive_group_correct [OF erasure_code_xor shards, of "\<lambda>m n. Some xor_alg" "?st 2" ?fs] frames ix
    by simp
qed

text \<open>A peer can make the receiver panic: the payload of a packet whose group is known is asserted
  to have the length of the group's first packet, so two packets of one group with payloads of
  different lengths suffice, whatever the code.\<close>

theorem fec_length_mismatch_panics:
  assumes "fec_on_recv rs_new info p fec_conn_new = Ok (x, c)" "fs_group_id info \<noteq> 0"
    "fs_group_id info' = fs_group_id info" "length q \<noteq> length p"
  shows "fec_on_recv rs_new info' q c = Panic"
proof -
  from assms(1,2) obtain g0 g1 g2 where g: "fec_group_new rs_new info (length p) = Ok g0"
    "fec_feed_frame \<lparr>ff_info = info, ff_data = p\<rparr> g0 = Ok g1" "fec_reconstruct g1 = Ok (x, g2)"
    "c = fec_conn_new\<lparr>fc_decoders := [fs_group_id info \<mapsto> g2]\<rparr>"
    by (auto simp: fec_on_recv_def fec_conn_new_def Let_def split: prod.splits)
  have "fg_shard_size g0 = length p" using g(1) by (auto simp: fec_group_new_def)
  moreover have "fg_shard_size g1 = fg_shard_size g0"
    using g(2) by (auto simp: fec_feed_frame_def Let_def split: if_splits)
  moreover have "fg_shard_size g2 = fg_shard_size g1"
    using g(3) by (auto simp: fec_reconstruct_def Let_def split: if_splits option.splits)
  ultimately have size: "fg_shard_size g2 = length p" by simp
  then have feed: "fec_feed_frame \<lparr>ff_info = info', ff_data = q\<rparr> g2 = Panic"
    using assms(4) by (simp add: fec_feed_frame_def Let_def)
  have dec: "fc_decoders c (fs_group_id info') = Some g2" using g(4) assms(3) by simp
  have "fec_group_new rs_new info' (length q) = Panic \<or> (\<exists>g. fec_group_new rs_new info' (length q) = Ok g)"
    by (cases "rs_new (unat (fs_m info')) (unat (fs_n info'))") (auto simp: fec_group_new_def)
  then show ?thesis using assms(2,3) dec feed by (auto simp: fec_on_recv_def Let_def)
qed

lemma fec_length_mismatch_panics_witness:
  "case fec_on_recv rs_fake \<lparr>fs_m = 1, fs_n = 1, fs_group_id = 1, fs_index = 0\<rparr> [7] fec_conn_new of
     Ok (x, c) \<Rightarrow> fec_on_recv rs_fake \<lparr>fs_m = 1, fs_n = 1, fs_group_id = 1, fs_index = 1\<rparr> [7, 8] c = Panic
   | _ \<Rightarrow> False"
proof -
  let ?info = "\<lparr>fs_m = 1, fs_n = 1, fs_group_id = 1, fs_index = 0\<rparr>"
  have "\<exists>x c. fec_on_recv rs_fake ?info [7] fec_conn_new = Ok (x, c)"
    by (simp add: fec_on_recv_def fec_conn_new_def fec_group_new_def rs_fake_def fec_feed_frame_def
        fec_reconstruct_def Let_def)
  then obtain x c where run: "fec_on_recv rs_fake ?info [7] fec_conn_new = Ok (x, c)" by blast
  from fec_length_mismatch_panics [OF run, of "\<lparr>fs_m = 1, fs_n = 1, fs_group_id = 1, fs_index = 1\<rparr>" "[7, 8]"]
  show ?thesis by (simp add: run)
qed

text \<open>Without the crate's \<open>fec\<close> feature the code of the type \<open>RSFec\<close> restores nothing, and a
  receiver of a packet of a group that misses a data shard panics on the missing shard.\<close>

theorem fec_fake_panics:
  "fec_on_recv rs_fake \<lparr>fs_m = 2, fs_n = 1, fs_group_id = 1, fs_index = 0\<rparr> p fec_conn_new = Panic"
proof -
  have "replicate 3 None = [None, None, None :: u8 list option]" by (simp add: numeral_3_eq_3)
  moreover have "[0..<3] = [0, 1, 2 :: nat]" by (simp add: upt_rec)
  ultimately show ?thesis
    by (simp add: fec_on_recv_def fec_conn_new_def fec_group_new_def rs_fake_def fec_feed_frame_def
        fec_reconstruct_def Let_def)
qed

text \<open>The record of a group's packets. Packet numbers that were sent and not acknowledged are
  reported as recovered exactly once \<open>m\<close> packets of the group are acknowledged, in index order;
  the delta is reported only when all \<open>m + n\<close> packets are accounted for, and is the surplus of
  acknowledged packets over \<open>m\<close> as long as it fits \<open>i8\<close>.\<close>

theorem fec_packet_numbers_correct:
  "(case fpn_get_recovered_pns f of
      Some pns \<Rightarrow> unat (fpn_m f) \<le> card (fpn_acked f)
        \<and> set pns = snd ` set (fpn_sent f) - fpn_acked f
    | None \<Rightarrow> card (fpn_acked f) < unat (fpn_m f))
   \<and> (case fpn_get_delta f of
        Some d \<Rightarrow> unat (fpn_m f) + unat (fpn_n f) \<le> card (fpn_lost f) + card (fpn_acked f)
          \<and> (card (fpn_acked f) < 128 \<and> fpn_m f < 128 \<longrightarrow>
               sint d = int (card (fpn_acked f)) - int (unat (fpn_m f)))
      | None \<Rightarrow> card (fpn_lost f) + card (fpn_acked f) < unat (fpn_m f) + unat (fpn_n f))"
proof (intro conjI)
  show "case fpn_get_recovered_pns f of
      Some pns \<Rightarrow> unat (fpn_m f) \<le> card (fpn_acked f) \<and> set pns = snd ` set (fpn_sent f) - fpn_acked f
    | None \<Rightarrow> card (fpn_acked f) < unat (fpn_m f)"
    by (auto simp: fpn_get_recovered_pns_def)
  let ?a = "card (fpn_acked f)"
  have "sint (of_nat ?a - fpn_m f) = int ?a - int (unat (fpn_m f))" if "?a < 128" "fpn_m f < 128"
  proof -
    have m: "unat (fpn_m f) < 128" using that(2) by (simp add: word_less_nat_alt)
    have eq: "of_nat ?a - fpn_m f = word_of_int (int ?a - int (unat (fpn_m f)))" by simp
    have "sint (of_nat ?a - fpn_m f) = signed_take_bit 7 (int ?a - int (unat (fpn_m f)))"
      unfolding eq sint_sbintrunc' by simp
    moreover have "- 128 \<le> int ?a - int (unat (fpn_m f))" "int ?a - int (unat (fpn_m f)) < 128"
      using m that(1) by linarith+
    then have "signed_take_bit 7 (int ?a - int (unat (fpn_m f))) = int ?a - int (unat (fpn_m f))"
      by (intro signed_take_bit_int_eq_self) simp_all
    ultimately show ?thesis by simp
  qed
  then show "case fpn_get_delta f of
        Some d \<Rightarrow> unat (fpn_m f) + unat (fpn_n f) \<le> card (fpn_lost f) + card (fpn_acked f)
          \<and> (card (fpn_acked f) < 128 \<and> fpn_m f < 128 \<longrightarrow>
               sint d = int (card (fpn_acked f)) - int (unat (fpn_m f)))
      | None \<Rightarrow> card (fpn_lost f) + card (fpn_acked f) < unat (fpn_m f) + unat (fpn_n f)"
    by (auto simp: fpn_get_delta_def)
qed

lemma fec_packet_numbers_correct_witness:
  "case fpn_get_delta (fpn_packet_lost 10 (fpn_packet_acked 9 (fpn_new 1 1))) of
     Some d \<Rightarrow> sint d = 0 | None \<Rightarrow> False"
  using fec_packet_numbers_correct [of "fpn_packet_lost 10 (fpn_packet_acked 9 (fpn_new 1 1))"]
  by (simp add: fpn_packet_lost_def fpn_packet_acked_def fpn_new_def fpn_get_delta_def)

end
