(* ===== verification/Crypto.thy ===== *)
theory Crypto
  imports Prelude
begin

text \<open>
  Packet protection keys, \<open>src/crypto.rs\<close>: the algorithms, the per-packet nonce, sealing and
  opening with a packet number, header protection masks, and the derivation of keys from a
  secret. The primitives of the \<open>ring\<close> crate are parameters: an AEAD key with its header
  protection key is a record of three functions (\<open>None\<close> is ring's \<open>Unspecified\<close> error), HKDF a
  record of its operations; \<open>ring_keys\<close> states what ring documents of a key used for sealing and
  the same key used for opening. \<open>Open\<close> and \<open>Seal\<close> have the same fields, hence one record.
\<close>

section \<open>Algorithms\<close>

datatype algorithm = AES128_GCM | AES256_GCM | ChaCha20_Poly1305

datatype digest = HKDF_SHA256 | HKDF_SHA384

fun get_ring_digest :: "algorithm \<Rightarrow> digest" where
  "get_ring_digest AES128_GCM = HKDF_SHA256"
| "get_ring_digest AES256_GCM = HKDF_SHA384"
| "get_ring_digest ChaCha20_Poly1305 = HKDF_SHA256"

text \<open>The lengths are those of ring's algorithms.\<close>

fun key_len :: "algorithm \<Rightarrow> nat" where
  "key_len AES128_GCM = 16"
| "key_len AES256_GCM = 32"
| "key_len ChaCha20_Poly1305 = 32"

definition tag_len :: "algorithm \<Rightarrow> nat" where
  "tag_len alg = 16"

definition nonce_len :: "algorithm \<Rightarrow> nat" where
  "nonce_len alg = 12"

datatype level = LInitial | LZeroRTT | LHandshake | LOneRTT

definition level_from_epoch :: "nat \<Rightarrow> level result" where
  "level_from_epoch e =
     (if e = 0 then Ok LInitial else if e = 1 then Ok LHandshake
      else if e = 2 then Ok LOneRTT else Panic)"

section \<open>Sealing and opening\<close>

text \<open>\<open>ra_seal nonce ad plaintext\<close> yields ciphertext and tag; \<open>ra_open nonce ad buf\<close> the buffer after
  opening in place and the length of the plaintext at its start; \<open>ra_mask sample\<close> the mask.\<close>

record ring_aead =
  ra_seal :: "u8 list \<Rightarrow> u8 list \<Rightarrow> u8 list \<Rightarrow> (u8 list \<times> u8 list) option"
  ra_open :: "u8 list \<Rightarrow> u8 list \<Rightarrow> u8 list \<Rightarrow> (u8 list \<times> nat) option"
  ra_mask :: "u8 list \<Rightarrow> u8 list option"

record crypto_key =
  ck_alg :: algorithm
  ck_ring :: ring_aead
  ck_nonce :: "u8 list"

definition make_nonce :: "u8 list \<Rightarrow> u64 \<Rightarrow> u8 list result" where
  "make_nonce iv counter =
     (if length iv \<noteq> 12 then Panic
      else Ok (take 4 iv @ map2 (XOR) (drop 4 iv) (be_bytes 8 (unat counter))))"

definition open_with_u64_counter :: "u64 \<Rightarrow> u8 list \<Rightarrow> u8 list \<Rightarrow> crypto_key \<Rightarrow> (nat \<times> u8 list) result" where
  "open_with_u64_counter counter ad buf k =
     bnd (make_nonce (ck_nonce k) counter) (\<lambda>nonce.
     bnd (ok_or CryptoFail (ra_open (ck_ring k) nonce ad buf)) (\<lambda>(buf, plain). Ok (plain, buf)))"

definition seal_with_u64_counter :: "u64 \<Rightarrow> u8 list \<Rightarrow> u8 list \<Rightarrow> crypto_key \<Rightarrow> u8 list result" where
  "seal_with_u64_counter counter ad buf k =
     bnd (make_nonce (ck_nonce k) counter) (\<lambda>nonce.
     let n = tag_len (ck_alg k) in
     if length buf < n then Err CryptoFail
     else bnd (ok_or CryptoFail (ra_seal (ck_ring k) nonce ad (take (length buf - n) buf))) (\<lambda>(ct, tag).
       if length tag \<noteq> n then Panic else Ok (ct @ tag)))"

definition new_mask :: "u8 list \<Rightarrow> crypto_key \<Rightarrow> u8 list result" where
  "new_mask sample k = ok_or CryptoFail (ra_mask (ck_ring k) sample)"

section \<open>Key derivation\<close>

text \<open>HKDF of ring: \<open>extract\<close> with a salt, a pseudo-random key from a secret, and \<open>expand\<close> to a
  number of bytes; \<open>key\<close> builds the AEAD and header protection keys of an algorithm.\<close>

record 'prk ring_hkdf =
  rh_extract :: "digest \<Rightarrow> u8 list \<Rightarrow> u8 list \<Rightarrow> 'prk"
  rh_prk :: "digest \<Rightarrow> u8 list \<Rightarrow> 'prk"
  rh_expand :: "'prk \<Rightarrow> u8 list \<Rightarrow> nat \<Rightarrow> u8 list option"
  rh_key :: "algorithm \<Rightarrow> u8 list \<Rightarrow> u8 list \<Rightarrow> ring_aead option"

definition bytes_of :: "string \<Rightarrow> u8 list" where
  "bytes_of s = map (\<lambda>c. of_nat (of_char c)) s"

text \<open>\<open>hkdf_expand_label\<close>, filling an output of \<open>n\<close> bytes.\<close>

definition hkdf_expand_label :: "'prk ring_hkdf \<Rightarrow> 'prk \<Rightarrow> string \<Rightarrow> nat \<Rightarrow> u8 list result" where
  "hkdf_expand_label h prk label n =
     (let info = be_bytes 2 n @ [of_nat (length ''tls13 '' + length label)]
                 @ bytes_of ''tls13 '' @ bytes_of label @ [0]
      in ok_or CryptoFail (rh_expand h prk info n))"

definition derive_hdr_key :: "'prk ring_hkdf \<Rightarrow> algorithm \<Rightarrow> u8 list \<Rightarrow> nat \<Rightarrow> u8 list result" where
  "derive_hdr_key h aead secret out_len =
     (if out_len < key_len aead then Err CryptoFail
      else hkdf_expand_label h (rh_prk h (get_ring_digest aead) secret) ''quic hp'' (key_len aead))"

definition derive_pkt_key :: "'prk ring_hkdf \<Rightarrow> algorithm \<Rightarrow> u8 list \<Rightarrow> nat \<Rightarrow> u8 list result" where
  "derive_pkt_key h aead secret out_len =
     (if out_len < key_len aead then Err CryptoFail
      else hkdf_expand_label h (rh_prk h (get_ring_digest aead) secret) ''quic key'' (key_len aead))"

definition derive_pkt_iv :: "'prk ring_hkdf \<Rightarrow> algorithm \<Rightarrow> u8 list \<Rightarrow> nat \<Rightarrow> u8 list result" where
  "derive_pkt_iv h aead secret out_len =
     (if out_len < nonce_len aead then Err CryptoFail
      else hkdf_expand_label h (rh_prk h (get_ring_digest aead) secret) ''quic iv'' (nonce_len aead))"

definition crypto_key_new :: "'prk ring_hkdf \<Rightarrow> algorithm \<Rightarrow> u8 list \<Rightarrow> u8 list \<Rightarrow> u8 list \<Rightarrow> crypto_key result" where
  "crypto_key_new h alg key iv hp_key =
     bnd (ok_or CryptoFail (rh_key h alg key hp_key)) (\<lambda>ring.
     Ok \<lparr>ck_alg = alg, ck_ring = ring, ck_nonce = iv\<rparr>)"

definition INITIAL_SALT :: "u8 list" where
  "INITIAL_SALT = [0xc3, 0xee, 0xf7, 0x12, 0xc7, 0x2e, 0xbb, 0x5a, 0x11, 0xa7, 0xd2, 0x43,
                   0x2b, 0xb4, 0x63, 0x65, 0xbe, 0xf9, 0xf5, 0x02]"

definition derive_initial_secret :: "'prk ring_hkdf \<Rightarrow> u8 list \<Rightarrow> 'prk" where
  "derive_initial_secret h secret = rh_extract h HKDF_SHA256 INITIAL_SALT secret"

definition derive_client_initial_secret :: "'prk ring_hkdf \<Rightarrow> 'prk \<Rightarrow> u8 list result" where
  "derive_client_initial_secret h prk = hkdf_expand_label h prk ''client in'' 32"

definition derive_server_initial_secret :: "'prk ring_hkdf \<Rightarrow> 'prk \<Rightarrow> u8 list result" where
  "derive_server_initial_secret h prk = hkdf_expand_label h prk ''server in'' 32"

text \<open>\<open>derive_initial_key_material\<close>: the keys to open and to seal with.\<close>

definition derive_initial_key_material :: "'prk ring_hkdf \<Rightarrow> u8 list \<Rightarrow> bool \<Rightarrow> (crypto_key \<times> crypto_key) result" where
  "derive_initial_key_material h cid is_server =
     (let aead = AES128_GCM; initial_secret = derive_initial_secret h cid in
      bnd (derive_client_initial_secret h initial_secret) (\<lambda>secret.
      bnd (derive_pkt_key h aead secret (key_len aead)) (\<lambda>client_key.
      bnd (derive_pkt_iv h aead secret (nonce_len aead)) (\<lambda>client_iv.
      bnd (derive_hdr_key h aead secret (key_len aead)) (\<lambda>client_hp_key.
      bnd (derive_server_initial_secret h initial_secret) (\<lambda>secret.
      bnd (derive_pkt_key h aead secret (key_len aead)) (\<lambda>server_key.
      bnd (derive_pkt_iv h aead secret (nonce_len aead)) (\<lambda>server_iv.
      bnd (derive_hdr_key h aead secret (key_len aead)) (\<lambda>server_hp_key.
      if is_server
      then bnd (crypto_key_new h aead client_key client_iv client_hp_key) (\<lambda>open_key.
           bnd (crypto_key_new h aead server_key server_iv server_hp_key) (\<lambda>seal_key. Ok (open_key, seal_key)))
      else bnd (crypto_key_new h aead server_key server_iv server_hp_key) (\<lambda>open_key.
           bnd (crypto_key_new h aead client_key client_iv client_hp_key) (\<lambda>seal_key. Ok (open_key, seal_key))))))))))))"

section \<open>Lemmas\<close>

text \<open>What ring documents of one key on both sides: opening undoes sealing under the same nonce and
  associated data, in place; tags have 16 bytes, masks five, and the masks agree.\<close>

definition ring_keys :: "crypto_key \<Rightarrow> crypto_key \<Rightarrow> bool" where
  "ring_keys ks ko \<longleftrightarrow> ck_nonce ks = ck_nonce ko \<and> length (ck_nonce ks) = 12
     \<and> (\<forall>nonce ad pt ct tag. ra_seal (ck_ring ks) nonce ad pt = Some (ct, tag) \<longrightarrow>
          length ct = length pt \<and> length tag = 16
          \<and> (\<exists>rest. length rest = 16 \<and> ra_open (ck_ring ko) nonce ad (ct @ tag) = Some (pt @ rest, length pt)))
     \<and> (\<forall>sample. ra_mask (ck_ring ks) sample = ra_mask (ck_ring ko) sample)
     \<and> (\<forall>sample mask. ra_mask (ck_ring ks) sample = Some mask \<longrightarrow> length mask = 5)"

lemma open_seal:
  assumes "ring_keys ks ko" "seal_with_u64_counter pn ad buf ks = Ok ct"
  shows "length ct = length buf \<and> 16 \<le> length buf
    \<and> (\<exists>rest. open_with_u64_counter pn ad ct ko = Ok (length buf - 16, take (length buf - 16) buf @ rest)
         \<and> length rest = 16)"
proof -
  from assms(2) obtain nonce where n: "make_nonce (ck_nonce ks) pn = Ok nonce"
    and "(if length buf < 16 then Err CryptoFail
     else bnd (ok_or CryptoFail (ra_seal (ck_ring ks) nonce ad (take (length buf - 16) buf))) (\<lambda>(ct, tag).
       if length tag \<noteq> 16 then Panic else Ok (ct @ tag))) = Ok ct"
    by (auto simp: seal_with_u64_counter_def Let_def tag_len_def)
  then obtain c tag where len: "16 \<le> length buf"
    and s: "ra_seal (ck_ring ks) nonce ad (take (length buf - 16) buf) = Some (c, tag)" "ct = c @ tag"
    by (auto simp: not_less split: if_splits)
  let ?pt = "take (length buf - 16) buf"
  have "\<forall>nonce ad pt ct tag. ra_seal (ck_ring ks) nonce ad pt = Some (ct, tag) \<longrightarrow>
          length ct = length pt \<and> length tag = 16
          \<and> (\<exists>rest. length rest = 16 \<and> ra_open (ck_ring ko) nonce ad (ct @ tag) = Some (pt @ rest, length pt))"
    using assms(1) by (simp add: ring_keys_def)
  from this [THEN spec, THEN spec, THEN spec, THEN spec, THEN spec, THEN mp, OF s(1)]
  obtain rest where "length c = length ?pt" "length tag = 16" "length rest = 16"
    "ra_open (ck_ring ko) nonce ad (c @ tag) = Some (?pt @ rest, length ?pt)" by blast
  then have op: "open_with_u64_counter pn ad ct ko = Ok (length buf - 16, take (length buf - 16) buf @ rest)"
    and "length rest = 16" "length ct = length buf"
    using n len s(2) assms(1) by (simp_all add: open_with_u64_counter_def ring_keys_def)
  then show ?thesis using len by blast
qed

lemma map2_xor_inj:
  "length xs = length ys \<Longrightarrow> length xs = length zs \<Longrightarrow> map2 (XOR) xs ys = map2 (XOR) xs zs \<Longrightarrow>
   (ys :: 'a::len word list) = zs"
proof (induction xs ys arbitrary: zs rule: list_induct2)
  case Nil
  then show ?case by simp
next
  case (Cons x xs y ys)
  then obtain z zs' where zs: "zs = z # zs'" by (cases zs) auto
  with Cons.prems have "x XOR y = x XOR z" by simp
  then have "x XOR (x XOR y) = x XOR (x XOR z)" by simp
  then have "y = z" by (simp add: xor.assoc [symmetric])
  with Cons zs show ?case by simp
qed

section \<open>Properties\<close>

text \<open>Different packet numbers give different nonces under one key, so that no nonce of the AEAD
  is used twice.\<close>

theorem make_nonce_injective:
  assumes "make_nonce iv c = Ok nonce" "make_nonce iv c' = Ok nonce"
  shows "c = c'"
proof -
  from assms have len: "length iv = 12" by (auto simp: make_nonce_def split: if_splits)
  with assms have "map2 (XOR) (drop 4 iv) (be_bytes 8 (unat c)) = map2 (XOR) (drop 4 iv) (be_bytes 8 (unat c'))"
    by (auto simp: make_nonce_def)
  then have "be_bytes 8 (unat c) = be_bytes 8 (unat c')"
    by (rule map2_xor_inj [rotated 2]) (simp_all add: len)
  then have "unat c mod 256 ^ 8 = unat c' mod 256 ^ 8" by (metis be_nat_be_bytes)
  then show ?thesis using unat_u64 [of c] unat_u64 [of c'] by (simp add: word_unat_eq_iff)
qed

lemma make_nonce_injective_witness:
  "make_nonce [0, 0, 0, 0, 0, 0, 0, 0, 0, 0, 0, 1] 5 = Ok [0, 0, 0, 0, 0, 0, 0, 0, 0, 0, 0, 4]
    \<and> (5::u64) = 5"
proof -
  have e: "make_nonce [0, 0, 0, 0, 0, 0, 0, 0, 0, 0, 0, 1] 5 = Ok [0, 0, 0, 0, 0, 0, 0, 0, 0, 0, 0, 4]"
    by code_simp
  from e make_nonce_injective [OF e e] show ?thesis by simp
qed

text \<open>The initial keys of the two sides match: what one side seals with is what the other opens
  with.\<close>

theorem initial_keys_match:
  "derive_initial_key_material h cid True =
     bnd (derive_initial_key_material h cid False) (\<lambda>(open_key, seal_key). Ok (seal_key, open_key))"
proof -
  have comm: "bnd (crypto_key_new h a k1 i1 p1) (\<lambda>x. bnd (crypto_key_new h b k2 i2 p2) (\<lambda>y. f x y)) =
    bnd (crypto_key_new h b k2 i2 p2) (\<lambda>y. bnd (crypto_key_new h a k1 i1 p1) (\<lambda>x. f x y))"
    for a k1 i1 p1 b k2 i2 p2 and f :: "crypto_key \<Rightarrow> crypto_key \<Rightarrow> 'c result"
    by (cases "rh_key h a k1 p1"; cases "rh_key h b k2 p2") (simp_all add: crypto_key_new_def)
  show ?thesis
    unfolding derive_initial_key_material_def Let_def if_True simp_thms if_False bnd_assoc prod.case bnd.simps
    by ((rule bnd_cong [OF refl])+, rule comm)
qed

end
