(* ===== verification/Packet.thy ===== *)
theory Packet
  imports Wire Fec Crypto
begin

text \<open>
  QUIC packets, \<open>src/packet.rs\<close>: the header with this crate's FEC fields, its parser and printer,
  the coding of packet numbers, header and payload protection, version negotiation and retry
  packets, and the window that recognises duplicate packet numbers. Slices that alias the packet
  buffer are written back at their place. \<open>rand_u8\<close> and the integrity tag of a retry packet
  (AES-128-GCM of ring with a fixed key) are arguments.
\<close>

section \<open>Types\<close>

definition FORM_BIT :: u8 where "FORM_BIT = 0x80"
definition FIXED_BIT :: u8 where "FIXED_BIT = 0x40"
definition KEY_PHASE_BIT :: u8 where "KEY_PHASE_BIT = 0x04"
definition TYPE_MASK :: u8 where "TYPE_MASK = 0x30"
definition PKT_NUM_MASK :: u8 where "PKT_NUM_MASK = 0x03"
definition MAX_CID_LEN :: u8 where "MAX_CID_LEN = 20"
definition MAX_PKT_NUM_LEN :: nat where "MAX_PKT_NUM_LEN = 4"
definition SAMPLE_LEN :: nat where "SAMPLE_LEN = 16"

type_synonym epoch = nat

definition EPOCH_INITIAL :: epoch where "EPOCH_INITIAL = 0"
definition EPOCH_HANDSHAKE :: epoch where "EPOCH_HANDSHAKE = 1"
definition EPOCH_APPLICATION :: epoch where "EPOCH_APPLICATION = 2"
definition EPOCH_COUNT :: nat where "EPOCH_COUNT = 3"

datatype ptype = Initial | Retry | Handshake | ZeroRTT | VersionNegotiation | Short

definition type_from_epoch :: "epoch \<Rightarrow> ptype result" where
  "type_from_epoch e =
     (if e = EPOCH_INITIAL then Ok Initial
      else if e = EPOCH_HANDSHAKE then Ok Handshake
      else if e = EPOCH_APPLICATION then Ok Short
      else Panic)"

fun type_to_epoch :: "ptype \<Rightarrow> epoch result" where
  "type_to_epoch Initial = Ok EPOCH_INITIAL"
| "type_to_epoch ZeroRTT = Ok EPOCH_APPLICATION"
| "type_to_epoch Handshake = Ok EPOCH_HANDSHAKE"
| "type_to_epoch Short = Ok EPOCH_APPLICATION"
| "type_to_epoch _ = Err InvalidPacket"

record header =
  h_ty :: ptype
  h_version :: u32
  h_dcid :: "u8 list"
  h_scid :: "u8 list"
  h_pkt_num :: u64
  h_pkt_num_len :: nat
  h_token :: "u8 list option"
  h_versions :: "u32 list option"
  h_key_phase :: bool
  h_fec_info :: fec_status

text \<open>The versions of \<open>src/lib.rs\<close>.\<close>

definition PROTOCOL_VERSION_DRAFT25 :: u32 where "PROTOCOL_VERSION_DRAFT25 = 0xff000019"
definition PROTOCOL_VERSION_DRAFT24 :: u32 where "PROTOCOL_VERSION_DRAFT24 = 0xff000018"
definition PROTOCOL_VERSION_DRAFT23 :: u32 where "PROTOCOL_VERSION_DRAFT23 = 0xff000017"
definition PROTOCOL_VERSION :: u32 where "PROTOCOL_VERSION = PROTOCOL_VERSION_DRAFT25"

definition version_is_supported :: "u32 \<Rightarrow> bool" where
  "version_is_supported v \<longleftrightarrow>
     v = PROTOCOL_VERSION \<or> v = PROTOCOL_VERSION_DRAFT24 \<or> v = PROTOCOL_VERSION_DRAFT23"

section \<open>The header\<close>

definition is_long :: "u8 \<Rightarrow> bool" where
  "is_long b \<longleftrightarrow> b AND FORM_BIT \<noteq> 0"

fun skip_u8 :: "nat \<Rightarrow> octets \<Rightarrow> octets result" where
  "skip_u8 0 b = Ok b"
| "skip_u8 (Suc n) b = bnd (get_u8 b) (\<lambda>(_, b). skip_u8 n b)"

text \<open>The version list of a version negotiation packet: \<open>while b.cap() > 0\<close>.\<close>

function get_versions :: "octets \<Rightarrow> (u32 list \<times> octets) result" where
  "get_versions b =
     (if 0 < cap b
      then bnd (get_u32 b) (\<lambda>(v, b). bnd (get_versions b) (\<lambda>(vs, b). Ok (v # vs, b)))
      else Ok ([], b))"
  by pat_completeness auto
termination
  by (relation "measure cap") (auto dest: u32c.get_cap_less)

declare get_versions.simps [simp del]

definition header_from_bytes :: "nat \<Rightarrow> octets \<Rightarrow> (header \<times> octets) result" where
  "header_from_bytes dcid_len b =
     bnd (get_u8 b) (\<lambda>(first, b).
     if \<not> is_long first then
       bnd (get_bytes dcid_len b) (\<lambda>(dcid, b).
       bnd (get_u32 b) (\<lambda>(group_id, b).
       bnd (get_u8 b) (\<lambda>(index, b).
       bnd (get_u8 b) (\<lambda>(m, b).
       bnd (get_u8 b) (\<lambda>(n, b).
       bnd (get_u8 b) (\<lambda>(padding, b).
       bnd (skip_u8 (unat padding) b) (\<lambda>b.
       Ok (\<lparr>h_ty = Short, h_version = 0, h_dcid = as_ref dcid, h_scid = [], h_pkt_num = 0,
            h_pkt_num_len = 0, h_token = None, h_versions = None, h_key_phase = False,
            h_fec_info = \<lparr>fs_m = m, fs_n = n, fs_group_id = group_id, fs_index = index\<rparr>\<rparr>, b))))))))
     else
       bnd (get_u32 b) (\<lambda>(version, b).
       bnd (if version = 0 then Ok VersionNegotiation
            else let k = drop_bit 4 (first AND TYPE_MASK) in
              if k = 0 then Ok Initial else if k = 1 then Ok ZeroRTT
              else if k = 2 then Ok Handshake else if k = 3 then Ok Retry
              else Err InvalidPacket) (\<lambda>ty.
       bnd (get_u8 b) (\<lambda>(dcid_len, b).
       if version_is_supported version \<and> MAX_CID_LEN < dcid_len then Err InvalidPacket
       else bnd (get_bytes (unat dcid_len) b) (\<lambda>(dcid, b).
       bnd (get_u8 b) (\<lambda>(scid_len, b).
       if version_is_supported version \<and> MAX_CID_LEN < scid_len then Err InvalidPacket
       else bnd (get_bytes (unat scid_len) b) (\<lambda>(scid, b).
       bnd (case ty of
              Initial \<Rightarrow> bnd (get_bytes_with_varint_length b) (\<lambda>(t, b). Ok ((Some (as_ref t), None), b))
            | Retry \<Rightarrow>
                if cap b < tag_len AES128_GCM then Err InvalidPacket
                else bnd (get_bytes (cap b - tag_len AES128_GCM) b) (\<lambda>(t, b). Ok ((Some (as_ref t), None), b))
            | VersionNegotiation \<Rightarrow> bnd (get_versions b) (\<lambda>(vs, b). Ok ((None, Some vs), b))
            | _ \<Rightarrow> Ok ((None, None), b)) (\<lambda>((token, versions), b).
       Ok (\<lparr>h_ty = ty, h_version = version, h_dcid = as_ref dcid, h_scid = as_ref scid,
            h_pkt_num = 0, h_pkt_num_len = 0, h_token = token, h_versions = versions,
            h_key_phase = False, h_fec_info = fec_status_default\<rparr>, b)))))))))"

fun put_zeros :: "nat \<Rightarrow> octets \<Rightarrow> octets result" where
  "put_zeros 0 b = Ok b"
| "put_zeros (Suc n) b = bnd (put_u8 0 b) (put_zeros n)"

definition header_to_bytes :: "header \<Rightarrow> octets \<Rightarrow> octets result" where
  "header_to_bytes h out =
     (let first = of_nat (h_pkt_num_len h - 1) :: u8 in
      if h_ty h = Short then
        let first = first AND NOT FORM_BIT;
            first = first OR FIXED_BIT;
            first = (if h_key_phase h then first OR KEY_PHASE_BIT else first AND NOT KEY_PHASE_BIT);
            padding = 4 - of_nat (h_pkt_num_len h) :: u8
        in
        bnd (put_u8 first out) (\<lambda>out.
        bnd (put_bytes (h_dcid h) out) (\<lambda>out.
        bnd (put_u32 (fs_group_id (h_fec_info h)) out) (\<lambda>out.
        bnd (put_u8 (fs_index (h_fec_info h)) out) (\<lambda>out.
        bnd (put_u8 (fs_m (h_fec_info h)) out) (\<lambda>out.
        bnd (put_u8 (fs_n (h_fec_info h)) out) (\<lambda>out.
        bnd (put_u8 padding out) (\<lambda>out.
        put_zeros (unat padding) out)))))))
      else
        bnd (case h_ty h of
               Initial \<Rightarrow> Ok (0 :: u8) | ZeroRTT \<Rightarrow> Ok 1 | Handshake \<Rightarrow> Ok 2 | Retry \<Rightarrow> Ok 3
             | _ \<Rightarrow> Err InvalidPacket) (\<lambda>ty.
        let first = first OR (FORM_BIT OR FIXED_BIT OR push_bit 4 ty) in
        bnd (put_u8 first out) (\<lambda>out.
        bnd (put_u32 (h_version h) out) (\<lambda>out.
        bnd (put_u8 (of_nat (length (h_dcid h))) out) (\<lambda>out.
        bnd (put_bytes (h_dcid h) out) (\<lambda>out.
        bnd (put_u8 (of_nat (length (h_scid h))) out) (\<lambda>out.
        bnd (put_bytes (h_scid h) out) (\<lambda>out.
        case h_ty h of
          Initial \<Rightarrow>
            (case h_token h of
               Some v \<Rightarrow> bnd (put_varint (of_nat (length v)) out) (put_bytes v)
             | None \<Rightarrow> put_varint 0 out)
        | Retry \<Rightarrow> bnd (unwrap (h_token h)) (\<lambda>v. put_bytes v out)
        | _ \<Rightarrow> Ok out))))))))"

text \<open>\<open>update_fec_info\<close> writes into the part of the packet behind the connection ID.\<close>

definition update_fec_info :: "header \<Rightarrow> octets \<Rightarrow> octets result" where
  "update_fec_info h b =
     (let fec_offset = 1 + length (h_dcid h) in
      bnd (split_at fec_offset b) (\<lambda>(left, info_buf).
      bnd (put_u32 (fs_group_id (h_fec_info h)) info_buf) (\<lambda>info_buf.
      bnd (put_u8 (fs_index (h_fec_info h)) info_buf) (\<lambda>info_buf.
      bnd (put_u8 (fs_m (h_fec_info h)) info_buf) (\<lambda>info_buf.
      bnd (put_u8 (fs_n (h_fec_info h)) info_buf) (\<lambda>info_buf.
      Ok (b\<lparr>buf := buf left @ buf info_buf\<rparr>)))))))"

section \<open>Packet numbers\<close>

definition pkt_num_len :: "u64 \<Rightarrow> nat result" where
  "pkt_num_len pn =
     (if pn < 0xff then Ok 1 else if pn < 0xffff then Ok 2 else if pn < 0xffffffff then Ok 4
      else Err InvalidPacket)"

definition encode_pkt_num :: "u64 \<Rightarrow> octets \<Rightarrow> octets result" where
  "encode_pkt_num pn b =
     bnd (pkt_num_len pn) (\<lambda>len.
     if len = 1 then put_u8 (ucast pn) b
     else if len = 2 then put_u16 (ucast pn) b
     else if len = 3 then put_u24 (ucast pn) b
     else if len = 4 then put_u32 (ucast pn) b
     else Err InvalidPacket)"

definition decode_pkt_num :: "u64 \<Rightarrow> u64 \<Rightarrow> nat \<Rightarrow> u64" where
  "decode_pkt_num largest_pn truncated_pn pn_len =
     (let pn_nbits = pn_len * 8;
          expected_pn = largest_pn + 1;
          pn_win = push_bit pn_nbits 1;
          pn_hwin = pn_win div 2;
          pn_mask = pn_win - 1;
          candidate_pn = (expected_pn AND NOT pn_mask) OR truncated_pn
      in if candidate_pn + pn_hwin \<le> expected_pn \<and> candidate_pn < push_bit 62 1 - pn_win
         then candidate_pn + pn_win
         else if expected_pn + pn_hwin < candidate_pn \<and> pn_win \<le> candidate_pn
         then candidate_pn - pn_win
         else candidate_pn)"

section \<open>Protection\<close>

text \<open>\<open>for i in 0..pn_len { bytes[i] ^= mask[i + 1] }\<close>.\<close>

definition xor_mask :: "u8 list \<Rightarrow> u8 list \<Rightarrow> u8 list" where
  "xor_mask m bs = map2 (XOR) bs (take (length bs) (drop 1 m))"

definition decrypt_hdr :: "octets \<Rightarrow> header \<Rightarrow> crypto_key \<Rightarrow> (octets \<times> header) result" where
  "decrypt_hdr b h aead =
     bnd (split_at 1 b) (\<lambda>(first_buf, _).
     let first = as_ref first_buf ! 0 in
     bnd (peek_bytes (MAX_PKT_NUM_LEN + SAMPLE_LEN) b) (\<lambda>pn_and_sample.
     let ciphertext = take MAX_PKT_NUM_LEN (buf pn_and_sample);
         sample = drop MAX_PKT_NUM_LEN (buf pn_and_sample) in
     bnd (new_mask sample aead) (\<lambda>mask.
     let first = (if is_long first then first XOR (mask ! 0 AND 0x0f) else first XOR (mask ! 0 AND 0x1f));
         pn_len = unat ((first AND PKT_NUM_MASK) + 1);
         ciphertext = xor_mask mask (take pn_len ciphertext);
         b = b\<lparr>buf := take (off b) (buf b) @ ciphertext @ drop (off b + pn_len) (buf b)\<rparr> in
     bnd (if pn_len = 1 then bnd (get_u8 b) (\<lambda>(v, b). Ok (ucast v, b))
          else if pn_len = 2 then bnd (get_u16 b) (\<lambda>(v, b). Ok (ucast v, b))
          else if pn_len = 3 then bnd (get_u24 b) (\<lambda>(v, b). Ok (ucast v, b))
          else if pn_len = 4 then bnd (get_u32 b) (\<lambda>(v, b). Ok (ucast v, b))
          else Err InvalidPacket) (\<lambda>(pn, b).
     let b = b\<lparr>buf := (buf b)[0 := first]\<rparr>;
         h = h\<lparr>h_pkt_num := pn, h_pkt_num_len := pn_len\<rparr>;
         h = (if h_ty h = Short then h\<lparr>h_key_phase := (first AND KEY_PHASE_BIT \<noteq> 0)\<rparr> else h)
     in Ok (b, h)))))"

text \<open>\<open>decrypt_pkt\<close>: the plaintext and the packet buffer, opened in place.\<close>

definition decrypt_pkt :: "u64 \<Rightarrow> nat \<Rightarrow> nat \<Rightarrow> crypto_key \<Rightarrow> octets \<Rightarrow> (octets \<times> octets) result" where
  "decrypt_pkt pn pn_len payload_len aead b =
     (let payload_offset = off b in
      bnd (split_at payload_offset b) (\<lambda>(hdr, payload).
      if payload_len < pn_len then Err InvalidPacket
      else
        bnd (peek_bytes (payload_len - pn_len) payload) (\<lambda>ciphertext.
        bnd (open_with_u64_counter pn (as_ref hdr) (as_ref ciphertext) aead) (\<lambda>(plain, out).
        get_bytes plain (b\<lparr>buf := buf hdr @ out @ drop (payload_offset + (payload_len - pn_len)) (buf b)\<rparr>)))))"

definition encrypt_hdr :: "nat \<Rightarrow> u8 list \<Rightarrow> crypto_key \<Rightarrow> octets \<Rightarrow> octets result" where
  "encrypt_hdr pn_len payload aead b =
     (if 4 < pn_len \<or> length payload < 16 + (4 - pn_len) then Panic
      else
        let sample = take 16 (drop (4 - pn_len) payload) in
        bnd (new_mask sample aead) (\<lambda>mask.
        bnd (split_at 1 b) (\<lambda>(first, rest).
        let f = buf first ! 0;
            f = (if is_long f then f XOR (mask ! 0 AND 0x0f) else f XOR (mask ! 0 AND 0x1f)) in
        bnd (slice_last pn_len rest) (\<lambda>pn_buf.
        Ok (b\<lparr>buf := f # take (length (buf rest) - pn_len) (buf rest) @ xor_mask mask pn_buf\<rparr>)))))"

definition encrypt_pkt :: "u64 \<Rightarrow> nat \<Rightarrow> nat \<Rightarrow> nat \<Rightarrow> crypto_key \<Rightarrow> octets \<Rightarrow> (nat \<times> octets) result" where
  "encrypt_pkt pn pn_len payload_len payload_offset aead b =
     bnd (split_at payload_offset b) (\<lambda>(hdr, payload).
     bnd (slice payload_len payload) (\<lambda>plaintext.
     bnd (seal_with_u64_counter pn (as_ref hdr) plaintext aead) (\<lambda>ciphertext.
     bnd (encrypt_hdr pn_len ciphertext aead hdr) (\<lambda>hdr.
     Ok (payload_offset + payload_len,
         b\<lparr>buf := buf hdr @ ciphertext @ drop (payload_offset + payload_len) (buf b)\<rparr>)))))"

section \<open>Version negotiation and retry packets\<close>

text \<open>The number of bytes written, and the output buffer.\<close>

definition negotiate_version :: "u8 \<Rightarrow> u8 list \<Rightarrow> u8 list \<Rightarrow> u8 list \<Rightarrow> (nat \<times> u8 list) result" where
  "negotiate_version rand_u8 scid dcid out =
     (let b = with_slice out; first = rand_u8 OR FORM_BIT in
      bnd (put_u8 first b) (\<lambda>b.
      bnd (put_u32 0 b) (\<lambda>b.
      bnd (put_u8 (of_nat (length scid)) b) (\<lambda>b.
      bnd (put_bytes scid b) (\<lambda>b.
      bnd (put_u8 (of_nat (length dcid)) b) (\<lambda>b.
      bnd (put_bytes dcid b) (\<lambda>b.
      bnd (put_u32 PROTOCOL_VERSION b) (\<lambda>b.
      bnd (put_u32 PROTOCOL_VERSION_DRAFT24 b) (\<lambda>b.
      bnd (put_u32 PROTOCOL_VERSION_DRAFT23 b) (\<lambda>b.
      Ok (off b, buf b)))))))))))"

text \<open>The pseudo-packet that a retry's tag authenticates; \<open>tag\<close> is the sealing of an empty message
  with it as associated data under the fixed key and nonce, 16 bytes.\<close>

definition retry_pseudo :: "octets \<Rightarrow> u8 list \<Rightarrow> u8 list result" where
  "retry_pseudo b odcid =
     (let hdr_len = off b; pb = with_slice (replicate (1 + length odcid + hdr_len) 0) in
      bnd (put_u8 (of_nat (length odcid)) pb) (\<lambda>pb.
      bnd (put_bytes odcid pb) (\<lambda>pb.
      bnd (put_bytes (take hdr_len (buf b)) pb) (\<lambda>pb. Ok (buf pb)))))"

definition compute_retry_integrity_tag :: "(u8 list \<Rightarrow> u8 list option) \<Rightarrow> octets \<Rightarrow> u8 list \<Rightarrow> u8 list result" where
  "compute_retry_integrity_tag tag b odcid =
     bnd (retry_pseudo b odcid) (\<lambda>pseudo. ok_or CryptoFail (tag pseudo))"

definition retry :: "(u8 list \<Rightarrow> u8 list option) \<Rightarrow> u8 list \<Rightarrow> u8 list \<Rightarrow> u8 list \<Rightarrow> u8 list \<Rightarrow> u8 list
    \<Rightarrow> (nat \<times> u8 list) result" where
  "retry tag scid dcid new_scid token out =
     (let b = with_slice out;
          hdr = \<lparr>h_ty = Retry, h_version = PROTOCOL_VERSION, h_dcid = scid, h_scid = new_scid,
                 h_pkt_num = 0, h_pkt_num_len = 0, h_token = Some token, h_versions = None,
                 h_key_phase = False, h_fec_info = fec_status_default\<rparr> in
      bnd (header_to_bytes hdr b) (\<lambda>b.
      bnd (compute_retry_integrity_tag tag b dcid) (\<lambda>t.
      bnd (put_bytes t b) (\<lambda>b. Ok (off b, buf b)))))"

definition verify_retry_integrity :: "(u8 list \<Rightarrow> u8 list option) \<Rightarrow> octets \<Rightarrow> u8 list \<Rightarrow> unit result" where
  "verify_retry_integrity tag b odcid =
     bnd (compute_retry_integrity_tag tag b odcid) (\<lambda>t.
     if length (as_ref b) < tag_len AES128_GCM then Panic
     else if take (tag_len AES128_GCM) (as_ref b) = t then Ok () else Err CryptoFail)"

section \<open>The window of received packet numbers\<close>

record pkt_num_window =
  pw_lower :: u64
  pw_window :: u128

definition pw_default :: pkt_num_window where
  "pw_default = \<lparr>pw_lower = 0, pw_window = 0\<rparr>"

definition pw_upper :: "pkt_num_window \<Rightarrow> u64" where
  "pw_upper w = sat_add64 (pw_lower w) (16 * 8) - 1"

definition pw_insert :: "u64 \<Rightarrow> pkt_num_window \<Rightarrow> pkt_num_window" where
  "pw_insert seq w =
     (if seq < pw_lower w then w
      else
        let w = (if pw_upper w < seq then
                   let diff = seq - pw_upper w; shift = unat (ucast diff :: u32) in
                   w\<lparr>pw_lower := pw_lower w + diff,
                     pw_window := (if shift < 128 then push_bit shift (pw_window w) else 0)\<rparr>
                 else w);
            mask = push_bit (unat (pw_upper w - seq)) 1
        in w\<lparr>pw_window := pw_window w OR mask\<rparr>)"

definition pw_contains :: "u64 \<Rightarrow> pkt_num_window \<Rightarrow> bool" where
  "pw_contains seq w =
     (if pw_upper w < seq then False
      else if seq < pw_lower w then True
      else pw_window w AND push_bit (unat (pw_upper w - seq)) 1 \<noteq> 0)"

section \<open>The window\<close>

lemma and_exp_iff: "(w :: u128) AND 2 ^ n = 0 \<longleftrightarrow> \<not> bit w n"
  using bit_iff_and_push_bit_not_eq_0 [of w n] by (simp add: push_bit_of_1)

definition pw_ok :: "pkt_num_window \<Rightarrow> bool" where
  "pw_ok w \<longleftrightarrow> unat (pw_lower w) < 2 ^ 62"

lemma unat_pw_upper: "pw_ok w \<Longrightarrow> unat (pw_upper w) = unat (pw_lower w) + 127"
proof -
  assume "pw_ok w"
  then have s: "unat (sat_add64 (pw_lower w) 128) = unat (pw_lower w) + 128"
    by (simp add: pw_ok_def unat_sat_add64)
  then have "sat_add64 (pw_lower w) 128 \<noteq> 0" by (metis add_is_0 unat_0 zero_neq_numeral)
  then show ?thesis using s by (simp add: pw_upper_def unat_minus_one)
qed

lemma pw_contains_eq:
  assumes "pw_ok w"
  shows "pw_contains x w \<longleftrightarrow> unat x < unat (pw_lower w)
     \<or> (unat x \<le> unat (pw_lower w) + 127 \<and> bit (pw_window w) (unat (pw_lower w) + 127 - unat x))"
proof -
  note u = unat_pw_upper [OF assms]
  have "unat (pw_upper w - x) = unat (pw_lower w) + 127 - unat x" if "\<not> pw_upper w < x"
    using that by (simp add: unat_sub64 not_less u)
  then show ?thesis
    by (auto simp: pw_contains_def and_exp_iff word_less_nat_alt u)
qed

text \<open>The state after the window has moved to \<open>seq\<close>, and the marking of \<open>seq\<close> in it.\<close>

lemma pw_insert_eq:
  assumes "pw_ok w" "unat seq < 2 ^ 62" "unat seq < unat (pw_lower w) + 127 + 2 ^ 32"
  shows "pw_insert seq w =
    (if unat seq < unat (pw_lower w) then w
     else if unat seq \<le> unat (pw_lower w) + 127
     then w\<lparr>pw_window := pw_window w OR 2 ^ (unat (pw_lower w) + 127 - unat seq)\<rparr>
     else \<lparr>pw_lower = seq - 127,
           pw_window = push_bit (unat seq - (unat (pw_lower w) + 127)) (pw_window w) OR 1\<rparr>)"
proof -
  note u = unat_pw_upper [OF assms(1)]
  consider "unat seq < unat (pw_lower w)" | "unat (pw_lower w) \<le> unat seq" "unat seq \<le> unat (pw_lower w) + 127"
    | "unat (pw_lower w) + 127 < unat seq" by linarith
  then show ?thesis
  proof cases
    case 1
    then show ?thesis by (simp add: pw_insert_def word_less_nat_alt)
  next
    case 2
    then have "unat (pw_upper w - seq) = unat (pw_lower w) + 127 - unat seq"
      by (simp add: unat_sub64 word_le_nat_alt u)
    with 2 show ?thesis by (simp add: pw_insert_def word_less_nat_alt u)
  next
    case 3
    let ?d = "seq - pw_upper w" and ?n = "unat seq - (unat (pw_lower w) + 127)"
    have d: "unat ?d = ?n" using 3 by (simp add: unat_sub64 word_le_nat_alt u)
    then have sh: "unat (ucast ?d :: u32) = ?n"
      using assms(3) 3 by (simp add: unsigned_ucast_eq take_bit_eq_mod)
    have low: "pw_lower w + ?d = seq - 127"
    proof -
      have "unat (pw_lower w + ?d) = unat (pw_lower w) + ?n"
        using d 3 assms(2) by (simp add: unat_add64_less)
      moreover have "unat (seq - 127) = unat seq - 127" using 3 by (simp add: unat_sub64 word_le_nat_alt)
      ultimately show ?thesis using 3 by (simp add: u64_eq_iff)
    qed
    define w' where "w' = \<lparr>pw_lower = seq - 127, pw_window = (if ?n < 128 then push_bit ?n (pw_window w) else 0)\<rparr>"
    have low': "unat (pw_lower w') = unat seq - 127" using 3 by (simp add: w'_def unat_sub64 word_le_nat_alt)
    then have "pw_ok w'" using assms(2) by (simp add: pw_ok_def)
    then have "unat (pw_upper w') = unat seq" using low' 3 by (simp add: unat_pw_upper)
    then have up: "pw_upper w' = seq" by (simp add: u64_eq_iff)
    have win: "pw_window w' = push_bit ?n (pw_window w)"
    proof (cases "?n < 128")
      case False
      then have "push_bit ?n (pw_window w) = 0"
        by (intro bit_eqI) (auto simp: bit_push_bit_iff dest: bit_imp_le_length)
      with False show ?thesis by (simp add: w'_def)
    qed (simp add: w'_def)
    have "pw_insert seq w = w'\<lparr>pw_window := pw_window w' OR 2 ^ unat (pw_upper w' - seq)\<rparr>"
    proof -
      have "w\<lparr>pw_lower := pw_lower w + ?d, pw_window := (if ?n < 128 then push_bit ?n (pw_window w) else 0)\<rparr> = w'"
        by (simp add: w'_def low)
      moreover have "\<not> seq < pw_lower w" "pw_upper w < seq" using 3 by (simp_all add: word_less_nat_alt u)
      ultimately show ?thesis by (simp only: pw_insert_def if_False if_True Let_def sh push_bit_of_1)
    qed
    with 3 up win show ?thesis by (simp add: w'_def)
  qed
qed

lemma pw_insert_contains:
  assumes "pw_ok w" "unat seq < 2 ^ 62" "unat seq < unat (pw_lower w) + 127 + 2 ^ 32"
  shows "pw_ok (pw_insert seq w)
    \<and> (pw_contains x (pw_insert seq w) \<longleftrightarrow> x = seq \<or> pw_contains x w \<or> unat x + 127 < unat seq)"
proof -
  note ins = pw_insert_eq [OF assms]
  consider "unat seq < unat (pw_lower w)" | "unat (pw_lower w) \<le> unat seq" "unat seq \<le> unat (pw_lower w) + 127"
    | "unat (pw_lower w) + 127 < unat seq" by linarith
  then show ?thesis
  proof cases
    case 1
    then show ?thesis using assms(1) by (auto simp: ins pw_contains_eq)
  next
    case 2
    let ?w = "w\<lparr>pw_window := pw_window w OR 2 ^ (unat (pw_lower w) + 127 - unat seq)\<rparr>"
    have ok: "pw_ok ?w" using assms(1) by (simp add: pw_ok_def)
    have "pw_contains x ?w \<longleftrightarrow> unat x < unat (pw_lower w) \<or> unat x \<le> unat (pw_lower w) + 127 \<and>
        (bit (pw_window w) (unat (pw_lower w) + 127 - unat x)
         \<or> unat (pw_lower w) + 127 - unat x = unat (pw_lower w) + 127 - unat seq)"
      using 2 by (auto simp: pw_contains_eq [OF ok] bit_or_iff bit_push_bit_iff bit_1_iff bit_exp_iff)
    moreover have "x = seq \<longleftrightarrow> unat x = unat seq" by (rule u64_eq_iff)
    ultimately have "pw_contains x ?w \<longleftrightarrow> x = seq \<or> pw_contains x w \<or> unat x + 127 < unat seq"
      using 2 by (auto simp: pw_contains_eq [OF assms(1)])
    with 2 ok show ?thesis by (simp add: ins)
  next
    case 3
    let ?n = "unat seq - (unat (pw_lower w) + 127)"
    let ?w = "\<lparr>pw_lower = seq - 127, pw_window = push_bit ?n (pw_window w) OR 1\<rparr>"
    have low: "unat (seq - 127) = unat seq - 127" using 3 by (simp add: unat_sub64 word_le_nat_alt)
    have ok: "pw_ok ?w" using assms(2) low by (simp add: pw_ok_def)
    have "pw_contains x ?w \<longleftrightarrow> unat x < unat seq - 127 \<or> unat x \<le> unat seq \<and>
        (?n \<le> unat seq - unat x \<and> unat seq - unat x < 128 \<and> bit (pw_window w) (unat seq - unat x - ?n)
         \<or> unat seq - unat x = 0)"
      using 3 low by (auto simp: pw_contains_eq [OF ok] bit_or_iff bit_push_bit_iff bit_1_iff bit_exp_iff)
    moreover have "x = seq \<longleftrightarrow> unat x = unat seq" by (rule u64_eq_iff)
    moreover have "unat seq - unat x - ?n = unat (pw_lower w) + 127 - unat x" using 3 by simp
    ultimately have "pw_contains x ?w \<longleftrightarrow> x = seq \<or> pw_contains x w \<or> unat x + 127 < unat seq"
      using 3 by (auto simp: pw_contains_eq [OF assms(1)])
    with 3 ok show ?thesis by (simp add: ins)
  qed
qed

section \<open>Decoding packet numbers\<close>

lemma window_split:
  assumes "win = 2 * hwin" "0 < hwin" "e < pn + hwin" "pn \<le> e + (hwin :: nat)"
  shows "let cand = e - e mod win + pn mod win in
     (pn = cand \<or> pn = cand + win \<or> cand = pn + win)"
proof -
  let ?q = "e div win" and ?p = "pn div win"
  have w: "0 < win" using assms by simp
  have e: "e = ?q * win + e mod win" "e mod win < win" by (simp, simp add: w)
  have p: "pn = ?p * win + pn mod win" "pn mod win < win" by (simp, simp add: w)
  have two: "(x + 2) * win = x * win + 2 * win" for x by (rule add_mult_distrib)
  have "?p * win < (?q + 2) * win" unfolding two using e p assms by linarith
  then have "?p < ?q + 2" by (simp only: mult_less_cancel2)
  moreover have "?q * win < (?p + 2) * win" unfolding two using e p assms by linarith
  then have "?q < ?p + 2" by (simp only: mult_less_cancel2)
  ultimately have "?p = ?q \<or> ?p = ?q + 1 \<or> ?q = ?p + 1" by linarith
  moreover have eq: "e - e mod win = ?q * win" using e by linarith
  moreover have one: "(x + 1) * win = x * win + win" for x by simp
  ultimately have "?p * win = ?q * win \<or> ?p * win = ?q * win + win \<or> ?q * win = ?p * win + win"
    by (metis one)
  then show ?thesis unfolding Let_def eq using p by linarith
qed

lemma unat_candidate:
  assumes "k \<in> {8, 16, 24, 32}" "unat t < 2 ^ k"
  shows "unat ((e AND NOT (2 ^ k - 1)) OR t :: u64) = unat e - unat e mod 2 ^ k + unat t"
proof -
  have m: "(2 ^ k - 1 :: u64) = mask k" by (simp add: mask_eq_decr_exp)
  have t: "t = take_bit k t"
    using assms by (simp add: word_unat_eq_iff unsigned_take_bit_eq take_bit_nat_eq_self)
  have e: "e = (e AND NOT (mask k)) OR take_bit k e"
    by (rule bit_eqI) (auto simp: bit_simps)
  have add: "(e AND NOT (mask k)) OR take_bit k x = (e AND NOT (mask k)) + take_bit k x" for x
    by (rule disjunctive_add_eq_or [symmetric]) (rule bit_eqI, auto simp: bit_simps)
  have tk: "unat (take_bit k e) = unat e mod 2 ^ k"
    by (simp only: unsigned_take_bit_eq) (simp add: take_bit_eq_mod)
  have "(e AND NOT (mask k)) + take_bit k e = e" using e add [of e] by metis
  then have "e AND NOT (mask k) = e - take_bit k e" by (metis add_diff_cancel_right')
  moreover have "unat (take_bit k e) \<le> unat e" unfolding tk by simp
  ultimately have high: "unat (e AND NOT (mask k)) = unat e - unat e mod 2 ^ k"
    by (simp add: unat_sub64 word_le_nat_alt tk)
  have "unat e - unat e mod 2 ^ k + unat t < 2 ^ 64"
  proof -
    have "unat e - unat e mod 2 ^ k = 2 ^ k * (unat e div 2 ^ k)"
      by (metis minus_mod_eq_mult_div)
    moreover have "unat e div 2 ^ k < 2 ^ (64 - k)"
      using unat_u64 [of e] assms(1) by (auto simp: less_mult_imp_div_less)
    then have "2 ^ k * (unat e div 2 ^ k + 1) \<le> 2 ^ k * 2 ^ (64 - k)" by (intro mult_le_mono2) simp
    moreover have "(2 :: nat) ^ k * 2 ^ (64 - k) = 2 ^ 64" using assms(1) by auto
    ultimately show ?thesis using assms(2) by (simp add: algebra_simps)
  qed
  then show ?thesis
    unfolding m using add [of t] t high by (simp add: unat_add64_less)
qed

lemma decode_pkt_num_correct:
  assumes "len \<in> {1, 2, 3, 4}" "unat pn < 2 ^ 62" "unat largest < 2 ^ 62"
    "unat largest + 1 < unat pn + 2 ^ (len * 8 - 1)" "unat pn \<le> unat largest + 1 + 2 ^ (len * 8 - 1)"
  shows "decode_pkt_num largest (of_nat (unat pn mod 2 ^ (len * 8))) len = pn"
proof -
  let ?k = "len * 8" and ?e = "unat largest + 1"
  define hw :: nat where "hw = 2 ^ (?k - 1)"
  define cand where "cand = (((largest + 1) AND NOT (2 ^ ?k - 1)) OR of_nat (unat pn mod 2 ^ ?k) :: u64)"
  have k: "?k \<in> {8, 16, 24, 32}" using assms(1) by auto
  have win: "(2::nat) ^ ?k = 2 * hw" "0 < hw" "hw \<le> 2 ^ 31" using k by (auto simp: hw_def)
  have e: "unat (largest + 1) = ?e" using assms(3) by (simp add: unat_add64_less)
  have tr: "unat (of_nat (unat pn mod 2 ^ ?k) :: u64) = unat pn mod 2 ^ ?k"
  proof -
    have "unat pn mod 2 ^ ?k < 2 ^ 64" using assms(2) by (simp add: order_le_less_trans [OF mod_less_eq_dividend])
    then show ?thesis by (rule unat_of_nat64)
  qed
  have c: "unat cand = ?e - ?e mod (2 * hw) + unat pn mod (2 * hw)"
    using unat_candidate [OF k, of "of_nat (unat pn mod 2 ^ ?k)" "largest + 1"] win tr e
    by (simp add: cand_def)
  have cases: "unat pn = unat cand \<or> unat pn = unat cand + 2 * hw \<or> unat cand = unat pn + 2 * hw"
    using window_split [of "2 * hw" hw ?e "unat pn"] assms(4,5) win c by (simp add: hw_def Let_def)
  have pw: "unat (2 ^ ?k :: u64) = 2 * hw" "unat (2 ^ ?k div 2 :: u64) = hw" "unat (2 ^ 62 - 2 ^ ?k :: u64) = 2 ^ 62 - 2 * hw"
    using assms(1) by (auto simp: hw_def)
  have c62: "unat cand < 2 ^ 62 + 2 ^ 33" using cases assms(2) win by auto
  have d: "decode_pkt_num largest (of_nat (unat pn mod 2 ^ ?k)) len =
     (if unat cand + hw \<le> ?e \<and> unat cand < 2 ^ 62 - 2 * hw then cand + 2 ^ ?k
      else if ?e + hw < unat cand \<and> 2 * hw \<le> unat cand then cand - 2 ^ ?k else cand)"
  proof -
    have "unat (cand + 2 ^ ?k div 2) = unat cand + hw" "unat (largest + 1 + 2 ^ ?k div 2) = ?e + hw"
    proof -
      have "unat cand + hw < 2 ^ 64" "?e + hw < 2 ^ 64" using c62 win(3) assms(3) by simp_all
      then show "unat (cand + 2 ^ ?k div 2) = unat cand + hw" "unat (largest + 1 + 2 ^ ?k div 2) = ?e + hw"
        using unat_add64_less [of cand "2 ^ ?k div 2"] unat_add64_less [of "largest + 1" "2 ^ ?k div 2"]
        unfolding pw e by blast+
    qed
    then show ?thesis
      by (simp only: decode_pkt_num_def Let_def push_bit_of_1 cand_def [symmetric]
          word_le_nat_alt word_less_nat_alt pw e)
  qed
  show ?thesis
    using cases
  proof (elim disjE)
    assume "unat pn = unat cand"
    with assms(4,5) win show ?thesis unfolding d by (auto simp: hw_def u64_eq_iff)
  next
    assume pn: "unat pn = unat cand + 2 * hw"
    have "unat (cand + 2 ^ ?k) = unat pn" using pn pw(1) assms(2) by (simp add: unat_add64_less)
    with pn assms(2,5) show ?thesis unfolding d by (auto simp: hw_def u64_eq_iff)
  next
    assume pn: "unat cand = unat pn + 2 * hw"
    have "unat (cand - 2 ^ ?k) = unat pn" using pn pw(1) by (simp add: unat_sub64 word_le_nat_alt)
    with pn assms(4) show ?thesis unfolding d by (auto simp: hw_def u64_eq_iff)
  qed
qed

section \<open>Headers on the wire\<close>

text \<open>The layout of a header: a first byte, then for a short header the connection ID, the FEC fields
  and padding up to the length of a four-byte packet number; for a long header the version, the
  two connection IDs behind their lengths, and the token.\<close>

definition short_first :: "header \<Rightarrow> u8" where
  "short_first h =
     (let f = ((of_nat (h_pkt_num_len h - 1)) AND NOT FORM_BIT) OR FIXED_BIT
      in if h_key_phase h then f OR KEY_PHASE_BIT else f AND NOT KEY_PHASE_BIT)"

definition long_first :: "u8 \<Rightarrow> header \<Rightarrow> u8" where
  "long_first ty h = of_nat (h_pkt_num_len h - 1) OR (FORM_BIT OR FIXED_BIT OR push_bit 4 ty)"

fun type_code :: "ptype \<Rightarrow> u8" where
  "type_code Initial = 0"
| "type_code ZeroRTT = 1"
| "type_code Handshake = 2"
| "type_code Retry = 3"
| "type_code _ = 0"

definition token_of :: "header \<Rightarrow> u8 list" where
  "token_of h = (case h_token h of Some t \<Rightarrow> t | None \<Rightarrow> [])"

definition short_padding :: "header \<Rightarrow> u8" where
  "short_padding h = 4 - of_nat (h_pkt_num_len h)"

definition token_enc :: "header \<Rightarrow> u8 list" where
  "token_enc h = (if h_ty h = Initial then bytes_enc (token_of h)
                  else if h_ty h = Retry then token_of h else [])"

definition header_enc :: "header \<Rightarrow> u8 list" where
  "header_enc h =
     (if h_ty h = Short
      then be_enc 1 (short_first h) @ h_dcid h @ be_enc 4 (fs_group_id (h_fec_info h))
        @ be_enc 1 (fs_index (h_fec_info h)) @ be_enc 1 (fs_m (h_fec_info h)) @ be_enc 1 (fs_n (h_fec_info h))
        @ be_enc 1 (short_padding h) @ replicate (unat (short_padding h)) 0
      else be_enc 1 (long_first (type_code (h_ty h)) h) @ be_enc 4 (h_version h)
        @ be_enc 1 (of_nat (length (h_dcid h)) :: u8) @ h_dcid h
        @ be_enc 1 (of_nat (length (h_scid h)) :: u8) @ h_scid h @ token_enc h)"

definition header_ok :: "header \<Rightarrow> bool" where
  "header_ok h \<longleftrightarrow> h_ty h \<noteq> VersionNegotiation \<and> (h_ty h = Retry \<longrightarrow> h_token h \<noteq> None)
     \<and> length (token_of h) < 2 ^ 62"

lemma writes_zeros [wire]: "writes (replicate n 0) (put_zeros n)"
proof (induction n)
  case 0
  then show ?case by (simp add: writes_def)
next
  case (Suc n)
  from writes_bnd [OF writes_u8 [of 0] Suc, unfolded be_enc_u8]
  show ?case by simp
qed

lemma writes_token:
  assumes "length xs < 2 ^ 62"
  shows "writes (bytes_enc xs) (\<lambda>b. bnd (put_varint (of_nat (length xs)) b) (put_bytes xs))"
proof -
  have "varint_ok (of_nat (length xs))" using assms by (simp add: varint_ok_def unat_of_nat64)
  then show ?thesis unfolding bytes_enc_def by (intro wire)
qed

lemma writes_header: "header_ok h \<Longrightarrow> writes (header_enc h) (header_to_bytes h)"
proof -
  assume ok: "header_ok h"
  show ?thesis
  proof (cases "h_ty h = Short")
    case True
    have "writes (header_enc h) (\<lambda>out. bnd (put_u8 (short_first h) out) (\<lambda>out.
        bnd (put_bytes (h_dcid h) out) (\<lambda>out.
        bnd (put_u32 (fs_group_id (h_fec_info h)) out) (\<lambda>out.
        bnd (put_u8 (fs_index (h_fec_info h)) out) (\<lambda>out.
        bnd (put_u8 (fs_m (h_fec_info h)) out) (\<lambda>out.
        bnd (put_u8 (fs_n (h_fec_info h)) out) (\<lambda>out.
        bnd (put_u8 (short_padding h) out) (\<lambda>out.
        put_zeros (unat (short_padding h)) out))))))))"
      unfolding header_enc_def if_P [OF True] by (intro wire)
    moreover have "header_to_bytes h = (\<lambda>out. bnd (put_u8 (short_first h) out) (\<lambda>out.
        bnd (put_bytes (h_dcid h) out) (\<lambda>out.
        bnd (put_u32 (fs_group_id (h_fec_info h)) out) (\<lambda>out.
        bnd (put_u8 (fs_index (h_fec_info h)) out) (\<lambda>out.
        bnd (put_u8 (fs_m (h_fec_info h)) out) (\<lambda>out.
        bnd (put_u8 (fs_n (h_fec_info h)) out) (\<lambda>out.
        bnd (put_u8 (short_padding h) out) (\<lambda>out.
        put_zeros (unat (short_padding h)) out))))))))"
      using True by (simp add: header_to_bytes_def short_first_def short_padding_def Let_def fun_eq_iff)
    ultimately show ?thesis by simp
  next
    case False
    define tok where "tok = (\<lambda>out. case h_ty h of
          Initial \<Rightarrow>
            (case h_token h of
               Some v \<Rightarrow> bnd (put_varint (of_nat (length v)) out) (put_bytes v)
             | None \<Rightarrow> put_varint 0 out)
        | Retry \<Rightarrow> bnd (unwrap (h_token h)) (\<lambda>v. put_bytes v out)
        | _ \<Rightarrow> Ok out)"
    have tok: "writes (token_enc h) tok"
    proof (cases "h_ty h = Initial")
      case i: True
      show ?thesis
      proof (cases "h_token h")
        case None
        have "writes (varint_enc 0) (put_varint 0)" by (intro wire) (simp add: varint_ok_def)
        with i None show ?thesis
          by (simp add: token_enc_def tok_def token_of_def bytes_enc_def)
      next
        case (Some v)
        with ok have "length v < 2 ^ 62" by (simp add: header_ok_def token_of_def)
        from writes_token [OF this] i Some show ?thesis
          by (simp add: token_enc_def tok_def token_of_def)
      qed
    next
      case ni: False
      show ?thesis
      proof (cases "h_ty h = Retry")
        case True
        with ok obtain v where "h_token h = Some v" by (auto simp: header_ok_def)
        with True writes_bytes [of v] show ?thesis by (simp add: token_enc_def tok_def token_of_def)
      next
        case nr: False
        with ni have "tok = Ok" by (auto simp: tok_def split: ptype.split)
        with ni nr show ?thesis by (simp add: token_enc_def writes_Ok)
      qed
    qed
    have "writes (header_enc h) (\<lambda>out. bnd (put_u8 (long_first (type_code (h_ty h)) h) out) (\<lambda>out.
        bnd (put_u32 (h_version h) out) (\<lambda>out.
        bnd (put_u8 (of_nat (length (h_dcid h))) out) (\<lambda>out.
        bnd (put_bytes (h_dcid h) out) (\<lambda>out.
        bnd (put_u8 (of_nat (length (h_scid h))) out) (\<lambda>out.
        bnd (put_bytes (h_scid h) out) tok))))))"
      unfolding header_enc_def if_not_P [OF False] by (intro wire tok)
    moreover have "header_to_bytes h = (\<lambda>out. bnd (put_u8 (long_first (type_code (h_ty h)) h) out) (\<lambda>out.
        bnd (put_u32 (h_version h) out) (\<lambda>out.
        bnd (put_u8 (of_nat (length (h_dcid h))) out) (\<lambda>out.
        bnd (put_bytes (h_dcid h) out) (\<lambda>out.
        bnd (put_u8 (of_nat (length (h_scid h))) out) (\<lambda>out.
        bnd (put_bytes (h_scid h) out) tok))))))"
      using False ok
      by (cases "h_ty h") (simp_all add: header_to_bytes_def long_first_def tok_def Let_def fun_eq_iff header_ok_def)
    ultimately show ?thesis by simp
  qed
qed

lemma reads_skip [wire]: "reads (replicate n x) v (\<lambda>b. bnd (skip_u8 n b) (\<lambda>b. Ok (v, b)))"
proof (induction n)
  case 0
  then show ?case by (simp add: reads_def)
next
  case (Suc n)
  from reads_bnd [OF reads_u8 [of x], of _ _ "\<lambda>_ b. bnd (skip_u8 n b) (\<lambda>b. Ok (v, b))", OF Suc, unfolded be_enc_u8]
  show ?case by (simp add: bnd_assoc case_prod_beta')
qed

text \<open>What the parser returns for a header: the fields under header protection are not read.\<close>

definition header_view :: "header \<Rightarrow> header" where
  "header_view h =
     (if h_ty h = Short
      then h\<lparr>h_version := 0, h_scid := [], h_pkt_num := 0, h_pkt_num_len := 0, h_token := None,
             h_versions := None, h_key_phase := False\<rparr>
      else h\<lparr>h_pkt_num := 0, h_pkt_num_len := 0,
             h_token := (if h_ty h = Initial then Some (token_of h) else None),
             h_versions := None, h_key_phase := False, h_fec_info := fec_status_default\<rparr>)"

lemma small_cases: "(n :: nat) \<le> 4 \<Longrightarrow> n - 1 \<in> {0, 1, 2, 3}"
  by auto

lemma not_long_short_first: "h_pkt_num_len h \<le> 4 \<Longrightarrow> \<not> is_long (short_first h)"
  using small_cases [of "h_pkt_num_len h"]
  by (auto simp: is_long_def short_first_def FORM_BIT_def FIXED_BIT_def KEY_PHASE_BIT_def Let_def)

lemma long_long_first: "h_pkt_num_len h \<le> 4 \<Longrightarrow> is_long (long_first (type_code ty) h)"
  using small_cases [of "h_pkt_num_len h"]
  by (cases ty) (auto simp: is_long_def long_first_def FORM_BIT_def FIXED_BIT_def)

lemma type_long_first:
  "h_pkt_num_len h \<le> 4 \<Longrightarrow> drop_bit 4 (long_first (type_code ty) h AND TYPE_MASK) = type_code ty"
  using small_cases [of "h_pkt_num_len h"]
  by (cases ty) (auto simp: TYPE_MASK_def long_first_def FORM_BIT_def FIXED_BIT_def)

definition header_readable :: "header \<Rightarrow> bool" where
  "header_readable h \<longleftrightarrow> h_ty h \<in> {Short, Initial, ZeroRTT, Handshake} \<and> h_pkt_num_len h \<le> 4
     \<and> length (token_of h) < 2 ^ 62
     \<and> (h_ty h \<noteq> Short \<longrightarrow> h_version h \<noteq> 0 \<and> length (h_dcid h) \<le> 20 \<and> length (h_scid h) \<le> 20)"

lemma cid_len: "length xs \<le> 20 \<Longrightarrow> unat (of_nat (length xs) :: u8) = length xs"
  by (simp add: unat_of_nat)

lemma cid_small: "length xs \<le> 20 \<Longrightarrow> \<not> MAX_CID_LEN < of_nat (length xs)"
  by (simp add: MAX_CID_LEN_def word_less_nat_alt unat_of_nat)

lemma reads_short:
  assumes "h_ty h = Short" "h_pkt_num_len h \<le> 4"
  shows "reads (header_enc h) (header_view h) (header_from_bytes (length (h_dcid h)))"
proof -
  have view: "header_view h = \<lparr>h_ty = Short, h_version = 0, h_dcid = as_ref (with_slice (h_dcid h)), h_scid = [],
       h_pkt_num = 0, h_pkt_num_len = 0, h_token = None, h_versions = None, h_key_phase = False,
       h_fec_info = \<lparr>fs_m = fs_m (h_fec_info h), fs_n = fs_n (h_fec_info h),
         fs_group_id = fs_group_id (h_fec_info h), fs_index = fs_index (h_fec_info h)\<rparr>\<rparr>"
    using assms(1) by (cases h) (simp add: header_view_def)
  note first = not_long_short_first [OF assms(2)]
  show ?thesis
    unfolding header_enc_def if_P [OF assms(1)] header_from_bytes_def [abs_def] view
    by (rule reads_bnd, rule reads_u8, simp only: first not_False_eq_True if_True,
        (rule reads_bnd reads_u8 reads_u32 reads_bytes reads_skip refl)+)
qed

lemma reads_token:
  assumes "h_ty h \<in> {Initial, ZeroRTT, Handshake}" "length (token_of h) < 2 ^ 62"
  shows "reads (token_enc h) (if h_ty h = Initial then Some (token_of h) else None, None)
     (\<lambda>b. case h_ty h of
              Initial \<Rightarrow> bnd (get_bytes_with_varint_length b) (\<lambda>(t, b). Ok ((Some (as_ref t), None), b))
            | Retry \<Rightarrow>
                if cap b < tag_len AES128_GCM then Err InvalidPacket
                else bnd (get_bytes (cap b - tag_len AES128_GCM) b) (\<lambda>(t, b). Ok ((Some (as_ref t), None), b))
            | VersionNegotiation \<Rightarrow> bnd (get_versions b) (\<lambda>(vs, b). Ok ((None, Some vs), b))
            | _ \<Rightarrow> Ok ((None, None), b))"
proof (cases "h_ty h = Initial")
  case True
  have "reads (bytes_enc (token_of h) @ []) (Some (as_ref (with_slice (token_of h))), None)
     (\<lambda>b. bnd (get_bytes_with_varint_length b) (\<lambda>(t, b). Ok ((Some (as_ref t), None), b)))"
    by (rule reads_bnd [OF reads_bytes_varint [OF assms(2)] reads_Ok])
  with True show ?thesis by (simp add: token_enc_def)
next
  case False
  with assms(1) show ?thesis
    by (auto simp: token_enc_def reads_def)
qed

lemma reads_header:
  assumes "header_readable h"
  shows "reads (header_enc h) (header_view h) (header_from_bytes (length (h_dcid h)))"
proof (cases "h_ty h = Short")
  case True
  with assms show ?thesis by (intro reads_short) (simp_all add: header_readable_def)
next
  case False
  with assms have ty: "h_ty h \<in> {Initial, ZeroRTT, Handshake}" and len: "h_pkt_num_len h \<le> 4"
    and token: "length (token_of h) < 2 ^ 62" and version: "h_version h \<noteq> 0"
    and cid: "length (h_dcid h) \<le> 20" "length (h_scid h) \<le> 20"
    by (auto simp: header_readable_def)
  have view: "header_view h = \<lparr>h_ty = h_ty h, h_version = h_version h, h_dcid = as_ref (with_slice (h_dcid h)),
       h_scid = as_ref (with_slice (h_scid h)), h_pkt_num = 0, h_pkt_num_len = 0,
       h_token = (if h_ty h = Initial then Some (token_of h) else None), h_versions = None, h_key_phase = False,
       h_fec_info = fec_status_default\<rparr>"
    using False by (cases h) (simp add: header_view_def)
  note first = long_long_first [OF len, of "h_ty h"]
  have type: "(if h_version h = 0 then Ok VersionNegotiation
            else let k = drop_bit 4 (long_first (type_code (h_ty h)) h AND TYPE_MASK) in
              if k = 0 then Ok Initial else if k = 1 then Ok ZeroRTT
              else if k = 2 then Ok Handshake else if k = 3 then Ok Retry
              else Err InvalidPacket) = Ok (h_ty h)"
    using ty version unfolding Let_def type_long_first [OF len] by auto
  have tail: "reads (token_enc h) \<lparr>h_ty = h_ty h, h_version = h_version h, h_dcid = as_ref (with_slice (h_dcid h)),
       h_scid = as_ref (with_slice (h_scid h)), h_pkt_num = 0, h_pkt_num_len = 0,
       h_token = (if h_ty h = Initial then Some (token_of h) else None), h_versions = None, h_key_phase = False,
       h_fec_info = fec_status_default\<rparr>
     (\<lambda>b. bnd (case h_ty h of
              Initial \<Rightarrow> bnd (get_bytes_with_varint_length b) (\<lambda>(t, b). Ok ((Some (as_ref t), None), b))
            | Retry \<Rightarrow>
                if cap b < tag_len AES128_GCM then Err InvalidPacket
                else bnd (get_bytes (cap b - tag_len AES128_GCM) b) (\<lambda>(t, b). Ok ((Some (as_ref t), None), b))
            | VersionNegotiation \<Rightarrow> bnd (get_versions b) (\<lambda>(vs, b). Ok ((None, Some vs), b))
            | _ \<Rightarrow> Ok ((None, None), b)) (\<lambda>((token, versions), b).
       Ok (\<lparr>h_ty = h_ty h, h_version = h_version h, h_dcid = as_ref (with_slice (h_dcid h)),
            h_scid = as_ref (with_slice (h_scid h)),
            h_pkt_num = 0, h_pkt_num_len = 0, h_token = token, h_versions = versions,
            h_key_phase = False, h_fec_info = fec_status_default\<rparr>, b)))"
    using reads_bnd [OF reads_token [OF ty token], of "[]" _ "\<lambda>x b. Ok (\<lparr>h_ty = h_ty h, h_version = h_version h,
            h_dcid = as_ref (with_slice (h_dcid h)), h_scid = as_ref (with_slice (h_scid h)),
            h_pkt_num = 0, h_pkt_num_len = 0, h_token = fst x, h_versions = snd x,
            h_key_phase = False, h_fec_info = fec_status_default\<rparr>, b)", OF reads_Ok]
    by (simp add: case_prod_beta')
  note simps = first not_True_eq_False if_False type bnd.simps cid_small [OF cid(1)] cid_small [OF cid(2)]
    simp_thms cid_len [OF cid(1)] cid_len [OF cid(2)]
  show ?thesis
    unfolding header_enc_def if_not_P [OF False] header_from_bytes_def [abs_def] view
    by (rule reads_bnd, rule reads_u8, simp only: simps,
        rule reads_bnd, rule reads_u32, simp only: simps,
        rule reads_bnd, rule reads_u8, simp only: simps,
        rule reads_bnd, rule reads_bytes, rule refl,
        rule reads_bnd, rule reads_u8, simp only: simps,
        rule reads_bnd, rule reads_bytes, rule refl,
        rule tail)
qed

section \<open>Header protection\<close>

definition hp_bits :: "u8 \<Rightarrow> u8" where
  "hp_bits f = (if is_long f then 0x0f else 0x1f)"

lemma is_long_iff: "is_long f \<longleftrightarrow> bit f 7"
proof -
  have "FORM_BIT = push_bit 7 1" by (simp add: FORM_BIT_def)
  then show ?thesis unfolding is_long_def by (simp only: bit_iff_and_push_bit_not_eq_0)
qed

lemma bit_hp_bits: "\<not> bit (hp_bits f) 7"
  by (simp add: hp_bits_def bit_iff_odd_drop_bit)

lemma is_long_hp: "is_long (f XOR (m AND hp_bits f)) = is_long f"
  using bit_hp_bits [of f] by (simp add: is_long_iff bit_xor_iff bit_and_iff)

lemma hp_first_cancel: "(f XOR (m AND hp_bits f)) XOR (m AND hp_bits (f XOR (m AND hp_bits f))) = f"
  unfolding hp_bits_def is_long_hp [unfolded hp_bits_def] by (simp add: xor.assoc)

lemma length_xor_mask: "length bs < length m \<Longrightarrow> length (xor_mask m bs) = length bs"
  by (simp add: xor_mask_def)

lemma xor_mask_cancel:
  assumes "length bs < length m"
  shows "xor_mask m (xor_mask m bs) = bs"
proof -
  have "map2 (XOR) (map2 (XOR) xs ys) ys = xs" if "length xs = length ys" for xs ys :: "u8 list"
    using that by (induction xs ys rule: list_induct2) (auto simp: xor.assoc)
  from this [of bs "take (length bs) (drop 1 m)"] assms show ?thesis
    by (simp add: xor_mask_def)
qed

lemma encrypt_hdr_eq:
  assumes "length pnb \<le> 4" "16 + (4 - length pnb) \<le> length payload"
    "new_mask (take 16 (drop (4 - length pnb) payload)) aead = Ok m"
  shows "encrypt_hdr (length pnb) payload aead \<lparr>buf = f # mid @ pnb, off = o'\<rparr>
    = Ok \<lparr>buf = (f XOR (m ! 0 AND hp_bits f)) # mid @ xor_mask m pnb, off = o'\<rparr>"
  using assms
  by (simp add: encrypt_hdr_def split_at_def oct_len_def slice_last_def cap_def hp_bits_def Let_def not_less)

lemma get_be:
  assumes "as_ref b = be_bytes n v @ r" "v < 256 ^ n" "256 ^ n \<le> (2::nat) ^ LENGTH('w::len)" "0 < n"
  shows "(get_u n b :: ('w word \<times> octets) result) = Ok (of_nat v, advance n b)"
proof -
  have "take n (drop (off b) (buf b)) = be_bytes n v" "n \<le> length (as_ref b)"
    using assms(1) by (auto simp: as_ref_def)
  with assms(2) show ?thesis
    by (simp add: get_u_def peek_u_def be_nat_be_bytes advance_def as_ref_def)
qed

lemma ucast_of_nat:
  "n < 2 ^ LENGTH('w::len) \<Longrightarrow> (ucast (of_nat n :: 'w word) :: u64) = of_nat n"
proof -
  assume "n < 2 ^ LENGTH('w)"
  then have "unat (of_nat n :: 'w word) = n" by (simp add: unat_of_nat)
  then show ?thesis by (metis of_nat_unat)
qed

lemma unat_ucast_small: "unat (x :: u64) < 2 ^ LENGTH('w::len) \<Longrightarrow> unat (ucast x :: 'w word) = unat x"
  by (simp add: unsigned_ucast_eq take_bit_nat_eq_self)

lemma decrypt_hdr_eq:
  assumes "length pnb = unat ((f AND PKT_NUM_MASK) + 1)" "1 \<le> length pnb" "length pnb \<le> 4"
    "16 + (4 - length pnb) \<le> length payload" "length m = 5"
    "new_mask (take 16 (drop (4 - length pnb) payload)) aead = Ok m"
  shows "decrypt_hdr \<lparr>buf = (f XOR (m ! 0 AND hp_bits f)) # mid @ xor_mask m pnb @ payload, off = 1 + length mid\<rparr> h aead
    = Ok (\<lparr>buf = f # mid @ pnb @ payload, off = 1 + length mid + length pnb\<rparr>,
          h\<lparr>h_pkt_num := of_nat (be_nat pnb), h_pkt_num_len := length pnb,
            h_key_phase := (if h_ty h = Short then f AND KEY_PHASE_BIT \<noteq> 0 else h_key_phase h)\<rparr>)"
proof -
  let ?f = "f XOR (m ! 0 AND hp_bits f)" and ?x = "xor_mask m pnb"
  let ?b = "\<lparr>buf = ?f # mid @ ?x @ payload, off = 1 + length mid\<rparr>"
  have xl: "length ?x = length pnb" using assms(3,5) by (simp add: length_xor_mask)
  have "min (length pnb) 4 = length pnb" using assms(3) by simp
  have first: "(if is_long ?f then ?f XOR (m ! 0 AND 0x0f) else ?f XOR (m ! 0 AND 0x1f)) = f"
    using hp_first_cancel [of f "m ! 0"] by (simp add: hp_bits_def [of ?f] split: if_splits)
  have peek: "peek_bytes (MAX_PKT_NUM_LEN + SAMPLE_LEN) ?b = Ok (with_slice (?x @ take (20 - length pnb) payload))"
    using assms(3,4) xl by (auto simp: peek_bytes_def cap_def MAX_PKT_NUM_LEN_def SAMPLE_LEN_def with_slice_def)
  have sample: "drop MAX_PKT_NUM_LEN (?x @ take (20 - length pnb) payload) = take 16 (drop (4 - length pnb) payload)"
    using assms(3) xl by (simp add: MAX_PKT_NUM_LEN_def drop_take)
  have ct: "xor_mask m (take (length pnb) (take MAX_PKT_NUM_LEN (?x @ take (20 - length pnb) payload))) = pnb"
    using assms(3,5) xl by (simp add: MAX_PKT_NUM_LEN_def xor_mask_cancel min_def)
  define b1 where "b1 = \<lparr>buf = ?f # mid @ pnb @ payload, off = 1 + length mid\<rparr>"
  have b1: "?b\<lparr>buf := take (off ?b) (buf ?b) @ pnb @ drop (off ?b + length pnb) (buf ?b)\<rparr> = b1"
    using xl by (simp add: b1_def)
  have r: "as_ref b1 = be_bytes (length pnb) (be_nat pnb) @ payload"
    by (simp add: b1_def as_ref_def be_bytes_be_nat)
  have lt: "be_nat pnb < 256 ^ length pnb" by (rule be_nat_less)
  have "length pnb \<in> {1, 2, 3, 4}" using assms(2,3) by auto
  then have get: "(if length pnb = 1 then bnd (get_u8 b1) (\<lambda>(v, b). Ok (ucast v :: u64, b))
          else if length pnb = 2 then bnd (get_u16 b1) (\<lambda>(v, b). Ok (ucast v, b))
          else if length pnb = 3 then bnd (get_u24 b1) (\<lambda>(v, b). Ok (ucast v, b))
          else if length pnb = 4 then bnd (get_u32 b1) (\<lambda>(v, b). Ok (ucast v, b))
          else Err InvalidPacket) = Ok (of_nat (be_nat pnb), advance (length pnb) b1)"
  proof -
    have ne: "0 < length pnb" using assms(2) by linarith
    let ?v = "of_nat (be_nat pnb)"
    have 1: "bnd (get_u8 b1) (\<lambda>(v, b). Ok (ucast v :: u64, b)) = Ok (?v, advance 1 b1)" if l: "length pnb = 1"
      using get_be [OF r lt _ ne, where ?'w = 8] lt ucast_of_nat [of "be_nat pnb", where ?'w = 8]
      unfolding get_u8_def l by simp
    have 2: "bnd (get_u16 b1) (\<lambda>(v, b). Ok (ucast v :: u64, b)) = Ok (?v, advance 2 b1)" if l: "length pnb = 2"
      using get_be [OF r lt _ ne, where ?'w = 16] lt ucast_of_nat [of "be_nat pnb", where ?'w = 16]
      unfolding get_u16_def l by simp
    have 3: "bnd (get_u24 b1) (\<lambda>(v, b). Ok (ucast v :: u64, b)) = Ok (?v, advance 3 b1)" if l: "length pnb = 3"
      using get_be [OF r lt _ ne, where ?'w = 32] lt ucast_of_nat [of "be_nat pnb", where ?'w = 32]
      unfolding get_u24_def l by simp
    have 4: "bnd (get_u32 b1) (\<lambda>(v, b). Ok (ucast v :: u64, b)) = Ok (?v, advance 4 b1)" if l: "length pnb = 4"
      using get_be [OF r lt _ ne, where ?'w = 32] lt ucast_of_nat [of "be_nat pnb", where ?'w = 32]
      unfolding get_u32_def l by simp
    from \<open>length pnb \<in> {1, 2, 3, 4}\<close> consider "length pnb = 1" | "length pnb = 2" | "length pnb = 3" | "length pnb = 4"
      by auto
    then show ?thesis by cases (simp_all add: 1 2 3 4 del: bnd_Ok_iff)
  qed
  have split: "split_at 1 ?b = Ok (with_slice [?f], with_slice (mid @ ?x @ payload))"
    by (simp add: split_at_def oct_len_def with_slice_def)
  have f0: "as_ref (with_slice [?f]) ! 0 = ?f" by (simp add: as_ref_def with_slice_def)
  have bufs: "buf (with_slice xs) = xs" for xs by (simp add: with_slice_def)
  show ?thesis
    unfolding decrypt_hdr_def split bnd.simps prod.case Let_def f0 peek bufs sample assms(6) first
      assms(1) [symmetric] ct b1 get
    using assms(2) by (simp add: b1_def advance_def del: bnd_Ok_iff)
qed

lemma decrypt_pkt_eq:
  assumes "open_with_u64_counter pn hdr ct ko = Ok (n, out)" "length out = length ct" "n \<le> length ct"
    "pl = pn_len + length ct"
  shows "\<exists>b. decrypt_pkt pn pn_len pl ko \<lparr>buf = hdr @ ct, off = length hdr\<rparr> = Ok (with_slice (take n out), b)"
  using assms
  by (simp add: decrypt_pkt_def split_at_def oct_len_def peek_bytes_def cap_def as_ref_def get_bytes_def with_slice_def)

text \<open>C8. Protection round trip. A packet sealed and header-protected by one side (header \<open>f # mid @ pnb\<close>,
  the packet number \<open>pnb\<close> last, payload \<open>plain\<close> and room for the tag) and received by a side
  that holds the matching keys: removing the header protection restores the packet number and its
  length, and opening the payload gives back \<open>plain\<close>.\<close>

theorem protection_roundtrip:
  assumes "ring_keys ks ko" "length pnb = unat ((f AND PKT_NUM_MASK) + 1)" "1 \<le> length pnb" "length pnb \<le> 4"
    "4 \<le> length plain + length pnb" "length room = 16"
    "encrypt_pkt pn (length pnb) (length plain + 16) (1 + length mid + length pnb) ks
       \<lparr>buf = f # mid @ pnb @ plain @ room @ tail, off = o'\<rparr> = Ok (n, b')"
  shows "\<exists>b1 h' out b2. decrypt_hdr \<lparr>buf = take n (buf b'), off = 1 + length mid\<rparr> h ko = Ok (b1, h')
    \<and> h_pkt_num h' = of_nat (be_nat pnb) \<and> h_pkt_num_len h' = length pnb
    \<and> decrypt_pkt pn (length pnb) (length pnb + length plain + 16) ko b1 = Ok (out, b2) \<and> as_ref out = plain"
proof -
  let ?hdr = "f # mid @ pnb" and ?pt = "plain @ room"
  have sp: "split_at (1 + length mid + length pnb) \<lparr>buf = f # mid @ pnb @ plain @ room @ tail, off = o'\<rparr>
      = Ok (with_slice ?hdr, with_slice (plain @ room @ tail))"
    by (simp add: split_at_def oct_len_def with_slice_def)
  have sl: "slice (length plain + 16) (with_slice (plain @ room @ tail)) = Ok ?pt"
    using assms(6) by (simp add: slice_def cap_def with_slice_def)
  from assms(7) obtain ct hdr' where seal: "seal_with_u64_counter pn ?hdr ?pt ks = Ok ct"
    and hp: "encrypt_hdr (length pnb) ct ks (with_slice ?hdr) = Ok hdr'"
    and n: "n = 1 + length mid + length pnb + (length plain + 16)"
    and b': "buf b' = buf hdr' @ ct @ drop (1 + length mid + length pnb + (length plain + 16))
        (f # mid @ pnb @ plain @ room @ tail)"
    unfolding encrypt_pkt_def sp by (auto simp: sl)
  from open_seal [OF assms(1) seal] assms(6) obtain rest where ct: "length ct = length plain + 16"
    and op: "open_with_u64_counter pn ?hdr ct ko = Ok (length plain, plain @ rest)" "length rest = 16"
    by auto
  have room: "16 + (4 - length pnb) \<le> length ct" using ct assms(5) by simp
  have "\<exists>m. new_mask (take 16 (drop (4 - length pnb) ct)) ks = Ok m"
    using hp assms(4) room by (auto simp: encrypt_hdr_def Let_def split: if_splits)
  then obtain m where m: "new_mask (take 16 (drop (4 - length pnb) ct)) ks = Ok m" by blast
  then have mo: "new_mask (take 16 (drop (4 - length pnb) ct)) ko = Ok m" and m5: "length m = 5"
    using assms(1) by (auto simp: new_mask_def ring_keys_def)
  have hdr': "buf hdr' = (f XOR (m ! 0 AND hp_bits f)) # mid @ xor_mask m pnb"
    using hp encrypt_hdr_eq [OF assms(4) room m, of f mid 0] by (auto simp: with_slice_def)
  have "length (buf hdr' @ ct) = n"
    using ct n m5 assms(4) by (simp add: hdr' length_xor_mask)
  then have "take n (buf b') = buf hdr' @ ct"
    unfolding b' append_assoc [symmetric] by (metis append_eq_conv_conj)
  then have take: "take n (buf b') = (f XOR (m ! 0 AND hp_bits f)) # mid @ xor_mask m pnb @ ct"
    by (simp add: hdr')
  have dh: "decrypt_hdr \<lparr>buf = take n (buf b'), off = 1 + length mid\<rparr> h ko
    = Ok (\<lparr>buf = f # mid @ pnb @ ct, off = 1 + length mid + length pnb\<rparr>,
          h\<lparr>h_pkt_num := of_nat (be_nat pnb), h_pkt_num_len := length pnb,
            h_key_phase := (if h_ty h = Short then f AND KEY_PHASE_BIT \<noteq> 0 else h_key_phase h)\<rparr>)"
    unfolding take by (rule decrypt_hdr_eq [OF assms(2-4) room m5 mo])
  have "\<exists>b. decrypt_pkt pn (length pnb) (length pnb + length plain + 16) ko
      \<lparr>buf = ?hdr @ ct, off = length ?hdr\<rparr> = Ok (with_slice (take (length plain) (plain @ rest)), b)"
    by (rule decrypt_pkt_eq [OF op(1)]) (use ct op(2) in simp_all)
  then show ?thesis unfolding dh by auto
qed


section \<open>A concrete key and header\<close>

text \<open>A key whose seal is the plaintext with a tag of zeros, and a header, for evaluation.\<close>

definition plain_key :: crypto_key where
  "plain_key = \<lparr>ck_alg = AES128_GCM,
     ck_ring = \<lparr>ra_seal = (\<lambda>nonce ad pt. Some (pt, replicate 16 0)),
       ra_open = (\<lambda>nonce ad ct. if length ct < 16 then None
                   else Some (take (length ct - 16) ct @ replicate 16 0, length ct - 16)),
       ra_mask = (\<lambda>sample. Some [1, 2, 3, 4, 5])\<rparr>,
     ck_nonce = replicate 12 0\<rparr>"

definition pseudo_hdr :: header where
  "pseudo_hdr = \<lparr>h_ty = Short, h_version = 0, h_dcid = [], h_scid = [], h_pkt_num = 0, h_pkt_num_len = 0,
     h_token = None, h_versions = None, h_key_phase = False, h_fec_info = fec_status_default\<rparr>"

section \<open>Parsing never panics\<close>

lemma parses_skip: "parses (\<lambda>b. bnd (skip_u8 n b) (\<lambda>b. Ok (v, b)))"
proof (induction n)
  case 0
  then show ?case by (simp add: parses_Ok)
next
  case (Suc n)
  from parses_bnd [OF parses_codec(1), of "\<lambda>_ b. bnd (skip_u8 n b) (\<lambda>b. Ok (v, b))", OF Suc]
  show ?case by (simp add: bnd_assoc case_prod_beta')
qed

lemma parses_get_versions: "parses get_versions"
  unfolding parses_def
proof (intro allI)
  fix b
  show "get_versions b \<noteq> Panic \<and> (\<forall>v b'. get_versions b = Ok (v, b') \<longrightarrow> (\<exists>n \<le> cap b. b' = advance n b))"
  proof (induction b rule: get_versions.induct)
    case (1 b)
    show ?case
    proof (cases "0 < cap b")
      case False
      then show ?thesis by (auto simp: get_versions.simps [of b] intro: exI [of _ 0])
    next
      case True
      show ?thesis
      proof (cases "get_u32 b")
        case (Ok p)
        then obtain v b1 where p: "get_u32 b = Ok (v, b1)" by (cases p) auto
        then obtain n where n: "b1 = advance n b" "n \<le> cap b" using u32c.get_advance by blast
        have "cap b1 = cap b - n" using n by (simp add: cap_def)
        with "1.IH" [OF True p refl] True p n show ?thesis
          by (auto simp: get_versions.simps [of b] bnd_Panic_iff) (metis add_le_mono1 advance_advance le_diff_conv2 add.commute)
      next
        case (Err e)
        with True show ?thesis by (simp add: get_versions.simps [of b])
      next
        case Panic
        then show ?thesis using u32c.get_no_panic by blast
      qed
    qed
  qed
qed

lemma parses_header_token: "parses (\<lambda>b. case ty of
              Initial \<Rightarrow> bnd (get_bytes_with_varint_length b) (\<lambda>(t, b). Ok ((Some (as_ref t), None), b))
            | Retry \<Rightarrow>
                if cap b < tag_len AES128_GCM then Err InvalidPacket
                else bnd (get_bytes (cap b - tag_len AES128_GCM) b) (\<lambda>(t, b). Ok ((Some (as_ref t), None), b))
            | VersionNegotiation \<Rightarrow> bnd (get_versions b) (\<lambda>(vs, b). Ok ((None, Some vs), b))
            | _ \<Rightarrow> Ok ((None, None), b))"
  by (cases ty) (simp_all, (intro parses_if_b parses_bnd parses_get_bytes_varint parses_get_bytes_dep
      parses_get_versions parses_Ok parses_Err)+)

lemma header_type_no_Panic: "(if version = (0 :: u32) then Ok VersionNegotiation
            else let k = drop_bit 4 (first AND TYPE_MASK) in
              if k = 0 then Ok Initial else if k = 1 then Ok ZeroRTT
              else if k = 2 then Ok Handshake else if k = 3 then Ok Retry
              else Err InvalidPacket) \<noteq> Panic"
  by (simp add: Let_def)

lemmas header_parses = parses_bnd parses_codec parses_if parses_get_bytes parses_skip parses_pure
  header_type_no_Panic parses_Err parses_header_token parses_Ok

lemma parses_header: "parses (header_from_bytes n)"
  unfolding header_from_bytes_def [abs_def]
  by (rule header_parses | simp only: case_prod_beta')+

lemma after_u8_less:
  assumes "\<And>x. parses (q x)" "bnd (get_u8 b) (\<lambda>(x, b). q x b) = Ok (v, b')"
  shows "cap b' < cap b"
proof -
  from assms(2) obtain x b1 where 1: "get_u8 b = Ok (x, b1)" "q x b1 = Ok (v, b')" by auto
  then obtain n where "b' = advance n b1" using assms(1) unfolding parses_def by metis
  with u8c.get_cap_less [OF 1(1)] show ?thesis by (simp add: cap_def)
qed

lemma header_progress: "header_from_bytes n b = Ok (h, b') \<Longrightarrow> cap b' < cap b"
  unfolding header_from_bytes_def
  by (erule after_u8_less [rotated]) (rule header_parses | simp only: case_prod_beta')+


section \<open>Properties\<close>

lemma ring_keys_plain: "ring_keys plain_key plain_key"
  by (auto simp: ring_keys_def plain_key_def intro: exI [of _ "replicate 16 0"])

lemma protection_roundtrip_witness:
  "\<exists>n b'. encrypt_pkt 7 1 (4 + 16) 3 plain_key
       \<lparr>buf = [0x40, 5, 7] @ [1, 2, 3, 4] @ replicate 16 0, off = 0\<rparr> = Ok (n, b')
    \<and> (\<exists>b1 h' out b2. decrypt_hdr \<lparr>buf = take n (buf b'), off = 2\<rparr> pseudo_hdr plain_key = Ok (b1, h')
      \<and> decrypt_pkt 7 1 (1 + 4 + 16) plain_key b1 = Ok (out, b2) \<and> as_ref out = [1, 2, 3, 4])"
proof -
  let ?b = "\<lparr>buf = 0x40 # [5] @ [7] @ [1, 2, 3, 4] @ replicate 16 0 @ [], off = 0\<rparr>"
  have "is_ok (encrypt_pkt 7 1 (4 + 16) 3 plain_key ?b)" by code_simp
  then obtain n b' where run: "encrypt_pkt 7 1 (4 + 16) 3 plain_key ?b = Ok (n, b')"
    by (auto simp: is_ok_def split: res.splits)
  from protection_roundtrip [OF ring_keys_plain, of "[7]" "0x40" "[1, 2, 3, 4]" "replicate 16 0" 7 "[5]" "[]" 0 n b' pseudo_hdr]
    run show ?thesis by (auto simp: PKT_NUM_MASK_def numeral_2_eq_2 numeral_3_eq_3)
qed

text \<open>C9. Header round trip. What \<open>Header::to_bytes\<close> writes for an initial, 0-RTT, handshake or short
  packet, \<open>Header::from_bytes\<close> reads back from the same offset, up to the fields that header
  protection hides (packet number, its length, key phase), and ends where the printer ended.\<close>

theorem header_roundtrip:
  assumes "header_readable h" "octets_ok b" "header_to_bytes h b = Ok b'"
  shows "header_from_bytes (length (h_dcid h)) (b'\<lparr>off := off b\<rparr>) = Ok (header_view h, b')"
proof -
  have "header_ok h" using assms(1) by (auto simp: header_ok_def header_readable_def)
  from writes_reads [OF writes_header [OF this] reads_header [OF assms(1)] assms(2,3)] show ?thesis .
qed

lemma header_roundtrip_witness:
  "\<exists>b'. header_to_bytes (pseudo_hdr\<lparr>h_dcid := [1, 2], h_pkt_num_len := 1\<rparr>) (with_slice (replicate 20 0)) = Ok b'
    \<and> header_from_bytes 2 (b'\<lparr>off := 0\<rparr>)
        = Ok (header_view (pseudo_hdr\<lparr>h_dcid := [1, 2], h_pkt_num_len := 1\<rparr>), b')"
proof -
  let ?h = "pseudo_hdr\<lparr>h_dcid := [1, 2], h_pkt_num_len := 1\<rparr>" and ?b = "with_slice (replicate 20 0)"
  have "is_ok (header_to_bytes ?h ?b)" by code_simp
  then obtain b' where run: "header_to_bytes ?h ?b = Ok b'" by (auto simp: is_ok_def split: res.splits)
  have "header_readable ?h" by (simp add: header_readable_def pseudo_hdr_def token_of_def)
  from header_roundtrip [OF this octets_ok_with_slice run] run show ?thesis
    by (simp add: pseudo_hdr_def with_slice_def numeral_2_eq_2)
qed

text \<open>Parsing a packet header never panics, whatever bytes arrive: the result is a header or an
  error, and after a header the offset has moved forward within the unchanged buffer.\<close>

theorem header_from_bytes_total:
  "case header_from_bytes n b of Panic \<Rightarrow> False | Err e \<Rightarrow> True
   | Ok (h, b') \<Rightarrow> buf b' = buf b \<and> off b \<le> off b' \<and> off b' \<le> off b + cap b"
  by (rule parses_cases [OF parses_header])

text \<open>C10. Packet number round trip. The truncated number that \<open>encode_pkt_num\<close> writes is decoded to the
  original by a receiver whose largest packet number is within half the window of it.\<close>

theorem pkt_num_roundtrip:
  assumes "pkt_num_len pn = Ok len" "octets_ok b" "len \<le> cap b" "unat largest < 2 ^ 62"
    "unat largest + 1 < unat pn + 2 ^ (len * 8 - 1)" "unat pn \<le> unat largest + 1 + 2 ^ (len * 8 - 1)"
  shows "\<exists>b'. encode_pkt_num pn b = Ok b' \<and> off b' = off b + len
    \<and> decode_pkt_num largest (of_nat (be_nat (take len (drop (off b) (buf b'))))) len = pn"
proof -
  have len: "len \<in> {1, 2, 4}" and small: "unat pn < 2 ^ (8 * len)"
    using assms(1) by (auto simp: pkt_num_len_def word_less_nat_alt split: if_splits)
  define e where "e = be_bytes len (unat pn)"
  have enc: "encode_pkt_num pn b = Ok (wr e b)"
  proof -
    show ?thesis
      using len assms(2,3) small unat_ucast_small [of pn, where ?'w = 8] unat_ucast_small [of pn, where ?'w = 16]
        unat_ucast_small [of pn, where ?'w = 32]
      by (auto simp: encode_pkt_num_def assms(1) u8c.put_eq u16c.put_eq u32c.put_eq be_enc_def e_def)
  qed
  have "take len (drop (off b) (buf (wr e b))) = e"
    using as_ref_wr [OF assms(2), of e] assms(3) by (simp add: e_def as_ref_def)
  moreover have "be_nat e = unat pn mod 2 ^ (len * 8)"
    by (simp add: e_def be_nat_be_bytes mult.commute [of len] power_mult)
  moreover have "unat pn < 2 ^ 62" using small len by auto
  moreover have "len \<in> {1, 2, 3, 4}" using len by auto
  ultimately show ?thesis
    using decode_pkt_num_correct [of len pn largest] assms(4-6) enc by (simp add: e_def)
qed

lemma pkt_num_roundtrip_witness:
  "\<exists>b'. encode_pkt_num 0x1234 (with_slice [0, 0, 9]) = Ok b' \<and> off b' = 2
    \<and> decode_pkt_num 0x1230 (of_nat (be_nat (take 2 (drop 0 (buf b'))))) 2 = 0x1234"
  using pkt_num_roundtrip [of "0x1234" 2 "with_slice [0, 0, 9]" "0x1230"]
  by (simp add: pkt_num_len_def octets_ok_def cap_def with_slice_def numeral_2_eq_2 [symmetric])

definition pw_received :: "u64 list \<Rightarrow> pkt_num_window" where
  "pw_received pns = fold pw_insert pns pw_default"

text \<open>C11. Duplicate detection. After any sequence of received packet numbers below \<open>2 ^ 32\<close>, the window
  reports exactly the numbers received before and the numbers more than 127 below the largest.\<close>

theorem pkt_num_window_correct:
  assumes "\<forall>pn \<in> set pns. unat pn < 2 ^ 32"
  shows "pw_contains x (pw_received pns) \<longleftrightarrow> x \<in> set pns \<or> (\<exists>pn \<in> set pns. unat x + 127 < unat pn)"
proof -
  have "pw_ok (pw_received pns) \<and>
      (pw_contains x (pw_received pns) \<longleftrightarrow> x \<in> set pns \<or> (\<exists>pn \<in> set pns. unat x + 127 < unat pn))"
    using assms
  proof (induction pns rule: rev_induct)
    case Nil
    have "pw_ok pw_default" by (simp add: pw_ok_def pw_default_def)
    then show ?case by (simp add: pw_received_def pw_contains_eq) (simp add: pw_default_def)
  next
    case (snoc pn pns)
    have s: "pw_received (pns @ [pn]) = pw_insert pn (pw_received pns)" by (simp add: pw_received_def)
    from snoc have ok: "pw_ok (pw_received pns)" and pn: "unat pn < 2 ^ 32" by auto
    have "unat pn < 2 ^ 62" "unat pn < unat (pw_lower (pw_received pns)) + 127 + 2 ^ 32" using pn by auto
    from pw_insert_contains [OF ok this] snoc show ?case unfolding s by auto
  qed
  then show ?thesis by simp
qed

lemma pkt_num_window_correct_witness:
  "pw_contains 5 (pw_received [5, 200, 199]) \<and> \<not> pw_contains 198 (pw_received [5, 200, 199])"
  using pkt_num_window_correct [of "[5, 200, 199]" 5] pkt_num_window_correct [of "[5, 200, 199]" 198]
  by simp

text \<open>A jump of the packet number by \<open>2 ^ 32\<close> is shifted by its low 32 bits only: a packet number
  that was never received is then reported as a duplicate.\<close>

theorem pkt_num_window_jump:
  "pw_contains (2 ^ 32 + 5) (pw_insert (2 ^ 32 + 127) (pw_insert 5 pw_default))"
  by (simp add: pw_insert_def pw_contains_def pw_default_def pw_upper_def sat_add64_def)

end
