(* ===== verification/Frame.thy ===== *)
theory Frame
  imports Packet RangeBuf Ranges
begin

text \<open>
  The frames of \<open>src/frame.rs\<close>: parsing, which packet types may carry which frame, printing, and
  the length of the printed frame. This crate adds the packet time to ACK frames and the
  \<open>BlockInfo\<close> frame that announces size, priority and deadline of a block; a \<open>Fec\<close> frame is the
  payload of a redundancy packet and has no header. The printer's output is described by
  \<open>frame_enc\<close>, which both directions are compared with.
\<close>

section \<open>Frames\<close>

definition MAX_STREAM_SIZE :: u64 where "MAX_STREAM_SIZE = push_bit 62 1"

text \<open>The arguments of a constructor are the fields of the source's variant, in its order.\<close>

datatype frame =
    Padding nat
  | Ping
  | ACK u64 u64 rangeset
  | BlockInfo u64 u64 u64 u64 u64
  | ResetStream u64 u16 u64
  | StopSending u64 u64
  | CryptoFrame range_buf
  | NewToken "u8 list"
  | StreamFrame u64 range_buf
  | MaxData u64
  | MaxStreamData u64 u64
  | MaxStreamsBidi u64
  | MaxStreamsUni u64
  | DataBlocked u64
  | StreamDataBlocked u64 u64
  | StreamsBlockedBidi u64
  | StreamsBlockedUni u64
  | NewConnectionId u64 u64 "u8 list" "u8 list"
  | RetireConnectionId u64
  | PathChallenge "u8 list"
  | PathResponse "u8 list"
  | ConnectionClose u64 u64 "u8 list"
  | ApplicationClose u64 "u8 list"
  | HandshakeDone
  | FecFrame fec_status "u8 list"

section \<open>Parsing\<close>

text \<open>\<open>while b.peek_u8() == Ok(0x00)\<close>.\<close>

function get_padding :: "nat \<Rightarrow> octets \<Rightarrow> (frame \<times> octets) result" where
  "get_padding len b =
     (if peek_u8 b = Ok 0 then bnd (get_u8 b) (\<lambda>(_, b). get_padding (len + 1) b)
      else Ok (Padding len, b))"
  by pat_completeness auto
termination
  by (relation "measure (\<lambda>(len, b). cap b)") (auto dest: u8c.get_cap_less)

declare get_padding.simps [simp del]

text \<open>The blocks of an ACK frame behind the first one.\<close>

fun get_ack_blocks :: "nat \<Rightarrow> u64 \<Rightarrow> rangeset \<Rightarrow> octets \<Rightarrow> (rangeset \<times> octets) result" where
  "get_ack_blocks 0 smallest_ack ranges b = Ok (ranges, b)"
| "get_ack_blocks (Suc n) smallest_ack ranges b =
     bnd (get_varint b) (\<lambda>(gap, b).
     if smallest_ack < 2 + gap then Err InvalidFrame
     else
       let largest_ack = (smallest_ack - gap) - 2 in
       bnd (get_varint b) (\<lambda>(ack_block, b).
       if largest_ack < ack_block then Err InvalidFrame
       else
         let smallest_ack = largest_ack - ack_block in
         get_ack_blocks n smallest_ack (rs_insert (smallest_ack, largest_ack + 1) ranges) b))"

definition parse_ack_frame :: "octets \<Rightarrow> (frame \<times> octets) result" where
  "parse_ack_frame b =
     bnd (get_varint b) (\<lambda>(largest_ack, b).
     bnd (get_varint b) (\<lambda>(packet_time, b).
     bnd (get_varint b) (\<lambda>(ack_delay, b).
     bnd (get_varint b) (\<lambda>(block_count, b).
     bnd (get_varint b) (\<lambda>(ack_block, b).
     if largest_ack < ack_block then Err InvalidFrame
     else
       let smallest_ack = largest_ack - ack_block in
       bnd (get_ack_blocks (unat block_count) smallest_ack (rs_insert (smallest_ack, largest_ack + 1) []) b)
         (\<lambda>(ranges, b). Ok (ACK packet_time ack_delay ranges, b)))))))"

definition parse_stream_frame :: "u64 \<Rightarrow> octets \<Rightarrow> (frame \<times> octets) result" where
  "parse_stream_frame ty b =
     (let first = ucast ty :: u8 in
      bnd (get_varint b) (\<lambda>(stream_id, b).
      bnd (if first AND 0x04 \<noteq> 0 then get_varint b else Ok (0, b)) (\<lambda>(offset, b).
      bnd (if first AND 0x02 \<noteq> 0 then bnd (get_varint b) (\<lambda>(n, b). Ok (unat n, b)) else Ok (cap b, b)) (\<lambda>(len, b).
      if offset + of_nat len \<ge> MAX_STREAM_SIZE then Err InvalidFrame
      else
        let fin = (first AND 0x01 \<noteq> 0) in
        bnd (get_bytes len b) (\<lambda>(data, b).
        Ok (StreamFrame stream_id (rb_from (as_ref data) offset fin), b))))))"

text \<open>The match on the frame type.\<close>

definition frame_body :: "u64 \<Rightarrow> octets \<Rightarrow> (frame \<times> octets) result" where
  "frame_body frame_type b =
     (if frame_type = 0x00 then get_padding 1 b
      else if frame_type = 0x01 then Ok (Ping, b)
      else if frame_type = 0x02 then parse_ack_frame b
      else if frame_type = 0x04 then
        bnd (get_varint b) (\<lambda>(stream_id, b). bnd (get_u16 b) (\<lambda>(error_code, b).
        bnd (get_varint b) (\<lambda>(final_size, b). Ok (ResetStream stream_id error_code final_size, b))))
      else if frame_type = 0x05 then
        bnd (get_varint b) (\<lambda>(stream_id, b). bnd (get_varint b) (\<lambda>(error_code, b).
        Ok (StopSending stream_id error_code, b)))
      else if frame_type = 0x06 then
        bnd (get_varint b) (\<lambda>(offset, b). bnd (get_bytes_with_varint_length b) (\<lambda>(data, b).
        Ok (CryptoFrame (rb_from (as_ref data) offset False), b)))
      else if frame_type = 0x07 then
        bnd (get_bytes_with_varint_length b) (\<lambda>(token, b). Ok (NewToken (as_ref token), b))
      else if 0x08 \<le> frame_type \<and> frame_type \<le> 0x0f then parse_stream_frame frame_type b
      else if frame_type = 0x10 then bnd (get_varint b) (\<lambda>(m, b). Ok (MaxData m, b))
      else if frame_type = 0x11 then
        bnd (get_varint b) (\<lambda>(stream_id, b). bnd (get_varint b) (\<lambda>(m, b). Ok (MaxStreamData stream_id m, b)))
      else if frame_type = 0x12 then bnd (get_varint b) (\<lambda>(m, b). Ok (MaxStreamsBidi m, b))
      else if frame_type = 0x13 then bnd (get_varint b) (\<lambda>(m, b). Ok (MaxStreamsUni m, b))
      else if frame_type = 0x14 then bnd (get_varint b) (\<lambda>(limit, b). Ok (DataBlocked limit, b))
      else if frame_type = 0x15 then
        bnd (get_varint b) (\<lambda>(stream_id, b). bnd (get_varint b) (\<lambda>(limit, b).
        Ok (StreamDataBlocked stream_id limit, b)))
      else if frame_type = 0x16 then bnd (get_varint b) (\<lambda>(limit, b). Ok (StreamsBlockedBidi limit, b))
      else if frame_type = 0x17 then bnd (get_varint b) (\<lambda>(limit, b). Ok (StreamsBlockedUni limit, b))
      else if frame_type = 0x18 then
        bnd (get_varint b) (\<lambda>(seq_num, b). bnd (get_varint b) (\<lambda>(retire_prior_to, b).
        bnd (get_bytes_with_u8_length b) (\<lambda>(conn_id, b). bnd (get_bytes 16 b) (\<lambda>(reset_token, b).
        Ok (NewConnectionId seq_num retire_prior_to (as_ref conn_id) (as_ref reset_token), b)))))
      else if frame_type = 0x19 then bnd (get_varint b) (\<lambda>(seq_num, b). Ok (RetireConnectionId seq_num, b))
      else if frame_type = 0x1a then bnd (get_bytes 8 b) (\<lambda>(data, b). Ok (PathChallenge (as_ref data), b))
      else if frame_type = 0x1b then bnd (get_bytes 8 b) (\<lambda>(data, b). Ok (PathResponse (as_ref data), b))
      else if frame_type = 0x1c then
        bnd (get_varint b) (\<lambda>(error_code, b). bnd (get_varint b) (\<lambda>(frame_type, b).
        bnd (get_bytes_with_varint_length b) (\<lambda>(reason, b).
        Ok (ConnectionClose error_code frame_type (as_ref reason), b))))
      else if frame_type = 0x1d then
        bnd (get_varint b) (\<lambda>(error_code, b). bnd (get_bytes_with_varint_length b) (\<lambda>(reason, b).
        Ok (ApplicationClose error_code (as_ref reason), b)))
      else if frame_type = 0x1e then Ok (HandshakeDone, b)
      else if frame_type = 0x20 then
        bnd (get_varint b) (\<lambda>(stream_id, b). bnd (get_varint b) (\<lambda>(block_size, b).
        bnd (get_varint b) (\<lambda>(block_priority, b). bnd (get_varint b) (\<lambda>(block_deadline, b).
        bnd (get_varint b) (\<lambda>(start_time, b).
        Ok (BlockInfo stream_id block_size block_priority block_deadline start_time, b))))))
      else Err InvalidFrame)"

text \<open>Which frames a packet type may carry. The source's match on the pair is tried top to bottom: PADDING
  and PING always; then the frames forbidden in 0-RTT packets; then ACK, CRYPTO and
  CONNECTION_CLOSE in all others; then everything in short and 0-RTT packets.\<close>

definition frame_allowed :: "ptype \<Rightarrow> frame \<Rightarrow> bool" where
  "frame_allowed pkt frame =
     (case frame of
        Padding _ \<Rightarrow> True
      | Ping \<Rightarrow> True
      | ACK _ _ _ \<Rightarrow> pkt \<noteq> ZeroRTT
      | CryptoFrame _ \<Rightarrow> pkt \<noteq> ZeroRTT
      | HandshakeDone \<Rightarrow> pkt \<noteq> ZeroRTT \<and> pkt = Short
      | NewToken _ \<Rightarrow> pkt \<noteq> ZeroRTT \<and> pkt = Short
      | PathResponse _ \<Rightarrow> pkt \<noteq> ZeroRTT \<and> pkt = Short
      | RetireConnectionId _ \<Rightarrow> pkt \<noteq> ZeroRTT \<and> pkt = Short
      | ConnectionClose _ _ _ \<Rightarrow> pkt \<noteq> ZeroRTT
      | _ \<Rightarrow> pkt = Short \<or> pkt = ZeroRTT)"

definition frame_from_bytes :: "ptype \<Rightarrow> octets \<Rightarrow> (frame \<times> octets) result" where
  "frame_from_bytes pkt b =
     bnd (get_varint b) (\<lambda>(frame_type, b).
     bnd (frame_body frame_type b) (\<lambda>(frame, b).
     if \<not> frame_allowed pkt frame then Err InvalidPacket else Ok (frame, b)))"

section \<open>Printing\<close>

fun put_varints :: "u64 list \<Rightarrow> octets \<Rightarrow> octets result" where
  "put_varints [] b = Ok b"
| "put_varints (v # vs) b = bnd (put_varint v b) (put_varints vs)"

text \<open>\<open>for block in it\<close> of the ACK frame: gap and length of each further block.\<close>

fun put_ack_blocks :: "u64 \<Rightarrow> u64_range list \<Rightarrow> octets \<Rightarrow> octets result" where
  "put_ack_blocks smallest_ack [] b = Ok b"
| "put_ack_blocks smallest_ack ((s, e) # it) b =
     bnd (put_varint (smallest_ack - e - 1) b) (\<lambda>b.
     bnd (put_varint ((e - 1) - s) b) (\<lambda>b.
     put_ack_blocks s it b))"

definition put_ack_frame :: "u64 \<Rightarrow> u64 \<Rightarrow> rangeset \<Rightarrow> octets \<Rightarrow> octets result" where
  "put_ack_frame packet_time ack_delay ranges b =
     bnd (put_varint 0x02 b) (\<lambda>b.
     case rev ranges of
       [] \<Rightarrow> Panic
     | (s, e) # it \<Rightarrow>
         bnd (put_varint (e - 1) b) (\<lambda>b.
         bnd (put_varint packet_time b) (\<lambda>b.
         bnd (put_varint ack_delay b) (\<lambda>b.
         bnd (put_varint (of_nat (length it)) b) (\<lambda>b.
         bnd (put_varint ((e - 1) - s) b) (\<lambda>b.
         put_ack_blocks s it b))))))"

definition stream_type :: "bool \<Rightarrow> u8" where
  "stream_type fin =
     (let ty = 0x08; ty = ty OR 0x04; ty = ty OR 0x02 in if fin then ty OR 0x01 else ty)"

fun put_padding :: "nat \<Rightarrow> octets \<Rightarrow> octets result" where
  "put_padding 0 b = Ok b"
| "put_padding (Suc left) b = bnd (put_varint 0x00 b) (put_padding left)"

definition frame_put :: "frame \<Rightarrow> octets \<Rightarrow> octets result" where
  "frame_put frame b =
     (case frame of
        Padding len \<Rightarrow> put_padding len b
      | Ping \<Rightarrow> put_varint 0x01 b
      | ACK packet_time ack_delay ranges \<Rightarrow> put_ack_frame packet_time ack_delay ranges b
      | BlockInfo stream_id block_size block_priority block_deadline start_time \<Rightarrow>
          put_varints [0x20, stream_id, block_size, block_priority, block_deadline, start_time] b
      | ResetStream stream_id error_code final_size \<Rightarrow>
          bnd (put_varints [0x04, stream_id] b) (\<lambda>b. bnd (put_u16 error_code b) (put_varint final_size))
      | StopSending stream_id error_code \<Rightarrow> put_varints [0x05, stream_id, error_code] b
      | CryptoFrame data \<Rightarrow>
          bnd (put_varints [0x06, rb_off data, of_nat (rb_len data)] b) (put_bytes (rb_data data))
      | NewToken token \<Rightarrow> bnd (put_varints [0x07, of_nat (length token)] b) (put_bytes token)
      | StreamFrame stream_id data \<Rightarrow>
          bnd (put_varints [ucast (stream_type (rb_fin data)), stream_id, rb_off data, of_nat (rb_len data)] b)
            (put_bytes (rb_data data))
      | MaxData m \<Rightarrow> put_varints [0x10, m] b
      | MaxStreamData stream_id m \<Rightarrow> put_varints [0x11, stream_id, m] b
      | MaxStreamsBidi m \<Rightarrow> put_varints [0x12, m] b
      | MaxStreamsUni m \<Rightarrow> put_varints [0x13, m] b
      | DataBlocked limit \<Rightarrow> put_varints [0x14, limit] b
      | StreamDataBlocked stream_id limit \<Rightarrow> put_varints [0x15, stream_id, limit] b
      | StreamsBlockedBidi limit \<Rightarrow> put_varints [0x16, limit] b
      | StreamsBlockedUni limit \<Rightarrow> put_varints [0x17, limit] b
      | NewConnectionId seq_num retire_prior_to conn_id reset_token \<Rightarrow>
          bnd (put_varints [0x18, seq_num, retire_prior_to] b) (\<lambda>b.
          bnd (put_u8 (of_nat (length conn_id)) b) (\<lambda>b.
          bnd (put_bytes conn_id b) (put_bytes reset_token)))
      | RetireConnectionId seq_num \<Rightarrow> put_varints [0x19, seq_num] b
      | PathChallenge data \<Rightarrow> bnd (put_varint 0x1a b) (put_bytes data)
      | PathResponse data \<Rightarrow> bnd (put_varint 0x1b b) (put_bytes data)
      | ConnectionClose error_code frame_type reason \<Rightarrow>
          bnd (put_varints [0x1c, error_code, frame_type, of_nat (length reason)] b) (put_bytes reason)
      | ApplicationClose error_code reason \<Rightarrow>
          bnd (put_varints [0x1d, error_code, of_nat (length reason)] b) (put_bytes reason)
      | HandshakeDone \<Rightarrow> put_varint 0x1e b
      | FecFrame _ data \<Rightarrow> put_bytes data b)"

text \<open>\<open>to_bytes\<close> returns the number of bytes written.\<close>

definition frame_to_bytes :: "frame \<Rightarrow> octets \<Rightarrow> (nat \<times> octets) result" where
  "frame_to_bytes frame b =
     (let before = cap b in bnd (frame_put frame b) (\<lambda>b. Ok (before - cap b, b)))"

section \<open>Length\<close>

text \<open>\<open>lens n vs\<close>: \<open>n\<close> plus the lengths of the variable-length integers \<open>vs\<close>, added up in order.\<close>

fun lens :: "nat \<Rightarrow> u64 list \<Rightarrow> nat result" where
  "lens n [] = Ok n"
| "lens n (v # vs) = bnd (varint_len v) (\<lambda>k. lens (n + k) vs)"

fun ack_blocks_lens :: "u64 \<Rightarrow> u64_range list \<Rightarrow> nat \<Rightarrow> nat result" where
  "ack_blocks_lens smallest_ack [] len = Ok len"
| "ack_blocks_lens smallest_ack ((s, e) # it) len =
     bnd (lens len [smallest_ack - e - 1, (e - 1) - s]) (ack_blocks_lens s it)"

definition wire_len :: "frame \<Rightarrow> nat result" where
  "wire_len frame =
     (case frame of
        Padding len \<Rightarrow> Ok len
      | Ping \<Rightarrow> Ok 1
      | ACK packet_time ack_delay ranges \<Rightarrow>
          (case rev ranges of
             [] \<Rightarrow> Panic
           | (s, e) # it \<Rightarrow>
               bnd (lens 1 [e - 1, packet_time, ack_delay, of_nat (length it), (e - 1) - s]) (ack_blocks_lens s it))
      | BlockInfo stream_id block_size block_priority block_deadline start_time \<Rightarrow>
          lens 1 [stream_id, block_size, block_priority, block_deadline, start_time]
      | ResetStream stream_id error_code final_size \<Rightarrow> lens (1 + 2) [stream_id, final_size]
      | StopSending stream_id error_code \<Rightarrow> lens 1 [stream_id, error_code]
      | CryptoFrame data \<Rightarrow> lens (1 + rb_len data) [rb_off data, of_nat (rb_len data)]
      | NewToken token \<Rightarrow> lens (1 + length token) [of_nat (length token)]
      | StreamFrame stream_id data \<Rightarrow> lens (1 + rb_len data) [stream_id, rb_off data, of_nat (rb_len data)]
      | MaxData m \<Rightarrow> lens 1 [m]
      | MaxStreamData stream_id m \<Rightarrow> lens 1 [stream_id, m]
      | MaxStreamsBidi m \<Rightarrow> lens 1 [m]
      | MaxStreamsUni m \<Rightarrow> lens 1 [m]
      | DataBlocked limit \<Rightarrow> lens 1 [limit]
      | StreamDataBlocked stream_id limit \<Rightarrow> lens 1 [stream_id, limit]
      | StreamsBlockedBidi limit \<Rightarrow> lens 1 [limit]
      | StreamsBlockedUni limit \<Rightarrow> lens 1 [limit]
      | NewConnectionId seq_num retire_prior_to conn_id reset_token \<Rightarrow>
          lens (1 + 1 + length conn_id + length reset_token) [seq_num, retire_prior_to]
      | RetireConnectionId seq_num \<Rightarrow> lens 1 [seq_num]
      | PathChallenge data \<Rightarrow> Ok (1 + 8)
      | PathResponse data \<Rightarrow> Ok (1 + 8)
      | ConnectionClose error_code frame_type reason \<Rightarrow>
          lens (1 + length reason) [error_code, frame_type, of_nat (length reason)]
      | ApplicationClose error_code reason \<Rightarrow> lens (1 + length reason) [error_code, of_nat (length reason)]
      | HandshakeDone \<Rightarrow> Ok 1
      | FecFrame _ data \<Rightarrow> Ok (length data))"

definition ack_eliciting :: "frame \<Rightarrow> bool" where
  "ack_eliciting frame =
     (case frame of
        Padding _ \<Rightarrow> False
      | ACK _ _ _ \<Rightarrow> False
      | ApplicationClose _ _ \<Rightarrow> False
      | ConnectionClose _ _ _ \<Rightarrow> False
      | _ \<Rightarrow> True)"

section \<open>The encoding of a frame\<close>

definition varints_enc :: "u64 list \<Rightarrow> u8 list" where
  "varints_enc vs = concat (map varint_enc vs)"

fun ack_blocks_enc :: "u64 \<Rightarrow> u64_range list \<Rightarrow> u8 list" where
  "ack_blocks_enc smallest [] = []"
| "ack_blocks_enc smallest ((s, e) # it) =
     varint_enc (smallest - e - 1) @ varint_enc ((e - 1) - s) @ ack_blocks_enc s it"

definition frame_enc :: "frame \<Rightarrow> u8 list" where
  "frame_enc frame =
     (case frame of
        Padding len \<Rightarrow> replicate len 0
      | Ping \<Rightarrow> varint_enc 0x01
      | ACK packet_time ack_delay ranges \<Rightarrow>
          varints_enc [0x02, snd (last ranges) - 1, packet_time, ack_delay, of_nat (length ranges - 1),
            (snd (last ranges) - 1) - fst (last ranges)]
          @ ack_blocks_enc (fst (last ranges)) (rev (butlast ranges))
      | BlockInfo i s p d t \<Rightarrow> varints_enc [0x20, i, s, p, d, t]
      | ResetStream i e s \<Rightarrow> varints_enc [0x04, i] @ be_enc 2 e @ varint_enc s
      | StopSending i e \<Rightarrow> varints_enc [0x05, i, e]
      | CryptoFrame data \<Rightarrow> varints_enc [0x06, rb_off data] @ bytes_enc (rb_data data)
      | NewToken token \<Rightarrow> varints_enc [0x07] @ bytes_enc token
      | StreamFrame i data \<Rightarrow>
          varints_enc [if rb_fin data then 0x0f else 0x0e, i, rb_off data] @ bytes_enc (rb_data data)
      | MaxData m \<Rightarrow> varints_enc [0x10, m]
      | MaxStreamData i m \<Rightarrow> varints_enc [0x11, i, m]
      | MaxStreamsBidi m \<Rightarrow> varints_enc [0x12, m]
      | MaxStreamsUni m \<Rightarrow> varints_enc [0x13, m]
      | DataBlocked l \<Rightarrow> varints_enc [0x14, l]
      | StreamDataBlocked i l \<Rightarrow> varints_enc [0x15, i, l]
      | StreamsBlockedBidi l \<Rightarrow> varints_enc [0x16, l]
      | StreamsBlockedUni l \<Rightarrow> varints_enc [0x17, l]
      | NewConnectionId s r c t \<Rightarrow> varints_enc [0x18, s, r] @ be_enc 1 (of_nat (length c) :: u8) @ c @ t
      | RetireConnectionId s \<Rightarrow> varints_enc [0x19, s]
      | PathChallenge data \<Rightarrow> varint_enc 0x1a @ data
      | PathResponse data \<Rightarrow> varint_enc 0x1b @ data
      | ConnectionClose e t reason \<Rightarrow> varints_enc [0x1c, e, t] @ bytes_enc reason
      | ApplicationClose e reason \<Rightarrow> varints_enc [0x1d, e] @ bytes_enc reason
      | HandshakeDone \<Rightarrow> varint_enc 0x1e
      | FecFrame _ data \<Rightarrow> data)"

text \<open>The frames that can be encoded: integers below \<open>2 ^ 62\<close>, lengths likewise, acknowledged ranges that
  form a nonempty range set below \<open>2 ^ 62\<close>, connection IDs below 256 bytes, tokens and path data
  of their fixed lengths.\<close>

definition ranges_ok :: "rangeset \<Rightarrow> bool" where
  "ranges_ok rs \<longleftrightarrow> rs \<noteq> [] \<and> rs_wf rs \<and> rs_nonempty rs \<and> (\<forall>r \<in> set rs. unat (snd r) \<le> 2 ^ 62)
     \<and> length rs \<le> 2 ^ 62"

definition bytes_ok :: "u8 list \<Rightarrow> bool" where
  "bytes_ok xs \<longleftrightarrow> length xs < 2 ^ 62"

definition frame_valid :: "frame \<Rightarrow> bool" where
  "frame_valid frame =
     (case frame of
        ACK t d rs \<Rightarrow> varint_ok t \<and> varint_ok d \<and> ranges_ok rs
      | BlockInfo i s p d t \<Rightarrow> varint_ok i \<and> varint_ok s \<and> varint_ok p \<and> varint_ok d \<and> varint_ok t
      | ResetStream i e s \<Rightarrow> varint_ok i \<and> varint_ok s
      | StopSending i e \<Rightarrow> varint_ok i \<and> varint_ok e
      | CryptoFrame data \<Rightarrow> varint_ok (rb_off data) \<and> bytes_ok (rb_data data) \<and> \<not> rb_fin data
      | NewToken token \<Rightarrow> bytes_ok token
      | StreamFrame i data \<Rightarrow> varint_ok i \<and> unat (rb_off data) + rb_len data < 2 ^ 62
      | MaxStreamData i m \<Rightarrow> varint_ok i \<and> varint_ok m
      | MaxData m \<Rightarrow> varint_ok m | MaxStreamsBidi m \<Rightarrow> varint_ok m | MaxStreamsUni m \<Rightarrow> varint_ok m
      | DataBlocked m \<Rightarrow> varint_ok m | StreamsBlockedBidi m \<Rightarrow> varint_ok m | StreamsBlockedUni m \<Rightarrow> varint_ok m
      | StreamDataBlocked i m \<Rightarrow> varint_ok i \<and> varint_ok m
      | NewConnectionId s r c t \<Rightarrow> varint_ok s \<and> varint_ok r \<and> length c < 256 \<and> length t = 16
      | RetireConnectionId s \<Rightarrow> varint_ok s
      | PathChallenge data \<Rightarrow> length data = 8
      | PathResponse data \<Rightarrow> length data = 8
      | ConnectionClose e t reason \<Rightarrow> varint_ok e \<and> varint_ok t \<and> bytes_ok reason
      | ApplicationClose e reason \<Rightarrow> varint_ok e \<and> bytes_ok reason
      | _ \<Rightarrow> True)"

lemma varints_enc_simps [simp]:
  "varints_enc [] = []" "varints_enc (v # vs) = varint_enc v @ varints_enc vs"
  by (simp_all add: varints_enc_def)

lemma varint_ok_small [simp]:
  "varint_ok 0" "varint_ok 1" "varint_ok (numeral n) \<longleftrightarrow> unat (numeral n :: u64) < 2 ^ 62"
  by (simp_all add: varint_ok_def)

lemma varint_ok_length [simp]: "bytes_ok xs \<Longrightarrow> varint_ok (of_nat (length xs))"
  by (simp add: bytes_ok_def varint_ok_def unat_of_nat64)

lemma length_varint_small: "v \<le> 63 \<Longrightarrow> length (varint_enc v) = 1"
  using varint_len_eq [of v] by (auto simp: varint_len_def split: if_splits)

subsection \<open>Acknowledged ranges\<close>

fun ack_chain :: "u64 \<Rightarrow> u64_range list \<Rightarrow> bool" where
  "ack_chain smallest [] \<longleftrightarrow> True"
| "ack_chain smallest ((s, e) # it) \<longleftrightarrow> s < e \<and> e < smallest \<and> ack_chain s it"

lemma ack_chain_rev:
  assumes "rs_wf (rs @ [r])" "rs_nonempty (rs @ [r])"
  shows "ack_chain (fst r) (rev rs)"
  using assms
proof (induction rs arbitrary: r rule: rev_induct)
  case Nil
  then show ?case by simp
next
  case (snoc q rs)
  have "rs_wf (rs @ [q])" "rs_nonempty (rs @ [q])"
    using snoc.prems by (auto simp: rs_wf_def bt_wf_def sorted_wrt_append rs_nonempty_def)
  from snoc.IH [OF this] have "ack_chain (fst q) (rev rs)" .
  moreover have "fst q < snd q" using snoc.prems(2) by (auto simp: rs_nonempty_def)
  moreover have "snd q < fst r"
  proof -
    have "fst q < fst r" using snoc.prems(1) by (auto simp: rs_wf_def bt_wf_def sorted_wrt_append)
    then show ?thesis using snoc.prems(1) by (auto simp: rs_wf_def)
  qed
  ultimately show ?case by (cases q) simp
qed

lemma ack_step:
  assumes "s < e" "e < (smallest :: u64)" "unat smallest < 2 ^ 62"
  shows "unat (smallest - e - 1) = unat smallest - unat e - 1" "unat ((e - 1) - s) = unat e - 1 - unat s"
    "\<not> smallest < 2 + (smallest - e - 1)" "smallest - (smallest - e - 1) - 2 = e - 1"
    "\<not> e - 1 < (e - 1) - s" "(e - 1) - ((e - 1) - s) = s" "e - 1 + 1 = e"
    "varint_ok (smallest - e - 1)" "varint_ok ((e - 1) - s)" "unat s < 2 ^ 62"
proof -
  have e1: "unat (e - 1) = unat e - 1" and lt: "unat s < unat e" "unat e < unat smallest"
    using assms by (auto simp: word_less_nat_alt unat_sub64 word_le_nat_alt)
  have se: "unat (smallest - e) = unat smallest - unat e"
    using assms(2) by (simp add: unat_sub64)
  show g: "unat (smallest - e - 1) = unat smallest - unat e - 1"
    using lt se by (simp add: unat_sub64 word_le_nat_alt)
  show d: "unat ((e - 1) - s) = unat e - 1 - unat s"
    using lt e1 by (simp add: unat_sub64 word_le_nat_alt)
  have "unat (2 + (smallest - e - 1)) = 2 + (unat smallest - unat e - 1)"
    using g assms(3) by (subst unat_add64_less) simp_all
  then show "\<not> smallest < 2 + (smallest - e - 1)"
    using lt by (simp add: word_less_nat_alt)
  show "\<not> e - 1 < (e - 1) - s"
    using d e1 lt by (simp add: word_less_nat_alt)
  show "varint_ok (smallest - e - 1)" "varint_ok ((e - 1) - s)" "unat s < 2 ^ 62"
    using g d lt assms(3) by (simp_all add: varint_ok_def)
qed simp_all

lemma writes_ack_blocks:
  "ack_chain smallest it \<Longrightarrow> unat smallest < 2 ^ 62 \<Longrightarrow> writes (ack_blocks_enc smallest it) (put_ack_blocks smallest it)"
proof (induction smallest it rule: ack_chain.induct)
  case (1 smallest)
  then show ?case by (simp add: writes_def)
next
  case (2 smallest s e it)
  note step = ack_step [of s e smallest]
  from 2 have "writes (ack_blocks_enc s it) (put_ack_blocks s it)" using step(10) by simp
  with 2 show ?case by (simp add: put_ack_blocks.simps(2) [abs_def]) (intro writes_bnd writes_varint step; simp)
qed

lemma reads_ack_blocks:
  "ack_chain smallest it \<Longrightarrow> unat smallest < 2 ^ 62 \<Longrightarrow>
   reads (ack_blocks_enc smallest it) (fold rs_insert it m) (get_ack_blocks (length it) smallest m)"
proof (induction smallest it arbitrary: m rule: ack_chain.induct)
  case (1 smallest)
  then show ?case by (simp add: reads_def)
next
  case (2 smallest s e it)
  from 2 have a: "s < e" "e < smallest" "unat smallest < 2 ^ 62" by simp_all
  note step = ack_step [OF a]
  from 2 step(10) have IH: "reads (ack_blocks_enc s it) (fold rs_insert it (rs_insert (s, e) m))
      (get_ack_blocks (length it) s (rs_insert (s, e) m))" by simp
  have "reads (varint_enc (smallest - e - 1) @ varint_enc ((e - 1) - s) @ ack_blocks_enc s it)
     (fold rs_insert it (rs_insert (s, e) m)) (\<lambda>b.
     bnd (get_varint b) (\<lambda>(gap, b).
     if smallest < 2 + gap then Err InvalidFrame
     else
       let largest_ack = (smallest - gap) - 2 in
       bnd (get_varint b) (\<lambda>(ack_block, b).
       if largest_ack < ack_block then Err InvalidFrame
       else
         let smallest_ack = largest_ack - ack_block in
         get_ack_blocks (length it) smallest_ack (rs_insert (smallest_ack, largest_ack + 1) m) b)))"
    by (rule reads_bnd, rule reads_varint, rule step, simp only: step if_False Let_def,
        rule reads_bnd, rule reads_varint, rule step, simp only: step if_False Let_def, rule IH)
  then show ?case by simp
qed

lemma lens_eq:
  "\<forall>v \<in> set vs. varint_ok v \<Longrightarrow> lens n vs = Ok (n + length (varints_enc vs))"
  by (induction vs arbitrary: n) (auto simp: varint_len_eq)

lemma ack_blocks_lens_eq:
  "ack_chain smallest it \<Longrightarrow> unat smallest < 2 ^ 62 \<Longrightarrow>
   ack_blocks_lens smallest it n = Ok (n + length (ack_blocks_enc smallest it))"
proof (induction smallest it arbitrary: n rule: ack_chain.induct)
  case (2 smallest s e it)
  from 2 have a: "s < e" "e < smallest" "unat smallest < 2 ^ 62" by simp_all
  show ?case using 2 ack_step [OF a] by (simp add: lens_eq del: lens.simps)
qed simp

text \<open>The ranges that are read are those that were written: inserting them one by one, largest first,
  rebuilds the range set.\<close>

lemma fold_insert_ranges:
  assumes "\<forall>r \<in> set xs. fst r < snd r" "rs_wf m" "rs_nonempty m"
  shows "rs_wf (fold rs_insert xs m) \<and> rs_nonempty (fold rs_insert xs m)
    \<and> rs_set (fold rs_insert xs m) = rs_set m \<union> (\<Union>r \<in> set xs. {fst r..<snd r})"
  using assms
proof (induction xs arbitrary: m)
  case (Cons r xs)
  then have "rs_wf (rs_insert r m)" "rs_nonempty (rs_insert r m)"
    "rs_set (rs_insert r m) = rs_set m \<union> {fst r..<snd r}"
    using rs_insert_correct [of m r] rs_nonempty_insert [of m r] by (auto simp: rs_wf_bt)
  with Cons show ?case by auto
qed simp

lemma fold_insert_rev:
  assumes "rs_wf rs" "rs_nonempty rs"
  shows "fold rs_insert (rev rs) [] = rs"
proof (rule rs_canonical)
  have n: "rs_nonempty ([] :: rangeset)" by (simp add: rs_nonempty_def)
  have "\<forall>r \<in> set (rev rs). fst r < snd r" using assms(2) by (auto simp: rs_nonempty_def)
  note f = fold_insert_ranges [OF this rs_wf_Nil n]
  then show "rs_wf (fold rs_insert (rev rs) [])" "rs_nonempty (fold rs_insert (rev rs) [])" by blast+
  show "rs_set (fold rs_insert (rev rs) []) = rs_set rs" using f by (simp add: rs_set_def [of rs])
qed (use assms in auto)

subsection \<open>Writing\<close>

lemma writes_varints: "\<forall>v \<in> set vs. varint_ok v \<Longrightarrow> writes (varints_enc vs) (put_varints vs)"
proof (induction vs)
  case Nil
  then show ?case by (simp add: writes_def)
next
  case (Cons v vs)
  then have "writes (varint_enc v @ varints_enc vs) (\<lambda>b. bnd (put_varint v b) (put_varints vs))"
    by (intro writes_bnd writes_varint) simp_all
  then show ?case by simp
qed

lemma writes_padding: "writes (replicate n 0) (put_padding n)"
proof (induction n)
  case 0
  then show ?case by (simp add: writes_def)
next
  case (Suc n)
  have "varint_enc 0 = [0]" by (simp add: varint_enc_def varint_class_def)
  with writes_bnd [OF writes_varint [of 0] Suc] show ?case by simp
qed

lemma ranges_last:
  assumes "ranges_ok rs"
  obtains s e where "rev rs = (s, e) # rev (butlast rs)" "last rs = (s, e)" "ack_chain s (rev (butlast rs))"
    "s < e" "unat s < 2 ^ 62" "varint_ok (e - 1)" "varint_ok ((e - 1) - s)"
    "varint_ok (of_nat (length rs - 1))" "length (rev (butlast rs)) = length rs - 1"
proof -
  have ne: "rs \<noteq> []" "rs_wf rs" "rs_nonempty rs" using assms by (auto simp: ranges_ok_def)
  obtain s e where l: "last rs = (s, e)" by (cases "last rs")
  have split: "rs = butlast rs @ [(s, e)]" using ne(1) l by (metis append_butlast_last_id)
  then have "rev rs = (s, e) # rev (butlast rs)" by (metis rev_eq_Cons_iff rev_rev_ident)
  moreover have chain: "ack_chain (fst (s, e)) (rev (butlast rs))"
    by (rule ack_chain_rev) (use ne split in metis)+
  moreover have se: "s < e" using ne(1,3) l by (metis fst_conv last_in_set rs_nonempty_def snd_conv)
  moreover have e: "unat e \<le> 2 ^ 62" using assms l by (metis last_in_set ranges_ok_def snd_conv)
  then have "unat s < 2 ^ 62" using se by (simp add: word_less_nat_alt)
  moreover have e1: "unat (e - 1) = unat e - 1" using se by (auto simp: word_less_nat_alt unat_sub64 word_le_nat_alt)
  then have "varint_ok (e - 1)" using e se by (auto simp: varint_ok_def word_less_nat_alt)
  moreover have "unat ((e - 1) - s) = unat e - 1 - unat s"
    using e1 se by (simp add: unat_sub64 word_le_nat_alt word_less_nat_alt)
  then have "varint_ok ((e - 1) - s)" using e se by (auto simp: varint_ok_def word_less_nat_alt)
  moreover have "varint_ok (of_nat (length rs - 1))"
  proof -
    have "length rs - 1 < 2 ^ 62" using assms ne(1) by (cases rs) (auto simp: ranges_ok_def)
    then show ?thesis by (simp add: varint_ok_def unat_of_nat64)
  qed
  ultimately show ?thesis using that l by simp
qed

lemma writes_ack:
  assumes "varint_ok t" "varint_ok d" "ranges_ok rs"
  shows "writes (frame_enc (ACK t d rs)) (put_ack_frame t d rs)"
proof -
  from assms(3) obtain s e where r: "rev rs = (s, e) # rev (butlast rs)" "last rs = (s, e)"
    "ack_chain s (rev (butlast rs))" "s < e" "unat s < 2 ^ 62" "varint_ok (e - 1)" "varint_ok ((e - 1) - s)"
    "varint_ok (of_nat (length rs - 1))" "length (rev (butlast rs)) = length rs - 1"
    by (rule ranges_last)
  have two: "varint_ok 0x02" by simp
  have "writes (frame_enc (ACK t d rs)) (\<lambda>b. bnd (put_varint 0x02 b) (\<lambda>b.
         bnd (put_varint (e - 1) b) (\<lambda>b. bnd (put_varint t b) (\<lambda>b. bnd (put_varint d b) (\<lambda>b.
         bnd (put_varint (of_nat (length rs - 1)) b) (\<lambda>b.
         bnd (put_varint ((e - 1) - s) b) (put_ack_blocks s (rev (butlast rs)))))))))"
    by (rule writes_eqI, (rule writes_bnd writes_varint writes_ack_blocks [OF r(3,5)] assms r(6-8) two)+)
      (simp_all add: frame_enc_def r(2))
  then show ?thesis unfolding put_ack_frame_def [abs_def] r(1) r(9) [symmetric] by simp
qed

lemma stream_type_eq: "(ucast (stream_type fin) :: u64) = (if fin then 0x0f else 0x0e)"
  by (simp add: stream_type_def)

lemma range_buf_len_ok:
  "unat (rb_off data) + rb_len data < 2 ^ 62 \<Longrightarrow> varint_ok (rb_off data) \<and> bytes_ok (rb_data data)"
  by (simp add: varint_ok_def bytes_ok_def rb_len_def)

lemma writes_frame:
  assumes "frame_valid f"
  shows "writes (frame_enc f) (frame_put f)"
proof (cases f)
  case (ACK t d rs)
  with assms writes_ack [of t d rs] show ?thesis
    by (simp add: frame_put_def [abs_def] frame_valid_def)
next
  case (Padding n)
  with writes_padding [of n] show ?thesis by (simp add: frame_put_def [abs_def] frame_enc_def)
next
  case (StreamFrame i data)
  with assms range_buf_len_ok [of data] have ok: "varint_ok i" "varint_ok (rb_off data)" "bytes_ok (rb_data data)"
    by (simp_all add: frame_valid_def)
  then have "writes (frame_enc f) (\<lambda>b. bnd (put_varints [if rb_fin data then 0x0f else 0x0e, i, rb_off data, of_nat (rb_len data)] b)
            (put_bytes (rb_data data)))"
    by (intro writes_eqI [OF writes_bnd [OF writes_varints writes_bytes]])
      (simp_all add: StreamFrame frame_enc_def bytes_enc_def rb_len_def)
  then show ?thesis by (simp add: StreamFrame frame_put_def [abs_def] stream_type_eq)
next
  case (NewConnectionId s r c t)
  with assms have "writes (frame_enc f) (\<lambda>b. bnd (put_varints [0x18, s, r] b) (\<lambda>b.
          bnd (put_u8 (of_nat (length c)) b) (\<lambda>b. bnd (put_bytes c b) (put_bytes t))))"
    by (intro writes_eqI [OF writes_bnd [OF writes_varints writes_bnd [OF writes_u8 writes_bnd [OF writes_bytes writes_bytes]]]])
      (simp_all add: frame_enc_def frame_valid_def)
  then show ?thesis by (simp add: NewConnectionId frame_put_def [abs_def])
next
  case (ResetStream i e z)
  with assms have "writes (frame_enc f) (\<lambda>b. bnd (put_varints [0x04, i] b) (\<lambda>b. bnd (put_u16 e b) (put_varint z)))"
    by (intro writes_eqI [OF writes_bnd [OF writes_varints writes_bnd [OF writes_u16 writes_varint]]])
      (simp_all add: frame_enc_def frame_valid_def)
  then show ?thesis by (simp add: ResetStream frame_put_def [abs_def])
next
  case (FecFrame i data)
  then show ?thesis by (simp add: frame_put_def [abs_def] frame_enc_def writes_bytes)
qed (use assms in \<open>(simp add: frame_put_def [abs_def] frame_enc_def frame_valid_def del: put_varints.simps varints_enc_simps;
   (intro writes_eqI [OF writes_bnd [OF writes_varints writes_bytes]] writes_varints writes_varint
      writes_eqI [OF writes_bnd [OF writes_varint writes_bytes]]; simp add: bytes_enc_def rb_len_def))\<close>)+

subsection \<open>Reading\<close>

lemma reads_frame:
  assumes "reads e f (frame_body ty)" "varint_ok ty" "frame_allowed pkt f"
  shows "reads (varint_enc ty @ e) f (frame_from_bytes pkt)"
proof -
  have "reads e f (\<lambda>b. bnd (frame_body ty b) (\<lambda>(frame, b).
     if \<not> frame_allowed pkt frame then Err InvalidPacket else Ok (frame, b)))"
    using assms(1,3) by (simp add: reads_def)
  then show ?thesis
    unfolding frame_from_bytes_def [abs_def] by (rule reads_bnd [rotated]) (rule reads_varint [OF assms(2)])
qed

lemma reads_bytes_u8:
  assumes "length xs < 256"
  shows "reads (be_enc 1 (of_nat (length xs) :: u8) @ xs) (with_slice xs) get_bytes_with_u8_length"
proof -
  have n: "unat (of_nat (length xs) :: u8) = length xs" using assms by (simp add: unat_of_nat)
  show ?thesis unfolding get_bytes_with_u8_length_def [abs_def]
    by (rule reads_bnd, rule reads_u8, rule reads_bytes) (simp only: n)
qed

lemma reads_stream:
  assumes "varint_ok i" "unat (rb_off data) + rb_len data < 2 ^ 62" "ty = (if rb_fin data then 0x0f else 0x0e)"
  shows "reads (varints_enc [i, rb_off data] @ bytes_enc (rb_data data)) (StreamFrame i data) (parse_stream_frame ty)"
proof -
  have ok: "varint_ok (rb_off data)" and len: "length (rb_data data) < 2 ^ 62"
    and vlen: "varint_ok (of_nat (length (rb_data data)))"
    using range_buf_len_ok [OF assms(2)] by (simp_all add: bytes_ok_def)
  let ?n = "of_nat (length (rb_data data)) :: u64"
  have n: "unat ?n = length (rb_data data)" using len by (simp add: unat_of_nat64)
  have "unat (rb_off data + ?n) = unat (rb_off data) + length (rb_data data)"
    using assms(2) n by (subst unat_add64_less) (simp_all add: rb_len_def)
  then have small: "\<not> MAX_STREAM_SIZE \<le> rb_off data + ?n"
    using assms(2) by (simp add: MAX_STREAM_SIZE_def word_le_nat_alt rb_len_def)
  have bits: "(ucast ty :: u8) AND 4 \<noteq> 0" "(ucast ty :: u8) AND 2 \<noteq> 0" "((ucast ty :: u8) AND 1 \<noteq> 0) = rb_fin data"
    using assms(3) by auto
  have nn: "of_nat (unat ?n) = ?n" by simp
  have last: "reads (rb_data data) (StreamFrame i data)
     (\<lambda>b. bnd (get_bytes (unat ?n) b) (\<lambda>(d, b). Ok (StreamFrame i (rb_from (as_ref d) (rb_off data) (rb_fin data)), b)))"
    by (rule reads_map [OF reads_bytes]) (simp_all add: n rb_from_def)
  have len: "reads (varint_enc ?n @ rb_data data) (StreamFrame i data) (\<lambda>b.
      bnd (bnd (get_varint b) (\<lambda>(n, b). Ok (unat n, b))) (\<lambda>(len, b).
      if rb_off data + of_nat len \<ge> MAX_STREAM_SIZE then Err InvalidFrame
      else bnd (get_bytes len b) (\<lambda>(d, b).
        Ok (StreamFrame i (rb_from (as_ref d) (rb_off data) (rb_fin data)), b))))"
    by (rule reads_bnd, rule reads_map, rule reads_varint, rule vlen, rule refl,
        simp only: nn small if_False, rule last)
  have "reads (varint_enc i @ varint_enc (rb_off data) @ varint_enc ?n @ rb_data data) (StreamFrame i data)
     (parse_stream_frame ty)"
    unfolding parse_stream_frame_def [abs_def] Let_def bits if_P [OF bits(1)] if_P [OF bits(2)]
    by (rule reads_bnd, rule reads_varint, rule assms(1), rule reads_bnd, rule reads_varint, rule ok, rule len)
  then show ?thesis by (simp add: bytes_enc_def)
qed

lemma reads_ack:
  assumes "varint_ok t" "varint_ok d" "ranges_ok rs"
  shows "reads (varints_enc [snd (last rs) - 1, t, d, of_nat (length rs - 1), (snd (last rs) - 1) - fst (last rs)]
          @ ack_blocks_enc (fst (last rs)) (rev (butlast rs))) (ACK t d rs) parse_ack_frame"
proof -
  from assms(3) obtain s e where r: "rev rs = (s, e) # rev (butlast rs)" "last rs = (s, e)"
    "ack_chain s (rev (butlast rs))" "s < e" "unat s < 2 ^ 62" "varint_ok (e - 1)" "varint_ok ((e - 1) - s)"
    "varint_ok (of_nat (length rs - 1))" "length (rev (butlast rs)) = length rs - 1"
    by (rule ranges_last)
  have "unat (of_nat (length rs - 1) :: u64) = length rs - 1"
  proof -
    have "length rs \<le> 2 ^ 62" using assms(3) by (simp add: ranges_ok_def)
    then show ?thesis by (simp add: unat_of_nat64)
  qed
  then have n: "unat (of_nat (length rs - 1) :: u64) = length (rev (butlast rs))" using r(9) by simp
  have "s \<le> e - 1" using r(4) by (auto simp: word_less_nat_alt word_le_nat_alt unat_sub64)
  then have le: "\<not> e - 1 < (e - 1) - s" by (simp add: not_less word_sub_le)
  have simps: "(e - 1) - ((e - 1) - s) = s" "e - 1 + 1 = e" by simp_all
  have fold: "fold rs_insert (rev (butlast rs)) (rs_insert (s, e) []) = rs"
    using fold_insert_rev [of rs] assms(3) by (simp add: r(1) ranges_ok_def)
  have blocks: "reads (ack_blocks_enc s (rev (butlast rs))) (ACK t d rs)
      (\<lambda>b. bnd (get_ack_blocks (length (rev (butlast rs))) s (rs_insert (s, e) []) b) (\<lambda>(ranges, b). Ok (ACK t d ranges, b)))"
    by (rule reads_map [OF reads_ack_blocks [OF r(3,5)]]) (simp only: fold)
  have "reads (varint_enc (e - 1) @ varint_enc t @ varint_enc d @ varint_enc (of_nat (length rs - 1))
      @ varint_enc ((e - 1) - s) @ ack_blocks_enc s (rev (butlast rs))) (ACK t d rs) parse_ack_frame"
    unfolding parse_ack_frame_def [abs_def]
    by (rule reads_bnd, rule reads_varint, rule r, rule reads_bnd, rule reads_varint, rule assms,
        rule reads_bnd, rule reads_varint, rule assms, rule reads_bnd, rule reads_varint, rule r,
        rule reads_bnd, rule reads_varint, rule r, simp only: le if_False Let_def n simps, rule blocks)
  then show ?thesis by (simp add: r(2))
qed

text \<open>Frames other than PADDING, which is read greedily, and the headerless FEC payload.\<close>

definition framed :: "frame \<Rightarrow> bool" where
  "framed f = (case f of Padding _ \<Rightarrow> False | FecFrame _ _ \<Rightarrow> False | _ \<Rightarrow> True)"

lemma reads_framed:
  assumes "frame_valid f" "framed f" "frame_allowed pkt f"
  shows "reads (frame_enc f) f (frame_from_bytes pkt)"
proof -
  have type: "reads (varint_enc ty @ e) f (frame_from_bytes pkt)" if "reads e f (frame_body ty)" "varint_ok ty" for e ty
    using reads_frame [OF that assms(3)] .
  show ?thesis
  proof (cases f)
    case (Padding n)
    with assms(2) show ?thesis by (simp add: framed_def)
  next
    case (FecFrame i data)
    with assms(2) show ?thesis by (simp add: framed_def)
  next
    case (ACK t d rs)
    have "frame_body 2 = parse_ack_frame" by (simp add: frame_body_def fun_eq_iff)
    with type [of _ 2] reads_ack [of t d rs] assms(1) ACK show ?thesis
      by (simp add: frame_enc_def frame_valid_def)
  next
    case (StreamFrame i data)
    let ?ty = "if rb_fin data then 0x0f else 0x0e :: u64"
    have "frame_body ?ty = parse_stream_frame ?ty" by (simp add: frame_body_def fun_eq_iff)
    with type [of _ ?ty] reads_stream [of i data ?ty] assms(1) StreamFrame show ?thesis
      by (simp add: frame_enc_def frame_valid_def)
  next
    case Ping
    have "reads [] Ping (frame_body 1)" by (simp add: frame_body_def reads_def)
    from type [OF this [folded Ping]] show ?thesis by (simp add: Ping frame_enc_def)
  next
    case HandshakeDone
    have "reads [] HandshakeDone (frame_body 0x1e)" by (simp add: frame_body_def reads_def)
    from type [OF this [folded HandshakeDone]] show ?thesis by (simp add: HandshakeDone frame_enc_def)
  next
    case (NewConnectionId s r c t)
    have "frame_body 0x18 = (\<lambda>b. bnd (get_varint b) (\<lambda>(seq_num, b). bnd (get_varint b) (\<lambda>(retire_prior_to, b).
        bnd (get_bytes_with_u8_length b) (\<lambda>(conn_id, b). bnd (get_bytes 16 b) (\<lambda>(reset_token, b).
        Ok (NewConnectionId seq_num retire_prior_to (as_ref conn_id) (as_ref reset_token), b))))))"
      by (simp add: frame_body_def fun_eq_iff)
    moreover have "reads (varint_enc s @ varint_enc r @ (be_enc 1 (of_nat (length c) :: u8) @ c) @ t) f \<dots>"
      by (rule reads_bnd, rule reads_varint, use assms(1) in \<open>simp add: NewConnectionId frame_valid_def\<close>,
          rule reads_bnd, rule reads_varint, use assms(1) in \<open>simp add: NewConnectionId frame_valid_def\<close>,
          rule reads_bnd, rule reads_bytes_u8, use assms(1) in \<open>simp add: NewConnectionId frame_valid_def\<close>,
          rule reads_map [OF reads_bytes], use assms(1) in \<open>simp_all add: NewConnectionId frame_valid_def\<close>)
    ultimately show ?thesis using type [of _ "0x18"] by (simp add: NewConnectionId frame_enc_def)
  qed (((use assms(1,3) in \<open>simp add: frame_enc_def frame_valid_def\<close>, rule reads_frame,
      use assms(1,3) in \<open>simp add: frame_body_def [abs_def] frame_valid_def bytes_ok_def\<close>,
      (rule reads_map reads_bnd reads_varint reads_u16 reads_bytes_varint reads_bytes
        | use assms(1,3) in \<open>simp add: rb_from_def frame_valid_def bytes_ok_def\<close>)+)[1])+)
qed

subsection \<open>Parsing never panics\<close>

lemma parses_padding: "parses (get_padding n)"
  unfolding parses_def
proof (intro allI)
  fix b
  show "get_padding n b \<noteq> Panic \<and> (\<forall>v b'. get_padding n b = Ok (v, b') \<longrightarrow> (\<exists>k \<le> cap b. b' = advance k b))"
  proof (induction n b rule: get_padding.induct)
    case (1 n b)
    show ?case
    proof (cases "peek_u8 b = Ok 0")
      case False
      then show ?thesis by (auto simp: get_padding.simps [of n b] intro: exI [of _ 0])
    next
      case True
      then obtain v b1 where p: "get_u8 b = Ok (v, b1)" by (auto simp: get_u8_def get_u_def peek_u8_def)
      then obtain k where k: "b1 = advance k b" "k \<le> cap b" using u8c.get_advance by blast
      have "cap b1 = cap b - k" using k by (simp add: cap_def)
      with "1.IH" [OF True, of "(v, b1)"] p k True show ?thesis
        by (auto simp: get_padding.simps [of n b]) (metis add_le_mono1 advance_advance le_diff_conv2 add.commute)
    qed
  qed
qed

lemma parses_ack_blocks: "parses (get_ack_blocks n s m)"
proof (induction n arbitrary: s m)
  case 0
  then show ?case by (simp add: get_ack_blocks.simps(1) [abs_def] parses_Ok)
next
  case (Suc n)
  then show ?case unfolding get_ack_blocks.simps(2) [abs_def] Let_def
    by (intro parses_bnd parses_codec parses_if parses_Err)
qed

lemma parses_ack: "parses parse_ack_frame"
  unfolding parse_ack_frame_def [abs_def] Let_def
  by (intro parses_bnd parses_codec parses_if parses_Err parses_ack_blocks parses_Ok)

lemma parses_remaining: "parses (\<lambda>b. Ok (cap b, b))"
  unfolding parses_def by (auto intro: exI [of _ 0])

lemma parses_stream: "parses (parse_stream_frame ty)"
  unfolding parse_stream_frame_def [abs_def] Let_def
  by (intro parses_bnd parses_codec parses_if parses_Err parses_remaining parses_get_bytes parses_Ok)

lemma parses_bytes_u8: "parses get_bytes_with_u8_length"
  unfolding get_bytes_with_u8_length_def [abs_def] by (intro parses_bnd parses_codec parses_get_bytes)

lemma parses_body: "parses (frame_body ty)"
  unfolding frame_body_def [abs_def]
  by (intro parses_if parses_bnd parses_codec parses_Err parses_Ok parses_padding parses_ack parses_stream
      parses_bytes_u8 parses_get_bytes parses_get_bytes_varint)

lemma parses_frame: "parses (frame_from_bytes pkt)"
  unfolding frame_from_bytes_def [abs_def]
  by (intro parses_bnd parses_codec parses_body parses_if parses_Err parses_Ok)

lemma frame_progress:
  assumes "frame_from_bytes pkt b = Ok (f, b')"
  shows "cap b' < cap b"
proof -
  from assms obtain ty b1 where 1: "get_varint b = Ok (ty, b1)" "frame_body ty b1 = Ok (f, b')"
    by (auto simp: frame_from_bytes_def split: if_splits)
  then have "cap b' \<le> cap b1" using parses_body [of ty] unfolding parses_def by (metis length_as_ref as_ref_advance length_drop diff_le_self)
  with vi.get_cap_less [OF 1(1)] show ?thesis by simp
qed

section \<open>The payload of a packet\<close>

text \<open>The loop of \<open>Connection::recv\<close> that cuts a payload into frames: \<open>while payload.cap() > 0\<close>.\<close>

function parse_payload :: "ptype \<Rightarrow> octets \<Rightarrow> frame list result" where
  "parse_payload ty b =
     (if 0 < cap b
      then bnd (frame_from_bytes ty b) (\<lambda>(frame, b). bnd (parse_payload ty b) (\<lambda>fs. Ok (frame # fs)))
      else Ok [])"
  by pat_completeness auto
termination
  by (relation "measure (\<lambda>(ty, b). cap b)") (auto dest: frame_progress)

declare parse_payload.simps [simp del]

lemma frame_enc_nonempty: "framed f \<Longrightarrow> frame_enc f \<noteq> []"
proof -
  have "varint_enc v \<noteq> []" for v using length_varint_enc [of v] by auto
  then show "framed f \<Longrightarrow> frame_enc f \<noteq> []" by (cases f) (simp_all add: framed_def frame_enc_def)
qed

lemma parse_payload_reads:
  assumes "reads e f (frame_from_bytes ty)" "e \<noteq> []" "as_ref b = e @ r"
  shows "parse_payload ty b = bnd (parse_payload ty (advance (length e) b)) (\<lambda>fs. Ok (f # fs))"
proof -
  have "0 < cap b" using assms(2,3) by (simp flip: length_as_ref)
  with readsD [OF assms(1,3)] show ?thesis by (simp add: parse_payload.simps [of ty b])
qed

lemma get_padding_zeros:
  "as_ref b = replicate k 0 \<Longrightarrow> get_padding n b = Ok (Padding (n + k), advance k b)"
proof (induction k arbitrary: n b)
  case 0
  then have "cap b = 0" by (simp flip: length_as_ref)
  then show ?case by (simp add: get_padding.simps [of n b] peek_u8_def peek_u_def cap_def)
next
  case (Suc k)
  then have "as_ref b = be_enc 1 (0 :: u8) @ replicate k 0" by (simp only: be_enc_u8) simp
  from readsD [OF reads_u8 this] have g: "get_u8 b = Ok (0, advance 1 b)" by simp
  then have p: "peek_u8 b = Ok 0" by (auto simp: get_u8_def get_u_def peek_u8_def)
  have "as_ref (advance 1 b) = replicate k 0" using Suc.prems by (simp add: as_ref_advance)
  from Suc.IH [OF this, of "n + 1"] g p show ?case by (simp add: get_padding.simps [of n b])
qed

lemma parse_payload_padding:
  assumes "as_ref b = replicate k 0"
  shows "parse_payload ty b = Ok (if k = 0 then [] else [Padding k])"
proof (cases k)
  case 0
  with assms have "cap b = 0" by (simp flip: length_as_ref)
  with 0 show ?thesis by (simp add: parse_payload.simps [of ty b])
next
  case (Suc j)
  have z: "varint_enc 0 = [0]" by (simp add: varint_enc_def varint_class_def)
  have b: "as_ref b = varint_enc 0 @ replicate j 0" using assms Suc by (simp add: z)
  have v: "get_varint b = Ok (0, advance 1 b)" using vi.get_enc [OF _ b] by (simp add: z)
  have "as_ref (advance 1 b) = replicate j 0" using assms Suc by (simp add: as_ref_advance)
  from get_padding_zeros [OF this, of 1] v have "frame_from_bytes ty b = Ok (Padding k, advance k b)"
    by (simp add: frame_from_bytes_def frame_body_def frame_allowed_def Suc)
  moreover have c: "cap b = k" using assms by (simp flip: length_as_ref)
  ultimately have "frame_from_bytes ty b = Ok (Padding k, advance k b)" "cap b = k" by blast+
  moreover have "cap (advance k b) = 0" using c by (simp add: cap_def)
  then have "parse_payload ty (advance k b) = Ok []" by (simp add: parse_payload.simps [of ty "advance k b"])
  ultimately show ?thesis using Suc by (simp add: parse_payload.simps [of ty b])
qed

section \<open>Properties\<close>

lemma frame_to_bytes_eq:
  assumes "frame_valid f" "octets_ok b"
  shows "frame_to_bytes f b =
    (if cap b < length (frame_enc f) then Err BufferTooShort else Ok (length (frame_enc f), wr (frame_enc f) b))"
  using writesD [OF writes_frame [OF assms(1)] assms(2)] assms(2) by (simp add: frame_to_bytes_def)

lemma wire_len_enc: "frame_valid f \<Longrightarrow> wire_len f = Ok (length (frame_enc f))"
proof (cases f)
  case (ACK t d rs)
  assume "frame_valid f"
  with ACK have ok: "varint_ok t" "varint_ok d" "ranges_ok rs" by (simp_all add: frame_valid_def)
  from ok(3) obtain s e where r: "rev rs = (s, e) # rev (butlast rs)" "last rs = (s, e)"
    "ack_chain s (rev (butlast rs))" "s < e" "unat s < 2 ^ 62" "varint_ok (e - 1)" "varint_ok ((e - 1) - s)"
    "varint_ok (of_nat (length rs - 1))" "length (rev (butlast rs)) = length rs - 1"
    by (rule ranges_last)
  have "lens 1 [e - 1, t, d, of_nat (length rs - 1), (e - 1) - s]
      = Ok (1 + length (varints_enc [e - 1, t, d, of_nat (length rs - 1), (e - 1) - s]))"
    by (rule lens_eq) (use ok r in simp)
  then show ?thesis
    unfolding wire_len_def ACK frame.case r(1) list.case prod.case r(9) bnd.simps
    by (simp add: ack_blocks_lens_eq [OF r(3,5)] frame_enc_def r(2) length_varint_small)
next
  case (StreamFrame i data)
  assume "frame_valid f"
  with StreamFrame range_buf_len_ok [of data] have "varint_ok i" "varint_ok (rb_off data)" "bytes_ok (rb_data data)"
    by (simp_all add: frame_valid_def)
  with StreamFrame show ?thesis
    by (simp add: wire_len_def frame_enc_def lens_eq bytes_enc_def rb_len_def length_varint_small del: lens.simps)
qed (simp_all add: wire_len_def frame_enc_def frame_valid_def lens_eq bytes_enc_def rb_len_def length_varint_small del: lens.simps)

text \<open>C13. Frames round trip. A valid frame, printed into a buffer, is parsed back as the same frame from the
  same offset in any packet type that may carry it, and both directions agree on where it ends. For ACK
  frames this includes the gap coding of the acknowledged ranges.\<close>

theorem frame_roundtrip:
  assumes "frame_valid f" "framed f" "frame_allowed pkt f" "octets_ok b" "frame_to_bytes f b = Ok (n, b')"
  shows "frame_from_bytes pkt (b'\<lparr>off := off b\<rparr>) = Ok (f, b') \<and> off b' = off b + n"
proof -
  from assms(5) have p: "frame_put f b = Ok b'" by (auto simp: frame_to_bytes_def)
  from writes_reads [OF writes_frame [OF assms(1)] reads_framed [OF assms(1-3)] assms(4) p]
  have "frame_from_bytes pkt (b'\<lparr>off := off b\<rparr>) = Ok (f, b')" .
  with assms(5) frame_to_bytes_eq [OF assms(1,4)] show ?thesis by (auto split: if_splits)
qed

lemma frame_roundtrip_witness:
  "\<exists>n b'. frame_to_bytes (ACK 7 8 [(1, 3), (10, 12)]) (with_slice (replicate 9 0)) = Ok (n, b')
    \<and> frame_from_bytes Short (b'\<lparr>off := 0\<rparr>) = Ok (ACK 7 8 [(1, 3), (10, 12)], b')"
proof -
  let ?f = "ACK 7 8 [(1, 3), (10, 12)]" and ?b = "with_slice (replicate 9 0)"
  have "is_ok (frame_to_bytes ?f ?b)" by code_simp
  then obtain n b' where run: "frame_to_bytes ?f ?b = Ok (n, b')" by (auto simp: is_ok_def split: res.splits)
  have "frame_valid ?f" by (simp add: frame_valid_def ranges_ok_def rs_wf_def bt_wf_def rs_nonempty_def)
  from frame_roundtrip [OF this _ _ octets_ok_with_slice run, of Short] run show ?thesis
    by (simp add: framed_def frame_allowed_def with_slice_def)
qed

text \<open>C14. The announced length is the printed length: for every valid frame \<open>wire_len\<close> returns, and
  \<open>to_bytes\<close> writes exactly so many bytes or, if the buffer is smaller, reports \<open>BufferTooShort\<close>; neither
  panics.\<close>

theorem frame_wire_len:
  assumes "frame_valid f" "octets_ok b"
  shows "\<exists>n. wire_len f = Ok n \<and>
    (case frame_to_bytes f b of
       Ok (k, b') \<Rightarrow> k = n \<and> n \<le> cap b \<and> off b' = off b + n \<and> length (buf b') = length (buf b)
     | Err e \<Rightarrow> e = BufferTooShort \<and> cap b < n
     | Panic \<Rightarrow> False)"
  using wire_len_enc [OF assms(1)] assms(2) by (auto simp: frame_to_bytes_eq [OF assms] length_buf_wr)

lemma frame_wire_len_witness:
  "\<exists>b'. wire_len (BlockInfo 4 100 1 200 70000) = Ok 11
    \<and> frame_to_bytes (BlockInfo 4 100 1 200 70000) (with_slice (replicate 11 0)) = Ok (11, b')"
proof -
  let ?f = "BlockInfo 4 100 1 200 70000" and ?b = "with_slice (replicate 11 0)"
  have "frame_valid ?f" by (simp add: frame_valid_def)
  note eq = frame_wire_len [OF this octets_ok_with_slice [of "replicate 11 0"]]
  have n: "wire_len ?f = Ok 11" by (simp add: wire_len_def varint_len_def)
  with eq show ?thesis
    by (auto simp: cap_def with_slice_def split: res.splits prod.splits)
qed

text \<open>Parsing a frame never panics, whatever bytes arrive, and every parsed frame consumes at least one
  byte of the unchanged buffer and is allowed in the packet's type.\<close>

theorem frame_from_bytes_total:
  "case frame_from_bytes pkt b of Panic \<Rightarrow> False | Err e \<Rightarrow> True
   | Ok (f, b') \<Rightarrow> frame_allowed pkt f \<and> buf b' = buf b \<and> off b < off b' \<and> off b' \<le> off b + cap b"
proof (cases "frame_from_bytes pkt b")
  case (Ok p)
  then obtain f b' where p: "frame_from_bytes pkt b = Ok (f, b')" by (cases p) auto
  then have "frame_allowed pkt f" by (auto simp: frame_from_bytes_def split: if_splits)
  moreover have "off b \<noteq> off b'" using frame_progress [OF p] parses_cases [OF parses_frame [of pkt], of b] p
    by (auto simp: cap_def)
  ultimately show ?thesis using parses_cases [OF parses_frame [of pkt], of b] p by simp
next
  case Panic
  then show ?thesis using parses_cases [OF parses_frame [of pkt], of b] by simp
qed simp

text \<open>A packet's payload round trips: the loop of \<open>Connection::recv\<close> cuts the concatenation of printed
  frames, followed by padding, into exactly these frames, in order.\<close>

theorem payload_roundtrip:
  assumes "\<forall>f \<in> set fs. frame_valid f \<and> framed f \<and> frame_allowed ty f"
  shows "parse_payload ty (with_slice (concat (map frame_enc fs) @ replicate k 0))
    = Ok (fs @ (if k = 0 then [] else [Padding k]))"
proof -
  have "parse_payload ty b = Ok (fs @ (if k = 0 then [] else [Padding k]))"
    if "as_ref b = concat (map frame_enc fs) @ replicate k 0" for b
    using assms that
  proof (induction fs arbitrary: b)
    case Nil
    then show ?case using parse_payload_padding [of b k ty] by simp
  next
    case (Cons f fs)
    then have r: "reads (frame_enc f) f (frame_from_bytes ty)" and ne: "frame_enc f \<noteq> []"
      using reads_framed frame_enc_nonempty by auto
    have b: "as_ref b = frame_enc f @ (concat (map frame_enc fs) @ replicate k 0)" using Cons.prems(2) by simp
    then have "as_ref (advance (length (frame_enc f)) b) = concat (map frame_enc fs) @ replicate k 0"
      by (simp add: as_ref_advance)
    from Cons.IH [OF _ this] Cons.prems(1) show ?case unfolding parse_payload_reads [OF r ne b] by simp
  qed
  then show ?thesis by simp
qed

lemma payload_roundtrip_witness:
  "parse_payload Short (with_slice (frame_enc Ping @ frame_enc (MaxData 5) @ [0, 0])) = Ok [Ping, MaxData 5, Padding 2]"
  using payload_roundtrip [of "[Ping, MaxData 5]" Short 2]
  by (simp add: frame_valid_def framed_def frame_allowed_def replicate_Suc [of 1, unfolded Suc_1])

end
