(* ===== verification/Float64.thy ===== *)
theory Float64
  imports Complex_Main Prelude
begin

text \<open>
  The \<open>f64\<close> arithmetic of the sources: IEEE 754 binary64 with round-to-nearest-even, over exact
  rationals. A finite value is the rational it denotes (zero carries no sign: no modelled operation
  divides by a negative zero), beside the two infinities and NaN. Comparisons with NaN are false, as in
  Rust. The type is an instance of the arithmetic and order-symbol classes, so formulas read as in
  the sources.
\<close>

section \<open>Rounding\<close>

definition two_power :: "int \<Rightarrow> rat" where
  "two_power e = (if 0 \<le> e then 2 ^ nat e else 1 / 2 ^ nat (- e))"

fun bit_len :: "nat \<Rightarrow> nat" where
  "bit_len n = (if n = 0 then 0 else Suc (bit_len (n div 2)))"

declare bit_len.simps [simp del]

text \<open>The exponent of the leading bit of a positive rational: the \<open>e\<close> with
  \<open>two_power e \<le> x < two_power (e + 1)\<close>.\<close>

definition rat_exponent :: "rat \<Rightarrow> int" where
  "rat_exponent x =
     (if 1 \<le> x then int (bit_len (nat (floor x))) - 1 else - int (bit_len (nat (ceiling (1 / x) - 1))))"

definition round_half_even :: "rat \<Rightarrow> int" where
  "round_half_even x =
     (let n = floor x; f = x - of_int n in
      if f < 1 / 2 then n else if 1 / 2 < f then n + 1 else if even n then n else n + 1)"

datatype f64 = Fin rat | PInf | NInf | NaN

definition f64_max :: rat where
  "f64_max = (2 ^ 53 - 1) * 2 ^ 971"

definition f64_round :: "rat \<Rightarrow> f64" where
  "f64_round x =
     (if x = 0 then Fin 0
      else
        let ulp = two_power (max (rat_exponent \<bar>x\<bar>) (- 1022) - 52);
            y = of_int (round_half_even (x / ulp)) * ulp
        in if f64_max < y then PInf else if y < - f64_max then NInf else Fin y)"

section \<open>Arithmetic\<close>

fun f64_add :: "f64 \<Rightarrow> f64 \<Rightarrow> f64" where
  "f64_add (Fin x) (Fin y) = f64_round (x + y)"
| "f64_add NaN _ = NaN"
| "f64_add _ NaN = NaN"
| "f64_add PInf NInf = NaN"
| "f64_add NInf PInf = NaN"
| "f64_add PInf _ = PInf"
| "f64_add _ PInf = PInf"
| "f64_add NInf _ = NInf"
| "f64_add _ NInf = NInf"

fun f64_neg :: "f64 \<Rightarrow> f64" where
  "f64_neg (Fin x) = Fin (- x)"
| "f64_neg PInf = NInf"
| "f64_neg NInf = PInf"
| "f64_neg NaN = NaN"

text \<open>The infinity with the sign of a product or quotient.\<close>

definition f64_inf :: "bool \<Rightarrow> f64" where
  "f64_inf neg = (if neg then NInf else PInf)"

fun f64_mul :: "f64 \<Rightarrow> f64 \<Rightarrow> f64" where
  "f64_mul (Fin x) (Fin y) = f64_round (x * y)"
| "f64_mul NaN _ = NaN"
| "f64_mul _ NaN = NaN"
| "f64_mul (Fin x) PInf = (if x = 0 then NaN else f64_inf (x < 0))"
| "f64_mul (Fin x) NInf = (if x = 0 then NaN else f64_inf (0 < x))"
| "f64_mul PInf (Fin y) = (if y = 0 then NaN else f64_inf (y < 0))"
| "f64_mul NInf (Fin y) = (if y = 0 then NaN else f64_inf (0 < y))"
| "f64_mul PInf PInf = PInf"
| "f64_mul NInf NInf = PInf"
| "f64_mul _ _ = NInf"

fun f64_div :: "f64 \<Rightarrow> f64 \<Rightarrow> f64" where
  "f64_div (Fin x) (Fin y) =
     (if y = 0 then (if x = 0 then NaN else f64_inf (x < 0)) else f64_round (x / y))"
| "f64_div NaN _ = NaN"
| "f64_div _ NaN = NaN"
| "f64_div (Fin _) _ = Fin 0"
| "f64_div PInf (Fin y) = f64_inf (y < 0)"
| "f64_div NInf (Fin y) = f64_inf (0 \<le> y)"
| "f64_div _ _ = NaN"

fun f64_less :: "f64 \<Rightarrow> f64 \<Rightarrow> bool" where
  "f64_less (Fin x) (Fin y) \<longleftrightarrow> x < y"
| "f64_less NaN _ \<longleftrightarrow> False"
| "f64_less _ NaN \<longleftrightarrow> False"
| "f64_less NInf y \<longleftrightarrow> y \<noteq> NInf"
| "f64_less x PInf \<longleftrightarrow> x \<noteq> PInf"
| "f64_less _ _ \<longleftrightarrow> False"

text \<open>\<open>==\<close> of the sources.\<close>

definition f64_eq :: "f64 \<Rightarrow> f64 \<Rightarrow> bool" where
  "f64_eq x y \<longleftrightarrow> x = y \<and> x \<noteq> NaN"

instantiation f64 :: "{plus, minus, uminus, times, inverse, ord, zero, one}"
begin

definition plus_f64 :: "f64 \<Rightarrow> f64 \<Rightarrow> f64" where "plus_f64 = f64_add"
definition minus_f64 :: "f64 \<Rightarrow> f64 \<Rightarrow> f64" where "minus_f64 x y = f64_add x (f64_neg y)"
definition uminus_f64 :: "f64 \<Rightarrow> f64" where "uminus_f64 = f64_neg"
definition times_f64 :: "f64 \<Rightarrow> f64 \<Rightarrow> f64" where "times_f64 = f64_mul"
definition divide_f64 :: "f64 \<Rightarrow> f64 \<Rightarrow> f64" where "divide_f64 = f64_div"
definition inverse_f64 :: "f64 \<Rightarrow> f64" where "inverse_f64 = f64_div (Fin 1)"
definition less_f64 :: "f64 \<Rightarrow> f64 \<Rightarrow> bool" where "less_f64 = f64_less"
definition less_eq_f64 :: "f64 \<Rightarrow> f64 \<Rightarrow> bool" where "less_eq_f64 x y \<longleftrightarrow> f64_less x y \<or> f64_eq x y"
definition zero_f64 :: f64 where "zero_f64 = Fin 0"
definition one_f64 :: f64 where "one_f64 = Fin 1"

instance ..

end

text \<open>\<open>f64::min\<close> and \<open>f64::max\<close>: the other argument when one is NaN.\<close>

definition fmin :: "f64 \<Rightarrow> f64 \<Rightarrow> f64" where
  "fmin x y = (if x = NaN then y else if y = NaN then x else if y < x then y else x)"

definition fmax :: "f64 \<Rightarrow> f64 \<Rightarrow> f64" where
  "fmax x y = (if x = NaN then y else if y = NaN then x else if x < y then y else x)"

text \<open>Conversions: \<open>as f64\<close> rounds, \<open>as u64\<close> truncates and saturates (0 for NaN).\<close>

definition f64_of_nat :: "nat \<Rightarrow> f64" where
  "f64_of_nat n = f64_round (of_nat n)"

definition f64_of_u64 :: "u64 \<Rightarrow> f64" where
  "f64_of_u64 w = f64_of_nat (unat w)"

fun f64_to_u64 :: "f64 \<Rightarrow> u64" where
  "f64_to_u64 (Fin x) = (if x \<le> 0 then 0 else if 2 ^ 64 - 1 \<le> x then - 1 else of_int (floor x))"
| "f64_to_u64 PInf = - 1"
| "f64_to_u64 _ = 0"

section \<open>The order\<close>

lemmas f64_ops = plus_f64_def minus_f64_def uminus_f64_def times_f64_def divide_f64_def less_f64_def
  less_eq_f64_def zero_f64_def one_f64_def

lemma f64_less_irrefl: "\<not> (x :: f64) < x"
  by (cases x) (simp_all add: f64_ops)

lemma f64_less_trans: "(x :: f64) < y \<Longrightarrow> y < z \<Longrightarrow> x < z"
  by (cases x; cases y; cases z) (auto simp: f64_ops)

lemma f64_not_nan: "(x :: f64) < y \<Longrightarrow> x \<noteq> NaN \<and> y \<noteq> NaN"
  by (cases x; cases y) (auto simp: f64_ops)

lemma f64_linear: "x \<noteq> NaN \<Longrightarrow> y \<noteq> NaN \<Longrightarrow> (x :: f64) < y \<or> x = y \<or> y < x"
  by (cases x; cases y) (auto simp: f64_ops)

section \<open>Exact values\<close>

lemma bit_len_upper: "n < 2 ^ bit_len n"
proof (induction n rule: bit_len.induct)
  case (1 n)
  show ?case
  proof (cases "n = 0")
    case False
    with 1 have "n div 2 < 2 ^ bit_len (n div 2)" by blast
    then have "n < 2 * 2 ^ bit_len (n div 2)" by linarith
    with False show ?thesis by (simp add: bit_len.simps [of n])
  qed (simp add: bit_len.simps)
qed

lemma bit_len_lower: "0 < n \<Longrightarrow> 0 < bit_len n \<and> 2 ^ (bit_len n - 1) \<le> n"
proof (induction n rule: bit_len.induct)
  case (1 n)
  have b: "bit_len n = Suc (bit_len (n div 2))" using 1(2) by (simp add: bit_len.simps [of n])
  show ?case
  proof (cases "n div 2 = 0")
    case True
    then have "bit_len (n div 2) = 0" by (simp add: bit_len.simps)
    with b 1(2) show ?thesis by simp
  next
    case False
    with 1 have "0 < bit_len (n div 2)" and le: "2 ^ (bit_len (n div 2) - 1) \<le> n div 2" by auto
    then have "(2::nat) ^ bit_len (n div 2) = 2 * 2 ^ (bit_len (n div 2) - 1)"
      by (metis power_minus_mult mult.commute)
    with le b show ?thesis by simp
  qed
qed

lemma two_power_pos [simp]: "0 < two_power e"
  by (simp add: two_power_def)

lemma two_power_powi: "two_power e = 2 powi e"
  by (simp add: two_power_def power_int_def field_simps)

lemma two_power_add: "two_power (a + b) = two_power a * two_power b"
  by (simp add: two_power_powi power_int_add)

lemma two_power_less: "two_power a < two_power b \<Longrightarrow> a < b"
  using power_int_increasing [of b a "2 :: rat"] by (fastforce simp: two_power_powi not_less)

lemma rat_exponent_lower:
  assumes "0 < x"
  shows "two_power (rat_exponent x) \<le> x"
proof (cases "1 \<le> x")
  case True
  let ?n = "nat (floor x)"
  have n: "0 < ?n" using True by simp
  have "two_power (rat_exponent x) = 2 ^ (bit_len ?n - 1)"
    using bit_len_lower [OF n] True by (auto simp: rat_exponent_def two_power_def nat_diff_distrib)
  also have "\<dots> = of_nat (2 ^ (bit_len ?n - 1))" by simp
  also have "\<dots> \<le> (of_nat ?n :: rat)" using bit_len_lower [OF n] by (simp only: of_nat_le_iff)
  also have "\<dots> \<le> x" using True by (simp add: of_nat_nat)
  finally show ?thesis .
next
  case False
  let ?n = "nat (ceiling (1 / x) - 1)"
  have "1 < 1 / x" using False assms by (simp add: field_simps)
  then have c: "1 < ceiling (1 / x)" by linarith
  have e: "two_power (rat_exponent x) = 1 / 2 ^ bit_len ?n"
    using False by (auto simp: rat_exponent_def two_power_def)
  have "1 / x \<le> of_int (ceiling (1 / x))" by (rule le_of_int_ceiling)
  also have "\<dots> = of_nat ?n + 1"
  proof -
    have "0 \<le> ceiling (1 / x) - 1" using c by linarith
    from nat_0_le [OF this] have "ceiling (1 / x) = int ?n + 1" by linarith
    then show ?thesis by (metis of_int_1 of_int_add of_int_of_nat_eq)
  qed
  also have "\<dots> \<le> (2::rat) ^ bit_len ?n"
  proof -
    have "of_nat (?n + 1) \<le> (of_nat (2 ^ bit_len ?n) :: rat)"
      unfolding of_nat_le_iff using bit_len_upper [of ?n] by linarith
    then show ?thesis by simp
  qed
  finally show ?thesis using assms by (simp add: e field_simps)
qed

lemma round_half_even_int [simp]: "round_half_even (of_int n) = n"
  by (simp add: round_half_even_def Let_def)

text \<open>A rational with at most 53 significant bits is not rounded.\<close>

lemma f64_round_exact:
  assumes "x = of_int n * two_power k" "\<bar>n\<bar> < 2 ^ 53" "- 1074 \<le> k" "k \<le> 971"
  shows "f64_round x = Fin x"
proof (cases "x = 0")
  case True
  then show ?thesis by (simp add: f64_round_def)
next
  case False
  define e where "e = max (rat_exponent \<bar>x\<bar>) (- 1022) - 52"
  have abs: "\<bar>x\<bar> = of_int \<bar>n\<bar> * two_power k" using assms(1) by (simp add: abs_mult less_imp_le)
  also have "\<dots> < 2 ^ 53 * two_power k"
  proof -
    have "(of_int \<bar>n\<bar> :: rat) < of_int (2 ^ 53)" using assms(2) by (simp only: of_int_less_iff)
    then show ?thesis by (intro mult_strict_right_mono) simp_all
  qed
  also have "\<dots> = two_power (53 + k)" unfolding two_power_add by (simp add: two_power_def)
  finally have "two_power (rat_exponent \<bar>x\<bar>) < two_power (53 + k)"
    using rat_exponent_lower [of "\<bar>x\<bar>"] False by simp
  then have "rat_exponent \<bar>x\<bar> < 53 + k" by (rule two_power_less)
  then have ek: "e \<le> k" using assms(3) by (simp add: e_def)
  then obtain m where m: "k = e + int m" by (metis zle_iff_zadd)
  have "x / two_power e = of_int (n * 2 ^ m)"
    using assms(1) two_power_pos [of e] unfolding m two_power_add by (simp add: two_power_def)
  then have r: "of_int (round_half_even (x / two_power e)) * two_power e = x"
    using two_power_pos [of e] by (metis less_irrefl nonzero_eq_divide_eq round_half_even_int)
  have "\<bar>x\<bar> \<le> f64_max"
  proof -
    have "(of_int \<bar>n\<bar> :: rat) \<le> of_int (2 ^ 53 - 1)" using assms(2) by (simp only: of_int_le_iff)
    then have "\<bar>x\<bar> \<le> (2 ^ 53 - 1) * two_power k" unfolding abs by (intro mult_right_mono) (simp_all add: less_imp_le)
    also have "two_power k \<le> two_power 971"
    proof (rule ccontr)
      assume "\<not> two_power k \<le> two_power 971"
      then have "971 < k" by (intro two_power_less) simp
      then show False using assms(4) by simp
    qed
    then have "(2 ^ 53 - 1) * two_power k \<le> (2 ^ 53 - 1) * two_power 971" by (intro mult_left_mono) simp_all
    finally show ?thesis by (simp only: f64_max_def two_power_def) simp
  qed
  then have "\<not> f64_max < x" "\<not> x < - f64_max" by linarith+
  with False r show ?thesis by (simp add: f64_round_def e_def Let_def)
qed

text \<open>Rounding does not leave an interval from 0 to a representable integer.\<close>

lemma round_half_even_le:
  assumes "x \<le> of_int k"
  shows "round_half_even x \<le> k"
proof -
  have le: "floor x \<le> k" using assms by (simp add: floor_le_iff)
  show ?thesis
  proof (cases "floor x = k")
    case True
    then have "x - of_int (floor x) \<le> 0" using assms by simp
    with True show ?thesis by (auto simp: round_half_even_def Let_def)
  next
    case False
    with le have "floor x + 1 \<le> k" by simp
    with le show ?thesis by (auto simp: round_half_even_def Let_def)
  qed
qed

lemma round_half_even_ge: "0 \<le> x \<Longrightarrow> 0 \<le> round_half_even x"
  by (auto simp: round_half_even_def Let_def le_floor_iff intro: add_nonneg_nonneg)

lemma f64_round_within:
  assumes "0 \<le> x" "x \<le> of_int n" "n < 2 ^ 53"
  shows "\<exists>y. f64_round x = Fin y \<and> 0 \<le> y \<and> y \<le> of_int n"
proof (cases "x = 0")
  case True
  with assms show ?thesis by (simp add: f64_round_def)
next
  case False
  with assms(1) have pos: "0 < x" by simp
  define e where "e = max (rat_exponent \<bar>x\<bar>) (- 1022) - 52"
  have "rat_exponent x < 53"
  proof (rule ccontr)
    assume "\<not> rat_exponent x < 53"
    then have "two_power 53 \<le> two_power (rat_exponent x)"
      unfolding two_power_powi by (intro power_int_increasing) simp_all
    also have "\<dots> \<le> x" using pos by (rule rat_exponent_lower)
    also have "\<dots> \<le> of_int n" by (rule assms(2))
    also have "\<dots> < of_int (2 ^ 53)" using assms(3) by (simp only: of_int_less_iff)
    finally show False by (simp add: two_power_def)
  qed
  then have e: "e \<le> 0" using pos by (simp add: e_def)
  have ulp: "0 < two_power e" by (rule two_power_pos)
  have "of_int n / two_power e = (of_int (n * 2 ^ nat (- e)) :: rat)" using e by (cases "e = 0") (simp_all add: two_power_def)
  then have "x / two_power e \<le> of_int (n * 2 ^ nat (- e))" using assms(2) ulp by (metis divide_right_mono less_imp_le)
  then have "round_half_even (x / two_power e) \<le> n * 2 ^ nat (- e)" by (rule round_half_even_le)
  then have "of_int (round_half_even (x / two_power e)) \<le> (of_int (n * 2 ^ nat (- e)) :: rat)" by (simp only: of_int_le_iff)
  then have "of_int (round_half_even (x / two_power e)) * two_power e \<le> of_int (n * 2 ^ nat (- e)) * two_power e"
    using ulp by (simp add: mult_right_mono)
  also have "\<dots> = of_int n" using e by (cases "e = 0") (simp_all add: two_power_def)
  finally have le: "of_int (round_half_even (x / two_power e)) * two_power e \<le> (of_int n :: rat)" .
  have ge: "0 \<le> of_int (round_half_even (x / two_power e)) * two_power e"
    using assms(1) ulp round_half_even_ge [of "x / two_power e"] by (simp add: less_imp_le)
  have "of_int n < (of_int (2 ^ 53) :: rat)" using assms(3) by (simp only: of_int_less_iff)
  also have "\<dots> \<le> f64_max" by (simp add: f64_max_def)
  finally have big: "of_int n < f64_max" .
  have "f64_round x = Fin (of_int (round_half_even (x / two_power e)) * two_power e)"
    using False le ge big by (simp add: f64_round_def e_def Let_def)
  with le ge show ?thesis by blast
qed

lemma f64_round_int: "\<bar>n\<bar> < 2 ^ 53 \<Longrightarrow> f64_round (of_int n) = Fin (of_int n)"
  by (rule f64_round_exact [of _ n 0]) (simp_all add: two_power_def)

lemma f64_round_numeral [simp]:
  "f64_round 0 = Fin 0" "f64_round 1 = Fin 1" "(numeral w :: int) < 2 ^ 53 \<Longrightarrow> f64_round (numeral w) = Fin (numeral w)"
  "(numeral w :: int) < 2 ^ 53 \<Longrightarrow> f64_round (- numeral w) = Fin (- numeral w)"
  using f64_round_int [of 0] f64_round_int [of 1] f64_round_int [of "numeral w"] f64_round_int [of "- numeral w"] by simp_all

lemma f64_of_nat_exact: "n < 2 ^ 53 \<Longrightarrow> f64_of_nat n = Fin (of_nat n)"
  using f64_round_int [of "int n"] by (simp add: f64_of_nat_def)

lemma f64_of_u64_exact: "unat w < 2 ^ 53 \<Longrightarrow> f64_of_u64 w = Fin (of_nat (unat w))"
  by (simp add: f64_of_u64_def f64_of_nat_exact)

lemma f64_round_dyadic:
  assumes "(numeral w :: int) < 2 ^ 53"
  shows "f64_round (numeral w / 2) = Fin (numeral w / 2)" "f64_round (numeral w / 4) = Fin (numeral w / 4)"
    "f64_round (numeral w / 8) = Fin (numeral w / 8)"
  using assms
    f64_round_exact [of "numeral w / 2" "numeral w" "- 1"] f64_round_exact [of "numeral w / 4" "numeral w" "- 2"]
    f64_round_exact [of "numeral w / 8" "numeral w" "- 3"]
  by (simp_all add: two_power_def)

lemma f64_round_unit:
  "f64_round (1 / 2) = Fin (1 / 2)" "f64_round (1 / 4) = Fin (1 / 4)" "f64_round (1 / 8) = Fin (1 / 8)"
  using f64_round_exact [of "1 / 2" 1 "- 1"] f64_round_exact [of "1 / 4" 1 "- 2"] f64_round_exact [of "1 / 8" 1 "- 3"]
  by (simp_all add: two_power_def)

text \<open>For evaluating concrete values.\<close>

lemmas f64_eval = f64_ops f64_eq_def fmin_def fmax_def f64_of_u64_exact f64_of_nat_exact f64_round_dyadic f64_round_unit

end
