(* ===== verification/Scheduler.thy ===== *)
theory Scheduler
  imports Float64
begin

text \<open>
  The block schedulers of \<open>src/scheduler/\<close>: which of the blocks (streams with a deadline and a
  priority) sends next, and which is dropped. The DTP scheduler weighs the remaining time to the
  deadline against the priority, both scaled by the unsent ratio, and takes the smallest weight; the
  basic scheduler finishes one block before the next. A scheduler of the trait object is a value of
  the datatype \<open>scheduler\<close>. The foreign functions that the C scheduler calls with the feature
  \<open>interface\<close> are a parameter (\<open>None\<close> without the feature).
\<close>

section \<open>Blocks and schedulers\<close>

record block =
  blk_id :: u64
  blk_deadline :: u64
  blk_priority :: u64
  blk_create_time :: u64
  blk_size :: u64
  blk_remaining :: u64

datatype scheduler_type = SchedBasic | SchedDTP | SchedC | SchedDynamic

definition scheduler_type_from_str :: "string \<Rightarrow> scheduler_type result" where
  "scheduler_type_from_str name =
     (if name = ''Basic'' \<or> name = ''basic'' then Ok SchedBasic
      else if name = ''DTP'' \<or> name = ''Dtp'' \<or> name = ''dtp'' then Ok SchedDTP
      else if name = ''C'' \<or> name = ''c'' then Ok SchedC
      else if name = ''Dynamic'' \<or> name = ''dynamic'' \<or> name = ''Dyn'' \<or> name = ''dyn'' then Ok SchedDynamic
      else Err SchedulerTypeError)"

record dtp_scheduler =
  ds_ddl :: u64
  ds_size :: u64
  ds_prio :: u64
  ds_last_block_id :: "u64 option"
  ds_max_prio :: u64
  ds_alpha :: f64
  ds_beta :: f64

definition dtp_default :: dtp_scheduler where
  "dtp_default = \<lparr>ds_ddl = 0, ds_size = 0, ds_prio = 999999999, ds_last_block_id = None, ds_max_prio = 2,
     ds_alpha = Fin (1 / 2), ds_beta = Fin 100000\<rparr>"

record c_interface =
  ci_select_block :: "block list \<Rightarrow> u64 \<Rightarrow> u64 \<Rightarrow> u64 \<Rightarrow> u64"
  ci_should_drop_block :: "block \<Rightarrow> f64 \<Rightarrow> f64 \<Rightarrow> u64 \<Rightarrow> u64 \<Rightarrow> bool"

datatype scheduler = BasicScheduler "u64 option" | DtpScheduler dtp_scheduler | CScheduler

text \<open>\<open>DynScheduler::default()\<close> by the crate's features \<open>interface\<close> and \<open>basic-scheduler\<close>, and
  \<open>DynScheduler::init\<close>.\<close>

definition scheduler_default :: "bool \<Rightarrow> bool \<Rightarrow> scheduler" where
  "scheduler_default interface basic =
     (if interface then CScheduler else if basic then BasicScheduler None else DtpScheduler dtp_default)"

definition new_scheduler :: "bool \<Rightarrow> bool \<Rightarrow> scheduler_type \<Rightarrow> scheduler" where
  "new_scheduler interface basic stype =
     (case stype of SchedBasic \<Rightarrow> BasicScheduler None | SchedDTP \<Rightarrow> DtpScheduler dtp_default
      | SchedC \<Rightarrow> CScheduler | SchedDynamic \<Rightarrow> scheduler_default interface basic)"

definition scheduler_init :: "bool \<Rightarrow> bool \<Rightarrow> scheduler_type \<Rightarrow> scheduler" where
  "scheduler_init interface basic stype =
     (if stype \<noteq> SchedDynamic then new_scheduler interface basic stype else scheduler_default interface basic)"

section \<open>The DTP scheduler\<close>

definition dtp_remaining_time :: "f64 \<Rightarrow> f64 \<Rightarrow> u64 \<Rightarrow> block \<Rightarrow> f64" where
  "dtp_remaining_time pacing_rate rtt current_time block =
     (let passed_time = current_time - blk_create_time block;
          one_way_delay = rtt / Fin 2
      in f64_of_u64 (blk_deadline block) - f64_of_u64 passed_time - one_way_delay
         - (f64_of_u64 (blk_remaining block) / (pacing_rate * Fin 1024)) * Fin 1000)"

definition dtp_weight :: "f64 \<Rightarrow> f64 \<Rightarrow> u64 \<Rightarrow> dtp_scheduler \<Rightarrow> block \<Rightarrow> f64" where
  "dtp_weight pacing_rate rtt current_time s block =
     (let remaining_time = dtp_remaining_time pacing_rate rtt current_time block;
          ddl = f64_of_u64 (blk_deadline block);
          remaining_time_weight =
            (if remaining_time > Fin 0 then remaining_time / ddl
             else fmin (Fin 1) ((- remaining_time) / ddl) + ds_beta s);
          unsent_ratio = f64_of_u64 (blk_remaining block) / f64_of_u64 (blk_size block)
      in (((Fin 1 - ds_alpha s) * remaining_time_weight)
          + ds_alpha s * f64_of_u64 (blk_priority block) / f64_of_u64 (ds_max_prio s)) * unsent_ratio)"

text \<open>The loop over the blocks. Its state: the index of the best block so far (\<open>None\<close> is the source's
  \<open>-1\<close>), its weight, deadline, remaining size and priority.\<close>

record dtp_best =
  db_index :: "nat option"
  db_weight :: f64
  db_ddl :: u64
  db_size :: u64
  db_prio :: u64

definition dtp_better :: "block list \<Rightarrow> f64 \<Rightarrow> block \<Rightarrow> dtp_best \<Rightarrow> bool" where
  "dtp_better blocks weight block best =
     (case db_index best of None \<Rightarrow> True
      | Some i \<Rightarrow> db_weight best > weight
          \<or> (f64_eq (db_weight best) weight \<and> blk_remaining block < blk_remaining (blocks ! i)))"

fun dtp_scan :: "(block \<Rightarrow> f64) \<Rightarrow> block list \<Rightarrow> nat \<Rightarrow> block list \<Rightarrow> dtp_best \<Rightarrow> dtp_best" where
  "dtp_scan w blocks i [] best = best"
| "dtp_scan w blocks i (block # rest) best =
     dtp_scan w blocks (Suc i) rest
       (if blk_remaining block > 0 \<and> dtp_better blocks (w block) block best
        then \<lparr>db_index = Some i, db_weight = w block, db_ddl = blk_deadline block, db_size = blk_remaining block,
              db_prio = blk_priority block\<rparr>
        else best)"

definition dtp_select_block :: "block list \<Rightarrow> f64 \<Rightarrow> f64 \<Rightarrow> u64 \<Rightarrow> dtp_scheduler \<Rightarrow> (u64 \<times> dtp_scheduler) result" where
  "dtp_select_block blocks pacing_rate rtt current_time s =
     (let best = dtp_scan (dtp_weight pacing_rate rtt current_time s) blocks 0 blocks
            \<lparr>db_index = None, db_weight = Fin 10000000, db_ddl = 0, db_size = 0, db_prio = 0\<rparr>;
          s = s\<lparr>ds_ddl := db_ddl best, ds_size := db_size best, ds_prio := db_prio best\<rparr>
      in case db_index best of
           Some i \<Rightarrow> Ok (blk_id (blocks ! i), s\<lparr>ds_last_block_id := Some (blk_id (blocks ! i))\<rparr>)
         | None \<Rightarrow> bnd (unwrap (ds_last_block_id s)) (\<lambda>bid. Ok (bid, s)))"

definition dtp_should_drop_block :: "block \<Rightarrow> u64 \<Rightarrow> bool" where
  "dtp_should_drop_block block current_time \<longleftrightarrow> current_time - blk_create_time block > blk_deadline block"

section \<open>The other schedulers, and dispatch\<close>

text \<open>\<open>len\<close> is an \<open>i128\<close>, initially \<open>-1\<close>.\<close>

definition basic_select_block :: "block list \<Rightarrow> u64 option \<Rightarrow> (u64 \<times> u64 option) result" where
  "basic_select_block blocks last_id =
     (let len = (case last_id of None \<Rightarrow> - 1
                 | Some bid \<Rightarrow> (case find (\<lambda>b. blk_id b = bid) blocks of
                     Some b \<Rightarrow> int (unat (blk_remaining b)) | None \<Rightarrow> - 1))
      in if len \<le> 0
         then (case blocks of [] \<Rightarrow> Panic | b # _ \<Rightarrow> Ok (blk_id b, Some (blk_id b)))
         else bnd (unwrap last_id) (\<lambda>bid. Ok (bid, last_id)))"

definition c_select_block :: "c_interface option \<Rightarrow> block list \<Rightarrow> u64 \<Rightarrow> u64 \<Rightarrow> u64" where
  "c_select_block ffi blocks next_packet_id current_time =
     (case ffi of Some f \<Rightarrow> ci_select_block f blocks (of_nat (length blocks)) next_packet_id current_time
      | None \<Rightarrow> 0)"

definition c_should_drop_block :: "c_interface option \<Rightarrow> block \<Rightarrow> f64 \<Rightarrow> f64 \<Rightarrow> u64 \<Rightarrow> u64 \<Rightarrow> bool" where
  "c_should_drop_block ffi block bandwidth rtt next_packet_id current_time =
     (case ffi of Some f \<Rightarrow> ci_should_drop_block f block bandwidth rtt next_packet_id current_time
      | None \<Rightarrow> False)"

definition select_block :: "c_interface option \<Rightarrow> block list \<Rightarrow> f64 \<Rightarrow> f64 \<Rightarrow> u64 \<Rightarrow> u64 \<Rightarrow> scheduler
    \<Rightarrow> (u64 \<times> scheduler) result" where
  "select_block ffi blocks pacing_rate rtt next_packet_id current_time s =
     (case s of
        BasicScheduler last_id \<Rightarrow>
          bnd (basic_select_block blocks last_id) (\<lambda>(bid, last_id). Ok (bid, BasicScheduler last_id))
      | DtpScheduler d \<Rightarrow>
          bnd (dtp_select_block blocks pacing_rate rtt current_time d) (\<lambda>(bid, d). Ok (bid, DtpScheduler d))
      | CScheduler \<Rightarrow> Ok (c_select_block ffi blocks next_packet_id current_time, s))"

text \<open>The trait's default for \<open>should_drop_block\<close> is never.\<close>

definition should_drop_block :: "c_interface option \<Rightarrow> block \<Rightarrow> f64 \<Rightarrow> f64 \<Rightarrow> u64 \<Rightarrow> u64 \<Rightarrow> scheduler \<Rightarrow> bool" where
  "should_drop_block ffi block pacing_rate rtt next_packet_id current_time s =
     (case s of
        BasicScheduler _ \<Rightarrow> False
      | DtpScheduler _ \<Rightarrow> dtp_should_drop_block block current_time
      | CScheduler \<Rightarrow> c_should_drop_block ffi block pacing_rate rtt next_packet_id current_time)"

section \<open>The loop of the DTP scheduler\<close>

text \<open>After \<open>k\<close> blocks the best block is one with data left, and no other such block comes before it in the
  order by weight and then remaining size.\<close>

definition dtp_le :: "(block \<Rightarrow> f64) \<Rightarrow> block \<Rightarrow> block \<Rightarrow> bool" where
  "dtp_le w a b \<longleftrightarrow> w a < w b \<or> w a = w b \<and> blk_remaining a \<le> blk_remaining b"

definition dtp_inv :: "(block \<Rightarrow> f64) \<Rightarrow> block list \<Rightarrow> nat \<Rightarrow> dtp_best \<Rightarrow> bool" where
  "dtp_inv w blocks k best \<longleftrightarrow>
     (case db_index best of
        None \<Rightarrow> (\<forall>b \<in> set (take k blocks). blk_remaining b = 0) \<and> db_ddl best = 0 \<and> db_size best = 0 \<and> db_prio best = 0
      | Some i \<Rightarrow> i < k \<and> i < length blocks \<and> blk_remaining (blocks ! i) > 0 \<and> db_weight best = w (blocks ! i)
          \<and> db_ddl best = blk_deadline (blocks ! i) \<and> db_size best = blk_remaining (blocks ! i)
          \<and> db_prio best = blk_priority (blocks ! i)
          \<and> (\<forall>b \<in> set (take k blocks). blk_remaining b > 0 \<longrightarrow> dtp_le w (blocks ! i) b))"

lemma dtp_le_trans: "dtp_le w a b \<Longrightarrow> dtp_le w b c \<Longrightarrow> dtp_le w a c"
  unfolding dtp_le_def using f64_less_trans by (metis order_trans)

lemma dtp_better_le:
  assumes "db_index best = Some i" "db_weight best = w (blocks ! i)" "w block \<noteq> NaN" "w (blocks ! i) \<noteq> NaN"
  shows "if dtp_better blocks (w block) block best then dtp_le w block (blocks ! i) else dtp_le w (blocks ! i) block"
proof -
  have better: "dtp_better blocks (w block) block best \<longleftrightarrow> w block < w (blocks ! i)
      \<or> w (blocks ! i) = w block \<and> blk_remaining block < blk_remaining (blocks ! i)"
    using assms by (simp add: dtp_better_def f64_eq_def)
  consider "w block < w (blocks ! i)" | "w block = w (blocks ! i)" | "w (blocks ! i) < w block"
    using f64_linear [OF assms(3,4)] by blast
  then show ?thesis
  proof cases
    case 1
    then show ?thesis by (simp add: better dtp_le_def)
  next
    case 2
    then show ?thesis using better by (auto simp: dtp_le_def f64_less_irrefl not_less less_imp_le)
  next
    case 3
    then have "\<not> w block < w (blocks ! i)" "w (blocks ! i) \<noteq> w block"
      using f64_less_trans f64_less_irrefl by metis+
    with 3 show ?thesis by (simp add: better dtp_le_def)
  qed
qed

lemma dtp_inv_step:
  assumes inv: "dtp_inv w blocks k best" and k: "k < length blocks" "blocks ! k = block"
    and nan: "\<forall>b \<in> set blocks. w b \<noteq> NaN"
  shows "dtp_inv w blocks (Suc k)
      (if blk_remaining block > 0 \<and> dtp_better blocks (w block) block best
        then \<lparr>db_index = Some k, db_weight = w block, db_ddl = blk_deadline block, db_size = blk_remaining block,
              db_prio = blk_priority block\<rparr>
        else best)"
proof -
  have set: "set (take (Suc k) blocks) = insert block (set (take k blocks))"
    using k by (simp add: take_Suc_conv_app_nth)
  have refl: "dtp_le w block block" by (simp add: dtp_le_def)
  show ?thesis
  proof (cases "db_index best")
    case None
    with inv k set refl show ?thesis by (auto simp: dtp_inv_def dtp_better_def word_gt_0)
  next
    case (Some i)
    with inv have i: "i < k" "i < length blocks" "db_weight best = w (blocks ! i)"
      and min: "\<forall>b \<in> set (take k blocks). blk_remaining b > 0 \<longrightarrow> dtp_le w (blocks ! i) b"
      by (simp_all add: dtp_inv_def)
    have "w block \<noteq> NaN" "w (blocks ! i) \<noteq> NaN" using nan k i by (metis nth_mem)+
    note cmp = dtp_better_le [OF Some i(3) this]
    show ?thesis
    proof (cases "blk_remaining block > 0 \<and> dtp_better blocks (w block) block best")
      case True
      with cmp have "dtp_le w block (blocks ! i)" by simp
      then have "\<forall>b \<in> set (take k blocks). blk_remaining b > 0 \<longrightarrow> dtp_le w block b"
        using min dtp_le_trans by blast
      with True k set refl show ?thesis by (simp add: dtp_inv_def)
    next
      case False
      with cmp have "blk_remaining block > 0 \<longrightarrow> dtp_le w (blocks ! i) block" by auto
      with False Some inv set show ?thesis by (auto simp: dtp_inv_def)
    qed
  qed
qed

lemma dtp_scan_inv:
  assumes "dtp_inv w blocks k best" "k \<le> length blocks" "rest = drop k blocks" "\<forall>b \<in> set blocks. w b \<noteq> NaN"
  shows "dtp_inv w blocks (length blocks) (dtp_scan w blocks k rest best)"
  using assms
proof (induction rest arbitrary: k best)
  case Nil
  then show ?case by simp
next
  case (Cons block rest)
  then have k: "k < length blocks" by (metis drop_all leI list.discI)
  then have b: "blocks ! k = block" "rest = drop (Suc k) blocks"
    using Cons.prems(3) by (metis Cons_nth_drop_Suc list.inject)+
  from dtp_inv_step [OF Cons.prems(1) k b(1) Cons.prems(4)] Cons.IH [OF _ _ b(2) Cons.prems(4)] k
  show ?case by simp
qed

lemma dtp_scan_select:
  assumes "\<forall>b \<in> set blocks. dtp_weight pacing_rate rtt now s b \<noteq> NaN"
  shows "if \<exists>b \<in> set blocks. blk_remaining b > 0
    then \<exists>b s'. b \<in> set blocks \<and> blk_remaining b > 0
      \<and> (\<forall>b' \<in> set blocks. blk_remaining b' > 0 \<longrightarrow> dtp_le (dtp_weight pacing_rate rtt now s) b b')
      \<and> dtp_select_block blocks pacing_rate rtt now s = Ok (blk_id b, s') \<and> ds_last_block_id s' = Some (blk_id b)
      \<and> ds_ddl s' = blk_deadline b \<and> ds_size s' = blk_remaining b \<and> ds_prio s' = blk_priority b
    else dtp_select_block blocks pacing_rate rtt now s =
      (case ds_last_block_id s of None \<Rightarrow> Panic
       | Some bid \<Rightarrow> Ok (bid, s\<lparr>ds_ddl := 0, ds_size := 0, ds_prio := 0\<rparr>))"
proof -
  let ?w = "dtp_weight pacing_rate rtt now s"
  let ?init = "\<lparr>db_index = None, db_weight = Fin 10000000, db_ddl = 0, db_size = 0, db_prio = 0\<rparr>"
  define best where "best = dtp_scan ?w blocks 0 blocks ?init"
  have "dtp_inv ?w blocks 0 ?init" by (simp add: dtp_inv_def)
  from dtp_scan_inv [OF this _ _ assms] have inv: "dtp_inv ?w blocks (length blocks) best"
    by (simp add: best_def)
  show ?thesis
  proof (cases "db_index best")
    case None
    then show ?thesis using inv
      by (auto simp: dtp_inv_def dtp_select_block_def best_def [symmetric] Let_def split: option.splits)
  next
    case (Some i)
    with inv have "blocks ! i \<in> set blocks" "blk_remaining (blocks ! i) > 0"
      "\<forall>b' \<in> set blocks. blk_remaining b' > 0 \<longrightarrow> dtp_le ?w (blocks ! i) b'"
      "db_ddl best = blk_deadline (blocks ! i)" "db_size best = blk_remaining (blocks ! i)"
      "db_prio best = blk_priority (blocks ! i)" by (simp_all add: dtp_inv_def)
    with Some show ?thesis
      by (auto simp: dtp_select_block_def best_def [symmetric] Let_def intro!: bexI [of _ "blocks ! i"] exI [of _ "blocks ! i"])
  qed
qed

section \<open>Properties\<close>

text \<open>The choice of the DTP scheduler. As long as no weight is NaN, it selects a block with data left
  whose weight is minimal, the smaller remaining size deciding between equal weights, and remembers it; if
  no block has data left it repeats the last choice, and panics when there was none.\<close>

theorem dtp_select_block_correct:
  assumes "\<forall>b \<in> set blocks. dtp_weight pacing_rate rtt now s b \<noteq> NaN"
  shows "if \<exists>b \<in> set blocks. blk_remaining b > 0
    then \<exists>b s'. b \<in> set blocks \<and> blk_remaining b > 0
      \<and> (\<forall>b' \<in> set blocks. blk_remaining b' > 0 \<longrightarrow> dtp_le (dtp_weight pacing_rate rtt now s) b b')
      \<and> dtp_select_block blocks pacing_rate rtt now s = Ok (blk_id b, s') \<and> ds_last_block_id s' = Some (blk_id b)
      \<and> ds_ddl s' = blk_deadline b \<and> ds_size s' = blk_remaining b \<and> ds_prio s' = blk_priority b
    else dtp_select_block blocks pacing_rate rtt now s =
      (case ds_last_block_id s of None \<Rightarrow> Panic
       | Some bid \<Rightarrow> Ok (bid, s\<lparr>ds_ddl := 0, ds_size := 0, ds_prio := 0\<rparr>))"
  using dtp_scan_select [OF assms] .

lemma dtp_select_block_correct_witness:
  "\<exists>s'. dtp_select_block
     [\<lparr>blk_id = 4, blk_deadline = 4000, blk_priority = 1, blk_create_time = 10, blk_size = 1024, blk_remaining = 1024\<rparr>,
      \<lparr>blk_id = 8, blk_deadline = 2000, blk_priority = 1, blk_create_time = 10, blk_size = 1024, blk_remaining = 1024\<rparr>]
     (Fin 1) (Fin 0) 10 dtp_default = Ok (8, s')"
proof -
  let ?a = "\<lparr>blk_id = 4, blk_deadline = 4000, blk_priority = 1, blk_create_time = 10, blk_size = 1024, blk_remaining = 1024\<rparr>"
  let ?b = "\<lparr>blk_id = 8, blk_deadline = 2000, blk_priority = 1, blk_create_time = 10, blk_size = 1024, blk_remaining = 1024\<rparr>"
  let ?w = "dtp_weight (Fin 1) (Fin 0) 10 dtp_default"
  have w: "?w ?a = Fin (5 / 8)" "?w ?b = Fin (1 / 2)"
    by (simp_all add: dtp_weight_def dtp_remaining_time_def dtp_default_def f64_eval)
  then have "\<forall>b \<in> set [?a, ?b]. ?w b \<noteq> NaN" by simp
  from dtp_select_block_correct [OF this] obtain b s' where b: "b \<in> set [?a, ?b]"
    "\<forall>b' \<in> set [?a, ?b]. blk_remaining b' > 0 \<longrightarrow> dtp_le ?w b b'"
    "dtp_select_block [?a, ?b] (Fin 1) (Fin 0) 10 dtp_default = Ok (blk_id b, s')" by auto
  from b(2) have "dtp_le ?w b ?b" by simp
  then have "b \<noteq> ?a" using w by (auto simp: dtp_le_def f64_ops)
  with b(1,3) show ?thesis by auto
qed

end
