(* ===== verification/Params.thy ===== *)
theory Params
  imports Wire
begin

text \<open>
  The transport parameters of \<open>src/lib.rs\<close> (\<open>struct TransportParams\<close>): a sequence of entries, each a
  16-bit identifier and a value behind its 16-bit length, all behind a 16-bit total length. The theory
  models decoding with its validation and encoding into the 128-byte buffer, and shows that a peer
  decodes what was encoded, except for the three parameters whose zero value is not their default.
\<close>

section \<open>The parameters\<close>

record transport_params =
  tp_original_connection_id :: "u8 list option"
  tp_max_idle_timeout :: u64
  tp_stateless_reset_token :: "u8 list option"
  tp_max_packet_size :: u64
  tp_initial_max_data :: u64
  tp_initial_max_stream_data_bidi_local :: u64
  tp_initial_max_stream_data_bidi_remote :: u64
  tp_initial_max_stream_data_uni :: u64
  tp_initial_max_streams_bidi :: u64
  tp_initial_max_streams_uni :: u64
  tp_ack_delay_exponent :: u64
  tp_max_ack_delay :: u64
  tp_disable_active_migration :: bool
  tp_active_conn_id_limit :: u64

definition tp_default :: transport_params where
  "tp_default =
     \<lparr>tp_original_connection_id = None, tp_max_idle_timeout = 0, tp_stateless_reset_token = None,
      tp_max_packet_size = 65527, tp_initial_max_data = 0, tp_initial_max_stream_data_bidi_local = 0,
      tp_initial_max_stream_data_bidi_remote = 0, tp_initial_max_stream_data_uni = 0,
      tp_initial_max_streams_bidi = 0, tp_initial_max_streams_uni = 0, tp_ack_delay_exponent = 3,
      tp_max_ack_delay = 25, tp_disable_active_migration = False, tp_active_conn_id_limit = 0\<rparr>"

section \<open>Decoding\<close>

text \<open>The match on the identifier; \<open>val\<close> is the value's buffer.\<close>

definition tp_decode_param :: "bool \<Rightarrow> u16 \<Rightarrow> octets \<Rightarrow> transport_params \<Rightarrow> transport_params result" where
  "tp_decode_param is_server pid val tp =
     (if pid = 0x0000 then
        if is_server then Err InvalidTransportParam
        else Ok (tp\<lparr>tp_original_connection_id := Some (as_ref val)\<rparr>)
      else if pid = 0x0001 then bnd (get_varint val) (\<lambda>(v, _). Ok (tp\<lparr>tp_max_idle_timeout := v\<rparr>))
      else if pid = 0x0002 then
        if is_server then Err InvalidTransportParam
        else bnd (get_bytes 16 val) (\<lambda>(t, _). Ok (tp\<lparr>tp_stateless_reset_token := Some (as_ref t)\<rparr>))
      else if pid = 0x0003 then
        bnd (get_varint val) (\<lambda>(v, _).
        if v < 1200 then Err InvalidTransportParam else Ok (tp\<lparr>tp_max_packet_size := v\<rparr>))
      else if pid = 0x0004 then bnd (get_varint val) (\<lambda>(v, _). Ok (tp\<lparr>tp_initial_max_data := v\<rparr>))
      else if pid = 0x0005 then
        bnd (get_varint val) (\<lambda>(v, _). Ok (tp\<lparr>tp_initial_max_stream_data_bidi_local := v\<rparr>))
      else if pid = 0x0006 then
        bnd (get_varint val) (\<lambda>(v, _). Ok (tp\<lparr>tp_initial_max_stream_data_bidi_remote := v\<rparr>))
      else if pid = 0x0007 then
        bnd (get_varint val) (\<lambda>(v, _). Ok (tp\<lparr>tp_initial_max_stream_data_uni := v\<rparr>))
      else if pid = 0x0008 then
        bnd (get_varint val) (\<lambda>(m, _).
        if m > 2 ^ 60 then Err StreamLimit else Ok (tp\<lparr>tp_initial_max_streams_bidi := m\<rparr>))
      else if pid = 0x0009 then
        bnd (get_varint val) (\<lambda>(m, _).
        if m > 2 ^ 60 then Err StreamLimit else Ok (tp\<lparr>tp_initial_max_streams_uni := m\<rparr>))
      else if pid = 0x000a then
        bnd (get_varint val) (\<lambda>(e, _).
        if e > 20 then Err InvalidTransportParam else Ok (tp\<lparr>tp_ack_delay_exponent := e\<rparr>))
      else if pid = 0x000b then
        bnd (get_varint val) (\<lambda>(d, _).
        if d \<ge> 2 ^ 14 then Err InvalidTransportParam else Ok (tp\<lparr>tp_max_ack_delay := d\<rparr>))
      else if pid = 0x000c then Ok (tp\<lparr>tp_disable_active_migration := True\<rparr>)
      else if pid = 0x000d then if is_server then Err InvalidTransportParam else Ok tp
      else if pid = 0x000e then bnd (get_varint val) (\<lambda>(v, _). Ok (tp\<lparr>tp_active_conn_id_limit := v\<rparr>))
      else Ok tp)"

lemma get_bytes_u16_cap: "get_bytes_with_u16_length b = Ok (v, b') \<Longrightarrow> cap b' < cap b"
proof -
  assume "get_bytes_with_u16_length b = Ok (v, b')"
  then obtain n b1 where "get_u16 b = Ok (n, b1)" "get_bytes (unat n) b1 = Ok (v, b')"
    by (auto simp: get_bytes_with_u16_length_def)
  then have "cap b1 < cap b" "cap b' \<le> cap b1"
    by (auto dest: u16c.get_cap_less get_bytes_advance simp: cap_def)
  then show ?thesis by simp
qed

text \<open>\<open>while params.cap() > 0\<close>.\<close>

function tp_decode_loop :: "bool \<Rightarrow> octets \<Rightarrow> transport_params \<Rightarrow> transport_params result" where
  "tp_decode_loop is_server params tp =
     (if 0 < cap params
      then bnd (get_u16 params) (\<lambda>(pid, params).
           bnd (get_bytes_with_u16_length params) (\<lambda>(val, params).
           bnd (tp_decode_param is_server pid val tp) (\<lambda>tp. tp_decode_loop is_server params tp)))
      else Ok tp)"
  by pat_completeness auto
termination
  by (relation "measure (\<lambda>(s, params, tp). cap params)")
    (auto dest!: u16c.get_cap_less get_bytes_u16_cap)

declare tp_decode_loop.simps [simp del]

definition tp_decode :: "u8 list \<Rightarrow> bool \<Rightarrow> transport_params result" where
  "tp_decode bs is_server =
     (let b = with_slice bs in
      bnd (get_bytes_with_u16_length b) (\<lambda>(params, _). tp_decode_loop is_server params tp_default))"

section \<open>Encoding\<close>

text \<open>An entry with a variable-length integer, left out when it is zero, and one with a byte string.\<close>

definition tp_put_int :: "u16 \<Rightarrow> u64 \<Rightarrow> octets \<Rightarrow> octets result" where
  "tp_put_int pid v b =
     (if v \<noteq> 0
      then bnd (put_u16 pid b) (\<lambda>b. bnd (varint_len v) (\<lambda>n. bnd (put_u16 (of_nat n) b) (put_varint v)))
      else Ok b)"

definition tp_put_bytes :: "u16 \<Rightarrow> bool \<Rightarrow> u8 list option \<Rightarrow> octets \<Rightarrow> octets result" where
  "tp_put_bytes pid is_server v b =
     (case v of
        Some xs \<Rightarrow> if is_server then bnd (put_u16 pid b) (\<lambda>b. bnd (put_u16 (of_nat (length xs)) b) (put_bytes xs)) else Ok b
      | None \<Rightarrow> Ok b)"

definition tp_encode_params :: "transport_params \<Rightarrow> bool \<Rightarrow> octets \<Rightarrow> octets result" where
  "tp_encode_params tp is_server b =
     bnd (tp_put_bytes 0x0000 is_server (tp_original_connection_id tp) b) (\<lambda>b.
     bnd (tp_put_int 0x0001 (tp_max_idle_timeout tp) b) (\<lambda>b.
     bnd (tp_put_bytes 0x0002 is_server (tp_stateless_reset_token tp) b) (\<lambda>b.
     bnd (tp_put_int 0x0003 (tp_max_packet_size tp) b) (\<lambda>b.
     bnd (tp_put_int 0x0004 (tp_initial_max_data tp) b) (\<lambda>b.
     bnd (tp_put_int 0x0005 (tp_initial_max_stream_data_bidi_local tp) b) (\<lambda>b.
     bnd (tp_put_int 0x0006 (tp_initial_max_stream_data_bidi_remote tp) b) (\<lambda>b.
     bnd (tp_put_int 0x0007 (tp_initial_max_stream_data_uni tp) b) (\<lambda>b.
     bnd (tp_put_int 0x0008 (tp_initial_max_streams_bidi tp) b) (\<lambda>b.
     bnd (tp_put_int 0x0009 (tp_initial_max_streams_uni tp) b) (\<lambda>b.
     bnd (tp_put_int 0x000a (tp_ack_delay_exponent tp) b) (\<lambda>b.
     bnd (tp_put_int 0x000b (tp_max_ack_delay tp) b) (\<lambda>b.
     bnd (if tp_disable_active_migration tp then bnd (put_u16 0x000c b) (put_u16 0) else Ok b) (\<lambda>b.
     tp_put_int 0x000e (tp_active_conn_id_limit tp) b)))))))))))))"

text \<open>The parameters are written to a local array of 128 bytes first; the result is the filled part of \<open>out\<close>.\<close>

definition tp_encode :: "transport_params \<Rightarrow> bool \<Rightarrow> u8 list \<Rightarrow> u8 list result" where
  "tp_encode tp is_server out =
     bnd (tp_encode_params tp is_server (with_slice (replicate 128 0))) (\<lambda>params.
     let params_len = off params; b = with_slice out in
     bnd (put_u16 (of_nat params_len) b) (\<lambda>b.
     bnd (put_bytes (take params_len (buf params)) b) (\<lambda>b.
     Ok (take (off b) (buf b)))))"

section \<open>The entries\<close>

definition tp_entry :: "u16 \<times> u8 list \<Rightarrow> u8 list" where
  "tp_entry e = be_enc 2 (fst e) @ be_enc 2 (of_nat (length (snd e)) :: u16) @ snd e"

definition tp_int :: "u16 \<Rightarrow> u64 \<Rightarrow> (u16 \<times> u8 list) list" where
  "tp_int pid v = (if v \<noteq> 0 then [(pid, varint_enc v)] else [])"

definition tp_bytes :: "u16 \<Rightarrow> bool \<Rightarrow> u8 list option \<Rightarrow> (u16 \<times> u8 list) list" where
  "tp_bytes pid is_server v = (case v of Some xs \<Rightarrow> if is_server then [(pid, xs)] else [] | None \<Rightarrow> [])"

definition tp_entries :: "transport_params \<Rightarrow> bool \<Rightarrow> (u16 \<times> u8 list) list" where
  "tp_entries tp s =
     tp_bytes 0 s (tp_original_connection_id tp) @ tp_int 1 (tp_max_idle_timeout tp)
     @ tp_bytes 2 s (tp_stateless_reset_token tp) @ tp_int 3 (tp_max_packet_size tp)
     @ tp_int 4 (tp_initial_max_data tp) @ tp_int 5 (tp_initial_max_stream_data_bidi_local tp)
     @ tp_int 6 (tp_initial_max_stream_data_bidi_remote tp) @ tp_int 7 (tp_initial_max_stream_data_uni tp)
     @ tp_int 8 (tp_initial_max_streams_bidi tp) @ tp_int 9 (tp_initial_max_streams_uni tp)
     @ tp_int 10 (tp_ack_delay_exponent tp) @ tp_int 11 (tp_max_ack_delay tp)
     @ (if tp_disable_active_migration tp then [(12, [])] else []) @ tp_int 14 (tp_active_conn_id_limit tp)"

definition tp_enc :: "(u16 \<times> u8 list) list \<Rightarrow> u8 list" where
  "tp_enc es = concat (map tp_entry es)"

lemma tp_enc_simps [simp]: "tp_enc [] = []" "tp_enc (e # es) = tp_entry e @ tp_enc es" "tp_enc (es @ fs) = tp_enc es @ tp_enc fs"
  by (simp_all add: tp_enc_def)

fun tp_decode_entries :: "bool \<Rightarrow> (u16 \<times> u8 list) list \<Rightarrow> transport_params \<Rightarrow> transport_params result" where
  "tp_decode_entries s [] tp = Ok tp"
| "tp_decode_entries s ((pid, xs) # es) tp =
     bnd (tp_decode_param s pid (with_slice xs) tp) (tp_decode_entries s es)"

lemma tp_decode_entries_append:
  "tp_decode_entries s (es @ fs) tp = bnd (tp_decode_entries s es tp) (tp_decode_entries s fs)"
  by (induction s es tp rule: tp_decode_entries.induct) (simp_all add: bnd_assoc cong: bnd_cong)

subsection \<open>Encoding writes the entries\<close>

definition tp_ints_ok :: "transport_params \<Rightarrow> bool" where
  "tp_ints_ok tp \<longleftrightarrow> (\<forall>v \<in> {tp_max_idle_timeout tp, tp_max_packet_size tp, tp_initial_max_data tp,
     tp_initial_max_stream_data_bidi_local tp, tp_initial_max_stream_data_bidi_remote tp,
     tp_initial_max_stream_data_uni tp, tp_initial_max_streams_bidi tp, tp_initial_max_streams_uni tp,
     tp_ack_delay_exponent tp, tp_max_ack_delay tp, tp_active_conn_id_limit tp}. varint_ok v)"

lemma writes_tp_int: "varint_ok v \<Longrightarrow> writes (tp_enc (tp_int pid v)) (tp_put_int pid v)"
proof -
  assume v: "varint_ok v"
  show ?thesis
  proof (cases "v = 0")
    case True
    then show ?thesis by (simp add: tp_int_def tp_put_int_def [abs_def] writes_Ok)
  next
    case False
    have "writes (be_enc 2 pid @ be_enc 2 (of_nat (length (varint_enc v)) :: u16) @ varint_enc v)
      (\<lambda>b. bnd (put_u16 pid b) (\<lambda>b. bnd (put_u16 (of_nat (length (varint_enc v))) b) (put_varint v)))"
      by (intro writes_bnd writes_u16 writes_varint v)
    with False v show ?thesis
      by (simp add: tp_int_def tp_put_int_def [abs_def] tp_entry_def varint_len_eq)
  qed
qed

lemma writes_tp_bytes: "writes (tp_enc (tp_bytes pid s v)) (tp_put_bytes pid s v)"
proof (cases v)
  case None
  then show ?thesis by (simp add: tp_bytes_def tp_put_bytes_def [abs_def] writes_Ok)
next
  case (Some xs)
  have "writes (be_enc 2 pid @ be_enc 2 (of_nat (length xs) :: u16) @ xs)
      (\<lambda>b. bnd (put_u16 pid b) (\<lambda>b. bnd (put_u16 (of_nat (length xs)) b) (put_bytes xs)))"
    by (intro writes_bnd writes_u16 writes_bytes)
  with Some show ?thesis by (simp add: tp_bytes_def tp_put_bytes_def [abs_def] tp_entry_def writes_Ok)
qed

lemma writes_tp_flag:
  "writes (tp_enc (if c then [(12, [])] else [])) (\<lambda>b. if c then bnd (put_u16 0x000c b) (put_u16 0) else Ok b)"
proof (cases c)
  case True
  have "writes (be_enc 2 (12 :: u16) @ be_enc 2 (0 :: u16)) (\<lambda>b. bnd (put_u16 0x000c b) (put_u16 0))"
    by (intro writes_bnd writes_u16)
  with True show ?thesis by (simp add: tp_entry_def)
next
  case False
  then show ?thesis by (simp add: writes_Ok)
qed

lemma writes_tp_params:
  assumes "tp_ints_ok tp"
  shows "writes (tp_enc (tp_entries tp s)) (tp_encode_params tp s)"
  unfolding tp_entries_def tp_encode_params_def [abs_def] tp_enc_simps(3)
  by (intro writes_bnd writes_tp_bytes writes_tp_int writes_tp_flag;
      use assms in \<open>simp only: tp_ints_ok_def ball_simps; blast\<close>)

subsection \<open>Decoding reads the entries\<close>

lemma reads_bytes_u16:
  assumes "length xs < 2 ^ 16"
  shows "reads (be_enc 2 (of_nat (length xs) :: u16) @ xs) (with_slice xs) get_bytes_with_u16_length"
proof -
  have n: "unat (of_nat (length xs) :: u16) = length xs" using assms by (simp add: unat_of_nat)
  show ?thesis unfolding get_bytes_with_u16_length_def [abs_def]
    by (rule reads_bnd, rule reads_u16, rule reads_bytes) (simp only: n)
qed

lemma tp_decode_loop_entries:
  assumes "\<forall>e \<in> set es. length (snd e) < 2 ^ 16" "as_ref b = tp_enc es"
  shows "tp_decode_loop s b tp = tp_decode_entries s es tp"
  using assms
proof (induction es arbitrary: b tp)
  case Nil
  then have "cap b = 0" by (simp flip: length_as_ref)
  then show ?case by (simp add: tp_decode_loop.simps [of s b])
next
  case (Cons e es)
  obtain pid xs where e: "e = (pid, xs)" by (cases e)
  let ?b1 = "advance 2 b" and ?v = "be_enc 2 (of_nat (length xs) :: u16) @ xs"
  have b: "as_ref b = be_enc 2 pid @ ?v @ tp_enc es" using Cons.prems(2) by (simp add: e tp_entry_def)
  then have b1: "as_ref ?b1 = ?v @ tp_enc es" by (simp add: as_ref_advance)
  then have b1: "as_ref ?b1 = ?v @ tp_enc es" by simp
  then have b2: "as_ref (advance (length ?v) ?b1) = tp_enc es" by (rule as_ref_advance_append [OF _ refl])
  have "0 < cap b" using b by (simp flip: length_as_ref)
  moreover have "get_u16 b = Ok (pid, ?b1)" using readsD [OF reads_u16 b] by simp
  moreover have "length xs < 2 ^ 16" using Cons.prems(1) e by simp
  note readsD [OF reads_bytes_u16 [OF this] b1]
  ultimately show ?case
    using Cons.IH [OF _ b2] Cons.prems(1)
    by (simp add: tp_decode_loop.simps [of s b] e del: advance_advance cong: bnd_cong)
qed

lemma get_varint_val: "varint_ok v \<Longrightarrow> \<exists>b. get_varint (with_slice (varint_enc v)) = Ok (v, b)"
  using vi.get_enc [of v "with_slice (varint_enc v)" "[]"] by simp

lemma decode_int:
  assumes "varint_ok v"
  shows "tp_decode_entries s (tp_int pid v) t = (if v \<noteq> 0 then tp_decode_param s pid (with_slice (varint_enc v)) t else Ok t)"
  by (cases "tp_decode_param s pid (with_slice (varint_enc v)) t") (simp_all add: tp_int_def)

text \<open>Each optional entry sets its field, whether it is present or not, when the field starts with the
  value that absence stands for.\<close>

lemma decode_fields:
  assumes "varint_ok v"
  shows
    "tp_max_idle_timeout t = 0 \<Longrightarrow> tp_decode_entries s (tp_int 1 v) t = Ok (t\<lparr>tp_max_idle_timeout := v\<rparr>)"
    "tp_initial_max_data t = 0 \<Longrightarrow> tp_decode_entries s (tp_int 4 v) t = Ok (t\<lparr>tp_initial_max_data := v\<rparr>)"
    "tp_initial_max_stream_data_bidi_local t = 0 \<Longrightarrow>
      tp_decode_entries s (tp_int 5 v) t = Ok (t\<lparr>tp_initial_max_stream_data_bidi_local := v\<rparr>)"
    "tp_initial_max_stream_data_bidi_remote t = 0 \<Longrightarrow>
      tp_decode_entries s (tp_int 6 v) t = Ok (t\<lparr>tp_initial_max_stream_data_bidi_remote := v\<rparr>)"
    "tp_initial_max_stream_data_uni t = 0 \<Longrightarrow>
      tp_decode_entries s (tp_int 7 v) t = Ok (t\<lparr>tp_initial_max_stream_data_uni := v\<rparr>)"
    "tp_active_conn_id_limit t = 0 \<Longrightarrow> tp_decode_entries s (tp_int 14 v) t = Ok (t\<lparr>tp_active_conn_id_limit := v\<rparr>)"
    "tp_initial_max_streams_bidi t = 0 \<Longrightarrow> v \<le> 2 ^ 60 \<Longrightarrow>
      tp_decode_entries s (tp_int 8 v) t = Ok (t\<lparr>tp_initial_max_streams_bidi := v\<rparr>)"
    "tp_initial_max_streams_uni t = 0 \<Longrightarrow> v \<le> 2 ^ 60 \<Longrightarrow>
      tp_decode_entries s (tp_int 9 v) t = Ok (t\<lparr>tp_initial_max_streams_uni := v\<rparr>)"
    "1200 \<le> v \<Longrightarrow> tp_decode_entries s (tp_int 3 v) t = Ok (t\<lparr>tp_max_packet_size := v\<rparr>)"
    "v \<noteq> 0 \<Longrightarrow> v \<le> 20 \<Longrightarrow> tp_decode_entries s (tp_int 10 v) t = Ok (t\<lparr>tp_ack_delay_exponent := v\<rparr>)"
    "v \<noteq> 0 \<Longrightarrow> v < 2 ^ 14 \<Longrightarrow> tp_decode_entries s (tp_int 11 v) t = Ok (t\<lparr>tp_max_ack_delay := v\<rparr>)"
  using get_varint_val [OF assms]
  by (auto simp: decode_int [OF assms] tp_decode_param_def not_less not_le)

lemma decode_flag:
  "\<not> tp_disable_active_migration t \<Longrightarrow> tp_decode_entries s (if c then [(12, [])] else []) t
    = Ok (t\<lparr>tp_disable_active_migration := c\<rparr>)"
  by (simp add: tp_decode_param_def)

lemma decode_bytes:
  "tp_original_connection_id t = None \<Longrightarrow> (\<not> s \<Longrightarrow> v = None) \<Longrightarrow>
   tp_decode_entries (\<not> s) (tp_bytes 0 s v) t = Ok (t\<lparr>tp_original_connection_id := v\<rparr>)"
  "tp_stateless_reset_token t = None \<Longrightarrow> (\<not> s \<Longrightarrow> v = None) \<Longrightarrow> (\<And>x. v = Some x \<Longrightarrow> length x = 16) \<Longrightarrow>
   tp_decode_entries (\<not> s) (tp_bytes 2 s v) t = Ok (t\<lparr>tp_stateless_reset_token := v\<rparr>)"
  by (cases v; cases s; simp add: tp_bytes_def tp_decode_param_def get_bytes_append [of _ _ "[]"])+

text \<open>What can be sent and decoded: the limits that the decoder checks, integers below \<open>2 ^ 62\<close>, no
  server-only entries from a client, and none of the three values that cannot be expressed.\<close>

definition tp_valid :: "transport_params \<Rightarrow> bool \<Rightarrow> bool" where
  "tp_valid tp s \<longleftrightarrow> tp_ints_ok tp
     \<and> (\<not> s \<longrightarrow> tp_original_connection_id tp = None \<and> tp_stateless_reset_token tp = None)
     \<and> (\<forall>t. tp_stateless_reset_token tp = Some t \<longrightarrow> length t = 16)
     \<and> 1200 \<le> tp_max_packet_size tp \<and> tp_initial_max_streams_bidi tp \<le> 2 ^ 60 \<and> tp_initial_max_streams_uni tp \<le> 2 ^ 60
     \<and> tp_ack_delay_exponent tp \<noteq> 0 \<and> tp_ack_delay_exponent tp \<le> 20
     \<and> tp_max_ack_delay tp \<noteq> 0 \<and> tp_max_ack_delay tp < 2 ^ 14"

lemma decode_entries:
  assumes "tp_valid tp s"
  shows "tp_decode_entries (\<not> s) (tp_entries tp s) tp_default = Ok tp"
proof -
  have ok: "varint_ok (tp_max_idle_timeout tp)" "varint_ok (tp_max_packet_size tp)" "varint_ok (tp_initial_max_data tp)"
    "varint_ok (tp_initial_max_stream_data_bidi_local tp)" "varint_ok (tp_initial_max_stream_data_bidi_remote tp)"
    "varint_ok (tp_initial_max_stream_data_uni tp)" "varint_ok (tp_initial_max_streams_bidi tp)"
    "varint_ok (tp_initial_max_streams_uni tp)" "varint_ok (tp_ack_delay_exponent tp)" "varint_ok (tp_max_ack_delay tp)"
    "varint_ok (tp_active_conn_id_limit tp)"
    using assms by (simp_all add: tp_valid_def tp_ints_ok_def)
  have v: "\<not> s \<Longrightarrow> tp_original_connection_id tp = None" "\<not> s \<Longrightarrow> tp_stateless_reset_token tp = None"
    "\<And>t. tp_stateless_reset_token tp = Some t \<Longrightarrow> length t = 16" "1200 \<le> tp_max_packet_size tp"
    "tp_initial_max_streams_bidi tp \<le> 2 ^ 60" "tp_initial_max_streams_uni tp \<le> 2 ^ 60"
    "tp_ack_delay_exponent tp \<noteq> 0" "tp_ack_delay_exponent tp \<le> 20" "tp_max_ack_delay tp \<noteq> 0"
    "tp_max_ack_delay tp < 2 ^ 14" using assms by (simp_all add: tp_valid_def)
  show ?thesis
    using v unfolding tp_entries_def tp_decode_entries_append
    by (simp add: decode_fields decode_flag decode_bytes ok tp_default_def del: tp_decode_entries.simps)
qed

section \<open>Properties\<close>

lemma take_off_wr: "take (off (wr xs (with_slice ys))) (buf (wr xs (with_slice ys))) = xs"
  by (simp add: wr_def with_slice_def)

lemma tp_encode_eq:
  assumes "tp_ints_ok tp" "e = tp_enc (tp_entries tp s)"
  shows "tp_encode tp s out =
    (if length e \<le> 128 \<and> 2 + length e \<le> length out then Ok (be_enc 2 (of_nat (length e) :: u16) @ e)
     else Err BufferTooShort)"
proof -
  let ?z = "with_slice (replicate 128 0)"
  have off: "off (with_slice xs) = 0" for xs by (simp add: with_slice_def)
  have "writes e (tp_encode_params tp s)" unfolding assms(2) by (rule writes_tp_params [OF assms(1)])
  from writesD [OF this octets_ok_with_slice]
  have w: "tp_encode_params tp s ?z = (if 128 < length e then Err BufferTooShort else Ok (wr e ?z))"
    by (simp add: cap_def with_slice_def)
  have "writes (be_enc 2 (of_nat (length e) :: u16) @ e) (\<lambda>b. bnd (put_u16 (of_nat (length e)) b) (put_bytes e))"
    by (intro writes_bnd writes_u16 writes_bytes)
  from writesD [OF this octets_ok_with_slice [of out]]
  have o: "bnd (put_u16 (of_nat (length e)) (with_slice out)) (put_bytes e) =
      (if length out < 2 + length e then Err BufferTooShort
       else Ok (wr (be_enc 2 (of_nat (length e) :: u16) @ e) (with_slice out)))"
    by (simp add: cap_def with_slice_def)
  show ?thesis
  proof (cases "128 < length e")
    case True
    then show ?thesis by (simp add: tp_encode_def w)
  next
    case False
    have "tp_encode tp s out =
        bnd (bnd (put_u16 (of_nat (length e)) (with_slice out)) (put_bytes e)) (\<lambda>b. Ok (take (off b) (buf b)))"
      using False take_off_wr [of e "replicate 128 0"] by (simp add: tp_encode_def w off Let_def bnd_assoc)
    with False show ?thesis unfolding o by (simp add: take_off_wr not_less del: off_wr)
  qed
qed

lemma tp_encode_Ok:
  assumes "tp_ints_ok tp" "tp_encode tp s out = Ok bs"
  shows "length (tp_enc (tp_entries tp s)) \<le> 128
    \<and> bs = be_enc 2 (of_nat (length (tp_enc (tp_entries tp s))) :: u16) @ tp_enc (tp_entries tp s)"
  using assms(2) unfolding tp_encode_eq [OF assms(1) refl] by (auto split: if_splits)

lemma tp_decode_enc:
  assumes "length (tp_enc es) < 2 ^ 16"
  shows "tp_decode (be_enc 2 (of_nat (length (tp_enc es)) :: u16) @ tp_enc es) s = tp_decode_entries s es tp_default"
proof -
  have "length (snd e) < 2 ^ 16" if "e \<in> set es" for e
  proof -
    from that obtain xs ys where "es = xs @ e # ys" by (meson split_list)
    then have "length (snd e) \<le> length (tp_enc es)" by (simp add: tp_entry_def)
    then show ?thesis using assms by simp
  qed
  then have "\<forall>e \<in> set es. length (snd e) < 2 ^ 16" by blast
  note loop = tp_decode_loop_entries [OF this, of "with_slice (tp_enc es)" s tp_default]
  let ?b = "with_slice (be_enc 2 (of_nat (length (tp_enc es)) :: u16) @ tp_enc es)"
  have "as_ref ?b = (be_enc 2 (of_nat (length (tp_enc es)) :: u16) @ tp_enc es) @ []" by simp
  from readsD [OF reads_bytes_u16 [OF assms] this] loop show ?thesis by (simp add: tp_decode_def)
qed

text \<open>C18. Transport parameters round trip: what one side encodes the other decodes to the same parameters,
  present or absent, provided the values are within the decoder's limits and none of packet size,
  acknowledgement delay exponent and maximum delay is zero.\<close>

theorem transport_params_roundtrip:
  assumes "tp_valid tp is_server" "tp_encode tp is_server out = Ok bs"
  shows "tp_decode bs (\<not> is_server) = Ok tp"
proof -
  have "tp_ints_ok tp" using assms(1) by (simp add: tp_valid_def)
  from tp_encode_Ok [OF this assms(2)] have len: "length (tp_enc (tp_entries tp is_server)) < 2 ^ 16"
    and bs: "bs = be_enc 2 (of_nat (length (tp_enc (tp_entries tp is_server))) :: u16) @ tp_enc (tp_entries tp is_server)"
    by auto
  show ?thesis unfolding bs tp_decode_enc [OF len] by (rule decode_entries [OF assms(1)])
qed

lemma transport_params_roundtrip_witness:
  "\<exists>bs. tp_encode (tp_default\<lparr>tp_initial_max_data := 70000\<rparr>) False (replicate 40 0) = Ok bs
    \<and> tp_decode bs True = Ok (tp_default\<lparr>tp_initial_max_data := 70000\<rparr>)"
proof -
  let ?tp = "tp_default\<lparr>tp_initial_max_data := 70000\<rparr>"
  have valid: "tp_valid ?tp False" by (simp add: tp_valid_def tp_ints_ok_def tp_default_def varint_ok_def)
  then have ints: "tp_ints_ok ?tp" by (simp add: tp_valid_def)
  have "length (tp_enc (tp_entries ?tp False)) \<le> 38"
    by (simp add: tp_entries_def tp_default_def tp_bytes_def tp_int_def tp_entry_def length_varint_enc varint_class_def)
  then obtain bs where run: "tp_encode ?tp False (replicate 40 0) = Ok bs"
    by (simp add: tp_encode_eq [OF ints refl])
  from transport_params_roundtrip [OF valid run] run show ?thesis by simp
qed

text \<open>An acknowledgement delay exponent of zero is not transmitted: entries with value zero are left out,
  but the decoder takes a missing exponent to be three.\<close>

theorem ack_delay_exponent_zero_lost:
  "bnd (tp_encode (tp_default\<lparr>tp_ack_delay_exponent := 0\<rparr>) False (replicate 40 0)) (\<lambda>bs. tp_decode bs True)
    = Ok tp_default"
proof -
  let ?tp = "tp_default\<lparr>tp_ack_delay_exponent := 0\<rparr>"
  have ints: "tp_ints_ok ?tp" by (simp add: tp_ints_ok_def tp_default_def varint_ok_def)
  have "length (tp_enc (tp_entries ?tp False)) \<le> 38"
    by (simp add: tp_entries_def tp_default_def tp_bytes_def tp_int_def tp_entry_def length_varint_enc varint_class_def)
  then obtain bs where run: "tp_encode ?tp False (replicate 40 0) = Ok bs"
    by (simp add: tp_encode_eq [OF ints refl])
  from tp_encode_Ok [OF ints run] have len: "length (tp_enc (tp_entries ?tp False)) < 2 ^ 16"
    and bs: "bs = be_enc 2 (of_nat (length (tp_enc (tp_entries ?tp False))) :: u16) @ tp_enc (tp_entries ?tp False)"
    by auto
  have v: "varint_ok 65527" "varint_ok 25" by (simp_all add: varint_ok_def)
  have "tp_entries ?tp False = tp_int 3 65527 @ tp_int 11 25"
    by (simp add: tp_entries_def tp_default_def tp_bytes_def tp_int_def)
  then have "tp_decode_entries True (tp_entries ?tp False) tp_default = Ok tp_default"
    using decode_fields(9) [OF v(1)] decode_fields(11) [OF v(2)]
    by (simp add: tp_decode_entries_append tp_default_def del: tp_decode_entries.simps)
  then show ?thesis unfolding run bnd.simps bs tp_decode_enc [OF len] .
qed

definition tp_limits :: "bool \<Rightarrow> transport_params \<Rightarrow> bool" where
  "tp_limits is_server tp \<longleftrightarrow> 1200 \<le> tp_max_packet_size tp \<and> tp_initial_max_streams_bidi tp \<le> 2 ^ 60
     \<and> tp_initial_max_streams_uni tp \<le> 2 ^ 60 \<and> tp_ack_delay_exponent tp \<le> 20 \<and> tp_max_ack_delay tp < 2 ^ 14
     \<and> (is_server \<longrightarrow> tp_original_connection_id tp = None \<and> tp_stateless_reset_token tp = None)
     \<and> (\<forall>t. tp_stateless_reset_token tp = Some t \<longrightarrow> length t = 16)"

lemma tp_decode_param_no_panic: "tp_decode_param s pid val tp \<noteq> Panic"
  by (simp add: tp_decode_param_def bnd_Panic_iff vi.get_no_panic get_bytes_no_panic split: prod.splits)

lemma tp_decode_param_limits:
  "tp_decode_param s pid val tp = Ok tp' \<Longrightarrow> tp_limits s tp \<Longrightarrow> tp_limits s tp'"
  by (auto simp: tp_decode_param_def tp_limits_def not_less not_le dest: get_bytes_advance split: if_splits)

lemma get_bytes_u16_no_panic: "get_bytes_with_u16_length b \<noteq> Panic"
  by (simp add: get_bytes_with_u16_length_def bnd_Panic_iff u16c.get_no_panic get_bytes_no_panic split: prod.splits)

lemma tp_decode_loop_limits:
  "tp_limits s tp \<Longrightarrow> case tp_decode_loop s params tp of Panic \<Rightarrow> False | Err e \<Rightarrow> True | Ok tp' \<Rightarrow> tp_limits s tp'"
proof (induction s params tp rule: tp_decode_loop.induct)
  case (1 s params tp)
  show ?case
  proof (cases "0 < cap params")
    case False
    with 1 show ?thesis by (simp add: tp_decode_loop.simps [of s params])
  next
    case True
    show ?thesis
    proof (cases "get_u16 params")
      case Panic
      then show ?thesis using u16c.get_no_panic by blast
    next
      case (Err e)
      with True show ?thesis by (simp add: tp_decode_loop.simps [of s params])
    next
      case (Ok a)
      obtain pid p1 where a: "a = (pid, p1)" by (cases a)
      show ?thesis
      proof (cases "get_bytes_with_u16_length p1")
        case Panic
        then show ?thesis using get_bytes_u16_no_panic by blast
      next
        case (Err e)
        with True Ok a show ?thesis by (simp add: tp_decode_loop.simps [of s params])
      next
        case g: (Ok c)
        obtain val p2 where c: "c = (val, p2)" by (cases c)
        show ?thesis
        proof (cases "tp_decode_param s pid val tp")
          case Panic
          then show ?thesis using tp_decode_param_no_panic by blast
        next
          case (Err e)
          with True Ok a g c show ?thesis by (simp add: tp_decode_loop.simps [of s params])
        next
          case t: (Ok tp')
          from tp_decode_param_limits [OF t "1.prems"]
          have "case tp_decode_loop s p2 tp' of Panic \<Rightarrow> False | Err e \<Rightarrow> True | Ok tp' \<Rightarrow> tp_limits s tp'"
            by (rule "1.IH" [OF True Ok [unfolded a] refl g [unfolded c] refl t])
          with True Ok a g c t show ?thesis by (simp add: tp_decode_loop.simps [of s params])
        qed
      qed
    qed
  qed
qed

text \<open>Decoding transport parameters never panics, and what it accepts keeps the protocol's limits: packet
  size, stream counts, acknowledgement delay, a reset token of 16 bytes, and from a client neither
  connection ID nor token.\<close>

theorem tp_decode_total:
  "case tp_decode bs is_server of Panic \<Rightarrow> False | Err e \<Rightarrow> True | Ok tp \<Rightarrow> tp_limits is_server tp"
proof (cases "get_bytes_with_u16_length (with_slice bs)")
  case (Ok p)
  have "tp_limits is_server tp_default" by (simp add: tp_limits_def tp_default_def)
  from tp_decode_loop_limits [OF this, of "fst p"] Ok show ?thesis by (simp add: tp_decode_def case_prod_beta')
qed (simp_all add: tp_decode_def get_bytes_u16_no_panic)

end
