(* ===== verification/Streams.thy ===== *)
theory Streams
  imports RecvBuf SendBuf Scheduler Params
begin

text \<open>
  Streams and the stream map of \<open>src/stream.rs\<close> (\<open>Stream\<close>, \<open>StreamMap\<close>): creation with the flow
  control limits of both sides and the enforcement of stream counts, the sets of readable, writable,
  canceled and nearly full streams, collection of completed streams, and the choice of the next
  stream to send with the deadline check that cancels blocks. Operations that change the map before
  they can fail return the map beside their result. The clock readings of \<open>SendBuf::new\<close> are
  arguments; the application data attached to a stream is left out, and the order in which a
  \<open>HashSet\<close> is listed is unspecified, so \<open>StreamIter\<close> is any enumeration of the set.
\<close>

section \<open>Streams\<close>

record stream =
  st_recv :: recv_buf
  st_send :: send_buf
  st_bidi :: bool
  st_local :: bool

definition stream_new :: "int \<Rightarrow> nat \<Rightarrow> u64 \<Rightarrow> u64 \<Rightarrow> bool \<Rightarrow> bool \<Rightarrow> stream" where
  "stream_new wall clock max_rx_data max_tx_data bidi local =
     \<lparr>st_recv = recv_new max_rx_data, st_send = send_new wall clock max_tx_data, st_bidi = bidi, st_local = local\<rparr>"

definition stream_new_full :: "int \<Rightarrow> nat \<Rightarrow> u64 \<Rightarrow> u64 \<Rightarrow> bool \<Rightarrow> bool \<Rightarrow> u64 \<Rightarrow> u64 \<Rightarrow> u64 \<Rightarrow> stream" where
  "stream_new_full wall clock max_rx_data max_tx_data bidi local deadline priority depend_id =
     \<lparr>st_recv = recv_new max_rx_data,
      st_send = send_new_full wall clock max_tx_data deadline priority depend_id, st_bidi = bidi, st_local = local\<rparr>"

definition stream_is_readable :: "stream \<Rightarrow> bool" where
  "stream_is_readable s = recv_ready (st_recv s)"

definition stream_is_writable :: "stream \<Rightarrow> bool" where
  "stream_is_writable s \<longleftrightarrow>
     \<not> sb_shutdown (st_send s) \<and> \<not> send_is_fin (st_send s) \<and> sb_off (st_send s) < sb_max_data (st_send s)"

definition stream_is_flushable :: "stream \<Rightarrow> bool" where
  "stream_is_flushable s \<longleftrightarrow> send_ready (st_send s) \<and> send_off (st_send s) < sb_max_data (st_send s)"

definition stream_is_complete :: "stream \<Rightarrow> bool" where
  "stream_is_complete s =
     (if st_bidi s then recv_is_fin (st_recv s) \<and> send_is_complete (st_send s)
      else if st_local s then send_is_complete (st_send s)
      else recv_is_fin (st_recv s))"

definition is_local :: "u64 \<Rightarrow> bool \<Rightarrow> bool" where
  "is_local stream_id is_server \<longleftrightarrow> stream_id AND 0x1 = (if is_server then 1 else 0)"

definition is_bidi :: "u64 \<Rightarrow> bool" where
  "is_bidi stream_id \<longleftrightarrow> stream_id AND 0x2 = 0"

section \<open>The stream map\<close>

record stream_map =
  sm_streams :: "u64 \<rightharpoonup> stream"
  sm_collected :: "u64 set"
  sm_peer_max_streams_bidi :: u64
  sm_peer_max_streams_uni :: u64
  sm_peer_opened_streams_bidi :: u64
  sm_peer_opened_streams_uni :: u64
  sm_local_max_streams_bidi :: u64
  sm_local_max_streams_bidi_next :: u64
  sm_local_max_streams_uni :: u64
  sm_local_max_streams_uni_next :: u64
  sm_local_opened_streams_bidi :: u64
  sm_local_opened_streams_uni :: u64
  sm_flushable :: "u64 list"
  sm_readable :: "u64 set"
  sm_writable :: "u64 set"
  sm_canceled :: "u64 set"
  sm_canceled_depend :: "u64 set"
  sm_almost_full :: "u64 set"
  sm_priority_weight :: "f64 option"
  sm_min_priority :: "u64 option"
  sm_scheduler :: scheduler

text \<open>\<open>interface\<close> and \<open>basic\<close> are the crate's scheduler features.\<close>

definition sm_new :: "bool \<Rightarrow> bool \<Rightarrow> u64 \<Rightarrow> u64 \<Rightarrow> scheduler_type \<Rightarrow> stream_map" where
  "sm_new interface basic max_streams_bidi max_streams_uni stype =
     \<lparr>sm_streams = Map.empty, sm_collected = {},
      sm_peer_max_streams_bidi = 0, sm_peer_max_streams_uni = 0,
      sm_peer_opened_streams_bidi = 0, sm_peer_opened_streams_uni = 0,
      sm_local_max_streams_bidi = max_streams_bidi, sm_local_max_streams_bidi_next = max_streams_bidi,
      sm_local_max_streams_uni = max_streams_uni, sm_local_max_streams_uni_next = max_streams_uni,
      sm_local_opened_streams_bidi = 0, sm_local_opened_streams_uni = 0,
      sm_flushable = [], sm_readable = {}, sm_writable = {}, sm_canceled = {}, sm_canceled_depend = {},
      sm_almost_full = {}, sm_priority_weight = None, sm_min_priority = None,
      sm_scheduler = scheduler_init interface basic stype\<rparr>"

definition sm_get :: "u64 \<Rightarrow> stream_map \<Rightarrow> stream option" where
  "sm_get sid m = sm_streams m sid"

definition sm_set_priority_weight :: "f64 \<Rightarrow> stream_map \<Rightarrow> stream_map" where
  "sm_set_priority_weight w m = m\<lparr>sm_priority_weight := Some w\<rparr>"

definition sm_set_min_priority :: "u64 \<Rightarrow> stream_map \<Rightarrow> stream_map" where
  "sm_set_min_priority p m = m\<lparr>sm_min_priority := Some p\<rparr>"

text \<open>The flow control limits of a new stream: to receive, and to send.\<close>

definition stream_limits :: "transport_params \<Rightarrow> transport_params \<Rightarrow> bool \<Rightarrow> bool \<Rightarrow> u64 \<times> u64" where
  "stream_limits local_params peer_params local bidi =
     (if local then
        if bidi then (tp_initial_max_stream_data_bidi_local local_params,
                      tp_initial_max_stream_data_bidi_remote peer_params)
        else (0, tp_initial_max_stream_data_uni peer_params)
      else
        if bidi then (tp_initial_max_stream_data_bidi_remote local_params,
                      tp_initial_max_stream_data_bidi_local peer_params)
        else (tp_initial_max_stream_data_uni local_params, 0))"

text \<open>The match that enforces the stream counts.\<close>

definition sm_count :: "bool \<Rightarrow> bool \<Rightarrow> stream_map \<Rightarrow> stream_map result" where
  "sm_count local bidi m =
     (if local then
        if bidi then
          if sm_local_opened_streams_bidi m \<ge> sm_peer_max_streams_bidi m then Err StreamLimit
          else Ok (m\<lparr>sm_local_opened_streams_bidi := sm_local_opened_streams_bidi m + 1\<rparr>)
        else
          if sm_local_opened_streams_uni m \<ge> sm_peer_max_streams_uni m then Err StreamLimit
          else Ok (m\<lparr>sm_local_opened_streams_uni := sm_local_opened_streams_uni m + 1\<rparr>)
      else
        if bidi then
          if sm_peer_opened_streams_bidi m \<ge> sm_local_max_streams_bidi m then Err StreamLimit
          else Ok (m\<lparr>sm_peer_opened_streams_bidi := sm_peer_opened_streams_bidi m + 1\<rparr>)
        else
          if sm_peer_opened_streams_uni m \<ge> sm_local_max_streams_uni m then Err StreamLimit
          else Ok (m\<lparr>sm_peer_opened_streams_uni := sm_peer_opened_streams_uni m + 1\<rparr>))"

text \<open>\<open>get_or_create\<close> fails without a change of the map; on success the stream is the map's entry.\<close>

definition sm_get_or_create :: "int \<Rightarrow> nat \<Rightarrow> u64 \<Rightarrow> transport_params \<Rightarrow> transport_params \<Rightarrow> bool \<Rightarrow> bool
    \<Rightarrow> u64 \<Rightarrow> u64 \<Rightarrow> u64 \<Rightarrow> stream_map \<Rightarrow> (stream \<times> stream_map) result" where
  "sm_get_or_create wall clock sid local_params peer_params local is_server deadline priority depend_id m =
     bnd (case sm_streams m sid of
            Some s \<Rightarrow> Ok (s, m)
          | None \<Rightarrow>
              if local \<noteq> is_local sid is_server then Err InvalidStreamState
              else if sid \<in> sm_collected m then Err Done
              else
                let (max_rx_data, max_tx_data) = stream_limits local_params peer_params local (is_bidi sid) in
                bnd (sm_count (is_local sid is_server) (is_bidi sid) m) (\<lambda>m.
                let s = stream_new_full wall clock max_rx_data max_tx_data (is_bidi sid) local deadline priority depend_id
                in Ok (s, m\<lparr>sm_streams := (sm_streams m)(sid \<mapsto> s)\<rparr>))) (\<lambda>(s, m).
     Ok (s, if stream_is_writable s then m\<lparr>sm_writable := insert sid (sm_writable m)\<rparr> else m))"

definition sm_push_flushable :: "u64 \<Rightarrow> stream_map \<Rightarrow> stream_map" where
  "sm_push_flushable sid m = m\<lparr>sm_flushable := sm_flushable m @ [sid]\<rparr>"

definition sm_pop_flushable :: "stream_map \<Rightarrow> u64 option \<times> stream_map" where
  "sm_pop_flushable m =
     (case sm_flushable m of [] \<Rightarrow> (None, m) | sid # rest \<Rightarrow> (Some sid, m\<lparr>sm_flushable := rest\<rparr>))"

definition sm_has_flushable :: "stream_map \<Rightarrow> bool" where
  "sm_has_flushable m \<longleftrightarrow> sm_flushable m \<noteq> []"

text \<open>\<open>duration_since(UNIX_EPOCH)\<close> fails for a time before the epoch; milliseconds fit \<open>u64\<close> or are cut.\<close>

definition sm_get_block :: "u64 \<Rightarrow> stream_map \<Rightarrow> block result" where
  "sm_get_block sid m =
     bnd (unwrap (sm_get sid m)) (\<lambda>s.
     bnd (unwrap (sb_start_time (st_send s))) (\<lambda>t.
     if t < 0 then Panic
     else Ok \<lparr>blk_id = sid, blk_deadline = sb_deadline (st_send s), blk_priority = sb_priority (st_send s),
              blk_create_time = of_int (t div 1000000), blk_size = send_block_size (st_send s),
              blk_remaining = sb_len (st_send s)\<rparr>))"

definition sm_mark_readable :: "u64 \<Rightarrow> bool \<Rightarrow> stream_map \<Rightarrow> stream_map" where
  "sm_mark_readable sid readable m =
     m\<lparr>sm_readable := (if readable then insert sid (sm_readable m) else sm_readable m - {sid})\<rparr>"

definition sm_mark_writable :: "u64 \<Rightarrow> bool \<Rightarrow> stream_map \<Rightarrow> stream_map" where
  "sm_mark_writable sid writable m =
     m\<lparr>sm_writable := (if writable then insert sid (sm_writable m) else sm_writable m - {sid})\<rparr>"

definition sm_mark_canceled :: "u64 \<Rightarrow> bool \<Rightarrow> stream_map \<Rightarrow> stream_map" where
  "sm_mark_canceled sid canceled m =
     m\<lparr>sm_canceled := (if canceled then insert sid (sm_canceled m) else sm_canceled m - {sid})\<rparr>"

definition sm_mark_almost_full :: "u64 \<Rightarrow> bool \<Rightarrow> stream_map \<Rightarrow> stream_map" where
  "sm_mark_almost_full sid almost_full m =
     m\<lparr>sm_almost_full := (if almost_full then insert sid (sm_almost_full m) else sm_almost_full m - {sid})\<rparr>"

definition sm_cancel_block :: "u64 \<Rightarrow> stream_map \<Rightarrow> unit result \<times> stream_map" where
  "sm_cancel_block sid m =
     (case sm_streams m sid of
        None \<Rightarrow> (Panic, m)
      | Some s \<Rightarrow>
          let m = m\<lparr>sm_canceled := insert sid (sm_canceled m),
                    sm_canceled_depend := insert sid (sm_canceled_depend m)\<rparr>
          in case send_shutdown (st_send s) of
               Ok send \<Rightarrow> (Ok (), sm_mark_writable sid False
                                    (m\<lparr>sm_streams := (sm_streams m)(sid \<mapsto> s\<lparr>st_send := send\<rparr>)\<rparr>))
             | Err e \<Rightarrow> (Err e, m)
             | Panic \<Rightarrow> (Panic, m))"

text \<open>\<open>VecDeque::swap_remove_back\<close> and \<open>swap_remove_front\<close>.\<close>

definition swap_remove_back :: "nat \<Rightarrow> 'a list \<Rightarrow> 'a list" where
  "swap_remove_back i xs = (if i < length xs then butlast (xs[i := last xs]) else xs)"

definition swap_remove_front :: "nat \<Rightarrow> 'a list \<Rightarrow> 'a list" where
  "swap_remove_front i xs = (if i < length xs then tl (xs[i := hd xs]) else xs)"

text \<open>The second loop of \<open>peek_flushable\<close>, over \<open>(0..self.flushable.len()).rev()\<close>: \<open>i\<close> is the number of
  positions still to visit. It returns the blocks that stay.\<close>

fun sm_drop_loop :: "c_interface option \<Rightarrow> f64 \<Rightarrow> f64 \<Rightarrow> u64 \<Rightarrow> u64 \<Rightarrow> nat \<Rightarrow> block list \<Rightarrow> stream_map
    \<Rightarrow> block list result \<times> stream_map" where
  "sm_drop_loop ffi bandwidth rtt next_packet_id now 0 blocks m = (Ok blocks, m)"
| "sm_drop_loop ffi bandwidth rtt next_packet_id now (Suc i) blocks m =
     (if length (sm_flushable m) \<le> i then (Panic, m)
      else
        let sid = sm_flushable m ! i in
        case sm_get_block sid m of
          Err e \<Rightarrow> (Err e, m)
        | Panic \<Rightarrow> (Panic, m)
        | Ok block \<Rightarrow>
            if should_drop_block ffi block bandwidth rtt next_packet_id now (sm_scheduler m)
            then (case sm_cancel_block sid m of
                    (Ok _, m) \<Rightarrow> sm_drop_loop ffi bandwidth rtt next_packet_id now i blocks
                        (m\<lparr>sm_flushable := swap_remove_back i (sm_flushable m)\<rparr>)
                  | (Err e, m) \<Rightarrow> (Err e, m)
                  | (Panic, m) \<Rightarrow> (Panic, m))
            else sm_drop_loop ffi bandwidth rtt next_packet_id now i (blocks @ [block]) m)"

text \<open>The first loop only builds the blocks for the scheduler's \<open>peek_through_flushable\<close>, which does
  nothing; it can panic.\<close>

fun sm_all_blocks :: "u64 list \<Rightarrow> stream_map \<Rightarrow> block list result" where
  "sm_all_blocks [] m = Ok []"
| "sm_all_blocks (sid # sids) m =
     bnd (sm_get_block sid m) (\<lambda>b. bnd (sm_all_blocks sids m) (\<lambda>bs. Ok (b # bs)))"

text \<open>The last loop removes the first occurrence of the chosen stream.\<close>

fun first_index :: "'a \<Rightarrow> 'a list \<Rightarrow> nat" where
  "first_index x [] = 0"
| "first_index x (y # ys) = (if x = y then 0 else Suc (first_index x ys))"

definition sm_peek_flushable :: "c_interface option \<Rightarrow> f64 \<Rightarrow> f64 \<Rightarrow> u64 \<Rightarrow> u64 \<Rightarrow> stream_map
    \<Rightarrow> u64 option result \<times> stream_map" where
  "sm_peek_flushable ffi bandwidth rtt next_packet_id now m =
     (if \<not> sm_has_flushable m then (Ok None, m)
      else
        case sm_all_blocks (rev (sm_flushable m)) m of
          Err e \<Rightarrow> (Err e, m)
        | Panic \<Rightarrow> (Panic, m)
        | Ok _ \<Rightarrow>
            (case sm_drop_loop ffi bandwidth rtt next_packet_id now (length (sm_flushable m)) [] m of
               (Err e, m) \<Rightarrow> (Err e, m)
             | (Panic, m) \<Rightarrow> (Panic, m)
             | (Ok blocks, m) \<Rightarrow>
                 if blocks = [] then (Ok None, m)
                 else
                   (case select_block ffi blocks bandwidth rtt next_packet_id now (sm_scheduler m) of
                      Ok (best, sched) \<Rightarrow>
                        (Ok (Some best),
                         m\<lparr>sm_scheduler := sched,
                           sm_flushable := swap_remove_front (first_index best (sm_flushable m)) (sm_flushable m)\<rparr>)
                    | Err e \<Rightarrow> (Err e, m)
                    | Panic \<Rightarrow> (Panic, m))))"

definition sm_update_peer_max_streams_bidi :: "u64 \<Rightarrow> stream_map \<Rightarrow> stream_map" where
  "sm_update_peer_max_streams_bidi v m = m\<lparr>sm_peer_max_streams_bidi := max (sm_peer_max_streams_bidi m) v\<rparr>"

definition sm_update_peer_max_streams_uni :: "u64 \<Rightarrow> stream_map \<Rightarrow> stream_map" where
  "sm_update_peer_max_streams_uni v m = m\<lparr>sm_peer_max_streams_uni := max (sm_peer_max_streams_uni m) v\<rparr>"

definition sm_update_max_streams_bidi :: "stream_map \<Rightarrow> u64 \<times> stream_map" where
  "sm_update_max_streams_bidi m =
     (let m = m\<lparr>sm_local_max_streams_bidi := sm_local_max_streams_bidi_next m\<rparr> in (sm_local_max_streams_bidi_next m, m))"

definition sm_update_max_streams_uni :: "stream_map \<Rightarrow> u64 \<times> stream_map" where
  "sm_update_max_streams_uni m =
     (let m = m\<lparr>sm_local_max_streams_uni := sm_local_max_streams_uni_next m\<rparr> in (sm_local_max_streams_uni_next m, m))"

definition sm_collect :: "u64 \<Rightarrow> bool \<Rightarrow> stream_map \<Rightarrow> stream_map" where
  "sm_collect sid local m =
     (let m = (if \<not> local then
                 if is_bidi sid
                 then m\<lparr>sm_local_max_streams_bidi_next := sat_add64 (sm_local_max_streams_bidi_next m) 1\<rparr>
                 else m\<lparr>sm_local_max_streams_uni_next := sat_add64 (sm_local_max_streams_uni_next m) 1\<rparr>
               else m)
      in m\<lparr>sm_streams := (sm_streams m)(sid := None), sm_collected := insert sid (sm_collected m)\<rparr>)"

definition sm_has_almost_full :: "stream_map \<Rightarrow> bool" where
  "sm_has_almost_full m \<longleftrightarrow> sm_almost_full m \<noteq> {}"

definition sm_has_canceled :: "stream_map \<Rightarrow> bool" where
  "sm_has_canceled m \<longleftrightarrow> sm_canceled m \<noteq> {}"

definition sm_should_update_max_streams_bidi :: "stream_map \<Rightarrow> bool" where
  "sm_should_update_max_streams_bidi m \<longleftrightarrow>
     sm_local_max_streams_bidi_next m \<noteq> sm_local_max_streams_bidi m
     \<and> sm_local_max_streams_bidi_next m div 2 > sm_local_max_streams_bidi m - sm_peer_opened_streams_bidi m"

definition sm_should_update_max_streams_uni :: "stream_map \<Rightarrow> bool" where
  "sm_should_update_max_streams_uni m \<longleftrightarrow>
     sm_local_max_streams_uni_next m \<noteq> sm_local_max_streams_uni m
     \<and> sm_local_max_streams_uni_next m div 2 > sm_local_max_streams_uni m - sm_peer_opened_streams_uni m"

text \<open>\<open>StreamIter\<close>: some listing of the set's elements, taken from the end.\<close>

definition stream_iter_of :: "u64 set \<Rightarrow> u64 list \<Rightarrow> bool" where
  "stream_iter_of S it \<longleftrightarrow> distinct it \<and> set it = S"

definition stream_iter_next :: "u64 list \<Rightarrow> u64 option \<times> u64 list" where
  "stream_iter_next it = (if it = [] then (None, it) else (Some (last it), butlast it))"

section \<open>Stream counts\<close>

text \<open>The streams of a kind that exist or existed.\<close>

definition sm_ids :: "bool \<Rightarrow> bool \<Rightarrow> bool \<Rightarrow> stream_map \<Rightarrow> u64 set" where
  "sm_ids is_server local bidi m =
     {sid \<in> dom (sm_streams m) \<union> sm_collected m. is_local sid is_server = local \<and> is_bidi sid = bidi}"

fun sm_opened :: "bool \<Rightarrow> bool \<Rightarrow> stream_map \<Rightarrow> u64" where
  "sm_opened True True m = sm_local_opened_streams_bidi m"
| "sm_opened True False m = sm_local_opened_streams_uni m"
| "sm_opened False True m = sm_peer_opened_streams_bidi m"
| "sm_opened False False m = sm_peer_opened_streams_uni m"

fun sm_max :: "bool \<Rightarrow> bool \<Rightarrow> stream_map \<Rightarrow> u64" where
  "sm_max True True m = sm_peer_max_streams_bidi m"
| "sm_max True False m = sm_peer_max_streams_uni m"
| "sm_max False True m = sm_local_max_streams_bidi m"
| "sm_max False False m = sm_local_max_streams_uni m"

definition sm_inv :: "bool \<Rightarrow> stream_map \<Rightarrow> bool" where
  "sm_inv is_server m \<longleftrightarrow>
     finite (dom (sm_streams m)) \<and> finite (sm_collected m) \<and> dom (sm_streams m) \<inter> sm_collected m = {}
   \<and> (\<forall>local bidi. unat (sm_opened local bidi m) = card (sm_ids is_server local bidi m)
        \<and> sm_opened local bidi m \<le> sm_max local bidi m)
   \<and> sm_local_max_streams_bidi m \<le> sm_local_max_streams_bidi_next m
   \<and> sm_local_max_streams_uni m \<le> sm_local_max_streams_uni_next m
   \<and> (\<forall>sid s. sm_streams m sid = Some s \<longrightarrow> st_local s = is_local sid is_server \<and> st_bidi s = is_bidi sid)"

text \<open>Operations that leave the set of streams, the counts and the limits as they are.\<close>

definition sm_same :: "stream_map \<Rightarrow> stream_map \<Rightarrow> bool" where
  "sm_same m m' \<longleftrightarrow> dom (sm_streams m') = dom (sm_streams m) \<and> sm_collected m' = sm_collected m
     \<and> (\<forall>local bidi. sm_opened local bidi m' = sm_opened local bidi m \<and> sm_max local bidi m' = sm_max local bidi m)
     \<and> sm_local_max_streams_bidi_next m' = sm_local_max_streams_bidi_next m
     \<and> sm_local_max_streams_uni_next m' = sm_local_max_streams_uni_next m
     \<and> (\<forall>sid s'. sm_streams m' sid = Some s' \<longrightarrow>
          (\<exists>s. sm_streams m sid = Some s \<and> st_local s' = st_local s \<and> st_bidi s' = st_bidi s))"

lemma sm_fields:
  "(\<forall>local bidi. P local bidi) \<longleftrightarrow> P True True \<and> P True False \<and> P False True \<and> P False False"
  by (metis (full_types))

lemma sm_same_refl: "sm_same m m"
  by (simp add: sm_same_def)

lemma sm_same_trans: "sm_same a b \<Longrightarrow> sm_same b c \<Longrightarrow> sm_same a c"
  unfolding sm_same_def by (intro conjI allI impI) (simp_all, metis)

lemma sm_same_inv: "sm_same m m' \<Longrightarrow> sm_inv is_server m \<Longrightarrow> sm_inv is_server m'"
proof -
  assume same: "sm_same m m'" and inv: "sm_inv is_server m"
  have ids: "sm_ids is_server l b m' = sm_ids is_server l b m" for l b
    using same by (simp add: sm_same_def sm_ids_def)
  have max: "sm_local_max_streams_bidi m' = sm_local_max_streams_bidi m" "sm_local_max_streams_uni m' = sm_local_max_streams_uni m"
    using same unfolding sm_same_def sm_fields by simp_all
  have loc: "\<forall>sid s. sm_streams m' sid = Some s \<longrightarrow> st_local s = is_local sid is_server \<and> st_bidi s = is_bidi sid"
    using same inv unfolding sm_same_def sm_inv_def by metis
  from same inv show ?thesis unfolding sm_inv_def using ids max loc by (simp add: sm_same_def)
qed

lemma sm_same_marks:
  "sm_same m (sm_mark_readable sid v m)" "sm_same m (sm_mark_writable sid v m)" "sm_same m (sm_mark_canceled sid v m)"
  "sm_same m (sm_mark_almost_full sid v m)" "sm_same m (sm_push_flushable sid m)" "sm_same m (snd (sm_pop_flushable m))"
  "sm_same m (m\<lparr>sm_flushable := q\<rparr>)" "sm_same m (m\<lparr>sm_scheduler := sch, sm_flushable := q\<rparr>)"
  "sm_same m (sm_set_priority_weight w m)" "sm_same m (sm_set_min_priority p m)"
  unfolding sm_same_def sm_fields
  by (simp_all add: sm_mark_readable_def sm_mark_writable_def sm_mark_canceled_def sm_mark_almost_full_def
      sm_push_flushable_def sm_pop_flushable_def sm_set_priority_weight_def sm_set_min_priority_def split: list.split)

lemma sm_same_cancel: "sm_same m (snd (sm_cancel_block sid m))"
proof (cases "sm_streams m sid")
  case None
  then show ?thesis by (simp add: sm_cancel_block_def sm_same_refl)
next
  case (Some s)
  then show ?thesis
    unfolding sm_same_def sm_fields
    by (auto simp: sm_cancel_block_def send_shutdown_def sm_mark_writable_def Let_def insert_absorb domI)
qed

lemma sm_same_drop: "sm_same m (snd (sm_drop_loop ffi bw rtt pid now i blocks m))"
proof (induction i arbitrary: blocks m)
  case 0
  then show ?case by (simp add: sm_same_refl)
next
  case (Suc i)
  note c = sm_same_cancel [of m "sm_flushable m ! i"]
  show ?case
  proof (cases "length (sm_flushable m) \<le> i")
    case True
    then show ?thesis by (simp add: sm_same_refl)
  next
    case False
    obtain r m1 where m1: "sm_cancel_block (sm_flushable m ! i) m = (r, m1)" by (cases "sm_cancel_block (sm_flushable m ! i) m")
    with c have s1: "sm_same m m1" by simp
    have s2: "sm_same m (snd (sm_drop_loop ffi bw rtt pid now i blocks
        (m1\<lparr>sm_flushable := swap_remove_back i (sm_flushable m1)\<rparr>)))"
      by (rule sm_same_trans [OF s1 sm_same_trans [OF sm_same_marks(7) Suc]])
    from False s1 s2 Suc show ?thesis
      by (cases r) (simp_all add: Let_def m1 sm_same_refl split: res.split)
  qed
qed

lemma sm_same_peek: "sm_same m (snd (sm_peek_flushable ffi bw rtt pid now m))"
proof -
  obtain r m1 where d: "sm_drop_loop ffi bw rtt pid now (length (sm_flushable m)) [] m = (r, m1)"
    by (cases "sm_drop_loop ffi bw rtt pid now (length (sm_flushable m)) [] m")
  with sm_same_drop [of m ffi bw rtt pid now "length (sm_flushable m)" "[]"] have s: "sm_same m m1" by simp
  have "sm_same m (m1\<lparr>sm_scheduler := sch, sm_flushable := q\<rparr>)" for sch q
    by (rule sm_same_trans [OF s sm_same_marks(8)])
  with s show ?thesis
    by (cases r) (auto simp: sm_peek_flushable_def d sm_same_refl split: res.split prod.split)
qed

subsection \<open>The steps that change the set of streams\<close>

lemma sm_count_Ok:
  assumes "sm_count local bidi m = Ok m'"
  shows "sm_opened local bidi m < sm_max local bidi m"
    "sm_opened l b m' = (if l = local \<and> b = bidi then sm_opened l b m + 1 else sm_opened l b m)"
    "sm_max l b m' = sm_max l b m" "sm_streams m' = sm_streams m" "sm_collected m' = sm_collected m"
    "sm_local_max_streams_bidi_next m' = sm_local_max_streams_bidi_next m"
    "sm_local_max_streams_uni_next m' = sm_local_max_streams_uni_next m"
    "sm_local_max_streams_bidi m' = sm_local_max_streams_bidi m"
    "sm_local_max_streams_uni m' = sm_local_max_streams_uni m"
  using assms by (cases local; cases bidi; cases l; cases b; auto simp: sm_count_def split: if_splits)+

lemma sm_inv_insert:
  assumes inv: "sm_inv is_server m" and fresh: "sm_streams m sid = None" "sid \<notin> sm_collected m"
    and count: "sm_count (is_local sid is_server) (is_bidi sid) m = Ok m1"
    and s: "st_local s = is_local sid is_server" "st_bidi s = is_bidi sid"
  shows "sm_inv is_server (m1\<lparr>sm_streams := (sm_streams m1)(sid \<mapsto> s)\<rparr>)"
proof -
  let ?m = "m1\<lparr>sm_streams := (sm_streams m1)(sid \<mapsto> s)\<rparr>" and ?l = "is_local sid is_server" and ?b = "is_bidi sid"
  note c = sm_count_Ok [OF count]
  have fin: "finite (sm_ids is_server l b m)" for l b using inv by (simp add: sm_inv_def sm_ids_def)
  have op: "sm_opened l b ?m = sm_opened l b m1" "sm_max l b ?m = sm_max l b m1" for l b
    by (cases l; cases b; simp)+
  have ids: "sm_ids is_server l b ?m = (if l = ?l \<and> b = ?b then insert sid (sm_ids is_server l b m) else sm_ids is_server l b m)" for l b
    using c(4,5) by (auto simp: sm_ids_def)
  have "sid \<notin> sm_ids is_server ?l ?b m" using fresh by (auto simp: sm_ids_def)
  then have card: "card (sm_ids is_server l b ?m) = card (sm_ids is_server l b m) + (if l = ?l \<and> b = ?b then 1 else 0)" for l b
    using fin by (auto simp: ids)
  have counts: "unat (sm_opened l b ?m) = card (sm_ids is_server l b ?m) \<and> sm_opened l b ?m \<le> sm_max l b ?m" for l b
  proof (cases "l = ?l \<and> b = ?b")
    case True
    have lt: "unat (sm_opened ?l ?b m) < unat (sm_max ?l ?b m)" using c(1) by (simp add: word_less_nat_alt)
    then have "unat (sm_opened ?l ?b m + 1) = unat (sm_opened ?l ?b m) + 1"
      using unat_u64 [of "sm_max ?l ?b m"] by (simp add: unat_add64_less)
    with lt True inv show ?thesis unfolding op c(2,3) card by (simp add: sm_inv_def word_le_nat_alt)
  next
    case False
    with inv show ?thesis unfolding op c(2,3) card by (auto simp: sm_inv_def)
  qed
  have "sm_streams ?m = (sm_streams m)(sid \<mapsto> s)" "sm_collected ?m = sm_collected m" using c(4,5) by simp_all
  with inv fresh s counts show ?thesis unfolding sm_inv_def by (auto simp: c)
qed

lemma sm_inv_get_or_create:
  assumes inv: "sm_inv is_server m"
    and ok: "sm_get_or_create wall clock sid lp pp local is_server deadline priority dep m = Ok (s, m')"
  shows "sm_inv is_server m'"
proof -
  have writable: "sm_same m1 (if c then m1\<lparr>sm_writable := insert sid (sm_writable m1)\<rparr> else m1)" for c m1
    using sm_same_marks(2) [of m1 sid True] sm_same_refl by (simp add: sm_mark_writable_def)
  show ?thesis
  proof (cases "sm_streams m sid")
    case (Some s0)
    with ok have "m' = (if stream_is_writable s0 then m\<lparr>sm_writable := insert sid (sm_writable m)\<rparr> else m)"
      by (auto simp: sm_get_or_create_def)
    with sm_same_inv [OF writable [of m "stream_is_writable s0"] inv] show ?thesis by (simp only:)
  next
    case None
    let ?s = "stream_new_full wall clock (fst (stream_limits lp pp local (is_bidi sid)))
        (snd (stream_limits lp pp local (is_bidi sid))) (is_bidi sid) local deadline priority dep"
    have loc: "local = is_local sid is_server" by (rule ccontr) (use ok None in \<open>simp add: sm_get_or_create_def\<close>)
    have fresh: "sid \<notin> sm_collected m" by (rule ccontr) (use ok None loc in \<open>simp add: sm_get_or_create_def\<close>)
    have run: "bnd (sm_count local (is_bidi sid) m) (\<lambda>m1. let m2 = m1\<lparr>sm_streams := (sm_streams m1)(sid \<mapsto> ?s)\<rparr>
        in Ok (?s, if stream_is_writable ?s then m2\<lparr>sm_writable := insert sid (sm_writable m2)\<rparr> else m2)) = Ok (s, m')"
      using ok None loc fresh by (simp add: sm_get_or_create_def case_prod_beta Let_def del: bnd_Ok_iff add: bnd_assoc)
    then obtain m1 where c1: "sm_count local (is_bidi sid) m = Ok m1"
      by (cases "sm_count local (is_bidi sid) m") (simp_all only: bnd.simps res.distinct)
    from run [unfolded c1 bnd.simps Let_def res.inject prod.inject]
    have m': "m' = (let m2 = m1\<lparr>sm_streams := (sm_streams m1)(sid \<mapsto> ?s)\<rparr>
             in if stream_is_writable ?s then m2\<lparr>sm_writable := insert sid (sm_writable m2)\<rparr> else m2)"
      unfolding Let_def by (elim conjE) (rule sym)
    note count = c1 [unfolded loc]
    have "st_local ?s = is_local sid is_server" "st_bidi ?s = is_bidi sid"
      using loc by (simp_all add: stream_new_full_def)
    from sm_same_inv [OF writable sm_inv_insert [OF inv None fresh count this]] show ?thesis
      by (simp only: m' Let_def)
  qed
qed

lemma sat_add64_ge: "a \<le> sat_add64 a b"
  using unat_u64 [of a] by (simp add: word_le_nat_alt unat_sat_add64)

lemma sm_inv_collect:
  assumes "sm_inv is_server m" "sm_streams m sid = Some s"
  shows "sm_inv is_server (sm_collect sid local m)"
proof -
  let ?m = "sm_collect sid local m"
  have ids: "sm_ids is_server l b ?m = sm_ids is_server l b m" for l b
    using assms(2) by (auto simp: sm_ids_def sm_collect_def Let_def)
  have op: "sm_opened l b ?m = sm_opened l b m" "sm_max l b ?m = sm_max l b m" for l b
    by (cases l; cases b; simp add: sm_collect_def Let_def)+
  have lim: "sm_local_max_streams_bidi ?m \<le> sm_local_max_streams_bidi_next ?m"
    "sm_local_max_streams_uni ?m \<le> sm_local_max_streams_uni_next ?m"
    using assms(1) sat_add64_ge [of "sm_local_max_streams_bidi_next m" 1] sat_add64_ge [of "sm_local_max_streams_uni_next m" 1]
    by (auto simp: sm_inv_def sm_collect_def Let_def intro: order_trans)
  have st: "sm_streams ?m = (sm_streams m)(sid := None)" "sm_collected ?m = insert sid (sm_collected m)"
    by (simp_all add: sm_collect_def Let_def)
  from assms(1) lim show ?thesis unfolding sm_inv_def ids op st by auto
qed

text \<open>The reachable states of a stream map: every operation of the component.\<close>

inductive sm_step :: "bool \<Rightarrow> stream_map \<Rightarrow> stream_map \<Rightarrow> bool" for is_server where
  get_or_create: "sm_get_or_create wall clock sid lp pp local is_server deadline priority dep m = Ok (s, m')
     \<Longrightarrow> sm_step is_server m m'"
| collect: "sm_streams m sid = Some s \<Longrightarrow> sm_step is_server m (sm_collect sid (st_local s) m)"
| peer_max_bidi: "sm_step is_server m (sm_update_peer_max_streams_bidi v m)"
| peer_max_uni: "sm_step is_server m (sm_update_peer_max_streams_uni v m)"
| max_bidi: "sm_step is_server m (snd (sm_update_max_streams_bidi m))"
| max_uni: "sm_step is_server m (snd (sm_update_max_streams_uni m))"
| stream: "sm_streams m sid = Some s \<Longrightarrow>
     sm_step is_server m (m\<lparr>sm_streams := (sm_streams m)(sid \<mapsto> s\<lparr>st_recv := r, st_send := t\<rparr>)\<rparr>)"
| push: "sm_step is_server m (sm_push_flushable sid m)"
| pop: "sm_step is_server m (snd (sm_pop_flushable m))"
| peek: "sm_step is_server m (snd (sm_peek_flushable ffi bw rtt pid now m))"
| cancel: "sm_step is_server m (snd (sm_cancel_block sid m))"
| readable: "sm_step is_server m (sm_mark_readable sid v m)"
| writable: "sm_step is_server m (sm_mark_writable sid v m)"
| canceled: "sm_step is_server m (sm_mark_canceled sid v m)"
| almost_full: "sm_step is_server m (sm_mark_almost_full sid v m)"

inductive sm_reach :: "bool \<Rightarrow> stream_map \<Rightarrow> bool" for is_server where
  new: "sm_reach is_server (sm_new interface basic max_bidi max_uni stype)"
| step: "sm_reach is_server m \<Longrightarrow> sm_step is_server m m' \<Longrightarrow> sm_reach is_server m'"

lemma sm_inv_new: "sm_inv is_server (sm_new interface basic max_bidi max_uni stype)"
  unfolding sm_inv_def sm_fields by (simp add: sm_new_def sm_ids_def)

lemma sm_inv_max:
  assumes "sm_inv is_server m"
  shows "sm_inv is_server (sm_update_peer_max_streams_bidi v m)" "sm_inv is_server (sm_update_peer_max_streams_uni v m)"
    "sm_inv is_server (snd (sm_update_max_streams_bidi m))" "sm_inv is_server (snd (sm_update_max_streams_uni m))"
  using assms unfolding sm_inv_def sm_fields
  by (simp_all add: sm_update_peer_max_streams_bidi_def sm_update_peer_max_streams_uni_def
      sm_update_max_streams_bidi_def sm_update_max_streams_uni_def sm_ids_def le_max_iff_disj)
    (auto intro: order_trans)

lemma sm_same_stream:
  "sm_streams m sid = Some s \<Longrightarrow> sm_same m (m\<lparr>sm_streams := (sm_streams m)(sid \<mapsto> s\<lparr>st_recv := r, st_send := t\<rparr>)\<rparr>)"
  unfolding sm_same_def sm_fields by (auto simp: insert_absorb domI)

lemma sm_inv_step: "sm_step is_server m m' \<Longrightarrow> sm_inv is_server m \<Longrightarrow> sm_inv is_server m'"
  by (induction rule: sm_step.induct)
    (blast intro: sm_inv_get_or_create sm_inv_collect sm_inv_max sm_same_inv sm_same_stream sm_same_marks sm_same_peek
      sm_same_cancel)+

lemma sm_reach_inv: "sm_reach is_server m \<Longrightarrow> sm_inv is_server m"
  by (induction rule: sm_reach.induct) (auto intro: sm_inv_new sm_inv_step)

section \<open>Properties\<close>

text \<open>C15. Stream counts. In every state the operations of a stream map can reach, the four counters of
  opened streams are the numbers of streams of that kind that exist or were collected, none exceeds the
  limit in force, and a collected stream never exists again.\<close>

theorem stream_counts_invariant:
  assumes "sm_reach is_server m"
  shows "unat (sm_opened local bidi m) = card (sm_ids is_server local bidi m)
    \<and> sm_opened local bidi m \<le> sm_max local bidi m
    \<and> dom (sm_streams m) \<inter> sm_collected m = {}
    \<and> sm_local_max_streams_bidi m \<le> sm_local_max_streams_bidi_next m
    \<and> sm_local_max_streams_uni m \<le> sm_local_max_streams_uni_next m"
  using sm_reach_inv [OF assms] by (simp add: sm_inv_def)

lemma stream_counts_invariant_witness:
  "\<exists>s m. sm_get_or_create 0 0 4 tp_default tp_default False True 1 1 0 (sm_new False False 1 1 SchedDTP) = Ok (s, m)
     \<and> card (sm_ids True False True m) = 1"
proof -
  let ?new = "sm_new False False 1 1 SchedDTP"
  obtain s m where run: "sm_get_or_create 0 0 4 tp_default tp_default False True 1 1 0 ?new = Ok (s, m)"
    and opened: "sm_opened False True m = 1"
    by (simp add: sm_get_or_create_def sm_new_def is_local_def is_bidi_def stream_limits_def sm_count_def Let_def)
  have "sm_reach True m" by (rule sm_reach.step [OF sm_reach.new sm_step.get_or_create [OF run]])
  from stream_counts_invariant [OF this, of False True] opened run show ?thesis by auto
qed

end
