(* ===== verification/Flush.thy ===== *)
theory Flush
  imports Streams
begin

text \<open>
  What \<open>peek_flushable\<close> of \<open>src/stream.rs\<close> does to the queue of flushable streams: which streams it
  cancels, which one it hands to the sender, and the two states in which it can not make progress.
\<close>

section \<open>Removal from the queue\<close>

lemma swap_remove_back_mset:
  "\<exists>r'. swap_remove_back (length a) (a @ x # r) = a @ r' \<and> mset r' = mset r"
proof (cases r rule: rev_cases)
  case Nil
  then show ?thesis by (simp add: swap_remove_back_def)
next
  case (snoc ys y)
  then have "swap_remove_back (length a) (a @ x # r) = a @ y # ys"
    by (simp add: swap_remove_back_def butlast_append)
  with snoc show ?thesis by (intro exI [of _ "y # ys"]) simp
qed

lemma swap_remove_front_mset:
  assumes "x \<in> set q"
  shows "add_mset x (mset (swap_remove_front (first_index x q) q)) = mset q"
proof -
  have idx: "first_index x q < length q \<and> q ! first_index x q = x" using assms by (induction q) auto
  let ?i = "first_index x q"
  show ?thesis
  proof (cases "?i = 0")
    case True
    with idx show ?thesis by (cases q) (auto simp: swap_remove_front_def)
  next
    case False
    then obtain h t j where q: "q = h # t" and j: "?i = Suc j" "j < length t" "t ! j = x"
      using idx by (cases q; cases ?i) auto
    have "mset (t[j := h]) = add_mset h (mset t - {#x#})" using j by (simp add: mset_update)
    then show ?thesis using j q idx by (simp add: swap_remove_front_def) (metis nth_mem set_mset_mset insert_DiffM add_mset_commute)
  qed
qed

section \<open>The loop that drops streams\<close>

text \<open>A stream of the queue as the loop expects it: it has a start time after the epoch and its send side
  was not shut down.\<close>

definition flush_ok :: "u64 \<Rightarrow> stream_map \<Rightarrow> bool" where
  "flush_ok sid m \<longleftrightarrow> (\<exists>s t. sm_streams m sid = Some s \<and> sb_start_time (st_send s) = Some t \<and> 0 \<le> t
     \<and> \<not> sb_shutdown (st_send s))"

definition flush_block :: "u64 \<Rightarrow> stream_map \<Rightarrow> block" where
  "flush_block sid m =
     (case sm_get_block sid m of Ok b \<Rightarrow> b
      | _ \<Rightarrow> \<lparr>blk_id = sid, blk_deadline = 0, blk_priority = 0, blk_create_time = 0, blk_size = 0, blk_remaining = 0\<rparr>)"

text \<open>The map after the streams of \<open>X\<close> were canceled.\<close>

definition shut_streams :: "u64 set \<Rightarrow> (u64 \<rightharpoonup> stream) \<Rightarrow> (u64 \<rightharpoonup> stream)" where
  "shut_streams X f = (\<lambda>sid. if sid \<in> X
     then map_option (\<lambda>s. s\<lparr>st_send := (st_send s)\<lparr>sb_shutdown := True, sb_data := []\<rparr>\<rparr>) (f sid) else f sid)"

definition cancel_all :: "u64 set \<Rightarrow> stream_map \<Rightarrow> stream_map" where
  "cancel_all X m = m\<lparr>sm_streams := shut_streams X (sm_streams m),
      sm_writable := sm_writable m - X, sm_canceled := sm_canceled m \<union> X,
      sm_canceled_depend := sm_canceled_depend m \<union> X\<rparr>"

lemma shut_streams_simps [simp]: "shut_streams {} f = f" "sid \<notin> X \<Longrightarrow> shut_streams X f sid = f sid"
  by (simp_all add: shut_streams_def fun_eq_iff)

lemma shut_streams_union: "X \<inter> Y = {} \<Longrightarrow> shut_streams Y (shut_streams X f) = shut_streams (X \<union> Y) f"
  by (auto simp: shut_streams_def fun_eq_iff)

lemma flush_block_Ok: "flush_ok sid m \<Longrightarrow> sm_get_block sid m = Ok (flush_block sid m)"
  unfolding flush_ok_def flush_block_def sm_get_block_def sm_get_def by (elim exE conjE) simp

lemma flush_block_id: "blk_id (flush_block sid m) = sid"
  by (auto simp: flush_block_def sm_get_block_def split: res.splits if_splits option.splits)

lemma flush_local:
  assumes "sm_streams m' sid = sm_streams m sid"
  shows "flush_ok sid m' = flush_ok sid m" "sm_get_block sid m' = sm_get_block sid m" "flush_block sid m' = flush_block sid m"
  using assms by (simp_all add: flush_ok_def sm_get_block_def sm_get_def flush_block_def)

lemma sm_cancel_block_ok:
  assumes "flush_ok sid m"
  shows "sm_cancel_block sid m = (Ok (), cancel_all {sid} m)"
proof -
  obtain s where s: "sm_streams m sid = Some s" "\<not> sb_shutdown (st_send s)" using assms by (auto simp: flush_ok_def)
  have "(sm_streams m)(sid \<mapsto> s\<lparr>st_send := (st_send s)\<lparr>sb_shutdown := True, sb_data := []\<rparr>\<rparr>)
    = shut_streams {sid} (sm_streams m)"
    using s by (auto simp: fun_eq_iff shut_streams_def)
  with s show ?thesis
    by (simp add: sm_cancel_block_def cancel_all_def send_shutdown_def sm_mark_writable_def Let_def)
qed

lemma cancel_all_empty: "cancel_all {} m = m"
  by (simp add: cancel_all_def)

lemma cancel_all_union: "X \<inter> Y = {} \<Longrightarrow> cancel_all Y (cancel_all X m) = cancel_all (X \<union> Y) m"
proof -
  assume "X \<inter> Y = {}"
  moreover have "A - X - Y = A - (X \<union> Y)" for A :: "u64 set" by blast
  ultimately show ?thesis by (simp add: cancel_all_def shut_streams_union Un_assoc)
qed

lemma cancel_all_flushable: "cancel_all X (m\<lparr>sm_flushable := q\<rparr>) = (cancel_all X m)\<lparr>sm_flushable := q\<rparr>"
  by (simp add: cancel_all_def)

lemma cancel_all_simps [simp]:
  "sm_flushable (cancel_all X m) = sm_flushable m" "sm_scheduler (cancel_all X m) = sm_scheduler m"
  "sid \<notin> X \<Longrightarrow> sm_streams (cancel_all X m) sid = sm_streams m sid"
  by (simp_all add: cancel_all_def)

lemma sm_drop_loop_run:
  assumes "distinct q" "i \<le> length q" "sm_flushable m = take i q @ r" "\<forall>sid \<in> set (take i q). flush_ok sid m"
  shows "\<exists>r'. sm_drop_loop ffi bw rtt pid now i blocks m =
      (Ok (blocks @ map (\<lambda>sid. flush_block sid m) (filter (\<lambda>sid. \<not> should_drop_block ffi (flush_block sid m) bw rtt pid now (sm_scheduler m)) (rev (take i q)))),
       (cancel_all {sid \<in> set (take i q). should_drop_block ffi (flush_block sid m) bw rtt pid now (sm_scheduler m)} m)\<lparr>sm_flushable := r'\<rparr>)
    \<and> mset r' = mset (filter (\<lambda>sid. \<not> should_drop_block ffi (flush_block sid m) bw rtt pid now (sm_scheduler m)) (take i q)) + mset r"
  using assms
proof (induction i arbitrary: blocks m r)
  case 0
  then show ?case by (intro exI [of _ r]) (simp add: cancel_all_empty)
next
  case (Suc i)
  let ?x = "q ! i" and ?D = "\<lambda>m sid. should_drop_block ffi (flush_block sid m) bw rtt pid now (sm_scheduler m)"
  have i: "i < length q" using Suc.prems(2) by simp
  then have tk: "take (Suc i) q = take i q @ [?x]" by (simp add: take_Suc_conv_app_nth)
  have fl: "sm_flushable m = take i q @ ?x # r" using Suc.prems(3) tk by simp
  then have nth: "sm_flushable m ! i = ?x" "i < length (sm_flushable m)" using i by (simp_all add: nth_append)
  have ok: "flush_ok ?x m" and oks: "\<forall>sid \<in> set (take i q). flush_ok sid m" using Suc.prems(4) tk by simp_all
  have fresh: "?x \<notin> set (take i q)" using Suc.prems(1) i by (metis distinct_take tk not_distinct_conv_prefix)
  show ?case
  proof (cases "?D m ?x")
    case False
    from Suc.IH [OF Suc.prems(1) _ fl oks, of "blocks @ [flush_block ?x m]"] i obtain r' where
      "sm_drop_loop ffi bw rtt pid now i (blocks @ [flush_block ?x m]) m =
        (Ok (blocks @ [flush_block ?x m] @ map (\<lambda>sid. flush_block sid m) (filter (\<lambda>sid. \<not> ?D m sid) (rev (take i q)))),
         (cancel_all {sid \<in> set (take i q). ?D m sid} m)\<lparr>sm_flushable := r'\<rparr>)"
      "mset r' = mset (filter (\<lambda>sid. \<not> ?D m sid) (take i q)) + mset (?x # r)" by auto
    moreover have "{sid \<in> set (take (Suc i) q). ?D m sid} = {sid \<in> set (take i q). ?D m sid}"
      using False tk by auto
    ultimately show ?thesis using False nth tk by (intro exI [of _ r']) (simp add: flush_block_Ok [OF ok])
  next
    case True
    let ?m = "(cancel_all {?x} m)\<lparr>sm_flushable := swap_remove_back i (sm_flushable m)\<rparr>"
    obtain r1 where r1: "swap_remove_back i (sm_flushable m) = take i q @ r1" "mset r1 = mset r"
      using swap_remove_back_mset [of "take i q" ?x r] i fl by (auto simp: min_def)
    have same: "sm_streams ?m sid = sm_streams m sid" if "sid \<in> set (take i q)" for sid
      using that fresh by (cases "sid = ?x") auto
    note loc = flush_local [OF same]
    have D: "?D ?m sid = ?D m sid" if "sid \<in> set (take i q)" for sid using loc(3) [OF that] by simp
    have "\<forall>sid \<in> set (take i q). flush_ok sid ?m" using loc oks by blast
    from Suc.IH [OF Suc.prems(1) _ _ this, of r1 blocks] i r1 obtain r' where run:
      "sm_drop_loop ffi bw rtt pid now i blocks ?m =
        (Ok (blocks @ map (\<lambda>sid. flush_block sid ?m) (filter (\<lambda>sid. \<not> ?D ?m sid) (rev (take i q)))),
         (cancel_all {sid \<in> set (take i q). ?D ?m sid} ?m)\<lparr>sm_flushable := r'\<rparr>)"
      and r': "mset r' = mset (filter (\<lambda>sid. \<not> ?D ?m sid) (take i q)) + mset r" by auto
    have X: "{sid \<in> set (take (Suc i) q). ?D m sid} = {?x} \<union> {sid \<in> set (take i q). ?D ?m sid}"
      using True tk D by auto
    have f: "filter (\<lambda>sid. \<not> ?D ?m sid) (take i q) = filter (\<lambda>sid. \<not> ?D m sid) (take i q)"
      using D by (intro filter_cong) auto
    have mr: "mset r' = mset (filter (\<lambda>sid. \<not> ?D m sid) (take i q)) + mset r" using r' unfolding f .
    have b: "map (\<lambda>sid. flush_block sid ?m) (filter P (rev (take i q))) = map (\<lambda>sid. flush_block sid m) (filter P (rev (take i q)))" for P
      by (rule map_cong [OF refl]) (use loc(3) in auto)
    have c: "(cancel_all {sid \<in> set (take i q). ?D ?m sid} ?m)\<lparr>sm_flushable := r'\<rparr>
        = (cancel_all {sid \<in> set (take (Suc i) q). ?D m sid} m)\<lparr>sm_flushable := r'\<rparr>"
      unfolding X cancel_all_flushable using fresh by (subst cancel_all_union [symmetric]) auto
    have rf: "filter (\<lambda>sid. \<not> ?D ?m sid) (rev (take i q)) = filter (\<lambda>sid. \<not> ?D m sid) (rev (take i q))"
      using f by (metis rev_filter)
    have step: "sm_drop_loop ffi bw rtt pid now (Suc i) blocks m = sm_drop_loop ffi bw rtt pid now i blocks ?m"
      using True nth by (simp add: flush_block_Ok [OF ok] sm_cancel_block_ok [OF ok])
    show ?thesis unfolding step run b rf c using mr tk True by (intro exI [of _ r']) simp
  qed
qed

lemma sm_all_blocks_ok: "\<forall>sid \<in> set q. flush_ok sid m \<Longrightarrow> \<exists>bs. sm_all_blocks q m = Ok bs"
  by (induction q) (auto simp: flush_block_Ok)

section \<open>Properties\<close>

text \<open>The streams of the queue that are past their deadline.\<close>

definition expired :: "u64 \<Rightarrow> stream_map \<Rightarrow> u64 set" where
  "expired now m = {sid \<in> set (sm_flushable m). dtp_should_drop_block (flush_block sid m) now}"

lemma sm_peek_drop:
  assumes sched: "sm_scheduler m = DtpScheduler d" and q: "distinct (sm_flushable m)"
    and ok: "\<forall>sid \<in> set (sm_flushable m). flush_ok sid m" and ne: "sm_flushable m \<noteq> []"
    and keep_def: "keep = filter (\<lambda>sid. sid \<notin> expired now m) (rev (sm_flushable m))"
  shows "\<exists>q'. mset q' = mset keep \<and> sm_peek_flushable ffi bw rtt pid now m =
      (let m' = (cancel_all (expired now m) m)\<lparr>sm_flushable := q'\<rparr> in
       if keep = [] then (Ok None, m')
       else case dtp_select_block (map (\<lambda>sid. flush_block sid m) keep) bw rtt now d of
          Ok (best, d') \<Rightarrow> (Ok (Some best), m'\<lparr>sm_scheduler := DtpScheduler d',
             sm_flushable := swap_remove_front (first_index best q') q'\<rparr>)
        | Err e \<Rightarrow> (Err e, m') | Panic \<Rightarrow> (Panic, m'))"
proof -
  let ?q = "sm_flushable m" and ?D = "\<lambda>sid. should_drop_block ffi (flush_block sid m) bw rtt pid now (sm_scheduler m)"
  have D: "?D sid = dtp_should_drop_block (flush_block sid m) now" for sid
    by (simp add: should_drop_block_def sched)
  have f: "filter (\<lambda>sid. \<not> ?D sid) (rev ?q) = keep"
    unfolding keep_def expired_def D by (rule filter_cong) auto
  then have fq: "mset (filter (\<lambda>sid. \<not> ?D sid) ?q) = mset keep" by (metis mset_rev rev_filter)
  have ex: "{sid \<in> set ?q. ?D sid} = expired now m" by (simp add: expired_def D)
  from sm_drop_loop_run [of ?q "length ?q" m "[]" ffi bw rtt pid now "[]"] q ok obtain q' where
    run: "sm_drop_loop ffi bw rtt pid now (length ?q) [] m = (Ok (map (\<lambda>sid. flush_block sid m) keep),
        (cancel_all (expired now m) m)\<lparr>sm_flushable := q'\<rparr>)" and q': "mset q' = mset keep"
    using f fq ex by auto
  obtain bs where all: "sm_all_blocks (rev ?q) m = Ok bs" using sm_all_blocks_ok [of "rev ?q" m] ok by auto
  have "sm_peek_flushable ffi bw rtt pid now m =
      (let m' = (cancel_all (expired now m) m)\<lparr>sm_flushable := q'\<rparr> in
       if keep = [] then (Ok None, m')
       else case dtp_select_block (map (\<lambda>sid. flush_block sid m) keep) bw rtt now d of
          Ok (best, d') \<Rightarrow> (Ok (Some best), m'\<lparr>sm_scheduler := DtpScheduler d',
             sm_flushable := swap_remove_front (first_index best q') q'\<rparr>)
        | Err e \<Rightarrow> (Err e, m') | Panic \<Rightarrow> (Panic, m'))"
    unfolding sm_peek_flushable_def sm_has_flushable_def run all
    by (cases "dtp_select_block (map (\<lambda>sid. flush_block sid m) keep) bw rtt now d")
      (auto simp: ne Let_def select_block_def sched)
  with q' show ?thesis by (intro exI [of _ q'] conjI)
qed

lemma swap_remove_front_rest:
  assumes "sid \<in> set keep" "distinct keep" "mset q = mset keep"
  shows "set (swap_remove_front (first_index sid q) q) = set keep - {sid}"
    and "distinct (swap_remove_front (first_index sid q) q)"
proof -
  let ?q = "swap_remove_front (first_index sid q) q"
  have "sid \<in> set q" using assms(1,3) by (metis set_mset_mset)
  then have q: "mset (sid # ?q) = mset keep" using swap_remove_front_mset [of sid q] assms(3) by simp
  then have "distinct (sid # ?q)" using assms(2) by (metis mset_eq_imp_distinct_iff)
  moreover have "set (sid # ?q) = set keep" using q by (rule mset_eq_setD)
  ultimately show "set ?q = set keep - {sid}" "distinct ?q" by auto
qed

text \<open>C16. The choice of the next stream. When no weight is NaN, \<open>peek_flushable\<close> cancels exactly the streams of
  the queue that are past their deadline (their send sides are shut down and they enter the canceled set);
  of the others with data left it returns one of minimal weight and takes it out of the queue, which keeps
  the rest. When every stream was past its deadline it returns nothing and the queue is empty.\<close>

theorem peek_flushable_correct:
  assumes "sm_scheduler m = DtpScheduler d" "distinct (sm_flushable m)" "sm_flushable m \<noteq> []"
    and "\<forall>sid \<in> set (sm_flushable m). flush_ok sid m"
    and "\<forall>sid \<in> set (sm_flushable m). dtp_weight bw rtt now d (flush_block sid m) \<noteq> NaN"
  shows "case sm_peek_flushable ffi bw rtt pid now m of (r, m') \<Rightarrow>
      sm_canceled m' = sm_canceled m \<union> expired now m
    \<and> sm_streams m' = shut_streams (expired now m) (sm_streams m)
    \<and> (if set (sm_flushable m) \<subseteq> expired now m then r = Ok None \<and> sm_flushable m' = []
       else if \<exists>sid \<in> set (sm_flushable m) - expired now m. blk_remaining (flush_block sid m) > 0
       then \<exists>sid \<in> set (sm_flushable m) - expired now m. r = Ok (Some sid)
          \<and> blk_remaining (flush_block sid m) > 0
          \<and> (\<forall>sid' \<in> set (sm_flushable m) - expired now m. blk_remaining (flush_block sid' m) > 0
               \<longrightarrow> dtp_le (dtp_weight bw rtt now d) (flush_block sid m) (flush_block sid' m))
          \<and> set (sm_flushable m') = set (sm_flushable m) - expired now m - {sid} \<and> distinct (sm_flushable m')
       else r = (case ds_last_block_id d of None \<Rightarrow> Panic | Some sid \<Rightarrow> Ok (Some sid)))"
proof -
  define keep where "keep = filter (\<lambda>sid. sid \<notin> expired now m) (rev (sm_flushable m))"
  let ?bs = "map (\<lambda>sid. flush_block sid m) keep"
  have set: "set keep = set (sm_flushable m) - expired now m" by (auto simp: keep_def)
  from sm_peek_drop [OF assms(1,2,4,3) keep_def, of ffi bw rtt pid] obtain q' where q': "mset q' = mset keep"
    and run: "sm_peek_flushable ffi bw rtt pid now m =
      (let m' = (cancel_all (expired now m) m)\<lparr>sm_flushable := q'\<rparr> in
       if keep = [] then (Ok None, m')
       else case dtp_select_block ?bs bw rtt now d of
          Ok (best, d') \<Rightarrow> (Ok (Some best), m'\<lparr>sm_scheduler := DtpScheduler d',
             sm_flushable := swap_remove_front (first_index best q') q'\<rparr>)
        | Err e \<Rightarrow> (Err e, m') | Panic \<Rightarrow> (Panic, m'))" by blast
  have c: "sm_canceled (cancel_all X m) = sm_canceled m \<union> X" "sm_streams (cancel_all X m) = shut_streams X (sm_streams m)"
    for X by (simp_all add: cancel_all_def)
  have "\<forall>b \<in> set ?bs. dtp_weight bw rtt now d b \<noteq> NaN" using assms(5) set by auto
  note sel = dtp_scan_select [OF this]
  have empty: "set (sm_flushable m) \<subseteq> expired now m \<longleftrightarrow> keep = []" using set by (metis Diff_eq_empty_iff set_empty)
  show ?thesis
  proof (cases "keep = []")
    case True
    then have "q' = []" using q' by simp
    with True run c empty show ?thesis by simp
  next
    case False
    show ?thesis
    proof (cases "\<exists>b \<in> set ?bs. blk_remaining b > 0")
      case True
      with sel obtain sid d' where s: "sid \<in> set keep" "blk_remaining (flush_block sid m) > 0"
        "\<forall>b' \<in> set ?bs. blk_remaining b' > 0 \<longrightarrow> dtp_le (dtp_weight bw rtt now d) (flush_block sid m) b'"
        "dtp_select_block ?bs bw rtt now d = Ok (sid, d')" by (auto simp: flush_block_id)
      let ?q = "swap_remove_front (first_index sid q') q'"
      have "distinct keep" using assms(2) by (simp add: keep_def)
      note res = swap_remove_front_rest [OF s(1) this q']
      have ex: "\<exists>sid \<in> set (sm_flushable m) - expired now m. blk_remaining (flush_block sid m) > 0"
        using s(1,2) set by blast
      have "sid \<in> set (sm_flushable m) - expired now m"
        "\<forall>sid' \<in> set (sm_flushable m) - expired now m. blk_remaining (flush_block sid' m) > 0
               \<longrightarrow> dtp_le (dtp_weight bw rtt now d) (flush_block sid m) (flush_block sid' m)" using s set by auto
      with False ex run res c s(2,4) set empty show ?thesis by (auto simp: Let_def)
    next
      case no: False
      then have none: "\<not> (\<exists>sid \<in> set (sm_flushable m) - expired now m. blk_remaining (flush_block sid m) > 0)"
        using set by auto
      from no sel have "dtp_select_block ?bs bw rtt now d =
        (case ds_last_block_id d of None \<Rightarrow> Panic | Some bid \<Rightarrow> Ok (bid, d\<lparr>ds_ddl := 0, ds_size := 0, ds_prio := 0\<rparr>))" by simp
      with False none run c empty show ?thesis by (cases "ds_last_block_id d") (auto simp: Let_def)
    qed
  qed
qed

text \<open>A stream map with two streams of 1024 bytes, created at time 0, with deadlines 100 and 4000.\<close>

definition example_stream :: "u64 \<Rightarrow> stream" where
  "example_stream deadline =
     (let s = stream_new_full 0 0 10000 10000 True True deadline 1 0
      in s\<lparr>st_send := (st_send s)\<lparr>sb_len := 1024, sb_off := 1024\<rparr>\<rparr>)"

definition example_map :: stream_map where
  "example_map = (sm_new False False 1 1 SchedDTP)\<lparr>sm_flushable := [0, 4],
     sm_streams := [0 \<mapsto> example_stream 100, 4 \<mapsto> example_stream 4000]\<rparr>"

lemma example_block:
  "sid = 0 \<and> dl = 100 \<or> sid = 4 \<and> dl = 4000 \<Longrightarrow> flush_ok sid example_map \<and> flush_block sid example_map =
     \<lparr>blk_id = sid, blk_deadline = dl, blk_priority = 1, blk_create_time = 0, blk_size = 1024, blk_remaining = 1024\<rparr>"
  by (auto simp: flush_ok_def flush_block_def sm_get_block_def sm_get_def example_map_def example_stream_def Let_def
      stream_new_full_def send_new_full_def send_block_size_def)

lemma peek_flushable_correct_witness:
  "case sm_peek_flushable None (Fin 1) (Fin 0) 0 1000 example_map of (r, m') \<Rightarrow>
     r = Ok (Some 4) \<and> sm_canceled m' = {0} \<and> sm_flushable m' = []"
proof -
  let ?m = example_map
  have b: "flush_block 0 ?m = \<lparr>blk_id = 0, blk_deadline = 100, blk_priority = 1, blk_create_time = 0, blk_size = 1024, blk_remaining = 1024\<rparr>"
    "flush_block 4 ?m = \<lparr>blk_id = 4, blk_deadline = 4000, blk_priority = 1, blk_create_time = 0, blk_size = 1024, blk_remaining = 1024\<rparr>"
    and ok: "flush_ok 0 ?m" "flush_ok 4 ?m" using example_block by blast+
  have m: "sm_flushable ?m = [0, 4]" "sm_scheduler ?m = DtpScheduler dtp_default" "sm_canceled ?m = {}"
    by (simp_all add: example_map_def sm_new_def scheduler_init_def new_scheduler_def)
  have ex: "expired 1000 ?m = {0}" by (auto simp: expired_def m b dtp_should_drop_block_def)
  have w: "\<forall>sid \<in> set (sm_flushable ?m). dtp_weight (Fin 1) (Fin 0) 1000 dtp_default (flush_block sid ?m) \<noteq> NaN"
    by (simp add: m b dtp_weight_def dtp_remaining_time_def dtp_default_def f64_eval)
  have oks: "\<forall>sid \<in> set (sm_flushable ?m). flush_ok sid ?m" using ok by (simp add: m)
  obtain r m' where rm: "sm_peek_flushable None (Fin 1) (Fin 0) 0 1000 ?m = (r, m')"
    by (cases "sm_peek_flushable None (Fin 1) (Fin 0) 0 1000 ?m")
  from peek_flushable_correct [OF m(2) _ _ oks w, of None 0] show ?thesis
    by (simp add: rm m ex b)
qed

text \<open>A stream that only has to announce its end. When the queue holds a single stream with nothing left to
  send, before its deadline, the DTP scheduler panics if it never made a choice, and otherwise repeats its last
  choice: if that was another stream, the queue stays as it is.\<close>

theorem peek_flushable_empty_fin:
  assumes "sm_scheduler m = DtpScheduler d" "sm_flushable m = [sid]" "flush_ok sid m"
    and "blk_remaining (flush_block sid m) = 0" "\<not> dtp_should_drop_block (flush_block sid m) now"
  shows "sm_peek_flushable ffi bw rtt pid now m =
    (case ds_last_block_id d of
       None \<Rightarrow> (Panic, m)
     | Some x \<Rightarrow> (Ok (Some x), m\<lparr>sm_scheduler := DtpScheduler (d\<lparr>ds_ddl := 0, ds_size := 0, ds_prio := 0\<rparr>),
                        sm_flushable := (if x = sid then [] else [sid])\<rparr>))"
  using assms flush_block_Ok [OF assms(3)]
  by (cases "ds_last_block_id d")
    (auto simp: sm_peek_flushable_def sm_has_flushable_def should_drop_block_def select_block_def
      dtp_select_block_def Let_def swap_remove_front_def)

lemma peek_flushable_empty_fin_witness:
  "sm_peek_flushable None (Fin 1) (Fin 0) 0 1000 ((sm_new False False 1 1 SchedDTP)\<lparr>sm_flushable := [4],
     sm_streams := [4 \<mapsto> stream_new_full 0 0 1000 1000 True True 4000 1 0]\<rparr>)
   = (Panic, (sm_new False False 1 1 SchedDTP)\<lparr>sm_flushable := [4],
     sm_streams := [4 \<mapsto> stream_new_full 0 0 1000 1000 True True 4000 1 0]\<rparr>)"
proof -
  let ?m = "(sm_new False False 1 1 SchedDTP)\<lparr>sm_flushable := [4],
     sm_streams := [4 \<mapsto> stream_new_full 0 0 1000 1000 True True 4000 1 0]\<rparr>"
  have ok: "flush_ok 4 ?m" by (simp add: flush_ok_def stream_new_full_def send_new_full_def)
  have b: "flush_block 4 ?m = \<lparr>blk_id = 4, blk_deadline = 4000, blk_priority = 1, blk_create_time = 0, blk_size = 0, blk_remaining = 0\<rparr>"
    by (simp add: flush_block_def sm_get_block_def sm_get_def stream_new_full_def send_new_full_def send_block_size_def)
  have m: "sm_scheduler ?m = DtpScheduler dtp_default" by (simp add: sm_new_def scheduler_init_def new_scheduler_def)
  from peek_flushable_empty_fin [OF m _ ok, of 1000 None "Fin 1" "Fin 0" 0] show ?thesis
    by (simp add: b dtp_should_drop_block_def dtp_default_def)
qed

text \<open>C17. A queue that can not move. When the stream at the end of the queue is past its deadline and its send
  side was shut down before, \<open>peek_flushable\<close> fails with \<open>Done\<close> and leaves the queue as it is, so that the next
  call fails the same way, whatever other streams are waiting.\<close>

theorem peek_flushable_stuck:
  assumes "sm_scheduler m = DtpScheduler d" "sm_flushable m = q @ [sid]"
    and "\<forall>x \<in> set (q @ [sid]). \<exists>b. sm_get_block x m = Ok b"
    and "sm_streams m sid = Some s" "sb_shutdown (st_send s)"
    and "dtp_should_drop_block (flush_block sid m) now"
  shows "sm_peek_flushable ffi bw rtt pid now m = (Err Done,
    m\<lparr>sm_canceled := insert sid (sm_canceled m), sm_canceled_depend := insert sid (sm_canceled_depend m)\<rparr>)"
proof -
  have "\<exists>bs. sm_all_blocks xs m = Ok bs" if "set xs \<subseteq> set (q @ [sid])" for xs
    using that assms(3) by (induction xs) auto
  from this [of "rev (q @ [sid])"] obtain bs where all: "sm_all_blocks (rev (q @ [sid])) m = Ok bs" by auto
  obtain b where b: "sm_get_block sid m = Ok b" using assms(3) by auto
  with assms(6) have drop: "dtp_should_drop_block b now" by (simp add: flush_block_def)
  have cancel: "sm_cancel_block sid m = (Err Done,
    m\<lparr>sm_canceled := insert sid (sm_canceled m), sm_canceled_depend := insert sid (sm_canceled_depend m)\<rparr>)"
    using assms(4,5) by (simp add: sm_cancel_block_def send_shutdown_def Let_def)
  have "sm_drop_loop ffi bw rtt pid now (length (q @ [sid])) [] m = (Err Done,
    m\<lparr>sm_canceled := insert sid (sm_canceled m), sm_canceled_depend := insert sid (sm_canceled_depend m)\<rparr>)"
    using assms(1,2) b drop cancel by (simp add: should_drop_block_def nth_append Let_def)
  then show ?thesis unfolding sm_peek_flushable_def sm_has_flushable_def assms(2) all by simp
qed

lemma peek_flushable_stuck_witness:
  "let s = example_stream 100; m = example_map\<lparr>sm_flushable := [4, 0],
     sm_streams := (sm_streams example_map)(0 \<mapsto> s\<lparr>st_send := (st_send s)\<lparr>sb_shutdown := True, sb_data := []\<rparr>\<rparr>)\<rparr>
   in case sm_peek_flushable None (Fin 1) (Fin 0) 0 1000 m of (r, m') \<Rightarrow> r = Err Done \<and> sm_flushable m' = [4, 0]"
proof -
  let ?s = "(example_stream 100)\<lparr>st_send := (st_send (example_stream 100))\<lparr>sb_shutdown := True, sb_data := []\<rparr>\<rparr>"
  let ?m = "example_map\<lparr>sm_flushable := [4, 0], sm_streams := (sm_streams example_map)(0 \<mapsto> ?s)\<rparr>"
  have m: "sm_scheduler ?m = DtpScheduler dtp_default"
    by (simp add: example_map_def sm_new_def scheduler_init_def new_scheduler_def)
  have b: "sm_get_block 0 ?m = Ok \<lparr>blk_id = 0, blk_deadline = 100, blk_priority = 1, blk_create_time = 0, blk_size = 1024, blk_remaining = 1024\<rparr>"
    "sm_get_block 4 ?m = Ok \<lparr>blk_id = 4, blk_deadline = 4000, blk_priority = 1, blk_create_time = 0, blk_size = 1024, blk_remaining = 1024\<rparr>"
    by (simp_all add: sm_get_block_def sm_get_def example_map_def example_stream_def Let_def stream_new_full_def
        send_new_full_def send_block_size_def)
  have blocks: "\<forall>x \<in> set ([4] @ [0]). \<exists>b. sm_get_block x ?m = Ok b" using b by simp
  have drop: "dtp_should_drop_block (flush_block 0 ?m) 1000" by (simp add: flush_block_def b dtp_should_drop_block_def)
  from peek_flushable_stuck [OF m _ blocks _ _ drop, of ?s None "Fin 1" "Fin 0" 0] show ?thesis
    by (simp add: Let_def)
qed

end
