(* ===== verification/Clock.thy ===== *)
theory Clock
  imports Float64
begin

text \<open>
  \<open>std::time\<close>: a \<open>Duration\<close> is a natural number of nanoseconds, an \<open>Instant\<close> an integer number of
  nanoseconds from some origin. \<open>duration_since\<close> and the difference of instants saturate at zero. The
  scaling of durations goes through binary floating point, as the library does it; seconds in a
  duration fit 64 bits, so the float results are finite and the overflow panics are out of reach.
\<close>

type_synonym duration = nat
type_synonym instant = int

definition NANOS :: nat where
  "NANOS = 1000000000"

definition millis :: "nat \<Rightarrow> duration" where
  "millis n = n * 1000000"

definition micros :: "nat \<Rightarrow> duration" where
  "micros n = n * 1000"

definition as_millis :: "duration \<Rightarrow> nat" where
  "as_millis d = d div 1000000"

definition as_micros :: "duration \<Rightarrow> nat" where
  "as_micros d = d div 1000"

definition as_secs :: "duration \<Rightarrow> nat" where
  "as_secs d = d div NANOS"

definition duration_since :: "instant \<Rightarrow> instant \<Rightarrow> duration" where
  "duration_since later earlier = nat (later - earlier)"

section \<open>Scaling\<close>

definition as_secs_f64 :: "duration \<Rightarrow> f64" where
  "as_secs_f64 d = f64_of_nat (d div NANOS) + f64_of_nat (d mod NANOS) / Fin 1000000000"

text \<open>\<open>from_secs_f64\<close> rounds to the nearest nanosecond.\<close>

definition from_secs :: "rat \<Rightarrow> duration" where
  "from_secs x = nat (round_half_even (x * 1000000000))"

definition mul_f64 :: "duration \<Rightarrow> f64 \<Rightarrow> duration" where
  "mul_f64 d r = (case r * as_secs_f64 d of Fin x \<Rightarrow> from_secs x | _ \<Rightarrow> 0)"

text \<open>Binary32 for the values in reach here: no overflow.\<close>

definition f32_round :: "rat \<Rightarrow> rat" where
  "f32_round x =
     (if x = 0 then 0
      else let ulp = two_power (max (rat_exponent \<bar>x\<bar>) (- 126) - 23) in of_int (round_half_even (x / ulp)) * ulp)"

definition as_secs_f32 :: "duration \<Rightarrow> rat" where
  "as_secs_f32 d = f32_round (f32_round (of_nat (d div NANOS)) + f32_round (f32_round (of_nat (d mod NANOS)) / 1000000000))"

definition div_f32 :: "duration \<Rightarrow> rat \<Rightarrow> duration" where
  "div_f32 d r = from_secs (f32_round (as_secs_f32 d / r))"

lemma duration_since_le: "earlier \<le> t \<Longrightarrow> duration_since later t \<le> duration_since later earlier"
  by (simp add: duration_since_def)

end
