(* ===== verification/Minmax.thy ===== *)
theory Minmax
  imports Clock
begin

text \<open>
  The windowed minimum and maximum of \<open>src/minmax.rs\<close> (Kathleen Nichols' algorithm): three samples, the
  best, second and third best of the recent past. The tracker is polymorphic in its ordered values, as
  in the sources.
\<close>

record 'a minmax_sample =
  mms_time :: instant
  mms_value :: 'a

record 'a minmax =
  mm_0 :: "'a minmax_sample"
  mm_1 :: "'a minmax_sample"
  mm_2 :: "'a minmax_sample"

text \<open>\<open>zero\<close> is the default of the value type; the clock reading of \<open>new\<close> is an argument.\<close>

definition minmax_new :: "instant \<Rightarrow> 'a::zero minmax" where
  "minmax_new now = (let s = \<lparr>mms_time = now, mms_value = 0\<rparr> in \<lparr>mm_0 = s, mm_1 = s, mm_2 = s\<rparr>)"

definition minmax_reset :: "instant \<Rightarrow> 'a \<Rightarrow> 'a minmax \<Rightarrow> 'a \<times> 'a minmax" where
  "minmax_reset time meas m =
     (let s = \<lparr>mms_time = time, mms_value = meas\<rparr> in (mms_value s, m\<lparr>mm_0 := s, mm_1 := s, mm_2 := s\<rparr>))"

definition minmax_subwin_update :: "duration \<Rightarrow> instant \<Rightarrow> 'a \<Rightarrow> 'a minmax \<Rightarrow> 'a \<times> 'a minmax" where
  "minmax_subwin_update win time meas m =
     (let val = \<lparr>mms_time = time, mms_value = meas\<rparr>;
          delta_time = duration_since time (mms_time (mm_0 m));
          m = (if delta_time > win then
                 let m = m\<lparr>mm_0 := mm_1 m, mm_1 := mm_2 m, mm_2 := val\<rparr>
                 in if duration_since time (mms_time (mm_0 m)) > win
                    then m\<lparr>mm_0 := mm_1 m, mm_1 := mm_2 m, mm_2 := val\<rparr> else m
               else if mms_time (mm_1 m) = mms_time (mm_0 m) \<and> delta_time > div_f32 win 4
               then m\<lparr>mm_2 := val, mm_1 := val\<rparr>
               else if mms_time (mm_2 m) = mms_time (mm_1 m) \<and> delta_time > div_f32 win 2
               then m\<lparr>mm_2 := val\<rparr>
               else m)
      in (mms_value (mm_0 m), m))"

definition running_min :: "duration \<Rightarrow> instant \<Rightarrow> 'a::ord \<Rightarrow> 'a minmax \<Rightarrow> 'a \<times> 'a minmax" where
  "running_min win time meas m =
     (let val = \<lparr>mms_time = time, mms_value = meas\<rparr>;
          delta_time = duration_since time (mms_time (mm_2 m))
      in if mms_value val \<le> mms_value (mm_0 m) \<or> delta_time > win then minmax_reset time meas m
         else minmax_subwin_update win time meas
           (if mms_value val \<le> mms_value (mm_1 m) then m\<lparr>mm_2 := val, mm_1 := val\<rparr>
            else if mms_value val \<le> mms_value (mm_2 m) then m\<lparr>mm_2 := val\<rparr>
            else m))"

definition running_max :: "duration \<Rightarrow> instant \<Rightarrow> 'a::ord \<Rightarrow> 'a minmax \<Rightarrow> 'a \<times> 'a minmax" where
  "running_max win time meas m =
     (let val = \<lparr>mms_time = time, mms_value = meas\<rparr>;
          delta_time = duration_since time (mms_time (mm_2 m))
      in if mms_value val \<ge> mms_value (mm_0 m) \<or> delta_time > win then minmax_reset time meas m
         else minmax_subwin_update win time meas
           (if mms_value val \<ge> mms_value (mm_1 m) then m\<lparr>mm_2 := val, mm_1 := val\<rparr>
            else if mms_value val \<ge> mms_value (mm_2 m) then m\<lparr>mm_2 := val\<rparr>
            else m))"

section \<open>The samples against the history\<close>

text \<open>\<open>best\<close>: the sample at position \<open>i\<close> of the history is at least as good as every later one. The three
  estimates are such samples, in the order of the history. \<open>le\<close> is the order or its converse.\<close>

definition mm_best :: "('a \<Rightarrow> 'a \<Rightarrow> bool) \<Rightarrow> 'a minmax_sample list \<Rightarrow> nat \<Rightarrow> 'a minmax_sample \<Rightarrow> bool" where
  "mm_best le H i s \<longleftrightarrow> i < length H \<and> H ! i = s \<and> (\<forall>j. i \<le> j \<and> j < length H \<longrightarrow> le (mms_value s) (mms_value (H ! j)))"

definition mm_inv :: "('a \<Rightarrow> 'a \<Rightarrow> bool) \<Rightarrow> 'a minmax_sample list \<Rightarrow> 'a minmax \<Rightarrow> bool" where
  "mm_inv le H m \<longleftrightarrow> sorted (map mms_time H)
     \<and> (\<exists>i0 i1 i2. i0 \<le> i1 \<and> i1 \<le> i2 \<and> mm_best le H i0 (mm_0 m) \<and> mm_best le H i1 (mm_1 m) \<and> mm_best le H i2 (mm_2 m))"

lemma mm_best_snoc:
  "mm_best le H i s \<Longrightarrow> le (mms_value s) (mms_value v) \<Longrightarrow> mm_best le (H @ [v]) i s"
  by (auto simp: mm_best_def nth_append less_Suc_eq)

lemma mm_best_new: "le (mms_value v) (mms_value v) \<Longrightarrow> mm_best le (H @ [v]) (length H) v"
  by (auto simp: mm_best_def nth_append)

lemma mm_best_index: "mm_best le H i s \<Longrightarrow> i \<le> length H"
  by (simp add: mm_best_def)

lemma mm_invI:
  assumes "sorted (map mms_time H)" "i0 \<le> i1" "i1 \<le> i2"
    and "mm_best le H i0 (mm_0 m)" "mm_best le H i1 (mm_1 m)" "mm_best le H i2 (mm_2 m)"
  shows "mm_inv le H m"
  using assms unfolding mm_inv_def by blast

lemma mm_invE:
  assumes "mm_inv le H m"
  obtains i0 i1 i2 where "sorted (map mms_time H)" "i0 \<le> i1" "i1 \<le> i2"
    "mm_best le H i0 (mm_0 m)" "mm_best le H i1 (mm_1 m)" "mm_best le H i2 (mm_2 m)"
  using assms unfolding mm_inv_def by blast

lemma mm_inv_reset:
  assumes "sorted (map mms_time (H @ [v]))" "le (mms_value v) (mms_value v)"
  shows "mm_inv le (H @ [v]) (m\<lparr>mm_0 := v, mm_1 := v, mm_2 := v\<rparr>)"
  by (rule mm_invI [where ?i0.0 = "length H" and ?i1.0 = "length H" and ?i2.0 = "length H"])
    (use assms mm_best_new [where le = le and v = v and H = H] in simp_all)

text \<open>A sample worse than the best replaces the others it beats.\<close>

lemma mm_inv_replace:
  assumes inv: "mm_inv le H m" and srt: "sorted (map mms_time (H @ [v]))" and refl: "le (mms_value v) (mms_value v)"
    and total: "\<And>x y. le x y \<or> le y x" and worse: "le (mms_value (mm_0 m)) (mms_value v)"
  shows "mm_inv le (H @ [v])
    (if le (mms_value v) (mms_value (mm_1 m)) then m\<lparr>mm_2 := v, mm_1 := v\<rparr>
     else if le (mms_value v) (mms_value (mm_2 m)) then m\<lparr>mm_2 := v\<rparr> else m)"
proof -
  obtain i0 i1 i2 where i: "i0 \<le> i1" "i1 \<le> i2"
    and b: "mm_best le H i0 (mm_0 m)" "mm_best le H i1 (mm_1 m)" "mm_best le H i2 (mm_2 m)"
    using inv by (rule mm_invE)
  note n = mm_best_new [where le = le and v = v and H = H, OF refl]
  note s = mm_best_snoc [where v = v, OF b(1)] mm_best_snoc [where v = v, OF b(2)] mm_best_snoc [where v = v, OF b(3)]
  note ix = b [THEN mm_best_index]
  consider "le (mms_value v) (mms_value (mm_1 m))"
    | "\<not> le (mms_value v) (mms_value (mm_1 m))" "le (mms_value v) (mms_value (mm_2 m))"
    | "\<not> le (mms_value v) (mms_value (mm_1 m))" "\<not> le (mms_value v) (mms_value (mm_2 m))" by blast
  then show ?thesis
  proof cases
    case 1
    then show ?thesis
      using mm_invI [OF srt, where ?i0.0 = i0 and ?i1.0 = "length H" and ?i2.0 = "length H"] s(1) n ix i worse by simp
  next
    case 2
    with total have "le (mms_value (mm_1 m)) (mms_value v)" by blast
    with 2 show ?thesis
      using mm_invI [OF srt, where ?i0.0 = i0 and ?i1.0 = i1 and ?i2.0 = "length H"] s(1,2) n ix i worse by simp
  next
    case 3
    with total have "le (mms_value (mm_1 m)) (mms_value v)" "le (mms_value (mm_2 m)) (mms_value v)" by blast+
    with 3 show ?thesis
      using mm_invI [OF srt, where ?i0.0 = i0 and ?i1.0 = i1 and ?i2.0 = i2] s i worse by simp
  qed
qed

text \<open>Moving the window keeps the estimates in order and brings the best one into the window.\<close>

lemma mm_inv_subwin:
  assumes inv: "mm_inv le (H @ [\<lparr>mms_time = time, mms_value = meas\<rparr>]) m" and refl: "le meas meas"
    and "minmax_subwin_update win time meas m = (r, m')"
  shows "mm_inv le (H @ [\<lparr>mms_time = time, mms_value = meas\<rparr>]) m' \<and> r = mms_value (mm_0 m')
    \<and> (duration_since time (mms_time (mm_2 m)) \<le> win \<longrightarrow> duration_since time (mms_time (mm_0 m')) \<le> win)"
proof -
  let ?v = "\<lparr>mms_time = time, mms_value = meas\<rparr>"
  obtain i0 i1 i2 where srt: "sorted (map mms_time (H @ [?v]))" and i: "i0 \<le> i1" "i1 \<le> i2"
    and b: "mm_best le (H @ [?v]) i0 (mm_0 m)" "mm_best le (H @ [?v]) i1 (mm_1 m)" "mm_best le (H @ [?v]) i2 (mm_2 m)"
    using inv by (rule mm_invE)
  have n: "mm_best le (H @ [?v]) (length H) ?v" using mm_best_new [where le = le and v = ?v] refl by simp
  have i2: "i2 \<le> length H" using b(3) by (simp add: mm_best_def)
  note I = mm_invI [OF srt]
  have r: "r = mms_value (mm_0 m')" using assms(3) by (auto simp: minmax_subwin_update_def Let_def)
  have m': "m' = snd (minmax_subwin_update win time meas m)" using assms(3) by simp
  have "mm_inv le (H @ [?v]) m'
    \<and> (duration_since time (mms_time (mm_2 m)) \<le> win \<longrightarrow> duration_since time (mms_time (mm_0 m')) \<le> win)"
  proof (cases "duration_since time (mms_time (mm_0 m)) > win")
    case True
    show ?thesis
    proof (cases "duration_since time (mms_time (mm_1 m)) > win")
      case c: True
      with True have "m' = m\<lparr>mm_0 := mm_2 m, mm_1 := ?v, mm_2 := ?v\<rparr>"
        unfolding m' by (simp add: minmax_subwin_update_def Let_def)
      then show ?thesis using I [where ?i0.0 = i2 and ?i1.0 = "length H" and ?i2.0 = "length H"] b n i2 by simp
    next
      case c: False
      with True have "m' = m\<lparr>mm_0 := mm_1 m, mm_1 := mm_2 m, mm_2 := ?v\<rparr>"
        unfolding m' by (simp add: minmax_subwin_update_def Let_def)
      then show ?thesis using I [where ?i0.0 = i1 and ?i1.0 = i2 and ?i2.0 = "length H"] b n i i2 c by simp
    qed
  next
    case False
    then have "m' = (if mms_time (mm_1 m) = mms_time (mm_0 m) \<and> duration_since time (mms_time (mm_0 m)) > div_f32 win 4
       then m\<lparr>mm_2 := ?v, mm_1 := ?v\<rparr>
       else if mms_time (mm_2 m) = mms_time (mm_1 m) \<and> duration_since time (mms_time (mm_0 m)) > div_f32 win 2
       then m\<lparr>mm_2 := ?v\<rparr> else m)" unfolding m' by (simp add: minmax_subwin_update_def Let_def)
    then consider "m' = m\<lparr>mm_2 := ?v, mm_1 := ?v\<rparr>" | "m' = m\<lparr>mm_2 := ?v\<rparr>" | "m' = m" by meson
    then show ?thesis
    proof cases
      case 1
      then show ?thesis using I [where ?i0.0 = i0 and ?i1.0 = "length H" and ?i2.0 = "length H"] b n i i2 False by simp
    next
      case 2
      then show ?thesis using I [where ?i0.0 = i0 and ?i1.0 = i1 and ?i2.0 = "length H"] b n i i2 False by simp
    next
      case 3
      then show ?thesis using inv False by simp
    qed
  qed
  with r show ?thesis by blast
qed

lemma mm_best_value:
  "mm_best le H i s \<Longrightarrow> s \<in> set H \<and> (\<forall>s' \<in> set (drop i H). le (mms_value s) (mms_value s'))"
  by (auto simp: mm_best_def in_set_conv_nth)

section \<open>Properties\<close>

text \<open>The windowed minimum. When the tracker's estimates are samples of the history \<open>H\<close>, in its order, each
  the least from its own time on, then after \<open>running_min\<close> they are so for the history with the new sample,
  and the value returned belongs to a sample that lies in the window and is the least of all samples taken
  from then on.\<close>

theorem running_min_correct:
  fixes meas :: "'a::linorder"
  assumes "mm_inv (\<le>) H m" "\<forall>s \<in> set H. mms_time s \<le> time" "running_min win time meas m = (r, m')"
  shows "mm_inv (\<le>) (H @ [\<lparr>mms_time = time, mms_value = meas\<rparr>]) m'
    \<and> (\<exists>older s recent. H @ [\<lparr>mms_time = time, mms_value = meas\<rparr>] = older @ s # recent
        \<and> r = mms_value s \<and> duration_since time (mms_time s) \<le> win
        \<and> (\<forall>s' \<in> set (s # recent). r \<le> mms_value s'))"
proof -
  let ?v = "\<lparr>mms_time = time, mms_value = meas\<rparr>"
  have srt: "sorted (map mms_time (H @ [?v]))"
    using assms(1,2) by (auto simp: mm_inv_def sorted_append)
  have main: "mm_inv (\<le>) (H @ [?v]) m' \<and> r = mms_value (mm_0 m') \<and> duration_since time (mms_time (mm_0 m')) \<le> win"
  proof (cases "meas \<le> mms_value (mm_0 m) \<or> duration_since time (mms_time (mm_2 m)) > win")
    case True
    with assms(3) have "m' = m\<lparr>mm_0 := ?v, mm_1 := ?v, mm_2 := ?v\<rparr>" "r = meas"
      by (auto simp: running_min_def minmax_reset_def Let_def)
    then show ?thesis using mm_inv_reset [where le = "(\<le>)" and v = ?v, OF srt] by (simp add: duration_since_def)
  next
    case False
    let ?m1 = "if mms_value ?v \<le> mms_value (mm_1 m) then m\<lparr>mm_2 := ?v, mm_1 := ?v\<rparr>
            else if mms_value ?v \<le> mms_value (mm_2 m) then m\<lparr>mm_2 := ?v\<rparr> else m"
    have "minmax_subwin_update win time meas ?m1 = (r, m')"
      using assms(3) False by (simp add: running_min_def Let_def)
    moreover have "mm_inv (\<le>) (H @ [?v]) ?m1"
      by (rule mm_inv_replace [where le = "(\<le>)", OF assms(1) srt]) (use False in auto)
    moreover have "duration_since time (mms_time (mm_2 ?m1)) \<le> win"
      using False by (auto simp: duration_since_def)
    ultimately show ?thesis using mm_inv_subwin [where le = "(\<le>)", of H time meas ?m1 win r m'] by simp
  qed
  then obtain i0 where b: "mm_best (\<le>) (H @ [?v]) i0 (mm_0 m')" by (auto elim: mm_invE)
  then have "i0 < length (H @ [?v])" "(H @ [?v]) ! i0 = mm_0 m'" by (simp_all add: mm_best_def)
  then have "H @ [?v] = take i0 (H @ [?v]) @ mm_0 m' # drop (Suc i0) (H @ [?v])"
    "drop i0 (H @ [?v]) = mm_0 m' # drop (Suc i0) (H @ [?v])"
    by (metis id_take_nth_drop, metis Cons_nth_drop_Suc)
  with main mm_best_value [OF b] show ?thesis by metis
qed

lemma running_min_correct_witness:
  "fst (running_min 100 10 7 (snd (minmax_reset 0 (5::int) (minmax_new 0)))) \<le> 7"
proof -
  let ?s = "\<lparr>mms_time = 0, mms_value = 5::int\<rparr>"
  let ?m = "snd (minmax_reset 0 (5::int) (minmax_new 0))"
  have m: "?m = \<lparr>mm_0 = ?s, mm_1 = ?s, mm_2 = ?s\<rparr>" by (simp add: minmax_reset_def minmax_new_def Let_def)
  have inv: "mm_inv (\<le>) [?s] ?m" unfolding m
    by (rule mm_invI [where ?i0.0 = 0 and ?i1.0 = 0 and ?i2.0 = 0]) (simp_all add: mm_best_def)
  obtain r m' where run: "running_min 100 10 7 ?m = (r, m')" by (cases "running_min 100 10 7 ?m")
  from running_min_correct [OF inv _ run] have "r \<le> 7" by (auto simp: Cons_eq_append_conv append_eq_Cons_conv)
  then show ?thesis by (simp add: run)
qed

end
