(* ===== verification/Congestion.thy ===== *)
theory Congestion
  imports Clock Frame
begin

text \<open>
  The interface of congestion control (\<open>src/cc/mod.rs\<close>), Reno (\<open>src/cc/reno.rs\<close>) and the externally
  controlled window (\<open>src/cc/cc_trigger.rs\<close>). A \<open>dyn CongestionControl\<close> is a record of operations over a
  state type. What the operations read of the outside, the clocks and the channel of the thread
  that runs the external algorithm, is their argument \<open>cc_env\<close>. Logging and trace identifiers are left out.
\<close>

section \<open>The interface\<close>

type_synonym usize = u64

text \<open>A sent packet (\<open>src/recovery.rs\<close>).\<close>

record sent =
  sn_pkt_num :: u64
  sn_frames :: "frame list"
  sn_time :: instant
  sn_size :: usize
  sn_ack_eliciting :: bool
  sn_in_flight :: bool
  sn_fec_info :: fec_status

record cc_env =
  ce_now :: instant
  ce_wall_ms :: u64
  ce_recv :: "(u64 \<times> u64) option"

definition MAX_DATAGRAM_SIZE :: usize where "MAX_DATAGRAM_SIZE = 1452"
definition INITIAL_WINDOW_PACKETS :: usize where "INITIAL_WINDOW_PACKETS = 10"
definition MINIMUM_WINDOW_PACKETS :: usize where "MINIMUM_WINDOW_PACKETS = 2"
definition INITIAL_WINDOW :: usize where "INITIAL_WINDOW = INITIAL_WINDOW_PACKETS * MAX_DATAGRAM_SIZE"
definition MINIMUM_WINDOW :: usize where "MINIMUM_WINDOW = MINIMUM_WINDOW_PACKETS * MAX_DATAGRAM_SIZE"
definition LOSS_REDUCTION_FACTOR :: f64 where "LOSS_REDUCTION_FACTOR = Fin (1 / 2)"
definition ABC_L :: usize where "ABC_L = 2"

datatype cc_algorithm = AlgReno | AlgBBR | AlgCcTrigger | AlgCUBIC

definition cc_algorithm_from_str :: "string \<Rightarrow> cc_algorithm result" where
  "cc_algorithm_from_str name =
     (if name = ''reno'' then Ok AlgReno else if name = ''bbr'' then Ok AlgBBR
      else if name = ''cc_trigger'' then Ok AlgCcTrigger else if name = ''cubic'' then Ok AlgCUBIC
      else Err CongestionControl)"

text \<open>The arguments of \<open>on_packet_acked_cc\<close> and \<open>congestion_event\<close> beside the packet.\<close>

record acked_info =
  ai_srtt :: duration
  ai_min_rtt :: duration
  ai_latest_rtt :: duration
  ai_app_limited :: bool
  ai_epoch :: epoch
  ai_lost_count :: usize

record event_info =
  ev_srtt :: duration
  ev_time_sent :: instant
  ev_now :: instant
  ev_packet_id :: u64
  ev_epoch :: epoch
  ev_lost_count :: usize

record 'c cc_ops =
  co_cwnd :: "'c \<Rightarrow> usize"
  co_bytes_in_flight :: "'c \<Rightarrow> usize"
  co_decrease_bytes_in_flight :: "usize \<Rightarrow> 'c \<Rightarrow> 'c"
  co_recovery_start_time :: "'c \<Rightarrow> instant option"
  co_collapse_cwnd :: "'c \<Rightarrow> 'c"
  co_on_packet_sent :: "cc_env \<Rightarrow> sent \<Rightarrow> usize \<Rightarrow> 'c \<Rightarrow> 'c"
  co_on_packet_acked :: "cc_env \<Rightarrow> sent \<Rightarrow> acked_info \<Rightarrow> 'c \<Rightarrow> 'c result"
  co_congestion_event :: "cc_env \<Rightarrow> event_info \<Rightarrow> 'c \<Rightarrow> 'c result"
  co_pacing_rate :: "'c \<Rightarrow> u64"
  co_bbr_begin_ack :: "instant \<Rightarrow> 'c \<Rightarrow> 'c"
  co_bbr_end_ack :: "'c \<Rightarrow> 'c"
  co_bbr_min_rtt :: "'c \<Rightarrow> duration"

text \<open>The default method \<open>in_congestion_recovery\<close>.\<close>

definition in_congestion_recovery :: "instant option \<Rightarrow> instant \<Rightarrow> bool" where
  "in_congestion_recovery start sent_time = (case start of Some t \<Rightarrow> sent_time \<le> t | None \<Rightarrow> False)"

definition sat_sub64 :: "u64 \<Rightarrow> u64 \<Rightarrow> u64" where
  "sat_sub64 a b = (if b \<le> a then a - b else 0)"

text \<open>What every algorithm promises about the bytes in flight.\<close>

locale bytes_in_flight =
  fixes ops :: "'c cc_ops"
  assumes sent: "co_bytes_in_flight ops (co_on_packet_sent ops env p n c) = co_bytes_in_flight ops c + n"
    and acked: "co_on_packet_acked ops env p i c = Ok c' \<Longrightarrow> sn_size p \<le> co_bytes_in_flight ops c
      \<Longrightarrow> co_bytes_in_flight ops c' = co_bytes_in_flight ops c - sn_size p"
    and decrease: "n \<le> co_bytes_in_flight ops c
      \<Longrightarrow> co_bytes_in_flight ops (co_decrease_bytes_in_flight ops n c) = co_bytes_in_flight ops c - n"
    and event: "co_congestion_event ops env e c = Ok c' \<Longrightarrow> co_bytes_in_flight ops c' = co_bytes_in_flight ops c"
    and collapse: "co_bytes_in_flight ops (co_collapse_cwnd ops c) = co_bytes_in_flight ops c"
    and begin_ack: "co_bytes_in_flight ops (co_bbr_begin_ack ops t c) = co_bytes_in_flight ops c"
    and end_ack: "co_bytes_in_flight ops (co_bbr_end_ack ops c) = co_bytes_in_flight ops c"

section \<open>Reno\<close>

record reno =
  rn_congestion_window :: usize
  rn_bytes_in_flight :: usize
  rn_recovery_start_time :: "instant option"
  rn_ssthresh :: usize

definition reno_new :: reno where
  "reno_new = \<lparr>rn_congestion_window = INITIAL_WINDOW, rn_bytes_in_flight = 0, rn_recovery_start_time = None,
     rn_ssthresh = - 1\<rparr>"

definition reno_collapse_cwnd :: "reno \<Rightarrow> reno" where
  "reno_collapse_cwnd r = r\<lparr>rn_congestion_window := MINIMUM_WINDOW\<rparr>"

definition reno_decrease_bytes_in_flight :: "usize \<Rightarrow> reno \<Rightarrow> reno" where
  "reno_decrease_bytes_in_flight n r = r\<lparr>rn_bytes_in_flight := sat_sub64 (rn_bytes_in_flight r) n\<rparr>"

definition reno_on_packet_sent :: "cc_env \<Rightarrow> sent \<Rightarrow> usize \<Rightarrow> reno \<Rightarrow> reno" where
  "reno_on_packet_sent env p n r = r\<lparr>rn_bytes_in_flight := rn_bytes_in_flight r + n\<rparr>"

definition reno_on_packet_acked :: "cc_env \<Rightarrow> sent \<Rightarrow> acked_info \<Rightarrow> reno \<Rightarrow> reno result" where
  "reno_on_packet_acked env p i r =
     (let r = r\<lparr>rn_bytes_in_flight := rn_bytes_in_flight r - sn_size p\<rparr> in
      if in_congestion_recovery (rn_recovery_start_time r) (sn_time p) then Ok r
      else if ai_app_limited i then Ok r
      else if rn_congestion_window r < rn_ssthresh r
      then Ok (r\<lparr>rn_congestion_window := rn_congestion_window r + sn_size p\<rparr>)
      else if rn_congestion_window r = 0 then Panic
      else Ok (r\<lparr>rn_congestion_window :=
             rn_congestion_window r + (MAX_DATAGRAM_SIZE * sn_size p) div rn_congestion_window r\<rparr>))"

definition reno_congestion_event :: "cc_env \<Rightarrow> event_info \<Rightarrow> reno \<Rightarrow> reno result" where
  "reno_congestion_event env e r =
     (if \<not> in_congestion_recovery (rn_recovery_start_time r) (ev_time_sent e)
      then
        let cwnd = max (f64_to_u64 (f64_of_u64 (rn_congestion_window r) * LOSS_REDUCTION_FACTOR)) MINIMUM_WINDOW
        in Ok (r\<lparr>rn_recovery_start_time := Some (ev_now e), rn_congestion_window := cwnd, rn_ssthresh := cwnd\<rparr>)
      else Ok r)"

definition reno_ops :: "reno cc_ops" where
  "reno_ops = \<lparr>co_cwnd = rn_congestion_window, co_bytes_in_flight = rn_bytes_in_flight,
     co_decrease_bytes_in_flight = reno_decrease_bytes_in_flight, co_recovery_start_time = rn_recovery_start_time,
     co_collapse_cwnd = reno_collapse_cwnd, co_on_packet_sent = reno_on_packet_sent,
     co_on_packet_acked = reno_on_packet_acked, co_congestion_event = reno_congestion_event,
     co_pacing_rate = (\<lambda>_. - 1), co_bbr_begin_ack = (\<lambda>_ r. r), co_bbr_end_ack = (\<lambda>r. r), co_bbr_min_rtt = (\<lambda>_. 0)\<rparr>"

interpretation reno: bytes_in_flight reno_ops
  by unfold_locales
    (auto simp: reno_ops_def reno_on_packet_sent_def reno_on_packet_acked_def reno_decrease_bytes_in_flight_def
      reno_congestion_event_def reno_collapse_cwnd_def sat_sub64_def Let_def split: if_splits)

section \<open>The window set by an external algorithm\<close>

text \<open>The thread pool runs \<open>cc_trigger_async\<close> on the jobs it is given and sends its answers over a channel;
  the jobs are kept in the order they were started, the answer that \<open>try_recv\<close> finds is in \<open>cc_env\<close>.\<close>

record cc_info =
  ci_event_type :: u8
  ci_event_time :: u64
  ci_rtt :: u64
  ci_bytes_in_flight :: u64
  ci_packet_id :: u64

record cc_trigger =
  ct_congestion_window :: u64
  ct_pacing_rate :: u64
  ct_bytes_in_flight :: usize
  ct_recovery_start_time :: "instant option"
  ct_open :: bool
  ct_jobs :: "(cc_info list \<times> u64 \<times> u64) list"
  ct_cc_infos :: "cc_info list"

definition cc_trigger_new :: "u64 \<Rightarrow> u64 \<Rightarrow> cc_trigger" where
  "cc_trigger_new init_cwnd init_pacing_rate =
     \<lparr>ct_congestion_window = init_cwnd, ct_pacing_rate = init_pacing_rate, ct_bytes_in_flight = 0,
      ct_recovery_start_time = None, ct_open = False, ct_jobs = [], ct_cc_infos = []\<rparr>"

text \<open>\<open>solution\<close> stands for the foreign \<open>SolutionCcTrigger\<close>, if the feature \<open>interface\<close> is on.\<close>

definition cc_trigger_async :: "(cc_info list \<Rightarrow> u64 \<Rightarrow> u64 \<Rightarrow> u64 \<times> u64) option
    \<Rightarrow> cc_info list \<times> u64 \<times> u64 \<Rightarrow> u64 \<times> u64" where
  "cc_trigger_async solution job =
     (case job of (infos, cwnd, pacing_rate) \<Rightarrow>
        (case solution of Some f \<Rightarrow> f infos cwnd pacing_rate | None \<Rightarrow> (cwnd, pacing_rate)))"

definition cc_trigger_event :: "cc_env \<Rightarrow> u8 \<Rightarrow> u64 \<Rightarrow> u64 \<Rightarrow> u64 \<Rightarrow> cc_trigger \<Rightarrow> cc_trigger" where
  "cc_trigger_event env event_type rtt bytes packet_id c =
     (let info = \<lparr>ci_event_type = event_type, ci_event_time = ce_wall_ms env, ci_rtt = rtt,
                  ci_bytes_in_flight = bytes, ci_packet_id = packet_id\<rparr>;
          c = c\<lparr>ct_cc_infos := ct_cc_infos c @ [info]\<rparr>;
          cwnd = ct_congestion_window c;
          pacing_rate = ct_pacing_rate c;
          c = (if \<not> ct_open c
               then c\<lparr>ct_jobs := ct_jobs c @ [(ct_cc_infos c, cwnd, pacing_rate)], ct_cc_infos := [], ct_open := True\<rparr>
               else c)
      in case ce_recv env of
           Some (cwnd, pacing_rate) \<Rightarrow>
             let c = c\<lparr>ct_congestion_window := cwnd, ct_pacing_rate := pacing_rate\<rparr>
             in if ct_cc_infos c \<noteq> []
                then c\<lparr>ct_jobs := ct_jobs c @ [(ct_cc_infos c, cwnd, pacing_rate)], ct_cc_infos := []\<rparr>
                else c
         | None \<Rightarrow> c)"

definition cc_trigger_on_packet_acked :: "cc_env \<Rightarrow> sent \<Rightarrow> acked_info \<Rightarrow> cc_trigger \<Rightarrow> cc_trigger result" where
  "cc_trigger_on_packet_acked env p i c =
     (let c = c\<lparr>ct_bytes_in_flight := ct_bytes_in_flight c - sn_size p\<rparr>
      in Ok (cc_trigger_event env 0x46 (of_nat (as_millis (ai_srtt i))) (ct_bytes_in_flight c) (sn_pkt_num p) c))"

definition cc_trigger_congestion_event :: "cc_env \<Rightarrow> event_info \<Rightarrow> cc_trigger \<Rightarrow> cc_trigger result" where
  "cc_trigger_congestion_event env e c =
     Ok (cc_trigger_event env 0x44 (of_nat (as_millis (ev_srtt e))) (ct_bytes_in_flight c) (ev_packet_id e) c)"

definition cc_trigger_ops :: "cc_trigger cc_ops" where
  "cc_trigger_ops = \<lparr>co_cwnd = ct_congestion_window, co_bytes_in_flight = ct_bytes_in_flight,
     co_decrease_bytes_in_flight = (\<lambda>n c. c\<lparr>ct_bytes_in_flight := sat_sub64 (ct_bytes_in_flight c) n\<rparr>),
     co_recovery_start_time = ct_recovery_start_time,
     co_collapse_cwnd = (\<lambda>c. c\<lparr>ct_congestion_window := MINIMUM_WINDOW\<rparr>),
     co_on_packet_sent = (\<lambda>_ _ n c. c\<lparr>ct_bytes_in_flight := ct_bytes_in_flight c + n\<rparr>),
     co_on_packet_acked = cc_trigger_on_packet_acked, co_congestion_event = cc_trigger_congestion_event,
     co_pacing_rate = ct_pacing_rate, co_bbr_begin_ack = (\<lambda>_ c. c), co_bbr_end_ack = (\<lambda>c. c),
     co_bbr_min_rtt = (\<lambda>_. 0)\<rparr>"

lemma cc_trigger_event_bytes [simp]:
  "ct_bytes_in_flight (cc_trigger_event env t rtt b pid c) = ct_bytes_in_flight c"
  by (simp add: cc_trigger_event_def Let_def split: option.split prod.split)

interpretation trigger: bytes_in_flight cc_trigger_ops
  by unfold_locales
    (auto simp: cc_trigger_ops_def cc_trigger_on_packet_acked_def cc_trigger_congestion_event_def sat_sub64_def Let_def)

section \<open>Runs of an algorithm\<close>

datatype cc_call =
    CcSent sent usize
  | CcAcked sent acked_info
  | CcLost event_info
  | CcDecrease usize
  | CcCollapse

fun cc_step :: "'c cc_ops \<Rightarrow> cc_env \<times> cc_call \<Rightarrow> 'c \<Rightarrow> 'c result" where
  "cc_step ops (env, CcSent p n) c = Ok (co_on_packet_sent ops env p n c)"
| "cc_step ops (env, CcAcked p i) c = co_on_packet_acked ops env p i c"
| "cc_step ops (env, CcLost e) c = co_congestion_event ops env e c"
| "cc_step ops (env, CcDecrease n) c = Ok (co_decrease_bytes_in_flight ops n c)"
| "cc_step ops (env, CcCollapse) c = Ok (co_collapse_cwnd ops c)"

fun cc_run :: "'c cc_ops \<Rightarrow> (cc_env \<times> cc_call) list \<Rightarrow> 'c \<Rightarrow> 'c result" where
  "cc_run ops [] c = Ok c"
| "cc_run ops (x # xs) c = bnd (cc_step ops x c) (cc_run ops xs)"

fun acked_bytes :: "(cc_env \<times> cc_call) list \<Rightarrow> nat" where
  "acked_bytes [] = 0"
| "acked_bytes ((env, CcAcked p i) # xs) = unat (sn_size p) + acked_bytes xs"
| "acked_bytes (_ # xs) = acked_bytes xs"

lemmas cc_windows = INITIAL_WINDOW_def MINIMUM_WINDOW_def INITIAL_WINDOW_PACKETS_def MINIMUM_WINDOW_PACKETS_def
  MAX_DATAGRAM_SIZE_def

lemma f64_half_nat: "n < 2 ^ 53 \<Longrightarrow> f64_to_u64 (f64_of_nat n * Fin (1 / 2)) = of_nat (n div 2)"
proof -
  assume n: "n < 2 ^ 53"
  then have abs: "\<bar>int n\<bar> < 2 ^ 53" by simp
  have "f64_of_nat n * Fin (1 / 2) = f64_round (of_nat n / 2)" using n by (simp add: f64_of_nat_exact f64_ops)
  also have "\<dots> = Fin (of_nat n / 2)"
    by (rule f64_round_exact [OF _ abs, where k = "- 1"]) (simp_all add: two_power_def)
  finally have eq: "f64_of_nat n * Fin (1 / 2) = Fin (of_nat n / 2)" .
  have fl: "floor (of_nat n / 2 :: rat) = int (n div 2)"
    using floor_divide_of_nat_eq [of n 2, where ?'a = rat] by simp
  have "(of_nat n :: rat) < of_nat (2 ^ 53)" using n by (simp only: of_nat_less_iff)
  then have small: "\<not> (2 ^ 64 - 1 \<le> (of_nat n / 2 :: rat))" by simp
  show ?thesis unfolding eq using small fl by (cases "n = 0") simp_all
qed

lemma f64_half: "unat w < 2 ^ 53 \<Longrightarrow> f64_to_u64 (f64_of_u64 w * Fin (1 / 2)) = w div 2"
  unfolding f64_of_u64_def f64_half_nat by (simp add: word_unat_eq_iff unat_div unat_of_nat)

definition reno_ok :: "nat \<Rightarrow> reno \<Rightarrow> bool" where
  "reno_ok n r \<longleftrightarrow> MINIMUM_WINDOW \<le> rn_congestion_window r \<and> MINIMUM_WINDOW \<le> rn_ssthresh r
     \<and> unat (rn_congestion_window r) \<le> n"

lemma reno_ok_acked:
  assumes "reno_ok n r" "n + unat (sn_size p) < 2 ^ 53"
  shows "\<exists>r'. reno_on_packet_acked env p i r = Ok r' \<and> reno_ok (n + unat (sn_size p)) r'"
proof -
  let ?w = "rn_congestion_window r" and ?inc = "(MAX_DATAGRAM_SIZE * sn_size p) div rn_congestion_window r"
  have w: "2904 \<le> unat ?w" "unat ?w \<le> n" using assms(1) by (simp_all add: reno_ok_def cc_windows word_le_nat_alt)
  then have nz: "?w \<noteq> 0" by auto
  have grow: "reno_ok (n + unat (sn_size p)) (r\<lparr>rn_bytes_in_flight := b, rn_congestion_window := ?w + d\<rparr>)"
    if "unat d \<le> unat (sn_size p)" for d b
  proof -
    have "unat (?w + d) = unat ?w + unat d" using that w assms(2) by (simp add: unat_add64_less)
    then show ?thesis using assms(1) that w by (simp add: reno_ok_def word_le_nat_alt)
  qed
  have "unat (MAX_DATAGRAM_SIZE * sn_size p) \<le> 1452 * unat (sn_size p)"
    by (simp add: MAX_DATAGRAM_SIZE_def unat_word_ariths)
  then have "unat ?inc \<le> (1452 * unat (sn_size p)) div unat ?w"
    by (simp add: unat_div div_le_mono)
  also have "\<dots> \<le> (1452 * unat (sn_size p)) div 1452" by (rule div_le_mono2) (use w in simp_all)
  finally have "unat ?inc \<le> unat (sn_size p)" by simp
  with grow [of ?inc] grow [of "sn_size p"] assms(1) nz show ?thesis
    by (auto simp: reno_on_packet_acked_def Let_def reno_ok_def)
qed

lemma reno_ok_event:
  assumes "reno_ok n r" "n < 2 ^ 53" "2904 \<le> n"
  shows "\<exists>r'. reno_congestion_event env e r = Ok r' \<and> reno_ok n r'"
proof -
  have "unat (rn_congestion_window r) < 2 ^ 53" using assms by (simp add: reno_ok_def)
  note half = f64_half [OF this]
  have "unat (max (rn_congestion_window r div 2) MINIMUM_WINDOW) \<le> n"
    using assms by (auto simp: max_def reno_ok_def unat_div cc_windows)
  then show ?thesis using assms(1)
    by (simp add: reno_congestion_event_def LOSS_REDUCTION_FACTOR_def half Let_def reno_ok_def)
qed

lemma reno_run_ok:
  assumes "reno_ok n r" "n + acked_bytes calls < 2 ^ 53" "2904 \<le> n"
  shows "\<exists>r'. cc_run reno_ops calls r = Ok r' \<and> reno_ok (n + acked_bytes calls) r'"
  using assms
proof (induction calls arbitrary: n r)
  case Nil
  then show ?case by simp
next
  case (Cons x xs)
  obtain env c where x: "x = (env, c)" by (cases x)
  define k where "k = (case c of CcAcked p i \<Rightarrow> unat (sn_size p) | _ \<Rightarrow> 0)"
  have bytes: "acked_bytes (x # xs) = k + acked_bytes xs" unfolding x k_def by (cases c) simp_all
  have "\<exists>r1. cc_step reno_ops x r = Ok r1 \<and> reno_ok (n + k) r1"
  proof (cases c)
    case (CcAcked p i)
    with Cons.prems reno_ok_acked [of n r p env i] bytes show ?thesis
      by (simp add: x k_def reno_ops_def)
  next
    case (CcLost e)
    with Cons.prems reno_ok_event [of n r env e] bytes show ?thesis by (simp add: x k_def reno_ops_def)
  qed (use Cons.prems in \<open>auto simp: x k_def reno_ops_def reno_ok_def reno_on_packet_sent_def
      reno_decrease_bytes_in_flight_def reno_collapse_cwnd_def cc_windows\<close>)
  then obtain r1 where "cc_step reno_ops x r = Ok r1" "reno_ok (n + k) r1" by blast
  with Cons.IH [of "n + k" r1] Cons.prems(2,3) bytes show ?case by (simp add: add.assoc)
qed

section \<open>Properties\<close>

text \<open>C22. Reno's window. Whatever packets are sent, acknowledged and lost, as long as the bytes acknowledged stay
  below \<open>2\<^sup>53\<close> minus the initial window, no operation panics, the window and the threshold never fall below the
  minimum window, and the window never exceeds the initial window plus the bytes acknowledged.\<close>

theorem reno_window_bounds:
  assumes "unat INITIAL_WINDOW + acked_bytes calls < 2 ^ 53"
  shows "\<exists>r. cc_run reno_ops calls reno_new = Ok r
    \<and> MINIMUM_WINDOW \<le> rn_congestion_window r \<and> MINIMUM_WINDOW \<le> rn_ssthresh r
    \<and> unat (rn_congestion_window r) \<le> unat INITIAL_WINDOW + acked_bytes calls"
proof -
  have "reno_ok (unat INITIAL_WINDOW) reno_new" by (simp add: reno_ok_def reno_new_def cc_windows)
  from reno_run_ok [OF this assms] show ?thesis by (simp add: reno_ok_def cc_windows)
qed

lemma reno_window_bounds_witness:
  "\<exists>r. cc_run reno_ops [(\<lparr>ce_now = 0, ce_wall_ms = 0, ce_recv = None\<rparr>,
      CcLost \<lparr>ev_srtt = 0, ev_time_sent = 0, ev_now = 5, ev_packet_id = 1, ev_epoch = 2, ev_lost_count = 1\<rparr>)] reno_new = Ok r
    \<and> MINIMUM_WINDOW \<le> rn_congestion_window r \<and> unat (rn_congestion_window r) \<le> 14520"
  using reno_window_bounds [of "[(\<lparr>ce_now = 0, ce_wall_ms = 0, ce_recv = None\<rparr>,
      CcLost \<lparr>ev_srtt = 0, ev_time_sent = 0, ev_now = 5, ev_packet_id = 1, ev_epoch = 2, ev_lost_count = 1\<rparr>)]"]
  by (auto simp: cc_windows simp del: cc_run.simps)

end
