(* ===== verification/Cubic.thy ===== *)
theory Cubic
  imports Congestion
begin

text \<open>
  CUBIC with HyStart++ (\<open>src/cc/cubic.rs\<close>, \<open>src/cc/hystart.rs\<close>). The cube root of \<open>libm\<close> is a parameter;
  \<open>powi(3)\<close> multiplies twice. Logging is left out.
\<close>

section \<open>HyStart++\<close>

definition LOW_CWND :: usize where "LOW_CWND = 16"
definition MIN_RTT_THRESH :: duration where "MIN_RTT_THRESH = millis 4"
definition MAX_RTT_THRESH :: duration where "MAX_RTT_THRESH = millis 16"
definition LSS_DIVISOR :: f64 where "LSS_DIVISOR = Fin (1 / 4)"
definition N_RTT_SAMPLE :: usize where "N_RTT_SAMPLE = 8"

record hystart =
  hs_enabled :: bool
  hs_window_end :: "u64 option"
  hs_last_round_min_rtt :: "duration option"
  hs_current_round_min_rtt :: "duration option"
  hs_rtt_sample_count :: usize
  hs_lss_start_time :: "instant option"

definition hystart_new :: "bool \<Rightarrow> hystart" where
  "hystart_new enabled = \<lparr>hs_enabled = enabled, hs_window_end = None, hs_last_round_min_rtt = None,
     hs_current_round_min_rtt = None, hs_rtt_sample_count = 0, hs_lss_start_time = None\<rparr>"

definition hs_in_lss :: "epoch \<Rightarrow> hystart \<Rightarrow> bool" where
  "hs_in_lss ep h \<longleftrightarrow> hs_enabled h \<and> ep = EPOCH_APPLICATION \<and> hs_lss_start_time h \<noteq> None"

definition hs_start_round :: "u64 \<Rightarrow> hystart \<Rightarrow> hystart" where
  "hs_start_round pkt_num h =
     (if hs_window_end h = None
      then \<lparr>hs_enabled = hs_enabled h, hs_window_end = Some pkt_num,
            hs_last_round_min_rtt = hs_current_round_min_rtt h, hs_current_round_min_rtt = None,
            hs_rtt_sample_count = 0, hs_lss_start_time = None\<rparr>
      else h)"

definition hs_try_enter_lss :: "sent \<Rightarrow> duration \<Rightarrow> usize \<Rightarrow> instant \<Rightarrow> usize \<Rightarrow> hystart \<Rightarrow> bool \<times> hystart" where
  "hs_try_enter_lss p rtt cwnd now max_datagram_size h =
     (let h = (if hs_lss_start_time h = None then
                 let h = h\<lparr>hs_current_round_min_rtt := Some (case hs_current_round_min_rtt h of Some c \<Rightarrow> min c rtt | None \<Rightarrow> rtt)\<rparr>;
                     h = h\<lparr>hs_rtt_sample_count := hs_rtt_sample_count h + 1\<rparr>;
                     h = (if cwnd \<ge> LOW_CWND * max_datagram_size \<and> hs_rtt_sample_count h \<ge> N_RTT_SAMPLE
                          then (case (hs_current_round_min_rtt h, hs_last_round_min_rtt h) of
                              (Some current, Some last_rtt) \<Rightarrow>
                                let rtt_thresh = min (max (last_rtt div 8) MIN_RTT_THRESH) MAX_RTT_THRESH
                                in if current \<ge> last_rtt + rtt_thresh then h\<lparr>hs_lss_start_time := Some now\<rparr> else h
                            | _ \<Rightarrow> h)
                          else h)
                 in case hs_window_end h of
                      Some end_pkt_num \<Rightarrow> if sn_pkt_num p \<ge> end_pkt_num then h\<lparr>hs_window_end := None\<rparr> else h
                    | None \<Rightarrow> h
               else h)
      in (hs_lss_start_time h \<noteq> None, h))"

definition hs_lss_cwnd :: "usize \<Rightarrow> usize \<Rightarrow> usize \<Rightarrow> usize \<Rightarrow> usize \<Rightarrow> usize result" where
  "hs_lss_cwnd pkt_size bytes_acked cwnd ssthresh max_datagram_size =
     (let k = f64_to_u64 (f64_of_u64 cwnd / (LSS_DIVISOR * f64_of_u64 ssthresh)) in
      if k = 0 then Panic
      else Ok (cwnd + min pkt_size (max_datagram_size * ABC_L - min bytes_acked (max_datagram_size * ABC_L)) div k))"

definition hs_congestion_event :: "hystart \<Rightarrow> hystart" where
  "hs_congestion_event h = h\<lparr>hs_window_end := None, hs_lss_start_time := None\<rparr>"

section \<open>CUBIC\<close>

text \<open>The decimal constants denote the nearest binary64.\<close>

definition BETA_CUBIC :: f64 where "BETA_CUBIC = f64_round (7 / 10)"
definition CUBIC_C :: f64 where "CUBIC_C = f64_round (4 / 10)"
definition RESTORE_COUNT_THRESHOLD :: usize where "RESTORE_COUNT_THRESHOLD = 10"

record prior_state =
  pr_congestion_window :: usize
  pr_ssthresh :: usize
  pr_w_max :: f64
  pr_w_last_max :: f64
  pr_k :: f64
  pr_epoch_start :: "instant option"
  pr_lost_count :: usize

record cubic_state =
  cs_k :: f64
  cs_w_max :: f64
  cs_w_last_max :: f64
  cs_last_sent_time :: "instant option"
  cs_cwnd_inc :: usize
  cs_prior :: prior_state

record cubic =
  cu_congestion_window :: usize
  cu_bytes_in_flight :: usize
  cu_recovery_start_time :: "instant option"
  cu_ssthresh :: usize
  cu_cubic_state :: cubic_state
  cu_hystart :: hystart
  cu_bytes_acked_sl :: usize

definition cubic_state_default :: cubic_state where
  "cubic_state_default = \<lparr>cs_k = 0, cs_w_max = 0, cs_w_last_max = 0, cs_last_sent_time = None, cs_cwnd_inc = 0,
     cs_prior = \<lparr>pr_congestion_window = 0, pr_ssthresh = 0, pr_w_max = 0, pr_w_last_max = 0, pr_k = 0,
       pr_epoch_start = None, pr_lost_count = 0\<rparr>\<rparr>"

definition cubic_k :: "(f64 \<Rightarrow> f64) \<Rightarrow> usize \<Rightarrow> cubic_state \<Rightarrow> f64" where
  "cubic_k cbrt max_datagram_size s =
     (let w_max = cs_w_max s / f64_of_u64 max_datagram_size in cbrt (w_max * (Fin 1 - BETA_CUBIC) / CUBIC_C))"

definition f64_powi3 :: "f64 \<Rightarrow> f64" where
  "f64_powi3 x = x * (x * x)"

definition w_cubic :: "duration \<Rightarrow> usize \<Rightarrow> cubic_state \<Rightarrow> f64" where
  "w_cubic t max_datagram_size s =
     (let w_max = cs_w_max s / f64_of_u64 max_datagram_size
      in (CUBIC_C * f64_powi3 (as_secs_f64 t - cs_k s) + w_max) * f64_of_u64 max_datagram_size)"

definition w_est :: "duration \<Rightarrow> duration \<Rightarrow> usize \<Rightarrow> cubic_state \<Rightarrow> f64" where
  "w_est t rtt max_datagram_size s =
     (let w_max = cs_w_max s / f64_of_u64 max_datagram_size
      in (w_max * BETA_CUBIC + Fin 3 * (Fin 1 - BETA_CUBIC) / (Fin 1 + BETA_CUBIC) * as_secs_f64 t / as_secs_f64 rtt)
         * f64_of_u64 max_datagram_size)"

definition cubic_new :: cubic where
  "cubic_new = \<lparr>cu_congestion_window = INITIAL_WINDOW, cu_bytes_in_flight = 0, cu_recovery_start_time = None,
     cu_ssthresh = - 1, cu_cubic_state = cubic_state_default, cu_hystart = hystart_new True, cu_bytes_acked_sl = 0\<rparr>"

definition cubic_collapse_cwnd :: "cubic \<Rightarrow> cubic" where
  "cubic_collapse_cwnd r =
     (let w = f64_of_u64 (cu_congestion_window r) in
      r\<lparr>cu_recovery_start_time := None,
        cu_ssthresh := max (f64_to_u64 (w * BETA_CUBIC)) MINIMUM_WINDOW,
        cu_cubic_state := (cu_cubic_state r)\<lparr>cs_w_last_max := w, cs_w_max := w, cs_cwnd_inc := 0\<rparr>,
        cu_congestion_window := MINIMUM_WINDOW, cu_bytes_acked_sl := 0\<rparr>)"

definition cubic_decrease_bytes_in_flight :: "usize \<Rightarrow> cubic \<Rightarrow> cubic" where
  "cubic_decrease_bytes_in_flight n r = r\<lparr>cu_bytes_in_flight := sat_sub64 (cu_bytes_in_flight r) n\<rparr>"

definition cubic_on_packet_sent :: "cc_env \<Rightarrow> sent \<Rightarrow> usize \<Rightarrow> cubic \<Rightarrow> cubic" where
  "cubic_on_packet_sent env p n r =
     (let now = ce_now env;
          r = (case cs_last_sent_time (cu_cubic_state r) of
                 Some last_sent_time \<Rightarrow>
                   if cu_bytes_in_flight r = 0 then
                     let delta = duration_since now last_sent_time
                     in (case cu_recovery_start_time r of
                           Some t \<Rightarrow> if delta > 0 then r\<lparr>cu_recovery_start_time := Some (t + int delta)\<rparr> else r
                         | None \<Rightarrow> r)
                   else r
               | None \<Rightarrow> r)
      in r\<lparr>cu_cubic_state := (cu_cubic_state r)\<lparr>cs_last_sent_time := Some now\<rparr>,
           cu_bytes_in_flight := cu_bytes_in_flight r + n\<rparr>)"

definition cubic_checkpoint :: "usize \<Rightarrow> cubic \<Rightarrow> cubic" where
  "cubic_checkpoint lost_count r =
     (let s = cu_cubic_state r in
      r\<lparr>cu_cubic_state := s\<lparr>cs_prior :=
          \<lparr>pr_congestion_window = cu_congestion_window r, pr_ssthresh = cu_ssthresh r, pr_w_max = cs_w_max s,
           pr_w_last_max = cs_w_last_max s, pr_k = cs_k s, pr_epoch_start = cu_recovery_start_time r,
           pr_lost_count = lost_count\<rparr>\<rparr>\<rparr>)"

definition cubic_rollback :: "cubic \<Rightarrow> cubic" where
  "cubic_rollback r =
     (let s = cu_cubic_state r; p = cs_prior s in
      r\<lparr>cu_congestion_window := pr_congestion_window p, cu_ssthresh := pr_ssthresh p,
        cu_cubic_state := s\<lparr>cs_w_max := pr_w_max p, cs_w_last_max := pr_w_last_max p, cs_k := pr_k p\<rparr>,
        cu_recovery_start_time := pr_epoch_start p\<rparr>)"

text \<open>The start of congestion avoidance, with the reset of \<open>w_max\<close> and \<open>k\<close>.\<close>

definition cubic_ca_start :: "instant \<Rightarrow> epoch \<Rightarrow> cubic \<Rightarrow> (instant \<times> cubic) result" where
  "cubic_ca_start now ep r =
     (if hs_in_lss ep (cu_hystart r) then
        bnd (unwrap (hs_lss_start_time (cu_hystart r))) (\<lambda>t.
        Ok (t, if f64_eq (cs_w_max (cu_cubic_state r)) 0
               then r\<lparr>cu_cubic_state := (cu_cubic_state r)\<lparr>cs_w_max := f64_of_u64 (cu_congestion_window r), cs_k := 0\<rparr>\<rparr>
               else r))
      else
        case cu_recovery_start_time r of
          Some t \<Rightarrow> Ok (t, r)
        | None \<Rightarrow> Ok (now, r\<lparr>cu_recovery_start_time := Some now,
            cu_cubic_state := (cu_cubic_state r)\<lparr>cs_w_max := f64_of_u64 (cu_congestion_window r), cs_k := 0\<rparr>\<rparr>))"

text \<open>The window of the cubic function or of the TCP-friendly estimate.\<close>

definition cubic_target :: "duration \<Rightarrow> duration \<Rightarrow> cubic \<Rightarrow> usize" where
  "cubic_target t min_rtt r =
     (let wc = w_cubic (t + min_rtt) MAX_DATAGRAM_SIZE (cu_cubic_state r);
          we = w_est t min_rtt MAX_DATAGRAM_SIZE (cu_cubic_state r);
          cubic_cwnd = cu_congestion_window r
      in if wc < we then max cubic_cwnd (f64_to_u64 we)
         else if cubic_cwnd < f64_to_u64 wc
         then cubic_cwnd + f64_to_u64 ((wc - f64_of_u64 cubic_cwnd) / f64_of_u64 cubic_cwnd * f64_of_u64 MAX_DATAGRAM_SIZE)
         else cubic_cwnd)"

text \<open>In limited slow start the larger of both windows is the target.\<close>

definition cubic_lss_target :: "sent \<Rightarrow> acked_info \<Rightarrow> usize \<Rightarrow> cubic \<Rightarrow> (usize \<times> cubic) result" where
  "cubic_lss_target p i cubic_cwnd r =
     (if hs_in_lss (ai_epoch i) (cu_hystart r)
      then bnd (hs_lss_cwnd (sn_size p) (cu_bytes_acked_sl r) (cu_congestion_window r) (cu_ssthresh r) MAX_DATAGRAM_SIZE)
        (\<lambda>lss_cwnd. Ok (max cubic_cwnd lss_cwnd, r\<lparr>cu_bytes_acked_sl := cu_bytes_acked_sl r + sn_size p\<rparr>))
      else Ok (cubic_cwnd, r))"

definition cubic_add_inc :: "usize \<Rightarrow> cubic \<Rightarrow> cubic" where
  "cubic_add_inc cubic_cwnd r =
     (let inc = cs_cwnd_inc (cu_cubic_state r) + (cubic_cwnd - cu_congestion_window r)
      in if inc \<ge> MAX_DATAGRAM_SIZE
         then r\<lparr>cu_congestion_window := cu_congestion_window r + MAX_DATAGRAM_SIZE,
                cu_cubic_state := (cu_cubic_state r)\<lparr>cs_cwnd_inc := 0\<rparr>\<rparr>
         else r\<lparr>cu_cubic_state := (cu_cubic_state r)\<lparr>cs_cwnd_inc := inc\<rparr>\<rparr>)"

definition cubic_avoidance :: "cc_env \<Rightarrow> sent \<Rightarrow> acked_info \<Rightarrow> cubic \<Rightarrow> cubic result" where
  "cubic_avoidance env p i r =
     bnd (cubic_ca_start (ce_now env) (ai_epoch i) r) (\<lambda>(ca_start_time, r).
     let t = duration_since (ce_now env) ca_start_time
     in bnd (cubic_lss_target p i (cubic_target t (ai_min_rtt i) r) r) (\<lambda>(cubic_cwnd, r).
     Ok (cubic_add_inc cubic_cwnd r)))"

definition cubic_slow_start :: "cc_env \<Rightarrow> sent \<Rightarrow> acked_info \<Rightarrow> cubic \<Rightarrow> cubic" where
  "cubic_slow_start env p i r =
     (let r = r\<lparr>cu_congestion_window := cu_congestion_window r + sn_size p\<rparr> in
      if hs_enabled (cu_hystart r) \<and> ai_epoch i = EPOCH_APPLICATION then
        let (lss, h) = hs_try_enter_lss p (ai_latest_rtt i) (cu_congestion_window r) (ce_now env) MAX_DATAGRAM_SIZE (cu_hystart r);
            r = r\<lparr>cu_hystart := h\<rparr>
        in if lss then r\<lparr>cu_ssthresh := cu_congestion_window r\<rparr> else r
      else r)"

definition cubic_on_packet_acked :: "cc_env \<Rightarrow> sent \<Rightarrow> acked_info \<Rightarrow> cubic \<Rightarrow> cubic result" where
  "cubic_on_packet_acked env p i r =
     (let in_recovery = in_congestion_recovery (cu_recovery_start_time r) (sn_time p);
          r = r\<lparr>cu_bytes_in_flight := sat_sub64 (cu_bytes_in_flight r) (sn_size p)\<rparr>;
          prior = cs_prior (cu_cubic_state r)
      in if in_recovery then Ok r
         else if ai_app_limited i then Ok r
         else if cu_recovery_start_time r \<noteq> None \<and> cu_congestion_window r < pr_congestion_window prior
              \<and> ai_lost_count i - pr_lost_count prior < RESTORE_COUNT_THRESHOLD
         then Ok (cubic_rollback r)
         else bnd (if cu_congestion_window r < cu_ssthresh r then Ok (cubic_slow_start env p i r)
                   else cubic_avoidance env p i r) (\<lambda>r.
              Ok (r\<lparr>cu_bytes_acked_sl := 0\<rparr>)))"

definition cubic_congestion_event :: "(f64 \<Rightarrow> f64) \<Rightarrow> cc_env \<Rightarrow> event_info \<Rightarrow> cubic \<Rightarrow> cubic result" where
  "cubic_congestion_event cbrt env e r =
     (if \<not> in_congestion_recovery (cu_recovery_start_time r) (ev_time_sent e)
      then
        let r = cubic_checkpoint (ev_lost_count e) r;
            r = r\<lparr>cu_recovery_start_time := Some (ev_now e)\<rparr>;
            s = cu_cubic_state r;
            s = (if cs_w_max s < cs_w_last_max s
                 then s\<lparr>cs_w_last_max := cs_w_max s, cs_w_max := cs_w_max s * (Fin 1 + BETA_CUBIC) / Fin 2\<rparr>
                 else s\<lparr>cs_w_last_max := cs_w_max s\<rparr>);
            s = s\<lparr>cs_w_max := f64_of_u64 (cu_congestion_window r)\<rparr>;
            ssthresh = max (f64_to_u64 (cs_w_max s * BETA_CUBIC)) MINIMUM_WINDOW;
            s = s\<lparr>cs_k := cubic_k cbrt MAX_DATAGRAM_SIZE s\<rparr>;
            s = s\<lparr>cs_cwnd_inc := f64_to_u64 (f64_of_u64 (cs_cwnd_inc s) * BETA_CUBIC)\<rparr>
        in Ok (r\<lparr>cu_ssthresh := ssthresh, cu_congestion_window := ssthresh, cu_cubic_state := s,
                 cu_hystart := (if hs_in_lss (ev_epoch e) (cu_hystart r) then hs_congestion_event (cu_hystart r)
                                else cu_hystart r)\<rparr>)
      else Ok r)"

definition cubic_ops :: "(f64 \<Rightarrow> f64) \<Rightarrow> cubic cc_ops" where
  "cubic_ops cbrt = \<lparr>co_cwnd = cu_congestion_window, co_bytes_in_flight = cu_bytes_in_flight,
     co_decrease_bytes_in_flight = cubic_decrease_bytes_in_flight, co_recovery_start_time = cu_recovery_start_time,
     co_collapse_cwnd = cubic_collapse_cwnd, co_on_packet_sent = cubic_on_packet_sent,
     co_on_packet_acked = cubic_on_packet_acked, co_congestion_event = cubic_congestion_event cbrt,
     co_pacing_rate = (\<lambda>_. - 1), co_bbr_begin_ack = (\<lambda>_ r. r), co_bbr_end_ack = (\<lambda>r. r), co_bbr_min_rtt = (\<lambda>_. 0)\<rparr>"

section \<open>The contract of the bytes in flight\<close>

lemma cubic_ca_start_fields:
  "cubic_ca_start now ep r = Ok (t, r') \<Longrightarrow> cu_bytes_in_flight r' = cu_bytes_in_flight r
     \<and> cu_congestion_window r' = cu_congestion_window r \<and> cu_ssthresh r' = cu_ssthresh r \<and> cu_hystart r' = cu_hystart r
     \<and> cs_prior (cu_cubic_state r') = cs_prior (cu_cubic_state r)"
  by (auto simp: cubic_ca_start_def split: if_splits option.splits)

lemma cubic_lss_target_fields:
  "cubic_lss_target p i w r = Ok (w', r') \<Longrightarrow> cu_bytes_in_flight r' = cu_bytes_in_flight r
     \<and> cu_congestion_window r' = cu_congestion_window r \<and> cu_ssthresh r' = cu_ssthresh r \<and> cu_hystart r' = cu_hystart r
     \<and> cs_prior (cu_cubic_state r') = cs_prior (cu_cubic_state r)"
  by (auto simp: cubic_lss_target_def split: if_splits)

lemma cubic_add_inc_fields:
  "cu_bytes_in_flight (cubic_add_inc w r) = cu_bytes_in_flight r" "cu_ssthresh (cubic_add_inc w r) = cu_ssthresh r"
  "cu_hystart (cubic_add_inc w r) = cu_hystart r" "cs_prior (cu_cubic_state (cubic_add_inc w r)) = cs_prior (cu_cubic_state r)"
  "cu_congestion_window (cubic_add_inc w r) \<in> {cu_congestion_window r, cu_congestion_window r + MAX_DATAGRAM_SIZE}"
  by (simp_all add: cubic_add_inc_def Let_def)

lemma cubic_avoidance_Ok:
  assumes "cubic_avoidance env p i r = Ok r'"
  obtains t r1 w1 w r2 where "cubic_ca_start (ce_now env) (ai_epoch i) r = Ok (t, r1)"
    "cubic_lss_target p i w1 r1 = Ok (w, r2)" "r' = cubic_add_inc w r2"
  using assms by (auto simp: cubic_avoidance_def Let_def)

lemma cubic_avoidance_bytes: "cubic_avoidance env p i r = Ok r' \<Longrightarrow> cu_bytes_in_flight r' = cu_bytes_in_flight r"
  by (erule cubic_avoidance_Ok) (simp add: cubic_add_inc_fields cubic_lss_target_fields cubic_ca_start_fields)

lemma cubic_slow_start_bytes: "cu_bytes_in_flight (cubic_slow_start env p i r) = cu_bytes_in_flight r"
  by (simp add: cubic_slow_start_def Let_def split: prod.split)

lemma cubic_acked_bytes:
  "cubic_on_packet_acked env p i r = Ok r' \<Longrightarrow> cu_bytes_in_flight r' = sat_sub64 (cu_bytes_in_flight r) (sn_size p)"
  by (auto simp: cubic_on_packet_acked_def cubic_rollback_def cubic_slow_start_bytes Let_def
      dest!: cubic_avoidance_bytes split: if_splits)

lemma cubic_sent_bytes: "cu_bytes_in_flight (cubic_on_packet_sent env p n r) = cu_bytes_in_flight r + n"
  by (simp add: cubic_on_packet_sent_def Let_def split: option.split)

lemma cubic_event_bytes:
  "cubic_congestion_event cbrt env e r = Ok r' \<Longrightarrow> cu_bytes_in_flight r' = cu_bytes_in_flight r"
  by (simp add: cubic_congestion_event_def cubic_checkpoint_def Let_def split: if_split_asm)
    (drule sym, simp)+

interpretation cubic: bytes_in_flight "cubic_ops cbrt" for cbrt
  by unfold_locales
    (simp_all add: cubic_ops_def cubic_sent_bytes cubic_event_bytes cubic_acked_bytes cubic_decrease_bytes_in_flight_def
      cubic_collapse_cwnd_def sat_sub64_def Let_def)

section \<open>Bounds\<close>

lemma f64_scaled_le:
  assumes "f64_round b = Fin c" "0 \<le> c" "c \<le> 1" "unat w < 2 ^ 53"
  shows "f64_to_u64 (f64_of_u64 w * f64_round b) \<le> w"
proof -
  define n where "n = unat w"
  have n: "n < 2 ^ 53" and w: "w = of_nat n" using assms(4) by (simp_all add: n_def)
  have range: "0 \<le> of_nat n * c" "of_nat n * c \<le> of_int (int n)" "int n < 2 ^ 53"
    using assms(2,3) n mult_left_mono [OF assms(3), of "of_nat n"] by simp_all
  obtain y where y: "f64_round (of_nat n * c) = Fin y" "0 \<le> y" "y \<le> of_int (int n)"
    using f64_round_within [OF range] by blast
  have eq: "f64_of_u64 w * f64_round b = Fin y"
    using n y(1) assms(1) unfolding f64_of_u64_def w by (simp add: unat_of_nat64 f64_of_nat_exact f64_ops)
  have fl: "0 \<le> floor y" "floor y \<le> int n" using y(2,3) by (simp_all add: floor_le_iff le_floor_iff)
  have "y \<le> of_int (int n)" "of_int (int n) < (of_int (2 ^ 53) :: rat)" using y(3) range(3) by (simp_all only: of_int_less_iff)
  then have "\<not> 2 ^ 64 - 1 \<le> y" by simp
  then have "f64_to_u64 (Fin y) = of_nat (nat (floor y))" using y(2) fl(1) by (cases "y = 0") (simp_all add: of_nat_nat)
  moreover have "nat (floor y) < 2 ^ 64" "nat (floor y) \<le> n" using fl n by simp_all
  ultimately show ?thesis unfolding eq using n by (simp add: w word_le_nat_alt unat_of_nat64)
qed

lemma beta_cubic_le: "unat w < 2 ^ 53 \<Longrightarrow> f64_to_u64 (f64_of_u64 w * BETA_CUBIC) \<le> w"
proof -
  assume w: "unat w < 2 ^ 53"
  obtain c where "f64_round (7 / 10) = Fin c" "0 \<le> c" "c \<le> 1"
    using f64_round_within [of "7 / 10" 1] by auto
  from f64_scaled_le [OF this w] show ?thesis by (simp add: BETA_CUBIC_def)
qed

definition cubic_ok :: "nat \<Rightarrow> cubic \<Rightarrow> bool" where
  "cubic_ok n r \<longleftrightarrow> MINIMUM_WINDOW \<le> cu_congestion_window r \<and> unat (cu_congestion_window r) \<le> n
     \<and> unat (pr_congestion_window (cs_prior (cu_cubic_state r))) \<le> n
     \<and> hs_last_round_min_rtt (cu_hystart r) = None \<and> hs_lss_start_time (cu_hystart r) = None
     \<and> hs_window_end (cu_hystart r) = None"

lemma cubic_ok_mono: "cubic_ok n r \<Longrightarrow> n \<le> m \<Longrightarrow> cubic_ok m r"
  by (auto simp: cubic_ok_def)

lemma cubic_grow:
  assumes "MINIMUM_WINDOW \<le> w" "unat w \<le> n" "n + unat d < 2 ^ 53"
  shows "MINIMUM_WINDOW \<le> w + d" "unat (w + d) \<le> n + unat d"
proof -
  have "unat (w + d) = unat w + unat d" using assms by (simp add: unat_add64_less)
  with assms show "MINIMUM_WINDOW \<le> w + d" "unat (w + d) \<le> n + unat d" by (simp_all add: word_le_nat_alt)
qed

lemma hs_no_lss:
  assumes "hs_last_round_min_rtt h = None" "hs_lss_start_time h = None" "hs_window_end h = None"
    and "hs_try_enter_lss p rtt w now mds h = (b, h')"
  shows "\<not> b \<and> hs_last_round_min_rtt h' = None \<and> hs_lss_start_time h' = None \<and> hs_window_end h' = None"
  using assms by (auto simp: hs_try_enter_lss_def Let_def split: if_splits option.splits)

lemma cubic_ok_slow_start:
  assumes "cubic_ok n r" "n + unat (sn_size p) < 2 ^ 53"
  shows "cubic_ok (n + unat (sn_size p)) (cubic_slow_start env p i r)"
proof -
  obtain b h where h: "hs_try_enter_lss p (ai_latest_rtt i) (cu_congestion_window r + sn_size p) (ce_now env)
      MAX_DATAGRAM_SIZE (cu_hystart r) = (b, h)" by fastforce
  have ok: "MINIMUM_WINDOW \<le> cu_congestion_window r" "unat (cu_congestion_window r) \<le> n"
    "unat (pr_congestion_window (cs_prior (cu_cubic_state r))) \<le> n" "hs_last_round_min_rtt (cu_hystart r) = None"
    "hs_lss_start_time (cu_hystart r) = None" "hs_window_end (cu_hystart r) = None"
    using assms(1) by (simp_all add: cubic_ok_def)
  from hs_no_lss [OF ok(4-6) h] cubic_grow [OF ok(1,2) assms(2)] ok show ?thesis
    by (simp add: cubic_slow_start_def cubic_ok_def Let_def h)
qed

lemma cubic_ok_avoidance:
  assumes "cubic_ok n r" "n + 1452 < 2 ^ 53"
  shows "\<exists>r'. cubic_avoidance env p i r = Ok r' \<and> cubic_ok (n + 1452) r'"
proof -
  have lss: "\<not> hs_in_lss ep (cu_hystart r)" for ep using assms(1) by (simp add: cubic_ok_def hs_in_lss_def)
  obtain t r1 where start: "cubic_ca_start (ce_now env) (ai_epoch i) r = Ok (t, r1)"
    using lss by (cases "cu_recovery_start_time r") (simp_all add: cubic_ca_start_def)
  note f = cubic_ca_start_fields [OF start]
  with lss have lss1: "\<not> hs_in_lss ep (cu_hystart r1)" for ep by simp
  obtain w where run: "cubic_avoidance env p i r = Ok (cubic_add_inc w r1)"
    using start lss1 by (simp add: cubic_avoidance_def cubic_lss_target_def Let_def)
  have ok1: "cubic_ok n r1" using assms(1) f by (simp add: cubic_ok_def)
  then have "cubic_ok (n + 1452) (cubic_add_inc w r1)"
    using cubic_grow [of "cu_congestion_window r1" n MAX_DATAGRAM_SIZE] assms(2) cubic_add_inc_fields [of w r1]
    by (auto simp: cubic_ok_def MAX_DATAGRAM_SIZE_def)
  with run show ?thesis by blast
qed

lemma cubic_ok_acked:
  assumes "cubic_ok n r" "n + max (unat (sn_size p)) 1452 < 2 ^ 53"
  shows "\<exists>r'. cubic_on_packet_acked env p i r = Ok r' \<and> cubic_ok (n + max (unat (sn_size p)) 1452) r'"
proof -
  let ?r = "r\<lparr>cu_bytes_in_flight := sat_sub64 (cu_bytes_in_flight r) (sn_size p)\<rparr>"
  have ok: "cubic_ok n ?r" using assms(1) by (simp add: cubic_ok_def)
  have slow: "cubic_ok (n + max (unat (sn_size p)) 1452) (cubic_slow_start env p i ?r)"
    by (rule cubic_ok_mono [OF cubic_ok_slow_start [OF ok, of p env i]]) (use assms(2) in simp_all)
  obtain r1 where av: "cubic_avoidance env p i ?r = Ok r1" "cubic_ok (n + 1452) r1"
    using cubic_ok_avoidance [OF ok, of env p i] assms(2) by fastforce
  have av2: "cubic_ok (n + max (unat (sn_size p)) 1452) r1" by (rule cubic_ok_mono [OF av(2)]) simp
  have roll: "cubic_ok (n + max (unat (sn_size p)) 1452) (cubic_rollback ?r)"
    if "cu_congestion_window r < pr_congestion_window (cs_prior (cu_cubic_state r))"
    using ok that by (auto simp: cubic_ok_def cubic_rollback_def Let_def)
  have sl: "cubic_ok m (x\<lparr>cu_bytes_acked_sl := 0\<rparr>) = cubic_ok m x" for m x by (simp add: cubic_ok_def)
  have ok': "cubic_ok (n + max (unat (sn_size p)) 1452) ?r" using ok by (rule cubic_ok_mono) simp
  show ?thesis
    unfolding cubic_on_packet_acked_def Let_def
    using ok' slow av(1) av2 roll by (auto simp: sl)
qed

lemma cubic_ok_event:
  assumes "cubic_ok n r" "2904 \<le> n" "n < 2 ^ 53"
  shows "\<exists>r'. cubic_congestion_event cbrt env e r = Ok r' \<and> cubic_ok n r'"
proof -
  let ?w = "max (f64_to_u64 (f64_of_u64 (cu_congestion_window r) * BETA_CUBIC)) MINIMUM_WINDOW"
  have "unat (cu_congestion_window r) < 2 ^ 53" using assms by (simp add: cubic_ok_def)
  from beta_cubic_le [OF this] have "unat ?w \<le> n"
    using assms by (auto simp: max_def cubic_ok_def cc_windows word_le_nat_alt)
  then show ?thesis using assms(1)
    by (simp add: cubic_congestion_event_def cubic_checkpoint_def cubic_ok_def Let_def hs_in_lss_def)
qed

text \<open>What the calls can add to the window: the larger of its size and of a datagram for each
  acknowledged packet, and nothing for any other call.\<close>

fun ack_growth :: "(cc_env \<times> cc_call) list \<Rightarrow> nat" where
  "ack_growth [] = 0"
| "ack_growth ((env, CcAcked p i) # xs) = max (unat (sn_size p)) 1452 + ack_growth xs"
| "ack_growth (_ # xs) = ack_growth xs"

lemma cubic_step_ok:
  assumes "cubic_ok n r" "n + ack_growth [x] < 2 ^ 53" "2904 \<le> n"
  shows "\<exists>r'. cc_step (cubic_ops cbrt) x r = Ok r' \<and> cubic_ok (n + ack_growth [x]) r'"
proof -
  obtain env c where x: "x = (env, c)" by (cases x)
  show ?thesis
  proof (cases c)
    case (CcSent p m)
    have "cubic_ok n (cubic_on_packet_sent env p m r)"
      using assms(1) by (simp add: cubic_ok_def cubic_on_packet_sent_def Let_def split: option.split)
    with CcSent show ?thesis by (simp add: x cubic_ops_def)
  next
    case (CcAcked p i)
    with assms cubic_ok_acked [of n r p env i] show ?thesis by (simp add: x cubic_ops_def)
  next
    case (CcLost e)
    with assms cubic_ok_event [of n r cbrt env e] show ?thesis by (simp add: x cubic_ops_def)
  next
    case (CcDecrease m)
    with assms(1) show ?thesis by (simp add: x cubic_ops_def cubic_decrease_bytes_in_flight_def cubic_ok_def)
  next
    case CcCollapse
    with assms show ?thesis by (simp add: x cubic_ops_def cubic_collapse_cwnd_def cubic_ok_def Let_def cc_windows)
  qed
qed

lemma ack_growth_Cons: "ack_growth (x # xs) = ack_growth [x] + ack_growth xs"
  by (cases "(x # xs)" rule: ack_growth.cases) simp_all

lemma cubic_run_ok:
  assumes "cubic_ok n r" "n + ack_growth calls < 2 ^ 53" "2904 \<le> n"
  shows "\<exists>r'. cc_run (cubic_ops cbrt) calls r = Ok r' \<and> cubic_ok (n + ack_growth calls) r'"
  using assms
proof (induction calls arbitrary: n r)
  case Nil
  then show ?case by simp
next
  case (Cons x xs)
  note g = ack_growth_Cons [of x xs]
  obtain r1 where "cc_step (cubic_ops cbrt) x r = Ok r1" "cubic_ok (n + ack_growth [x]) r1"
    using cubic_step_ok [of n r x] Cons.prems g by auto
  with Cons.IH [of "n + ack_growth [x]" r1] Cons.prems(2,3) g show ?case by (simp add: algebra_simps)
qed

section \<open>Properties\<close>

text \<open>C23. CUBIC's window and HyStart++. Whatever packets are sent, acknowledged and lost, within \<open>2\<^sup>53\<close> bytes, no
  operation panics, the window stays at or above the minimum window, and it exceeds the initial window by no more
  than \<open>ack_growth\<close>: for each acknowledged packet its size (slow start) or one datagram (congestion avoidance),
  whichever is larger, and nothing for packets sent or lost, for collapses and for rollbacks. Limited slow start,
  which HyStart++ is there to enter, is never entered: no call starts a round, so the round trip time of a previous
  round is never known.\<close>

theorem cubic_window_bounds_no_lss:
  assumes "unat INITIAL_WINDOW + ack_growth calls < 2 ^ 53"
  shows "\<exists>r. cc_run (cubic_ops cbrt) calls cubic_new = Ok r
    \<and> MINIMUM_WINDOW \<le> cu_congestion_window r
    \<and> unat (cu_congestion_window r) \<le> unat INITIAL_WINDOW + ack_growth calls
    \<and> (\<forall>ep. \<not> hs_in_lss ep (cu_hystart r))"
proof -
  have "cubic_ok (unat INITIAL_WINDOW) cubic_new"
    by (simp add: cubic_ok_def cubic_new_def cubic_state_default_def hystart_new_def cc_windows)
  from cubic_run_ok [OF this assms, where cbrt = cbrt] show ?thesis by (auto simp: cubic_ok_def cc_windows hs_in_lss_def)
qed

lemma cubic_window_bounds_no_lss_witness:
  "\<exists>r. cc_run (cubic_ops (\<lambda>x. x)) [(\<lparr>ce_now = 0, ce_wall_ms = 0, ce_recv = None\<rparr>,
      CcLost \<lparr>ev_srtt = 0, ev_time_sent = 0, ev_now = 5, ev_packet_id = 1, ev_epoch = 2, ev_lost_count = 1\<rparr>)] cubic_new = Ok r
    \<and> MINIMUM_WINDOW \<le> cu_congestion_window r \<and> unat (cu_congestion_window r) \<le> unat INITIAL_WINDOW
    \<and> \<not> hs_in_lss 2 (cu_hystart r)"
proof -
  let ?calls = "[(\<lparr>ce_now = 0, ce_wall_ms = 0, ce_recv = None\<rparr>,
      CcLost \<lparr>ev_srtt = 0, ev_time_sent = 0, ev_now = 5, ev_packet_id = 1, ev_epoch = 2, ev_lost_count = 1\<rparr>)]"
  have "unat INITIAL_WINDOW + ack_growth ?calls < 2 ^ 53" by (simp add: cc_windows)
  from cubic_window_bounds_no_lss [OF this, of "\<lambda>x. x"] show ?thesis by auto
qed

end
