(* ===== verification/Recovery.thy ===== *)
theory Recovery
  imports Congestion Minmax "HOL-Library.Multiset"
begin

text \<open>
  Loss recovery (\<open>src/recovery.rs\<close>): the packets sent in each packet number space, acknowledgements, loss
  detection by packet and time thresholds, the timers, and the bookkeeping of FEC groups with the
  adaptation of their parameters. The state is polymorphic in the congestion control, whose
  operations are a record (\<open>cc_ops\<close>). An array with an entry per packet number space is a function of the
  epoch, which the callers take from 0 to 2. The clock of \<open>Instant::now\<close> is in \<open>cc_env\<close>; the system clock is
  past 1970 and the feature \<open>fuzzing\<close> is off. Logging is left out.
\<close>

section \<open>State\<close>

definition PACKET_THRESHOLD :: u64 where "PACKET_THRESHOLD = 3"
definition TIME_THRESHOLD :: f64 where "TIME_THRESHOLD = Fin (9 / 8)"
definition GRANULARITY :: duration where "GRANULARITY = millis 1"
definition INITIAL_RTT :: duration where "INITIAL_RTT = millis 500"

record 'c recovery =
  rc_loss_detection_timer :: "instant option"
  rc_pto_count :: u32
  rc_time_of_last_sent :: "epoch \<Rightarrow> instant option"
  rc_largest_acked_pkt :: "epoch \<Rightarrow> u64"
  rc_largest_sent_pkt :: "epoch \<Rightarrow> u64"
  rc_latest_rtt :: duration
  rc_smoothed_rtt :: "duration option"
  rc_rttvar :: duration
  rc_min_rtt :: duration
  rc_max_ack_delay :: duration
  rc_loss_time :: "epoch \<Rightarrow> instant option"
  rc_sent :: "epoch \<Rightarrow> (u64, sent) btree"
  rc_lost :: "epoch \<Rightarrow> frame list"
  rc_acked :: "epoch \<Rightarrow> frame list"
  rc_total_pkt_nums :: usize
  rc_lost_count :: usize
  rc_loss_probes :: "epoch \<Rightarrow> usize"
  rc_cc :: 'c
  rc_app_limited :: bool
  rc_pns_in_fec_group :: "u32 \<rightharpoonup> fec_packet_numbers"
  rc_m :: u8
  rc_n :: u8
  rc_last_adjust_time :: "instant option"
  rc_min_filter :: "int minmax"
  rc_delta :: int

definition rec_new :: "instant \<Rightarrow> 'c \<Rightarrow> 'c recovery" where
  "rec_new now cc =
     \<lparr>rc_loss_detection_timer = None, rc_pto_count = 0, rc_time_of_last_sent = (\<lambda>_. None),
      rc_largest_acked_pkt = (\<lambda>_. - 1), rc_largest_sent_pkt = (\<lambda>_. 0), rc_latest_rtt = 0, rc_smoothed_rtt = None,
      rc_rttvar = 0, rc_min_rtt = 0, rc_max_ack_delay = millis 25, rc_loss_time = (\<lambda>_. None), rc_sent = (\<lambda>_. []),
      rc_lost = (\<lambda>_. []), rc_acked = (\<lambda>_. []), rc_total_pkt_nums = 0, rc_lost_count = 0, rc_loss_probes = (\<lambda>_. 0),
      rc_cc = cc, rc_app_limited = False, rc_pns_in_fec_group = Map.empty, rc_m = 10, rc_n = 1,
      rc_last_adjust_time = None, rc_min_filter = minmax_new now, rc_delta = 0\<rparr>"

section \<open>Timers\<close>

definition rec_rtt :: "'c recovery \<Rightarrow> duration" where
  "rec_rtt r = (case rc_smoothed_rtt r of Some d \<Rightarrow> d | None \<Rightarrow> INITIAL_RTT)"

definition rec_pto :: "'c recovery \<Rightarrow> duration" where
  "rec_pto r = rec_rtt r + max (rc_rttvar r * 4) GRANULARITY + rc_max_ack_delay r"

definition earliest_loss_time :: "(epoch \<Rightarrow> instant option) \<Rightarrow> bool \<Rightarrow> instant option \<times> epoch" where
  "earliest_loss_time ts handshake_completed =
     foldl (\<lambda>(time, ep) e.
         if e = EPOCH_APPLICATION \<and> \<not> handshake_completed then (time, ep)
         else case (ts e, time) of
             (None, _) \<Rightarrow> (time, ep)
           | (Some t', None) \<Rightarrow> (Some t', e)
           | (Some t', Some t) \<Rightarrow> if t' < t then (Some t', e) else (time, ep))
       (ts EPOCH_INITIAL, EPOCH_INITIAL) [EPOCH_HANDSHAKE..<EPOCH_COUNT]"

text \<open>\<open>2_u32.pow\<close> wraps in the release profile.\<close>

definition set_loss_detection_timer :: "'c cc_ops \<Rightarrow> bool \<Rightarrow> 'c recovery \<Rightarrow> 'c recovery" where
  "set_loss_detection_timer ops handshake_completed r =
     (case fst (earliest_loss_time (rc_loss_time r) handshake_completed) of
        Some t \<Rightarrow> r\<lparr>rc_loss_detection_timer := Some t\<rparr>
      | None \<Rightarrow>
          if co_bytes_in_flight ops (rc_cc r) = 0 then r\<lparr>rc_loss_detection_timer := None\<rparr>
          else
            let timeout = (case rc_smoothed_rtt r of
                  None \<Rightarrow> INITIAL_RTT * 2
                | Some _ \<Rightarrow> rec_pto r * unat ((2 :: u32) ^ unat (rc_pto_count r)))
            in case fst (earliest_loss_time (rc_time_of_last_sent r) handshake_completed) of
                 Some sent_time \<Rightarrow> r\<lparr>rc_loss_detection_timer := Some (sent_time + int timeout)\<rparr>
               | None \<Rightarrow> r)"

definition rec_cwnd_available :: "'c cc_ops \<Rightarrow> 'c recovery \<Rightarrow> usize" where
  "rec_cwnd_available ops r =
     (if list_ex (\<lambda>e. rc_loss_probes r e > 0) [0..<EPOCH_COUNT] then - 1
      else sat_sub64 (co_cwnd ops (rc_cc r)) (co_bytes_in_flight ops (rc_cc r)))"

definition sub_abs :: "duration \<Rightarrow> duration \<Rightarrow> duration" where
  "sub_abs lhs rhs = (if lhs > rhs then lhs - rhs else rhs - lhs)"

definition update_rtt :: "duration \<Rightarrow> duration \<Rightarrow> 'c recovery \<Rightarrow> 'c recovery" where
  "update_rtt latest_rtt ack_delay r =
     (let r = r\<lparr>rc_latest_rtt := latest_rtt\<rparr> in
      case rc_smoothed_rtt r of
        None \<Rightarrow> r\<lparr>rc_min_rtt := latest_rtt, rc_smoothed_rtt := Some latest_rtt, rc_rttvar := latest_rtt div 2\<rparr>
      | Some srtt \<Rightarrow>
          let min_rtt = min (rc_min_rtt r) latest_rtt;
              ack_delay = min (rc_max_ack_delay r) ack_delay;
              adjusted_rtt = (if latest_rtt > min_rtt + ack_delay then latest_rtt - ack_delay else latest_rtt)
          in r\<lparr>rc_min_rtt := min_rtt,
               rc_rttvar := mul_f64 (rc_rttvar r) (Fin (3 / 4)) + mul_f64 (sub_abs srtt adjusted_rtt) (Fin (1 / 4)),
               rc_smoothed_rtt := Some (mul_f64 srtt (Fin (7 / 8)) + mul_f64 adjusted_rtt (Fin (1 / 8)))\<rparr>)"

section \<open>Sending\<close>

definition rec_on_packet_sent :: "'c cc_ops \<Rightarrow> cc_env \<Rightarrow> sent \<Rightarrow> epoch \<Rightarrow> bool \<Rightarrow> instant \<Rightarrow> 'c recovery \<Rightarrow> 'c recovery" where
  "rec_on_packet_sent ops env pkt e handshake_completed now r =
     (let info = sn_fec_info pkt; gid = fs_group_id info;
          r = (if gid \<noteq> 0 then
                 let g = (case rc_pns_in_fec_group r gid of Some g \<Rightarrow> g | None \<Rightarrow> fpn_new (fs_m info) (fs_n info))
                 in r\<lparr>rc_pns_in_fec_group := (rc_pns_in_fec_group r)(gid \<mapsto> fpn_packet_sent (fs_index info) (sn_pkt_num pkt) g)\<rparr>
               else r);
          r = r\<lparr>rc_largest_sent_pkt := (rc_largest_sent_pkt r)(e := max (rc_largest_sent_pkt r e) (sn_pkt_num pkt)),
                rc_total_pkt_nums := rc_total_pkt_nums r + 1\<rparr>;
          r = (if sn_in_flight pkt then
                 let r = (if sn_ack_eliciting pkt then r\<lparr>rc_time_of_last_sent := (rc_time_of_last_sent r)(e := Some now)\<rparr> else r);
                     r = r\<lparr>rc_app_limited := co_bytes_in_flight ops (rc_cc r) + sn_size pkt + 1350 < co_cwnd ops (rc_cc r)\<rparr>;
                     r = (if e \<ge> 2 then r\<lparr>rc_cc := co_on_packet_sent ops env pkt (sn_size pkt) (rc_cc r)\<rparr> else r)
                 in set_loss_detection_timer ops handshake_completed r
               else r)
      in r\<lparr>rc_sent := (rc_sent r)(e := bt_insert (sn_pkt_num pkt) pkt (rc_sent r e))\<rparr>)"

section \<open>Acknowledgements\<close>

definition rec_on_packet_recovered :: "u64 \<Rightarrow> 'c recovery \<Rightarrow> 'c recovery" where
  "rec_on_packet_recovered pn r =
     (case bt_get pn (rc_sent r EPOCH_APPLICATION) of
        Some p \<Rightarrow> r\<lparr>rc_acked := (rc_acked r)(EPOCH_APPLICATION := rc_acked r EPOCH_APPLICATION @ sn_frames p),
                   rc_sent := (rc_sent r)(EPOCH_APPLICATION :=
                     bt_insert pn (p\<lparr>sn_frames := []\<rparr>) (rc_sent r EPOCH_APPLICATION))\<rparr>
      | None \<Rightarrow> r)"

text \<open>The adaptation of the group parameters to a sample of a finished group. \<open>i8\<close> values are integers that
  wrap at 8 bits.\<close>

definition fec_adjusted_n :: "u8 \<Rightarrow> int \<Rightarrow> u8" where
  "fec_adjusted_n n delta =
     (let adjusted_n = n - word_of_int delta in if sint adjusted_n < 1 then 1 else adjusted_n)"

definition fec_adjusted_m :: "u64 \<Rightarrow> duration \<Rightarrow> u8" where
  "fec_adjusted_m pacing_rate min_rtt =
     (let m = pacing_rate * of_nat (as_millis min_rtt) div 8000 div 1350 in if m \<le> 255 then ucast m else - 1)"

definition rec_adjust_fec :: "u64 \<Rightarrow> instant \<Rightarrow> int \<Rightarrow> 'c recovery \<Rightarrow> 'c recovery" where
  "rec_adjust_fec pacing_rate now delta r =
     (case rc_last_adjust_time r of
        None \<Rightarrow>
          let (d, f) = minmax_reset now delta (rc_min_filter r)
          in r\<lparr>rc_last_adjust_time := Some now, rc_delta := d, rc_min_filter := f\<rparr>
      | Some last_time \<Rightarrow>
          let (d, f) = running_min (rc_min_rtt r * 2) now delta (rc_min_filter r);
              r = r\<lparr>rc_delta := d, rc_min_filter := f\<rparr>
          in if last_time + int (rc_min_rtt r * 2) > now
             then r\<lparr>rc_n := fec_adjusted_n (rc_n r) (rc_delta r),
                    rc_m := fec_adjusted_m pacing_rate (rc_min_rtt r), rc_last_adjust_time := Some now\<rparr>
             else r)"

definition rec_fec_acked :: "'c cc_ops \<Rightarrow> instant \<Rightarrow> sent \<Rightarrow> 'c recovery \<Rightarrow> 'c recovery result" where
  "rec_fec_acked ops now p r =
     (let gid = fs_group_id (sn_fec_info p) in
      bnd (unwrap (rc_pns_in_fec_group r gid)) (\<lambda>g.
      let g = fpn_packet_acked (sn_pkt_num p) g;
          r = r\<lparr>rc_pns_in_fec_group := (rc_pns_in_fec_group r)(gid \<mapsto> g)\<rparr>;
          r = (case fpn_get_delta g of
                 Some delta \<Rightarrow> rec_adjust_fec (co_pacing_rate ops (rc_cc r)) now (sint delta) r
               | None \<Rightarrow> r)
      in Ok (case fpn_get_recovered_pns g of
               Some pns \<Rightarrow> fold rec_on_packet_recovered pns r
             | None \<Rightarrow> r)))"

definition rec_on_packet_acked :: "'c cc_ops \<Rightarrow> cc_env \<Rightarrow> u64 \<Rightarrow> epoch \<Rightarrow> 'c recovery \<Rightarrow> (bool \<times> 'c recovery) result" where
  "rec_on_packet_acked ops env pn e r =
     (case bt_get pn (rc_sent r e) of
        None \<Rightarrow> Ok (False, r)
      | Some p \<Rightarrow>
          let r = r\<lparr>rc_sent := (rc_sent r)(e := bt_remove pn (rc_sent r e)),
                    rc_acked := (rc_acked r)(e := rc_acked r e @ sn_frames p)\<rparr>;
              p = p\<lparr>sn_frames := []\<rparr>
          in bnd (if fs_group_id (sn_fec_info p) \<noteq> 0 then rec_fec_acked ops (ce_now env) p r else Ok r) (\<lambda>r.
             bnd (if sn_in_flight p \<and> e \<ge> 2
                  then co_on_packet_acked ops env p
                    \<lparr>ai_srtt = rec_rtt r, ai_min_rtt = rc_min_rtt r, ai_latest_rtt = rc_latest_rtt r,
                     ai_app_limited = rc_app_limited r, ai_epoch = e, ai_lost_count = rc_lost_count r\<rparr> (rc_cc r)
                  else Ok (rc_cc r)) (\<lambda>c.
             Ok (True, r\<lparr>rc_cc := c\<rparr>))))"

text \<open>The loop over the acknowledged packet numbers, largest first; \<open>env\<close> gives the readings for each.\<close>

fun rec_ack_loop :: "'c cc_ops \<Rightarrow> (u64 \<Rightarrow> cc_env) \<Rightarrow> epoch \<Rightarrow> u64 list \<Rightarrow> bool \<Rightarrow> 'c recovery \<Rightarrow> (bool \<times> 'c recovery) result" where
  "rec_ack_loop ops env e [] newly r = Ok (newly, r)"
| "rec_ack_loop ops env e (pn # pns) newly r =
     (if (case rc_sent r e of (_, lowest) # _ \<Rightarrow> pn < sn_pkt_num lowest | [] \<Rightarrow> False) then Ok (newly, r)
      else bnd (rec_on_packet_acked ops (env pn) pn e r) (\<lambda>(acked, r).
           rec_ack_loop ops env e pns (newly \<or> acked) r))"

section \<open>Losses\<close>

text \<open>\<open>in_persistent_congestion\<close> is always false, so the window is never collapsed here.\<close>

fun rec_lose_loop :: "'c cc_ops \<Rightarrow> epoch \<Rightarrow> u64 list \<Rightarrow> sent option \<Rightarrow> 'c recovery \<Rightarrow> (sent option \<times> 'c recovery) result" where
  "rec_lose_loop ops e [] largest r = Ok (largest, r)"
| "rec_lose_loop ops e (pn # pns) largest r =
     bnd (unwrap (bt_get pn (rc_sent r e))) (\<lambda>p.
     let r = r\<lparr>rc_sent := (rc_sent r)(e := bt_remove pn (rc_sent r e)), rc_lost_count := rc_lost_count r + 1\<rparr> in
     if \<not> sn_in_flight p then rec_lose_loop ops e pns largest r
     else
       let r = (if e \<ge> 2 then r\<lparr>rc_cc := co_decrease_bytes_in_flight ops (sn_size p) (rc_cc r)\<rparr> else r);
           gid = fs_group_id (sn_fec_info p)
       in bnd (if gid \<noteq> 0
               then bnd (unwrap (rc_pns_in_fec_group r gid)) (\<lambda>g.
                    Ok (r\<lparr>rc_pns_in_fec_group := (rc_pns_in_fec_group r)(gid \<mapsto> fpn_packet_lost (sn_pkt_num p) g)\<rparr>))
               else Ok r) (\<lambda>r.
          rec_lose_loop ops e pns (Some (p\<lparr>sn_frames := []\<rparr>))
            (r\<lparr>rc_lost := (rc_lost r)(e := rc_lost r e @ sn_frames p)\<rparr>)))"

definition rec_on_packets_lost :: "'c cc_ops \<Rightarrow> cc_env \<Rightarrow> u64 list \<Rightarrow> epoch \<Rightarrow> instant \<Rightarrow> 'c recovery \<Rightarrow> 'c recovery result" where
  "rec_on_packets_lost ops env lost_pkt e now r =
     bnd (rec_lose_loop ops e lost_pkt None r) (\<lambda>(largest, r).
     case largest of
       None \<Rightarrow> Ok r
     | Some p \<Rightarrow>
         bnd (co_congestion_event ops env
               \<lparr>ev_srtt = rec_rtt r, ev_time_sent = sn_time p, ev_now = now, ev_packet_id = sn_pkt_num p,
                ev_epoch = e, ev_lost_count = rc_lost_count r\<rparr> (rc_cc r)) (\<lambda>c.
         Ok (r\<lparr>rc_cc := c\<rparr>)))"

definition rec_loss_delay :: "'c recovery \<Rightarrow> duration" where
  "rec_loss_delay r = max (mul_f64 (max (rc_latest_rtt r) (rec_rtt r)) TIME_THRESHOLD) GRANULARITY"

definition rec_is_lost :: "instant \<Rightarrow> u64 \<Rightarrow> sent \<Rightarrow> bool" where
  "rec_is_lost lost_send_time largest_acked p \<longleftrightarrow>
     sn_time p \<le> lost_send_time \<or> largest_acked \<ge> sn_pkt_num p + PACKET_THRESHOLD"

definition rec_detect_lost_packets :: "'c cc_ops \<Rightarrow> cc_env \<Rightarrow> epoch \<Rightarrow> instant \<Rightarrow> 'c recovery \<Rightarrow> 'c recovery result" where
  "rec_detect_lost_packets ops env e now r =
     (let largest_acked = rc_largest_acked_pkt r e;
          loss_delay = rec_loss_delay r;
          lost_send_time = now - int loss_delay;
          unacked = map snd (bt_upto largest_acked (rc_sent r e));
          lost_pkt = map sn_pkt_num (filter (rec_is_lost lost_send_time largest_acked) unacked);
          loss_time = foldl (\<lambda>t p. if rec_is_lost lost_send_time largest_acked p then t
              else Some (case t of None \<Rightarrow> sn_time p + int loss_delay | Some t \<Rightarrow> min t (sn_time p + int loss_delay)))
            None unacked;
          r = r\<lparr>rc_loss_time := (rc_loss_time r)(e := loss_time)\<rparr>
      in if lost_pkt \<noteq> [] then rec_on_packets_lost ops env lost_pkt e now r else Ok r)"

section \<open>The entry points\<close>

definition rec_set_largest_acked :: "epoch \<Rightarrow> u64 \<Rightarrow> 'c recovery \<Rightarrow> 'c recovery" where
  "rec_set_largest_acked e largest_acked r =
     r\<lparr>rc_largest_acked_pkt := (rc_largest_acked_pkt r)(e :=
         (if rc_largest_acked_pkt r e = - 1 then largest_acked else max (rc_largest_acked_pkt r e) largest_acked))\<rparr>"

definition rec_sample_rtt :: "instant \<Rightarrow> u64 \<Rightarrow> epoch \<Rightarrow> 'c recovery \<Rightarrow> 'c recovery" where
  "rec_sample_rtt now ack_delay e r =
     (case bt_get (rc_largest_acked_pkt r e) (rc_sent r e) of
        Some pkt \<Rightarrow>
          if sn_ack_eliciting pkt
          then update_rtt (duration_since now (sn_time pkt))
                 (if e = EPOCH_APPLICATION then micros (unat ack_delay) else 0) r
          else r
      | None \<Rightarrow> r)"

text \<open>After an error the connection is closed; the change \<open>cc_bbr_begin_ack\<close> made before it is dropped.\<close>

definition rec_on_ack_received :: "'c cc_ops \<Rightarrow> (u64 \<Rightarrow> cc_env) \<Rightarrow> cc_env \<Rightarrow> rangeset \<Rightarrow> u64 \<Rightarrow> epoch \<Rightarrow> bool \<Rightarrow> instant
    \<Rightarrow> 'c recovery \<Rightarrow> 'c recovery result" where
  "rec_on_ack_received ops envs env ranges ack_delay e handshake_completed now r =
     (let r = r\<lparr>rc_cc := co_bbr_begin_ack ops now (rc_cc r)\<rparr> in
      bnd (unwrap (rs_largest ranges)) (\<lambda>largest_acked.
      if largest_acked > rc_largest_sent_pkt r e then Err InvalidPacket
      else
        let r = rec_sample_rtt now ack_delay e (rec_set_largest_acked e largest_acked r)
        in bnd (rec_ack_loop ops envs e (rev (rs_elems ranges)) False r) (\<lambda>(newly_acked, r).
           let r = r\<lparr>rc_cc := co_bbr_end_ack ops (rc_cc r)\<rparr>
           in if \<not> newly_acked then Ok r
              else bnd (rec_detect_lost_packets ops env e now r) (\<lambda>r.
                   Ok (set_loss_detection_timer ops handshake_completed (r\<lparr>rc_pto_count := 0\<rparr>))))))"

definition rec_on_loss_detection_timeout :: "'c cc_ops \<Rightarrow> cc_env \<Rightarrow> bool \<Rightarrow> instant \<Rightarrow> 'c recovery \<Rightarrow> 'c recovery result" where
  "rec_on_loss_detection_timeout ops env handshake_completed now r =
     (case earliest_loss_time (rc_loss_time r) handshake_completed of
        (Some _, e) \<Rightarrow>
          bnd (rec_detect_lost_packets ops env e now r) (\<lambda>r. Ok (set_loss_detection_timer ops handshake_completed r))
      | (None, _) \<Rightarrow>
          let e = snd (earliest_loss_time (rc_time_of_last_sent r) handshake_completed);
              r = r\<lparr>rc_loss_probes := (rc_loss_probes r)(e := 2), rc_pto_count := rc_pto_count r + 1\<rparr>
          in Ok (set_loss_detection_timer ops handshake_completed r))"

definition rec_drop_unacked_data :: "'c cc_ops \<Rightarrow> epoch \<Rightarrow> 'c recovery \<Rightarrow> 'c recovery" where
  "rec_drop_unacked_data ops e r =
     (let unacked_bytes = foldl (\<lambda>n p. n + sn_size p) 0 (filter sn_in_flight (map snd (rc_sent r e)));
          r = (if e \<ge> 2 then r\<lparr>rc_cc := co_decrease_bytes_in_flight ops unacked_bytes (rc_cc r)\<rparr> else r)
      in r\<lparr>rc_loss_time := (rc_loss_time r)(e := None), rc_loss_probes := (rc_loss_probes r)(e := 0),
           rc_time_of_last_sent := (rc_time_of_last_sent r)(e := None), rc_sent := (rc_sent r)(e := []),
           rc_lost := (rc_lost r)(e := []), rc_acked := (rc_acked r)(e := [])\<rparr>)"

section \<open>What the state accounts for\<close>

text \<open>The bytes in flight of the application space, the frames not yet given back to the connection, and those
  of packets that do not count as in flight.\<close>

definition rec_bytes :: "'c recovery \<Rightarrow> nat" where
  "rec_bytes r = (\<Sum>x \<leftarrow> rc_sent r EPOCH_APPLICATION. if sn_in_flight (snd x) then unat (sn_size (snd x)) else 0)"

definition rec_frames :: "'c recovery \<Rightarrow> epoch \<Rightarrow> frame multiset" where
  "rec_frames r e = mset (rc_acked r e) + mset (rc_lost r e) + (\<Sum>x \<leftarrow> rc_sent r e. mset (sn_frames (snd x)))"

definition rec_idle :: "'c recovery \<Rightarrow> epoch \<Rightarrow> frame multiset" where
  "rec_idle r e = (\<Sum>x \<leftarrow> rc_sent r e. if sn_in_flight (snd x) then {#} else mset (sn_frames (snd x)))"

definition rec_wf :: "'c recovery \<Rightarrow> bool" where
  "rec_wf r \<longleftrightarrow> (\<forall>e. bt_wf (rc_sent r e) \<and> (\<forall>(k, p) \<in> set (rc_sent r e). sn_pkt_num p = k
     \<and> (fs_group_id (sn_fec_info p) \<noteq> 0 \<longrightarrow> fs_group_id (sn_fec_info p) \<in> dom (rc_pns_in_fec_group r))))"

text \<open>\<open>extra\<close> is the size of a packet taken out of \<open>sent\<close> and not yet of the bytes in flight.\<close>

definition rec_inv :: "'c cc_ops \<Rightarrow> nat \<Rightarrow> 'c recovery \<Rightarrow> bool" where
  "rec_inv ops extra r \<longleftrightarrow> rec_wf r \<and> unat (co_bytes_in_flight ops (rc_cc r)) = rec_bytes r + extra"

text \<open>From \<open>r\<close> to \<open>r'\<close> frames only move between \<open>sent\<close>, \<open>acked\<close> and \<open>lost\<close>, but for those of packets that are
  not in flight, which may be dropped.\<close>

definition rec_moves :: "'c recovery \<Rightarrow> 'c recovery \<Rightarrow> bool" where
  "rec_moves r r' \<longleftrightarrow> (\<forall>e. \<exists>D. rec_frames r e = rec_frames r' e + D \<and> rec_idle r' e + D \<subseteq># rec_idle r e)"

definition rec_core :: "'c recovery \<Rightarrow> _" where
  "rec_core r = (rc_sent r, rc_lost r, rc_acked r, dom (rc_pns_in_fec_group r), rc_cc r)"

lemma rec_core_eqs:
  assumes "rec_core r' = rec_core r"
  shows "rec_wf r' = rec_wf r" "rec_inv ops x r' = rec_inv ops x r" "rec_frames r' = rec_frames r" "rec_idle r' = rec_idle r"
    "rec_bytes r' = rec_bytes r" "rec_moves r0 r' = rec_moves r0 r" "rec_moves r' r0 = rec_moves r r0"
proof -
  have c: "rc_sent r' = rc_sent r" "rc_lost r' = rc_lost r" "rc_acked r' = rc_acked r" "rc_cc r' = rc_cc r"
    "dom (rc_pns_in_fec_group r') = dom (rc_pns_in_fec_group r)"
    using assms by (simp_all add: rec_core_def)
  show wf: "rec_wf r' = rec_wf r" by (simp only: rec_wf_def c)
  show b: "rec_bytes r' = rec_bytes r" by (simp only: rec_bytes_def c)
  show f: "rec_frames r' = rec_frames r" by (simp add: rec_frames_def c fun_eq_iff)
  show i: "rec_idle r' = rec_idle r" by (simp add: rec_idle_def c fun_eq_iff)
  show "rec_inv ops x r' = rec_inv ops x r" by (simp add: rec_inv_def wf b c)
  show "rec_moves r0 r' = rec_moves r0 r" "rec_moves r' r0 = rec_moves r r0" by (simp_all add: rec_moves_def f i)
qed

lemma rec_moves_refl: "rec_moves r r"
  by (auto simp: rec_moves_def intro!: exI [of _ "{#}"])

lemma rec_moves_trans: "rec_moves a b \<Longrightarrow> rec_moves b c \<Longrightarrow> rec_moves a c"
  unfolding rec_moves_def
proof
  fix e
  assume "\<forall>e. \<exists>D. rec_frames a e = rec_frames b e + D \<and> rec_idle b e + D \<subseteq># rec_idle a e"
    "\<forall>e. \<exists>D. rec_frames b e = rec_frames c e + D \<and> rec_idle c e + D \<subseteq># rec_idle b e"
  then obtain D1 D2 where D: "rec_frames a e = rec_frames b e + D1" "rec_idle b e + D1 \<subseteq># rec_idle a e"
    "rec_frames b e = rec_frames c e + D2" "rec_idle c e + D2 \<subseteq># rec_idle b e" by metis
  from D(2,4) have "rec_idle c e + (D2 + D1) \<subseteq># rec_idle a e"
    by (metis add.assoc subset_mset.add_right_mono subset_mset.order_trans)
  with D(1,3) show "\<exists>D. rec_frames a e = rec_frames c e + D \<and> rec_idle c e + D \<subseteq># rec_idle a e"
    by (intro exI [of _ "D2 + D1"]) (simp add: add.assoc)
qed

text \<open>Operations that touch none of this.\<close>

lemma core_timer: "rec_core (set_loss_detection_timer ops h r) = rec_core r"
  by (simp add: rec_core_def set_loss_detection_timer_def Let_def split: option.split)

lemma core_rtt: "rec_core (update_rtt l d r) = rec_core r"
  by (simp add: rec_core_def update_rtt_def Let_def split: option.split)

lemma core_adjust: "rec_core (rec_adjust_fec pr now d r) = rec_core r"
  by (simp add: rec_core_def rec_adjust_fec_def Let_def split: option.split prod.split)

lemmas timer_fields [simp] = core_timer [unfolded rec_core_def prod.inject, THEN conjunct1]
  core_timer [unfolded rec_core_def prod.inject, THEN conjunct2, THEN conjunct1]
  core_timer [unfolded rec_core_def prod.inject, THEN conjunct2, THEN conjunct2, THEN conjunct1]
  core_timer [unfolded rec_core_def prod.inject, THEN conjunct2, THEN conjunct2, THEN conjunct2, THEN conjunct1]
  core_timer [unfolded rec_core_def prod.inject, THEN conjunct2, THEN conjunct2, THEN conjunct2, THEN conjunct2]

lemma timer_other_fields [simp]:
  "rc_loss_time (set_loss_detection_timer ops h r) = rc_loss_time r"
  "rc_largest_acked_pkt (set_loss_detection_timer ops h r) = rc_largest_acked_pkt r"
  by (simp_all add: set_loss_detection_timer_def Let_def split: option.split)

section \<open>Taking packets out\<close>

lemma sent_sums_remove:
  fixes f :: "sent \<Rightarrow> 'a::comm_monoid_add"
  assumes "bt_wf m" "bt_get pn m = Some p"
  shows "(\<Sum>x \<leftarrow> m. f (snd x)) = f p + (\<Sum>x \<leftarrow> bt_remove pn m. f (snd x))"
  using bt.sum_del [OF assms, of "\<lambda>x. f (snd x)"] by simp

lemma sent_sums_insert:
  fixes f :: "sent \<Rightarrow> 'a::comm_monoid_add"
  assumes "bt_wf m" "bt_get pn m = None"
  shows "(\<Sum>x \<leftarrow> bt_insert pn p m. f (snd x)) = f p + (\<Sum>x \<leftarrow> m. f (snd x))"
  using bt.sum_ins [OF assms, of "\<lambda>x. f (snd x)"] by simp

lemma sent_sums_replace:
  fixes f :: "sent \<Rightarrow> 'a::comm_monoid_add"
  assumes "bt_wf m" "bt_get pn m = Some p"
  shows "\<exists>rest. (\<Sum>x \<leftarrow> m. f (snd x)) = f p + rest \<and> (\<Sum>x \<leftarrow> bt_insert pn p' m. f (snd x)) = f p' + rest"
proof -
  have eq: "bt_insert pn p' m = bt_insert pn p' (bt_remove pn m)"
    using assms(1) by (intro bt_eqI) (auto simp: bt_wf_insert bt_wf_remove set_bt_insert)
  have "bt_get pn (bt_remove pn m) = None" using bt.get_del [OF assms(1), of pn pn] by simp
  from sent_sums_insert [OF bt_wf_remove [OF assms(1)] this, where p = p' and f = f] sent_sums_remove [OF assms, of f] eq
  show ?thesis by auto
qed

lemma rec_wf_get:
  assumes "rec_wf r" "bt_get pn (rc_sent r e) = Some p"
  shows "bt_wf (rc_sent r e)" "sn_pkt_num p = pn"
    "fs_group_id (sn_fec_info p) \<noteq> 0 \<Longrightarrow> fs_group_id (sn_fec_info p) \<in> dom (rc_pns_in_fec_group r)"
  using assms by (auto simp: rec_wf_def bt_get_Some_iff)

lemma rec_wf_remove:
  "rec_wf r \<Longrightarrow> rc_sent r' = (rc_sent r)(e := bt_remove pn (rc_sent r e)) \<Longrightarrow>
     dom (rc_pns_in_fec_group r') = dom (rc_pns_in_fec_group r) \<Longrightarrow> rec_wf r'"
  unfolding rec_wf_def by (auto simp: bt_wf_remove)

text \<open>A recovered packet keeps its entry, without frames.\<close>

lemma rec_recovered:
  assumes "rec_inv ops x r"
  shows "rec_inv ops x (rec_on_packet_recovered pn r) \<and> rec_moves r (rec_on_packet_recovered pn r)
    \<and> dom (rc_pns_in_fec_group (rec_on_packet_recovered pn r)) = dom (rc_pns_in_fec_group r)"
proof (cases "bt_get pn (rc_sent r EPOCH_APPLICATION)")
  case None
  then show ?thesis using assms by (simp add: rec_on_packet_recovered_def rec_moves_refl)
next
  case (Some p)
  let ?r = "rec_on_packet_recovered pn r" and ?e = EPOCH_APPLICATION
  have r: "?r = r\<lparr>rc_acked := (rc_acked r)(?e := rc_acked r ?e @ sn_frames p),
      rc_sent := (rc_sent r)(?e := bt_insert pn (p\<lparr>sn_frames := []\<rparr>) (rc_sent r ?e))\<rparr>"
    using Some by (simp add: rec_on_packet_recovered_def)
  have wf: "rec_wf r" using assms by (simp add: rec_inv_def)
  note g = rec_wf_get [OF wf Some]
  have wf': "rec_wf ?r"
    using wf g unfolding rec_wf_def r by (auto simp: bt_wf_insert set_bt_insert)
  note rep = sent_sums_replace [OF g(1) Some, where p' = "p\<lparr>sn_frames := []\<rparr>"]
  have sent: "rc_sent ?r ?e = bt_insert pn (p\<lparr>sn_frames := []\<rparr>) (rc_sent r ?e)" "rc_lost ?r = rc_lost r"
    "e \<noteq> ?e \<Longrightarrow> rc_sent ?r e = rc_sent r e" "rc_acked ?r ?e = rc_acked r ?e @ sn_frames p"
    "e \<noteq> ?e \<Longrightarrow> rc_acked ?r e = rc_acked r e" for e by (simp_all add: r)
  have b: "rec_bytes ?r = rec_bytes r"
    using rep [where f = "\<lambda>p. if sn_in_flight p then unat (sn_size p) else 0"] unfolding rec_bytes_def sent by auto
  obtain rest where fr: "(\<Sum>x \<leftarrow> rc_sent r ?e. mset (sn_frames (snd x))) = mset (sn_frames p) + rest"
    "(\<Sum>x \<leftarrow> rc_sent ?r ?e. mset (sn_frames (snd x))) = rest"
    using rep [where f = "\<lambda>p. mset (sn_frames p)"] unfolding sent by auto
  have f: "rec_frames ?r e = rec_frames r e" for e
    by (cases "e = ?e") (simp_all add: rec_frames_def fr(1) fr(2) [unfolded sent] sent ac_simps)
  obtain rest where idle: "rec_idle r ?e = (if sn_in_flight p then {#} else mset (sn_frames p)) + rest" "rec_idle ?r ?e = rest"
    using rep [where f = "\<lambda>p. if sn_in_flight p then {#} else mset (sn_frames p)"] unfolding rec_idle_def sent
    by (auto split: if_splits)
  have i: "rec_idle ?r e \<subseteq># rec_idle r e" for e
    by (cases "e = ?e") (simp_all only: idle mset_subset_eq_add_right, simp_all add: rec_idle_def sent)
  have "rec_moves r ?r" unfolding rec_moves_def using f i by (intro allI exI [of _ "{#}"]) simp
  moreover have "rec_inv ops x ?r" using assms wf' b by (simp add: rec_inv_def) (simp add: r)
  ultimately show ?thesis by (simp add: r)
qed

lemma rec_recovered_all:
  "rec_inv ops x r \<Longrightarrow> rec_inv ops x (fold rec_on_packet_recovered pns r) \<and> rec_moves r (fold rec_on_packet_recovered pns r)"
proof (induction pns arbitrary: r)
  case Nil
  then show ?case by (simp add: rec_moves_refl)
next
  case (Cons pn pns)
  from rec_recovered [OF Cons.prems, of pn] Cons.IH [of "rec_on_packet_recovered pn r"]
  show ?case by (auto intro: rec_moves_trans)
qed

lemma rec_fec_acked_ok:
  assumes inv: "rec_inv ops x r" and g: "fs_group_id (sn_fec_info p) \<in> dom (rc_pns_in_fec_group r)"
  shows "\<exists>r'. rec_fec_acked ops now p r = Ok r' \<and> rec_inv ops x r' \<and> rec_moves r r'"
proof -
  let ?gid = "fs_group_id (sn_fec_info p)"
  obtain fg where fg: "rc_pns_in_fec_group r ?gid = Some fg" using g by auto
  let ?g = "fpn_packet_acked (sn_pkt_num p) fg"
  let ?r1 = "r\<lparr>rc_pns_in_fec_group := (rc_pns_in_fec_group r)(?gid \<mapsto> ?g)\<rparr>"
  let ?r2 = "case fpn_get_delta ?g of Some delta \<Rightarrow> rec_adjust_fec (co_pacing_rate ops (rc_cc ?r1)) now (sint delta) ?r1
      | None \<Rightarrow> ?r1"
  have "rec_core ?r1 = rec_core r" using g by (auto simp: rec_core_def insert_absorb)
  then have c: "rec_core ?r2 = rec_core r" by (simp add: core_adjust split: option.split)
  have inv2: "rec_inv ops x ?r2" using inv by (simp add: rec_core_eqs [OF c])
  have m2: "rec_moves r ?r2" by (simp add: rec_core_eqs [OF c] rec_moves_refl)
  let ?r3 = "case fpn_get_recovered_pns ?g of Some pns \<Rightarrow> fold rec_on_packet_recovered pns ?r2 | None \<Rightarrow> ?r2"
  have "rec_fec_acked ops now p r = Ok ?r3" unfolding rec_fec_acked_def Let_def fg by simp
  moreover have "rec_inv ops x ?r3 \<and> rec_moves r ?r3"
    using inv2 m2 rec_recovered_all [OF inv2] rec_moves_trans [OF m2] by (simp split: option.split)
  ultimately show ?thesis by blast
qed

lemma rec_cc_eqs [simp]:
  "rec_wf (r\<lparr>rc_cc := c\<rparr>) = rec_wf r" "rec_bytes (r\<lparr>rc_cc := c\<rparr>) = rec_bytes r"
  "rec_frames (r\<lparr>rc_cc := c\<rparr>) = rec_frames r" "rec_idle (r\<lparr>rc_cc := c\<rparr>) = rec_idle r"
  "rec_moves r0 (r\<lparr>rc_cc := c\<rparr>) = rec_moves r0 r" "rec_moves (r\<lparr>rc_cc := c\<rparr>) r0 = rec_moves r r0"
  by (simp_all add: rec_wf_def rec_bytes_def rec_frames_def rec_idle_def rec_moves_def fun_eq_iff)

text \<open>Taking a packet out of \<open>sent\<close>: \<open>kept\<close> says whether its frames go to \<open>acked\<close> or \<open>lost\<close>.\<close>

lemma rec_take:
  assumes inv: "rec_inv ops 0 r" and p: "bt_get pn (rc_sent r e) = Some p" and e: "e < 3"
    and sent: "rc_sent r' = (rc_sent r)(e := bt_remove pn (rc_sent r e))" and cc: "rc_cc r' = rc_cc r"
    and pns: "dom (rc_pns_in_fec_group r') = dom (rc_pns_in_fec_group r)"
    and others: "\<And>e'. e' \<noteq> e \<Longrightarrow> mset (rc_acked r' e') + mset (rc_lost r' e') = mset (rc_acked r e') + mset (rc_lost r e')"
    and out: "mset (rc_acked r' e) + mset (rc_lost r' e)
       = mset (rc_acked r e) + mset (rc_lost r e) + (if kept then mset (sn_frames p) else {#})"
    and kept: "kept \<or> \<not> sn_in_flight p"
  shows "rec_inv ops (if sn_in_flight p \<and> 2 \<le> e then unat (sn_size p) else 0) r' \<and> rec_moves r r'"
proof -
  have wf: "rec_wf r" using inv by (simp add: rec_inv_def)
  note g = rec_wf_get [OF wf p]
  note rem = sent_sums_remove [OF g(1) p]
  have at: "rc_sent r' e = bt_remove pn (rc_sent r e)" "e' \<noteq> e \<Longrightarrow> rc_sent r' e' = rc_sent r e'" for e'
    by (simp_all add: sent)
  have "rec_bytes r = (if sn_in_flight p \<and> 2 \<le> e then unat (sn_size p) else 0) + rec_bytes r'"
  proof (cases "e = EPOCH_APPLICATION")
    case True
    then show ?thesis
      using rem [where f = "\<lambda>p. if sn_in_flight p then unat (sn_size p) else 0"] at(1)
      by (simp add: rec_bytes_def EPOCH_APPLICATION_def)
  next
    case False
    then have "\<not> 2 \<le> e" using e by (simp add: EPOCH_APPLICATION_def)
    with False at(2) show ?thesis by (simp add: rec_bytes_def)
  qed
  with inv rec_wf_remove [OF wf sent pns] have inv': "rec_inv ops (if sn_in_flight p \<and> 2 \<le> e then unat (sn_size p) else 0) r'"
    by (simp add: rec_inv_def cc)
  have idle: "rec_idle r e = (if sn_in_flight p then {#} else mset (sn_frames p)) + rec_idle r' e"
    using rem [where f = "\<lambda>p. if sn_in_flight p then {#} else mset (sn_frames p)"] at(1) by (simp add: rec_idle_def)
  have frames: "rec_frames r e = rec_frames r' e + (if kept then {#} else mset (sn_frames p))"
    using rem [where f = "\<lambda>p. mset (sn_frames p)"] at(1) out by (simp add: rec_frames_def ac_simps)
  have "\<exists>D. rec_frames r e' = rec_frames r' e' + D \<and> rec_idle r' e' + D \<subseteq># rec_idle r e'" for e'
  proof (cases "e' = e")
    case True
    with frames idle kept show ?thesis
      by (intro exI [of _ "if kept then {#} else mset (sn_frames p)"]) auto
  next
    case False
    then show ?thesis using others [OF False] at(2) [OF False]
      by (intro exI [of _ "{#}"]) (simp add: rec_frames_def rec_idle_def)
  qed
  with inv' show ?thesis by (auto simp: rec_moves_def)
qed

text \<open>What a lost packet hands back.\<close>

definition rec_lost_frames :: "'c recovery \<Rightarrow> epoch \<Rightarrow> u64 \<Rightarrow> frame list" where
  "rec_lost_frames r e pn =
     (case bt_get pn (rc_sent r e) of Some p \<Rightarrow> if sn_in_flight p then sn_frames p else [] | None \<Rightarrow> [])"

context bytes_in_flight begin

lemma rec_acked_ok:
  assumes inv: "rec_inv ops 0 r" and e: "e < 3" and run: "rec_on_packet_acked ops env pn e r = Ok (b, r')"
  shows "rec_inv ops 0 r' \<and> rec_moves r r'"
proof (cases "bt_get pn (rc_sent r e)")
  case None
  with run inv show ?thesis by (simp add: rec_on_packet_acked_def rec_moves_refl)
next
  case (Some p)
  let ?r1 = "r\<lparr>rc_sent := (rc_sent r)(e := bt_remove pn (rc_sent r e)), rc_acked := (rc_acked r)(e := rc_acked r e @ sn_frames p)\<rparr>"
    and ?p = "p\<lparr>sn_frames := []\<rparr>" and ?x = "if sn_in_flight p \<and> 2 \<le> e then unat (sn_size p) else 0"
  have wf: "rec_wf r" using inv by (simp add: rec_inv_def)
  have r1: "rec_inv ops ?x ?r1 \<and> rec_moves r ?r1"
    by (rule rec_take [OF inv Some e, where kept = True]) simp_all
  obtain r2 where r2: "(if fs_group_id (sn_fec_info ?p) \<noteq> 0 then rec_fec_acked ops (ce_now env) ?p ?r1 else Ok ?r1) = Ok r2"
    and inv2: "rec_inv ops ?x r2" "rec_moves r r2"
  proof (cases "fs_group_id (sn_fec_info p) = 0")
    case True
    with r1 that show ?thesis by simp
  next
    case False
    with rec_wf_get(3) [OF wf Some] have "fs_group_id (sn_fec_info ?p) \<in> dom (rc_pns_in_fec_group ?r1)" by simp
    from rec_fec_acked_ok [OF conjunct1 [OF r1] this] False r1 that show ?thesis by (auto intro: rec_moves_trans)
  qed
  show ?thesis
  proof (cases "sn_in_flight p \<and> 2 \<le> e")
    case False
    with run r2 have "r' = r2" by (simp add: rec_on_packet_acked_def Some Let_def)
    with inv2 False show ?thesis by (simp add: if_not_P)
  next
    case True
    then obtain i c where c: "co_on_packet_acked ops env ?p i (rc_cc r2) = Ok c" and r': "r' = r2\<lparr>rc_cc := c\<rparr>"
      using run r2 by (auto simp: rec_on_packet_acked_def Some Let_def)
    have b: "unat (co_bytes_in_flight ops (rc_cc r2)) = rec_bytes r2 + unat (sn_size p)"
      using inv2 True by (simp add: rec_inv_def)
    then have le: "sn_size ?p \<le> co_bytes_in_flight ops (rc_cc r2)" by (simp add: word_le_nat_alt)
    have "unat (co_bytes_in_flight ops c) = rec_bytes r2"
      using acked [OF c le] b le by (simp add: unat_sub64)
    with inv2 r' show ?thesis by (simp add: rec_inv_def)
  qed
qed

lemma rec_ack_loop_ok:
  "rec_inv ops 0 r \<Longrightarrow> e < 3 \<Longrightarrow> rec_ack_loop ops envs e pns b r = Ok (b', r') \<Longrightarrow> rec_inv ops 0 r' \<and> rec_moves r r'"
proof (induction pns arbitrary: b r)
  case Nil
  then show ?case by (simp add: rec_moves_refl)
next
  case (Cons pn pns)
  show ?case
  proof (cases "case rc_sent r e of (_, lowest) # _ \<Rightarrow> pn < sn_pkt_num lowest | [] \<Rightarrow> False")
    case True
    with Cons.prems show ?thesis by (simp add: rec_moves_refl)
  next
    case False
    with Cons.prems(3) obtain b1 r1 where a: "rec_on_packet_acked ops (envs pn) pn e r = Ok (b1, r1)"
      "rec_ack_loop ops envs e pns (b \<or> b1) r1 = Ok (b', r')" by auto
    note r1 = rec_acked_ok [OF Cons.prems(1,2) a(1)]
    from Cons.IH [OF conjunct1 [OF r1] Cons.prems(2) a(2)] r1 show ?thesis by (blast intro: rec_moves_trans)
  qed
qed

lemma rec_lose_step:
  assumes inv: "rec_inv ops 0 r" and e: "e < 3" and p: "bt_get pn (rc_sent r e) = Some p"
  shows "\<exists>l' r'. rec_lose_loop ops e (pn # pns) l r = rec_lose_loop ops e pns l' r'
    \<and> rec_inv ops 0 r' \<and> rec_moves r r' \<and> rc_sent r' = (rc_sent r)(e := bt_remove pn (rc_sent r e))
    \<and> rc_loss_time r' = rc_loss_time r
    \<and> rc_lost r' = (rc_lost r)(e := rc_lost r e @ (if sn_in_flight p then sn_frames p else []))"
proof -
  let ?r1 = "r\<lparr>rc_sent := (rc_sent r)(e := bt_remove pn (rc_sent r e)), rc_lost_count := rc_lost_count r + 1\<rparr>"
  have wf: "rec_wf r" using inv by (simp add: rec_inv_def)
  show ?thesis
  proof (cases "sn_in_flight p")
    case False
    have "rec_inv ops (if sn_in_flight p \<and> 2 \<le> e then unat (sn_size p) else 0) ?r1 \<and> rec_moves r ?r1"
      by (rule rec_take [OF inv p e, where kept = False]) (use False in simp_all)
    with False have "rec_inv ops 0 ?r1 \<and> rec_moves r ?r1" by simp
    with False show ?thesis by (intro exI [of _ l] exI [of _ ?r1]) (simp add: p)
  next
    case True
    let ?gid = "fs_group_id (sn_fec_info p)"
    define G where "G = (if ?gid \<noteq> 0 then (rc_pns_in_fec_group r)(?gid \<mapsto> fpn_packet_lost (sn_pkt_num p) (the (rc_pns_in_fec_group r ?gid)))
       else rc_pns_in_fec_group r)"
    have dom: "dom G = dom (rc_pns_in_fec_group r)" using rec_wf_get(3) [OF wf p] by (auto simp: G_def)
    let ?r2 = "?r1\<lparr>rc_pns_in_fec_group := G, rc_lost := (rc_lost r)(e := rc_lost r e @ sn_frames p)\<rparr>"
    have r2: "rec_inv ops (if sn_in_flight p \<and> 2 \<le> e then unat (sn_size p) else 0) ?r2 \<and> rec_moves r ?r2"
      by (rule rec_take [OF inv p e, where kept = True]) (use dom in simp_all)
    let ?c = "if 2 \<le> e then co_decrease_bytes_in_flight ops (sn_size p) (rc_cc r) else rc_cc r"
    have "rec_inv ops 0 (?r2\<lparr>rc_cc := ?c\<rparr>)"
    proof (cases "2 \<le> e")
      case c: True
      with r2 True have b: "unat (co_bytes_in_flight ops (rc_cc r)) = rec_bytes ?r2 + unat (sn_size p)"
        by (simp add: rec_inv_def)
      then have le: "sn_size p \<le> co_bytes_in_flight ops (rc_cc r)" by (simp add: word_le_nat_alt)
      with decrease [OF le] b r2 c show ?thesis by (simp add: rec_inv_def unat_sub64)
    next
      case False
      with r2 show ?thesis by (simp add: rec_inv_def)
    qed
    moreover have "rec_moves r (?r2\<lparr>rc_cc := ?c\<rparr>)" using r2 by simp
    moreover have "rec_lose_loop ops e (pn # pns) l r
        = rec_lose_loop ops e pns (Some (p\<lparr>sn_frames := []\<rparr>)) (?r2\<lparr>rc_cc := ?c\<rparr>)"
    proof -
      let ?r3 = "?r1\<lparr>rc_cc := ?c, rc_pns_in_fec_group := G, rc_lost := (rc_lost r)(e := rc_lost r e @ sn_frames p)\<rparr>"
      have "rec_lose_loop ops e (pn # pns) l r = rec_lose_loop ops e pns (Some (p\<lparr>sn_frames := []\<rparr>)) ?r3"
        using True rec_wf_get(3) [OF wf p] by (auto simp: p Let_def G_def)
      moreover have "?r3 = ?r2\<lparr>rc_cc := ?c\<rparr>" by (rule recovery.equality) simp_all
      ultimately show ?thesis by (simp only:)
    qed
    ultimately show ?thesis using True
      by (intro exI [of _ "Some (p\<lparr>sn_frames := []\<rparr>)"] exI [of _ "?r2\<lparr>rc_cc := ?c\<rparr>"]) simp
  qed
qed

lemma rec_lose_loop_ok:
  assumes "rec_inv ops 0 r" "e < 3" "distinct pns" "\<forall>pn \<in> set pns. bt_get pn (rc_sent r e) \<noteq> None"
  shows "\<exists>l' r'. rec_lose_loop ops e pns l r = Ok (l', r') \<and> rec_inv ops 0 r' \<and> rec_moves r r'
    \<and> rc_sent r' = (rc_sent r)(e := filter (\<lambda>x. fst x \<notin> set pns) (rc_sent r e)) \<and> rc_loss_time r' = rc_loss_time r
    \<and> rc_lost r' = (rc_lost r)(e := rc_lost r e
        @ concat (map (rec_lost_frames r e) pns))"
  using assms
proof (induction pns arbitrary: l r)
  case Nil
  then show ?case by (intro exI) (auto simp: rec_moves_refl)
next
  case (Cons pn pns)
  then obtain p where p: "bt_get pn (rc_sent r e) = Some p" by auto
  from rec_lose_step [OF Cons.prems(1,2) p, of pns l] obtain l1 r1 where
    step: "rec_lose_loop ops e (pn # pns) l r = rec_lose_loop ops e pns l1 r1"
    and inv1: "rec_inv ops 0 r1" and m1: "rec_moves r r1" and s1: "rc_sent r1 = (rc_sent r)(e := bt_remove pn (rc_sent r e))"
    and t1: "rc_loss_time r1 = rc_loss_time r"
    and lost1: "rc_lost r1 = (rc_lost r)(e := rc_lost r e @ (if sn_in_flight p then sn_frames p else []))" by blast
  have wf: "bt_wf (rc_sent r e)" using Cons.prems(1) by (simp add: rec_inv_def rec_wf_def)
  have get: "bt_get k (rc_sent r1 e) = bt_get k (rc_sent r e)" if "k \<in> set pns" for k
    using that Cons.prems(3) bt.get_del [OF wf, of k pn] by (auto simp: s1)
  have pre: "distinct pns" "\<forall>k \<in> set pns. bt_get k (rc_sent r1 e) \<noteq> None" using Cons.prems(3,4) get by auto
  from Cons.IH [OF inv1 Cons.prems(2) pre, of l1] obtain l' r' where
    run: "rec_lose_loop ops e pns l1 r1 = Ok (l', r')" and r': "rec_inv ops 0 r'" "rec_moves r1 r'"
    "rc_sent r' = (rc_sent r1)(e := filter (\<lambda>x. fst x \<notin> set pns) (rc_sent r1 e))" "rc_loss_time r' = rc_loss_time r1"
    and lost: "rc_lost r' = (rc_lost r1)(e := rc_lost r1 e
        @ concat (map (rec_lost_frames r1 e) pns))"
    by blast
  have c: "concat (map (rec_lost_frames r1 e) pns) = concat (map (rec_lost_frames r e) pns)"
    by (intro arg_cong [of _ _ concat] map_cong) (simp_all add: rec_lost_frames_def get)
  have "rc_lost r' = (rc_lost r)(e := rc_lost r e
        @ concat (map (rec_lost_frames r e) (pn # pns)))"
    using lost lost1 p by (simp add: c rec_lost_frames_def [of r e pn])
  moreover have "rc_sent r' = (rc_sent r)(e := filter (\<lambda>x. fst x \<notin> set (pn # pns)) (rc_sent r e))"
    by (simp add: r'(3) s1 bt_remove_def conj_commute)
  ultimately show ?case using step run r' m1 t1 by (intro exI [of _ l'] exI [of _ r']) (auto intro: rec_moves_trans)
qed

lemma rec_on_packets_lost_ok:
  assumes "rec_inv ops 0 r" "e < 3" "distinct pns" "\<forall>pn \<in> set pns. bt_get pn (rc_sent r e) \<noteq> None"
    and "rec_on_packets_lost ops env pns e now r = Ok r'"
  shows "rec_inv ops 0 r' \<and> rec_moves r r'
    \<and> rc_sent r' = (rc_sent r)(e := filter (\<lambda>x. fst x \<notin> set pns) (rc_sent r e)) \<and> rc_loss_time r' = rc_loss_time r
    \<and> rc_lost r' = (rc_lost r)(e := rc_lost r e
        @ concat (map (rec_lost_frames r e) pns))"
proof -
  from rec_lose_loop_ok [OF assms(1-4), of None] obtain l r1 where run: "rec_lose_loop ops e pns None r = Ok (l, r1)"
    and r1: "rec_inv ops 0 r1 \<and> rec_moves r r1
    \<and> rc_sent r1 = (rc_sent r)(e := filter (\<lambda>x. fst x \<notin> set pns) (rc_sent r e)) \<and> rc_loss_time r1 = rc_loss_time r
    \<and> rc_lost r1 = (rc_lost r)(e := rc_lost r e
        @ concat (map (rec_lost_frames r e) pns))"
    by blast
  show ?thesis
  proof (cases l)
    case None
    with assms(5) run have "r' = r1" by (simp add: rec_on_packets_lost_def)
    with r1 show ?thesis by simp
  next
    case (Some p)
    with assms(5) run obtain ev c where "co_congestion_event ops env ev (rc_cc r1) = Ok c" "r' = r1\<lparr>rc_cc := c\<rparr>"
      by (auto simp: rec_on_packets_lost_def)
    with r1 event show ?thesis by (auto simp: rec_inv_def)
  qed
qed

end

lemma foldl_min_filter:
  fixes g :: "'b \<Rightarrow> 'a::linorder"
  shows "foldl (\<lambda>t p. if P p then t else Some (case t of None \<Rightarrow> g p | Some t \<Rightarrow> min t (g p))) None xs
    = (if filter (\<lambda>p. \<not> P p) xs = [] then None else Some (Min (g ` set (filter (\<lambda>p. \<not> P p) xs))))"
proof (induction xs rule: rev_induct)
  case (snoc x xs)
  show ?case
  proof (cases "filter (\<lambda>p. \<not> P p) xs = []")
    case True
    then have "{x \<in> set xs. \<not> P x} = {}" by (auto simp: filter_empty_conv)
    with snoc True show ?thesis by (auto simp: Let_def)
  next
    case False
    then have "g ` {x \<in> set xs. \<not> P x} \<noteq> {}" by (auto simp: filter_empty_conv)
    then have "Min (insert (g x) (g ` {x \<in> set xs. \<not> P x})) = min (g x) (Min (g ` {x \<in> set xs. \<not> P x}))"
      by (intro Min_insert) simp_all
    with snoc False show ?thesis by (simp add: min.commute)
  qed
qed simp

text \<open>The packets that are still waiting after loss detection, and those declared lost.\<close>

definition rec_lost_now :: "instant \<Rightarrow> 'c recovery \<Rightarrow> epoch \<Rightarrow> u64 \<times> sent \<Rightarrow> bool" where
  "rec_lost_now now r e x \<longleftrightarrow> fst x \<le> rc_largest_acked_pkt r e
     \<and> rec_is_lost (now - int (rec_loss_delay r)) (rc_largest_acked_pkt r e) (snd x)"

context bytes_in_flight begin

lemma rec_detect_ok:
  assumes inv: "rec_inv ops 0 r" and e: "e < 3" and run: "rec_detect_lost_packets ops env e now r = Ok r'"
  shows "rec_inv ops 0 r' \<and> rec_moves r r'
    \<and> rc_sent r' = (rc_sent r)(e := filter (\<lambda>x. \<not> rec_lost_now now r e x) (rc_sent r e))
    \<and> rc_lost r' = (rc_lost r)(e := rc_lost r e @ concat (map (\<lambda>x. sn_frames (snd x))
        (filter (\<lambda>x. rec_lost_now now r e x \<and> sn_in_flight (snd x)) (rc_sent r e))))
    \<and> rc_loss_time r' = (rc_loss_time r)(e :=
        (let W = filter (\<lambda>x. \<not> rec_lost_now now r e x \<and> fst x \<le> rc_largest_acked_pkt r e) (rc_sent r e)
         in if W = [] then None else Some (Min ((\<lambda>x. sn_time (snd x) + int (rec_loss_delay r)) ` set W))))"
proof -
  let ?la = "rc_largest_acked_pkt r e" and ?d = "rec_loss_delay r" and ?m = "rc_sent r e"
  let ?P = "rec_is_lost (now - int ?d) ?la"
  let ?un = "map snd (bt_upto ?la ?m)"
  define lost where "lost = map sn_pkt_num (filter ?P ?un)"
  define lt where "lt = foldl (\<lambda>t p. if ?P p then t else Some (case t of None \<Rightarrow> sn_time p + int ?d
      | Some t \<Rightarrow> min t (sn_time p + int ?d))) None ?un"
  let ?r1 = "r\<lparr>rc_loss_time := (rc_loss_time r)(e := lt)\<rparr>"
  have core: "rec_core ?r1 = rec_core r" by (simp add: rec_core_def)
  have wf: "bt_wf ?m" and pn: "\<forall>(k, p) \<in> set ?m. sn_pkt_num p = k" using inv by (auto simp: rec_inv_def rec_wf_def)
  have keys: "lost = map fst (filter (rec_lost_now now r e) ?m)"
    unfolding lost_def bt_upto_def filter_map map_map filter_filter o_def using pn
    by (intro map_cong filter_cong) (auto simp: rec_lost_now_def)
  have mem: "fst x \<in> set lost \<longleftrightarrow> rec_lost_now now r e x" if "x \<in> set ?m" for x
    using that unfolding keys set_map set_filter image_iff by (metis (mono_tags, lifting) bt.keys_unique [OF wf] mem_Collect_eq prod.collapse)
  have dist: "distinct lost"
    unfolding keys using bt_wf_distinct [OF wf] by (rule distinct_map_filter)
  have getm: "bt_get (fst x) ?m = Some (snd x)" if "x \<in> set ?m" for x
    using that wf by (simp add: bt_get_Some_iff)
  then have got: "\<forall>k \<in> set lost. bt_get k ?m \<noteq> None" unfolding keys by auto
  have un: "filter (\<lambda>p. \<not> ?P p) ?un = map snd (filter (\<lambda>x. \<not> rec_lost_now now r e x \<and> fst x \<le> ?la) ?m)"
    unfolding bt_upto_def filter_map filter_filter o_def
    by (intro arg_cong [of _ _ "map snd"] filter_cong) (auto simp: rec_lost_now_def)
  have lt: "lt = (let W = filter (\<lambda>x. \<not> rec_lost_now now r e x \<and> fst x \<le> ?la) ?m
         in if W = [] then None else Some (Min ((\<lambda>x. sn_time (snd x) + int ?d) ` set W)))"
    unfolding lt_def foldl_min_filter un Let_def by (simp add: image_image)
  have frames: "concat (map (rec_lost_frames r e) lost)
      = concat (map (\<lambda>x. sn_frames (snd x)) (filter (\<lambda>x. rec_lost_now now r e x \<and> sn_in_flight (snd x)) ?m))"
  proof -
    have "concat (map (rec_lost_frames r e) (map fst xs))
      = concat (map (\<lambda>x. sn_frames (snd x)) (filter (\<lambda>x. sn_in_flight (snd x)) xs))" if "set xs \<subseteq> set ?m" for xs
      using that by (induction xs) (auto simp: getm rec_lost_frames_def)
    from this [of "filter (rec_lost_now now r e) ?m"] show ?thesis unfolding keys by (auto simp: conj_commute)
  qed
  have same: "rec_lost_frames ?r1 e = rec_lost_frames r e" by (simp add: rec_lost_frames_def fun_eq_iff)
  have keep: "filter (\<lambda>x. fst x \<notin> set lost) ?m = filter (\<lambda>x. \<not> rec_lost_now now r e x) ?m"
    by (rule filter_cong) (simp_all add: mem)
  have eq: "rec_detect_lost_packets ops env e now r = (if lost \<noteq> [] then rec_on_packets_lost ops env lost e now ?r1 else Ok ?r1)"
    unfolding rec_detect_lost_packets_def Let_def lost_def lt_def ..
  have inv1: "rec_inv ops 0 ?r1" "rec_moves r ?r1" using inv by (simp_all add: rec_core_eqs [OF core] rec_moves_refl)
  show ?thesis
  proof (cases "lost = []")
    case True
    with eq run have r': "r' = ?r1" by simp
    have none: "\<forall>x \<in> set ?m. \<not> rec_lost_now now r e x" using True mem by auto
    then have "filter (\<lambda>x. \<not> rec_lost_now now r e x) ?m = ?m"
      "filter (\<lambda>x. rec_lost_now now r e x \<and> sn_in_flight (snd x)) ?m = []" by (auto simp: filter_empty_conv)
    with inv1 lt show ?thesis unfolding r' by simp
  next
    case False
    with eq run have "rec_on_packets_lost ops env lost e now ?r1 = Ok r'" by simp
    from rec_on_packets_lost_ok [OF inv1(1) e dist _ this] got inv1(2) keep frames show ?thesis
      unfolding lt [symmetric] by (simp add: rec_core_eqs [OF core] same)
  qed
qed

lemma rec_received_ok:
  assumes inv: "rec_inv ops 0 r" and e: "e < 3"
    and run: "rec_on_ack_received ops envs env ranges d e h now r = Ok r'"
  shows "rec_inv ops 0 r' \<and> rec_moves r r'"
proof -
  let ?r1 = "r\<lparr>rc_cc := co_bbr_begin_ack ops now (rc_cc r)\<rparr>"
  obtain largest where largest: "rs_largest ranges = Some largest"
    using run by (cases "rs_largest ranges") (simp_all add: rec_on_ack_received_def)
  define r3 where "r3 = rec_sample_rtt now d e (rec_set_largest_acked e largest ?r1)"
  have "rec_core r3 = rec_core (rec_set_largest_acked e largest ?r1)"
    by (simp add: r3_def rec_sample_rtt_def core_rtt split: option.split)
  then have core: "rec_core r3 = rec_core ?r1" by (simp add: rec_set_largest_acked_def rec_core_def)
  have "rec_inv ops 0 ?r1" using inv by (simp add: rec_inv_def begin_ack)
  then have inv3: "rec_inv ops 0 r3" "rec_moves r r3" by (simp_all add: rec_core_eqs [OF core] rec_moves_refl)
  have run3: "bnd (rec_ack_loop ops envs e (rev (rs_elems ranges)) False r3) (\<lambda>(newly_acked, r).
       let r = r\<lparr>rc_cc := co_bbr_end_ack ops (rc_cc r)\<rparr>
       in if \<not> newly_acked then Ok r
          else bnd (rec_detect_lost_packets ops env e now r) (\<lambda>r.
               Ok (set_loss_detection_timer ops h (r\<lparr>rc_pto_count := 0\<rparr>)))) = Ok r'"
    using run unfolding rec_on_ack_received_def r3_def largest Let_def
    by (simp only: unwrap.simps option.case bnd.simps split: if_split_asm) simp
  then obtain newly r4 where loop: "rec_ack_loop ops envs e (rev (rs_elems ranges)) False r3 = Ok (newly, r4)"
    by (cases "rec_ack_loop ops envs e (rev (rs_elems ranges)) False r3") auto
  let ?r5 = "r4\<lparr>rc_cc := co_bbr_end_ack ops (rc_cc r4)\<rparr>"
  note r4 = rec_ack_loop_ok [OF inv3(1) e loop]
  have inv5: "rec_inv ops 0 ?r5" "rec_moves r ?r5"
    using r4 rec_moves_trans [OF inv3(2)] by (simp_all add: rec_inv_def end_ack)
  show ?thesis
  proof (cases newly)
    case False
    with run3 loop have "r' = ?r5" by (simp add: Let_def)
    with inv5 show ?thesis by simp
  next
    case True
    with run3 loop obtain r6 where d: "rec_detect_lost_packets ops env e now ?r5 = Ok r6"
      and r': "r' = set_loss_detection_timer ops h (r6\<lparr>rc_pto_count := 0\<rparr>)" by (auto simp: Let_def)
    have c: "rec_core r' = rec_core r6" unfolding r' core_timer by (simp add: rec_core_def)
    from rec_detect_ok [OF inv5(1) e d] inv5(2) show ?thesis
      by (auto simp: rec_core_eqs [OF c] intro: rec_moves_trans)
  qed
qed

end

lemma earliest_loss_time_cases:
  assumes "earliest_loss_time ts h = (t, e)"
  shows "e < 3 \<and> t = ts e"
proof -
  define f where "f = (\<lambda>(time, ep) e. if e = EPOCH_APPLICATION \<and> \<not> h then (time, ep)
         else case (ts e, time) of
             (None, _) \<Rightarrow> (time, ep)
           | (Some t', None) \<Rightarrow> (Some t', e)
           | (Some t', Some t) \<Rightarrow> if t' < t then (Some t', e) else (time, ep))"
  have step: "fst (f te e) = ts (snd (f te e)) \<and> snd (f te e) < 3" if "e < 3" "fst te = ts (snd te)" "snd te < 3" for te e
  proof -
    obtain t ep where te: "te = (t, ep)" by (cases te)
    then have "t = ts ep" "ep < 3" using that by simp_all
    with that(1) show ?thesis by (simp add: te f_def split: option.split)
  qed
  have "fst (foldl f te xs) = ts (snd (foldl f te xs)) \<and> snd (foldl f te xs) < 3"
    if "\<forall>e \<in> set xs. e < 3" "fst te = ts (snd te)" "snd te < 3" for te xs
    using that by (induction xs arbitrary: te) (simp_all add: step)
  from this [of "[EPOCH_HANDSHAKE..<EPOCH_COUNT]" "(ts EPOCH_INITIAL, EPOCH_INITIAL)"] assms show ?thesis
    by (simp add: earliest_loss_time_def f_def EPOCH_COUNT_def EPOCH_INITIAL_def)
qed

context bytes_in_flight begin

lemma rec_timeout_ok:
  assumes inv: "rec_inv ops 0 r" and run: "rec_on_loss_detection_timeout ops env h now r = Ok r'"
  shows "rec_inv ops 0 r' \<and> rec_moves r r'"
proof -
  obtain t e where te: "earliest_loss_time (rc_loss_time r) h = (t, e)" by fastforce
  show ?thesis
  proof (cases t)
    case None
    let ?e = "snd (earliest_loss_time (rc_time_of_last_sent r) h)"
    let ?r1 = "r\<lparr>rc_loss_probes := (rc_loss_probes r)(?e := 2), rc_pto_count := rc_pto_count r + 1\<rparr>"
    have r': "r' = set_loss_detection_timer ops h ?r1"
      using run te None by (simp add: rec_on_loss_detection_timeout_def Let_def)
    have c: "rec_core r' = rec_core r" unfolding r' core_timer by (simp add: rec_core_def)
    show ?thesis using inv by (simp add: rec_core_eqs [OF c] rec_moves_refl)
  next
    case (Some t')
    with run te obtain r1 where d: "rec_detect_lost_packets ops env e now r = Ok r1"
      and r': "r' = set_loss_detection_timer ops h r1" by (auto simp: rec_on_loss_detection_timeout_def)
    have c: "rec_core r' = rec_core r1" unfolding r' core_timer ..
    from rec_detect_ok [OF inv conjunct1 [OF earliest_loss_time_cases [OF te]] d] show ?thesis
      by (simp add: rec_core_eqs [OF c])
  qed
qed

lemma rec_sent_ok:
  assumes inv: "rec_inv ops 0 r" and fresh: "bt_get (sn_pkt_num p) (rc_sent r e) = None" and e: "e < 3"
    and fits: "unat (co_bytes_in_flight ops (rc_cc r)) + unat (sn_size p) < 2 ^ 64"
  shows "rec_inv ops 0 (rec_on_packet_sent ops env p e h now r)"
proof -
  let ?r = "rec_on_packet_sent ops env p e h now r"
  have snt: "rc_sent ?r = (rc_sent r)(e := bt_insert (sn_pkt_num p) p (rc_sent r e))"
    by (simp add: rec_on_packet_sent_def Let_def)
  have cc: "rc_cc ?r = (if sn_in_flight p \<and> 2 \<le> e then co_on_packet_sent ops env p (sn_size p) (rc_cc r) else rc_cc r)"
    by (simp add: rec_on_packet_sent_def Let_def)
  have pns: "dom (rc_pns_in_fec_group ?r) = (if fs_group_id (sn_fec_info p) \<noteq> 0
      then insert (fs_group_id (sn_fec_info p)) (dom (rc_pns_in_fec_group r)) else dom (rc_pns_in_fec_group r))"
    by (simp add: rec_on_packet_sent_def Let_def)
  have wf: "rec_wf r" and bytes: "unat (co_bytes_in_flight ops (rc_cc r)) = rec_bytes r" using inv by (simp_all add: rec_inv_def)
  have bt: "bt_wf (rc_sent r e)" using wf by (simp add: rec_wf_def)
  have wf': "rec_wf ?r" using wf unfolding rec_wf_def snt pns by (auto simp: bt_wf_insert set_bt_insert)
  have "rec_bytes ?r = rec_bytes r + (if sn_in_flight p \<and> 2 \<le> e then unat (sn_size p) else 0)"
  proof (cases "e = EPOCH_APPLICATION")
    case True
    then have "rec_bytes r = (\<Sum>y \<leftarrow> rc_sent r e. if sn_in_flight (snd y) then unat (sn_size (snd y)) else 0)"
      "rec_bytes ?r = (\<Sum>y \<leftarrow> rc_sent ?r e. if sn_in_flight (snd y) then unat (sn_size (snd y)) else 0)"
      by (simp_all only: rec_bytes_def)
    moreover have "2 \<le> e" using True by (simp add: EPOCH_APPLICATION_def)
    ultimately show ?thesis
      using sent_sums_insert [OF bt fresh, where p = p and f = "\<lambda>p. if sn_in_flight p then unat (sn_size p) else 0"]
      by (simp add: snt)
  next
    case False
    with e have "\<not> 2 \<le> e" by (simp add: EPOCH_APPLICATION_def)
    with False show ?thesis by (simp add: rec_bytes_def snt)
  qed
  then have "unat (co_bytes_in_flight ops (rc_cc ?r)) = rec_bytes ?r"
    using bytes fits by (simp add: cc sent unat_add64_less)
  with wf' show ?thesis by (simp add: rec_inv_def)
qed

lemma rec_drop_ok:
  assumes inv: "rec_inv ops 0 r" and e: "e < 3"
  shows "rec_inv ops 0 (rec_drop_unacked_data ops e r)"
proof -
  let ?r = "rec_drop_unacked_data ops e r"
  let ?n = "foldl (\<lambda>n p. n + sn_size p) 0 (filter sn_in_flight (map snd (rc_sent r e)))"
  have sum: "foldl (\<lambda>n p. n + sn_size p) a (filter sn_in_flight (map snd m))
      = a + of_nat (\<Sum>x \<leftarrow> m. if sn_in_flight (snd x) then unat (sn_size (snd x)) else 0)" for a and m :: "(u64, sent) btree"
    by (induction m arbitrary: a) (auto simp: add.assoc)
  have wf: "rec_wf ?r" using inv by (auto simp: rec_inv_def rec_wf_def rec_drop_unacked_data_def Let_def)
  have bytes: "unat (co_bytes_in_flight ops (rc_cc r)) = rec_bytes r" using inv by (simp add: rec_inv_def)
  have "unat (co_bytes_in_flight ops (rc_cc ?r)) = rec_bytes ?r"
  proof (cases "e = EPOCH_APPLICATION")
    case True
    then have "?n = of_nat (rec_bytes r)" by (simp add: sum rec_bytes_def)
    then have n: "?n = co_bytes_in_flight ops (rc_cc r)" by (simp add: bytes [symmetric])
    then have "co_bytes_in_flight ops (rc_cc ?r) = 0"
      using decrease [of ?n "rc_cc r"] True by (simp add: rec_drop_unacked_data_def Let_def EPOCH_APPLICATION_def)
    moreover have "rec_bytes ?r = 0" using True by (simp add: rec_bytes_def rec_drop_unacked_data_def Let_def)
    ultimately show ?thesis by simp
  next
    case False
    with e have "\<not> 2 \<le> e" by (simp add: EPOCH_APPLICATION_def)
    with False bytes show ?thesis by (simp add: rec_drop_unacked_data_def Let_def rec_bytes_def)
  qed
  with wf show ?thesis by (simp add: rec_inv_def)
qed

end

section \<open>Reachable states\<close>

text \<open>Every entry point, and what the connection does to the public fields: it takes the frames of \<open>lost\<close> and
  \<open>acked\<close>, counts probes down and sets the peer's \<open>max_ack_delay\<close>. Packet numbers are not used twice
  and fewer than \<open>2\<^sup>64\<close> bytes are in flight.\<close>

inductive rec_step :: "'c cc_ops \<Rightarrow> 'c recovery \<Rightarrow> 'c recovery \<Rightarrow> bool" for ops where
  sent: "bt_get (sn_pkt_num p) (rc_sent r e) = None \<Longrightarrow> e < 3
      \<Longrightarrow> unat (co_bytes_in_flight ops (rc_cc r)) + unat (sn_size p) < 2 ^ 64
      \<Longrightarrow> rec_step ops r (rec_on_packet_sent ops env p e h now r)"
| ack: "rec_on_ack_received ops envs env ranges d e h now r = Ok r' \<Longrightarrow> e < 3 \<Longrightarrow> rec_step ops r r'"
| timeout: "rec_on_loss_detection_timeout ops env h now r = Ok r' \<Longrightarrow> rec_step ops r r'"
| drop: "e < 3 \<Longrightarrow> rec_step ops r (rec_drop_unacked_data ops e r)"
| fields: "rec_step ops r (r\<lparr>rc_lost := l, rc_acked := a, rc_loss_probes := b, rc_max_ack_delay := d\<rparr>)"

inductive rec_reach :: "'c cc_ops \<Rightarrow> 'c recovery \<Rightarrow> bool" for ops where
  new: "co_bytes_in_flight ops c = 0 \<Longrightarrow> rec_reach ops (rec_new now c)"
| step: "rec_reach ops r \<Longrightarrow> rec_step ops r r' \<Longrightarrow> rec_reach ops r'"

lemma rec_inv_new: "co_bytes_in_flight ops c = 0 \<Longrightarrow> rec_inv ops 0 (rec_new now c)"
  by (simp add: rec_inv_def rec_new_def rec_wf_def rec_bytes_def)

lemma rec_step_inv:
  assumes "bytes_in_flight ops" "rec_step ops r r'" "rec_inv ops 0 r"
  shows "rec_inv ops 0 r'"
  using assms(2)
proof cases
  case (sent p e env h now)
  with bytes_in_flight.rec_sent_ok [OF assms(1,3)] show ?thesis by blast
next
  case (ack envs env ranges d e h now)
  with bytes_in_flight.rec_received_ok [OF assms(1,3)] show ?thesis by blast
next
  case (timeout env h now)
  with bytes_in_flight.rec_timeout_ok [OF assms(1,3)] show ?thesis by blast
next
  case (drop e)
  with bytes_in_flight.rec_drop_ok [OF assms(1,3)] show ?thesis by blast
next
  case (fields l a b d)
  have "rec_wf r' = rec_wf r" "rec_bytes r' = rec_bytes r" "rc_cc r' = rc_cc r"
    by (simp_all add: fields rec_wf_def rec_bytes_def)
  with assms(3) show ?thesis by (simp add: rec_inv_def)
qed

lemma rec_reach_inv:
  assumes "bytes_in_flight ops" "rec_reach ops r"
  shows "rec_inv ops 0 r"
  using assms(2) by induction (simp_all add: rec_inv_new rec_step_inv [OF assms(1)])

section \<open>Properties\<close>

text \<open>A sent packet with one frame, for the witnesses.\<close>

definition example_sent :: "u64 \<Rightarrow> sent" where
  "example_sent pn = \<lparr>sn_pkt_num = pn, sn_frames = [Ping], sn_time = 0, sn_size = 1200, sn_ack_eliciting = True,
     sn_in_flight = True, sn_fec_info = fec_status_default\<rparr>"

definition example_env :: cc_env where
  "example_env = \<lparr>ce_now = 0, ce_wall_ms = 0, ce_recv = None\<rparr>"

definition example_state :: "reno recovery" where
  "example_state = rec_on_packet_sent reno_ops example_env (example_sent 0) 2 True 0 (rec_new 0 reno_new)"

lemma example_fields:
  "rc_sent example_state = (\<lambda>_. [])(2 := [(0, example_sent 0)])" "rc_lost example_state = (\<lambda>_. [])"
  "rc_acked example_state = (\<lambda>_. [])" "rc_loss_time example_state = (\<lambda>_. None)"
  "rc_largest_acked_pkt example_state = (\<lambda>_. - 1)"
  by (simp_all add: example_state_def rec_on_packet_sent_def Let_def example_sent_def fec_status_default_def rec_new_def)

lemma example_reach: "rec_reach reno_ops example_state"
  unfolding example_state_def
  by (rule rec_reach.step [OF rec_reach.new rec_step.sent])
    (simp_all add: reno_ops_def reno_new_def rec_new_def example_sent_def bt_get_def)

text \<open>C19. Bytes in flight. Whatever congestion control is used, as long as its operations keep the contract of
  \<open>bytes_in_flight\<close>, in every reachable state its count of bytes in flight is the sum of the sizes of the
  application packets that were sent, count as in flight and are neither acknowledged nor lost; so it
  never wraps around. Every packet that belongs to an FEC group finds its group.\<close>

theorem recovery_bytes_in_flight:
  assumes "bytes_in_flight ops" "rec_reach ops r"
  shows "unat (co_bytes_in_flight ops (rc_cc r))
      = (\<Sum>x \<leftarrow> rc_sent r EPOCH_APPLICATION. if sn_in_flight (snd x) then unat (sn_size (snd x)) else 0)
    \<and> (\<forall>e p. p \<in> snd ` set (rc_sent r e) \<longrightarrow> bt_get (sn_pkt_num p) (rc_sent r e) = Some p
        \<and> (fs_group_id (sn_fec_info p) \<noteq> 0 \<longrightarrow> rc_pns_in_fec_group r (fs_group_id (sn_fec_info p)) \<noteq> None))"
proof -
  have inv: "rec_wf r" "unat (co_bytes_in_flight ops (rc_cc r)) = rec_bytes r"
    using rec_reach_inv [OF assms] by (simp_all add: rec_inv_def)
  then show ?thesis by (fastforce simp: rec_wf_def rec_bytes_def bt_get_Some_iff)
qed

lemma recovery_bytes_in_flight_witness: "unat (rn_bytes_in_flight (rc_cc example_state)) = 1200"
  using recovery_bytes_in_flight [OF reno.bytes_in_flight_axioms example_reach]
  by (simp add: reno_ops_def example_fields example_sent_def EPOCH_APPLICATION_def)

text \<open>C20. No frame is lost from the books. An acknowledgement or a timeout moves the frames of packets from \<open>sent\<close>
  to \<open>acked\<close> or \<open>lost\<close>; only frames of packets that do not count as in flight can be dropped.\<close>

theorem recovery_conserves_frames:
  assumes "bytes_in_flight ops" "rec_reach ops r"
    and "e < 3 \<and> rec_on_ack_received ops envs env ranges d e h now r = Ok r'
       \<or> rec_on_loss_detection_timeout ops env h now r = Ok r'"
  shows "\<exists>D. rec_frames r ep = rec_frames r' ep + D \<and> D \<subseteq># rec_idle r ep"
proof -
  have "rec_inv ops 0 r" by (rule rec_reach_inv [OF assms(1,2)])
  then have "rec_moves r r'"
    using assms(3) bytes_in_flight.rec_received_ok [OF assms(1)] bytes_in_flight.rec_timeout_ok [OF assms(1)] by blast
  then obtain D where D: "rec_frames r ep = rec_frames r' ep + D" "rec_idle r' ep + D \<subseteq># rec_idle r ep"
    by (auto simp: rec_moves_def)
  have "D \<subseteq># rec_idle r' ep + D" by simp
  with D show ?thesis by (blast intro: subset_mset.order_trans)
qed

lemma recovery_conserves_frames_witness:
  "\<exists>r'. rec_on_loss_detection_timeout reno_ops example_env True 5 example_state = Ok r' \<and> rec_frames r' 2 = {#Ping#}"
proof -
  have f: "rec_frames example_state 2 = {#Ping#}" "rec_idle example_state 2 = {#}"
    by (simp_all add: rec_frames_def rec_idle_def example_fields example_sent_def)
  obtain t e where te: "earliest_loss_time (rc_loss_time example_state) True = (t, e)" by fastforce
  with earliest_loss_time_cases [OF te] have "t = None" by (simp add: example_fields)
  with te obtain r' where run: "rec_on_loss_detection_timeout reno_ops example_env True 5 example_state = Ok r'"
    by (simp add: rec_on_loss_detection_timeout_def Let_def)
  from recovery_conserves_frames [OF reno.bytes_in_flight_axioms example_reach disjI2 [OF run], of 2] f run
  show ?thesis by auto
qed

text \<open>C21. Loss detection. Of the packets up to the largest acknowledged one, exactly those that were sent a loss
  delay ago or earlier, or are three packet numbers behind, leave \<open>sent\<close>; the frames of those in flight
  become lost, in order; and the loss time is the earliest time at which one of the others is due.\<close>

theorem loss_detection_exact:
  assumes "bytes_in_flight ops" "rec_reach ops r" "e < 3" "rec_detect_lost_packets ops env e now r = Ok r'"
  shows "rc_sent r' = (rc_sent r)(e := filter (\<lambda>x. \<not> rec_lost_now now r e x) (rc_sent r e))
    \<and> rc_lost r' = (rc_lost r)(e := rc_lost r e @ concat (map (\<lambda>x. sn_frames (snd x))
        (filter (\<lambda>x. rec_lost_now now r e x \<and> sn_in_flight (snd x)) (rc_sent r e))))
    \<and> rc_loss_time r' = (rc_loss_time r)(e :=
        (let W = filter (\<lambda>x. \<not> rec_lost_now now r e x \<and> fst x \<le> rc_largest_acked_pkt r e) (rc_sent r e)
         in if W = [] then None else Some (Min ((\<lambda>x. sn_time (snd x) + int (rec_loss_delay r)) ` set W))))"
  using bytes_in_flight.rec_detect_ok [OF assms(1) rec_reach_inv [OF assms(1,2)] assms(3,4)] by blast

lemma loss_detection_exact_witness:
  "\<exists>r'. rec_detect_lost_packets reno_ops example_env 2 5 example_state = Ok r' \<and> rc_lost r' 2 = [Ping]"
proof -
  have lost: "rec_lost_now 5 example_state 2 (0, example_sent 0)"
    unfolding rec_lost_now_def rec_is_lost_def example_fields
    by (simp add: example_sent_def PACKET_THRESHOLD_def)
  then have is_lost: "rec_is_lost (5 - int (rec_loss_delay example_state)) (- 1) (example_sent 0)"
    by (simp add: rec_lost_now_def example_fields)
  have ex: "sn_pkt_num (example_sent 0) = 0" "sn_in_flight (example_sent 0)" "fs_group_id (sn_fec_info (example_sent 0)) = 0"
    by (simp_all add: example_sent_def fec_status_default_def)
  have event: "\<exists>c. co_congestion_event reno_ops env ev c0 = Ok c" for env ev c0
    by (simp add: reno_ops_def reno_congestion_event_def Let_def)
  obtain f where f: "co_congestion_event reno_ops env ev c0 = Ok (f env ev c0)" for env ev c0 using event by metis
  obtain r' where run: "rec_detect_lost_packets reno_ops example_env 2 5 example_state = Ok r'"
    using is_lost
    by (auto simp: f rec_detect_lost_packets_def Let_def rec_on_packets_lost_def example_fields ex bt_upto_def bt_get_def)
  from loss_detection_exact [OF reno.bytes_in_flight_axioms example_reach _ run] lost run show ?thesis
    by (simp add: example_fields ex) (simp add: example_sent_def)
qed

text \<open>The handshake has no probe timer. Packets of the first two packet number spaces do not count as bytes in
  flight, so in a reachable state without application bytes in flight and without a pending loss time,
  sending one, although it must be acknowledged, clears the loss detection timer: if it is lost, no
  timeout ever asks for it again.\<close>

theorem handshake_packet_clears_timer:
  assumes "bytes_in_flight ops" "rec_reach ops r" "e < 2" "sn_in_flight p"
    and "rec_bytes r = 0" "\<forall>e. rc_loss_time r e = None"
  shows "rc_loss_detection_timer (rec_on_packet_sent ops env p e h now r) = None"
proof -
  have "rec_inv ops 0 r" by (rule rec_reach_inv [OF assms(1,2)])
  with assms(5) have zero: "co_bytes_in_flight ops (rc_cc r) = 0" by (simp add: rec_inv_def unat_eq_zero)
  have none: "fst (earliest_loss_time (rc_loss_time r) h) = None"
    using earliest_loss_time_cases [of "rc_loss_time r" h] assms(6) by (cases "earliest_loss_time (rc_loss_time r) h") auto
  show ?thesis
    using assms(3,4) zero none by (simp add: rec_on_packet_sent_def set_loss_detection_timer_def Let_def)
qed

lemma handshake_packet_clears_timer_witness:
  "rc_loss_detection_timer (rec_on_packet_sent reno_ops example_env (example_sent 0) 0 False 0 (rec_new 0 reno_new)) = None"
proof (rule handshake_packet_clears_timer [OF reno.bytes_in_flight_axioms])
  show "rec_reach reno_ops (rec_new 0 reno_new)" by (rule rec_reach.new) (simp add: reno_ops_def reno_new_def)
qed (simp_all add: example_sent_def rec_new_def rec_bytes_def)

text \<open>C24. The adaptation of the redundancy freezes. Two round trips should pass between two adjustments of
  \<open>m\<close> and \<open>n\<close>, but the test is the other way round: once every later sample comes at least twice the
  minimal round trip time after the last adjustment, whatever the samples say, neither changes again.\<close>

theorem fec_adjustment_freezes:
  assumes "rc_last_adjust_time r = Some t" "\<forall>(now, delta) \<in> set samples. t + int (rc_min_rtt r * 2) \<le> now"
  shows "let r' = fold (\<lambda>(now, delta). rec_adjust_fec rate now delta) samples r
    in rc_n r' = rc_n r \<and> rc_m r' = rc_m r \<and> rc_last_adjust_time r' = Some t"
  using assms
proof (induction samples arbitrary: r)
  case (Cons x samples)
  obtain now delta where x: "x = (now, delta)" by (cases x)
  let ?r = "rec_adjust_fec rate now delta r"
  have "rc_n ?r = rc_n r \<and> rc_m ?r = rc_m r \<and> rc_min_rtt ?r = rc_min_rtt r \<and> rc_last_adjust_time ?r = Some t"
    using Cons.prems by (auto simp: x rec_adjust_fec_def Let_def split: prod.split)
  with Cons.IH [of ?r] Cons.prems show ?case by (simp add: x Let_def)
qed simp

lemma fec_adjustment_freezes_witness:
  "rc_n (fold (\<lambda>(now, delta). rec_adjust_fec 1 now delta) [(60, 3), (500, 9)]
     ((rec_new 0 reno_new)\<lparr>rc_last_adjust_time := Some 10, rc_min_rtt := 20, rc_n := 7\<rparr>)) = 7"
  using fec_adjustment_freezes [of "(rec_new 0 reno_new)\<lparr>rc_last_adjust_time := Some 10, rc_min_rtt := 20, rc_n := 7\<rparr>"
      10 "[(60, 3), (500, 9)]" 1]
  by (simp add: Let_def)

end
