(* ===== verification/HuffTree.thy ===== *)
theory HuffTree
  imports HuffTable
begin

text \<open>
  The Huffman code of \<open>src/h3/qpack/huffman/table.rs\<close> as a tree, which the tables are checked against. An inner node
  carries the number of the decoder state that stands for it. The tree is given in pieces, so that
  the simplifier only opens those that a walk enters.
\<close>

datatype htree = Sym u8 | Eos | Node nat htree htree

definition HT_1 :: htree where
  "HT_1 =
     Node 1 (Node 2 (Node 3 (Node 4 (Sym 48) (Sym 49)) (Node 5 (Sym 50) (Sym 97))) (Node 6 (Node 7 (Sym 99)
     (Sym 101)) (Node 8 (Sym 105) (Sym 111)))) (Node 9 (Node 10 (Node 11 (Sym 115) (Sym 116)) (Node 12
     (Node 13 (Sym 32) (Sym 37)) (Node 14 (Sym 45) (Sym 46)))) (Node 15 (Node 16 (Node 17 (Sym 47) (Sym
     51)) (Node 18 (Sym 52) (Sym 53))) (Node 19 (Node 20 (Sym 54) (Sym 55)) (Node 21 (Sym 56) (Sym 57)))))"

definition HT_23 :: htree where
  "HT_23 =
     Node 23 (Node 24 (Node 25 (Node 26 (Sym 61) (Sym 65)) (Node 27 (Sym 95) (Sym 98))) (Node 28 (Node 29
     (Sym 100) (Sym 102)) (Node 30 (Sym 103) (Sym 104)))) (Node 31 (Node 32 (Node 33 (Sym 108) (Sym 109))
     (Node 34 (Sym 110) (Sym 112))) (Node 35 (Node 36 (Sym 114) (Sym 117)) (Node 37 (Node 38 (Sym 58) (Sym
     66)) (Node 39 (Sym 67) (Sym 68)))))"

definition HT_41 :: htree where
  "HT_41 =
     Node 41 (Node 42 (Node 43 (Node 44 (Sym 69) (Sym 70)) (Node 45 (Sym 71) (Sym 72))) (Node 46 (Node 47
     (Sym 73) (Sym 74)) (Node 48 (Sym 75) (Sym 76)))) (Node 49 (Node 50 (Node 51 (Sym 77) (Sym 78)) (Node
     52 (Sym 79) (Sym 80))) (Node 53 (Node 54 (Sym 81) (Sym 82)) (Node 55 (Sym 83) (Sym 84))))"

definition HT_96 :: htree where
  "HT_96 =
     Node 96 (Node 97 (Node 98 (Sym 92) (Sym 195)) (Node 99 (Sym 208) (Node 100 (Sym 128) (Sym 130))))
     (Node 101 (Node 102 (Node 103 (Sym 131) (Sym 162)) (Node 104 (Sym 184) (Sym 194))) (Node 105 (Node 106
     (Sym 224) (Sym 226)) (Node 107 (Node 108 (Sym 153) (Sym 161)) (Node 109 (Sym 167) (Sym 172)))))"

definition HT_119 :: htree where
  "HT_119 =
     Node 119 (Node 120 (Node 121 (Sym 230) (Node 122 (Sym 129) (Sym 132))) (Node 123 (Node 124 (Sym 133)
     (Sym 134)) (Node 125 (Sym 136) (Sym 146)))) (Node 126 (Node 127 (Node 128 (Sym 154) (Sym 156)) (Node
     129 (Sym 160) (Sym 163))) (Node 130 (Node 131 (Sym 164) (Sym 169)) (Node 132 (Sym 170) (Sym 173))))"

definition HT_134 :: htree where
  "HT_134 =
     Node 134 (Node 135 (Node 136 (Node 137 (Sym 178) (Sym 181)) (Node 138 (Sym 185) (Sym 186))) (Node 139
     (Node 140 (Sym 187) (Sym 189)) (Node 141 (Sym 190) (Sym 196)))) (Node 142 (Node 143 (Node 144 (Sym
     198) (Sym 228)) (Node 145 (Sym 232) (Sym 233))) (Node 146 (Node 147 (Node 148 (Sym 1) (Sym 135)) (Node
     149 (Sym 137) (Sym 138))) (Node 150 (Node 151 (Sym 139) (Sym 140)) (Node 152 (Sym 141) (Sym 143)))))"

definition HT_154 :: htree where
  "HT_154 =
     Node 154 (Node 155 (Node 156 (Node 157 (Sym 147) (Sym 149)) (Node 158 (Sym 150) (Sym 151))) (Node 159
     (Node 160 (Sym 152) (Sym 155)) (Node 161 (Sym 157) (Sym 158)))) (Node 162 (Node 163 (Node 164 (Sym
     165) (Sym 166)) (Node 165 (Sym 168) (Sym 174))) (Node 166 (Node 167 (Sym 175) (Sym 180)) (Node 168
     (Sym 182) (Sym 183))))"

definition HT_191 :: htree where
  "HT_191 =
     Node 191 (Node 192 (Node 193 (Node 194 (Sym 192) (Sym 193)) (Node 195 (Sym 200) (Sym 201))) (Node 196
     (Node 197 (Sym 202) (Sym 205)) (Node 198 (Sym 210) (Sym 213)))) (Node 199 (Node 200 (Node 201 (Sym
     218) (Sym 219)) (Node 202 (Sym 238) (Sym 240))) (Node 203 (Node 204 (Sym 242) (Sym 243)) (Node 205
     (Sym 255) (Node 206 (Sym 203) (Sym 204)))))"

definition HT_208 :: htree where
  "HT_208 =
     Node 208 (Node 209 (Node 210 (Node 211 (Sym 211) (Sym 212)) (Node 212 (Sym 214) (Sym 221))) (Node 213
     (Node 214 (Sym 222) (Sym 223)) (Node 215 (Sym 241) (Sym 244)))) (Node 216 (Node 217 (Node 218 (Sym
     245) (Sym 246)) (Node 219 (Sym 247) (Sym 248))) (Node 220 (Node 221 (Sym 250) (Sym 251)) (Node 222
     (Sym 252) (Sym 253))))"

definition HT_224 :: htree where
  "HT_224 =
     Node 224 (Node 225 (Node 226 (Sym 254) (Node 227 (Sym 2) (Sym 3))) (Node 228 (Node 229 (Sym 4) (Sym
     5)) (Node 230 (Sym 6) (Sym 7)))) (Node 231 (Node 232 (Node 233 (Sym 8) (Sym 11)) (Node 234 (Sym 12)
     (Sym 14))) (Node 235 (Node 236 (Sym 15) (Sym 16)) (Node 237 (Sym 17) (Sym 18))))"

definition HT_238 :: htree where
  "HT_238 =
     Node 238 (Node 239 (Node 240 (Node 241 (Sym 19) (Sym 20)) (Node 242 (Sym 21) (Sym 23))) (Node 243
     (Node 244 (Sym 24) (Sym 25)) (Node 245 (Sym 26) (Sym 27)))) (Node 246 (Node 247 (Node 248 (Sym 28)
     (Sym 29)) (Node 249 (Sym 30) (Sym 31))) (Node 250 (Node 251 (Sym 127) (Sym 220)) (Node 252 (Sym 249)
     (Node 253 (Node 254 (Sym 10) (Sym 13)) (Node 255 (Sym 22) Eos)))))"

definition HT_169 :: htree where
  "HT_169 =
     Node 169 (Node 170 (Node 171 (Node 172 (Sym 188) (Sym 191)) (Node 173 (Sym 197) (Sym 231))) (Node 174
     (Node 175 (Sym 239) (Node 176 (Sym 9) (Sym 142))) (Node 177 (Node 178 (Sym 144) (Sym 145)) (Node 179
     (Sym 148) (Sym 159))))) (Node 180 (Node 181 (Node 182 (Node 183 (Sym 171) (Sym 206)) (Node 184 (Sym
     215) (Sym 225))) (Node 185 (Node 186 (Sym 236) (Sym 237)) (Node 187 (Node 188 (Sym 199) (Sym 207))
     (Node 189 (Sym 234) (Sym 235))))) (Node 190 HT_191 (Node 207 HT_208 (Node 223 HT_224 HT_238))))"

definition HT_92 :: htree where
  "HT_92 =
     Node 92 (Node 93 (Sym 60) (Sym 96)) (Node 94 (Sym 123) (Node 95 HT_96 (Node 110 (Node 111 (Node 112
     (Node 113 (Node 114 (Sym 176) (Sym 177)) (Node 115 (Sym 179) (Sym 209))) (Node 116 (Node 117 (Sym 216)
     (Sym 217)) (Node 118 (Sym 227) (Sym 229)))) HT_119) (Node 133 HT_134 (Node 153 HT_154 HT_169)))))"

definition HT_78 :: htree where
  "HT_78 =
     Node 78 (Node 79 (Sym 63) (Node 80 (Sym 39) (Sym 43))) (Node 81 (Node 82 (Sym 124) (Node 83 (Sym 35)
     (Sym 62))) (Node 84 (Node 85 (Node 86 (Sym 0) (Sym 36)) (Node 87 (Sym 64) (Sym 91))) (Node 88 (Node 89
     (Sym 93) (Sym 126)) (Node 90 (Node 91 (Sym 94) (Sym 125)) HT_92))))"

definition HT_64 :: htree where
  "HT_64 =
     Node 64 (Node 65 (Node 66 (Sym 119) (Sym 120)) (Node 67 (Sym 121) (Sym 122))) (Node 68 (Node 69 (Node
     70 (Sym 38) (Sym 42)) (Node 71 (Sym 44) (Sym 59))) (Node 72 (Node 73 (Sym 88) (Sym 90)) (Node 74 (Node
     75 (Node 76 (Sym 33) (Sym 34)) (Node 77 (Sym 40) (Sym 41))) HT_78)))"

definition HTREE :: htree where
  "HTREE =
     Node 0 HT_1 (Node 22 HT_23 (Node 40 HT_41 (Node 56 (Node 57 (Node 58 (Node 59 (Sym 85) (Sym 86)) (Node
     60 (Sym 87) (Sym 89))) (Node 61 (Node 62 (Sym 106) (Sym 107)) (Node 63 (Sym 113) (Sym 118)))) HT_64)))"

section \<open>Walking the tree\<close>

text \<open>Every bit goes one level down; at a symbol the walk starts again at the root.\<close>

lemma HTREE_not_Sym: "HTREE \<noteq> Sym x" "HTREE \<noteq> Eos"
  by (simp_all add: HTREE_def)

function hrun :: "htree \<Rightarrow> bool list \<Rightarrow> (u8 list \<times> htree) option" where
  "hrun (Sym x) bs = map_option (\<lambda>(out, t). (x # out, t)) (hrun HTREE bs)"
| "hrun Eos bs = None"
| "hrun (Node s l r) [] = Some ([], Node s l r)"
| "hrun (Node s l r) (b # bs) = hrun (if b then r else l) bs"
  by pat_completeness auto
termination
  by (relation "measure (\<lambda>(t, bs). 2 * length bs + (case t of Sym _ \<Rightarrow> 1 | _ \<Rightarrow> 0))")
    (auto simp: HTREE_not_Sym split: htree.split)

fun hstate :: "htree \<Rightarrow> nat" where
  "hstate (Node s l r) = s"
| "hstate _ = 0"

lemma piece_rules:
  assumes "t = Node s l r"
  shows "hrun t [] = Some ([], t)" "hrun t (b # bs) = hrun (if b then r else l) bs" "hstate t = s"
  using assms by simp_all

lemmas HT_defs =
  HT_1_def HT_23_def HT_41_def HT_96_def HT_119_def HT_134_def HT_154_def HT_191_def HT_208_def HT_224_def
  HT_238_def HT_169_def HT_92_def HT_78_def HT_64_def HTREE_def

lemmas HT_simps [simp] = HT_defs [THEN piece_rules(1)] HT_defs [THEN piece_rules(2)] HT_defs [THEN piece_rules(3)]

section \<open>The decoding table\<close>

text \<open>The states on the path of ones from the root, up to seven: padding of at most that length is
  accepted at the end.\<close>

definition ones_state :: "nat \<Rightarrow> bool" where
  "ones_state s \<longleftrightarrow> s \<in> {0, 22, 40, 56, 64, 68, 72, 74}"

definition nibbles :: "bool list list" where
  "nibbles = [
     [False, False, False, False], [False, False, False, True], [False, False, True, False], [False, False, True, True],
     [False, True, False, False], [False, True, False, True], [False, True, True, False], [False, True, True, True],
     [True, False, False, False], [True, False, False, True], [True, False, True, False], [True, False, True, True],
     [True, True, False, False], [True, True, False, True], [True, True, True, False], [True, True, True, True]]"

text \<open>What an entry says of the four bits it stands for.\<close>

definition entry_ok :: "htree \<Rightarrow> bool list \<Rightarrow> nat \<times> u8 \<times> u8 \<Rightarrow> bool" where
  "entry_ok t bs e \<longleftrightarrow>
     (case e of (next, byte, flags) \<Rightarrow>
        (case hrun t bs of
           None \<Rightarrow> flags AND 4 = 4
         | Some (out, t') \<Rightarrow> flags AND 4 \<noteq> 4 \<and> next = hstate t' \<and> out = (if flags AND 2 = 2 then [byte] else [])
             \<and> (next = 0 \<or> flags AND 1 = 1) = ones_state next))"

fun tree_all :: "(htree \<Rightarrow> bool) \<Rightarrow> htree \<Rightarrow> bool" where
  "tree_all P (Node s l r) = (P (Node s l r) \<and> tree_all P l \<and> tree_all P r)"
| "tree_all P _ = True"

definition row_ok :: "htree \<Rightarrow> bool" where
  "row_ok t \<longleftrightarrow> list_all2 (entry_ok t) nibbles (DECODE_TABLE ! hstate t)"

lemma list_all2_Cons_Cons: "list_all2 P (x # xs) (y # ys) = (P x y \<and> list_all2 P xs ys)" by simp

lemma length_DECODE_chunks:
  "length DECODE_TABLE_0 = 8" "length DECODE_TABLE_1 = 8" "length DECODE_TABLE_2 = 8"
  "length DECODE_TABLE_3 = 8" "length DECODE_TABLE_4 = 8" "length DECODE_TABLE_5 = 8"
  "length DECODE_TABLE_6 = 8" "length DECODE_TABLE_7 = 8" "length DECODE_TABLE_8 = 8"
  "length DECODE_TABLE_9 = 8" "length DECODE_TABLE_10 = 8" "length DECODE_TABLE_11 = 8"
  "length DECODE_TABLE_12 = 8" "length DECODE_TABLE_13 = 8" "length DECODE_TABLE_14 = 8"
  "length DECODE_TABLE_15 = 8" "length DECODE_TABLE_16 = 8" "length DECODE_TABLE_17 = 8"
  "length DECODE_TABLE_18 = 8" "length DECODE_TABLE_19 = 8" "length DECODE_TABLE_20 = 8"
  "length DECODE_TABLE_21 = 8" "length DECODE_TABLE_22 = 8" "length DECODE_TABLE_23 = 8"
  "length DECODE_TABLE_24 = 8" "length DECODE_TABLE_25 = 8" "length DECODE_TABLE_26 = 8"
  "length DECODE_TABLE_27 = 8" "length DECODE_TABLE_28 = 8" "length DECODE_TABLE_29 = 8"
  "length DECODE_TABLE_30 = 8" "length DECODE_TABLE_31 = 8"
  by (simp_all only: list.size DECODE_TABLE_0_def DECODE_TABLE_1_def DECODE_TABLE_2_def DECODE_TABLE_3_def DECODE_TABLE_4_def DECODE_TABLE_5_def DECODE_TABLE_6_def DECODE_TABLE_7_def DECODE_TABLE_8_def DECODE_TABLE_9_def DECODE_TABLE_10_def DECODE_TABLE_11_def DECODE_TABLE_12_def DECODE_TABLE_13_def DECODE_TABLE_14_def DECODE_TABLE_15_def DECODE_TABLE_16_def DECODE_TABLE_17_def DECODE_TABLE_18_def DECODE_TABLE_19_def DECODE_TABLE_20_def DECODE_TABLE_21_def DECODE_TABLE_22_def DECODE_TABLE_23_def DECODE_TABLE_24_def DECODE_TABLE_25_def DECODE_TABLE_26_def DECODE_TABLE_27_def DECODE_TABLE_28_def DECODE_TABLE_29_def DECODE_TABLE_30_def DECODE_TABLE_31_def)

lemma chunk_nth: "c = xs \<Longrightarrow> c ! i = xs ! i" by simp

lemmas DECODE_chunks =
  DECODE_TABLE_0_def DECODE_TABLE_1_def DECODE_TABLE_2_def DECODE_TABLE_3_def DECODE_TABLE_4_def
  DECODE_TABLE_5_def DECODE_TABLE_6_def DECODE_TABLE_7_def DECODE_TABLE_8_def DECODE_TABLE_9_def
  DECODE_TABLE_10_def DECODE_TABLE_11_def DECODE_TABLE_12_def DECODE_TABLE_13_def DECODE_TABLE_14_def
  DECODE_TABLE_15_def DECODE_TABLE_16_def DECODE_TABLE_17_def DECODE_TABLE_18_def DECODE_TABLE_19_def
  DECODE_TABLE_20_def DECODE_TABLE_21_def DECODE_TABLE_22_def DECODE_TABLE_23_def DECODE_TABLE_24_def
  DECODE_TABLE_25_def DECODE_TABLE_26_def DECODE_TABLE_27_def DECODE_TABLE_28_def DECODE_TABLE_29_def
  DECODE_TABLE_30_def DECODE_TABLE_31_def

lemmas chunks_nth = DECODE_chunks [THEN chunk_nth]

lemma row_ok_Node: "row_ok (Node s l r) = list_all2 (entry_ok (Node s l r)) nibbles (DECODE_TABLE ! s)"
  by (simp add: row_ok_def)

lemmas row_simps = row_ok_Node DECODE_TABLE_def nth_append length_DECODE_chunks nibbles_def chunks_nth entry_ok_def
  ones_state_def

lemma rows_HT_1: "tree_all row_ok HT_1"
  unfolding HT_1_def by (simp add: row_simps)

lemma rows_HT_23: "tree_all row_ok HT_23"
  unfolding HT_23_def by (simp add: row_simps)

lemma rows_HT_41: "tree_all row_ok HT_41"
  unfolding HT_41_def by (simp add: row_simps)

lemma rows_HT_96: "tree_all row_ok HT_96"
  unfolding HT_96_def by (simp add: row_simps)

lemma rows_HT_119: "tree_all row_ok HT_119"
  unfolding HT_119_def by (simp add: row_simps)

lemma rows_HT_134: "tree_all row_ok HT_134"
  unfolding HT_134_def by (simp add: row_simps)

lemma rows_HT_154: "tree_all row_ok HT_154"
  unfolding HT_154_def by (simp add: row_simps)

lemma rows_HT_191: "tree_all row_ok HT_191"
  unfolding HT_191_def by (simp add: row_simps)

lemma rows_HT_208: "tree_all row_ok HT_208"
  unfolding HT_208_def by (simp add: row_simps)

lemma rows_HT_224: "tree_all row_ok HT_224"
  unfolding HT_224_def by (simp add: row_simps)

lemma rows_HT_238: "tree_all row_ok HT_238"
  unfolding HT_238_def by (simp add: row_simps)

lemma rows_HT_169: "tree_all row_ok HT_169"
  unfolding HT_169_def by (simp add: row_simps rows_HT_191 rows_HT_208 rows_HT_224 rows_HT_238)

lemma rows_HT_92: "tree_all row_ok HT_92"
  unfolding HT_92_def by (simp add: row_simps rows_HT_96 rows_HT_119 rows_HT_134 rows_HT_154 rows_HT_169)

lemma rows_HT_78: "tree_all row_ok HT_78"
  unfolding HT_78_def by (simp add: row_simps rows_HT_92)

lemma rows_HT_64: "tree_all row_ok HT_64"
  unfolding HT_64_def by (simp add: row_simps rows_HT_78)

lemma rows_HTREE: "tree_all row_ok HTREE"
  unfolding HTREE_def by (simp add: row_simps rows_HT_1 rows_HT_23 rows_HT_41 rows_HT_64)

section \<open>The encoding table\<close>

fun bin :: "nat \<Rightarrow> u64 \<Rightarrow> bool list" where
  "bin 0 c = []"
| "bin (Suc n) c = bit c n # bin n c"

definition hbits :: "u8 \<Rightarrow> bool list" where
  "hbits x = (case ENCODE_TABLE ! unat x of (n, c) \<Rightarrow> bin n c)"

fun codes_ok :: "nat \<Rightarrow> (nat \<times> u64) list \<Rightarrow> bool" where
  "codes_ok i [] = True"
| "codes_ok i ((n, c) # xs) = (hrun HTREE (bin n c) = (if i = 256 then None else Some ([of_nat i], HTREE))
     \<and> c < 2 ^ n \<and> n \<le> 30 \<and> codes_ok (i + 1) xs)"

lemma bin_numeral: "bin (numeral k) c = bit c (pred_numeral k) # bin (pred_numeral k) c"
  by (simp add: numeral_eq_Suc)

lemma length_ENCODE: "length ENCODE_TABLE_0 = 128" "length ENCODE_TABLE_1 = 129"
  by (simp_all only: list.size ENCODE_TABLE_0_def ENCODE_TABLE_1_def)

lemma codes_ok_0: "codes_ok 0 ENCODE_TABLE_0"
  unfolding ENCODE_TABLE_0_def by (simp add: bin_numeral)

lemma codes_ok_1: "codes_ok 128 ENCODE_TABLE_1"
  unfolding ENCODE_TABLE_1_def by (simp add: bin_numeral)

lemma codes_ok_nth: "codes_ok i xs \<Longrightarrow> j < length xs \<Longrightarrow> codes_ok (i + j) [xs ! j]"
proof (induction xs arbitrary: i j)
  case (Cons x xs)
  then show ?case
  proof (cases j)
    case (Suc k)
    with Cons.IH [of "i + 1" k] Cons.prems show ?thesis by (cases x) simp
  qed (cases x, simp)
qed simp

lemma codes_ok_table: "j < 257 \<Longrightarrow> codes_ok j [ENCODE_TABLE ! j]"
  using codes_ok_nth [OF codes_ok_0, of j] codes_ok_nth [OF codes_ok_1, of "j - 128"]
  by (cases "j < 128") (auto simp: ENCODE_TABLE_def nth_append length_ENCODE)

text \<open>Every code word leads from the root to its symbol.\<close>

lemma code_word:
  assumes "ENCODE_TABLE ! unat (x :: u8) = (n, c)"
  shows "hrun HTREE (bin n c) = Some ([x], HTREE)" "c < 2 ^ n" "n \<le> 30"
  using codes_ok_table [of "unat x"] unat_u8 [of x] assms by simp_all

lemma hrun_hbits: "hrun HTREE (hbits x) = Some ([x], HTREE)"
  by (cases "ENCODE_TABLE ! unat x") (simp add: hbits_def code_word)

section \<open>Runs\<close>

lemma hrun_append:
  "hrun t (xs @ ys) = (case hrun t xs of None \<Rightarrow> None
     | Some (out, t') \<Rightarrow> map_option (\<lambda>(out', t''). (out @ out', t'')) (hrun t' ys))"
  by (induction t xs rule: hrun.induct)
    (auto split: option.splits simp: option.map_comp comp_def case_prod_unfold option.map_ident simp del: HT_simps)

lemma hrun_hbits_all: "hrun HTREE (concat (map hbits xs) @ ys) = map_option (\<lambda>(out, t). (xs @ out, t)) (hrun HTREE ys)"
  by (induction xs)
    (auto simp: hrun_append hrun_hbits option.map_comp comp_def case_prod_unfold option.map_ident split: option.split)

section \<open>The way back\<close>

text \<open>The symbols of a tree with their paths. Every symbol occurs once.\<close>

fun leaves :: "htree \<Rightarrow> (bool list \<times> u8) list" where
  "leaves (Sym x) = [([], x)]"
| "leaves Eos = []"
| "leaves (Node s l r) = map (\<lambda>(p, x). (False # p, x)) (leaves l) @ map (\<lambda>(p, x). (True # p, x)) (leaves r)"

fun symbols :: "htree \<Rightarrow> nat" where
  "symbols (Sym x) = 1"
| "symbols Eos = 0"
| "symbols (Node s l r) = symbols l + symbols r"

fun hwalk :: "htree \<Rightarrow> bool list \<Rightarrow> htree" where
  "hwalk (Node s l r) (b # bs) = hwalk (if b then r else l) bs"
| "hwalk t bs = t"

lemma length_leaves: "length (leaves t) = symbols t"
  by (induction t) auto

lemma symbols_HTREE: "symbols HTREE = 256"
  unfolding HT_defs by simp

text \<open>A run that has not met a symbol is below its start; otherwise it splits at the first symbol.\<close>

lemma hrun_none: "hrun t bs = Some ([], t') \<Longrightarrow> t' = hwalk t bs \<and> size t' + length bs \<le> size t"
  by (induction t bs rule: hrun.induct) (auto split: if_splits)

lemma hrun_first:
  "hrun t bs = Some (x # out, t') \<Longrightarrow>
   \<exists>p q. bs = p @ q \<and> (p, x) \<in> set (leaves t) \<and> hrun HTREE q = Some (out, t')"
proof (induction t bs rule: hrun.induct)
  case (4 s l r b bs)
  then obtain p q where "bs = p @ q" "(p, x) \<in> set (leaves (if b then r else l))" "hrun HTREE q = Some (out, t')"
    by auto
  then show ?case by (intro exI [of _ "b # p"] exI [of _ q]) (cases b, force+)
qed auto

lemma hbits_leaf: "(hbits x, x) \<in> set (leaves HTREE)"
proof -
  obtain p q where pq: "hbits x = p @ q" "(p, x) \<in> set (leaves HTREE)" "hrun HTREE q = Some ([], HTREE)"
    using hrun_first [OF hrun_hbits] by blast
  then show ?thesis using hrun_none [OF pq(3)] by simp
qed

lemma leaf_hbits:
  assumes "(p, x) \<in> set (leaves HTREE)"
  shows "p = hbits x"
proof -
  let ?L = "map snd (leaves HTREE)"
  have "set ?L = UNIV" using hbits_leaf by (force simp: image_iff)
  then have "card (set ?L) = length ?L" by (simp add: length_leaves symbols_HTREE card_word)
  then have "distinct ?L" by (rule card_distinct)
  then have "inj_on snd (set (leaves HTREE))" by (simp add: distinct_map)
  from inj_onD [OF this _ assms hbits_leaf] show ?thesis by simp
qed

lemma hrun_split:
  "hrun HTREE bs = Some (out, t') \<Longrightarrow> \<exists>r. bs = concat (map hbits out) @ r \<and> hrun HTREE r = Some ([], t')"
proof (induction out arbitrary: bs)
  case (Cons x out)
  then obtain p q where "bs = p @ q" "p = hbits x" "hrun HTREE q = Some (out, t')"
    using hrun_first leaf_hbits by metis
  with Cons.IH [of q] show ?case by auto
qed simp

section \<open>Padding\<close>

text \<open>\<open>k\<close> is the depth on the path of ones, and \<open>None\<close> off it.\<close>

fun pads :: "nat option \<Rightarrow> htree \<Rightarrow> bool" where
  "pads k (Node s l r) = (ones_state s = (case k of None \<Rightarrow> False | Some n \<Rightarrow> n \<le> 7)
     \<and> pads None l \<and> pads (map_option Suc k) r)"
| "pads k _ = True"

lemma pads_HTREE: "pads (Some 0) HTREE"
  unfolding HT_defs by (simp add: ones_state_def)

lemma pads_walk:
  "hrun t bs = Some ([], t') \<Longrightarrow> pads k t \<Longrightarrow>
   ones_state (hstate t') = (case k of None \<Rightarrow> False | Some n \<Rightarrow> n + length bs \<le> 7 \<and> bs = replicate (length bs) True)"
proof (induction t bs arbitrary: k rule: hrun.induct)
  case (4 s l r b bs)
  from "4.IH" [of "if b then map_option Suc k else None"] "4.prems" show ?case
    by (cases b; cases k) auto
qed (auto split: option.splits)

lemma hrun_ones: "k \<le> 7 \<Longrightarrow> \<exists>t. hrun HTREE (replicate k True) = Some ([], t)"
proof -
  assume "k \<le> 7"
  then have "k \<in> {0, 1, 2, 3, 4, 5, 6, 7}" by auto
  then show ?thesis by (auto simp: eval_nat_numeral)
qed

text \<open>What a run over a whole string must be, for the decoder to accept it.\<close>

lemma hrun_accepts:
  "(\<exists>t. hrun HTREE bs = Some (out, t) \<and> ones_state (hstate t))
    \<longleftrightarrow> (\<exists>k \<le> 7. bs = concat (map hbits out) @ replicate k True)"
proof
  assume "\<exists>t. hrun HTREE bs = Some (out, t) \<and> ones_state (hstate t)"
  then obtain t r where r: "bs = concat (map hbits out) @ r" "hrun HTREE r = Some ([], t)" "ones_state (hstate t)"
    using hrun_split by blast
  with pads_walk [OF r(2) pads_HTREE] show "\<exists>k \<le> 7. bs = concat (map hbits out) @ replicate k True" by auto
next
  assume "\<exists>k \<le> 7. bs = concat (map hbits out) @ replicate k True"
  then obtain k where k: "k \<le> 7" "bs = concat (map hbits out) @ replicate k True" by blast
  then obtain t where t: "hrun HTREE (replicate k True) = Some ([], t)" using hrun_ones by blast
  from pads_walk [OF t pads_HTREE] k show "\<exists>t. hrun HTREE bs = Some (out, t) \<and> ones_state (hstate t)"
    by (simp add: hrun_hbits_all t)
qed

section \<open>The rows of the decoding table\<close>

text \<open>Every tree a run ends in is the root or one of its nodes.\<close>

lemma tree_all_run: "hrun t bs = Some (out, t') \<Longrightarrow> tree_all P t \<Longrightarrow> tree_all P HTREE \<Longrightarrow> tree_all P t'"
  by (induction t bs arbitrary: out rule: hrun.induct) (auto split: if_splits)

lemma hrun_Node: "hrun t bs = Some (out, t') \<Longrightarrow> \<exists>s l r. t' = Node s l r"
  by (induction t bs arbitrary: out rule: hrun.induct) auto

lemma nibbles_nth: "i < 16 \<Longrightarrow> nibbles ! i = map (bit i) [3, 2, 1, 0]"
proof -
  assume "i < 16"
  then have "i \<in> {0, 1, 2, 3, 4, 5, 6, 7, 8, 9, 10, 11, 12, 13, 14, 15}" by (simp, presburger)
  then show ?thesis by (auto simp: nibbles_def bit_Suc_0_iff)
qed

lemma row_entry:
  assumes "hrun HTREE bs = Some (out, t)" "i < 16"
  shows "length (DECODE_TABLE ! hstate t) = 16"
    and "entry_ok t (map (bit i) [3, 2, 1, 0]) (DECODE_TABLE ! hstate t ! i)"
proof -
  have "row_ok t"
    using tree_all_run [OF assms(1) rows_HTREE rows_HTREE] hrun_Node [OF assms(1)] by auto
  then have l: "list_all2 (entry_ok t) nibbles (DECODE_TABLE ! hstate t)" by (simp add: row_ok_def)
  from list_all2_lengthD [OF l] show "length (DECODE_TABLE ! hstate t) = 16" by (simp add: nibbles_def)
  from list_all2_nthD [OF l, of i] assms(2) show "entry_ok t (map (bit i) [3, 2, 1, 0]) (DECODE_TABLE ! hstate t ! i)"
    by (simp add: nibbles_nth) (simp add: nibbles_def)
qed

end
