(* ===== verification/Huffman.thy ===== *)
theory Huffman
  imports HuffTree Wire
begin

text \<open>
  Huffman coding of HTTP/3 header strings (\<open>src/h3/qpack/huffman/mod.rs\<close>): the encoder, which collects code
  words in the upper 40 bits that count of a word, and the decoder, an automaton that reads half bytes.
  The bit strings of the tree in \<open>HuffTree\<close> say what both do.
\<close>

section \<open>Errors\<close>

text \<open>\<open>Error\<close> of \<open>src/h3/qpack/mod.rs\<close>; the only error of the byte buffer becomes \<open>QBufferTooShort\<close>.\<close>

datatype qpack_error =
    QBufferTooShort
  | InvalidHuffmanEncoding
  | InvalidStaticTableIndex
  | InvalidHeaderValue
  | HeaderListTooLarge

type_synonym 'a qresult = "(qpack_error, 'a) res"

definition of_short :: "'a result \<Rightarrow> 'a qresult" where
  "of_short = map_err (\<lambda>_. QBufferTooShort)"

section \<open>The decoder\<close>

record hdecoder =
  hd_state :: nat
  hd_maybe_eos :: bool

definition hdecoder_new :: hdecoder where
  "hdecoder_new = \<lparr>hd_state = 0, hd_maybe_eos = False\<rparr>"

definition decode4 :: "u8 \<Rightarrow> hdecoder \<Rightarrow> (u8 option \<times> hdecoder) qresult" where
  "decode4 input d =
     (if hd_state d < length DECODE_TABLE \<and> unat input < length (DECODE_TABLE ! hd_state d) then
        case DECODE_TABLE ! hd_state d ! unat input of (next, byte, flags) \<Rightarrow>
          if flags AND 4 = 4 then Err InvalidHuffmanEncoding
          else Ok (if flags AND 2 = 2 then Some byte else None,
                   \<lparr>hd_state = next, hd_maybe_eos = (flags AND 1 = 1)\<rparr>)
      else Panic)"

definition hd_is_final :: "hdecoder \<Rightarrow> bool" where
  "hd_is_final d \<longleftrightarrow> hd_state d = 0 \<or> hd_maybe_eos d"

fun push_some :: "'a option \<Rightarrow> 'a list \<Rightarrow> 'a list" where
  "push_some (Some x) out = out @ [x]"
| "push_some None out = out"

function huff_decode_loop :: "hdecoder \<Rightarrow> u8 list \<Rightarrow> octets \<Rightarrow> (u8 list \<times> hdecoder) qresult" where
  "huff_decode_loop d out b =
     (if cap b > 0 then
        bnd (of_short (get_u8 b)) (\<lambda>(byte, b).
        bnd (decode4 (drop_bit 4 byte) d) (\<lambda>(x, d).
        let out = push_some x out
        in bnd (decode4 (byte AND 0xf) d) (\<lambda>(x, d).
        huff_decode_loop d (push_some x out) b)))
      else Ok (out, d))"
  by pat_completeness auto
termination
  by (relation "measure (\<lambda>(d, out, b). cap b)") (auto simp: of_short_def dest: u8c.get_cap_less)

declare huff_decode_loop.simps [simp del]

definition huff_decode :: "octets \<Rightarrow> u8 list qresult" where
  "huff_decode b =
     bnd (huff_decode_loop hdecoder_new [] b) (\<lambda>(out, d).
     if \<not> hd_is_final d then Err InvalidHuffmanEncoding else Ok out)"

section \<open>The encoder\<close>

function huff_flush :: "u64 \<Rightarrow> nat \<Rightarrow> octets \<Rightarrow> (u64 \<times> nat \<times> octets) qresult" where
  "huff_flush bits bits_left out =
     (if bits_left \<le> 32 then
        bnd (of_short (put_u8 (ucast (drop_bit 32 bits)) out)) (\<lambda>out.
        huff_flush (push_bit 8 bits) (bits_left + 8) out)
      else Ok (bits, bits_left, out))"
  by pat_completeness auto
termination
  by (relation "measure (\<lambda>(bits, bits_left, out). 33 - bits_left)") auto

declare huff_flush.simps [simp del]

text \<open>A code word has at most 30 bits and more than 32 are left, so \<open>bits_left - nbits\<close> does not go below zero.\<close>

fun huff_encode_loop :: "u8 list \<Rightarrow> u64 \<Rightarrow> nat \<Rightarrow> octets \<Rightarrow> (u64 \<times> nat \<times> octets) qresult" where
  "huff_encode_loop [] bits bits_left out = Ok (bits, bits_left, out)"
| "huff_encode_loop (b # src) bits bits_left out =
     (case ENCODE_TABLE ! unat b of (nbits, code) \<Rightarrow>
        bnd (huff_flush (bits OR push_bit (bits_left - nbits) code) (bits_left - nbits) out)
          (\<lambda>(bits, bits_left, out). huff_encode_loop src bits bits_left out))"

definition huff_encode :: "u8 list \<Rightarrow> octets \<Rightarrow> octets qresult" where
  "huff_encode src out =
     bnd (huff_encode_loop src 0 40 out) (\<lambda>(bits, bits_left, out).
     if bits_left \<noteq> 40
     then of_short (put_u8 (ucast (drop_bit 32 (bits OR (push_bit bits_left 1 - 1)))) out)
     else Ok out)"

definition encode_output_length :: "u8 list \<Rightarrow> nat" where
  "encode_output_length src =
     (let bits = foldl (\<lambda>bits b. bits + fst (ENCODE_TABLE ! unat b)) 0 src
      in if bits AND 7 \<noteq> 0 then bits div 8 + 1 else bits div 8)"

section \<open>Bytes and bits\<close>

definition bits8 :: "u8 \<Rightarrow> bool list" where
  "bits8 x = map (bit x) (rev [0..<8])"

definition byte_bits :: "u8 list \<Rightarrow> bool list" where
  "byte_bits bs = concat (map bits8 bs)"

definition byte_of :: "bool list \<Rightarrow> u8" where
  "byte_of bs = horner_sum of_bool 2 (rev bs)"

fun pack :: "bool list \<Rightarrow> u8 list" where
  "pack bs = (if length bs < 8 then [] else byte_of (take 8 bs) # pack (drop 8 bs))"

declare pack.simps [simp del]

definition unpacked :: "bool list \<Rightarrow> bool list" where
  "unpacked bs = drop (8 * (length bs div 8)) bs"

definition padded :: "bool list \<Rightarrow> bool list" where
  "padded bs = bs @ replicate ((8 - length bs mod 8) mod 8) True"

lemma length_bits8 [simp]: "length (bits8 x) = 8" by (simp add: bits8_def)

lemma bits8_byte_of: "length bs = 8 \<Longrightarrow> bits8 (byte_of bs) = bs"
  by (rule nth_equalityI) (auto simp: bits8_def byte_of_def bit_horner_sum_bit_iff rev_nth)

lemma byte_eqI: "length bs = 8 \<Longrightarrow> (\<And>i. i < 8 \<Longrightarrow> bit x i = bs ! (7 - i)) \<Longrightarrow> x = byte_of bs"
  by (rule bit_word_eqI) (auto simp: byte_of_def bit_horner_sum_bit_iff rev_nth)

lemma pack_less: "length bs < 8 \<Longrightarrow> pack bs = []" by (simp add: pack.simps)

lemma pack_step: "8 \<le> length bs \<Longrightarrow> pack bs = byte_of (take 8 bs) # pack (drop 8 bs)"
  by (subst pack.simps) simp

lemma unpacked_less: "length bs < 8 \<Longrightarrow> unpacked bs = bs" by (simp add: unpacked_def)

lemma length_unpacked: "length (unpacked bs) = length bs mod 8"
  by (simp add: unpacked_def minus_mult_div_eq_mod)

lemma unpacked_step: "8 \<le> length bs \<Longrightarrow> unpacked (drop 8 bs) = unpacked bs"
  by (simp add: unpacked_def le_div_geq add.commute)

lemma pack_append: "pack (xs @ ys) = pack xs @ pack (unpacked xs @ ys) \<and> unpacked (xs @ ys) = unpacked (unpacked xs @ ys)"
proof (induction xs rule: pack.induct)
  case (1 xs)
  show ?case
  proof (cases "length xs < 8")
    case True
    then show ?thesis by (simp add: pack_less unpacked_less)
  next
    case False
    with 1 have "pack (drop 8 xs @ ys) = pack (drop 8 xs) @ pack (unpacked xs @ ys)"
      "unpacked (drop 8 xs @ ys) = unpacked (unpacked xs @ ys)"
      by (simp_all add: unpacked_step)
    with False show ?thesis using unpacked_step [of "xs @ ys"]
      by (simp add: pack_step [of xs] pack_step [of "xs @ ys"])
  qed
qed

lemma byte_bits_pack: "length bs mod 8 = 0 \<Longrightarrow> byte_bits (pack bs) = bs"
proof (induction bs rule: pack.induct)
  case (1 bs)
  show ?case
  proof (cases "length bs < 8")
    case True
    with 1 show ?thesis by (simp add: pack_less byte_bits_def)
  next
    case False
    then have "byte_bits (pack bs) = bits8 (byte_of (take 8 bs)) @ byte_bits (pack (drop 8 bs))"
      by (simp add: pack_step byte_bits_def)
    with 1 False show ?thesis by (simp add: bits8_byte_of le_mod_geq)
  qed
qed

lemma length_pack: "length (pack bs) = length bs div 8"
proof (induction bs rule: pack.induct)
  case (1 bs)
  then show ?case by (cases "length bs < 8") (simp_all add: pack_less pack_step le_div_geq)
qed

section \<open>What the encoder writes\<close>

text \<open>The low 40 bits of \<open>bits\<close> are the pending bits \<open>P\<close>, then zeros.\<close>

definition holds_bits :: "bool list \<Rightarrow> u64 \<Rightarrow> nat \<Rightarrow> bool" where
  "holds_bits P bits left \<longleftrightarrow> length P + left = 40 \<and> (\<forall>i < 40. bit bits i = (left \<le> i \<and> P ! (39 - i)))"

lemma length_bin [simp]: "length (bin n c) = n"
  by (induction n) auto

lemma bin_nth: "i < n \<Longrightarrow> bin n c ! i = bit c (n - 1 - i)"
  by (induction n arbitrary: i) (auto simp: nth_Cons' )

lemma bit_less: "(c :: u64) < 2 ^ n \<Longrightarrow> n < 64 \<Longrightarrow> n \<le> i \<Longrightarrow> \<not> bit c i"
proof -
  assume "c < 2 ^ n" "n < 64" "n \<le> i"
  moreover have "(2 :: nat) ^ n < 2 ^ 64" using \<open>n < 64\<close> by (rule power_strict_increasing) simp
  then have "unat ((2 :: u64) ^ n) = 2 ^ n" using unat_of_nat64 [of "2 ^ n"] by simp
  ultimately have "unat c < 2 ^ n" by (simp add: word_less_nat_alt)
  then have "take_bit n (unat c) = unat c" by (simp add: take_bit_nat_eq_self)
  then have "bit (unat c) i = bit (take_bit n (unat c)) i" by simp
  with \<open>n \<le> i\<close> show ?thesis by (simp add: bit_take_bit_iff bit_unsigned_iff)
qed

lemma holds_bits_code:
  assumes "holds_bits P bits left" "n \<le> left" "n \<le> 30" "c < 2 ^ n"
  shows "holds_bits (P @ bin n c) (bits OR push_bit (left - n) c) (left - n)"
  unfolding holds_bits_def
proof (intro conjI allI impI)
  fix i :: nat assume i: "i < 40"
  have P: "length P + left = 40" "bit bits i = (left \<le> i \<and> P ! (39 - i))"
    using assms(1) i by (auto simp: holds_bits_def)
  have code: "\<not> bit c (i - (left - n))" if "left \<le> i"
    by (rule bit_less [OF assms(4)]) (use that assms in auto)
  have "(P @ bin n c) ! (39 - i) = bit c (i - (left - n))" if "i < left" "left - n \<le> i"
  proof -
    have "n - 1 - (left - 1 - i) = i - (left - n)" using that assms(2) by auto
    moreover have "39 - i - length P = left - 1 - i" "\<not> 39 - i < length P" using that P by auto
    ultimately show ?thesis using that assms(2) by (simp add: nth_append bin_nth)
  qed
  moreover have "(P @ bin n c) ! (39 - i) = P ! (39 - i)" if "left \<le> i"
    using that P i by (auto simp: nth_append)
  ultimately show "bit (bits OR push_bit (left - n) c) i = (left - n \<le> i \<and> (P @ bin n c) ! (39 - i))"
    using i P code by (cases "left \<le> i") (auto simp: bit_or_iff bit_push_bit_iff)
qed (use assms in \<open>auto simp: holds_bits_def\<close>)

lemma holds_bits_byte:
  assumes "holds_bits P bits left" "left \<le> 32"
  shows "ucast (drop_bit 32 bits) = byte_of (take 8 P)" "holds_bits (drop 8 P) (push_bit 8 bits) (left + 8)"
proof -
  show "ucast (drop_bit 32 bits) = byte_of (take 8 P)"
    using assms by (intro byte_eqI) (auto simp: holds_bits_def bit_ucast_iff bit_drop_bit_eq)
  have "bit (push_bit 8 bits) i = (left + 8 \<le> i \<and> drop 8 P ! (39 - i))" if "i < 40" for i
    using assms that by (cases "8 \<le> i") (auto simp: holds_bits_def bit_push_bit_iff Suc_diff_le)
  with assms show "holds_bits (drop 8 P) (push_bit 8 bits) (left + 8)" by (auto simp: holds_bits_def)
qed

text \<open>The outcome of a writer with state: what it wrote, and the bits it still holds.\<close>

definition emits :: "u8 list \<Rightarrow> bool list \<Rightarrow> octets \<Rightarrow> (u64 \<times> nat \<times> octets) qresult \<Rightarrow> bool" where
  "emits bs P out r \<longleftrightarrow> (if cap out < length bs then r = Err QBufferTooShort
     else \<exists>bits left. holds_bits P bits left \<and> r = Ok (bits, left, wr bs out))"

lemma put_byte: "octets_ok out \<Longrightarrow> of_short (put_u8 x out) = (if cap out < 1 then Err QBufferTooShort else Ok (wr [x] out))"
  by (simp add: of_short_def u8c.put_eq be_enc_u8 [unfolded One_nat_def])

lemma emits_Cons:
  assumes "emits bs P (wr [x] out) r" "octets_ok out" "1 \<le> cap out"
  shows "emits (x # bs) P out r"
proof -
  have "cap (wr [x] out) = cap out - 1" "length bs \<le> cap out - 1 \<Longrightarrow> wr bs (wr [x] out) = wr (x # bs) out"
    using assms(2,3) wr_wr [of out "[x]" bs] by simp_all
  with assms(1,3) show ?thesis unfolding emits_def by (cases "cap out - 1 < length bs") auto
qed

lemma huff_flush_emits:
  "holds_bits P bits left \<Longrightarrow> octets_ok out \<Longrightarrow> emits (pack P) (unpacked P) out (huff_flush bits left out)"
proof (induction bits left out arbitrary: P rule: huff_flush.induct)
  case (1 bits left out)
  show ?case
  proof (cases "left \<le> 32")
    case False
    with 1 have "length P < 8" by (auto simp: holds_bits_def)
    then show ?thesis
      using False 1 by (auto simp: emits_def pack_less unpacked_less huff_flush.simps [of bits left out])
  next
    case True
    with 1 have len: "8 \<le> length P" by (auto simp: holds_bits_def)
    show ?thesis
    proof (cases "cap out < 1")
      case True': True
      then show ?thesis
        using True len 1 by (simp add: emits_def pack_step huff_flush.simps [of bits left out] put_byte)
    next
      case False
      let ?x = "ucast (drop_bit 32 bits) :: u8" let ?out = "wr [?x] out"
      have out: "octets_ok ?out" "cap ?out = cap out - 1" using 1 False by simp_all
      have put: "of_short (put_u8 ?x out) = Ok ?out" using False 1 by (simp add: put_byte)
      have "emits (pack (drop 8 P)) (unpacked (drop 8 P)) ?out (huff_flush (push_bit 8 bits) (left + 8) ?out)"
        by (rule "1.IH" [OF True put holds_bits_byte(2) [OF "1.prems"(1) True] out(1)])
      then have "emits (?x # pack (drop 8 P)) (unpacked (drop 8 P)) out (huff_flush (push_bit 8 bits) (left + 8) ?out)"
        by (rule emits_Cons) (use "1.prems" False in auto)
      then show ?thesis
        using True len put holds_bits_byte(1) [OF "1.prems"(1) True]
        by (simp add: pack_step unpacked_step huff_flush.simps [of bits left out])
    qed
  qed
qed

lemma hbits_length: "length (hbits x) = fst (ENCODE_TABLE ! unat x)"
  by (simp add: hbits_def case_prod_unfold)

lemma huff_encode_loop_emits:
  "holds_bits P bits left \<Longrightarrow> length P < 8 \<Longrightarrow> octets_ok out \<Longrightarrow>
   emits (pack (P @ concat (map hbits src))) (unpacked (P @ concat (map hbits src))) out (huff_encode_loop src bits left out)"
proof (induction src arbitrary: P bits left out)
  case Nil
  then show ?case by (auto simp: emits_def pack_less unpacked_less)
next
  case (Cons b src)
  obtain n c where nc: "ENCODE_TABLE ! unat b = (n, c)" by fastforce
  let ?P = "P @ hbits b" and ?C = "concat (map hbits src)"
  have "holds_bits ?P (bits OR push_bit (left - n) c) (left - n)"
    using holds_bits_code [OF Cons.prems(1) _ code_word(3,2) [OF nc]] code_word(3) [OF nc] Cons.prems(1,2)
    by (simp add: hbits_def nc holds_bits_def)
  then have e: "emits (pack ?P) (unpacked ?P) out (huff_flush (bits OR push_bit (left - n) c) (left - n) out)"
    by (rule huff_flush_emits) fact
  have p: "pack (P @ concat (map hbits (b # src))) = pack ?P @ pack (unpacked ?P @ ?C)"
    "unpacked (P @ concat (map hbits (b # src))) = unpacked (unpacked ?P @ ?C)"
    using pack_append [of ?P ?C] by simp_all
  have "emits (pack ?P @ pack (unpacked ?P @ ?C)) (unpacked (unpacked ?P @ ?C)) out
     (bnd (huff_flush (bits OR push_bit (left - n) c) (left - n) out)
        (\<lambda>(bits, left, out). huff_encode_loop src bits left out))"
  proof (cases "cap out < length (pack ?P)")
    case True
    with e show ?thesis by (simp add: emits_def)
  next
    case False
    let ?out = "wr (pack ?P) out"
    from False e obtain bits' left' where 1: "holds_bits (unpacked ?P) bits' left'"
      "huff_flush (bits OR push_bit (left - n) c) (left - n) out = Ok (bits', left', ?out)"
      by (auto simp: emits_def)
    have out: "octets_ok ?out" "cap ?out = cap out - length (pack ?P)" using False Cons.prems(3) by simp_all
    have IH: "emits (pack (unpacked ?P @ ?C)) (unpacked (unpacked ?P @ ?C)) ?out (huff_encode_loop src bits' left' ?out)"
      by (rule Cons.IH [OF 1(1) _ out(1)]) (simp add: length_unpacked)
    then show ?thesis
      using out(2) False Cons.prems(3) by (cases "cap ?out < length (pack (unpacked ?P @ ?C))") (auto simp: emits_def 1(2))
  qed
  then show ?case by (simp only: p huff_encode_loop.simps nc prod.case)
qed

text \<open>The bytes of a string: its code words one after another, padded with ones.\<close>

definition huff_bytes :: "u8 list \<Rightarrow> u8 list" where
  "huff_bytes src = pack (padded (concat (map hbits src)))"

lemma byte_bits_huff: "byte_bits (huff_bytes src) = padded (concat (map hbits src))"
proof -
  have "(n + (8 - n mod 8) mod 8) mod 8 = 0" for n :: nat
  proof -
    have "(n + (8 - n mod 8) mod 8) mod 8 = (n mod 8 + (8 - n mod 8)) mod 8"
      by (simp only: mod_add_left_eq mod_add_right_eq)
    also have "n mod 8 + (8 - n mod 8) = 8" by (rule le_add_diff_inverse) simp
    finally show ?thesis by simp
  qed
  then show ?thesis unfolding huff_bytes_def by (intro byte_bits_pack) (simp add: padded_def)
qed

lemma pack_padded:
  "pack (padded bs) = pack bs @ (if unpacked bs = [] then [] else [byte_of (unpacked bs @ replicate (8 - length (unpacked bs)) True)])"
proof -
  have "length (unpacked bs) = length bs mod 8" "length bs mod 8 < 8" by (simp_all add: length_unpacked)
  then show ?thesis
    using pack_append [of bs "replicate ((8 - length bs mod 8) mod 8) True"]
    by (cases "length bs mod 8 = 0") (auto simp: padded_def pack_step pack_less)
qed

lemma encode_output_length_eq: "encode_output_length src = length (huff_bytes src)"
proof -
  have "foldl (\<lambda>bits b. bits + fst (ENCODE_TABLE ! unat b)) n src = n + length (concat (map hbits src))" for n
    by (induction src arbitrary: n) (simp_all add: hbits_length)
  moreover have "(n AND 7) = n mod 8" for n :: nat
    using take_bit_eq_mask [of 3 n] by (simp add: mask_eq_exp_minus_1 take_bit_eq_mod)
  moreover have "unpacked bs = [] \<longleftrightarrow> length bs mod 8 = 0" for bs
    using length_unpacked [of bs] by fastforce
  ultimately show ?thesis by (simp add: encode_output_length_def huff_bytes_def pack_padded length_pack)
qed

lemma pad_byte:
  assumes "holds_bits P bits left" "length P < 8"
  shows "ucast (drop_bit 32 (bits OR (push_bit left 1 - 1))) = byte_of (P @ replicate (8 - length P) True)"
proof (rule byte_eqI)
  fix i :: nat assume "i < 8"
  moreover have "push_bit left 1 - 1 = (mask left :: u64)" by (simp add: mask_eq_decr_exp push_bit_of_1)
  ultimately show "bit (ucast (drop_bit 32 (bits OR (push_bit left 1 - 1))) :: u8) i = (P @ replicate (8 - length P) True) ! (7 - i)"
    using assms by (auto simp: holds_bits_def bit_ucast_iff bit_drop_bit_eq bit_or_iff bit_mask_iff nth_append)
qed (use assms in simp)

lemma writes_huff: "writes_err QBufferTooShort (huff_bytes src) (huff_encode src)"
  unfolding writes_err_def
proof (intro allI impI)
  fix out assume out: "octets_ok out"
  let ?C = "concat (map hbits src)"
  have "holds_bits [] 0 40" by (simp add: holds_bits_def)
  from huff_encode_loop_emits [OF this _ out, of src]
  have e: "emits (pack ?C) (unpacked ?C) out (huff_encode_loop src 0 40 out)" by simp
  show "huff_encode src out = (if cap out < length (huff_bytes src) then Err QBufferTooShort else Ok (wr (huff_bytes src) out))"
  proof (cases "cap out < length (pack ?C)")
    case True
    with e show ?thesis by (simp add: emits_def huff_encode_def huff_bytes_def pack_padded)
  next
    case False
    with e obtain bits left where 1: "holds_bits (unpacked ?C) bits left"
      "huff_encode_loop src 0 40 out = Ok (bits, left, wr (pack ?C) out)"
      by (auto simp: emits_def)
    have short: "length (unpacked ?C) < 8" by (simp add: length_unpacked)
    have "unpacked ?C = [] \<longleftrightarrow> left = 40" using 1(1) by (auto simp: holds_bits_def)
    with 1 False out pad_byte [OF 1(1) short] show ?thesis
      by (auto simp: huff_encode_def huff_bytes_def pack_padded put_byte)
  qed
qed

section \<open>What the decoder accepts\<close>

lemma length_DECODE_TABLE: "length DECODE_TABLE = 256"
  by (simp add: DECODE_TABLE_def length_DECODE_chunks)

lemma states_below: "tree_all (\<lambda>t. hstate t < 256) HTREE"
  unfolding HT_defs by simp

definition hd_ok :: "hdecoder \<Rightarrow> htree \<Rightarrow> bool" where
  "hd_ok d t \<longleftrightarrow> (\<exists>bs out. hrun HTREE bs = Some (out, t)) \<and> hd_state d = hstate t
     \<and> hd_is_final d = ones_state (hstate t)"

lemma hd_ok_new: "hd_ok hdecoder_new HTREE"
proof -
  have "hrun HTREE [] = Some ([], HTREE)" by simp
  then have "\<exists>bs out. hrun HTREE bs = Some (out, HTREE)" by blast
  then show ?thesis by (simp add: hd_ok_def hdecoder_new_def hd_is_final_def ones_state_def)
qed

lemma decode4_run:
  assumes "hd_ok d t" "unat input < 16"
  shows "case hrun t (map (bit (unat input)) [3, 2, 1, 0]) of
      None \<Rightarrow> decode4 input d = Err InvalidHuffmanEncoding
    | Some (out, t') \<Rightarrow> \<exists>x d'. decode4 input d = Ok (x, d') \<and> hd_ok d' t' \<and> (\<forall>xs. push_some x xs = xs @ out)"
proof -
  let ?bs = "map (bit (unat input)) [3, 2, 1, 0]"
  obtain bs0 out0 where r: "hrun HTREE bs0 = Some (out0, t)" using assms(1) by (auto simp: hd_ok_def)
  obtain "next" byte flags where entry: "DECODE_TABLE ! hstate t ! unat input = (next, byte, flags)"
    by (metis prod_cases3)
  have range: "hstate t < 256"
    using tree_all_run [OF r states_below states_below] hrun_Node [OF r] by auto
  have dec: "decode4 input d = (if flags AND 4 = 4 then Err InvalidHuffmanEncoding
      else Ok (if flags AND 2 = 2 then Some byte else None, \<lparr>hd_state = next, hd_maybe_eos = (flags AND 1 = 1)\<rparr>))"
    using assms range by (simp add: decode4_def hd_ok_def length_DECODE_TABLE row_entry(1) [OF r] entry)
  have ok: "entry_ok t ?bs (next, byte, flags)" using row_entry(2) [OF r assms(2)] by (simp add: entry)
  show ?thesis
  proof (cases "hrun t ?bs")
    case None
    with ok show ?thesis unfolding entry_ok_def prod.case None option.case by (simp add: dec)
  next
    case (Some a)
    obtain out t' where a: "a = (out, t')" by fastforce
    from ok have "flags AND 4 \<noteq> 4 \<and> next = hstate t' \<and> out = (if flags AND 2 = 2 then [byte] else [])
        \<and> (next = 0 \<or> flags AND 1 = 1) = ones_state next"
      unfolding entry_ok_def prod.case Some a option.case .
    moreover have "hrun HTREE (bs0 @ ?bs) = Some (out0 @ out, t')" by (simp only: hrun_append r Some a option.case prod.case option.map)
    ultimately show ?thesis unfolding Some a option.case prod.case by (auto simp: dec hd_ok_def hd_is_final_def)
  qed
qed

lemma bits8_eq: "bits8 x = map (bit x) [7, 6, 5, 4, 3, 2, 1, 0]"
proof -
  have "rev [0..<8] = [7, 6, 5, 4, 3, 2, 1, 0 :: nat]" by (simp add: upt_conv_Cons)
  then show ?thesis by (simp only: bits8_def)
qed

lemma bits8_nibbles:
  "bits8 x = map (bit (unat (drop_bit 4 x))) [3, 2, 1, 0] @ map (bit (unat (x AND 0xf))) [3, 2, 1, 0]"
  "unat (drop_bit 4 x) < 16" "unat (x AND 0xf) < 16"
proof -
  have m: "x AND 0xf = take_bit 4 x" using take_bit_eq_mask [of 4 x] by (simp add: mask_eq_exp_minus_1)
  show "bits8 x = map (bit (unat (drop_bit 4 x))) [3, 2, 1, 0] @ map (bit (unat (x AND 0xf))) [3, 2, 1, 0]"
    unfolding m by (simp add: bits8_eq bit_unsigned_iff bit_drop_bit_eq bit_take_bit_iff)
  show "unat (drop_bit 4 x) < 16"
    using unat_u8 [of x] by (simp only: unsigned_drop_bit_eq) (simp add: drop_bit_eq_div take_bit_eq_mod)
  show "unat (x AND 0xf) < 16" unfolding m by (simp only: unsigned_take_bit_eq) (simp add: take_bit_eq_mod)
qed

lemma huff_decode_loop_run:
  "hd_ok d t \<Longrightarrow> as_ref b = bs \<Longrightarrow>
   case hrun t (byte_bits bs) of
     None \<Rightarrow> huff_decode_loop d out b = Err InvalidHuffmanEncoding
   | Some (out', t') \<Rightarrow> \<exists>d'. huff_decode_loop d out b = Ok (out @ out', d') \<and> hd_ok d' t'"
proof (induction bs arbitrary: d t out b)
  case Nil
  then have "cap b = 0" by (metis length_as_ref list.size(3))
  moreover have "hrun t [] = Some ([], t)" using hrun_Node Nil by (fastforce simp: hd_ok_def)
  ultimately show ?case using Nil by (simp add: byte_bits_def huff_decode_loop.simps [of d out b])
next
  case (Cons x bs)
  let ?hi = "map (bit (unat (drop_bit 4 x))) [3, 2, 1, 0]" and ?lo = "map (bit (unat (x AND 0xf))) [3, 2, 1, 0]"
  have cap: "cap b > 0" by (metis Cons.prems(2) length_as_ref length_greater_0_conv list.distinct(1))
  let ?b = "advance 1 b"
  have get: "of_short (get_u8 b) = Ok (x, ?b)"
    using u8c.get_enc [where v = x and b = b and r = bs] Cons.prems(2) by (simp add: of_short_def be_enc_u8 [unfolded One_nat_def])
  have b': "as_ref ?b = bs" using Cons.prems(2) by (simp add: as_ref_advance)
  have bits: "byte_bits (x # bs) = ?hi @ ?lo @ byte_bits bs"
    by (simp only: byte_bits_def list.map concat.simps bits8_nibbles(1) append_assoc)
  have loop: "huff_decode_loop d out b = bnd (decode4 (drop_bit 4 x) d) (\<lambda>(y, d).
      bnd (decode4 (x AND 0xf) d) (\<lambda>(z, d). huff_decode_loop d (push_some z (push_some y out)) ?b))"
    using cap get by (simp add: huff_decode_loop.simps [of d out b])
  note hi = decode4_run [OF Cons.prems(1) bits8_nibbles(2) [of x]]
  show ?case
  proof (cases "hrun t ?hi")
    case None
    have "decode4 (drop_bit 4 x) d = Err InvalidHuffmanEncoding" using hi unfolding None option.case .
    then show ?thesis unfolding bits loop hrun_append None option.case by simp
  next
    case (Some a1)
    obtain o1 t1 where a1: "a1 = (o1, t1)" by fastforce
    from hi obtain y d1 where 1: "decode4 (drop_bit 4 x) d = Ok (y, d1)" "hd_ok d1 t1" "\<And>xs. push_some y xs = xs @ o1"
      unfolding Some a1 option.case prod.case by blast
    note lo = decode4_run [OF 1(2) bits8_nibbles(3) [of x]]
    show ?thesis
    proof (cases "hrun t1 ?lo")
      case None
      have "decode4 (x AND 0xf) d1 = Err InvalidHuffmanEncoding" using lo unfolding None option.case .
      then show ?thesis unfolding bits loop hrun_append Some None a1 option.case prod.case by (simp add: 1)
    next
      case Some': (Some a2)
      obtain o2 t2 where a2: "a2 = (o2, t2)" by fastforce
      from lo obtain z d2 where 2: "decode4 (x AND 0xf) d1 = Ok (z, d2)" "hd_ok d2 t2" "\<And>xs. push_some z xs = xs @ o2"
        unfolding Some' a2 option.case prod.case by blast
      have run: "hrun t (byte_bits (x # bs)) = map_option (\<lambda>(o3, t3). (o1 @ o2 @ o3, t3)) (hrun t2 (byte_bits bs))"
        unfolding bits hrun_append Some Some' a1 a2 option.case prod.case
        by (simp add: option.map_comp comp_def case_prod_unfold)
      have loop2: "huff_decode_loop d out b = huff_decode_loop d2 (out @ o1 @ o2) ?b"
        unfolding loop by (simp add: 1 2)
      from Cons.IH [OF 2(2) b', of "out @ o1 @ o2"] show ?thesis
        unfolding run loop2 by (auto split: option.splits)
    qed
  qed
qed

lemma huff_decode_eq:
  "huff_decode b = (case hrun HTREE (byte_bits (as_ref b)) of
      None \<Rightarrow> Err InvalidHuffmanEncoding
    | Some (out, t) \<Rightarrow> if ones_state (hstate t) then Ok out else Err InvalidHuffmanEncoding)"
  using huff_decode_loop_run [where b = b and out = "[]", OF hd_ok_new refl]
  by (auto simp: huff_decode_def hd_ok_def split: option.splits)

lemma huff_decode_Ok_iff:
  "huff_decode b = Ok out \<longleftrightarrow> (\<exists>k \<le> 7. byte_bits (as_ref b) = concat (map hbits out) @ replicate k True)"
  unfolding hrun_accepts [symmetric] by (auto simp: huff_decode_eq split: option.splits)

lemma huff_decode_bytes:
  assumes "as_ref b = huff_bytes src"
  shows "huff_decode b = Ok src"
proof -
  have "(8 - n mod 8) mod 8 \<le> (7 :: nat)" for n by (simp add: less_Suc_eq_le [symmetric])
  then show ?thesis unfolding huff_decode_Ok_iff assms byte_bits_huff padded_def by blast
qed

section \<open>Properties\<close>

text \<open>The encoder writes what the decoder reads back. In a buffer with room it writes the code words of the
  string padded with ones to whole bytes, as many bytes as \<open>encode_output_length\<close> announces; otherwise
  it reports that the buffer is too short. Decoding the bytes written gives the string.\<close>

theorem huffman_roundtrip:
  assumes "octets_ok out"
  shows "if cap out < encode_output_length src then huff_encode src out = Err QBufferTooShort
    else \<exists>out'. huff_encode src out = Ok out' \<and> off out' = off out + encode_output_length src
      \<and> length (buf out') = length (buf out)
      \<and> huff_decode (with_slice (take (encode_output_length src) (drop (off out) (buf out')))) = Ok src"
proof (cases "cap out < encode_output_length src")
  case False
  let ?e = "huff_bytes src"
  have "take (length ?e) (drop (off out) (buf (wr ?e out))) = ?e"
    using assms False by (simp add: wr_def octets_ok_def encode_output_length_eq)
  moreover have "huff_decode (with_slice ?e) = Ok src" by (rule huff_decode_bytes) (simp add: as_ref_with_slice)
  ultimately show ?thesis
    using writesD [OF writes_huff assms, of src] False assms by (auto simp: encode_output_length_eq length_buf_wr)
qed (use writesD [OF writes_huff assms, of src] in \<open>simp add: encode_output_length_eq\<close>)

lemma huffman_roundtrip_witness: "\<exists>out'. huff_encode [0x2f] (with_slice [0]) = Ok out' \<and> off out' = 1"
proof -
  have "encode_output_length [0x2f] = 1"
    by (simp add: encode_output_length_def ENCODE_TABLE_def nth_append length_ENCODE ENCODE_TABLE_0_def)
  with huffman_roundtrip [of "with_slice [0]" "[0x2f]"] show ?thesis by (auto simp: cap_def with_slice_def octets_ok_def)
qed

text \<open>C25. The decoder accepts exactly the encodings. The automaton of 256 states returns a string if and only if
  the bits of the input are its code words followed by at most seven ones, and reports an invalid
  encoding for every other input; it never indexes outside its table.\<close>

theorem huffman_decode_exact:
  "(huff_decode b = Ok out \<longleftrightarrow> (\<exists>k. k \<le> 7 \<and> byte_bits (as_ref b) = concat (map hbits out) @ replicate k True))
    \<and> (huff_decode b = Err InvalidHuffmanEncoding
        \<longleftrightarrow> \<not> (\<exists>src k. k \<le> 7 \<and> byte_bits (as_ref b) = concat (map hbits src) @ replicate k True))"
proof -
  have "huff_decode b = Err InvalidHuffmanEncoding \<longleftrightarrow> \<not> (\<exists>src. huff_decode b = Ok src)"
    by (auto simp: huff_decode_eq split: option.splits)
  then show ?thesis unfolding huff_decode_Ok_iff by blast
qed

end
