(* ===== verification/Qpack.thy ===== *)
theory Qpack
  imports Huffman
begin

text \<open>
  QPACK (\<open>src/h3/qpack/\<close>): the encoder of \<open>encoder.rs\<close> and the decoder of \<open>decoder.rs\<close>, which use the static
  table only. A Rust string is the \<open>string\<close> of its UTF-8 bytes, and \<open>String::from_utf8\<close> checks that they are
  well-formed. \<open>Header::new\<close> lower-cases the name with \<open>str::to_lowercase\<close>, which depends on the Unicode tables of the
  standard library: it is the parameter \<open>lower\<close>.
\<close>

section \<open>Strings and headers\<close>

definition as_bytes :: "string \<Rightarrow> u8 list" where
  "as_bytes s = map (\<lambda>c. of_nat (of_char c)) s"

definition of_bytes :: "u8 list \<Rightarrow> string" where
  "of_bytes bs = map (\<lambda>b. char_of (unat b)) bs"

text \<open>The well-formed byte sequences of UTF-8: \<open>cont n lo hi\<close> are the continuation bytes still to come and the
  range of the next one.\<close>

fun utf8_tail :: "nat \<Rightarrow> u8 \<Rightarrow> u8 \<Rightarrow> u8 list \<Rightarrow> bool" where
  "utf8_tail 0 lo hi [] = True"
| "utf8_tail 0 lo hi (b # bs) =
     (if b < 0x80 then utf8_tail 0 lo hi bs
      else if 0xc2 \<le> b \<and> b \<le> 0xdf then utf8_tail 1 0x80 0xbf bs
      else if b = 0xe0 then utf8_tail 2 0xa0 0xbf bs
      else if b = 0xed then utf8_tail 2 0x80 0x9f bs
      else if 0xe1 \<le> b \<and> b \<le> 0xef then utf8_tail 2 0x80 0xbf bs
      else if b = 0xf0 then utf8_tail 3 0x90 0xbf bs
      else if 0xf1 \<le> b \<and> b \<le> 0xf3 then utf8_tail 3 0x80 0xbf bs
      else if b = 0xf4 then utf8_tail 3 0x80 0x8f bs
      else False)"
| "utf8_tail (Suc n) lo hi [] = False"
| "utf8_tail (Suc n) lo hi (b # bs) = (lo \<le> b \<and> b \<le> hi \<and> utf8_tail n 0x80 0xbf bs)"

definition utf8_valid :: "u8 list \<Rightarrow> bool" where
  "utf8_valid = utf8_tail 0 0 0"

definition string_from_utf8 :: "u8 list \<Rightarrow> string qresult" where
  "string_from_utf8 bs = (if utf8_valid bs then Ok (of_bytes bs) else Err InvalidHeaderValue)"

datatype h3_header = Header string string

definition header_new :: "(string \<Rightarrow> string) \<Rightarrow> string \<Rightarrow> string \<Rightarrow> h3_header" where
  "header_new lower name v = Header (lower name) v"

section \<open>Representations\<close>

definition INDEXED :: u8 where "INDEXED = 0x80"
definition INDEXED_WITH_POST_BASE :: u8 where "INDEXED_WITH_POST_BASE = 0x10"
definition LITERAL :: u8 where "LITERAL = 0x20"
definition LITERAL_WITH_NAME_REF :: u8 where "LITERAL_WITH_NAME_REF = 0x40"

datatype representation = Indexed | IndexedWithPostBase | Literal | LiteralWithNameRef | LiteralWithPostBase

definition representation_from_byte :: "u8 \<Rightarrow> representation" where
  "representation_from_byte b =
     (if b AND INDEXED = INDEXED then Indexed
      else if b AND LITERAL_WITH_NAME_REF = LITERAL_WITH_NAME_REF then LiteralWithNameRef
      else if b AND LITERAL = LITERAL then Literal
      else if b AND INDEXED_WITH_POST_BASE = INDEXED_WITH_POST_BASE then IndexedWithPostBase
      else LiteralWithPostBase)"

section \<open>The encoder\<close>

text \<open>The arms of \<open>lookup_static\<close>, in order: name, value (\<open>None\<close> for any), index, and whether the value matches
  too.\<close>

definition static_arms_exact :: "(string \<times> string option \<times> u64 \<times> bool) list" where
  "static_arms_exact = [
   ('':authority'', None, 0, False), ('':path'', Some ''/'', 1, True), (''age'', Some ''0'', 2, True),
   (''content-disposition'', None, 3, False), (''content-length'', Some ''0'', 4, True),
   (''cookie'', None, 5, False), (''date'', None, 6, False), (''etag'', None, 7, False),
   (''if-modified-since'', None, 8, False), (''if-none-match'', None, 9, False),
   (''last-modified'', None, 10, False), (''link'', None, 11, False), (''location'', None, 12, False),
   (''referer'', None, 13, False), (''set-cookie'', None, 14, False),
   ('':method'', Some ''CONNECT'', 15, True), ('':method'', Some ''DELETE'', 16, True),
   ('':method'', Some ''GET'', 17, True), ('':method'', Some ''HEAD'', 18, True),
   ('':method'', Some ''OPTIONS'', 19, True), ('':method'', Some ''POST'', 20, True),
   ('':method'', Some ''PUT'', 21, True), ('':scheme'', Some ''http'', 22, True),
   ('':scheme'', Some ''https'', 23, True), ('':status'', Some ''103'', 24, True),
   ('':status'', Some ''200'', 25, True), ('':status'', Some ''304'', 26, True),
   ('':status'', Some ''404'', 27, True), ('':status'', Some ''503'', 28, True),
   (''accept'', Some ''*/*'', 29, True), (''accept'', Some ''application/dns-message'', 30, True),
   (''accept-encoding'', Some ''gzip, deflate, br'', 31, True),
   (''accept-ranges'', Some ''bytes'', 32, True),
   (''access-control-allow-headers'', Some ''cache-control'', 33, True),
   (''access-control-allow-headers'', Some ''content-type'', 34, True),
   (''access-control-allow-origin'', Some ''*'', 35, True),
   (''cache-control'', Some ''max-age=0'', 36, True),
   (''cache-control'', Some ''max-age=2592000'', 37, True),
   (''cache-control'', Some ''max-age=604800'', 38, True),
   (''cache-control'', Some ''no-cache'', 39, True), (''cache-control'', Some ''no-store'', 40, True),
   (''cache-control'', Some ''public, max-age=31536000'', 41, True),
   (''content-encoding'', Some ''br'', 42, True), (''content-encoding'', Some ''gzip'', 43, True),
   (''content-type'', Some ''application/dns-message'', 44, True),
   (''content-type'', Some ''application/javascript'', 45, True),
   (''content-type'', Some ''application/json'', 46, True),
   (''content-type'', Some ''application/x-www-form-urlencoded'', 47, True),
   (''content-type'', Some ''image/gif'', 48, True), (''content-type'', Some ''image/jpeg'', 49, True),
   (''content-type'', Some ''image/png'', 50, True), (''content-type'', Some ''text/css'', 51, True),
   (''content-type'', Some ''text/html; charset=utf-8'', 52, True),
   (''content-type'', Some ''text/plain'', 53, True),
   (''content-type'', Some ''text/plain;charset=utf-8'', 54, True),
   (''range'', Some ''bytes=0-'', 55, True),
   (''strict-transport-security'', Some ''max-age=31536000'', 56, True),
   (''strict-transport-security'', Some ''max-age=31536000; includesubdomains'', 57, True),
   (''strict-transport-security'', Some ''max-age=31536000; includesubdomains; preload'', 58, True),
   (''vary'', Some ''accept-encoding'', 59, True), (''vary'', Some ''origin'', 60, True),
   (''x-content-type-options'', Some ''nosniff'', 61, True),
   (''x-xss-protection'', Some ''1; mode=block'', 62, True), ('':status'', Some ''100'', 63, True),
   ('':status'', Some ''204'', 64, True), ('':status'', Some ''206'', 65, True),
   ('':status'', Some ''302'', 66, True), ('':status'', Some ''400'', 67, True),
   ('':status'', Some ''403'', 68, True), ('':status'', Some ''421'', 69, True),
   ('':status'', Some ''425'', 70, True), ('':status'', Some ''500'', 71, True),
   (''accept-language'', None, 72, False),
   (''access-control-allow-credentials'', Some ''FALSE'', 73, True),
   (''access-control-allow-credentials'', Some ''TRUE'', 74, True),
   (''access-control-allow-headers'', Some ''*'', 75, True),
   (''access-control-allow-methods'', Some ''get'', 76, True),
   (''access-control-allow-methods'', Some ''get, post, options'', 77, True),
   (''access-control-allow-methods'', Some ''options'', 78, True),
   (''access-control-expose-headers'', Some ''content-length'', 79, True),
   (''access-control-request-headers'', Some ''content-type'', 80, True),
   (''access-control-request-method'', Some ''get'', 81, True),
   (''access-control-request-method'', Some ''post'', 82, True), (''alt-svc'', Some ''clear'', 83, True),
   (''authorization'', None, 84, False),
   (''content-security-policy'', Some (''script-src 'none'; object-src 'none'; base-uri 'none'' @ [CHR 0x27]), 85, True),
   (''early-data'', Some ''1'', 86, True), (''expect-ct'', None, 87, False),
   (''forwarded'', None, 88, False), (''if-range'', None, 89, False), (''origin'', None, 90, False),
   (''purpose'', Some ''prefetch'', 91, True), (''server'', None, 92, False),
   (''timing-allow-origin'', Some ''*'', 93, True), (''upgrade-insecure-requests'', Some ''1'', 94, True),
   (''user-agent'', None, 95, False), (''x-forwarded-for'', None, 96, False),
   (''x-frame-options'', Some ''deny'', 97, True), (''x-frame-options'', Some ''sameorigin'', 98, True)]"

definition static_arms_name :: "(string \<times> string option \<times> u64 \<times> bool) list" where
  "static_arms_name = [
   ('':path'', None, 1, False), (''age'', None, 2, False), (''content-length'', None, 4, False),
   ('':method'', None, 15, False), ('':scheme'', None, 22, False), ('':status'', None, 24, False),
   (''accept'', None, 29, False), (''accept-encoding'', None, 31, False),
   (''accept-ranges'', None, 32, False), (''access-control-allow-headers'', None, 33, False),
   (''access-control-allow-origin'', None, 35, False), (''cache-control'', None, 36, False),
   (''content-encoding'', None, 42, False), (''content-type'', None, 44, False),
   (''range'', None, 55, False), (''strict-transport-security'', None, 56, False),
   (''vary'', None, 59, False), (''x-content-type-options'', None, 61, False),
   (''x-xss-protection'', None, 62, False), (''access-control-allow-credentials'', None, 73, False),
   (''access-control-allow-methods'', None, 76, False),
   (''access-control-expose-headers'', None, 79, False),
   (''access-control-request-headers'', None, 80, False),
   (''access-control-request-method'', None, 81, False), (''alt-svc'', None, 83, False),
   (''content-security-policy'', None, 85, False), (''early-data'', None, 86, False),
   (''purpose'', None, 91, False), (''timing-allow-origin'', None, 93, False),
   (''upgrade-insecure-requests'', None, 94, False), (''x-frame-options'', None, 97, False)]"

fun first_arm :: "(string \<times> string option \<times> u64 \<times> bool) list \<Rightarrow> string \<Rightarrow> string \<Rightarrow> (u64 \<times> bool) option" where
  "first_arm [] name v = None"
| "first_arm ((n, p, idx, full) # arms) name v =
     (if name = n \<and> (p = None \<or> p = Some v) then Some (idx, full) else first_arm arms name v)"

fun lookup_static :: "h3_header \<Rightarrow> (u64 \<times> bool) option" where
  "lookup_static (Header name v) = first_arm (static_arms_exact @ static_arms_name) name v"

lemma unat_drop_bit_7: "unat (drop_bit 7 (v :: u64)) = unat v div 128"
  using unat_u64 [of v] by (simp only: unsigned_drop_bit_eq) (simp add: drop_bit_eq_div take_bit_nat_eq_self)

function encode_int_loop :: "u64 \<Rightarrow> octets \<Rightarrow> octets qresult" where
  "encode_int_loop v b =
     (if v \<ge> 128
      then bnd (of_short (put_u8 (ucast (v mod 128 + 128)) b)) (\<lambda>b. encode_int_loop (drop_bit 7 v) b)
      else of_short (put_u8 (ucast v) b))"
  by pat_completeness auto
termination
proof (relation "measure (\<lambda>(v, b). unat v)")
  fix v :: u64 and b :: octets and x assume "v \<ge> 128"
  then have "unat v div 128 < unat v" by (auto simp: word_le_nat_alt)
  moreover have "unat (drop_bit 7 v) = unat v div 128" by (rule unat_drop_bit_7)
  ultimately show "((drop_bit 7 v, x), v, b) \<in> measure (\<lambda>(v, b). unat v)" by simp
qed simp

declare encode_int_loop.simps [simp del]

definition int_mask :: "nat \<Rightarrow> u64" where
  "int_mask prefix = 2 ^ prefix - 1"

definition encode_int :: "u64 \<Rightarrow> u8 \<Rightarrow> nat \<Rightarrow> octets \<Rightarrow> octets qresult" where
  "encode_int v first prefix b =
     (let mask = int_mask prefix in
      if v < mask then of_short (put_u8 (first OR ucast v) b)
      else bnd (of_short (put_u8 (first OR ucast mask) b)) (\<lambda>b. encode_int_loop (v - mask) b))"

definition encode_str :: "string \<Rightarrow> nat \<Rightarrow> octets \<Rightarrow> octets qresult" where
  "encode_str v prefix b =
     bnd (encode_int (of_nat (encode_output_length (as_bytes v))) 0x80 prefix b) (\<lambda>b.
     huff_encode (as_bytes v) b)"

fun encode_header :: "h3_header \<Rightarrow> octets \<Rightarrow> octets qresult" where
  "encode_header (Header name v) b =
     (case lookup_static (Header name v) of
        Some (idx, True) \<Rightarrow> encode_int idx (INDEXED OR 0x40) 6 b
      | Some (idx, False) \<Rightarrow>
          bnd (encode_int idx (LITERAL_WITH_NAME_REF OR 0x10) 4 b) (\<lambda>b. encode_str v 7 b)
      | None \<Rightarrow>
          bnd (encode_int (of_nat (encode_output_length (as_bytes name))) (LITERAL OR 0x08) 3 b) (\<lambda>b.
          bnd (huff_encode (as_bytes name) b) (\<lambda>b.
          encode_str v 7 b)))"

fun encode_headers :: "h3_header list \<Rightarrow> octets \<Rightarrow> octets qresult" where
  "encode_headers [] b = Ok b"
| "encode_headers (h # hs) b = bnd (encode_header h b) (\<lambda>b. encode_headers hs b)"

text \<open>The slice is written in place: the result is the number of bytes with the slice.\<close>

definition qpack_encode :: "h3_header list \<Rightarrow> u8 list \<Rightarrow> (nat \<times> u8 list) qresult" where
  "qpack_encode headers out =
     bnd (encode_int 0 0 8 (with_slice out)) (\<lambda>b.
     bnd (encode_int 0 0 7 b) (\<lambda>b.
     bnd (encode_headers headers b) (\<lambda>b. Ok (off b, buf b))))"

section \<open>The decoder\<close>

definition static_table :: "(string \<times> string) list" where
  "static_table = [
   ('':authority'', ''''), ('':path'', ''/''), (''age'', ''0''), (''content-disposition'', ''''),
   (''content-length'', ''0''), (''cookie'', ''''), (''date'', ''''), (''etag'', ''''),
   (''if-modified-since'', ''''), (''if-none-match'', ''''), (''last-modified'', ''''), (''link'', ''''),
   (''location'', ''''), (''referer'', ''''), (''set-cookie'', ''''), ('':method'', ''CONNECT''),
   ('':method'', ''DELETE''), ('':method'', ''GET''), ('':method'', ''HEAD''), ('':method'', ''OPTIONS''),
   ('':method'', ''POST''), ('':method'', ''PUT''), ('':scheme'', ''http''), ('':scheme'', ''https''),
   ('':status'', ''103''), ('':status'', ''200''), ('':status'', ''304''), ('':status'', ''404''),
   ('':status'', ''503''), (''accept'', ''*/*''), (''accept'', ''application/dns-message''),
   (''accept-encoding'', ''gzip, deflate, br''), (''accept-ranges'', ''bytes''),
   (''access-control-allow-headers'', ''cache-control''),
   (''access-control-allow-headers'', ''content-type''), (''access-control-allow-origin'', ''*''),
   (''cache-control'', ''max-age=0''), (''cache-control'', ''max-age=2592000''),
   (''cache-control'', ''max-age=604800''), (''cache-control'', ''no-cache''),
   (''cache-control'', ''no-store''), (''cache-control'', ''public, max-age=31536000''),
   (''content-encoding'', ''br''), (''content-encoding'', ''gzip''),
   (''content-type'', ''application/dns-message''), (''content-type'', ''application/javascript''),
   (''content-type'', ''application/json''), (''content-type'', ''application/x-www-form-urlencoded''),
   (''content-type'', ''image/gif''), (''content-type'', ''image/jpeg''),
   (''content-type'', ''image/png''), (''content-type'', ''text/css''),
   (''content-type'', ''text/html; charset=utf-8''), (''content-type'', ''text/plain''),
   (''content-type'', ''text/plain;charset=utf-8''), (''range'', ''bytes=0-''),
   (''strict-transport-security'', ''max-age=31536000''),
   (''strict-transport-security'', ''max-age=31536000; includesubdomains''),
   (''strict-transport-security'', ''max-age=31536000; includesubdomains; preload''),
   (''vary'', ''accept-encoding''), (''vary'', ''origin''), (''x-content-type-options'', ''nosniff''),
   (''x-xss-protection'', ''1; mode=block''), ('':status'', ''100''), ('':status'', ''204''),
   ('':status'', ''206''), ('':status'', ''302''), ('':status'', ''400''), ('':status'', ''403''),
   ('':status'', ''421''), ('':status'', ''425''), ('':status'', ''500''), (''accept-language'', ''''),
   (''access-control-allow-credentials'', ''FALSE''), (''access-control-allow-credentials'', ''TRUE''),
   (''access-control-allow-headers'', ''*''), (''access-control-allow-methods'', ''get''),
   (''access-control-allow-methods'', ''get, post, options''),
   (''access-control-allow-methods'', ''options''),
   (''access-control-expose-headers'', ''content-length''),
   (''access-control-request-headers'', ''content-type''), (''access-control-request-method'', ''get''),
   (''access-control-request-method'', ''post''), (''alt-svc'', ''clear''), (''authorization'', ''''),
   (''content-security-policy'', ''script-src 'none'; object-src 'none'; base-uri 'none'' @ [CHR 0x27]),
   (''early-data'', ''1''), (''expect-ct'', ''''), (''forwarded'', ''''), (''if-range'', ''''),
   (''origin'', ''''), (''purpose'', ''prefetch''), (''server'', ''''), (''timing-allow-origin'', ''*''),
   (''upgrade-insecure-requests'', ''1''), (''user-agent'', ''''), (''x-forwarded-for'', ''''),
   (''x-frame-options'', ''deny''), (''x-frame-options'', ''sameorigin'')]"

definition lookup_static_index :: "u64 \<Rightarrow> (string \<times> string) qresult" where
  "lookup_static_index idx =
     (if unat idx < length static_table then Ok (static_table ! unat idx) else Err InvalidStaticTableIndex)"

text \<open>\<open>checked_shl\<close> only fails for a shift of 64 and more; bits shifted out are lost.\<close>

function decode_int_loop :: "u64 \<Rightarrow> nat \<Rightarrow> octets \<Rightarrow> (u64 \<times> octets) qresult" where
  "decode_int_loop val shift b =
     (if cap b > 0 then
        bnd (of_short (get_u8 b)) (\<lambda>(byte, b).
        if shift \<ge> 64 then Err QBufferTooShort
        else
          let inc = push_bit shift (ucast (byte AND 0x7f)) in
          if unat val + unat inc \<ge> 2 ^ 64 then Err QBufferTooShort
          else if byte AND 0x80 = 0 then Ok (val + inc, b)
          else decode_int_loop (val + inc) (shift + 7) b)
      else Err QBufferTooShort)"
  by pat_completeness auto
termination
  by (relation "measure (\<lambda>(val, shift, b). cap b)") (auto simp: of_short_def dest: u8c.get_cap_less)

declare decode_int_loop.simps [simp del]

definition decode_int :: "nat \<Rightarrow> octets \<Rightarrow> (u64 \<times> octets) qresult" where
  "decode_int prefix b =
     bnd (of_short (get_u8 b)) (\<lambda>(first, b).
     let mask = int_mask prefix; val = ucast first AND mask in
     if val < mask then Ok (val, b) else decode_int_loop val 0 b)"

definition decode_huff_or_raw :: "bool \<Rightarrow> octets \<Rightarrow> u8 list qresult" where
  "decode_huff_or_raw huff v = (if huff then huff_decode v else Ok (as_ref v))"

definition decode_str :: "octets \<Rightarrow> (string \<times> octets) qresult" where
  "decode_str b =
     bnd (of_short (peek_u8 b)) (\<lambda>first.
     bnd (decode_int 7 b) (\<lambda>(len, b).
     bnd (of_short (get_bytes (unat len) b)) (\<lambda>(v, b).
     bnd (decode_huff_or_raw (first AND 0x80 = 0x80) v) (\<lambda>v.
     bnd (string_from_utf8 v) (\<lambda>v. Ok (v, b))))))"

definition use_space :: "string \<Rightarrow> string \<Rightarrow> u64 \<Rightarrow> u64 qresult" where
  "use_space name v left =
     (let n = of_nat (length name + length v) in
      if n \<le> left then Ok (left - n) else Err HeaderListTooLarge)"

definition decode_literal_name :: "octets \<Rightarrow> (string \<times> octets) qresult" where
  "decode_literal_name b =
     bnd (case as_ref b of [] \<Rightarrow> Panic | x # _ \<Rightarrow> Ok (x AND 0x08 = 0x08)) (\<lambda>name_huff.
     bnd (decode_int 3 b) (\<lambda>(name_len, b).
     bnd (of_short (get_bytes (unat name_len) b)) (\<lambda>(name, b).
     bnd (decode_huff_or_raw name_huff name) (\<lambda>name.
     bnd (string_from_utf8 name) (\<lambda>name. Ok (name, b))))))"

text \<open>The arms of the loop in \<open>Decoder::decode\<close>, with the space left for the h3_header list.\<close>

definition decode_indexed :: "(string \<Rightarrow> string) \<Rightarrow> u64 \<Rightarrow> u8 \<Rightarrow> octets \<Rightarrow> ((h3_header \<times> u64) \<times> octets) qresult" where
  "decode_indexed lower left first b =
     bnd (decode_int 6 b) (\<lambda>(index, b).
     if first AND 0x40 \<noteq> 0x40 then Err InvalidHeaderValue
     else bnd (lookup_static_index index) (\<lambda>(name, v).
          bnd (use_space name v left) (\<lambda>left. Ok ((header_new lower name v, left), b))))"

definition decode_literal :: "(string \<Rightarrow> string) \<Rightarrow> u64 \<Rightarrow> octets \<Rightarrow> ((h3_header \<times> u64) \<times> octets) qresult" where
  "decode_literal lower left b =
     bnd (decode_literal_name b) (\<lambda>(name, b).
     bnd (decode_str b) (\<lambda>(v, b).
     bnd (use_space name v left) (\<lambda>left. Ok ((header_new lower name v, left), b))))"

definition decode_name_ref :: "(string \<Rightarrow> string) \<Rightarrow> u64 \<Rightarrow> u8 \<Rightarrow> octets \<Rightarrow> ((h3_header \<times> u64) \<times> octets) qresult" where
  "decode_name_ref lower left first b =
     bnd (decode_int 4 b) (\<lambda>(name_idx, b).
     bnd (decode_str b) (\<lambda>(v, b).
     if first AND 0x10 \<noteq> 0x10 then Err InvalidHeaderValue
     else bnd (lookup_static_index name_idx) (\<lambda>(name, _).
          bnd (use_space name v left) (\<lambda>left. Ok ((header_new lower name v, left), b)))))"

definition decode_field :: "(string \<Rightarrow> string) \<Rightarrow> u64 \<Rightarrow> octets \<Rightarrow> ((h3_header \<times> u64) \<times> octets) qresult" where
  "decode_field lower left b =
     bnd (of_short (peek_u8 b)) (\<lambda>first.
     case representation_from_byte first of
       Indexed \<Rightarrow> decode_indexed lower left first b
     | IndexedWithPostBase \<Rightarrow> bnd (decode_int 4 b) (\<lambda>_. Err InvalidHeaderValue)
     | Literal \<Rightarrow> decode_literal lower left b
     | LiteralWithNameRef \<Rightarrow> decode_name_ref lower left first b
     | LiteralWithPostBase \<Rightarrow> Err InvalidHeaderValue)"

text \<open>Every part of a header block moves the buffer on, by \<open>k\<close> bytes at least, so the loop over it ends.\<close>

definition moves :: "nat \<Rightarrow> octets \<Rightarrow> ('e, 'a \<times> octets) res \<Rightarrow> bool" where
  "moves k b r \<longleftrightarrow> r \<noteq> Panic \<and> (\<forall>x b'. r = Ok (x, b') \<longrightarrow> (\<exists>n. k \<le> n \<and> n \<le> cap b \<and> b' = advance n b))"

lemma moves_bnd: "moves k b r \<Longrightarrow> (\<And>x b. moves 0 b (q x b)) \<Longrightarrow> moves k b (bnd r (\<lambda>(x, b). q x b))"
proof -
  assume r: "moves k b r" and q: "\<And>x b. moves 0 b (q x b)"
  show ?thesis
  proof (cases r)
    case (Ok a)
    obtain x b1 where a: "a = (x, b1)" by fastforce
    with r Ok obtain n where n: "k \<le> n" "n \<le> cap b" "b1 = advance n b" by (auto simp: moves_def)
    show ?thesis unfolding moves_def
    proof (intro conjI allI impI)
      show "bnd r (\<lambda>(x, b). q x b) \<noteq> Panic" using q [where x = x and b = b1] by (simp add: Ok a moves_def)
      fix y b' assume "bnd r (\<lambda>(x, b). q x b) = Ok (y, b')"
      then have "q x b1 = Ok (y, b')" by (simp add: Ok a)
      with q [where x = x and b = b1] obtain m where m: "m \<le> cap b1" "b' = advance m b1"
        by (auto simp: moves_def)
      then show "\<exists>n. k \<le> n \<and> n \<le> cap b \<and> b' = advance n b"
        using n by (intro exI [of _ "n + m"]) (auto simp: cap_def)
    qed
  qed (use r in \<open>auto simp: moves_def\<close>)
qed

lemma moves_pure: "m \<noteq> Panic \<Longrightarrow> (\<And>x. m = Ok x \<Longrightarrow> moves k b (q x)) \<Longrightarrow> moves k b (bnd m q)"
  by (cases m) (auto simp: moves_def)

lemma moves_Ok: "moves 0 b (Ok (x, b))"
  unfolding moves_def by (auto intro: exI [of _ 0])

lemma moves_Err: "moves k b (Err e)"
  by (simp add: moves_def)

lemma moves_le: "moves k b r \<Longrightarrow> j \<le> k \<Longrightarrow> moves j b r"
  unfolding moves_def using order_trans by metis

lemma moves_get_u8: "moves 1 b (of_short (get_u8 b))"
  unfolding moves_def of_short_def using u8c.get_advance u8c.get_no_panic by (fastforce simp: Suc_le_eq)

lemma moves_get_bytes: "moves 0 b (of_short (get_bytes n b))"
  unfolding moves_def of_short_def using get_bytes_advance get_bytes_no_panic by fastforce

lemma peek_no_Panic: "of_short (peek_u8 b) \<noteq> Panic"
  by (simp add: of_short_def peek_u8_def peek_u_def Let_def)

lemma moves_int_loop: "moves 0 b (decode_int_loop val shift b)"
proof (induction val shift b rule: decode_int_loop.induct)
  case (1 val shift b)
  let ?k = "\<lambda>(byte, b). if shift \<ge> 64 then Err QBufferTooShort
        else let inc = push_bit shift (ucast (byte AND 0x7f)) in
          if unat val + unat inc \<ge> 2 ^ 64 then Err QBufferTooShort
          else if byte AND 0x80 = 0 then Ok (val + inc, b)
          else decode_int_loop (val + inc) (shift + 7) b"
  show ?case
  proof (cases "cap b > 0 \<and> (\<exists>x. of_short (get_u8 b) = Ok x)")
    case True
    then obtain byte b1 where g: "of_short (get_u8 b) = Ok (byte, b1)" by fastforce
    let ?inc = "push_bit shift (ucast (byte AND 0x7f)) :: u64"
    have "moves 0 b1 (?k (byte, b1))"
      using "1.IH" [OF conjunct1 [OF True] g refl] by (auto simp: Let_def moves_Ok moves_Err not_le)
    then have "moves 0 b (bnd (Ok (byte, b1)) (\<lambda>(x, b). if b = b1 \<and> x = byte then ?k (x, b) else Err QBufferTooShort))"
      by (intro moves_bnd) (use moves_le [OF moves_get_u8 [of b]] g in \<open>auto simp: moves_Err\<close>)
    then show ?thesis using True g by (simp add: decode_int_loop.simps [of val shift b])
  next
    case False
    then show ?thesis using moves_get_u8 [of b]
      by (cases "of_short (get_u8 b)") (auto simp: decode_int_loop.simps [of val shift b] moves_def)
  qed
qed

lemma moves_decode_int: "moves 1 b (decode_int prefix b)"
  unfolding decode_int_def Let_def
  by (intro moves_bnd moves_get_u8) (simp add: moves_Ok moves_int_loop)

lemma huff_decode_no_Panic: "huff_decode b \<noteq> Panic"
  by (simp add: huff_decode_eq split: option.split)

lemma moves_decode_str: "moves 0 b (decode_str b)"
  unfolding decode_str_def
  by (intro moves_pure moves_bnd peek_no_Panic moves_le [OF moves_decode_int] moves_get_bytes moves_Ok)
    (auto simp: decode_huff_or_raw_def string_from_utf8_def huff_decode_no_Panic)

lemma moves_literal_name: "as_ref b \<noteq> [] \<Longrightarrow> moves 1 b (decode_literal_name b)"
  unfolding decode_literal_name_def
  by (intro moves_pure moves_bnd moves_decode_int moves_get_bytes moves_Ok)
    (auto simp: decode_huff_or_raw_def string_from_utf8_def huff_decode_no_Panic split: list.split)

lemma use_space_no_Panic: "use_space name v left \<noteq> Panic"
  by (simp add: use_space_def Let_def)

lemma lookup_static_index_no_Panic: "lookup_static_index i \<noteq> Panic"
  by (simp add: lookup_static_index_def)

lemma moves_space: "moves 0 b (bnd (use_space name v left) (\<lambda>left. Ok ((f left, left), b)))"
  by (intro moves_pure moves_Ok) (simp_all add: use_space_def Let_def)

lemma moves_lookup:
  "(\<And>name v. moves 0 b (q name v)) \<Longrightarrow> moves 0 b (bnd (lookup_static_index i) (\<lambda>(name, v). q name v))"
  by (rule moves_pure) (auto simp: lookup_static_index_def)

lemma moves_decode_indexed: "moves 1 b (decode_indexed lower left first b)"
  unfolding decode_indexed_def
  by (rule moves_bnd [OF moves_decode_int]) (simp add: moves_Err moves_lookup moves_space)

lemma moves_decode_literal: "as_ref b \<noteq> [] \<Longrightarrow> moves 1 b (decode_literal lower left b)"
  unfolding decode_literal_def
  by (rule moves_bnd [OF moves_literal_name moves_bnd [OF moves_decode_str moves_space]])

lemma moves_decode_name_ref: "moves 1 b (decode_name_ref lower left first b)"
  unfolding decode_name_ref_def
  by (rule moves_bnd [OF moves_decode_int], rule moves_bnd [OF moves_decode_str])
    (simp add: moves_Err moves_lookup moves_space)

lemma moves_decode_field: "moves 1 b (decode_field lower left b)"
  unfolding decode_field_def
proof (rule moves_pure [OF peek_no_Panic])
  fix first assume "of_short (peek_u8 b) = Ok first"
  then have "as_ref b \<noteq> []"
    by (auto simp: of_short_def peek_u8_def peek_u_def Let_def as_ref_def split: if_splits)
  moreover have "moves 1 b (bnd (decode_int 4 b) (\<lambda>_. Err InvalidHeaderValue))"
    using moves_decode_int [of b 4] by (simp add: moves_def bnd_Panic_iff)
  ultimately show "moves 1 b (case representation_from_byte first of
       Indexed \<Rightarrow> decode_indexed lower left first b
     | IndexedWithPostBase \<Rightarrow> bnd (decode_int 4 b) (\<lambda>_. Err InvalidHeaderValue)
     | Literal \<Rightarrow> decode_literal lower left b
     | LiteralWithNameRef \<Rightarrow> decode_name_ref lower left first b
     | LiteralWithPostBase \<Rightarrow> Err InvalidHeaderValue)"
    by (auto simp: moves_decode_indexed [unfolded One_nat_def] moves_decode_literal [unfolded One_nat_def]
      moves_decode_name_ref [unfolded One_nat_def] moves_Err split: representation.split)
qed

lemma decode_field_less: "decode_field lower left b = Ok (x, b') \<Longrightarrow> cap b' < cap b"
proof -
  assume "decode_field lower left b = Ok (x, b')"
  with moves_decode_field [of b lower left] obtain n where "1 \<le> n" "n \<le> cap b" "b' = advance n b"
    by (auto simp: moves_def)
  then show "cap b' < cap b" by (simp add: cap_def)
qed

function decode_headers :: "(string \<Rightarrow> string) \<Rightarrow> u64 \<Rightarrow> h3_header list \<Rightarrow> octets \<Rightarrow> h3_header list qresult" where
  "decode_headers lower left out b =
     (if cap b > 0 then
        bnd (decode_field lower left b) (\<lambda>(field, b).
        decode_headers lower (snd field) (out @ [fst field]) b)
      else Ok out)"
  by pat_completeness auto
termination
  by (relation "measure (\<lambda>(lower, left, out, b). cap b)") (auto dest: decode_field_less)

declare decode_headers.simps [simp del]

definition qpack_decode :: "(string \<Rightarrow> string) \<Rightarrow> u8 list \<Rightarrow> u64 \<Rightarrow> h3_header list qresult" where
  "qpack_decode lower block max_size =
     bnd (decode_int 8 (with_slice block)) (\<lambda>(req_insert_count, b).
     bnd (decode_int 7 b) (\<lambda>(base, b).
     decode_headers lower max_size [] b))"

section \<open>Prefixed integers\<close>

function qint_tail :: "u64 \<Rightarrow> u8 list" where
  "qint_tail v = (if v \<ge> 128 then ucast (v mod 128 + 128) # qint_tail (drop_bit 7 v) else [ucast v])"
  by pat_completeness auto
termination
proof (relation "measure unat")
  fix v :: u64 assume "v \<ge> 128"
  then have "unat v div 128 < unat v" by (auto simp: word_le_nat_alt)
  then show "(drop_bit 7 v, v) \<in> measure unat" by (simp add: unat_drop_bit_7)
qed simp

declare qint_tail.simps [simp del]

definition qint_enc :: "u64 \<Rightarrow> u8 \<Rightarrow> nat \<Rightarrow> u8 list" where
  "qint_enc v first prefix =
     (if v < int_mask prefix then [first OR ucast v]
      else (first OR ucast (int_mask prefix)) # qint_tail (v - int_mask prefix))"

lemma writes_byte: "writes_err QBufferTooShort [x] (\<lambda>b. of_short (put_u8 x b))"
  by (simp add: writes_err_def put_byte)

lemma writes_int_loop: "writes_err QBufferTooShort (qint_tail v) (encode_int_loop v)"
proof (induction v rule: qint_tail.induct)
  case (1 v)
  show ?case
  proof (cases "v \<ge> 128")
    case True
    have "writes_err QBufferTooShort ([ucast (v mod 128 + 128)] @ qint_tail (drop_bit 7 v))
        (\<lambda>b. bnd (of_short (put_u8 (ucast (v mod 128 + 128)) b)) (encode_int_loop (drop_bit 7 v)))"
      by (rule writes_bnd [OF writes_byte 1 [OF True]])
    moreover have "encode_int_loop v =
        (\<lambda>b. bnd (of_short (put_u8 (ucast (v mod 128 + 128)) b)) (encode_int_loop (drop_bit 7 v)))"
      using True by (simp add: fun_eq_iff encode_int_loop.simps [of v])
    ultimately show ?thesis using True by (simp add: qint_tail.simps [of v])
  next
    case False
    then have "encode_int_loop v = (\<lambda>b. of_short (put_u8 (ucast v) b))"
      by (simp add: fun_eq_iff encode_int_loop.simps [of v])
    with False writes_byte show ?thesis by (simp add: qint_tail.simps [of v])
  qed
qed

lemma writes_encode_int: "writes_err QBufferTooShort (qint_enc v first prefix) (encode_int v first prefix)"
proof (cases "v < int_mask prefix")
  case True
  then have "encode_int v first prefix = (\<lambda>b. of_short (put_u8 (first OR ucast v) b))"
    by (simp add: fun_eq_iff encode_int_def Let_def)
  with True writes_byte show ?thesis by (simp add: qint_enc_def)
next
  case False
  have "writes_err QBufferTooShort ([first OR ucast (int_mask prefix)] @ qint_tail (v - int_mask prefix))
      (\<lambda>b. bnd (of_short (put_u8 (first OR ucast (int_mask prefix)) b)) (encode_int_loop (v - int_mask prefix)))"
    by (rule writes_bnd [OF writes_byte writes_int_loop])
  moreover have "encode_int v first prefix =
      (\<lambda>b. bnd (of_short (put_u8 (first OR ucast (int_mask prefix)) b)) (encode_int_loop (v - int_mask prefix)))"
    using False by (simp add: fun_eq_iff encode_int_def Let_def)
  ultimately show ?thesis using False by (simp add: qint_enc_def)
qed

lemma get_byte: "as_ref b = x # r \<Longrightarrow> of_short (get_u8 b) = Ok (x, advance 1 b)"
  using u8c.get_enc [where v = x and b = b and r = r] by (simp add: of_short_def be_enc_u8 [unfolded One_nat_def])

lemma peek_byte: "as_ref b = x # r \<Longrightarrow> of_short (peek_u8 b) = Ok x"
  by (auto simp: of_short_def peek_u8_def peek_u_def as_ref_def Let_def be_nat_Cons be_nat_def)

lemma cap_Cons: "as_ref b = x # r \<Longrightarrow> 0 < cap b"
  by (metis length_as_ref length_greater_0_conv list.distinct(1))

lemma qint_byte: "unat (ucast (v mod 128 + 128 :: u64) :: u8) = unat v mod 128 + 128"
proof -
  have "unat (v mod 128 + 128) = unat v mod 128 + 128"
    by (subst unat_add64_less) (simp_all add: unat_mod)
  moreover have "unat v mod 128 + 128 < 256" by simp
  ultimately show ?thesis by (simp add: unsigned_ucast_eq take_bit_nat_eq_self)
qed

lemma u8_low7: "unat (x AND 0x7f :: u8) = unat x mod 128"
proof -
  have "x AND 0x7f = take_bit 7 x" using take_bit_eq_mask [of 7 x] by (simp add: mask_eq_exp_minus_1)
  then show ?thesis by (simp only: unsigned_take_bit_eq) (simp add: take_bit_eq_mod)
qed

lemma u8_top: "(x AND 0x80 :: u8) = 0 \<longleftrightarrow> unat x < 128"
proof -
  have "(x AND 0x80 = 0) = (\<not> bit x 7)"
    using and_exp_eq_0_iff_not_bit [of x 7] by simp
  also have "bit x 7 \<longleftrightarrow> bit (unat x) 7" by (simp add: bit_unsigned_iff)
  also have "bit (unat x) 7 \<longleftrightarrow> odd (unat x div 128)" by (simp add: bit_iff_odd)
  also have "\<not> odd (unat x div 128) \<longleftrightarrow> unat x < 128"
  proof -
    have "unat x div 128 < 2" using unat_u8 [of x] by (simp add: div_less_iff_less_mult)
    then show ?thesis by (cases "unat x div 128") (auto simp: div_eq_0_iff)
  qed
  finally show ?thesis by simp
qed

text \<open>Reading the continuation bytes back; nothing is shifted out as long as the result fits.\<close>

lemma shift_in:
  assumes "shift < 64" "unat w * 2 ^ shift < 2 ^ 64"
  shows "unat (push_bit shift (w :: u64)) = unat w * 2 ^ shift"
  using assms by (simp only: unsigned_push_bit_eq) (simp add: push_bit_eq_mult take_bit_nat_eq_self)

lemma decode_int_loop_tail:
  "as_ref b = qint_tail v @ r \<Longrightarrow> shift < 64 \<Longrightarrow> unat val + unat v * 2 ^ shift < 2 ^ 64 \<Longrightarrow>
   decode_int_loop val shift b = Ok (of_nat (unat val + unat v * 2 ^ shift), advance (length (qint_tail v)) b)"
proof (induction v arbitrary: val shift b rule: qint_tail.induct)
  case (1 v)
  show ?case
  proof (cases "v \<ge> 128")
    case True
    let ?x = "ucast (v mod 128 + 128) :: u8" and ?v = "drop_bit 7 v"
    let ?inc = "push_bit shift (ucast (?x AND 0x7f)) :: u64"
    have b: "as_ref b = ?x # qint_tail ?v @ r" using 1 True by (simp add: qint_tail.simps [of v])
    have v: "unat v = unat v mod 128 + unat ?v * 128" by (simp add: unat_drop_bit_7)
    have "unat v * 2 ^ shift = (unat v mod 128 + unat ?v * 128) * 2 ^ shift" using v by presburger
    then have total: "unat v * 2 ^ shift = unat v mod 128 * 2 ^ shift + unat ?v * 2 ^ (shift + 7)"
      by (simp add: add_mult_distrib power_add)
    have low: "unat (ucast (?x AND 0x7f) :: u64) = unat v mod 128"
      by (simp add: unat_ucast_up u8_low7 qint_byte)
    have inc: "unat ?inc = unat v mod 128 * 2 ^ shift"
      using shift_in [of shift "ucast (?x AND 0x7f)"] low total 1 by simp
    have "1 \<le> unat ?v" using True by (simp add: unat_drop_bit_7 word_le_nat_alt)
    then have "2 ^ (shift + 7) \<le> unat ?v * 2 ^ (shift + 7)" by simp
    also have "\<dots> < 2 ^ 64" using total 1 by linarith
    finally have shift: "shift + 7 < 64" by (rule power_less_imp_less_exp [rotated]) simp
    have val: "unat (val + ?inc) = unat val + unat ?inc" using inc total 1 by (intro unat_add64_less) linarith
    have "decode_int_loop val shift b = decode_int_loop (val + ?inc) (shift + 7) (advance 1 b)"
      using get_byte [OF b] cap_Cons [OF b] 1 inc total
      by (simp add: decode_int_loop.simps [of val shift b] u8_top qint_byte Let_def not_le)
    also have "\<dots> = Ok (of_nat (unat (val + ?inc) + unat ?v * 2 ^ (shift + 7)),
        advance (length (qint_tail ?v)) (advance 1 b))"
      using "1.IH" [OF True, of "advance 1 b" "shift + 7" "val + ?inc"] b shift val inc total 1
      by (simp add: as_ref_advance)
    finally show ?thesis using True val inc total by (simp add: qint_tail.simps [of v])
  next
    case False
    let ?x = "ucast v :: u8" and ?inc = "push_bit shift (ucast (ucast v AND 0x7f :: u8)) :: u64"
    have small: "unat v < 128" using False by (simp add: word_le_nat_alt)
    have b: "as_ref b = ?x # r" using 1 False by (simp add: qint_tail.simps [of v])
    have x: "unat ?x = unat v" using small by (simp add: unsigned_ucast_eq take_bit_nat_eq_self)
    have inc: "unat ?inc = unat v * 2 ^ shift"
      using shift_in [of shift "ucast (?x AND 0x7f)"] 1 small by (simp add: unat_ucast_up u8_low7 x)
    have "decode_int_loop val shift b = Ok (val + ?inc, advance 1 b)"
      using get_byte [OF b] cap_Cons [OF b] 1 inc small
      by (simp add: decode_int_loop.simps [of val shift b] u8_top x Let_def not_le)
    moreover have "val + ?inc = of_nat (unat val + unat v * 2 ^ shift)"
      using inc by (simp add: inc [symmetric])
    ultimately show ?thesis using False by (simp add: qint_tail.simps [of v])
  qed
qed

lemma int_mask_eq: "int_mask prefix = mask prefix"
  by (simp add: int_mask_def mask_eq_decr_exp)

lemma le_mask_and: "x \<le> (mask n :: 'a::len word) \<Longrightarrow> x AND mask n = x"
proof -
  assume "x \<le> mask n"
  then have "unat x \<le> unat (of_nat (mask n) :: 'a word)" by (simp add: word_le_nat_alt of_nat_mask_eq)
  also have "\<dots> \<le> mask n" by (simp add: unsigned_of_nat) (simp add: mask_eq_exp_minus_1 diff_le_mono)
  also have "\<dots> < 2 ^ n" by (simp add: mask_eq_exp_minus_1)
  finally have "unat x < 2 ^ n" .
  then have "unat (take_bit n x) = unat x" by (simp only: unsigned_take_bit_eq) (simp add: take_bit_nat_eq_self)
  then have "take_bit n x = x" by (simp only: word_unat_eq_iff)
  then show ?thesis by (simp add: take_bit_eq_mask [symmetric])
qed

lemma prefix_bits:
  assumes "(first :: u8) AND mask prefix = 0" "prefix \<le> 8" "v \<le> mask prefix"
  shows "(ucast (first OR ucast v) :: u64) AND mask prefix = v"
proof (rule bit_word_eqI)
  fix i assume i: "i < LENGTH(64)"
  have v: "bit v i \<Longrightarrow> i < prefix"
  proof -
    assume b: "bit v i"
    have "v = take_bit prefix v" using le_mask_and [OF assms(3)] by (simp add: take_bit_eq_mask)
    then show "i < prefix" using b by (metis bit_take_bit_iff)
  qed
  have first: "i < prefix \<Longrightarrow> \<not> bit first i"
  proof 
    assume "i < prefix" "bit first i"
    then have "bit (first AND mask prefix) i" using assms(2) by (simp add: bit_and_iff bit_mask_iff)
    with assms(1) show False by simp
  qed
  show "bit ((ucast (first OR ucast v) :: u64) AND mask prefix) i = bit v i"
    using i v first assms(2) by (auto simp: bit_and_iff bit_mask_iff bit_ucast_iff bit_or_iff)
qed
text \<open>The bits above the prefix are those of the first byte.\<close>

lemma first_bits:
  assumes "x AND mask n = (x :: u8)" "m AND mask n = 0"
  shows "(first OR x) AND m = first AND m"
proof -
  have "x AND m = 0" using assms by (metis and.assoc and.commute and_zero_eq)
  then show ?thesis by (simp add: bit.conj_disj_distrib2)
qed

lemma qint_enc_first:
  assumes "prefix \<le> 8"
  obtains x xs where "qint_enc v first prefix = (first OR x) # xs" "x AND mask prefix = x"
proof (cases "v < int_mask prefix")
  case True
  then have v: "v AND mask prefix = v" by (intro le_mask_and) (simp add: int_mask_eq)
  have "(ucast v :: u8) AND mask prefix = ucast v"
  proof (rule bit_word_eqI)
    fix i show "bit ((ucast v :: u8) AND mask prefix) i = bit (ucast v :: u8) i" if "i < LENGTH(8)"
      using arg_cong [OF v, of "\<lambda>v. bit v i"] that by (auto simp: bit_and_iff bit_ucast_iff bit_mask_iff)
  qed
  with True that [of "ucast v" "[]"] show ?thesis by (simp add: qint_enc_def)
next
  case False
  have "(ucast (mask prefix :: u64) :: u8) = mask prefix"
    using assms by (intro bit_word_eqI) (auto simp: bit_ucast_iff bit_mask_iff)
  with False that [of "mask prefix" "qint_tail (v - int_mask prefix)"] show ?thesis
    by (simp add: qint_enc_def int_mask_eq)
qed

lemma reads_decode_int:
  assumes "first AND mask prefix = 0" "prefix \<le> 8"
  shows "reads (qint_enc v first prefix) v (decode_int prefix)"
  unfolding reads_def
proof (intro allI impI)
  fix b r assume b: "as_ref b = qint_enc v first prefix @ r"
  show "decode_int prefix b = Ok (v, advance (length (qint_enc v first prefix)) b)"
  proof (cases "v < int_mask prefix")
    case True
    with b have b: "as_ref b = (first OR ucast v) # r" by (simp add: qint_enc_def)
    have "ucast (first OR ucast v) AND int_mask prefix = v"
      using prefix_bits [OF assms, of v] True by (simp add: int_mask_eq)
    then show ?thesis using True by (simp add: decode_int_def get_byte [OF b] Let_def qint_enc_def)
  next
    case False
    let ?m = "int_mask prefix"
    have b: "as_ref b = (first OR ucast ?m) # qint_tail (v - ?m) @ r" using b False by (simp add: qint_enc_def)
    have val: "ucast (first OR ucast ?m) AND ?m = ?m" using prefix_bits [OF assms, of ?m] by (simp add: int_mask_eq)
    have sum: "unat ?m + unat (v - ?m) = unat v" using False by (simp add: unat_sub64 not_less word_le_nat_alt)
    then have "unat ?m + unat (v - ?m) * 2 ^ 0 < 2 ^ 64" using unat_u64 [of v] by simp
    moreover have "as_ref (advance 1 b) = qint_tail (v - ?m) @ r" using b by (simp add: as_ref_advance)
    ultimately have "decode_int_loop ?m 0 (advance 1 b)
        = Ok (of_nat (unat ?m + unat (v - ?m) * 2 ^ 0), advance (length (qint_tail (v - ?m))) (advance 1 b))"
      by (intro decode_int_loop_tail) simp_all
    moreover have "of_nat (unat ?m + unat (v - ?m) * 2 ^ 0) = v" by (simp only: power_0 mult_1_right sum) simp
    ultimately show ?thesis
      using False by (simp add: decode_int_def get_byte [OF b] Let_def val) (simp add: qint_enc_def)
  qed
qed

section \<open>Strings\<close>

lemma of_bytes_as_bytes: "of_bytes (as_bytes s) = s"
proof -
  have "char_of (unat (of_nat (of_char c) :: u8)) = c" for c :: char
    by (simp add: unsigned_of_nat take_bit_nat_eq_self)
  then show ?thesis by (simp add: of_bytes_def as_bytes_def comp_def)
qed

lemma reads_of_short: "reads e v p \<Longrightarrow> reads e v (\<lambda>b. of_short (p b))"
  by (simp add: of_short_def reads_map_err)

lemma get_huff: "as_ref b = huff_bytes src @ r \<Longrightarrow>
    of_short (get_bytes (length (huff_bytes src)) b) = Ok (with_slice (huff_bytes src), advance (length (huff_bytes src)) b)"
  using readsD [OF reads_of_short [OF reads_bytes [OF refl]]] .

lemma huff_decode_slice: "huff_decode (with_slice (huff_bytes src)) = Ok src"
  by (rule huff_decode_bytes) (simp add: as_ref_with_slice)

definition str_enc :: "string \<Rightarrow> u8 list" where
  "str_enc v = qint_enc (of_nat (length (huff_bytes (as_bytes v)))) 0x80 7 @ huff_bytes (as_bytes v)"

lemma writes_encode_str: "writes_err QBufferTooShort (str_enc v) (encode_str v 7)"
proof -
  have "encode_str v 7 = (\<lambda>b. bnd (encode_int (of_nat (length (huff_bytes (as_bytes v)))) 0x80 7 b) (huff_encode (as_bytes v)))"
    by (simp add: fun_eq_iff encode_str_def encode_output_length_eq)
  then show ?thesis unfolding str_enc_def using writes_bnd [OF writes_encode_int writes_huff] by simp
qed

lemma decode_coded:
  assumes "as_ref b = qint_enc (of_nat (length (huff_bytes bs))) first prefix @ huff_bytes bs @ r"
    and "first AND mask prefix = 0" "prefix \<le> 8" "length (huff_bytes bs) < 2 ^ 64"
  shows "bnd (decode_int prefix b) (\<lambda>(len, b).
      bnd (of_short (get_bytes (unat len) b)) (\<lambda>(v, b). bnd (decode_huff_or_raw True v) (\<lambda>v.
      bnd (string_from_utf8 v) (\<lambda>v. Ok (v, b)))))
    = (if utf8_valid bs then Ok (of_bytes bs, advance (length (qint_enc (of_nat (length (huff_bytes bs))) first prefix @ huff_bytes bs)) b)
       else Err InvalidHeaderValue)"
proof -
  let ?n = "of_nat (length (huff_bytes bs)) :: u64"
  have n: "unat ?n = length (huff_bytes bs)" using assms(4) by (simp add: unat_of_nat64)
  have int: "decode_int prefix b = Ok (?n, advance (length (qint_enc ?n first prefix)) b)"
    using readsD [OF reads_decode_int [OF assms(2,3)] assms(1)] .
  have "as_ref (advance (length (qint_enc ?n first prefix)) b) = huff_bytes bs @ r"
    using assms(1) by (simp add: as_ref_advance)
  from get_huff [OF this] int show ?thesis
    by (simp add: n decode_huff_or_raw_def huff_decode_slice string_from_utf8_def)
qed

lemma decode_str_coded:
  assumes "as_ref b = str_enc v @ r" "utf8_valid (as_bytes v)" "length (huff_bytes (as_bytes v)) < 2 ^ 64"
  shows "decode_str b = Ok (v, advance (length (str_enc v)) b)"
proof -
  have eight: "(7 :: nat) \<le> 8" by simp
  obtain x xs where x: "qint_enc (of_nat (length (huff_bytes (as_bytes v)))) 0x80 7 = (0x80 OR x) # xs" "x AND mask 7 = x"
    using qint_enc_first [OF eight] by metis
  have "(0x80 OR x) AND 0x80 = (0x80 :: u8)"
    using first_bits [OF x(2), where m = "0x80" and first = "0x80"] by (simp add: mask_eq_exp_minus_1)
  moreover have "of_short (peek_u8 b) = Ok (0x80 OR x)"
    using assms(1) x(1) by (intro peek_byte [where r = "xs @ huff_bytes (as_bytes v) @ r"]) (simp add: str_enc_def)
  moreover have "as_ref b = qint_enc (of_nat (length (huff_bytes (as_bytes v)))) 0x80 7 @ huff_bytes (as_bytes v) @ r"
    using assms(1) by (simp add: str_enc_def)
  note decode_coded [OF this _ eight assms(3)]
  ultimately show ?thesis
    using assms(2) by (simp add: decode_str_def mask_eq_exp_minus_1 of_bytes_as_bytes str_enc_def)
qed

section \<open>The static table\<close>

text \<open>The arms with a value stand in the order of the table; so do those for a name alone, with gaps.\<close>

fun exact_ok :: "nat \<Rightarrow> (string \<times> string option \<times> u64 \<times> bool) list \<Rightarrow> (string \<times> string) list \<Rightarrow> bool" where
  "exact_ok i [] ts = True"
| "exact_ok i (a # as) [] = False"
| "exact_ok i ((n, p, idx, full) # as) ((n', v') # ts) =
     (unat idx = i \<and> n = n' \<and> (full \<longrightarrow> p = Some v') \<and> exact_ok (i + 1) as ts)"

fun names_ok :: "nat \<Rightarrow> (string \<times> string option \<times> u64 \<times> bool) list \<Rightarrow> (string \<times> string) list \<Rightarrow> bool" where
  "names_ok i [] ts = True"
| "names_ok i (a # as) [] = False"
| "names_ok i ((n, p, idx, full) # as) ((n', v') # ts) =
     (if unat idx = i then n = n' \<and> \<not> full \<and> names_ok (i + 1) as ts
      else names_ok (i + 1) ((n, p, idx, full) # as) ts)"

lemma static_exact_ok: "exact_ok 0 static_arms_exact static_table"
  unfolding static_arms_exact_def static_table_def by simp

lemma static_names_ok: "names_ok 0 static_arms_name static_table"
  unfolding static_arms_name_def static_table_def by simp

definition arm_ok :: "nat \<Rightarrow> (string \<times> string) list \<Rightarrow> string \<times> string option \<times> u64 \<times> bool \<Rightarrow> bool" where
  "arm_ok i ts a \<longleftrightarrow> (case a of (n, p, idx, full) \<Rightarrow> i \<le> unat idx \<and> unat idx - i < length ts
     \<and> (case ts ! (unat idx - i) of (n', v') \<Rightarrow> n = n' \<and> (full \<longrightarrow> p = Some v')))"

lemma arm_ok_Suc: "arm_ok (i + 1) ts a \<Longrightarrow> arm_ok i (t # ts) a"
  by (auto simp: arm_ok_def Suc_le_eq Suc_diff_Suc split: prod.splits)

lemma exact_ok_arm: "exact_ok i as ts \<Longrightarrow> a \<in> set as \<Longrightarrow> arm_ok i ts a"
proof (induction i as ts rule: exact_ok.induct)
  case (3 i n p idx full as n' v' ts)
  then show ?case using arm_ok_Suc [of i ts a] by (auto simp: arm_ok_def)
qed simp_all

lemma names_ok_arm: "names_ok i as ts \<Longrightarrow> a \<in> set as \<Longrightarrow> arm_ok i ts a"
proof (induction i as ts rule: names_ok.induct)
  case (3 i n p idx full as n' v' ts)
  then show ?case using arm_ok_Suc [of i ts a] by (cases "unat idx = i") (auto simp: arm_ok_def)
qed simp_all

lemma lookup_static_arm:
  assumes "lookup_static (Header name v) = Some (idx, full)"
  shows "\<exists>v'. lookup_static_index idx = Ok (name, v') \<and> (full \<longrightarrow> v' = v)"
proof -
  have "\<exists>p. (name, p, idx, full) \<in> set as \<and> (p = None \<or> p = Some v)" if "first_arm as name v = Some (idx, full)" for as
    using that by (induction as name v rule: first_arm.induct) (auto split: if_splits)
  with assms obtain p where p: "(name, p, idx, full) \<in> set (static_arms_exact @ static_arms_name)" "p = None \<or> p = Some v"
    by fastforce
  then have "arm_ok 0 static_table (name, p, idx, full)"
    using exact_ok_arm [OF static_exact_ok] names_ok_arm [OF static_names_ok] by auto
  with p(2) show ?thesis by (auto simp: arm_ok_def lookup_static_index_def split: prod.splits)
qed

section \<open>Header blocks\<close>

fun h3_header_enc :: "h3_header \<Rightarrow> u8 list" where
  "h3_header_enc (Header name v) =
     (case lookup_static (Header name v) of
        Some (idx, True) \<Rightarrow> qint_enc idx 0xc0 6
      | Some (idx, False) \<Rightarrow> qint_enc idx 0x50 4 @ str_enc v
      | None \<Rightarrow> qint_enc (of_nat (length (huff_bytes (as_bytes name)))) 0x28 3 @ huff_bytes (as_bytes name) @ str_enc v)"

lemma representation_consts:
  "INDEXED OR 0x40 = 0xc0" "LITERAL_WITH_NAME_REF OR 0x10 = 0x50" "LITERAL OR 0x08 = 0x28"
  by (simp_all add: INDEXED_def LITERAL_WITH_NAME_REF_def LITERAL_def)

lemma writes_encode_header: "writes_err QBufferTooShort (h3_header_enc h) (encode_header h)"
proof (cases h)
  case (Header name v)
  show ?thesis
  proof (cases "lookup_static h")
    case None
    have "encode_header h = (\<lambda>b. bnd (encode_int (of_nat (length (huff_bytes (as_bytes name)))) 0x28 3 b) (\<lambda>b.
        bnd (huff_encode (as_bytes name) b) (encode_str v 7)))"
      using None by (simp add: fun_eq_iff Header encode_output_length_eq representation_consts)
    then show ?thesis
      using None writes_bnd [OF writes_encode_int writes_bnd [OF writes_huff writes_encode_str]] by (simp add: Header)
  next
    case (Some a)
    obtain idx full where a: "a = (idx, full)" by fastforce
    show ?thesis
    proof (cases full)
      case True
      then have "encode_header h = encode_int idx 0xc0 6" using Some by (simp add: fun_eq_iff Header a representation_consts)
      then show ?thesis using Some True writes_encode_int by (simp add: Header a)
    next
      case False
      then have "encode_header h = (\<lambda>b. bnd (encode_int idx 0x50 4 b) (encode_str v 7))"
        using Some by (simp add: fun_eq_iff Header a representation_consts)
      then show ?thesis using Some False writes_bnd [OF writes_encode_int writes_encode_str] by (simp add: Header a)
    qed
  qed
qed

fun headers_enc :: "h3_header list \<Rightarrow> u8 list" where
  "headers_enc [] = []"
| "headers_enc (h # hs) = h3_header_enc h @ headers_enc hs"

lemma writes_encode_headers: "writes_err QBufferTooShort (headers_enc hs) (encode_headers hs)"
proof (induction hs)
  case Nil
  then show ?case by (simp add: writes_err_def)
next
  case (Cons h hs)
  have "encode_headers (h # hs) = (\<lambda>b. bnd (encode_header h b) (encode_headers hs))" by (simp add: fun_eq_iff)
  with writes_bnd [OF writes_encode_header Cons] show ?case by simp
qed

text \<open>The headers that come back unchanged: names that lower-casing keeps, and well-formed UTF-8.\<close>

fun h3_header_ok :: "(string \<Rightarrow> string) \<Rightarrow> h3_header \<Rightarrow> bool" where
  "h3_header_ok lower (Header name v) \<longleftrightarrow> lower name = name \<and> utf8_valid (as_bytes name) \<and> utf8_valid (as_bytes v)"

fun header_size :: "h3_header \<Rightarrow> nat" where
  "header_size (Header name v) = length name + length v"

lemma use_space_ok: "length name + length v \<le> unat left \<Longrightarrow>
    use_space name v left = Ok (left - of_nat (length name + length v))"
  using unat_u64 [of left] by (simp add: use_space_def Let_def word_le_nat_alt unat_of_nat64 del: of_nat_add)

lemma unat_space: "n \<le> unat left \<Longrightarrow> unat (left - of_nat n :: u64) = unat left - n"
  using unat_u64 [of left] by (simp add: unat_sub64 word_le_nat_alt unat_of_nat64)

lemma first_byte:
  assumes "as_ref b = qint_enc v f p @ r" "p \<le> 8"
  obtains first rest where "as_ref b = first # rest" "of_short (peek_u8 b) = Ok first"
    "\<And>m. m AND mask p = 0 \<Longrightarrow> first AND m = f AND m"
proof -
  obtain x xs where x: "qint_enc v f p = (f OR x) # xs" "x AND mask p = x" using qint_enc_first [OF assms(2)] by metis
  then have "as_ref b = (f OR x) # xs @ r" using assms(1) by simp
  from this peek_byte [OF this] first_bits [OF x(2)] show ?thesis by (rule that)
qed

lemma decode_indexed_ok:
  assumes "as_ref b = qint_enc idx 0xc0 6 @ r" "lookup_static_index idx = Ok (name, v)" "lower name = name"
    and "length name + length v \<le> unat left"
  shows "decode_field lower left b
    = Ok ((Header name v, left - of_nat (length name + length v)), advance (length (qint_enc idx 0xc0 6)) b)"
proof -
  have p: "(6 :: nat) \<le> 8" by simp
  obtain first rest where f: "of_short (peek_u8 b) = Ok first" "\<And>m. m AND mask 6 = 0 \<Longrightarrow> first AND m = 0xc0 AND m"
    using first_byte [OF assms(1) p] by metis
  have bits: "first AND 0x80 = 0x80" "first AND 0x40 = 0x40" using f(2) [of "0x80"] f(2) [of "0x40"] by (simp_all add: mask_eq_exp_minus_1)
  have "decode_int 6 b = Ok (idx, advance (length (qint_enc idx 0xc0 6)) b)"
    using readsD [OF reads_decode_int [OF _ p] assms(1)] by (simp add: mask_eq_exp_minus_1)
  then show ?thesis
    using f(1) assms(2,3) use_space_ok [OF assms(4)]
    by (simp add: decode_field_def representation_from_byte_def INDEXED_def bits decode_indexed_def header_new_def)
qed

lemma decode_name_ref_ok:
  assumes "as_ref b = qint_enc idx 0x50 4 @ str_enc v @ r" "lookup_static_index idx = Ok (name, v')" "lower name = name"
    and "length name + length v \<le> unat left" "utf8_valid (as_bytes v)" "length (huff_bytes (as_bytes v)) < 2 ^ 64"
  shows "decode_field lower left b
    = Ok ((Header name v, left - of_nat (length name + length v)), advance (length (qint_enc idx 0x50 4 @ str_enc v)) b)"
proof -
  have p: "(4 :: nat) \<le> 8" by simp
  obtain first rest where f: "of_short (peek_u8 b) = Ok first" "\<And>m. m AND mask 4 = 0 \<Longrightarrow> first AND m = 0x50 AND m"
    using first_byte [OF assms(1) p] by metis
  have bits: "first AND 0x80 = 0" "first AND 0x40 = 0x40" "first AND 0x10 = 0x10"
    using f(2) [of "0x80"] f(2) [of "0x40"] f(2) [of "0x10"] by (simp_all add: mask_eq_exp_minus_1)
  let ?b = "advance (length (qint_enc idx 0x50 4)) b"
  have "decode_int 4 b = Ok (idx, ?b)"
    using readsD [OF reads_decode_int [OF _ p] assms(1)] by (simp add: mask_eq_exp_minus_1)
  moreover have "as_ref ?b = str_enc v @ r" using assms(1) by (simp add: as_ref_advance)
  note decode_str_coded [OF this assms(5,6)]
  ultimately show ?thesis
    using f(1) assms(2,3) use_space_ok [OF assms(4)]
    by (simp add: decode_field_def representation_from_byte_def INDEXED_def LITERAL_WITH_NAME_REF_def bits
        decode_name_ref_def header_new_def)
qed

lemma decode_literal_ok:
  assumes "as_ref b = qint_enc (of_nat (length (huff_bytes (as_bytes name)))) 0x28 3 @ huff_bytes (as_bytes name) @ str_enc v @ r"
    and "lower name = name" "length name + length v \<le> unat left" "utf8_valid (as_bytes name)" "utf8_valid (as_bytes v)"
    and "length (huff_bytes (as_bytes name)) < 2 ^ 64" "length (huff_bytes (as_bytes v)) < 2 ^ 64"
  shows "decode_field lower left b
    = Ok ((Header name v, left - of_nat (length name + length v)),
        advance (length (qint_enc (of_nat (length (huff_bytes (as_bytes name)))) 0x28 3 @ huff_bytes (as_bytes name) @ str_enc v)) b)"
proof -
  let ?q = "qint_enc (of_nat (length (huff_bytes (as_bytes name)))) 0x28 3" and ?h = "huff_bytes (as_bytes name)"
  have p: "(3 :: nat) \<le> 8" by simp
  obtain first rest where f: "as_ref b = first # rest" "of_short (peek_u8 b) = Ok first"
    "\<And>m. m AND mask 3 = 0 \<Longrightarrow> first AND m = 0x28 AND m"
    using first_byte [OF assms(1) p] by metis
  have bits: "first AND 0x80 = 0" "first AND 0x40 = 0" "first AND 0x20 = 0x20" "first AND 0x08 = 0x08"
    using f(3) [of "0x80"] f(3) [of "0x40"] f(3) [of "0x20"] f(3) [of "0x08"] by (simp_all add: mask_eq_exp_minus_1)
  let ?b = "advance (length (?q @ ?h)) b"
  have "decode_literal_name b = Ok (name, ?b)"
    using decode_coded [OF assms(1) _ p assms(6)] f(1) assms(4)
    by (simp add: decode_literal_name_def bits mask_eq_exp_minus_1 of_bytes_as_bytes)
  moreover have "as_ref ?b = str_enc v @ r" using assms(1) by (simp add: as_ref_advance)
  note decode_str_coded [OF this assms(5,7)]
  ultimately show ?thesis
    using f(2) assms(2) use_space_ok [OF assms(3)]
    by (simp add: decode_field_def representation_from_byte_def INDEXED_def LITERAL_WITH_NAME_REF_def LITERAL_def bits
        decode_literal_def header_new_def add.assoc)
qed

lemma decode_field_ok:
  assumes "as_ref b = h3_header_enc h @ r" "h3_header_ok lower h" "header_size h \<le> unat left" "length (h3_header_enc h) < 2 ^ 64"
  shows "decode_field lower left b = Ok ((h, left - of_nat (header_size h)), advance (length (h3_header_enc h)) b)"
proof (cases h)
  case (Header name v)
  show ?thesis
  proof (cases "lookup_static h")
    case None
    then show ?thesis
      using assms decode_literal_ok [of b name v r lower left] by (simp add: Header str_enc_def)
  next
    case (Some a)
    obtain idx full where a: "a = (idx, full)" by fastforce
    obtain v' where v': "lookup_static_index idx = Ok (name, v')" "full \<longrightarrow> v' = v"
      using lookup_static_arm Some unfolding Header a by blast
    show ?thesis
      using assms v' Some decode_indexed_ok [of b idx r name v lower left] decode_name_ref_ok [of b idx v r name v' lower left]
      by (cases full) (simp_all add: Header a str_enc_def)
  qed
qed

lemma decode_headers_ok:
  "as_ref b = headers_enc hs \<Longrightarrow> \<forall>h \<in> set hs. h3_header_ok lower h \<Longrightarrow> sum_list (map header_size hs) \<le> unat left \<Longrightarrow>
   length (headers_enc hs) < 2 ^ 64 \<Longrightarrow> decode_headers lower left out b = Ok (out @ hs)"
proof (induction hs arbitrary: b left out)
  case Nil
  then have "cap b = 0" by (simp add: length_as_ref [symmetric])
  then show ?case by (simp add: decode_headers.simps [of lower left out b])
next
  case (Cons h hs)
  let ?left = "left - of_nat (header_size h)" and ?b = "advance (length (h3_header_enc h)) b"
  have field: "decode_field lower left b = Ok ((h, ?left), ?b)"
    using Cons.prems by (intro decode_field_ok [where r = "headers_enc hs"]) auto
  then have "0 < cap b" using decode_field_less by fastforce
  moreover have "decode_headers lower ?left (out @ [h]) ?b = Ok ((out @ [h]) @ hs)"
    using Cons.prems unat_space [of "header_size h" left] by (intro Cons.IH) (auto simp: as_ref_advance)
  ultimately show ?case by (simp add: decode_headers.simps [of lower left out b] field)
qed

section \<open>Properties\<close>

text \<open>The round trip of header blocks. When the encoder succeeds, the decoder reads from the bytes it wrote
  the same list of headers, in order, if the list does not exceed the size limit and each header has well-formed strings
  and a name that is in lower case already, as \<open>Header::new\<close> makes it.\<close>

theorem qpack_roundtrip:
  assumes "qpack_encode headers out = Ok (n, out')" "length out < 2 ^ 64"
    and "\<forall>h \<in> set headers. h3_header_ok lower h" "sum_list (map header_size headers) \<le> unat max_size"
  shows "qpack_decode lower (take n out') max_size = Ok headers"
proof -
  let ?e = "qint_enc 0 0 8 @ qint_enc 0 0 7 @ headers_enc headers" and ?b0 = "with_slice out"
  have "writes_err QBufferTooShort ?e (\<lambda>b. bnd (encode_int 0 0 8 b) (\<lambda>b. bnd (encode_int 0 0 7 b) (encode_headers headers)))"
    by (rule writes_bnd [OF writes_encode_int writes_bnd [OF writes_encode_int writes_encode_headers]])
  then have enc: "bnd (encode_int 0 0 8 ?b0) (\<lambda>b. bnd (encode_int 0 0 7 b) (encode_headers headers))
      = (if cap ?b0 < length ?e then Err QBufferTooShort else Ok (wr ?e ?b0))"
    by (rule writesD) simp
  have "qpack_encode headers out
      = bnd (bnd (encode_int 0 0 8 ?b0) (\<lambda>b. bnd (encode_int 0 0 7 b) (encode_headers headers))) (\<lambda>b. Ok (off b, buf b))"
    by (simp add: qpack_encode_def bnd_assoc)
  with enc assms(1) have len: "length ?e \<le> length out" and out': "n = length ?e" "out' = ?e @ drop (length ?e) out"
    by (auto simp: cap_def with_slice_def wr_def split: if_splits)
  let ?b = "with_slice (take n out')"
  have b: "as_ref ?b = qint_enc 0 0 8 @ qint_enc 0 0 7 @ headers_enc headers" by (simp add: out' as_ref_with_slice)
  have z: "(8 :: nat) \<le> 8" "(7 :: nat) \<le> 8" "(0 :: u8) AND mask 8 = 0" "(0 :: u8) AND mask 7 = 0" by simp_all
  let ?b1 = "advance (length (qint_enc 0 0 8)) ?b"
  have b1: "as_ref ?b1 = qint_enc 0 0 7 @ headers_enc headers" using b by (simp add: as_ref_advance)
  let ?b2 = "advance (length (qint_enc 0 0 7)) ?b1"
  have b2: "as_ref ?b2 = headers_enc headers" using b by (simp add: as_ref_advance)
  have "length (headers_enc headers) < 2 ^ 64" using len assms(2) by simp
  from decode_headers_ok [OF b2 assms(3,4) this, of "[]"]
    readsD [OF reads_decode_int [OF z(3,1)] b] readsD [OF reads_decode_int [OF z(4,2)] b1]
  show ?thesis by (simp add: qpack_decode_def)
qed

lemma qpack_roundtrip_witness:
  "\<exists>n out'. qpack_encode [Header '':method'' ''GET''] [0, 0, 0] = Ok (n, out')
    \<and> qpack_decode (\<lambda>s. s) (take n out') 10 = Ok [Header '':method'' ''GET'']"
proof -
  let ?h = "Header '':method'' ''GET''"
  have l: "lookup_static ?h = Some (17, True)" by (simp add: static_arms_exact_def)
  have e: "h3_header_enc ?h = [0xd1]" by (simp only: h3_header_enc.simps l option.case prod.case bool.case) (simp add: qint_enc_def int_mask_def)
  have "\<exists>n out'. qpack_encode [?h] [0, 0, 0] = Ok (n, out')"
  proof -
    have "encode_int 0 0 8 (with_slice [0, 0, 0]) = Ok (wr [0] (with_slice [0, 0, 0]))"
      "encode_int 0 0 7 (wr [0] (with_slice [0, 0, 0])) = Ok (wr [0] (wr [0] (with_slice [0, 0, 0])))"
      by (simp_all add: encode_int_def int_mask_def put_byte cap_def with_slice_def wr_def octets_ok_def)
    moreover have "encode_headers [?h] (wr [0] (wr [0] (with_slice [0, 0, 0]))) = Ok (wr [0xd1] (wr [0] (wr [0] (with_slice [0, 0, 0]))))"
      using writesD [OF writes_encode_headers [of "[?h]"], of "wr [0] (wr [0] (with_slice [0, 0, 0]))"] e
      by (simp add: cap_def with_slice_def wr_def octets_ok_def del: encode_headers.simps h3_header_enc.simps)
    ultimately show ?thesis by (simp add: qpack_encode_def del: encode_headers.simps)
  qed
  then obtain n out' where q: "qpack_encode [?h] [0, 0, 0] = Ok (n, out')" by blast
  have ok: "\<forall>h \<in> set [?h]. h3_header_ok (\<lambda>s. s) h" by (simp add: as_bytes_def utf8_valid_def)
  have "qpack_decode (\<lambda>s. s) (take n out') 10 = Ok [?h]"
    by (rule qpack_roundtrip [OF q _ ok]) simp_all
  with q show ?thesis by blast
qed

text \<open>The decoder is total. On any bytes and any limit it returns a list or one of its errors and never
  panics, although it peeks at and indexes its input; and a block yields at most one header for each byte.\<close>

theorem qpack_decode_total:
  "case qpack_decode lower block max_size of Ok hs \<Rightarrow> length hs \<le> length block | Err e \<Rightarrow> True | Panic \<Rightarrow> False"
proof -
  have loop: "case decode_headers lower left out b of Ok hs \<Rightarrow> length hs \<le> length out + cap b | Err e \<Rightarrow> True | Panic \<Rightarrow> False"
    for left out b
  proof (induction lower left out b rule: decode_headers.induct)
    case (1 lower left out b)
    show ?case
    proof (cases "decode_field lower left b")
      case (Ok a)
      obtain h l b' where a: "a = ((h, l), b')" by (metis prod.exhaust)
      show ?thesis
      proof (cases "0 < cap b")
        case True
        with 1 [OF True Ok, of "(h, l)" b'] decode_field_less [of lower left b "(h, l)" b'] show ?thesis
          by (simp add: decode_headers.simps [of lower left out b] Ok a split: res.splits)
      qed (simp add: decode_headers.simps [of lower left out b])
    qed (use moves_decode_field [of b lower left] in
        \<open>simp_all add: decode_headers.simps [of lower left out b] moves_def\<close>)
  qed
  have int: "decode_int p b \<noteq> Panic" "decode_int p b = Ok (x, b') \<Longrightarrow> cap b' \<le> cap b" for p b x b'
    using moves_decode_int [of b p] by (auto simp: moves_def cap_def)
  show ?thesis
  proof (cases "decode_int 8 (with_slice block)")
    case 1: (Ok a)
    obtain x b1 where a: "a = (x, b1)" by fastforce
    show ?thesis
    proof (cases "decode_int 7 b1")
      case 2: (Ok c)
      obtain y b2 where c: "c = (y, b2)" by fastforce
      have "cap b2 \<le> length block"
        using int(2) [OF 1 [unfolded a]] int(2) [OF 2 [unfolded c]] by (simp add: cap_def with_slice_def)
      with loop [where left = max_size and out = "[]" and b = b2] show ?thesis
        by (auto simp: qpack_decode_def 1 2 a c split: res.splits)
    qed (use int(1) in \<open>auto simp: qpack_decode_def 1 a\<close>)
  qed (use int(1) in \<open>auto simp: qpack_decode_def\<close>)
qed

text \<open>Continuation bytes without value bits only move the shift on.\<close>

lemma decode_int_loop_empty:
  "as_ref b = replicate k 0x80 @ r \<Longrightarrow> shift + 7 * k < 71 \<Longrightarrow>
   decode_int_loop val shift b = decode_int_loop val (shift + 7 * k) (advance k b)"
proof (induction k arbitrary: b shift)
  case (Suc k)
  then have b: "as_ref b = 0x80 # replicate k 0x80 @ r" by simp
  then have "as_ref (advance 1 b) = replicate k 0x80 @ r" by (simp add: as_ref_advance)
  from Suc.IH [OF this, of "shift + 7"] Suc.prems(2) show ?case
    using get_byte [OF b] cap_Cons [OF b] unat_u64 [of val]
    by (simp add: decode_int_loop.simps [of val shift b] add.assoc)
qed simp

text \<open>Integers that do not fit are not refused. \<open>checked_shl\<close> reports a shift that is too large, not bits
  that are shifted out, so the encoding of \<open>2\<^sup>64 + 255\<close>, which no \<open>u64\<close> holds, is read as 255.\<close>

theorem decode_int_wraps:
  "as_ref b = 0xff # replicate 9 0x80 @ [0x02] \<Longrightarrow> decode_int 8 b = Ok (255, advance 11 b)"
proof -
  assume b: "as_ref b = 0xff # replicate 9 0x80 @ [0x02]"
  let ?b = "advance 1 b" and ?c = "advance 10 b"
  have b1: "as_ref ?b = replicate 9 0x80 @ [0x02]" and c: "as_ref ?c = [0x02]"
    using b by (simp_all add: as_ref_advance)
  have "decode_int_loop 255 0 ?b = decode_int_loop 255 63 ?c"
    using decode_int_loop_empty [OF b1, of 0 255] by simp
  also have "\<dots> = Ok (255, advance 11 b)"
    using get_byte [OF c] cap_Cons [OF c] by (simp add: decode_int_loop.simps [of 255 63 ?c])
  finally show ?thesis using get_byte [OF b] by (simp add: decode_int_def int_mask_def)
qed

lemma decode_int_wraps_witness:
  "decode_int 8 (with_slice (0xff # replicate 9 0x80 @ [0x02])) = Ok (255, advance 11 (with_slice (0xff # replicate 9 0x80 @ [0x02])))"
  by (rule decode_int_wraps) (rule as_ref_with_slice)

end
