(* ===== verification/H3Frame.thy ===== *)
theory H3Frame
  imports Wire
begin

text \<open>
  The errors of HTTP/3 (\<open>Error\<close> of \<open>src/h3/mod.rs\<close>) and its frames (\<open>src/h3/frame.rs\<close>): writing a frame with type,
  length and payload, and parsing a payload of known type and length.
\<close>

section \<open>Errors\<close>

datatype h3_error =
    H3Done
  | H3BufferTooShort
  | H3GeneralProtocolError
  | H3InternalError
  | H3RequestCancelled
  | H3RequestIncomplete
  | H3ConnectError
  | H3ExcessiveLoad
  | H3VersionFallback
  | H3IdError
  | H3StreamCreationError
  | H3ClosedCriticalStream
  | H3EarlyResponse
  | H3MissingSettings
  | H3FrameUnexpected
  | H3RequestRejected
  | H3SettingsError
  | H3FrameError
  | H3QpackDecompressionFailed
  | H3QpackEncoderStreamError
  | H3QpackDecoderStreamError
  | H3TransportError error

type_synonym 'a h3_result = "(h3_error, 'a) res"

fun h3_to_wire :: "h3_error \<Rightarrow> u64" where
  "h3_to_wire H3Done = 0x100"
| "h3_to_wire H3GeneralProtocolError = 0x101"
| "h3_to_wire H3InternalError = 0x102"
| "h3_to_wire H3StreamCreationError = 0x103"
| "h3_to_wire H3ClosedCriticalStream = 0x104"
| "h3_to_wire H3FrameUnexpected = 0x105"
| "h3_to_wire H3FrameError = 0x106"
| "h3_to_wire H3ExcessiveLoad = 0x107"
| "h3_to_wire H3IdError = 0x108"
| "h3_to_wire H3SettingsError = 0x109"
| "h3_to_wire H3MissingSettings = 0x10A"
| "h3_to_wire H3RequestRejected = 0x10B"
| "h3_to_wire H3RequestCancelled = 0x10C"
| "h3_to_wire H3RequestIncomplete = 0x10D"
| "h3_to_wire H3EarlyResponse = 0x10E"
| "h3_to_wire H3ConnectError = 0x10F"
| "h3_to_wire H3VersionFallback = 0x110"
| "h3_to_wire H3QpackDecompressionFailed = 0x200"
| "h3_to_wire H3QpackEncoderStreamError = 0x201"
| "h3_to_wire H3QpackDecoderStreamError = 0x202"
| "h3_to_wire H3BufferTooShort = 0x999"
| "h3_to_wire (H3TransportError e) = 0xFF"

text \<open>\<open>From\<close> the errors of the transport and of the byte buffer.\<close>

fun h3_from_error :: "error \<Rightarrow> h3_error" where
  "h3_from_error Done = H3Done"
| "h3_from_error e = H3TransportError e"

definition h3_transport :: "'a result \<Rightarrow> 'a h3_result" where
  "h3_transport = map_err h3_from_error"

definition h3_short :: "'a result \<Rightarrow> 'a h3_result" where
  "h3_short = map_err (\<lambda>_. H3BufferTooShort)"

section \<open>Frames\<close>

definition DATA_FRAME_TYPE_ID :: u64 where "DATA_FRAME_TYPE_ID = 0x0"
definition HEADERS_FRAME_TYPE_ID :: u64 where "HEADERS_FRAME_TYPE_ID = 0x1"
definition CANCEL_PUSH_FRAME_TYPE_ID :: u64 where "CANCEL_PUSH_FRAME_TYPE_ID = 0x3"
definition SETTINGS_FRAME_TYPE_ID :: u64 where "SETTINGS_FRAME_TYPE_ID = 0x4"
definition PUSH_PROMISE_FRAME_TYPE_ID :: u64 where "PUSH_PROMISE_FRAME_TYPE_ID = 0x5"
definition GOAWAY_FRAME_TYPE_ID :: u64 where "GOAWAY_FRAME_TYPE_ID = 0x6"
definition MAX_PUSH_FRAME_TYPE_ID :: u64 where "MAX_PUSH_FRAME_TYPE_ID = 0xD"
definition DUPLICATE_PUSH_FRAME_TYPE_ID :: u64 where "DUPLICATE_PUSH_FRAME_TYPE_ID = 0xE"

definition SETTINGS_QPACK_MAX_TABLE_CAPACITY :: u64 where "SETTINGS_QPACK_MAX_TABLE_CAPACITY = 0x1"
definition SETTINGS_MAX_HEADER_LIST_SIZE :: u64 where "SETTINGS_MAX_HEADER_LIST_SIZE = 0x6"
definition SETTINGS_QPACK_BLOCKED_STREAMS :: u64 where "SETTINGS_QPACK_BLOCKED_STREAMS = 0x7"

lemmas h3_type_ids = DATA_FRAME_TYPE_ID_def HEADERS_FRAME_TYPE_ID_def CANCEL_PUSH_FRAME_TYPE_ID_def
  SETTINGS_FRAME_TYPE_ID_def PUSH_PROMISE_FRAME_TYPE_ID_def GOAWAY_FRAME_TYPE_ID_def MAX_PUSH_FRAME_TYPE_ID_def
  DUPLICATE_PUSH_FRAME_TYPE_ID_def

lemmas h3_setting_ids = SETTINGS_QPACK_MAX_TABLE_CAPACITY_def SETTINGS_MAX_HEADER_LIST_SIZE_def
  SETTINGS_QPACK_BLOCKED_STREAMS_def

text \<open>A setting frame carries the maximal header list size, the QPACK table capacity, the QPACK blocked
  streams and a greasing pair.\<close>

datatype h3_frame =
    H3Data "u8 list"
  | H3Headers "u8 list"
  | H3CancelPush u64
  | H3Settings "u64 option" "u64 option" "u64 option" "(u64 \<times> u64) option"
  | H3PushPromise u64 "u8 list"
  | H3GoAway u64
  | H3MaxPushId u64
  | H3DuplicatePush u64
  | H3Unknown

section \<open>Parsing\<close>

text \<open>Settings seen so far: header list size, table capacity, blocked streams.\<close>

function parse_settings_loop :: "nat \<Rightarrow> u64 option \<Rightarrow> u64 option \<Rightarrow> u64 option \<Rightarrow> octets \<Rightarrow> h3_frame h3_result" where
  "parse_settings_loop n max_list capacity blocked b =
     (if off b < n then
        bnd (h3_short (get_varint b)) (\<lambda>(ty, b).
        bnd (h3_short (get_varint b)) (\<lambda>(v, b).
        if ty = SETTINGS_QPACK_MAX_TABLE_CAPACITY then parse_settings_loop n max_list (Some v) blocked b
        else if ty = SETTINGS_MAX_HEADER_LIST_SIZE then parse_settings_loop n (Some v) capacity blocked b
        else if ty = SETTINGS_QPACK_BLOCKED_STREAMS then parse_settings_loop n max_list capacity (Some v) b
        else parse_settings_loop n max_list capacity blocked b))
      else Ok (H3Settings max_list capacity blocked None))"
  by pat_completeness auto
termination
  by (relation "measure (\<lambda>(n, s, c, bl, b). cap b)")
    (auto simp: h3_short_def dest!: vi.get_cap_less intro: less_trans)

declare parse_settings_loop.simps [simp del]

definition parse_settings_frame :: "octets \<Rightarrow> nat \<Rightarrow> h3_frame h3_result" where
  "parse_settings_frame b settings_length = parse_settings_loop settings_length None None None b"

definition parse_push_promise :: "u64 \<Rightarrow> octets \<Rightarrow> h3_frame h3_result" where
  "parse_push_promise payload_length b =
     bnd (h3_short (get_varint b)) (\<lambda>(push_id, b).
     bnd (h3_short (varint_len push_id)) (\<lambda>n.
     bnd (h3_short (get_bytes (unat (payload_length - of_nat n)) b)) (\<lambda>(header_block, b).
     Ok (H3PushPromise push_id (as_ref header_block)))))"

definition h3_frame_from_bytes :: "u64 \<Rightarrow> u64 \<Rightarrow> u8 list \<Rightarrow> h3_frame h3_result" where
  "h3_frame_from_bytes frame_type payload_length bytes =
     (let b = with_slice bytes; n = unat payload_length in
      if frame_type = DATA_FRAME_TYPE_ID then bnd (h3_short (get_bytes n b)) (\<lambda>(x, b). Ok (H3Data (as_ref x)))
      else if frame_type = HEADERS_FRAME_TYPE_ID then bnd (h3_short (get_bytes n b)) (\<lambda>(x, b). Ok (H3Headers (as_ref x)))
      else if frame_type = CANCEL_PUSH_FRAME_TYPE_ID then bnd (h3_short (get_varint b)) (\<lambda>(x, b). Ok (H3CancelPush x))
      else if frame_type = SETTINGS_FRAME_TYPE_ID then parse_settings_frame b n
      else if frame_type = PUSH_PROMISE_FRAME_TYPE_ID then parse_push_promise payload_length b
      else if frame_type = GOAWAY_FRAME_TYPE_ID then bnd (h3_short (get_varint b)) (\<lambda>(x, b). Ok (H3GoAway x))
      else if frame_type = MAX_PUSH_FRAME_TYPE_ID then bnd (h3_short (get_varint b)) (\<lambda>(x, b). Ok (H3MaxPushId x))
      else if frame_type = DUPLICATE_PUSH_FRAME_TYPE_ID then bnd (h3_short (get_varint b)) (\<lambda>(x, b). Ok (H3DuplicatePush x))
      else Ok H3Unknown)"

section \<open>Writing\<close>

text \<open>Type, length and one integer.\<close>

definition h3_put_int_frame :: "u64 \<Rightarrow> u64 \<Rightarrow> octets \<Rightarrow> octets h3_result" where
  "h3_put_int_frame ty v b =
     bnd (h3_short (put_varint ty b)) (\<lambda>b.
     bnd (h3_short (varint_len v)) (\<lambda>n.
     bnd (h3_short (put_varint (of_nat n) b)) (\<lambda>b.
     h3_short (put_varint v b))))"

fun h3_setting_len :: "(u64 \<times> u64) option \<Rightarrow> nat \<Rightarrow> nat h3_result" where
  "h3_setting_len None n = Ok n"
| "h3_setting_len (Some (ty, v)) n =
     bnd (h3_short (varint_len ty)) (\<lambda>n1. bnd (h3_short (varint_len v)) (\<lambda>n2. Ok (n + n1 + n2)))"

fun h3_put_setting :: "(u64 \<times> u64) option \<Rightarrow> octets \<Rightarrow> octets h3_result" where
  "h3_put_setting None b = Ok b"
| "h3_put_setting (Some (ty, v)) b = bnd (h3_short (put_varint ty b)) (\<lambda>b. h3_short (put_varint v b))"

text \<open>A setting that is present, with its identifier.\<close>

definition h3_setting :: "u64 \<Rightarrow> u64 option \<Rightarrow> (u64 \<times> u64) option" where
  "h3_setting ty = map_option (Pair ty)"

definition h3_put_settings :: "u64 option \<Rightarrow> u64 option \<Rightarrow> u64 option \<Rightarrow> (u64 \<times> u64) option \<Rightarrow> octets \<Rightarrow> octets h3_result" where
  "h3_put_settings max_list capacity blocked grease b =
     (let s = h3_setting SETTINGS_MAX_HEADER_LIST_SIZE max_list;
          c = h3_setting SETTINGS_QPACK_MAX_TABLE_CAPACITY capacity;
          k = h3_setting SETTINGS_QPACK_BLOCKED_STREAMS blocked
      in bnd (h3_setting_len s 0) (\<lambda>n.
         bnd (h3_setting_len c n) (\<lambda>n.
         bnd (h3_setting_len k n) (\<lambda>n.
         bnd (h3_setting_len grease n) (\<lambda>n.
         bnd (h3_short (put_varint SETTINGS_FRAME_TYPE_ID b)) (\<lambda>b.
         bnd (h3_short (put_varint (of_nat n) b)) (\<lambda>b.
         bnd (h3_put_setting s b) (\<lambda>b.
         bnd (h3_put_setting c b) (\<lambda>b.
         bnd (h3_put_setting k b) (\<lambda>b.
         h3_put_setting grease b))))))))))"

definition h3_put_bytes_frame :: "u64 \<Rightarrow> u8 list \<Rightarrow> octets \<Rightarrow> octets h3_result" where
  "h3_put_bytes_frame ty payload b =
     bnd (h3_short (put_varint ty b)) (\<lambda>b.
     bnd (h3_short (put_varint (of_nat (length payload)) b)) (\<lambda>b.
     h3_short (put_bytes payload b)))"

fun h3_frame_put :: "h3_frame \<Rightarrow> octets \<Rightarrow> octets h3_result" where
  "h3_frame_put (H3Data payload) b = h3_put_bytes_frame DATA_FRAME_TYPE_ID payload b"
| "h3_frame_put (H3Headers header_block) b = h3_put_bytes_frame HEADERS_FRAME_TYPE_ID header_block b"
| "h3_frame_put (H3CancelPush push_id) b = h3_put_int_frame CANCEL_PUSH_FRAME_TYPE_ID push_id b"
| "h3_frame_put (H3Settings max_list capacity blocked grease) b = h3_put_settings max_list capacity blocked grease b"
| "h3_frame_put (H3PushPromise push_id header_block) b =
     bnd (h3_short (varint_len push_id)) (\<lambda>n.
     bnd (h3_short (put_varint PUSH_PROMISE_FRAME_TYPE_ID b)) (\<lambda>b.
     bnd (h3_short (put_varint (of_nat (n + length header_block)) b)) (\<lambda>b.
     bnd (h3_short (put_varint push_id b)) (\<lambda>b.
     h3_short (put_bytes header_block b)))))"
| "h3_frame_put (H3GoAway stream_id) b = h3_put_int_frame GOAWAY_FRAME_TYPE_ID stream_id b"
| "h3_frame_put (H3MaxPushId push_id) b = h3_put_int_frame MAX_PUSH_FRAME_TYPE_ID push_id b"
| "h3_frame_put (H3DuplicatePush push_id) b = h3_put_int_frame DUPLICATE_PUSH_FRAME_TYPE_ID push_id b"
| "h3_frame_put H3Unknown b = Panic"

definition h3_frame_to_bytes :: "h3_frame \<Rightarrow> octets \<Rightarrow> (nat \<times> octets) h3_result" where
  "h3_frame_to_bytes f b = bnd (h3_frame_put f b) (\<lambda>b'. Ok (cap b - cap b', b'))"

section \<open>What is written\<close>

fun h3_setting_enc :: "(u64 \<times> u64) option \<Rightarrow> u8 list" where
  "h3_setting_enc None = []"
| "h3_setting_enc (Some (ty, v)) = varint_enc ty @ varint_enc v"

definition settings_enc :: "u64 option \<Rightarrow> u64 option \<Rightarrow> u64 option \<Rightarrow> (u64 \<times> u64) option \<Rightarrow> u8 list" where
  "settings_enc max_list capacity blocked grease =
     h3_setting_enc (h3_setting SETTINGS_MAX_HEADER_LIST_SIZE max_list)
     @ h3_setting_enc (h3_setting SETTINGS_QPACK_MAX_TABLE_CAPACITY capacity)
     @ h3_setting_enc (h3_setting SETTINGS_QPACK_BLOCKED_STREAMS blocked) @ h3_setting_enc grease"

fun h3_frame_type :: "h3_frame \<Rightarrow> u64" where
  "h3_frame_type (H3Data _) = DATA_FRAME_TYPE_ID"
| "h3_frame_type (H3Headers _) = HEADERS_FRAME_TYPE_ID"
| "h3_frame_type (H3CancelPush _) = CANCEL_PUSH_FRAME_TYPE_ID"
| "h3_frame_type (H3Settings _ _ _ _) = SETTINGS_FRAME_TYPE_ID"
| "h3_frame_type (H3PushPromise _ _) = PUSH_PROMISE_FRAME_TYPE_ID"
| "h3_frame_type (H3GoAway _) = GOAWAY_FRAME_TYPE_ID"
| "h3_frame_type (H3MaxPushId _) = MAX_PUSH_FRAME_TYPE_ID"
| "h3_frame_type (H3DuplicatePush _) = DUPLICATE_PUSH_FRAME_TYPE_ID"
| "h3_frame_type H3Unknown = 0"

fun h3_payload :: "h3_frame \<Rightarrow> u8 list" where
  "h3_payload (H3Data payload) = payload"
| "h3_payload (H3Headers header_block) = header_block"
| "h3_payload (H3CancelPush push_id) = varint_enc push_id"
| "h3_payload (H3Settings max_list capacity blocked grease) = settings_enc max_list capacity blocked grease"
| "h3_payload (H3PushPromise push_id header_block) = varint_enc push_id @ header_block"
| "h3_payload (H3GoAway stream_id) = varint_enc stream_id"
| "h3_payload (H3MaxPushId push_id) = varint_enc push_id"
| "h3_payload (H3DuplicatePush push_id) = varint_enc push_id"
| "h3_payload H3Unknown = []"

definition h3_frame_enc :: "h3_frame \<Rightarrow> u8 list" where
  "h3_frame_enc f = varint_enc (h3_frame_type f) @ varint_enc (of_nat (length (h3_payload f))) @ h3_payload f"

text \<open>The frames that can be written: integers within 62 bits, and not \<open>Unknown\<close>.\<close>

definition setting_ok :: "(u64 \<times> u64) option \<Rightarrow> bool" where
  "setting_ok s \<longleftrightarrow> (case s of None \<Rightarrow> True | Some (ty, v) \<Rightarrow> varint_ok ty \<and> varint_ok v)"

fun h3_frame_ok :: "h3_frame \<Rightarrow> bool" where
  "h3_frame_ok (H3Settings max_list capacity blocked grease) \<longleftrightarrow>
     pred_option varint_ok max_list \<and> pred_option varint_ok capacity \<and> pred_option varint_ok blocked \<and> setting_ok grease"
| "h3_frame_ok (H3PushPromise push_id header_block) \<longleftrightarrow> varint_ok push_id \<and> length header_block < 2 ^ 61"
| "h3_frame_ok (H3Data payload) \<longleftrightarrow> length payload < 2 ^ 61"
| "h3_frame_ok (H3Headers header_block) \<longleftrightarrow> length header_block < 2 ^ 61"
| "h3_frame_ok (H3CancelPush v) \<longleftrightarrow> varint_ok v"
| "h3_frame_ok (H3GoAway v) \<longleftrightarrow> varint_ok v"
| "h3_frame_ok (H3MaxPushId v) \<longleftrightarrow> varint_ok v"
| "h3_frame_ok (H3DuplicatePush v) \<longleftrightarrow> varint_ok v"
| "h3_frame_ok H3Unknown \<longleftrightarrow> False"

text \<open>What parsing gives back: a greasing pair of an unknown type is ignored.\<close>

fun h3_no_grease :: "h3_frame \<Rightarrow> h3_frame" where
  "h3_no_grease (H3Settings max_list capacity blocked grease) = H3Settings max_list capacity blocked None"
| "h3_no_grease f = f"

lemma h3_short_varint: "varint_ok v \<Longrightarrow> h3_short (varint_len v) = Ok (length (varint_enc v))"
  by (simp add: h3_short_def varint_len_eq)

lemma writes_h3_short: "writes e p \<Longrightarrow> writes_err H3BufferTooShort e (\<lambda>b. h3_short (p b))"
  using writes_map_err [of e p "\<lambda>_. H3BufferTooShort"] by (simp add: h3_short_def)

lemma reads_h3_short: "reads e v p \<Longrightarrow> reads e v (\<lambda>b. h3_short (p b))"
  by (simp add: h3_short_def reads_map_err)

lemmas writes_v = writes_h3_short [OF writes_varint]
lemmas reads_v = reads_h3_short [OF reads_varint]

lemma varint_ok_len: "varint_ok (of_nat (length (varint_enc v)))"
  using varint_len_cases [of v] by (auto simp: varint_ok_def)

lemma varint_ok_ids: "varint_ok DATA_FRAME_TYPE_ID" "varint_ok HEADERS_FRAME_TYPE_ID" "varint_ok CANCEL_PUSH_FRAME_TYPE_ID"
    "varint_ok SETTINGS_FRAME_TYPE_ID" "varint_ok PUSH_PROMISE_FRAME_TYPE_ID" "varint_ok GOAWAY_FRAME_TYPE_ID"
    "varint_ok MAX_PUSH_FRAME_TYPE_ID" "varint_ok DUPLICATE_PUSH_FRAME_TYPE_ID"
    "varint_ok SETTINGS_QPACK_MAX_TABLE_CAPACITY" "varint_ok SETTINGS_MAX_HEADER_LIST_SIZE"
    "varint_ok SETTINGS_QPACK_BLOCKED_STREAMS"
  by (simp_all add: varint_ok_def h3_type_ids h3_setting_ids)

lemma varint_ok_of_nat: "n < 2 ^ 62 \<Longrightarrow> varint_ok (of_nat n)"
  by (simp add: varint_ok_def unat_of_nat64)

lemma writes_int_frame: "varint_ok ty \<Longrightarrow> varint_ok v \<Longrightarrow>
    writes_err H3BufferTooShort (varint_enc ty @ varint_enc (of_nat (length (varint_enc v))) @ varint_enc v) (h3_put_int_frame ty v)"
proof -
  assume ok: "varint_ok ty" "varint_ok v"
  have "h3_put_int_frame ty v = (\<lambda>b. bnd (h3_short (put_varint ty b)) (\<lambda>b.
      bnd (h3_short (put_varint (of_nat (length (varint_enc v))) b)) (\<lambda>b. h3_short (put_varint v b))))"
    using ok by (simp add: fun_eq_iff h3_put_int_frame_def h3_short_varint)
  then show ?thesis by (simp only:) (intro writes_bnd writes_v ok varint_ok_len)
qed

lemma writes_bytes_frame: "varint_ok ty \<Longrightarrow> length p < 2 ^ 61 \<Longrightarrow>
    writes_err H3BufferTooShort (varint_enc ty @ varint_enc (of_nat (length p)) @ p) (h3_put_bytes_frame ty p)"
proof -
  assume ok: "varint_ok ty" "length p < 2 ^ 61"
  then have n: "varint_ok (of_nat (length p))" by (intro varint_ok_of_nat) simp
  have "h3_put_bytes_frame ty p = (\<lambda>b. bnd (h3_short (put_varint ty b)) (\<lambda>b.
      bnd (h3_short (put_varint (of_nat (length p)) b)) (\<lambda>b. h3_short (put_bytes p b))))"
    by (simp add: fun_eq_iff h3_put_bytes_frame_def)
  then show ?thesis by (simp only:) (intro writes_bnd writes_v ok(1) n writes_h3_short [OF writes_bytes])
qed

lemma writes_setting: "setting_ok s \<Longrightarrow> writes_err H3BufferTooShort (h3_setting_enc s) (h3_put_setting s)"
proof (cases s)
  case None
  then show ?thesis by (simp add: writes_err_def)
next
  case (Some a)
  assume ok: "setting_ok s"
  obtain ty v where a: "a = (ty, v)" by fastforce
  have "h3_put_setting s = (\<lambda>b. bnd (h3_short (put_varint ty b)) (\<lambda>b. h3_short (put_varint v b)))"
    by (simp add: fun_eq_iff Some a)
  with ok show ?thesis unfolding Some a by (simp only: h3_setting_enc.simps) (intro writes_bnd writes_v, simp_all add: setting_ok_def Some a)
qed

lemma setting_len: "setting_ok s \<Longrightarrow> h3_setting_len s n = Ok (n + length (h3_setting_enc s))"
  by (cases s) (auto simp: setting_ok_def h3_short_varint)

lemma setting_ok_setting: "varint_ok ty \<Longrightarrow> pred_option varint_ok v \<Longrightarrow> setting_ok (h3_setting ty v)"
  by (cases v) (auto simp: setting_ok_def h3_setting_def)

lemma setting_enc_short: "length (h3_setting_enc s) \<le> 16"
proof (cases s)
  case (Some a)
  then show ?thesis using varint_len_cases [of "fst a"] varint_len_cases [of "snd a"] by (cases a) auto
qed simp

lemma h3_put_plain:
  "h3_frame_put (H3Data p) = h3_put_bytes_frame DATA_FRAME_TYPE_ID p"
  "h3_frame_put (H3Headers p) = h3_put_bytes_frame HEADERS_FRAME_TYPE_ID p"
  "h3_frame_put (H3CancelPush v) = h3_put_int_frame CANCEL_PUSH_FRAME_TYPE_ID v"
  "h3_frame_put (H3GoAway v) = h3_put_int_frame GOAWAY_FRAME_TYPE_ID v"
  "h3_frame_put (H3MaxPushId v) = h3_put_int_frame MAX_PUSH_FRAME_TYPE_ID v"
  "h3_frame_put (H3DuplicatePush v) = h3_put_int_frame DUPLICATE_PUSH_FRAME_TYPE_ID v"
  by (simp_all add: fun_eq_iff)

lemma writes_h3_frame: "h3_frame_ok f \<Longrightarrow> writes_err H3BufferTooShort (h3_frame_enc f) (h3_frame_put f)"
proof (cases f)
  case (H3Settings max_list capacity blocked grease)
  assume ok: "h3_frame_ok f"
  let ?s = "h3_setting SETTINGS_MAX_HEADER_LIST_SIZE max_list" and ?c = "h3_setting SETTINGS_QPACK_MAX_TABLE_CAPACITY capacity"
    and ?k = "h3_setting SETTINGS_QPACK_BLOCKED_STREAMS blocked"
  let ?e = "settings_enc max_list capacity blocked grease"
  have oks: "setting_ok ?s" "setting_ok ?c" "setting_ok ?k" "setting_ok grease"
    using ok H3Settings by (auto intro: setting_ok_setting varint_ok_ids)
  have len: "length ?e \<le> 64"
    using setting_enc_short [of ?s] setting_enc_short [of ?c] setting_enc_short [of ?k] setting_enc_short [of grease]
    by (simp add: settings_enc_def)
  then have n: "varint_ok (of_nat (length ?e))" by (intro varint_ok_of_nat) simp
  have "h3_frame_put f = (\<lambda>b. bnd (h3_short (put_varint SETTINGS_FRAME_TYPE_ID b)) (\<lambda>b.
         bnd (h3_short (put_varint (of_nat (length ?e)) b)) (\<lambda>b.
         bnd (h3_put_setting ?s b) (\<lambda>b. bnd (h3_put_setting ?c b) (\<lambda>b. bnd (h3_put_setting ?k b) (\<lambda>b.
         h3_put_setting grease b))))))"
    by (simp add: fun_eq_iff H3Settings h3_put_settings_def Let_def setting_len oks settings_enc_def add.assoc)
  moreover have "h3_frame_enc f = varint_enc SETTINGS_FRAME_TYPE_ID @ varint_enc (of_nat (length ?e)) @ h3_setting_enc ?s
      @ h3_setting_enc ?c @ h3_setting_enc ?k @ h3_setting_enc grease"
    by (simp add: h3_frame_enc_def H3Settings settings_enc_def)
  ultimately show ?thesis by (simp only:) (intro writes_bnd writes_v writes_setting oks n varint_ok_ids)
next
  case (H3PushPromise push_id header_block)
  assume ok: "h3_frame_ok f"
  let ?n = "length (varint_enc push_id) + length header_block"
  have id: "varint_ok push_id" and n: "varint_ok (of_nat ?n)"
    using ok varint_len_cases [of push_id] by (auto simp: H3PushPromise simp del: of_nat_add intro!: varint_ok_of_nat)
  have "h3_frame_put f = (\<lambda>b. bnd (h3_short (put_varint PUSH_PROMISE_FRAME_TYPE_ID b)) (\<lambda>b.
      bnd (h3_short (put_varint (of_nat ?n) b)) (\<lambda>b. bnd (h3_short (put_varint push_id b)) (\<lambda>b.
      h3_short (put_bytes header_block b)))))"
    using id by (simp add: fun_eq_iff H3PushPromise h3_short_varint)
  moreover have "h3_frame_enc f = varint_enc PUSH_PROMISE_FRAME_TYPE_ID @ varint_enc (of_nat ?n) @ varint_enc push_id @ header_block"
    by (simp add: h3_frame_enc_def H3PushPromise)
  ultimately show ?thesis by (simp only:) (intro writes_bnd writes_v writes_h3_short [OF writes_bytes] id n varint_ok_ids)
qed (simp_all add: h3_frame_enc_def h3_put_plain writes_int_frame writes_bytes_frame varint_ok_ids)

section \<open>What is read\<close>

lemma read_int_payload: "varint_ok v \<Longrightarrow> h3_short (get_varint (with_slice (varint_enc v))) = Ok (v, advance (length (varint_enc v)) (with_slice (varint_enc v)))"
  using readsD [OF reads_v, of v "with_slice (varint_enc v)" "[]"] by (simp add: as_ref_with_slice)

lemma read_bytes_payload: "h3_short (get_bytes (length p) (with_slice p)) = Ok (with_slice p, advance (length p) (with_slice p))"
  using readsD [OF reads_h3_short [OF reads_bytes [OF refl]], of "with_slice p" p "[]"] by (simp add: as_ref_with_slice)

lemma off_with_slice [simp]: "off (with_slice xs) = 0"
  by (simp add: with_slice_def)

lemma settings_stop: "n \<le> off b \<Longrightarrow> parse_settings_loop n x y z b = Ok (H3Settings x y z None)"
  by (simp add: parse_settings_loop.simps [of n x y z b])

lemma settings_step:
  assumes "as_ref b = varint_enc ty @ varint_enc v @ r" "varint_ok ty" "varint_ok v" "off b < n"
  shows "parse_settings_loop n x y z b =
    (let b = advance (length (varint_enc ty) + length (varint_enc v)) b in
     if ty = SETTINGS_QPACK_MAX_TABLE_CAPACITY then parse_settings_loop n x (Some v) z b
     else if ty = SETTINGS_MAX_HEADER_LIST_SIZE then parse_settings_loop n (Some v) y z b
     else if ty = SETTINGS_QPACK_BLOCKED_STREAMS then parse_settings_loop n x y (Some v) b
     else parse_settings_loop n x y z b)"
proof -
  have "h3_short (get_varint b) = Ok (ty, advance (length (varint_enc ty)) b)"
    using readsD [OF reads_v [OF assms(2)] assms(1)] .
  moreover have "as_ref (advance (length (varint_enc ty)) b) = varint_enc v @ r"
    using assms(1) by (simp add: as_ref_advance)
  note readsD [OF reads_v [OF assms(3)] this]
  ultimately show ?thesis using assms(4) by (simp add: parse_settings_loop.simps [of n x y z b] Let_def)
qed

lemma varint_enc_pos: "0 < length (varint_enc v)"
  using varint_len_cases [of v] by auto

text \<open>One setting that may be missing.\<close>

lemma settings_option:
  assumes "as_ref b = h3_setting_enc (h3_setting ty v) @ r" "varint_ok ty" "pred_option varint_ok v"
    and "v \<noteq> None \<Longrightarrow> off b < n"
  shows "parse_settings_loop n x y z b =
    (let b = advance (length (h3_setting_enc (h3_setting ty v))) b in
     case v of None \<Rightarrow> parse_settings_loop n x y z b
     | Some v \<Rightarrow> (if ty = SETTINGS_QPACK_MAX_TABLE_CAPACITY then parse_settings_loop n x (Some v) z b
         else if ty = SETTINGS_MAX_HEADER_LIST_SIZE then parse_settings_loop n (Some v) y z b
         else if ty = SETTINGS_QPACK_BLOCKED_STREAMS then parse_settings_loop n x y (Some v) b
         else parse_settings_loop n x y z b))"
proof (cases v)
  case (Some w)
  then have "as_ref b = varint_enc ty @ varint_enc w @ r" using assms(1) by (simp add: h3_setting_def)
  from settings_step [OF this assms(2) _ assms(4)] Some assms(3) show ?thesis by (simp add: h3_setting_def Let_def)
qed (simp add: h3_setting_def)

text \<open>A greasing pair must not carry one of the known types.\<close>

fun grease_ok :: "h3_frame \<Rightarrow> bool" where
  "grease_ok (H3Settings max_list capacity blocked (Some (ty, v))) \<longleftrightarrow>
     ty \<noteq> SETTINGS_MAX_HEADER_LIST_SIZE \<and> ty \<noteq> SETTINGS_QPACK_MAX_TABLE_CAPACITY \<and> ty \<noteq> SETTINGS_QPACK_BLOCKED_STREAMS"
| "grease_ok f \<longleftrightarrow> True"

lemma read_settings:
  assumes "h3_frame_ok (H3Settings m c k g)" "grease_ok (H3Settings m c k g)"
  shows "parse_settings_frame (with_slice (settings_enc m c k g)) (length (settings_enc m c k g)) = Ok (H3Settings m c k None)"
proof -
  let ?m = "h3_setting_enc (h3_setting SETTINGS_MAX_HEADER_LIST_SIZE m)" and ?c = "h3_setting_enc (h3_setting SETTINGS_QPACK_MAX_TABLE_CAPACITY c)"
    and ?k = "h3_setting_enc (h3_setting SETTINGS_QPACK_BLOCKED_STREAMS k)" and ?g = "h3_setting_enc g"
  let ?e = "settings_enc m c k g" let ?n = "length ?e"
  let ?b0 = "with_slice ?e" let ?b1 = "advance (length ?m) ?b0" let ?b2 = "advance (length ?c) ?b1"
  let ?b3 = "advance (length ?k) ?b2" let ?b4 = "advance (length ?g) ?b3"
  have e: "?e = ?m @ ?c @ ?k @ ?g" by (simp add: settings_enc_def)
  have b: "as_ref ?b0 = ?m @ ?c @ ?k @ ?g" "as_ref ?b1 = ?c @ ?k @ ?g" "as_ref ?b2 = ?k @ ?g" "as_ref ?b3 = ?g"
    by (simp_all add: as_ref_advance as_ref_with_slice e)
  have off: "off ?b0 = 0" "off ?b1 = length ?m" "off ?b2 = length ?m + length ?c"
    "off ?b3 = length ?m + length ?c + length ?k" "off ?b4 = ?n"
    by (simp_all add: with_slice_def e)
  have pos: "v \<noteq> None \<Longrightarrow> 0 < length (h3_setting_enc (h3_setting ty v))" for ty v
    using varint_enc_pos by (auto simp: h3_setting_def)
  have ids: "SETTINGS_MAX_HEADER_LIST_SIZE \<noteq> SETTINGS_QPACK_MAX_TABLE_CAPACITY"
    "SETTINGS_QPACK_BLOCKED_STREAMS \<noteq> SETTINGS_QPACK_MAX_TABLE_CAPACITY" "SETTINGS_QPACK_BLOCKED_STREAMS \<noteq> SETTINGS_MAX_HEADER_LIST_SIZE"
    by (simp_all add: h3_setting_ids)
  have ok: "pred_option varint_ok m" "pred_option varint_ok c" "pred_option varint_ok k" "setting_ok g"
    using assms(1) by simp_all
  have lt: "m \<noteq> None \<Longrightarrow> off ?b0 < ?n" "c \<noteq> None \<Longrightarrow> off ?b1 < ?n" "k \<noteq> None \<Longrightarrow> off ?b2 < ?n"
    using pos [of m SETTINGS_MAX_HEADER_LIST_SIZE] pos [of c SETTINGS_QPACK_MAX_TABLE_CAPACITY]
      pos [of k SETTINGS_QPACK_BLOCKED_STREAMS]
    by (simp_all add: settings_enc_def)
  have 1: "parse_settings_loop ?n None None None ?b0 = parse_settings_loop ?n m None None ?b1"
    using settings_option [OF b(1) varint_ok_ids(10) ok(1) lt(1), of None None None] ids
    by (simp add: Let_def split: option.split_asm)
  have 2: "parse_settings_loop ?n m None None ?b1 = parse_settings_loop ?n m c None ?b2"
    using settings_option [OF b(2) varint_ok_ids(9) ok(2) lt(2), of m None None]
    by (simp add: Let_def split: option.split_asm)
  have 3: "parse_settings_loop ?n m c None ?b2 = parse_settings_loop ?n m c k ?b3"
    using settings_option [OF b(3) varint_ok_ids(11) ok(3) lt(3), of m c None] ids
    by (simp add: Let_def split: option.split_asm)
  have 4: "parse_settings_loop ?n m c k ?b3 = parse_settings_loop ?n m c k ?b4"
  proof (cases g)
    case (Some a)
    obtain ty v where a: "a = (ty, v)" by fastforce
    have "as_ref ?b3 = varint_enc ty @ varint_enc v @ []" using b(4) by (simp add: Some a)
    moreover have "off ?b3 < ?n" using varint_enc_pos [of ty] by (simp add: settings_enc_def Some a)
    ultimately show ?thesis
      using settings_step [of ?b3 ty v "[]" ?n m c k] ok(4) assms(2) by (simp add: Some a setting_ok_def Let_def)
  qed simp
  show ?thesis unfolding parse_settings_frame_def 1 2 3 4 by (rule settings_stop) (simp add: settings_enc_def)
qed

lemma h3_from_payload:
  assumes "h3_frame_ok f" "grease_ok f"
  shows "h3_frame_from_bytes (h3_frame_type f) (of_nat (length (h3_payload f))) (h3_payload f) = Ok (h3_no_grease f)"
proof (cases f)
  case (H3Settings m c k g)
  let ?e = "settings_enc m c k g"
  have "length ?e \<le> 64"
    using setting_enc_short [of "h3_setting SETTINGS_MAX_HEADER_LIST_SIZE m"] setting_enc_short [of g]
      setting_enc_short [of "h3_setting SETTINGS_QPACK_MAX_TABLE_CAPACITY c"] setting_enc_short [of "h3_setting SETTINGS_QPACK_BLOCKED_STREAMS k"]
    by (simp add: settings_enc_def)
  then have "unat (of_nat (length ?e) :: u64) = length ?e" by (intro unat_of_nat64) simp
  with read_settings assms show ?thesis by (simp add: H3Settings h3_frame_from_bytes_def Let_def h3_type_ids)
next
  case (H3PushPromise i p)
  let ?e = "varint_enc i @ p"
  have i: "varint_ok i" "length ?e < 2 ^ 62" using assms(1) varint_len_cases [of i] by (auto simp: H3PushPromise)
  have "h3_short (get_varint (with_slice ?e)) = Ok (i, advance (length (varint_enc i)) (with_slice ?e))"
    using readsD [OF reads_v [OF i(1)], of "with_slice ?e" p] by (simp add: as_ref_with_slice)
  moreover have "as_ref (advance (length (varint_enc i)) (with_slice ?e)) = p @ []"
    by (simp add: as_ref_advance as_ref_with_slice)
  note readsD [OF reads_h3_short [OF reads_bytes [OF refl]] this]
  moreover have "unat (of_nat (length ?e) - of_nat (length (varint_enc i)) :: u64) = length p"
    using i(2) by (subst unat_sub64) (simp_all add: word_le_nat_alt unat_of_nat64 del: of_nat_add)
  ultimately show ?thesis
    by (simp add: H3PushPromise h3_frame_from_bytes_def Let_def h3_type_ids parse_push_promise_def h3_short_varint i(1) as_ref_with_slice)
qed (use assms in \<open>simp_all add: h3_frame_from_bytes_def Let_def h3_type_ids read_int_payload read_bytes_payload unat_of_nat64 as_ref_with_slice\<close>)

section \<open>Properties\<close>

text \<open>C26. HTTP/3 frames come back. A frame that can be written is written in full, with the number of bytes
  reported, or refused for lack of room; the bytes are its type, the length of its payload and the payload,
  and parsing the payload with that type and length gives the frame, without its greasing pair.\<close>

theorem h3_frame_roundtrip:
  assumes "h3_frame_ok f" "grease_ok f" "octets_ok b"
  shows "(if cap b < length (h3_frame_enc f) then h3_frame_to_bytes f b = Err H3BufferTooShort
      else h3_frame_to_bytes f b = Ok (length (h3_frame_enc f), wr (h3_frame_enc f) b))
    \<and> h3_frame_from_bytes (h3_frame_type f) (of_nat (length (h3_payload f))) (h3_payload f) = Ok (h3_no_grease f)"
  using writesD [OF writes_h3_frame [OF assms(1)] assms(3)] h3_from_payload [OF assms(1,2)] assms(3)
  by (simp add: h3_frame_to_bytes_def)

lemma h3_frame_roundtrip_witness:
  "h3_frame_from_bytes SETTINGS_FRAME_TYPE_ID (of_nat (length (h3_payload (H3Settings (Some 100) None (Some 0) (Some (33, 5))))))
     (h3_payload (H3Settings (Some 100) None (Some 0) (Some (33, 5)))) = Ok (H3Settings (Some 100) None (Some 0) None)"
proof -
  let ?f = "H3Settings (Some 100) None (Some 0) (Some (33, 5))"
  have "h3_frame_ok ?f" "grease_ok ?f" "octets_ok (with_slice [])"
    by (simp_all add: varint_ok_def setting_ok_def h3_setting_ids)
  from h3_frame_roundtrip [OF this] show ?thesis by simp
qed

end
