(* ===== verification/Effects.thy ===== *)
theory Effects
  imports Prelude
begin

text \<open>Handlers that change a state and may fail with an error of some type (\<open>error\<close> in \<open>act\<close>): an action takes the state and returns the result of the
  call with the state it leaves, on every path, as a \<open>&mut self\<close> method that returns \<open>Result\<close> does.
  Weakest preconditions of the combinators are rewrite rules (\<open>wp\<close>), so that an invariant of a long
  handler is proved by rewriting along it.\<close>

named_theorems wp_rules "weakest preconditions of the combinators"

section \<open>Actions\<close>

type_synonym ('s, 'e, 'a) eact = "'s \<Rightarrow> ('e, 'a) res \<times> 's"
type_synonym ('s, 'a) act = "'s \<Rightarrow> 'a result \<times> 's"

definition ret :: "'a \<Rightarrow> ('s, 'e, 'a) eact" where
  "ret x = (\<lambda>s. (Ok x, s))"

definition throw :: "'e \<Rightarrow> ('s, 'e, 'a) eact" where
  "throw e = (\<lambda>s. (Err e, s))"

text \<open>The \<open>?\<close> operator on a call that keeps what it changed before it failed.\<close>

definition andThen :: "('s, 'e, 'a) eact \<Rightarrow> ('a \<Rightarrow> ('s, 'e, 'b) eact) \<Rightarrow> ('s, 'e, 'b) eact" where
  "andThen m f = (\<lambda>s. case m s of
     (Ok x, s) \<Rightarrow> f x s | (Err e, s) \<Rightarrow> (Err e, s) | (Panic, s) \<Rightarrow> (Panic, s))"

definition reads_st :: "('s \<Rightarrow> 'a) \<Rightarrow> ('s, 'e, 'a) eact" where
  "reads_st g = (\<lambda>s. (Ok (g s), s))"

definition modify :: "('s \<Rightarrow> 's) \<Rightarrow> ('s, 'e, unit) eact" where
  "modify g = (\<lambda>s. (Ok (), g s))"

text \<open>A call without effect on the state.\<close>

definition lift :: "('e, 'a) res \<Rightarrow> ('s, 'e, 'a) eact" where
  "lift r = (\<lambda>s. (r, s))"

text \<open>\<open>if b { ... }\<close> and \<open>if b { return Err(e); }\<close>.\<close>

definition whenever :: "bool \<Rightarrow> ('s, 'e, unit) eact \<Rightarrow> ('s, 'e, unit) eact" where
  "whenever b m = (if b then m else ret ())"

definition fail_if :: "bool \<Rightarrow> 'e \<Rightarrow> ('s, 'e, unit) eact" where
  "fail_if b e = (if b then throw e else ret ())"

text \<open>\<open>Err(Error::Done) => return Ok(())\<close>: the rest of the function runs on \<open>Ok\<close> only.\<close>

definition unless_done :: "('s, 'a) act \<Rightarrow> ('a \<Rightarrow> ('s, unit) act) \<Rightarrow> ('s, unit) act" where
  "unless_done m f = (\<lambda>s. case m s of
     (Ok x, s) \<Rightarrow> f x s | (Err e, s) \<Rightarrow> (if e = Done then Ok () else Err e, s) | (Panic, s) \<Rightarrow> (Panic, s))"

text \<open>A call on a part of the state.\<close>

definition on_part :: "('s \<Rightarrow> 'p) \<Rightarrow> ('p \<Rightarrow> 's \<Rightarrow> 's) \<Rightarrow> ('p, 'e, 'a) eact \<Rightarrow> ('s, 'e, 'a) eact" where
  "on_part get upd m = (\<lambda>s. case m (get s) of (r, p) \<Rightarrow> (r, upd p s))"

text \<open>A call that fails without a change and otherwise returns the new part.\<close>

definition pure_act :: "('p \<Rightarrow> 'p result) \<Rightarrow> ('p, unit) act" where
  "pure_act f = (\<lambda>p. case f p of Ok p' \<Rightarrow> (Ok (), p') | Err e \<Rightarrow> (Err e, p) | Panic \<Rightarrow> (Panic, p))"

definition pure_val :: "('p \<Rightarrow> ('a \<times> 'p) result) \<Rightarrow> ('p, 'a) act" where
  "pure_val f = (\<lambda>p. case f p of Ok (x, p') \<Rightarrow> (Ok x, p') | Err e \<Rightarrow> (Err e, p) | Panic \<Rightarrow> (Panic, p))"

text \<open>\<open>for x in xs\<close>.\<close>

fun each :: "('x \<Rightarrow> ('s, unit) act) \<Rightarrow> 'x list \<Rightarrow> ('s, unit) act" where
  "each f [] = ret ()"
| "each f (x # xs) = andThen (f x) (\<lambda>_. each f xs)"

lemma ret_andThen [simp]: "andThen (ret x) f = f x"
  by (simp add: andThen_def ret_def)

lemma throw_andThen [simp]: "andThen (throw e) f = throw e"
  by (simp add: andThen_def throw_def)

lemma andThen_ret [simp]: "andThen m ret = m"
  by (auto simp: andThen_def ret_def fun_eq_iff split: prod.split res.split)

lemma andThen_assoc: "andThen (andThen m f) g = andThen m (\<lambda>x. andThen (f x) g)"
  by (auto simp: andThen_def fun_eq_iff split: prod.split res.split)

lemma andThen_run:
  "andThen m f s = (case m s of (Ok x, t) \<Rightarrow> f x t | (Err e, t) \<Rightarrow> (Err e, t) | (Panic, t) \<Rightarrow> (Panic, t))"
  by (simp add: andThen_def)

lemma andThen_Ok: "m s = (Ok x, t) \<Longrightarrow> andThen m f s = f x t"
  by (simp add: andThen_run)

lemma andThen_cong [fundef_cong]:
  assumes "m s = m' s" and "\<And>x t. m' s = (Ok x, t) \<Longrightarrow> f x t = f' x t"
  shows "andThen m f s = andThen m' f' s"
  using assms by (auto simp: andThen_run split: prod.split res.split)

lemmas act_defs = ret_def throw_def reads_st_def modify_def lift_def whenever_def fail_if_def on_part_def
  pure_act_def pure_val_def

section \<open>Weakest preconditions\<close>

text \<open>\<open>wp m Q E s\<close>: run from \<open>s\<close>, the action ends with \<open>Q\<close> of its value and state or fails with \<open>E\<close> of
  its error (\<open>None\<close> for a panic) and state.\<close>

definition wp :: "('s, 'e, 'a) eact \<Rightarrow> ('a \<Rightarrow> 's \<Rightarrow> bool) \<Rightarrow> ('e option \<Rightarrow> 's \<Rightarrow> bool) \<Rightarrow> 's \<Rightarrow> bool" where
  "wp m Q E s = (case m s of (Ok x, t) \<Rightarrow> Q x t | (Err e, t) \<Rightarrow> E (Some e) t | (Panic, t) \<Rightarrow> E None t)"

lemma wp_ret [wp_rules]: "wp (ret x) Q E s \<longleftrightarrow> Q x s"
  by (simp add: wp_def ret_def)

lemma wp_throw [wp_rules]: "wp (throw e) Q E s \<longleftrightarrow> E (Some e) s"
  by (simp add: wp_def throw_def)

lemma wp_andThen [wp_rules]: "wp (andThen m f) Q E s \<longleftrightarrow> wp m (\<lambda>x. wp (f x) Q E) E s"
  by (auto simp: wp_def andThen_def split: prod.split res.split)

lemma wp_reads_st [wp_rules]: "wp (reads_st g) Q E s \<longleftrightarrow> Q (g s) s"
  by (simp add: wp_def reads_st_def)

lemma wp_modify [wp_rules]: "wp (modify g) Q E s \<longleftrightarrow> Q () (g s)"
  by (simp add: wp_def modify_def)

lemma wp_lift [wp_rules]: "wp (lift r) Q E s \<longleftrightarrow> (case r of Ok x \<Rightarrow> Q x s | Err e \<Rightarrow> E (Some e) s | Panic \<Rightarrow> E None s)"
  by (simp add: wp_def lift_def split: res.split)

lemma wp_whenever [wp_rules]: "wp (whenever b m) Q E s \<longleftrightarrow> (if b then wp m Q E s else Q () s)"
  by (simp add: whenever_def wp_ret)

lemma wp_fail_if [wp_rules]: "wp (fail_if b e) Q E s \<longleftrightarrow> (if b then E (Some e) s else Q () s)"
  by (simp add: fail_if_def wp_ret wp_throw)

lemma wp_on_part [wp_rules]:
  "wp (on_part get upd m) Q E s \<longleftrightarrow> wp m (\<lambda>x p. Q x (upd p s)) (\<lambda>e p. E e (upd p s)) (get s)"
  by (auto simp: wp_def on_part_def split: prod.split res.split)

lemma wp_pure_act [wp_rules]:
  "wp (pure_act f) Q E p \<longleftrightarrow> (case f p of Ok p' \<Rightarrow> Q () p' | Err e \<Rightarrow> E (Some e) p | Panic \<Rightarrow> E None p)"
  by (auto simp: wp_def pure_act_def split: res.split)

lemma wp_pure_val [wp_rules]:
  "wp (pure_val f) Q E p \<longleftrightarrow> (case f p of Ok (x, p') \<Rightarrow> Q x p' | Err e \<Rightarrow> E (Some e) p | Panic \<Rightarrow> E None p)"
  by (auto simp: wp_def pure_val_def split: res.split)

lemma wp_unless_done [wp_rules]:
  "wp (unless_done m f) Q E s \<longleftrightarrow>
     wp m (\<lambda>x. wp (f x) Q E) (\<lambda>e t. if e = Some Done then Q () t else E e t) s"
  by (auto simp: wp_def unless_done_def split: prod.split res.split)

lemma wp_if [wp_rules]: "wp (if b then m else n) Q E s \<longleftrightarrow> (if b then wp m Q E s else wp n Q E s)"
  by simp

lemma wp_mono:
  assumes "wp m Q E s" and "\<And>x t. Q x t \<Longrightarrow> Q' x t" and "\<And>e t. E e t \<Longrightarrow> E' e t"
  shows "wp m Q' E' s"
  using assms by (auto simp: wp_def split: prod.splits res.splits)

lemma wp_True: "(\<And>x t. Q x t) \<Longrightarrow> (\<And>e t. E e t) \<Longrightarrow> wp m Q E s"
  by (auto simp: wp_def split: prod.split res.split)

lemma wp_conj: "wp m Q E s \<Longrightarrow> wp m Q' E' s \<Longrightarrow> wp m (\<lambda>x t. Q x t \<and> Q' x t) (\<lambda>e t. E e t \<and> E' e t) s"
  by (auto simp: wp_def split: prod.splits res.splits)

text \<open>An action keeps a predicate of the state on every path.\<close>

definition keeps :: "('s \<Rightarrow> bool) \<Rightarrow> ('s, 'e, 'a) eact \<Rightarrow> bool" where
  "keeps I m \<longleftrightarrow> (\<forall>s. I s \<longrightarrow> I (snd (m s)))"

lemma keeps_iff_wp: "keeps I m \<longleftrightarrow> (\<forall>s. I s \<longrightarrow> wp m (\<lambda>_. I) (\<lambda>_. I) s)"
proof -
  have "I (snd (m s)) \<longleftrightarrow> wp m (\<lambda>_. I) (\<lambda>_. I) s" for s
    by (cases "fst (m s)") (auto simp: wp_def split: prod.split)
  then show ?thesis by (simp add: keeps_def)
qed

lemma keeps_wp: "keeps I m \<Longrightarrow> I s \<Longrightarrow> wp m (\<lambda>_. I) (\<lambda>_. I) s"
  by (simp add: keeps_iff_wp)

lemma keepsI: "(\<And>s. I s \<Longrightarrow> wp m (\<lambda>_. I) (\<lambda>_. I) s) \<Longrightarrow> keeps I m"
  by (simp add: keeps_iff_wp)

lemma keeps_ret [intro!]: "keeps I (ret x)"
  by (simp add: keeps_def ret_def)

lemma keeps_throw [intro!]: "keeps I (throw e)"
  by (simp add: keeps_def throw_def)

lemma keeps_lift [intro!]: "keeps I (lift r)"
  by (simp add: keeps_def lift_def)

lemma keeps_reads_st [intro!]: "keeps I (reads_st g)"
  by (simp add: keeps_def reads_st_def)

lemma keeps_fail_if [intro!]: "keeps I (fail_if b e)"
  by (simp add: keeps_def fail_if_def ret_def throw_def)

lemma keeps_modify [intro]: "(\<And>s. I s \<Longrightarrow> I (g s)) \<Longrightarrow> keeps I (modify g)"
  by (simp add: keeps_def modify_def)

lemma keeps_whenever [intro]: "(b \<Longrightarrow> keeps I m) \<Longrightarrow> keeps I (whenever b m)"
  by (auto simp: whenever_def)

lemma keeps_if [intro]: "(b \<Longrightarrow> keeps I m) \<Longrightarrow> (\<not> b \<Longrightarrow> keeps I n) \<Longrightarrow> keeps I (if b then m else n)"
  by simp

lemma keeps_andThen [intro]:
  assumes "keeps I m" and "\<And>x. keeps I (f x)"
  shows "keeps I (andThen m f)"
proof (rule keepsI)
  fix s assume "I s"
  then show "wp (andThen m f) (\<lambda>_. I) (\<lambda>_. I) s"
    using assms by (auto simp: wp_andThen intro: wp_mono [OF keeps_wp] keeps_wp)
qed

lemma keeps_unless_done [intro]:
  assumes "keeps I m" and "\<And>x. keeps I (f x)"
  shows "keeps I (unless_done m f)"
proof (rule keepsI)
  fix s assume "I s"
  then show "wp (unless_done m f) (\<lambda>_. I) (\<lambda>_. I) s"
    using assms by (auto simp: wp_unless_done intro: wp_mono [OF keeps_wp] keeps_wp)
qed

lemma keeps_on_part [intro]:
  assumes "\<And>s p. I s \<Longrightarrow> I (upd p s)"
  shows "keeps I (on_part get upd m)"
  using assms by (auto simp: keeps_def on_part_def split: prod.split)

lemma keeps_each [intro]: "(\<And>x. x \<in> set xs \<Longrightarrow> keeps I (f x)) \<Longrightarrow> keeps I (each f xs)"
  by (induction xs) auto

lemma wp_each:
  assumes "I s" and "\<And>x s. x \<in> set xs \<Longrightarrow> I s \<Longrightarrow> wp (f x) (\<lambda>_. I) E s"
  shows "wp (each f xs) (\<lambda>_. I) E s"
  using assms
proof (induction xs arbitrary: s)
  case (Cons x xs)
  have "wp (f x) (\<lambda>_. I) E s" using Cons.prems by auto
  then show ?case
    using Cons.IH Cons.prems(2) by (auto simp: wp_andThen elim: wp_mono)
qed (simp add: wp_ret)

text \<open>The same with a weaker predicate of the state left by an error or a panic.\<close>

definition safe :: "('s \<Rightarrow> bool) \<Rightarrow> ('e option \<Rightarrow> 's \<Rightarrow> bool) \<Rightarrow> ('s, 'e, 'a) eact \<Rightarrow> bool" where
  "safe I E m \<longleftrightarrow> (\<forall>s. I s \<longrightarrow> wp m (\<lambda>_. I) E s)"

lemma safeI: "(\<And>s. I s \<Longrightarrow> wp m (\<lambda>_. I) E s) \<Longrightarrow> safe I E m"
  by (simp add: safe_def)

lemma safe_wp: "safe I E m \<Longrightarrow> I s \<Longrightarrow> wp m (\<lambda>_. I) E s"
  by (simp add: safe_def)

lemma keeps_safe: "keeps I m \<Longrightarrow> (\<And>e s. I s \<Longrightarrow> E e s) \<Longrightarrow> safe I E m"
  by (auto simp: safe_def intro: wp_mono [OF keeps_wp])

lemma safe_andThen: "safe I E m \<Longrightarrow> (\<And>x. safe I E (f x)) \<Longrightarrow> safe I E (andThen m f)"
  by (auto simp: safe_def wp_andThen intro: wp_mono)

lemma safe_whenever: "safe I E m \<Longrightarrow> safe I E (whenever b m)"
  by (simp add: safe_def wp_whenever)

lemma safe_if: "safe I E m \<Longrightarrow> safe I E n \<Longrightarrow> safe I E (if b then m else n)"
  by simp

lemma safe_unless_done:
  assumes "keeps I m" "\<And>x. safe I E (f x)" "\<And>e s. I s \<Longrightarrow> E e s"
  shows "safe I E (unless_done m f)"
  using assms by (auto simp: safe_def wp_unless_done intro!: wp_mono [OF keeps_wp [OF assms(1)]])

lemma safe_each: "(\<And>x. x \<in> set xs \<Longrightarrow> safe I E (f x)) \<Longrightarrow> safe I E (each f xs)"
  by (rule safeI, rule wp_each) (auto intro: safe_wp)

lemma safe_conj: "safe I E m \<Longrightarrow> keeps J m \<Longrightarrow> safe (\<lambda>s. I s \<and> J s) (\<lambda>e s. E e s \<and> J s) m"
  by (auto simp: safe_def intro: wp_conj keeps_wp)

text \<open>Passing over a call whose effect does not matter.\<close>

lemma wp_triv [simp]: "wp m (\<lambda>_ _. True) (\<lambda>_ _. True) s"
  by (rule wp_True) auto

lemma wp_skip: "(\<And>x t. wp (f x) Q (\<lambda>_ _. True) t) \<Longrightarrow> wp (andThen m f) Q (\<lambda>_ _. True) s"
  unfolding wp_andThen by (rule wp_True) auto

lemma wp_skip_lift:
  "(\<And>v t. r = Ok v \<Longrightarrow> wp (f v) Q (\<lambda>_ _. True) t) \<Longrightarrow> wp (andThen (lift r) f) Q (\<lambda>_ _. True) s"
  by (auto simp: wp_rules split: res.split)

lemma wp_throw_triv: "wp (throw e) Q (\<lambda>_ _. True) s"
  by (simp add: wp_throw)

lemmas wp_pass = wp_skip_lift wp_skip wp_throw_triv

end
