(* ===== verification/Conn.thy ===== *)
theory Conn
  imports Effects Streams Params Packet Frame Fec Crypto Clock Recovery
begin

text \<open>The state of a connection (\<open>Connection\<close> of \<open>src/lib.rs\<close>, \<open>PktNumSpace\<close> of \<open>src/packet.rs\<close>) and
  its TLS session (\<open>src/tls.rs\<close>). BoringSSL is a parameter: the functions of the library that the code
  calls are the fields of \<open>ssl_ops\<close> over a session state, and a call during which the library runs the
  callbacks of \<open>SSL_QUIC_METHOD\<close> is a tree of the callbacks, each with the library's reaction to the
  value the callback returns. The callbacks themselves are code and are defined here. Clock readings
  and the order in which a hash set is listed come from the environment of the call; \<open>trace_id\<close> and the
  log output are left out.\<close>

section \<open>Packet number spaces\<close>

record pkt_space =
  ps_largest_rx_pkt_num :: u64
  ps_largest_rx_pkt_time :: instant
  ps_next_pkt_num :: u64
  ps_recv_pkt_need_ack :: rangeset
  ps_recv_pkt_num :: pkt_num_window
  ps_ack_elicited :: bool
  ps_crypto_open :: "crypto_key option"
  ps_crypto_seal :: "crypto_key option"
  ps_crypto_0rtt_open :: "crypto_key option"
  ps_crypto_0rtt_seal :: "crypto_key option"
  ps_crypto_stream :: stream

definition space_new :: "instant \<Rightarrow> int \<Rightarrow> nat \<Rightarrow> pkt_space" where
  "space_new now wall clock =
     \<lparr>ps_largest_rx_pkt_num = 0, ps_largest_rx_pkt_time = now, ps_next_pkt_num = 0, ps_recv_pkt_need_ack = [],
      ps_recv_pkt_num = pw_default, ps_ack_elicited = False, ps_crypto_open = None, ps_crypto_seal = None,
      ps_crypto_0rtt_open = None, ps_crypto_0rtt_seal = None,
      ps_crypto_stream = stream_new wall clock (- 1) (- 1) True True\<rparr>"

definition space_clear :: "int \<Rightarrow> nat \<Rightarrow> pkt_space \<Rightarrow> pkt_space" where
  "space_clear wall clock p =
     p\<lparr>ps_crypto_stream := stream_new wall clock (- 1) (- 1) True True, ps_ack_elicited := False\<rparr>"

definition space_overhead :: "pkt_space \<Rightarrow> nat option" where
  "space_overhead p = map_option (\<lambda>k. tag_len (ck_alg k)) (ps_crypto_seal p)"

definition space_ready :: "pkt_space \<Rightarrow> bool" where
  "space_ready p \<longleftrightarrow> stream_is_flushable (ps_crypto_stream p) \<or> ps_ack_elicited p"

section \<open>The TLS library\<close>

text \<open>A call into the library: it ends with a return code and the new session, or runs a callback and
  goes on with the callback's return value. \<open>SslSecrets\<close> carries the id of the current cipher, if any,
  and the read and write secrets.\<close>

datatype 's ssl_run =
    SslDone int 's
  | SslSecrets level "u32 option" "u8 list" "u8 list" "int \<Rightarrow> 's ssl_run"
  | SslData level "u8 list" "int \<Rightarrow> 's ssl_run"
  | SslFlush "int \<Rightarrow> 's ssl_run"
  | SslAlert level u8 "int \<Rightarrow> 's ssl_run"
  | SslAlpn "u8 list" "int \<times> (u8 list \<times> u8) option \<Rightarrow> 's ssl_run"

record 's ssl_ops =
  so_set_state :: "bool \<Rightarrow> 's \<Rightarrow> 's"
  so_set_ex_data :: "'s \<Rightarrow> int \<times> 's"
  so_set_proto_versions :: "u16 \<Rightarrow> u16 \<Rightarrow> 's \<Rightarrow> 's"
  so_set_quic_method :: "'s \<Rightarrow> int \<times> 's"
  so_set_quiet_shutdown :: "int \<Rightarrow> 's \<Rightarrow> 's"
  so_set_host_name :: "string \<Rightarrow> 's \<Rightarrow> int \<times> 's"
  so_set_verify_host :: "string \<Rightarrow> 's \<Rightarrow> int \<times> 's"
  so_set_transport_params :: "u8 list \<Rightarrow> 's \<Rightarrow> int \<times> 's"
  so_peer_transport_params :: "'s \<Rightarrow> u8 list"
  so_alpn_selected :: "'s \<Rightarrow> u8 list"
  so_get_error :: "int \<Rightarrow> 's \<Rightarrow> int"
  so_in_init :: "'s \<Rightarrow> int"
  so_in_early_data :: "'s \<Rightarrow> int"
  so_session_reused :: "'s \<Rightarrow> int"
  so_write_level :: "'s \<Rightarrow> level"
  so_provide_data :: "level \<Rightarrow> u8 list \<Rightarrow> 's \<Rightarrow> 's ssl_run"
  so_do_handshake :: "'s \<Rightarrow> 's ssl_run"
  so_clear :: "'s \<Rightarrow> int \<times> 's"

definition map_result :: "int \<Rightarrow> unit result" where
  "map_result bssl_result = (if bssl_result = 1 then Ok () else Err TlsFail)"

definition map_result_zero_is_success :: "int \<Rightarrow> unit result" where
  "map_result_zero_is_success bssl_result = (if bssl_result = 0 then Ok () else Err TlsFail)"

definition map_result_ssl :: "'s ssl_ops \<Rightarrow> 's \<Rightarrow> int \<Rightarrow> unit result" where
  "map_result_ssl ops ssl bssl_result =
     (if bssl_result = 1 then Ok ()
      else
        let ssl_err = so_get_error ops bssl_result ssl
        in if ssl_err \<in> {2, 3, 4, 12, 13, 14} then Err Done else Err TlsFail)"

definition tls_is_completed :: "'s ssl_ops \<Rightarrow> 's \<Rightarrow> bool" where
  "tls_is_completed ops ssl \<longleftrightarrow> so_in_init ops ssl = 0"

definition tls_is_resumed :: "'s ssl_ops \<Rightarrow> 's \<Rightarrow> bool" where
  "tls_is_resumed ops ssl \<longleftrightarrow> so_session_reused ops ssl = 1"

definition tls_is_in_early_data :: "'s ssl_ops \<Rightarrow> 's \<Rightarrow> bool" where
  "tls_is_in_early_data ops ssl \<longleftrightarrow> so_in_early_data ops ssl = 1"

text \<open>A call that returns a code, mapped by \<open>map_result\<close> or \<open>map_result_ssl\<close>.\<close>

definition ssl_call :: "('s \<Rightarrow> int \<times> 's) \<Rightarrow> ('s, unit) act" where
  "ssl_call f = (\<lambda>t. case f t of (rc, t) \<Rightarrow> (map_result rc, t))"

definition ssl_call_ssl :: "'s ssl_ops \<Rightarrow> ('s \<Rightarrow> int \<times> 's) \<Rightarrow> ('s, unit) act" where
  "ssl_call_ssl ops f = (\<lambda>t. case f t of (rc, t) \<Rightarrow> (map_result_ssl ops t rc, t))"

definition TLS1_3_VERSION :: u16 where "TLS1_3_VERSION = 0x0304"
definition TLS_ALERT_ERROR :: u64 where "TLS_ALERT_ERROR = 0x100"

text \<open>\<open>Handshake::init\<close>; the buffer for the transport parameters has 128 bytes.\<close>

definition tls_init :: "'s ssl_ops \<Rightarrow> bool \<Rightarrow> transport_params \<Rightarrow> ('s, unit) act" where
  "tls_init ops is_server local_params =
     andThen (modify (so_set_state ops is_server)) (\<lambda>_.
     andThen (ssl_call (so_set_ex_data ops)) (\<lambda>_.
     andThen (modify (so_set_proto_versions ops TLS1_3_VERSION TLS1_3_VERSION)) (\<lambda>_.
     andThen (ssl_call (so_set_quic_method ops)) (\<lambda>_.
     andThen (modify (so_set_quiet_shutdown ops 1)) (\<lambda>_.
     andThen (lift (tp_encode local_params is_server (replicate 128 0))) (\<lambda>raw_params.
     ssl_call_ssl ops (so_set_transport_params ops raw_params)))))))"

text \<open>\<open>set_host_name\<close>: \<open>CString::new\<close> refuses a name with a zero byte.\<close>

definition tls_set_host_name :: "'s ssl_ops \<Rightarrow> string \<Rightarrow> ('s, unit) act" where
  "tls_set_host_name ops name =
     andThen (fail_if (CHR 0x00 \<in> set name) TlsFail) (\<lambda>_.
     andThen (ssl_call_ssl ops (so_set_host_name ops name)) (\<lambda>_.
     ssl_call (so_set_verify_host ops name)))"

definition cipher_algorithm :: "u32 option \<Rightarrow> algorithm result" where
  "cipher_algorithm cipher =
     (case cipher of
        None \<Rightarrow> Err TlsFail
      | Some cipher_id \<Rightarrow>
          if cipher_id = 0x03001301 then Ok AES128_GCM
          else if cipher_id = 0x03001302 then Ok AES256_GCM
          else if cipher_id = 0x03001303 then Ok ChaCha20_Poly1305
          else Err TlsFail)"

section \<open>The connection\<close>

text \<open>What lies outside the code: the TLS library, the congestion controller, ring's HKDF and AES-GCM
  tag, the Reed-Solomon crate, the C functions of the \<open>interface\<close> feature, and whether the \<open>fec\<close> and
  the  \<open>basic-scheduler\<close> feature are on.\<close>

record ('s, 'c, 'p) ext =
  x_ssl :: "'s ssl_ops"
  x_cc :: "'c cc_ops"
  x_hkdf :: "'p ring_hkdf"
  x_rs_new :: "nat \<Rightarrow> nat \<Rightarrow> fec_algorithm option"
  x_retry_tag :: "u8 list \<Rightarrow> u8 list option"
  x_interface :: "c_interface option"
  x_ack_ratio :: u64
  x_redundancy :: rat
  x_fec :: bool
  x_basic :: bool

text \<open>The environment of one call: the clocks, the readings handed to the congestion controller, and
  the order in which a hash set is listed.\<close>

record conn_env =
  en_now :: instant
  en_wall :: int
  en_clock :: nat
  en_recv_clock :: "nat \<Rightarrow> u128"
  en_cc :: cc_env
  en_ccs :: "u64 \<Rightarrow> cc_env"
  en_order :: "u64 set \<Rightarrow> u64 list"

record ('s, 'c) conn =
  cn_version :: u32
  cn_dcid :: "u8 list"
  cn_scid :: "u8 list"
  cn_spaces :: "epoch \<Rightarrow> pkt_space"
  cn_peer_tp :: transport_params
  cn_local_tp :: transport_params
  cn_tls :: 's
  cn_recovery :: "'c recovery"
  cn_application_protos :: "u8 list list"
  cn_recv_count :: usize
  cn_sent_count :: usize
  cn_rx_data :: u64
  cn_max_rx_data :: u64
  cn_max_rx_data_next :: u64
  cn_tx_data :: u64
  cn_max_tx_data :: u64
  cn_max_send_bytes :: usize
  cn_streams :: stream_map
  cn_odcid :: "u8 list option"
  cn_token :: "u8 list option"
  cn_error :: "u64 option"
  cn_app_error :: "u64 option"
  cn_app_reason :: "u8 list"
  cn_challenge :: "u8 list option"
  cn_idle_timer :: "instant option"
  cn_draining_timer :: "instant option"
  cn_is_server :: bool
  cn_derived_initial_secrets :: bool
  cn_did_version_negotiation :: bool
  cn_did_retry :: bool
  cn_got_peer_conn_id :: bool
  cn_verified_peer_address :: bool
  cn_parsed_peer_tp :: bool
  cn_handshake_done_sent :: bool
  cn_handshake_confirmed :: bool
  cn_ack_eliciting_sent :: bool
  cn_closed :: bool
  cn_grease :: bool
  cn_bct_offset :: int
  cn_data_ack_ratio :: u64
  cn_redundancy_rate :: rat
  cn_fec :: fec_conn
  cn_tail_size :: "u64 option"

abbreviation space_of :: "('s, 'c) conn \<Rightarrow> epoch \<Rightarrow> pkt_space" where
  "space_of c e \<equiv> cn_spaces c e"

text \<open>Actions on a packet number space, on the stream map, on the recovery state and on the session.\<close>

definition on_space :: "epoch \<Rightarrow> (pkt_space, 'a) act \<Rightarrow> (('s, 'c) conn, 'a) act" where
  "on_space e = on_part (\<lambda>c. cn_spaces c e) (\<lambda>p c. c\<lparr>cn_spaces := (cn_spaces c)(e := p)\<rparr>)"

definition on_streams :: "(stream_map, 'a) act \<Rightarrow> (('s, 'c) conn, 'a) act" where
  "on_streams = on_part cn_streams (\<lambda>m c. c\<lparr>cn_streams := m\<rparr>)"

definition on_recovery :: "('c recovery, 'a) act \<Rightarrow> (('s, 'c) conn, 'a) act" where
  "on_recovery = on_part cn_recovery (\<lambda>r c. c\<lparr>cn_recovery := r\<rparr>)"

definition on_tls :: "('s, 'a) act \<Rightarrow> (('s, 'c) conn, 'a) act" where
  "on_tls = on_part cn_tls (\<lambda>t c. c\<lparr>cn_tls := t\<rparr>)"

lemmas conn_parts = on_space_def on_streams_def on_recovery_def on_tls_def

definition is_established :: "('s, 'c, 'p) ext \<Rightarrow> ('s, 'c) conn \<Rightarrow> bool" where
  "is_established x c = tls_is_completed (x_ssl x) (cn_tls c)"

definition is_resumed :: "('s, 'c, 'p) ext \<Rightarrow> ('s, 'c) conn \<Rightarrow> bool" where
  "is_resumed x c = tls_is_resumed (x_ssl x) (cn_tls c)"

definition is_in_early_data :: "('s, 'c, 'p) ext \<Rightarrow> ('s, 'c) conn \<Rightarrow> bool" where
  "is_in_early_data x c = tls_is_in_early_data (x_ssl x) (cn_tls c)"

definition is_closed :: "('s, 'c) conn \<Rightarrow> bool" where
  "is_closed c = cn_closed c"

text \<open>\<open>is_closing\<close>: an error is waiting to be sent.\<close>

definition is_closing :: "('s, 'c) conn \<Rightarrow> bool" where
  "is_closing c \<longleftrightarrow> cn_error c \<noteq> None \<or> cn_app_error c \<noteq> None"

section \<open>The callbacks\<close>

text \<open>The epoch of \<open>level\<close>.\<close>

fun level_epoch :: "level \<Rightarrow> epoch" where
  "level_epoch LInitial = EPOCH_INITIAL"
| "level_epoch LZeroRTT = EPOCH_APPLICATION"
| "level_epoch LHandshake = EPOCH_HANDSHAKE"
| "level_epoch LOneRTT = EPOCH_APPLICATION"

definition secret_key :: "'p ring_hkdf \<Rightarrow> algorithm \<Rightarrow> u8 list \<Rightarrow> crypto_key result" where
  "secret_key h aead secret =
     bnd (derive_pkt_key h aead secret (key_len aead)) (\<lambda>key.
     bnd (derive_pkt_iv h aead secret (nonce_len aead)) (\<lambda>iv.
     bnd (derive_hdr_key h aead secret (key_len aead)) (\<lambda>pn_key.
     crypto_key_new h aead key iv pn_key)))"

text \<open>The code of a callback: \<open>return 0\<close> on an error of \<open>m\<close>.\<close>

definition or_zero :: "'a result \<Rightarrow> ('a \<Rightarrow> ('s, int) act) \<Rightarrow> ('s, int) act" where
  "or_zero m f = (case m of Ok y \<Rightarrow> f y | Err _ \<Rightarrow> ret 0 | Panic \<Rightarrow> lift Panic)"

definition set_encryption_secrets :: "'p ring_hkdf \<Rightarrow> level \<Rightarrow> u32 option \<Rightarrow> u8 list \<Rightarrow> u8 list \<Rightarrow> (('s, 'c) conn, int) act" where
  "set_encryption_secrets h level cipher read_secret write_secret =
     or_zero (cipher_algorithm cipher) (\<lambda>aead.
     andThen (reads_st cn_is_server) (\<lambda>is_server.
     andThen (if level \<noteq> LZeroRTT \<or> is_server
              then or_zero (secret_key h aead read_secret) (\<lambda>k.
                if level = LZeroRTT
                then andThen (on_space (level_epoch level) (modify (\<lambda>p. p\<lparr>ps_crypto_0rtt_open := Some k\<rparr>))) (\<lambda>_. ret 1)
                else andThen (on_space (level_epoch level) (modify (\<lambda>p. p\<lparr>ps_crypto_open := Some k\<rparr>))) (\<lambda>_. ret 2))
              else ret 2) (\<lambda>rc.
     if rc \<noteq> 2 then ret rc
     else
       andThen (if level \<noteq> LZeroRTT \<or> \<not> is_server
                then or_zero (secret_key h aead write_secret) (\<lambda>k.
                  andThen (on_space (level_epoch level) (modify (\<lambda>p. p\<lparr>ps_crypto_seal := Some k\<rparr>))) (\<lambda>_. ret 2))
                else ret 2) (\<lambda>rc.
       if rc \<noteq> 2 then ret rc else ret 1))))"

definition add_handshake_data :: "level \<Rightarrow> u8 list \<Rightarrow> (('s, 'c) conn, int) act" where
  "add_handshake_data level data =
     (if level = LZeroRTT then lift Panic
      else (\<lambda>c. let e = level_epoch level; p = cn_spaces c e; st = ps_crypto_stream p in
        case send_push_slice data False (st_send st) of (r, sb) \<Rightarrow>
          ((case r of Ok _ \<Rightarrow> Ok 1 | Err _ \<Rightarrow> Ok 0 | Panic \<Rightarrow> Panic),
           c\<lparr>cn_spaces := (cn_spaces c)(e := p\<lparr>ps_crypto_stream := st\<lparr>st_send := sb\<rparr>\<rparr>)\<rparr>)))"

definition flush_flight :: "(('s, 'c) conn, int) act" where
  "flush_flight = ret 1"

definition send_alert :: "u8 \<Rightarrow> (('s, 'c) conn, int) act" where
  "send_alert alert = andThen (modify (\<lambda>c. c\<lparr>cn_error := Some (TLS_ALERT_ERROR + ucast alert)\<rparr>)) (\<lambda>_. ret 1)"

lemma get_bytes_u8_cap: "get_bytes_with_u8_length b = Ok (v, b') \<Longrightarrow> cap b' < cap b"
proof -
  assume "get_bytes_with_u8_length b = Ok (v, b')"
  then obtain n b1 where "get_u8 b = Ok (n, b1)" "get_bytes (unat n) b1 = Ok (v, b')"
    by (auto simp: get_bytes_with_u8_length_def)
  then have "cap b1 < cap b" "cap b' \<le> cap b1"
    by (auto dest: u8c.get_cap_less get_bytes_advance simp: cap_def)
  then show ?thesis by simp
qed

text \<open>\<open>select_alpn\<close>: the first protocol of the peer's list that is ours; the length is truncated to a byte.\<close>

function alpn_loop :: "u8 list list \<Rightarrow> octets \<Rightarrow> (u8 list \<times> u8) option result" where
  "alpn_loop expected b =
     (case get_bytes_with_u8_length b of
        Ok (proto, b) \<Rightarrow>
          if as_ref proto \<in> set expected
          then Ok (Some (as_ref proto, of_nat (length (as_ref proto))))
          else alpn_loop expected b
      | Err _ \<Rightarrow> Ok None
      | Panic \<Rightarrow> Panic)"
  by pat_completeness auto
termination
  by (relation "measure (\<lambda>(expected, b). cap b)") (auto dest: get_bytes_u8_cap)

declare alpn_loop.simps [simp del]

definition select_alpn :: "u8 list \<Rightarrow> (('s, 'c) conn, int \<times> (u8 list \<times> u8) option) act" where
  "select_alpn inp =
     andThen (reads_st cn_application_protos) (\<lambda>protos.
     if protos = [] then ret (3, None)
     else andThen (lift (alpn_loop protos (with_slice inp))) (\<lambda>found.
          ret (case found of Some p \<Rightarrow> (0, Some p) | None \<Rightarrow> (3, None))))"

text \<open>A call into the library.\<close>

primrec run_ssl :: "('s, 'c, 'p) ext \<Rightarrow> 's ssl_run \<Rightarrow> (('s, 'c) conn, int) act" where
  "run_ssl x (SslDone rc t) = andThen (on_tls (modify (\<lambda>_. t))) (\<lambda>_. ret rc)"
| "run_ssl x (SslSecrets level cipher read_secret write_secret k) =
     andThen (set_encryption_secrets (x_hkdf x) level cipher read_secret write_secret) (\<lambda>rc. run_ssl x (k rc))"
| "run_ssl x (SslData level data k) = andThen (add_handshake_data level data) (\<lambda>rc. run_ssl x (k rc))"
| "run_ssl x (SslFlush k) = andThen flush_flight (\<lambda>rc. run_ssl x (k rc))"
| "run_ssl x (SslAlert level alert k) = andThen (send_alert alert) (\<lambda>rc. run_ssl x (k rc))"
| "run_ssl x (SslAlpn inp k) = andThen (select_alpn inp) (\<lambda>r. run_ssl x (k r))"

text \<open>\<open>Handshake::provide_data\<close>, \<open>do_handshake\<close> and \<open>clear\<close>.\<close>

definition tls_result :: "('s, 'c, 'p) ext \<Rightarrow> 's ssl_run \<Rightarrow> (('s, 'c) conn, unit) act" where
  "tls_result x run =
     andThen (run_ssl x run) (\<lambda>rc.
     andThen (reads_st cn_tls) (\<lambda>t. lift (map_result_ssl (x_ssl x) t rc)))"

definition tls_provide_data :: "('s, 'c, 'p) ext \<Rightarrow> level \<Rightarrow> u8 list \<Rightarrow> (('s, 'c) conn, unit) act" where
  "tls_provide_data x level data =
     andThen (reads_st cn_tls) (\<lambda>t. tls_result x (so_provide_data (x_ssl x) level data t))"

definition tls_do_handshake :: "('s, 'c, 'p) ext \<Rightarrow> (('s, 'c) conn, unit) act" where
  "tls_do_handshake x =
     andThen (reads_st cn_tls) (\<lambda>t. tls_result x (so_do_handshake (x_ssl x) t))"

definition tls_clear :: "('s, 'c, 'p) ext \<Rightarrow> (('s, 'c) conn, unit) act" where
  "tls_clear x = on_tls (ssl_call_ssl (x_ssl x) (so_clear (x_ssl x)))"

end
