(* ===== verification/ConnOps.thy ===== *)
theory ConnOps
  imports Conn Scheduler
begin

text \<open>The operations of a connection beside receiving and sending packets (\<open>src/lib.rs\<close>): creation, the
  stream interface of the application, the handshake, the choice of the epoch to send in, timers and
  closing.\<close>

section \<open>Creation\<close>

record config =
  cf_local_tp :: transport_params
  cf_version :: u32
  cf_application_protos :: "u8 list list"
  cf_grease :: bool
  cf_cc_algorithm :: cc_algorithm
  cf_bct_offset :: int
  cf_init_cwnd :: u64
  cf_init_pacing_rate :: u64
  cf_data_ack_ratio :: u64
  cf_redundancy_rate :: rat
  cf_tail_size :: u64
  cf_scheduler_type :: scheduler_type

definition config_new :: "u32 \<Rightarrow> config" where
  "config_new version =
     \<lparr>cf_local_tp = tp_default, cf_version = version, cf_application_protos = [], cf_grease = True,
      cf_cc_algorithm = AlgReno, cf_bct_offset = 0, cf_init_cwnd = INITIAL_WINDOW, cf_init_pacing_rate = - 1,
      cf_data_ack_ratio = 4, cf_redundancy_rate = 0, cf_tail_size = 5, cf_scheduler_type = SchedDynamic\<rparr>"

text \<open>The list of protocols that \<open>set_application_protos\<close> reads from its argument.\<close>

function protos_list :: "octets \<Rightarrow> u8 list list result" where
  "protos_list b =
     (case get_bytes_with_u8_length b of
        Ok (proto, b) \<Rightarrow> bnd (protos_list b) (\<lambda>ps. Ok (as_ref proto # ps))
      | Err _ \<Rightarrow> Ok []
      | Panic \<Rightarrow> Panic)"
  by pat_completeness auto
termination
  by (relation "measure cap") (auto dest: get_bytes_u8_cap)

declare protos_list.simps [simp del]

text \<open>\<open>tls::Context::set_alpn\<close>: the wire form of the list handed to \<open>SSL_CTX_set_alpn_protos\<close>.\<close>

definition alpn_wire :: "u8 list list \<Rightarrow> u8 list" where
  "alpn_wire v = concat (map (\<lambda>proto. of_nat (length proto) # proto) v)"

definition set_application_protos :: "(u8 list \<Rightarrow> int) \<Rightarrow> u8 list \<Rightarrow> config \<Rightarrow> (unit result \<times> config)" where
  "set_application_protos set_alpn_protos protos cf =
     (case protos_list (with_slice protos) of
        Ok ps \<Rightarrow>
          let cf = cf\<lparr>cf_application_protos := ps\<rparr>
          in (map_result_zero_is_success (set_alpn_protos (alpn_wire ps)), cf)
      | Err e \<Rightarrow> (Err e, cf)
      | Panic \<Rightarrow> (Panic, cf))"

text \<open>\<open>Connection::with_tls\<close>. \<open>cc\<close> is the controller \<open>Recovery::new\<close> makes for the configuration, \<open>rnd\<close>
  the 16 random bytes of a client's first destination connection id.\<close>

definition conn_init :: "('s, 'c, 'p) ext \<Rightarrow> conn_env \<Rightarrow> config \<Rightarrow> 'c \<Rightarrow> u8 list \<Rightarrow> u8 list option \<Rightarrow> 's \<Rightarrow> bool
    \<Rightarrow> ('s, 'c) conn" where
  "conn_init x env cf cc scid odcid tls is_server =
     (let tp = cf_local_tp cf; max_rx_data = tp_initial_max_data tp in
      \<lparr>cn_version = cf_version cf, cn_dcid = [], cn_scid = scid,
       cn_spaces = (\<lambda>_. space_new (en_now env) (en_wall env) (en_clock env)),
       cn_peer_tp = tp_default, cn_local_tp = tp, cn_tls = tls, cn_recovery = rec_new (en_now env) cc,
       cn_application_protos = cf_application_protos cf, cn_recv_count = 0, cn_sent_count = 0,
       cn_rx_data = 0, cn_max_rx_data = max_rx_data, cn_max_rx_data_next = max_rx_data,
       cn_tx_data = 0, cn_max_tx_data = 0, cn_max_send_bytes = 0,
       cn_streams = sm_new (x_interface x \<noteq> None) (x_basic x) (tp_initial_max_streams_bidi tp)
         (tp_initial_max_streams_uni tp) (cf_scheduler_type cf),
       cn_odcid = None, cn_token = None, cn_error = None, cn_app_error = None, cn_app_reason = [],
       cn_challenge = None, cn_idle_timer = None, cn_draining_timer = None, cn_is_server = is_server,
       cn_derived_initial_secrets = False, cn_did_version_negotiation = False, cn_did_retry = False,
       cn_got_peer_conn_id = False, cn_verified_peer_address = (odcid \<noteq> None), cn_parsed_peer_tp = False,
       cn_handshake_done_sent = False, cn_handshake_confirmed = False, cn_ack_eliciting_sent = False,
       cn_closed = False, cn_grease = cf_grease cf, cn_bct_offset = cf_bct_offset cf,
       cn_data_ack_ratio = cf_data_ack_ratio cf, cn_redundancy_rate = cf_redundancy_rate cf,
       cn_fec = fec_conn_new, cn_tail_size = (if x_fec x then Some (cf_tail_size cf) else None)\<rparr>)"

definition set_initial_keys :: "('s, 'c, 'p) ext \<Rightarrow> u8 list \<Rightarrow> (('s, 'c) conn, unit) act" where
  "set_initial_keys x cid =
     andThen (reads_st cn_is_server) (\<lambda>is_server.
     andThen (lift (derive_initial_key_material (x_hkdf x) cid is_server)) (\<lambda>(aead_open, aead_seal).
     on_space EPOCH_INITIAL (modify (\<lambda>p. p\<lparr>ps_crypto_open := Some aead_open, ps_crypto_seal := Some aead_seal\<rparr>))))"

definition with_tls :: "('s, 'c, 'p) ext \<Rightarrow> conn_env \<Rightarrow> config \<Rightarrow> 'c \<Rightarrow> u8 list \<Rightarrow> u8 list \<Rightarrow> u8 list option \<Rightarrow> 's \<Rightarrow> bool
    \<Rightarrow> ('s, 'c) conn result" where
  "with_tls x env cf cc rnd scid odcid tls is_server =
     (case
        andThen (modify (\<lambda>c. case odcid of Some cid \<Rightarrow> c\<lparr>cn_local_tp := (cn_local_tp c)\<lparr>tp_original_connection_id := Some cid\<rparr>\<rparr>
                             | None \<Rightarrow> c)) (\<lambda>_.
        andThen (reads_st cn_local_tp) (\<lambda>tp.
        andThen (on_tls (tls_init (x_ssl x) is_server tp)) (\<lambda>_.
        whenever (\<not> is_server)
          (andThen (set_initial_keys x rnd) (\<lambda>_.
           modify (\<lambda>c. c\<lparr>cn_dcid := cn_dcid c @ rnd, cn_derived_initial_secrets := True\<rparr>))))))
          (conn_init x env cf cc scid odcid tls is_server)
      of (Ok _, c) \<Rightarrow> Ok c | (Err e, _) \<Rightarrow> Err e | (Panic, _) \<Rightarrow> Panic)"

definition conn_accept :: "('s, 'c, 'p) ext \<Rightarrow> conn_env \<Rightarrow> config \<Rightarrow> 'c \<Rightarrow> u8 list \<Rightarrow> u8 list option \<Rightarrow> 's
    \<Rightarrow> ('s, 'c) conn result" where
  "conn_accept x env cf cc scid odcid tls = with_tls x env cf cc [] scid odcid tls True"

definition conn_connect :: "('s, 'c, 'p) ext \<Rightarrow> conn_env \<Rightarrow> config \<Rightarrow> 'c \<Rightarrow> u8 list \<Rightarrow> string option \<Rightarrow> u8 list \<Rightarrow> 's
    \<Rightarrow> ('s, 'c) conn result" where
  "conn_connect x env cf cc rnd server_name scid tls =
     bnd (with_tls x env cf cc rnd scid None tls False) (\<lambda>c.
     case server_name of
       None \<Rightarrow> Ok c
     | Some name \<Rightarrow>
         (case on_tls (tls_set_host_name (x_ssl x) name) c of
            (Ok _, c) \<Rightarrow> Ok c | (Err e, _) \<Rightarrow> Err e | (Panic, _) \<Rightarrow> Panic))"

section \<open>Streams\<close>

text \<open>An action on the stream \<open>sid\<close>, failing with \<open>e\<close> when there is none.\<close>

definition on_stream :: "u64 \<Rightarrow> error \<Rightarrow> (stream, 'a) act \<Rightarrow> (stream_map, 'a) act" where
  "on_stream sid e m = (\<lambda>sm. case sm_streams sm sid of
     None \<Rightarrow> (Err e, sm)
   | Some s \<Rightarrow> (case m s of (r, s) \<Rightarrow> (r, sm\<lparr>sm_streams := (sm_streams sm)(sid \<mapsto> s)\<rparr>)))"

definition on_recv :: "(recv_buf, 'a) act \<Rightarrow> (stream, 'a) act" where
  "on_recv = on_part st_recv (\<lambda>r s. s\<lparr>st_recv := r\<rparr>)"

definition on_send :: "(send_buf, 'a) act \<Rightarrow> (stream, 'a) act" where
  "on_send = on_part st_send (\<lambda>b s. s\<lparr>st_send := b\<rparr>)"

definition get_or_create_stream_full :: "conn_env \<Rightarrow> u64 \<Rightarrow> bool \<Rightarrow> u64 \<Rightarrow> u64 \<Rightarrow> u64 \<Rightarrow> (('s, 'c) conn, stream) act" where
  "get_or_create_stream_full env sid local deadline priority depend_id =
     (\<lambda>c. on_streams (pure_val (sm_get_or_create (en_wall env) (en_clock env) sid (cn_local_tp c) (cn_peer_tp c) local
            (cn_is_server c) deadline priority depend_id)) c)"

definition get_or_create_stream :: "conn_env \<Rightarrow> u64 \<Rightarrow> bool \<Rightarrow> (('s, 'c) conn, stream) act" where
  "get_or_create_stream env sid local = get_or_create_stream_full env sid local MAX_DEADLINE DEFAULT_PRIORITY sid"

text \<open>\<open>stream_recv\<close> into a buffer of \<open>n\<close> bytes: the bytes read and whether the stream is at its end.\<close>

definition stream_recv :: "u64 \<Rightarrow> nat \<Rightarrow> (('s, 'c) conn, u8 list \<times> bool) act" where
  "stream_recv sid n =
     andThen (reads_st cn_is_server) (\<lambda>is_server.
     andThen (fail_if (\<not> is_bidi sid \<and> is_local sid is_server) InvalidStreamState) (\<lambda>_.
     andThen (on_streams (on_stream sid InvalidStreamState (
       andThen (reads_st stream_is_readable) (\<lambda>readable.
       andThen (fail_if (\<not> readable) Done) (\<lambda>_.
       andThen (on_recv (pure_val (recv_pop n))) (\<lambda>res.
       andThen (reads_st (\<lambda>s. s)) (\<lambda>s. ret (res, s)))))))) (\<lambda>(res, s).
     andThen (modify (\<lambda>c. c\<lparr>cn_max_rx_data_next := sat_add64 (cn_max_rx_data_next c) (of_nat (length (fst res)))\<rparr>)) (\<lambda>_.
     andThen (on_streams (modify (\<lambda>m.
       let m = (if recv_almost_full (st_recv s) then sm_mark_almost_full sid True m else m);
           m = (if \<not> stream_is_readable s then sm_mark_readable sid False m else m)
       in if stream_is_complete s then sm_collect sid (st_local s) m else m))) (\<lambda>_.
     ret res)))))"

definition stream_send_full :: "conn_env \<Rightarrow> u64 \<Rightarrow> u8 list \<Rightarrow> bool \<Rightarrow> u64 \<Rightarrow> u64 \<Rightarrow> u64 \<Rightarrow> (('s, 'c) conn, nat) act" where
  "stream_send_full env sid data fin deadline priority depend_id =
     andThen (reads_st cn_is_server) (\<lambda>is_server.
     andThen (fail_if (\<not> is_bidi sid \<and> \<not> is_local sid is_server) InvalidStreamState) (\<lambda>_.
     andThen (get_or_create_stream_full env sid True deadline priority depend_id) (\<lambda>s.
     let was_flushable = stream_is_flushable s in
     andThen (on_streams (on_stream sid InvalidStreamState (
       andThen (on_send (send_push_slice data fin)) (\<lambda>sent.
       andThen (reads_st (\<lambda>s. s)) (\<lambda>s. ret (sent, s)))))) (\<lambda>(sent, s).
     let empty_fin = (data = [] \<and> fin) in
     andThen (on_streams (modify (\<lambda>m.
       let m = (if (stream_is_flushable s \<or> empty_fin) \<and> \<not> was_flushable then sm_push_flushable sid m else m)
       in if \<not> stream_is_writable s then sm_mark_writable sid False m else m))) (\<lambda>_.
     ret sent)))))"

definition stream_send :: "conn_env \<Rightarrow> u64 \<Rightarrow> u8 list \<Rightarrow> bool \<Rightarrow> (('s, 'c) conn, nat) act" where
  "stream_send env sid data fin = stream_send_full env sid data fin MAX_DEADLINE DEFAULT_PRIORITY sid"

datatype shutdown = ShutdownRead | ShutdownWrite

definition stream_shutdown :: "u64 \<Rightarrow> shutdown \<Rightarrow> (('s, 'c) conn, unit) act" where
  "stream_shutdown sid direction =
     (case direction of
        ShutdownRead \<Rightarrow>
          andThen (on_streams (on_stream sid Done (on_recv (pure_act recv_shutdown)))) (\<lambda>_.
          on_streams (modify (sm_mark_readable sid False)))
      | ShutdownWrite \<Rightarrow>
          andThen (on_streams (on_stream sid Done (on_send (pure_act send_shutdown)))) (\<lambda>_.
          on_streams (modify (sm_mark_writable sid False))))"

definition stream_capacity :: "u64 \<Rightarrow> ('s, 'c) conn \<Rightarrow> nat result" where
  "stream_capacity sid c =
     (case sm_get sid (cn_streams c) of Some s \<Rightarrow> Ok (send_cap (st_send s)) | None \<Rightarrow> Err InvalidStreamState)"

definition stream_received :: "u64 \<Rightarrow> ('s, 'c) conn \<Rightarrow> bool" where
  "stream_received sid c =
     (case sm_get sid (cn_streams c) of Some s \<Rightarrow> recv_all_received (st_recv s) | None \<Rightarrow> True)"

definition stream_finished :: "u64 \<Rightarrow> ('s, 'c) conn \<Rightarrow> bool" where
  "stream_finished sid c =
     (case sm_get sid (cn_streams c) of Some s \<Rightarrow> recv_is_fin (st_recv s) | None \<Rightarrow> True)"

definition conn_block_info :: "u64 \<Rightarrow> ('s, 'c) conn \<Rightarrow> (u64 \<times> u64 \<times> u64) result" where
  "conn_block_info sid c =
     bnd (unwrap (sm_get sid (cn_streams c))) (\<lambda>s. Ok (recv_get_block_info (st_recv s)))"

definition conn_bct :: "u64 \<Rightarrow> ('s, 'c) conn \<Rightarrow> u64 result" where
  "conn_bct sid c = bnd (unwrap (sm_get sid (cn_streams c))) (\<lambda>s. Ok (rv_bct (st_recv s)))"

definition conn_good_recv :: "u64 \<Rightarrow> ('s, 'c) conn \<Rightarrow> nat result" where
  "conn_good_recv sid c = bnd (unwrap (sm_get sid (cn_streams c))) (\<lambda>s. Ok (rv_good_recv (st_recv s)))"

text \<open>The streams that \<open>readable\<close> and \<open>writable\<close> enumerate.\<close>

definition conn_readable :: "('s, 'c) conn \<Rightarrow> u64 set" where
  "conn_readable c = sm_readable (cn_streams c)"

definition conn_writable :: "('s, 'c) conn \<Rightarrow> u64 set" where
  "conn_writable c = (if cn_max_tx_data c \<le> cn_tx_data c then {} else sm_writable (cn_streams c))"

section \<open>Handshake\<close>

definition do_handshake :: "('s, 'c, 'p) ext \<Rightarrow> (('s, 'c) conn, unit) act" where
  "do_handshake x =
     andThen (reads_st (is_established x)) (\<lambda>established.
     if established then ret ()
     else
       unless_done (tls_do_handshake x) (\<lambda>_.
       andThen (reads_st (\<lambda>c. so_alpn_selected (x_ssl x) (cn_tls c))) (\<lambda>proto.
       if proto = [] then andThen (modify (\<lambda>c. c\<lparr>cn_error := Some 0x178\<rparr>)) (\<lambda>_. throw TlsFail)
       else
         andThen (reads_st (\<lambda>c. c)) (\<lambda>c.
         whenever (\<not> cn_parsed_peer_tp c)
           (andThen (lift (tp_decode (so_peer_transport_params (x_ssl x) (cn_tls c)) (cn_is_server c))) (\<lambda>peer.
            andThen (fail_if (tp_original_connection_id peer \<noteq> cn_odcid c) InvalidTransportParam) (\<lambda>_.
            modify (\<lambda>c. c\<lparr>cn_max_tx_data := tp_initial_max_data peer,
              cn_streams := sm_update_peer_max_streams_uni (tp_initial_max_streams_uni peer)
                (sm_update_peer_max_streams_bidi (tp_initial_max_streams_bidi peer) (cn_streams c)),
              cn_recovery := (cn_recovery c)\<lparr>rc_max_ack_delay := millis (unat (tp_max_ack_delay peer))\<rparr>,
              cn_peer_tp := peer, cn_parsed_peer_tp := True\<rparr>))))))))"

section \<open>Closing, timers and the epoch to send in\<close>

definition conn_close :: "bool \<Rightarrow> u64 \<Rightarrow> u8 list \<Rightarrow> (('s, 'c) conn, unit) act" where
  "conn_close app err reason =
     andThen (reads_st (\<lambda>c. c)) (\<lambda>c.
     andThen (fail_if (cn_draining_timer c \<noteq> None) Done) (\<lambda>_.
     andThen (fail_if (is_closing c) Done) (\<lambda>_.
     if app then modify (\<lambda>c. c\<lparr>cn_app_error := Some err, cn_app_reason := cn_app_reason c @ reason\<rparr>)
     else modify (\<lambda>c. c\<lparr>cn_error := Some err\<rparr>))))"

definition conn_timer :: "('s, 'c) conn \<Rightarrow> instant option" where
  "conn_timer c =
     (if cn_draining_timer c \<noteq> None then cn_draining_timer c
      else case (cn_idle_timer c, rc_loss_detection_timer (cn_recovery c)) of
        (Some a, Some b) \<Rightarrow> Some (min a b) | (Some a, None) \<Rightarrow> Some a | (None, t) \<Rightarrow> t)"

definition conn_timeout :: "instant \<Rightarrow> ('s, 'c) conn \<Rightarrow> duration option" where
  "conn_timeout now c =
     (if cn_closed c then None
      else case conn_timer c of
        Some timeout \<Rightarrow> Some (if timeout \<le> now then 0 else duration_since timeout now)
      | None \<Rightarrow> None)"

definition on_timeout :: "('s, 'c, 'p) ext \<Rightarrow> conn_env \<Rightarrow> (('s, 'c) conn, unit) act" where
  "on_timeout x env =
     (let now = en_now env in
      andThen (reads_st (\<lambda>c. c)) (\<lambda>c.
      case cn_draining_timer c of
        Some draining_timer \<Rightarrow> whenever (draining_timer \<le> now) (modify (\<lambda>c. c\<lparr>cn_closed := True\<rparr>))
      | None \<Rightarrow>
          if (case cn_idle_timer c of Some timer \<Rightarrow> timer \<le> now | None \<Rightarrow> False)
          then modify (\<lambda>c. c\<lparr>cn_closed := True\<rparr>)
          else
            whenever (case rc_loss_detection_timer (cn_recovery c) of Some timer \<Rightarrow> timer \<le> now | None \<Rightarrow> False)
              (on_recovery (pure_act (rec_on_loss_detection_timeout (x_cc x) (en_cc env) (is_established x c) now)))))"

definition drop_epoch_state :: "('s, 'c, 'p) ext \<Rightarrow> conn_env \<Rightarrow> epoch \<Rightarrow> ('s, 'c) conn \<Rightarrow> ('s, 'c) conn" where
  "drop_epoch_state x env e c =
     (if ps_crypto_open (cn_spaces c e) = None then c
      else
        let p = (cn_spaces c e)\<lparr>ps_crypto_open := None, ps_crypto_seal := None\<rparr>
        in c\<lparr>cn_spaces := (cn_spaces c)(e := space_clear (en_wall env) (en_clock env) p),
             cn_recovery := rec_drop_unacked_data (x_cc x) e (cn_recovery c)\<rparr>)"

definition should_update_max_data :: "('s, 'c) conn \<Rightarrow> bool" where
  "should_update_max_data c \<longleftrightarrow>
     cn_max_rx_data_next c \<noteq> cn_max_rx_data c \<and> cn_max_rx_data_next c div 2 > cn_max_rx_data c - cn_rx_data c"

definition idle_timeout :: "('s, 'c) conn \<Rightarrow> duration option" where
  "idle_timeout c =
     (let l = tp_max_idle_timeout (cn_local_tp c); p = tp_max_idle_timeout (cn_peer_tp c) in
      if l = 0 \<and> p = 0 then None
      else
        let t = (if l = 0 then p else if p = 0 then l else min l p)
        in Some (max (millis (unat t)) (3 * rec_pto (cn_recovery c))))"

definition set_tail :: "('s, 'c, 'p) ext \<Rightarrow> u64 \<Rightarrow> ('s, 'c) conn \<Rightarrow> ('s, 'c) conn" where
  "set_tail x tail_size c = c\<lparr>cn_tail_size := (if x_fec x then Some (tail_size * 1350) else None)\<rparr>"

definition get_data_ack_ratio :: "('s, 'c, 'p) ext \<Rightarrow> u64 \<Rightarrow> u64" where
  "get_data_ack_ratio x ratio =
     (let ack_ratio = (if x_interface x = None then ratio else x_ack_ratio x)
      in if ack_ratio > 0 then ack_ratio else 4)"

definition get_redundancy_rate :: "('s, 'c, 'p) ext \<Rightarrow> block \<Rightarrow> rat \<Rightarrow> f64 \<Rightarrow> f64 \<Rightarrow> u64 \<Rightarrow> usize \<Rightarrow> usize \<Rightarrow> rat" where
  "get_redundancy_rate x blk rate rtt pacing_rate current_time loss_count total_pkt_nums =
     (if \<not> x_fec x then 0
      else if x_interface x \<noteq> None then x_redundancy x
      else
        let waiting_time = current_time - blk_create_time blk;
            remaining_time = (if waiting_time > blk_deadline blk then 0 else blk_deadline blk - waiting_time)
        in if f64_of_u64 remaining_time < rtt * Fin 2 then rate
           else if f64_of_u64 (blk_remaining blk) / f64_of_u64 remaining_time
                   * (Fin 1 + f64_of_u64 loss_count / f64_of_u64 total_pkt_nums) * Fin 8 < pacing_rate
           then rate
           else 0)"

text \<open>The epoch of the level at which TLS writes; a packet that closes the connection is sent in it.\<close>

definition write_epoch :: "('s, 'c, 'p) ext \<Rightarrow> ('s, 'c) conn \<Rightarrow> epoch result" where
  "write_epoch x c =
     (let established = is_established x c; r = cn_recovery c; m = cn_streams c in
      if cn_error c \<noteq> None then
        (let level = so_write_level (x_ssl x) (cn_tls c) in
         if level = LZeroRTT then Panic
         else if level_epoch level = EPOCH_APPLICATION \<and> \<not> established then Ok EPOCH_HANDSHAKE
         else Ok (level_epoch level))
      else
        case filter (\<lambda>e. (e = EPOCH_APPLICATION \<longrightarrow> established)
               \<and> (space_ready (cn_spaces c e) \<or> rc_lost r e \<noteq> [] \<or> rc_loss_probes r e > 0)) [0..<EPOCH_COUNT] of
          e # _ \<Rightarrow> Ok e
        | [] \<Rightarrow>
            if established \<and> (should_update_max_data c \<or> sm_should_update_max_streams_bidi m
                 \<or> sm_should_update_max_streams_uni m \<or> sm_has_flushable m \<or> sm_has_almost_full m)
            then Ok EPOCH_APPLICATION
            else Err Done)"

record stats =
  stat_recv :: usize
  stat_sent :: usize
  stat_lost :: usize
  stat_cwnd :: usize
  stat_rtt :: duration

definition conn_stats :: "('s, 'c, 'p) ext \<Rightarrow> ('s, 'c) conn \<Rightarrow> stats" where
  "conn_stats x c =
     \<lparr>stat_recv = cn_recv_count c, stat_sent = cn_sent_count c, stat_lost = rc_lost_count (cn_recovery c),
      stat_cwnd = co_cwnd (x_cc x) (rc_cc (cn_recovery c)), stat_rtt = rec_rtt (cn_recovery c)\<rparr>"

end
