(* ===== verification/ConnFrame.thy ===== *)
theory ConnFrame
  imports ConnOps
begin

text \<open>\<open>Connection::process_frame\<close> (\<open>src/lib.rs\<close>): what a connection does with each frame it receives.\<close>

section \<open>Crypto data\<close>

text \<open>The chunks of at most 512 bytes that the loop of the \<open>CRYPTO\<close> handler pops, each with the receive
  buffer after the pop. The loop hands every chunk to TLS before the next pop; TLS does not touch the
  receive buffer.\<close>

definition recv_size :: "recv_buf \<Rightarrow> nat" where
  "recv_size r = sum_list (map (\<lambda>b. Suc (rb_len b)) (rv_data r))"

lemma recv_size_mset: "recv_size r = \<Sum>\<^sub># (image_mset (\<lambda>b. Suc (rb_len b)) (mset (rv_data r)))"
  by (simp add: recv_size_def sum_mset_sum_list flip: mset_map)

lemma mset_bh_push: "mset (bh_push key x xs) = add_mset x (mset xs)"
  by (simp add: bh_push_def)

lemma bh_pop_ready: "recv_ready r \<Longrightarrow> \<exists>b data. bh_pop rb_off (rv_data r) = Some (b, data)"
  by (cases "rv_data r = []") (auto simp: recv_ready_def bh_peek_def bh_pop_def Let_def split: prod.split)

lemma recv_pop_loop_size:
  "recv_pop_loop n out r = (out', r') \<Longrightarrow>
   recv_size r' \<le> recv_size r \<and> (0 < n \<and> recv_ready r \<longrightarrow> recv_size r' < recv_size r)"
proof (induction n out r arbitrary: out' r' rule: recv_pop_loop.induct)
  case (1 n out r)
  show ?case
  proof (cases "0 < n \<and> recv_ready r")
    case True
    then obtain b data where pop: "bh_pop rb_off (rv_data r) = Some (b, data)"
      using bh_pop_ready by blast
    define q where "q = (if n < rb_len b
      then (b\<lparr>rb_data := take n (rb_data b), rb_fin := False\<rparr>,
            bh_push rb_off \<lparr>rb_data = drop n (rb_data b), rb_off = rb_off b + of_nat n, rb_fin = rb_fin b\<rparr> data)
      else (b, data))"
    have run: "recv_pop_loop (n - rb_len (fst q)) (out @ rb_data (fst q))
        (r\<lparr>rv_data := snd q, rv_off := rv_off r + of_nat (rb_len (fst q))\<rparr>) = (out', r')"
      using "1.prems" True pop by (simp add: recv_pop_loop.simps [of n] q_def split: if_splits)
    have "recv_size r' \<le> recv_size (r\<lparr>rv_data := snd q, rv_off := rv_off r + of_nat (rb_len (fst q))\<rparr>)"
      using "1.IH" [OF True pop refl q_def prod.collapse] run by simp
    also have "\<dots> < recv_size r"
      using True bh_pop_mset [OF pop]
      by (auto simp: recv_size_mset q_def mset_bh_push rb_len_def)
    finally show ?thesis by simp
  next
    case False
    with "1.prems" show ?thesis by (auto simp: recv_pop_loop.simps [of n] split: if_splits)
  qed
qed

lemma recv_pop_size: "recv_pop 512 r = Ok (res, r') \<Longrightarrow> recv_size r' < recv_size r"
  using recv_pop_loop_size [of 512 "[]" r]
  by (auto simp: recv_pop_def recv_size_def Let_def split: if_splits prod.splits)

function crypto_chunks :: "recv_buf \<Rightarrow> (u8 list \<times> recv_buf) list" where
  "crypto_chunks r =
     (case recv_pop 512 r of
        Ok ((chunk, _), r) \<Rightarrow> (chunk, r) # crypto_chunks r
      | _ \<Rightarrow> [])"
  by pat_completeness auto
termination
  by (relation "measure recv_size") (auto dest: recv_pop_size)

declare crypto_chunks.simps [simp del]

definition process_crypto :: "('s, 'c, 'p) ext \<Rightarrow> conn_env \<Rightarrow> range_buf \<Rightarrow> epoch \<Rightarrow> (('s, 'c) conn, unit) act" where
  "process_crypto x env data e =
     andThen (on_space e (on_part ps_crypto_stream (\<lambda>s p. p\<lparr>ps_crypto_stream := s\<rparr>)
       (on_recv (pure_act (recv_push (en_recv_clock env) data))))) (\<lambda>_.
     andThen (lift (level_from_epoch e)) (\<lambda>level.
     andThen (reads_st (\<lambda>c. crypto_chunks (st_recv (ps_crypto_stream (cn_spaces c e))))) (\<lambda>chunks.
     andThen (each (\<lambda>(chunk, r).
         andThen (on_space e (modify (\<lambda>p. p\<lparr>ps_crypto_stream := (ps_crypto_stream p)\<lparr>st_recv := r\<rparr>\<rparr>))) (\<lambda>_.
         tls_provide_data x level chunk)) chunks) (\<lambda>_.
     do_handshake x))))"

section \<open>The other frames\<close>

definition checked_mul :: "u64 \<Rightarrow> u64 \<Rightarrow> u64 option" where
  "checked_mul a b = (if unat a * unat b < 2 ^ 64 then Some (a * b) else None)"

definition process_ack :: "('s, 'c, 'p) ext \<Rightarrow> conn_env \<Rightarrow> u64 \<Rightarrow> u64 \<Rightarrow> rangeset \<Rightarrow> epoch \<Rightarrow> instant
    \<Rightarrow> (('s, 'c) conn, unit) act" where
  "process_ack x env packet_time ack_delay ranges e now =
     andThen (reads_st (\<lambda>c. 2 ^ unat (ucast (tp_ack_delay_exponent (cn_peer_tp c)) :: u32))) (\<lambda>scale.
     andThen (lift (ok_or InvalidFrame (checked_mul ack_delay scale))) (\<lambda>ack_delay.
     andThen (lift (ok_or InvalidFrame (checked_mul packet_time scale))) (\<lambda>packet_time.
     andThen (reads_st (is_established x)) (\<lambda>established.
     andThen (on_recovery (pure_act (rec_on_ack_received (x_cc x) (en_ccs env) (en_cc env) ranges ack_delay e established now))) (\<lambda>_.
     andThen (reads_st (is_established x)) (\<lambda>established.
     whenever (e = EPOCH_APPLICATION \<and> established)
       (modify (\<lambda>c. drop_epoch_state x env EPOCH_HANDSHAKE (c\<lparr>cn_handshake_confirmed := True\<rparr>)))))))))"

text \<open>A frame about a stream on which the peer sends.\<close>

definition peer_may_send :: "u64 \<Rightarrow> (('s, 'c) conn, unit) act" where
  "peer_may_send sid =
     andThen (reads_st cn_is_server) (\<lambda>is_server.
     fail_if (\<not> is_bidi sid \<and> is_local sid is_server) InvalidStreamState)"

definition process_block_info :: "conn_env \<Rightarrow> u64 \<Rightarrow> u64 \<Rightarrow> u64 \<Rightarrow> u64 \<Rightarrow> u64 \<Rightarrow> (('s, 'c) conn, unit) act" where
  "process_block_info env sid block_size block_priority block_deadline start_time =
     andThen (peer_may_send sid) (\<lambda>_.
     andThen (get_or_create_stream env sid False) (\<lambda>_.
     on_streams (on_stream sid InvalidStreamState (on_recv
       (modify (recv_set_block_info block_size block_priority block_deadline (ucast start_time)))))))"

definition process_reset :: "conn_env \<Rightarrow> u64 \<Rightarrow> u16 \<Rightarrow> u64 \<Rightarrow> (('s, 'c) conn, unit) act" where
  "process_reset env sid error_code final_size =
     andThen (peer_may_send sid) (\<lambda>_.
     unless_done (get_or_create_stream env sid False) (\<lambda>_.
     andThen (on_streams (on_stream sid InvalidStreamState (on_recv
       (andThen (whenever (error_code = 1) (pure_act recv_shutdown)) (\<lambda>_. pure_val (recv_reset final_size)))))) (\<lambda>n.
     andThen (modify (\<lambda>c. c\<lparr>cn_rx_data := cn_rx_data c + of_nat n\<rparr>)) (\<lambda>_.
     andThen (reads_st (\<lambda>c. cn_rx_data c > cn_max_rx_data c)) (\<lambda>over. fail_if over FlowControl)))))"

definition process_stream :: "conn_env \<Rightarrow> u64 \<Rightarrow> range_buf \<Rightarrow> (('s, 'c) conn, unit) act" where
  "process_stream env sid data =
     andThen (peer_may_send sid) (\<lambda>_.
     let data_len = of_nat (rb_len data) in
     andThen (reads_st (\<lambda>c. cn_rx_data c + data_len > cn_max_rx_data c)) (\<lambda>over.
     andThen (fail_if over FlowControl) (\<lambda>_.
     unless_done (get_or_create_stream env sid False) (\<lambda>_.
     andThen (on_streams (on_stream sid InvalidStreamState
       (andThen (on_recv (pure_act (recv_push_evaluation (en_recv_clock env) data))) (\<lambda>_.
        reads_st stream_is_readable)))) (\<lambda>readable.
     andThen (whenever readable (on_streams (modify (sm_mark_readable sid True)))) (\<lambda>_.
     modify (\<lambda>c. c\<lparr>cn_rx_data := cn_rx_data c + data_len\<rparr>)))))))"

definition process_max_stream_data :: "conn_env \<Rightarrow> u64 \<Rightarrow> u64 \<Rightarrow> (('s, 'c) conn, unit) act" where
  "process_max_stream_data env sid max_data =
     unless_done (get_or_create_stream env sid False) (\<lambda>s.
     let was_flushable = stream_is_flushable s in
     andThen (on_streams (on_stream sid InvalidStreamState
       (andThen (on_send (modify (send_update_max_data max_data))) (\<lambda>_. reads_st (\<lambda>s. s))))) (\<lambda>s.
     andThen (whenever (stream_is_flushable s \<and> \<not> was_flushable) (on_streams (modify (sm_push_flushable sid)))) (\<lambda>_.
     whenever (stream_is_writable s) (on_streams (modify (sm_mark_writable sid True))))))"

definition process_frame :: "('s, 'c, 'p) ext \<Rightarrow> conn_env \<Rightarrow> frame \<Rightarrow> epoch \<Rightarrow> instant \<Rightarrow> (('s, 'c) conn, unit) act" where
  "process_frame x env fr e now =
     (case fr of
        ACK packet_time ack_delay ranges \<Rightarrow> process_ack x env packet_time ack_delay ranges e now
      | BlockInfo sid block_size block_priority block_deadline start_time \<Rightarrow>
          process_block_info env sid block_size block_priority block_deadline start_time
      | ResetStream sid error_code final_size \<Rightarrow> process_reset env sid error_code final_size
      | StopSending sid _ \<Rightarrow>
          andThen (reads_st cn_is_server) (\<lambda>is_server.
          fail_if (\<not> is_local sid is_server \<and> \<not> is_bidi sid) InvalidStreamState)
      | CryptoFrame data \<Rightarrow> process_crypto x env data e
      | StreamFrame sid data \<Rightarrow> process_stream env sid data
      | MaxData m \<Rightarrow> modify (\<lambda>c. c\<lparr>cn_max_tx_data := max (cn_max_tx_data c) m\<rparr>)
      | MaxStreamData sid m \<Rightarrow> process_max_stream_data env sid m
      | MaxStreamsBidi m \<Rightarrow>
          andThen (fail_if (m > 2 ^ 60) StreamLimit) (\<lambda>_. on_streams (modify (sm_update_peer_max_streams_bidi m)))
      | MaxStreamsUni m \<Rightarrow>
          andThen (fail_if (m > 2 ^ 60) StreamLimit) (\<lambda>_. on_streams (modify (sm_update_peer_max_streams_uni m)))
      | PathChallenge data \<Rightarrow> modify (\<lambda>c. c\<lparr>cn_challenge := Some data\<rparr>)
      | ConnectionClose _ _ _ \<Rightarrow> modify (\<lambda>c. c\<lparr>cn_draining_timer := Some (now + int (rec_pto (cn_recovery c) * 3))\<rparr>)
      | ApplicationClose _ _ \<Rightarrow> modify (\<lambda>c. c\<lparr>cn_draining_timer := Some (now + int (rec_pto (cn_recovery c) * 3))\<rparr>)
      | HandshakeDone \<Rightarrow>
          andThen (reads_st (\<lambda>c. c)) (\<lambda>c.
          andThen (fail_if (cn_version c < PROTOCOL_VERSION_DRAFT25) InvalidFrame) (\<lambda>_.
          andThen (fail_if (cn_is_server c) InvalidPacket) (\<lambda>_.
          modify (\<lambda>c. drop_epoch_state x env EPOCH_HANDSHAKE (c\<lparr>cn_handshake_confirmed := True\<rparr>)))))
      | _ \<Rightarrow> ret ())"

end
