(* ===== verification/ConnRecv.thy ===== *)
theory ConnRecv
  imports ConnFrame
begin

text \<open>Receiving packets: \<open>recv\<close> and \<open>recv_single\<close> of \<open>src/lib.rs\<close>. The bytes decrypted in place are
  not handed back: no later packet of the datagram covers them.\<close>

section \<open>Version negotiation and retry\<close>

definition reset_initial :: "('s, 'c, 'p) ext \<Rightarrow> conn_env \<Rightarrow> (('s, 'c) conn, unit) act" where
  "reset_initial x env =
     andThen (modify (\<lambda>c. c\<lparr>cn_got_peer_conn_id := False,
       cn_recovery := rec_drop_unacked_data (x_cc x) EPOCH_INITIAL (cn_recovery c)\<rparr>)) (\<lambda>_.
     andThen (on_space EPOCH_INITIAL (modify (space_clear (en_wall env) (en_clock env)))) (\<lambda>_.
     tls_clear x))"

definition recv_version_negotiation :: "('s, 'c, 'p) ext \<Rightarrow> conn_env \<Rightarrow> header \<Rightarrow> (('s, 'c) conn, nat) act" where
  "recv_version_negotiation x env h =
     andThen (reads_st (\<lambda>c. c)) (\<lambda>c.
     andThen (fail_if (cn_is_server c) Done) (\<lambda>_.
     andThen (fail_if (cn_did_version_negotiation c) Done) (\<lambda>_.
     andThen (fail_if (h_dcid h \<noteq> cn_scid c) Done) (\<lambda>_.
     andThen (fail_if (h_scid h \<noteq> cn_dcid c) Done) (\<lambda>_.
     andThen (lift (ok_or InvalidPacket (h_versions h))) (\<lambda>versions.
     let supported = filter version_is_supported versions in
     andThen (fail_if (supported = []) UnknownVersion) (\<lambda>_.
     andThen (modify (\<lambda>c. c\<lparr>cn_version := Max (set supported), cn_did_version_negotiation := True\<rparr>)) (\<lambda>_.
     andThen (reset_initial x env) (\<lambda>_.
     throw Done)))))))))"

definition recv_retry :: "('s, 'c, 'p) ext \<Rightarrow> conn_env \<Rightarrow> octets \<Rightarrow> header \<Rightarrow> (('s, 'c) conn, nat) act" where
  "recv_retry x env b h =
     andThen (reads_st (\<lambda>c. c)) (\<lambda>c.
     andThen (fail_if (cn_is_server c) Done) (\<lambda>_.
     andThen (fail_if (cn_did_retry c) Done) (\<lambda>_.
     andThen (lift (case verify_retry_integrity (x_retry_tag x) b (cn_dcid c) of
        Ok _ \<Rightarrow> Ok () | Err _ \<Rightarrow> Err Done | Panic \<Rightarrow> Panic)) (\<lambda>_.
     andThen (modify (\<lambda>c. c\<lparr>cn_token := h_token h, cn_did_retry := True, cn_odcid := Some (cn_dcid c),
        cn_dcid := h_scid h\<rparr>)) (\<lambda>_.
     andThen (set_initial_keys x (h_scid h)) (\<lambda>_.
     andThen (reset_initial x env) (\<lambda>_.
     throw Done)))))))"

section \<open>The payload\<close>

text \<open>\<open>while payload.cap() > 0\<close>: the frames in order, and whether one of them elicits an ACK. Frame
  \<open>i\<close> runs in the environment \<open>env i\<close>.\<close>

function process_payload :: "('s, 'c, 'p) ext \<Rightarrow> (nat \<Rightarrow> conn_env) \<Rightarrow> nat \<Rightarrow> ptype \<Rightarrow> epoch \<Rightarrow> instant \<Rightarrow> bool \<Rightarrow> octets
    \<Rightarrow> (('s, 'c) conn, bool) act" where
  "process_payload x env i ty e now elicited b =
     (if 0 < cap b then
        (case frame_from_bytes ty b of
           Ok (f, b) \<Rightarrow>
             andThen (process_frame x (env i) f e now) (\<lambda>_.
             process_payload x env (Suc i) ty e now (elicited \<or> ack_eliciting f) b)
         | Err err \<Rightarrow> throw err
         | Panic \<Rightarrow> lift Panic)
      else ret elicited)"
  by pat_completeness auto
termination
  by (relation "measure (\<lambda>(x, env, i, ty, e, now, elicited, b). cap b)") (auto dest: frame_progress)

declare process_payload.simps [simp del]

text \<open>The shards that the packet completes, if any, and then its own frames unless it is redundant.\<close>

definition process_restored :: "('s, 'c, 'p) ext \<Rightarrow> (nat \<Rightarrow> conn_env) \<Rightarrow> epoch \<Rightarrow> instant \<Rightarrow> u8 list list
    \<Rightarrow> (('s, 'c) conn, unit) act" where
  "process_restored x env e now shards =
     each (\<lambda>shard. andThen (process_payload x env 0 Short e now False (with_slice shard)) (\<lambda>_. ret ())) shards"

definition process_packet_frames :: "('s, 'c, 'p) ext \<Rightarrow> (nat \<Rightarrow> conn_env) \<Rightarrow> header \<Rightarrow> epoch \<Rightarrow> instant \<Rightarrow> octets
    \<Rightarrow> (('s, 'c) conn, bool) act" where
  "process_packet_frames x env h e now payload =
     (let info = h_fec_info h in
      andThen (whenever (fs_group_id info \<noteq> 0)
        (andThen (on_part cn_fec (\<lambda>f c. c\<lparr>cn_fec := f\<rparr>)
           (pure_val (fec_on_recv (x_rs_new x) info (as_ref payload)))) (\<lambda>restored.
         case restored of Some shards \<Rightarrow> process_restored x env e now shards | None \<Rightarrow> ret ()))) (\<lambda>_.
      let elicited = (fs_group_id info \<noteq> 0) in
      if fs_group_id info = 0 \<or> fs_index info < fs_m info
      then process_payload x env 0 (h_ty h) e now elicited payload
      else ret elicited))"

section \<open>Acknowledged frames\<close>

definition process_acked_frame :: "epoch \<Rightarrow> frame \<Rightarrow> ('s, 'c) conn \<Rightarrow> ('s, 'c) conn" where
  "process_acked_frame e f c =
     (case f of
        ACK _ _ ranges \<Rightarrow>
          (case rs_largest ranges of
             Some largest_acked \<Rightarrow>
               let p = cn_spaces c e in
               c\<lparr>cn_spaces := (cn_spaces c)(e :=
                   p\<lparr>ps_recv_pkt_need_ack := rs_remove_until largest_acked (ps_recv_pkt_need_ack p)\<rparr>)\<rparr>
           | None \<Rightarrow> c)
      | CryptoFrame data \<Rightarrow>
          let p = cn_spaces c e; s = ps_crypto_stream p in
          c\<lparr>cn_spaces := (cn_spaces c)(e :=
              p\<lparr>ps_crypto_stream := s\<lparr>st_send := send_ack (rb_off data) (rb_len data) (st_send s)\<rparr>\<rparr>)\<rparr>
      | StreamFrame sid data \<Rightarrow>
          let m = cn_streams c in
          (case sm_streams m sid of
             Some s \<Rightarrow>
               let s = s\<lparr>st_send := send_ack (rb_off data) (rb_len data) (st_send s)\<rparr>;
                   m = m\<lparr>sm_streams := (sm_streams m)(sid \<mapsto> s)\<rparr>
               in c\<lparr>cn_streams := (if stream_is_complete s then sm_collect sid (st_local s) m else m)\<rparr>
           | None \<Rightarrow> c)
      | _ \<Rightarrow> c)"

definition process_acked :: "epoch \<Rightarrow> ('s, 'c) conn \<Rightarrow> ('s, 'c) conn" where
  "process_acked e c =
     (let r = cn_recovery c
      in fold (process_acked_frame e) (rc_acked r e) (c\<lparr>cn_recovery := r\<lparr>rc_acked := (rc_acked r)(e := [])\<rparr>\<rparr>))"

section \<open>A single packet\<close>

text \<open>What is recorded of a packet whose frames were processed.\<close>

definition record_packet :: "epoch \<Rightarrow> u64 \<Rightarrow> instant \<Rightarrow> bool \<Rightarrow> pkt_space \<Rightarrow> pkt_space" where
  "record_packet e pn now elicited p =
     p\<lparr>ps_largest_rx_pkt_time :=
         (if (case rs_largest (ps_recv_pkt_need_ack p) of None \<Rightarrow> True | Some l \<Rightarrow> l < pn) then now
          else ps_largest_rx_pkt_time p),
       ps_recv_pkt_num := pw_insert pn (ps_recv_pkt_num p),
       ps_recv_pkt_need_ack := rs_push_item pn (ps_recv_pkt_need_ack p),
       ps_ack_elicited := ps_ack_elicited p \<or> elicited,
       ps_largest_rx_pkt_num := max (ps_largest_rx_pkt_num p) pn\<rparr>"

definition packet_done :: "('s, 'c, 'p) ext \<Rightarrow> conn_env \<Rightarrow> header \<Rightarrow> epoch \<Rightarrow> u64 \<Rightarrow> instant \<Rightarrow> bool
    \<Rightarrow> ('s, 'c) conn \<Rightarrow> ('s, 'c) conn" where
  "packet_done x env h e pn now elicited c =
     (let c = process_acked e c;
          c = c\<lparr>cn_spaces := (cn_spaces c)(e := record_packet e pn now elicited (cn_spaces c e))\<rparr>;
          c = (case idle_timeout c of Some t \<Rightarrow> c\<lparr>cn_idle_timer := Some (now + int t)\<rparr> | None \<Rightarrow> c);
          c = c\<lparr>cn_recv_count := cn_recv_count c + 1\<rparr>;
          c = (if cn_is_server c \<and> h_ty h = Handshake
               then (drop_epoch_state x env EPOCH_INITIAL c)\<lparr>cn_verified_peer_address := True\<rparr> else c)
      in c\<lparr>cn_ack_eliciting_sent := False\<rparr>)"

text \<open>From the removal of the header protection on.\<close>

definition recv_protected :: "('s, 'c, 'p) ext \<Rightarrow> (nat \<Rightarrow> conn_env) \<Rightarrow> octets \<Rightarrow> header \<Rightarrow> nat \<Rightarrow> epoch \<Rightarrow> crypto_key
    \<Rightarrow> (('s, 'c) conn, nat) act" where
  "recv_protected x env b h payload_len e aead =
     andThen (lift (decrypt_hdr b h aead)) (\<lambda>(b, h).
     andThen (reads_st (\<lambda>c. decode_pkt_num (ps_largest_rx_pkt_num (cn_spaces c e)) (h_pkt_num h) (h_pkt_num_len h))) (\<lambda>pn.
     andThen (reads_st cn_recv_count) (\<lambda>recv_count.
     andThen (lift (case decrypt_pkt pn (h_pkt_num_len h) payload_len aead b of
         Ok v \<Rightarrow> Ok v
       | Err err \<Rightarrow> Err (if recv_count = 0 then err else Done)
       | Panic \<Rightarrow> Panic)) (\<lambda>(payload, b).
     andThen (reads_st (\<lambda>c. pw_contains pn (ps_recv_pkt_num (cn_spaces c e)))) (\<lambda>duplicate.
     andThen (fail_if duplicate Done) (\<lambda>_.
     andThen (process_packet_frames x env h e (en_now (env 0)) payload) (\<lambda>elicited.
     andThen (modify (packet_done x (env 0) h e pn (en_now (env 0)) elicited)) (\<lambda>_.
     ret (off b + tag_len (ck_alg aead))))))))))"

text \<open>The version and connection id checks, and the keys to open the packet with.\<close>

definition recv_prepare :: "('s, 'c, 'p) ext \<Rightarrow> octets \<Rightarrow> header \<Rightarrow> (('s, 'c) conn, octets \<times> nat) act" where
  "recv_prepare x b h =
     andThen (reads_st (\<lambda>c. c)) (\<lambda>c.
     andThen (if cn_is_server c \<and> \<not> cn_did_version_negotiation c
              then andThen (fail_if (\<not> version_is_supported (h_version h)) UnknownVersion) (\<lambda>_.
                   modify (\<lambda>c. c\<lparr>cn_version := h_version h, cn_did_version_negotiation := True\<rparr>))
              else ret ()) (\<lambda>_.
     andThen (reads_st cn_version) (\<lambda>version.
     andThen (fail_if (h_ty h \<noteq> Short \<and> h_version h \<noteq> version) UnknownVersion) (\<lambda>_.
     andThen (lift (if h_ty h = Short then Ok (cap b, b)
                    else bnd (get_varint b) (\<lambda>(n, b). Ok (unat n, b)))) (\<lambda>(payload_len, b).
     andThen (fail_if (cap b < payload_len) BufferTooShort) (\<lambda>_.
     andThen (whenever (\<not> cn_is_server c \<and> \<not> cn_got_peer_conn_id c)
       (modify (\<lambda>c. c\<lparr>cn_dcid := h_scid h, cn_got_peer_conn_id := True\<rparr>))) (\<lambda>_.
     andThen (whenever (\<not> cn_derived_initial_secrets c)
       (andThen (set_initial_keys x (h_dcid h)) (\<lambda>_.
        modify (\<lambda>c. c\<lparr>cn_derived_initial_secrets := True, cn_dcid := cn_dcid c @ h_scid h,
          cn_got_peer_conn_id := True\<rparr>)))) (\<lambda>_.
     ret (b, payload_len)))))))))"

definition open_key :: "header \<Rightarrow> epoch \<Rightarrow> ('s, 'c) conn \<Rightarrow> crypto_key option" where
  "open_key h e c =
     (if h_ty h = ZeroRTT \<and> ps_crypto_0rtt_open (cn_spaces c e) \<noteq> None then ps_crypto_0rtt_open (cn_spaces c e)
      else ps_crypto_open (cn_spaces c e))"

definition recv_single :: "('s, 'c, 'p) ext \<Rightarrow> (nat \<Rightarrow> conn_env) \<Rightarrow> u8 list \<Rightarrow> (('s, 'c) conn, nat) act" where
  "recv_single x env bytes =
     andThen (fail_if (bytes = []) BufferTooShort) (\<lambda>_.
     andThen (reads_st (\<lambda>c. c)) (\<lambda>c.
     andThen (fail_if (cn_draining_timer c \<noteq> None) Done) (\<lambda>_.
     andThen (fail_if (is_closing c) Done) (\<lambda>_.
     andThen (lift (header_from_bytes (length (cn_scid c)) (with_slice bytes))) (\<lambda>(h, b).
     if h_ty h = VersionNegotiation then recv_version_negotiation x (env 0) h
     else if h_ty h = Retry then recv_retry x (env 0) b h
     else if h_ty h = Short \<and> \<not> is_established x c then ret (oct_len b)
     else
       andThen (recv_prepare x b h) (\<lambda>(b, payload_len).
       andThen (lift (type_to_epoch (h_ty h))) (\<lambda>e.
       andThen (reads_st (open_key h e)) (\<lambda>key.
       case key of
         None \<Rightarrow> ret (off b + payload_len)
       | Some aead \<Rightarrow> recv_protected x env b h payload_len e aead))))))))"

section \<open>A datagram\<close>

text \<open>Every packet takes at least a byte of the datagram, so the loop over the coalesced packets ends.\<close>

lemma recv_prepare_off: "wp (recv_prepare x b h) (\<lambda>p _. off b \<le> off (fst p)) (\<lambda>_ _. True) c"
proof -
  have "off b \<le> off b'" if "get_varint b = Ok (v, b')" for v b'
    using vi.get_advance [OF that] by auto
  then show ?thesis
    unfolding recv_prepare_def case_prod_beta
    by (intro wp_pass) (auto simp: wp_ret split: if_splits)
qed

lemma recv_protected_pos: "wp (recv_protected x env b h payload_len e aead) (\<lambda>n _. 0 < n) (\<lambda>_ _. True) c"
  unfolding recv_protected_def case_prod_beta
  by (intro wp_pass) (simp add: wp_ret tag_len_def)

lemma recv_single_pos: "wp (recv_single x env bytes) (\<lambda>n _. 0 < n) (\<lambda>_ _. True) c"
proof -
  have pos: "0 < off b \<and> off b \<le> length bytes \<and> buf b = bytes" if "header_from_bytes n (with_slice bytes) = Ok (h, b)" for n h b
    using header_progress [OF that] parses_cases [OF parses_header [of n], of "with_slice bytes"] that
    by (auto simp: cap_def with_slice_def)
  have rest: "wp (andThen (recv_prepare x b h) (\<lambda>(b, payload_len).
       andThen (lift (type_to_epoch (h_ty h))) (\<lambda>e.
       andThen (reads_st (open_key h e)) (\<lambda>key.
       case key of
         None \<Rightarrow> ret (off b + payload_len)
       | Some aead \<Rightarrow> recv_protected x env b h payload_len e aead)))) (\<lambda>n _. 0 < n) (\<lambda>_ _. True) c"
    if "0 < off b" for b h c
    unfolding wp_andThen [of "recv_prepare x b h"]
  proof (rule wp_mono [OF recv_prepare_off], goal_cases)
    case (1 p t)
    then show ?case
      using that unfolding case_prod_beta
      by (intro wp_pass) (auto simp: wp_ret recv_protected_pos split: option.split)
  qed
  have neg: "wp (recv_version_negotiation x env' h) (\<lambda>n _. 0 < n) (\<lambda>_ _. True) c"
    "wp (recv_retry x env' b h) (\<lambda>n _. 0 < n) (\<lambda>_ _. True) c" for env' h b c
    unfolding recv_version_negotiation_def recv_retry_def Let_def by (intro wp_pass)+
  show ?thesis
    unfolding recv_single_def
  proof (intro wp_pass, goal_cases)
    case (1 _ _ c _ _ _ _ _ p _)
    with pos [of "length (cn_scid c)" "fst p" "snd p"] have "0 < off (snd p)" "buf (snd p) \<noteq> []"
      by auto
    then show ?case
      by (auto simp: wp_ret neg rest oct_len_def split: prod.split)
  qed
qed

lemma recv_single_Ok: "recv_single x env bytes c = (Ok n, c') \<Longrightarrow> 0 < n"
  using recv_single_pos [of x env bytes c] by (simp add: wp_def)

function recv_loop :: "('s, 'c, 'p) ext \<Rightarrow> (nat \<Rightarrow> nat \<Rightarrow> conn_env) \<Rightarrow> nat \<Rightarrow> u8 list \<Rightarrow> nat \<Rightarrow> (('s, 'c) conn, nat) act" where
  "recv_loop x env i bytes done c =
     (if bytes = [] then (Ok done, c)
      else case recv_single x (env i) bytes c of
        (Ok read, c) \<Rightarrow>
          if length bytes < read then (Panic, c)
          else recv_loop x env (Suc i) (drop read bytes) (done + read) c
      | (Err e, c) \<Rightarrow> (Err e, if e = Done then c else snd (conn_close False (to_wire e) [] c))
      | (Panic, c) \<Rightarrow> (Panic, c))"
  by pat_completeness auto
termination
  by (relation "measure (\<lambda>(x, env, i, bytes, done, c). length bytes)")
    (auto dest!: recv_single_Ok [OF sym])

declare recv_loop.simps [simp del]

definition MAX_AMPLIFICATION_FACTOR :: usize where "MAX_AMPLIFICATION_FACTOR = 3"

definition conn_recv :: "('s, 'c, 'p) ext \<Rightarrow> (nat \<Rightarrow> nat \<Rightarrow> conn_env) \<Rightarrow> u8 list \<Rightarrow> (('s, 'c) conn, nat) act" where
  "conn_recv x env bytes =
     andThen (recv_loop x env 0 bytes 0) (\<lambda>done.
     andThen (modify (\<lambda>c. if cn_verified_peer_address c then c
        else c\<lparr>cn_max_send_bytes := cn_max_send_bytes c + of_nat (length bytes) * MAX_AMPLIFICATION_FACTOR\<rparr>)) (\<lambda>_.
     ret done))"

end
