(* ===== verification/ConnSend.thy ===== *)
theory ConnSend
  imports ConnOps Flush
begin

text \<open>Sending a packet: \<open>send_with_blocks\<close> of \<open>src/lib.rs\<close> and \<open>send\<close>, which is the same code without
  the list of blocks. The local variables of the function are the record \<open>building\<close>; the sizes are
  \<open>usize\<close>, so the subtractions the code does not check wrap around. \<open>env 0\<close> is the environment at the
  start of the call, \<open>env 1\<close> the one after the packet was encoded.\<close>

definition MAX_CRYPTO_OVERHEAD :: usize where "MAX_CRYPTO_OVERHEAD = 8"
definition MAX_STREAM_OVERHEAD :: usize where "MAX_STREAM_OVERHEAD = 12"
definition MIN_CLIENT_INITIAL_LEN :: usize where "MIN_CLIENT_INITIAL_LEN = 1200"
definition PAYLOAD_MIN_LEN :: usize where "PAYLOAD_MIN_LEN = 4"

record building =
  bp_left :: usize
  bp_payload_len :: usize
  bp_frames :: "frame list"
  bp_ack_eliciting :: bool
  bp_in_flight :: bool
  bp_m :: u8
  bp_n :: u8
  bp_blocks :: "block list"

text \<open>Adding a frame to the packet; \<open>eliciting\<close> where the code sets \<open>ack_eliciting\<close> and \<open>in_flight\<close>.\<close>

definition add_frame :: "bool \<Rightarrow> frame \<Rightarrow> building \<Rightarrow> building result" where
  "add_frame eliciting f p =
     bnd (wire_len f) (\<lambda>n.
     Ok (p\<lparr>bp_left := bp_left p - of_nat n, bp_payload_len := bp_payload_len p + of_nat n,
           bp_frames := bp_frames p @ [f], bp_ack_eliciting := bp_ack_eliciting p \<or> eliciting,
           bp_in_flight := bp_in_flight p \<or> eliciting\<rparr>))"

text \<open>\<open>frame.wire_len() <= left\<close>.\<close>

definition frame_fits :: "frame \<Rightarrow> building \<Rightarrow> bool result" where
  "frame_fits f p = bnd (wire_len f) (\<lambda>n. Ok (n \<le> unat (bp_left p)))"

definition add :: "bool \<Rightarrow> frame \<Rightarrow> building \<Rightarrow> ('s, building) act" where
  "add eliciting f p = lift (add_frame eliciting f p)"

definition checked_sub :: "usize \<Rightarrow> usize \<Rightarrow> usize option" where
  "checked_sub a b = (if b \<le> a then Some (a - b) else None)"

section \<open>Lost frames\<close>

definition push_if_flushable :: "bool \<Rightarrow> u64 \<Rightarrow> bool \<Rightarrow> stream \<Rightarrow> stream_map \<Rightarrow> stream_map" where
  "push_if_flushable was_flushable sid empty_fin s m =
     (if (stream_is_flushable s \<or> empty_fin) \<and> \<not> was_flushable then sm_push_flushable sid m else m)"

definition send_lost_stream :: "u64 \<Rightarrow> range_buf \<Rightarrow> (('s, 'c) conn, unit) act" where
  "send_lost_stream sid data =
     andThen (reads_st (\<lambda>c. sm_streams (cn_streams c) sid)) (\<lambda>found.
     case found of
       None \<Rightarrow> ret ()
     | Some s \<Rightarrow>
         andThen (modify (\<lambda>c. c\<lparr>cn_tx_data := sat_sub64 (cn_tx_data c) (of_nat (rb_len data))\<rparr>)) (\<lambda>_.
         andThen (on_streams (on_stream sid Done
           (andThen (on_send (pure_act (send_push data))) (\<lambda>_. reads_st (\<lambda>s. s))))) (\<lambda>s'.
         on_streams (modify (push_if_flushable (stream_is_flushable s) sid (rb_is_empty data \<and> rb_fin data) s')))))"

definition send_lost_frame :: "epoch \<Rightarrow> frame \<Rightarrow> (('s, 'c) conn, unit) act" where
  "send_lost_frame e f =
     (case f of
        CryptoFrame data \<Rightarrow>
          on_space e (on_part ps_crypto_stream (\<lambda>s p. p\<lparr>ps_crypto_stream := s\<rparr>) (on_send (pure_act (send_push data))))
      | BlockInfo sid _ _ _ _ \<Rightarrow>
          andThen (reads_st (\<lambda>c. sm_streams (cn_streams c) sid)) (\<lambda>found.
          case found of
            None \<Rightarrow> ret ()
          | Some _ \<Rightarrow> on_streams (on_stream sid Done (on_send (modify send_info_frame_lost))))
      | StreamFrame sid data \<Rightarrow> send_lost_stream sid data
      | ACK _ _ _ \<Rightarrow> on_space e (modify (\<lambda>p. p\<lparr>ps_ack_elicited := True\<rparr>))
      | HandshakeDone \<Rightarrow> modify (\<lambda>c. c\<lparr>cn_handshake_done_sent := False\<rparr>)
      | _ \<Rightarrow> ret ())"

text \<open>\<open>drain(..)\<close>: the list is empty afterwards, also when a frame fails.\<close>

definition send_lost :: "epoch \<Rightarrow> (('s, 'c) conn, unit) act" where
  "send_lost e =
     andThen (reads_st (\<lambda>c. rc_lost (cn_recovery c) e)) (\<lambda>lost.
     andThen (on_recovery (modify (\<lambda>r. r\<lparr>rc_lost := (rc_lost r)(e := [])\<rparr>))) (\<lambda>_.
     each (send_lost_frame e) lost))"

section \<open>ACK and control frames\<close>

text \<open>\<open>as_micros() as u64\<close>.\<close>

definition micros64 :: "duration \<Rightarrow> u64" where
  "micros64 d = of_nat (as_micros d)"

definition ack_frame :: "conn_env \<Rightarrow> epoch \<Rightarrow> ('s, 'c) conn \<Rightarrow> frame result" where
  "ack_frame env e c =
     (let p = cn_spaces c e;
          ack_delay = micros64 (duration_since (en_now env) (ps_largest_rx_pkt_time p));
          scale = 2 ^ unat (ucast (tp_ack_delay_exponent (cn_local_tp c)) :: u32) :: u64
      in if en_wall env < 0 then Panic
         else
           let packet_time = micros64 (nat (en_wall env)) - ack_delay
           in if scale = 0 then Panic
              else Ok (ACK (packet_time div scale) (ack_delay div scale) (ps_recv_pkt_need_ack p)))"

definition send_ack_frame :: "('s, 'c, 'p) ext \<Rightarrow> conn_env \<Rightarrow> epoch \<Rightarrow> u64 \<Rightarrow> bool \<Rightarrow> building
    \<Rightarrow> (('s, 'c) conn, building) act" where
  "send_ack_frame x env e pn closing p =
     andThen (reads_st (\<lambda>c. c)) (\<lambda>c.
     let sp = cn_spaces c e in
     if (ps_ack_elicited sp
         \<or> (\<not> rs_is_empty (ps_recv_pkt_need_ack sp) \<and> pn mod get_data_ack_ratio x (cn_data_ack_ratio c) = 0))
        \<and> \<not> closing
     then
       andThen (lift (ack_frame env e c)) (\<lambda>f.
       andThen (lift (frame_fits f p)) (\<lambda>fits.
       if fits
       then andThen (on_space e (modify (\<lambda>sp. sp\<lparr>ps_ack_elicited := False\<rparr>))) (\<lambda>_. add False f p)
       else ret p))
     else ret p)"

text \<open>\<open>RESET_STREAM\<close> frames for canceled blocks; the loop stops at the first that does not fit.\<close>

fun send_canceled :: "u64 list \<Rightarrow> building \<Rightarrow> (('s, 'c) conn, building) act" where
  "send_canceled [] p = ret p"
| "send_canceled (sid # sids) p =
     andThen (reads_st (\<lambda>c. sm_streams (cn_streams c) sid)) (\<lambda>found.
     andThen (on_streams (modify (sm_mark_canceled sid False))) (\<lambda>_.
     case found of
       None \<Rightarrow> send_canceled sids p
     | Some s \<Rightarrow>
         let f = ResetStream sid 1 (send_block_size (st_send s)) in
         andThen (lift (frame_fits f p)) (\<lambda>fits.
         if fits then andThen (add True f p) (send_canceled sids) else ret p)))"

text \<open>\<open>MAX_STREAM_DATA\<close> frames, likewise.\<close>

fun send_max_stream_data :: "u64 list \<Rightarrow> building \<Rightarrow> (('s, 'c) conn, building) act" where
  "send_max_stream_data [] p = ret p"
| "send_max_stream_data (sid # sids) p =
     andThen (reads_st (\<lambda>c. sm_streams (cn_streams c) sid)) (\<lambda>found.
     case found of
       None \<Rightarrow> andThen (on_streams (modify (sm_mark_almost_full sid False))) (\<lambda>_. send_max_stream_data sids p)
     | Some _ \<Rightarrow>
         andThen (on_streams (on_stream sid Done (on_recv (\<lambda>r. case recv_update_max_data r of (m, r) \<Rightarrow> (Ok m, r))))) (\<lambda>m.
         andThen (on_streams (modify (sm_mark_almost_full sid False))) (\<lambda>_.
         let f = MaxStreamData sid m in
         andThen (lift (frame_fits f p)) (\<lambda>fits.
         if fits then andThen (add True f p) (send_max_stream_data sids) else ret p))))"

definition send_handshake_done :: "('s, 'c, 'p) ext \<Rightarrow> building \<Rightarrow> (('s, 'c) conn, building) act" where
  "send_handshake_done x p =
     andThen (reads_st (\<lambda>c. c)) (\<lambda>c.
     if is_established x c \<and> \<not> cn_handshake_done_sent c \<and> cn_is_server c \<and> cn_version c \<ge> PROTOCOL_VERSION_DRAFT25
     then andThen (add False HandshakeDone p) (\<lambda>p.
          andThen (modify (\<lambda>c. c\<lparr>cn_handshake_done_sent := True\<rparr>)) (\<lambda>_. ret p))
     else ret p)"

definition send_max_streams :: "building \<Rightarrow> (('s, 'c) conn, building) act" where
  "send_max_streams p =
     andThen (reads_st (\<lambda>c. sm_should_update_max_streams_bidi (cn_streams c))) (\<lambda>b.
     andThen (if b then andThen (on_streams (\<lambda>m. case sm_update_max_streams_bidi m of (v, m) \<Rightarrow> (Ok v, m)))
                          (\<lambda>v. add True (MaxStreamsBidi v) p)
              else ret p) (\<lambda>p.
     andThen (reads_st (\<lambda>c. sm_should_update_max_streams_uni (cn_streams c))) (\<lambda>b.
     if b then andThen (on_streams (\<lambda>m. case sm_update_max_streams_uni m of (v, m) \<Rightarrow> (Ok v, m)))
                 (\<lambda>v. add True (MaxStreamsUni v) p)
     else ret p)))"

definition send_max_data :: "building \<Rightarrow> (('s, 'c) conn, building) act" where
  "send_max_data p =
     andThen (reads_st (\<lambda>c. c)) (\<lambda>c.
     if should_update_max_data c then
       let f = MaxData (cn_max_rx_data_next c) in
       andThen (lift (frame_fits f p)) (\<lambda>fits.
       if fits
       then andThen (modify (\<lambda>c. c\<lparr>cn_max_rx_data := cn_max_rx_data_next c\<rparr>)) (\<lambda>_. add True f p)
       else ret p)
     else ret p)"

definition send_control_frames :: "('s, 'c, 'p) ext \<Rightarrow> conn_env \<Rightarrow> building \<Rightarrow> (('s, 'c) conn, building) act" where
  "send_control_frames x env p =
     andThen (send_handshake_done x p) (\<lambda>p.
     andThen (send_max_streams p) (\<lambda>p.
     andThen (send_max_data p) (\<lambda>p.
     andThen (reads_st (\<lambda>c. en_order env (sm_almost_full (cn_streams c)))) (\<lambda>sids.
     send_max_stream_data sids p))))"

section \<open>Closing frames and the path response\<close>

definition drain_timer :: "instant \<Rightarrow> ('s, 'c) conn \<Rightarrow> instant option" where
  "drain_timer now c = Some (now + int (rec_pto (cn_recovery c) * 3))"

definition send_close_frames :: "instant \<Rightarrow> ptype \<Rightarrow> building \<Rightarrow> (('s, 'c) conn, building) act" where
  "send_close_frames now ty p =
     andThen (reads_st cn_error) (\<lambda>err.
     andThen (case err of
        None \<Rightarrow> ret p
      | Some err \<Rightarrow>
          let f = ConnectionClose err 0 [] in
          andThen (lift (frame_fits f p)) (\<lambda>fits.
          if fits
          then andThen (add True f p) (\<lambda>p.
               andThen (modify (\<lambda>c. c\<lparr>cn_challenge := None, cn_draining_timer := drain_timer now c\<rparr>)) (\<lambda>_. ret p))
          else ret p)) (\<lambda>p.
     andThen (reads_st (\<lambda>c. c)) (\<lambda>c.
     case cn_app_error c of
       Some err \<Rightarrow>
         if ty = Short
         then andThen (add True (ApplicationClose err (cn_app_reason c)) p) (\<lambda>p.
              andThen (modify (\<lambda>c. c\<lparr>cn_draining_timer := drain_timer now c\<rparr>)) (\<lambda>_. ret p))
         else ret p
     | None \<Rightarrow> ret p)))"

definition send_path_response :: "building \<Rightarrow> (('s, 'c) conn, building) act" where
  "send_path_response p =
     andThen (reads_st cn_challenge) (\<lambda>challenge.
     case challenge of
       None \<Rightarrow> ret p
     | Some data \<Rightarrow>
         let f = PathResponse data in
         andThen (lift (wire_len f)) (\<lambda>n.
         if unat (bp_left p) > n
         then andThen (add True f p) (\<lambda>p. andThen (modify (\<lambda>c. c\<lparr>cn_challenge := None\<rparr>)) (\<lambda>_. ret p))
         else ret p))"

definition send_crypto :: "epoch \<Rightarrow> bool \<Rightarrow> building \<Rightarrow> (('s, 'c) conn, building) act" where
  "send_crypto e closing p =
     andThen (reads_st (\<lambda>c. stream_is_flushable (ps_crypto_stream (cn_spaces c e)))) (\<lambda>flushable.
     if flushable \<and> bp_left p > MAX_CRYPTO_OVERHEAD \<and> \<not> closing
     then andThen (on_space e (on_part ps_crypto_stream (\<lambda>s p. p\<lparr>ps_crypto_stream := s\<rparr>)
            (on_send (pure_val (send_pop (unat (bp_left p - MAX_CRYPTO_OVERHEAD))))))) (\<lambda>data.
          add True (CryptoFrame data) p)
     else ret p)"

section \<open>The stream frame\<close>

text \<open>\<open>x as u8\<close> for a single-precision \<open>x\<close>: towards zero, saturating.\<close>

definition f32_to_u8 :: "rat \<Rightarrow> u8" where
  "f32_to_u8 v = of_nat (min 255 (nat \<lfloor>v\<rfloor>))"

text \<open>The shape of the FEC group for a block of which \<open>len\<close> bytes are left, at the redundancy rate
  \<open>rate\<close>.\<close>

definition fec_shape :: "u64 \<Rightarrow> rat \<Rightarrow> u8 \<times> u8" where
  "fec_shape len rate =
     (if len \<ge> 1 then
        let m = ucast ((len - 1) div 1350 + 1) :: u8;
            m = (if m \<ge> 20 then 20 else m);
            n = f32_to_u8 (f32_round (of_nat (unat m) * rate))
        in if m = 0 \<or> n = 0 then (0, 0) else (m, n)
      else (0, 0))"

record send_info =
  si_rtt :: f64
  si_bandwidth :: f64
  si_now_ms :: u64
  si_pn :: u64

definition send_info_of :: "('s, 'c, 'p) ext \<Rightarrow> conn_env \<Rightarrow> u64 \<Rightarrow> ('s, 'c) conn \<Rightarrow> send_info result" where
  "send_info_of x env pn c =
     (if en_wall env < 0 then Panic
      else Ok \<lparr>si_rtt = f64_of_nat (as_millis (stat_rtt (conn_stats x c))),
               si_bandwidth = f64_of_u64 (co_pacing_rate (x_cc x) (rc_cc (cn_recovery c))) / Fin 8 / Fin 1024,
               si_now_ms = of_nat (as_millis (nat (en_wall env))), si_pn = pn\<rparr>)"

text \<open>The \<open>BLOCK_INFO\<close> frame of a block of which nothing was sent yet.\<close>

definition block_info_frame :: "int \<Rightarrow> u64 \<Rightarrow> send_buf \<Rightarrow> frame result" where
  "block_info_frame bct_offset sid s =
     bnd (send_start_time s) (\<lambda>start_time.
     Ok (BlockInfo sid (send_block_size s) (sb_priority s) (sb_deadline s)
           (of_int (sint start_time - bct_offset))))"

definition send_block_info :: "u64 \<Rightarrow> building \<Rightarrow> (('s, 'c) conn, building) act" where
  "send_block_info sid p =
     andThen (reads_st (\<lambda>c. (cn_bct_offset c, sm_streams (cn_streams c) sid))) (\<lambda>(bct_offset, found).
     case found of
       None \<Rightarrow> ret p
     | Some s \<Rightarrow>
         if send_is_new (st_send s) then
           andThen (lift (block_info_frame bct_offset sid (st_send s))) (\<lambda>f.
           andThen (lift (frame_fits f p)) (\<lambda>fits.
           if fits
           then andThen (add True f p) (\<lambda>p.
                andThen (on_streams (on_stream sid Done (on_send (modify send_un_new)))) (\<lambda>_. ret p))
           else ret p))
         else ret p)"

text \<open>How many bytes of the stream the packet may carry: the connection's credit, and the shard size of
  the FEC group being sent.\<close>

definition stream_max_len :: "u64 \<Rightarrow> building \<Rightarrow> ('s, 'c) conn \<Rightarrow> usize result" where
  "stream_max_len sid p c =
     (let max_len = min (bp_left p) (cn_max_tx_data c - cn_tx_data c) in
      case fc_fec (cn_fec c) of
        Some g \<Rightarrow>
          bnd (varint_len sid) (\<lambda>n.
          Ok (min (of_nat (fg_shard_size g) - bp_payload_len p - 1 - of_nat n - 8 * 2) max_len))
      | None \<Rightarrow> Ok max_len)"

definition stream_overhead :: "u64 \<Rightarrow> u64 \<Rightarrow> usize \<Rightarrow> usize result" where
  "stream_overhead sid s_off max_len =
     bnd (varint_len sid) (\<lambda>a. bnd (varint_len s_off) (\<lambda>b. bnd (varint_len max_len) (\<lambda>c.
     Ok (1 + of_nat a + of_nat b + of_nat c))))"

definition choose_fec :: "('s, 'c, 'p) ext \<Rightarrow> send_info \<Rightarrow> block \<Rightarrow> u64 \<Rightarrow> ('s, 'c) conn \<Rightarrow> building \<Rightarrow> building" where
  "choose_fec x si blk len c p =
     (let (m, n) =
        (if fc_fec (cn_fec c) \<noteq> None then (0, 0)
         else
           let rate = (if cn_tail_size c \<noteq> None \<and> cn_tail_size c \<noteq> Some 0
                       then get_redundancy_rate x blk (cn_redundancy_rate c) (si_rtt si) (si_bandwidth si * Fin 1024)
                              (si_now_ms si) (rc_lost_count (cn_recovery c)) (rc_total_pkt_nums (cn_recovery c))
                       else 0)
           in fec_shape len rate)
      in case cn_tail_size c of
           Some tail_threshold \<Rightarrow> if len \<le> tail_threshold then p\<lparr>bp_m := m, bp_n := n\<rparr> else p
         | None \<Rightarrow> p)"

text \<open>The body of \<open>while let Some(stream_id) = peek_flushable(..)\<close> for one stream: \<open>True\<close> when it ends the
  loop, \<open>False\<close> for \<open>continue\<close>.\<close>

definition send_one_stream :: "('s, 'c, 'p) ext \<Rightarrow> send_info \<Rightarrow> u64 \<Rightarrow> block \<Rightarrow> building
    \<Rightarrow> (('s, 'c) conn, bool \<times> building) act" where
  "send_one_stream x si sid blk p =
     andThen (send_block_info sid p) (\<lambda>p.
     andThen (reads_st (\<lambda>c. c)) (\<lambda>c.
     case sm_streams (cn_streams c) sid of
       None \<Rightarrow> ret (False, p)
     | Some s \<Rightarrow>
         if \<not> (bp_left p > MAX_STREAM_OVERHEAD) then
           andThen (whenever (stream_is_flushable s) (on_streams (modify (sm_push_flushable sid)))) (\<lambda>_.
           ret (True, p))
         else
           andThen (lift (stream_max_len sid p c)) (\<lambda>max_len.
           andThen (lift (stream_overhead sid (send_off (st_send s)) max_len)) (\<lambda>overhead.
           case checked_sub max_len overhead of
             None \<Rightarrow> ret (False, p)
           | Some max_len \<Rightarrow>
               andThen (on_streams (on_stream sid Done
                 (andThen (on_send (pure_val (send_pop (unat max_len)))) (\<lambda>data.
                  andThen (reads_st (\<lambda>s. s)) (\<lambda>s. ret (data, s)))))) (\<lambda>(data, s).
               if rb_is_empty data \<and> \<not> rb_fin data then ret (False, p)
               else
                 andThen (modify (\<lambda>c. c\<lparr>cn_tx_data := cn_tx_data c + of_nat (rb_len data)\<rparr>)) (\<lambda>_.
                 andThen (add True (StreamFrame sid data) (choose_fec x si blk (sb_len (st_send s)) c p)) (\<lambda>p.
                 andThen (whenever (stream_is_flushable s) (on_streams (modify (sm_push_flushable sid)))) (\<lambda>_.
                 ret (True, p)))))))))"

text \<open>The loop \<open>while let Some(stream_id) = peek_flushable(..)\<close>, with the number of rounds it may take: \<open>None\<close> when
  they do not suffice, which is neither an error nor a panic of the source, \<open>Some\<close> when the loop ended. A round
  whose stream is in the queue takes it out, so the length of the queue is enough for the basic scheduler. The
  DTP scheduler may name a stream outside of the queue, and then the loop of the source does not end; both
  are properties of ConnFaults.\<close>

fun send_stream_loop :: "('s, 'c, 'p) ext \<Rightarrow> send_info \<Rightarrow> nat \<Rightarrow> building \<Rightarrow> (('s, 'c) conn, building option) act" where
  "send_stream_loop x si rounds p =
     andThen (on_streams (sm_peek_flushable (x_interface x) (si_bandwidth si) (si_rtt si) (si_pn si) (si_now_ms si)))
       (\<lambda>found.
     case found of
       None \<Rightarrow> ret (Some p)
     | Some sid \<Rightarrow>
         (case rounds of
            0 \<Rightarrow> ret None
          | Suc rounds \<Rightarrow>
              andThen (reads_st (\<lambda>c. (sm_get_block sid (cn_streams c), sm_streams (cn_streams c) sid))) (\<lambda>(blk, s).
              andThen (lift blk) (\<lambda>blk.
              let p = p\<lparr>bp_blocks := bp_blocks p @ [blk]\<rparr> in
              if s = None then send_stream_loop x si rounds p
              else
                andThen (send_one_stream x si sid blk p) (\<lambda>(finished, p).
                if finished then ret (Some p) else send_stream_loop x si rounds p)))))"

declare send_stream_loop.simps [simp del]

text \<open>A loop that does not end within its rounds is \<open>Panic\<close> from here on: \<open>send\<close> gives no result then.\<close>

definition send_streams :: "('s, 'c, 'p) ext \<Rightarrow> conn_env \<Rightarrow> ptype \<Rightarrow> u64 \<Rightarrow> bool \<Rightarrow> building \<Rightarrow> (('s, 'c) conn, building) act" where
  "send_streams x env ty pn closing p =
     andThen (reads_st (\<lambda>c. c)) (\<lambda>c.
     if ty = Short \<and> cn_max_tx_data c > cn_tx_data c \<and> bp_left p > MAX_STREAM_OVERHEAD \<and> \<not> closing
     then andThen (lift (send_info_of x env pn c)) (\<lambda>si.
          andThen (send_stream_loop x si (length (sm_flushable (cn_streams c))) p) (\<lambda>ended.
          lift (unwrap ended)))
     else ret p)"

definition send_ping :: "epoch \<Rightarrow> bool \<Rightarrow> building \<Rightarrow> (('s, 'c) conn, building) act" where
  "send_ping e closing p =
     andThen (reads_st (\<lambda>c. rc_loss_probes (cn_recovery c) e)) (\<lambda>probes.
     if probes > 0 \<and> \<not> bp_ack_eliciting p \<and> bp_left p \<ge> 1 \<and> \<not> closing then add True Ping p else ret p)"

section \<open>The whole packet\<close>

text \<open>The bytes that may be sent: what the congestion window leaves (a probe ignores it), the room in the
  buffer and, for a server that has not verified its peer's address, the credit from what it received.\<close>

definition send_limit :: "('s, 'c, 'p) ext \<Rightarrow> epoch \<Rightarrow> bool \<Rightarrow> nat \<Rightarrow> ('s, 'c) conn \<Rightarrow> usize" where
  "send_limit x e closing room c =
     (let left = (if rc_loss_probes (cn_recovery c) e > 0 \<and> \<not> closing then of_nat room
                  else min (rec_cwnd_available (x_cc x) (cn_recovery c)) (of_nat room))
      in if \<not> cn_verified_peer_address c \<and> cn_is_server c then min left (cn_max_send_bytes c) else left)"

definition send_header :: "ptype \<Rightarrow> nat \<Rightarrow> ('s, 'c) conn \<Rightarrow> header" where
  "send_header ty pn_len c =
     \<lparr>h_ty = ty, h_version = cn_version c, h_dcid = cn_dcid c, h_scid = cn_scid c, h_pkt_num = 0,
      h_pkt_num_len = pn_len, h_token = cn_token c, h_versions = None, h_key_phase = False,
      h_fec_info = fec_status_default\<rparr>"

text \<open>The frames when no redundancy frame is waiting.\<close>

definition send_normal_frames :: "('s, 'c, 'p) ext \<Rightarrow> conn_env \<Rightarrow> ptype \<Rightarrow> epoch \<Rightarrow> u64 \<Rightarrow> bool \<Rightarrow> building
    \<Rightarrow> (('s, 'c) conn, building) act" where
  "send_normal_frames x env ty e pn closing p =
     andThen (send_ack_frame x env e pn closing p) (\<lambda>p.
     andThen (reads_st (\<lambda>c. en_order env (sm_canceled (cn_streams c)))) (\<lambda>sids.
     andThen (send_canceled sids p) (\<lambda>p.
     andThen (if ty = Short \<and> \<not> closing then send_control_frames x env p else ret p) (\<lambda>p.
     andThen (send_close_frames (en_now env) ty p) (\<lambda>p.
     andThen (send_path_response p) (\<lambda>p.
     andThen (send_crypto e closing p) (\<lambda>p.
     andThen (send_streams x env ty pn closing p) (\<lambda>p.
     send_ping e closing p))))))))"

text \<open>Or the next redundancy frame, alone; it stays in the queue when it does not fit.\<close>

definition send_frames :: "('s, 'c, 'p) ext \<Rightarrow> conn_env \<Rightarrow> header \<Rightarrow> epoch \<Rightarrow> u64 \<Rightarrow> bool \<Rightarrow> octets \<Rightarrow> building
    \<Rightarrow> (('s, 'c) conn, header \<times> octets \<times> building) act" where
  "send_frames x env hdr e pn closing b p =
     andThen (reads_st (\<lambda>c. fc_encoded (cn_fec c))) (\<lambda>encoded.
     case encoded of
       redundancy # rest \<Rightarrow>
         if length (ff_data redundancy) \<le> unat (bp_left p) then
           andThen (modify (\<lambda>c. c\<lparr>cn_fec := (cn_fec c)\<lparr>fc_encoded := rest\<rparr>\<rparr>)) (\<lambda>_.
           andThen (add True (FecFrame (ff_info redundancy) (ff_data redundancy)) p) (\<lambda>p.
           let hdr = hdr\<lparr>h_fec_info := ff_info redundancy\<rparr> in
           andThen (lift (update_fec_info hdr b)) (\<lambda>b. ret (hdr, b, p))))
         else throw Done
     | [] \<Rightarrow> andThen (send_normal_frames x env (h_ty hdr) e pn closing p) (\<lambda>p. ret (hdr, b, p)))"

text \<open>Padding: a client's Initial packet to the minimum size, every payload to four bytes, and a packet
  that goes into an FEC group to the size of its shards. \<open>left\<close> is not updated.\<close>

definition add_padding :: "usize \<Rightarrow> building \<Rightarrow> building" where
  "add_padding n p =
     p\<lparr>bp_payload_len := bp_payload_len p + n, bp_frames := bp_frames p @ [Padding (unat n)], bp_in_flight := True\<rparr>"

definition payload_min_len :: "ptype \<Rightarrow> fec_conn \<Rightarrow> building \<Rightarrow> usize" where
  "payload_min_len ty fc p =
     (if ty = Short \<and> ((bp_m p \<noteq> 0 \<and> bp_n p \<noteq> 0) \<or> fc_fec fc \<noteq> None)
      then (case fc_fec fc of Some g \<Rightarrow> of_nat (fg_shard_size g) | None \<Rightarrow> 1301)
      else PAYLOAD_MIN_LEN)"

definition pad_packet :: "bool \<Rightarrow> ptype \<Rightarrow> fec_conn \<Rightarrow> nat \<Rightarrow> nat \<Rightarrow> building \<Rightarrow> building" where
  "pad_packet is_server ty fc pn_len overhead p =
     (let p = (if \<not> is_server \<and> ty = Initial
               then add_padding (min (MIN_CLIENT_INITIAL_LEN - (of_nat pn_len + bp_payload_len p + of_nat overhead))
                                     (bp_left p)) p
               else p);
          n = payload_min_len ty fc p
      in if bp_payload_len p < n then add_padding (n - bp_payload_len p) p else p)"

fun put_frames :: "frame list \<Rightarrow> octets \<Rightarrow> octets result" where
  "put_frames [] b = Ok b"
| "put_frames (f # fs) b = bnd (frame_to_bytes f b) (\<lambda>(_, b). put_frames fs b)"

text \<open>The packet goes into the FEC group being sent, or opens one of the chosen shape.\<close>

definition send_fec :: "('s, 'c, 'p) ext \<Rightarrow> header \<Rightarrow> nat \<Rightarrow> nat \<Rightarrow> octets \<Rightarrow> building
    \<Rightarrow> (('s, 'c) conn, header \<times> octets) act" where
  "send_fec x hdr payload_offset plain_len b p =
     andThen (reads_st (\<lambda>c. fc_fec (cn_fec c))) (\<lambda>group.
     if (bp_m p \<noteq> 0 \<and> bp_n p \<noteq> 0) \<or> group \<noteq> None then
       andThen (lift (bnd (split_at payload_offset b) (\<lambda>(_, payload). slice plain_len payload))) (\<lambda>data.
       andThen (on_part cn_fec (\<lambda>f c. c\<lparr>cn_fec := f\<rparr>) (pure_val (fec_on_send (x_rs_new x) (bp_m p) (bp_n p) data))) (\<lambda>info.
       let hdr = (case info of Some info \<Rightarrow> hdr\<lparr>h_fec_info := info\<rparr> | None \<Rightarrow> hdr) in
       andThen (lift (update_fec_info hdr b)) (\<lambda>b. ret (hdr, b))))
     else ret (hdr, b))"

text \<open>What is recorded of the packet.\<close>

definition packet_sent :: "('s, 'c, 'p) ext \<Rightarrow> conn_env \<Rightarrow> header \<Rightarrow> epoch \<Rightarrow> u64 \<Rightarrow> nat \<Rightarrow> building
    \<Rightarrow> ('s, 'c) conn \<Rightarrow> ('s, 'c) conn" where
  "packet_sent x env hdr e pn written p c =
     (let now = en_now env;
          pkt = \<lparr>sn_pkt_num = pn, sn_frames = bp_frames p, sn_time = now,
                 sn_size = (if bp_ack_eliciting p then of_nat written else 0),
                 sn_ack_eliciting = bp_ack_eliciting p, sn_in_flight = bp_in_flight p, sn_fec_info = h_fec_info hdr\<rparr>;
          c = c\<lparr>cn_recovery := rec_on_packet_sent (x_cc x) (en_cc env) pkt e (is_established x c) now (cn_recovery c)\<rparr>;
          c = c\<lparr>cn_spaces := (cn_spaces c)(e := (cn_spaces c e)\<lparr>ps_next_pkt_num := ps_next_pkt_num (cn_spaces c e) + 1\<rparr>)\<rparr>;
          c = c\<lparr>cn_sent_count := cn_sent_count c + 1\<rparr>;
          c = (if \<not> cn_is_server c \<and> h_ty hdr = Handshake then drop_epoch_state x env EPOCH_INITIAL c else c);
          c = c\<lparr>cn_max_send_bytes := sat_sub64 (cn_max_send_bytes c) (of_nat written)\<rparr>;
          c = (if bp_ack_eliciting p \<and> \<not> cn_ack_eliciting_sent c
               then (case idle_timeout c of Some t \<Rightarrow> c\<lparr>cn_idle_timer := Some (now + int t)\<rparr> | None \<Rightarrow> c)
               else c)
      in if bp_ack_eliciting p then c\<lparr>cn_ack_eliciting_sent := True\<rparr> else c)"

text \<open>From the chosen frames to the protected packet.\<close>

definition send_packet :: "('s, 'c, 'p) ext \<Rightarrow> conn_env \<Rightarrow> header \<Rightarrow> epoch \<Rightarrow> u64 \<Rightarrow> nat \<Rightarrow> nat \<Rightarrow> octets \<Rightarrow> building
    \<Rightarrow> (('s, 'c) conn, nat \<times> u8 list) act" where
  "send_packet x env hdr e pn pn_len overhead b p =
     andThen (whenever (bp_ack_eliciting p) (on_recovery (modify (\<lambda>r.
       r\<lparr>rc_loss_probes := (rc_loss_probes r)(e := sat_sub64 (rc_loss_probes r e) 1)\<rparr>)))) (\<lambda>_.
     andThen (fail_if (bp_frames p = []) Done) (\<lambda>_.
     andThen (reads_st (\<lambda>c. pad_packet (cn_is_server c) (h_ty hdr) (cn_fec c) pn_len overhead p)) (\<lambda>p.
     let plain_len = unat (bp_payload_len p); payload_len = plain_len + overhead in
     andThen (lift (if h_ty hdr \<noteq> Short then put_varint (of_nat (pn_len + payload_len)) b else Ok b)) (\<lambda>b.
     andThen (lift (encode_pkt_num pn b)) (\<lambda>b.
     let payload_offset = off b in
     andThen (lift (put_frames (bp_frames p) b)) (\<lambda>b.
     andThen (send_fec x hdr payload_offset plain_len b p) (\<lambda>(hdr, b).
     andThen (reads_st (\<lambda>c. ps_crypto_seal (cn_spaces c e))) (\<lambda>seal.
     andThen (lift (ok_or InvalidState seal)) (\<lambda>aead.
     andThen (lift (encrypt_pkt pn pn_len payload_len payload_offset aead b)) (\<lambda>(written, b).
     andThen (modify (packet_sent x env hdr e pn written p)) (\<lambda>_.
     ret (written, buf b))))))))))))"

text \<open>What follows the handshake; \<open>closing\<close> is \<open>is_closing\<close> as it was before.\<close>

definition send_datagram :: "('s, 'c, 'p) ext \<Rightarrow> (nat \<Rightarrow> conn_env) \<Rightarrow> u8 list \<Rightarrow> bool
    \<Rightarrow> (('s, 'c) conn, (nat \<times> u8 list) \<times> block list) act" where
  "send_datagram x env out closing =
     andThen (reads_st (\<lambda>c. c)) (\<lambda>c.
     let max_pkt_len = (if is_established x c then unat (min 16383 (tp_max_packet_size (cn_peer_tp c))) else 1200);
         avail = min max_pkt_len (length out);
         b = with_slice (take avail out) in
     andThen (lift (write_epoch x c)) (\<lambda>e.
     andThen (lift (type_from_epoch e)) (\<lambda>ty.
     andThen (send_lost e) (\<lambda>_.
     andThen (reads_st (\<lambda>c. c)) (\<lambda>c.
     let left = send_limit x e closing (cap b) c; pn = ps_next_pkt_num (cn_spaces c e) in
     andThen (lift (pkt_num_len pn)) (\<lambda>pn_len.
     andThen (lift (ok_or Done (space_overhead (cn_spaces c e)))) (\<lambda>overhead.
     let hdr = send_header ty pn_len c in
     andThen (lift (header_to_bytes hdr b)) (\<lambda>b.
     andThen (lift (ok_or Done (checked_sub left (of_nat (off b + pn_len + overhead))))) (\<lambda>left.
     andThen (lift (if ty \<noteq> Short then ok_or Done (checked_sub left 2) else Ok left)) (\<lambda>left.
     let p = \<lparr>bp_left = left, bp_payload_len = 0, bp_frames = [], bp_ack_eliciting = False, bp_in_flight = False,
              bp_m = 0, bp_n = 0, bp_blocks = []\<rparr> in
     andThen (send_frames x (env 0) hdr e pn closing b p) (\<lambda>(hdr, b, p).
     andThen (send_packet x (env 1) hdr e pn pn_len overhead b p) (\<lambda>(written, bytes).
     ret ((written, bytes @ drop avail out), bp_blocks p)))))))))))))"

definition conn_send_with_blocks :: "('s, 'c, 'p) ext \<Rightarrow> (nat \<Rightarrow> conn_env) \<Rightarrow> u8 list
    \<Rightarrow> (('s, 'c) conn, (nat \<times> u8 list) \<times> block list) act" where
  "conn_send_with_blocks x env out =
     andThen (fail_if (out = []) BufferTooShort) (\<lambda>_.
     andThen (reads_st (\<lambda>c. c)) (\<lambda>c.
     andThen (fail_if (cn_draining_timer c \<noteq> None) Done) (\<lambda>_.
     andThen (fail_if (\<not> cn_derived_initial_secrets c) Done) (\<lambda>_.
     andThen (whenever (\<not> is_closing c) (do_handshake x)) (\<lambda>_.
     send_datagram x env out (is_closing c))))))"

text \<open>\<open>send\<close>: the packet's length and the buffer.\<close>

definition conn_send :: "('s, 'c, 'p) ext \<Rightarrow> (nat \<Rightarrow> conn_env) \<Rightarrow> u8 list \<Rightarrow> (('s, 'c) conn, nat \<times> u8 list) act" where
  "conn_send x env out = andThen (conn_send_with_blocks x env out) (\<lambda>(r, _). ret r)"

end
