(* ===== verification/ConnInv.thy ===== *)
theory ConnInv
  imports ConnRecv ConnSend
begin

text \<open>Which operations touch the flow control of a connection. The interface of an invariant is a locale:
  \<open>conn_keeps\<close> has the fields that most operations change, \<open>conn_keeps_credit\<close> adds the peer's limit,
  which the handshake sets, and \<open>conn_keeps_data\<close> the count of received bytes. Its lemmas say that an
  invariant of the interface is kept by the operations; they are used for the invariants of the model
  through interpretations.\<close>

lemma wp_on_stream [wp_rules]:
  "wp (on_stream sid e m) Q E sm \<longleftrightarrow> (case sm_streams sm sid of
     None \<Rightarrow> E (Some e) sm
   | Some s \<Rightarrow> wp m (\<lambda>x s. Q x (sm\<lparr>sm_streams := (sm_streams sm)(sid \<mapsto> s)\<rparr>))
       (\<lambda>err s. E err (sm\<lparr>sm_streams := (sm_streams sm)(sid \<mapsto> s)\<rparr>)) s)"
  by (auto simp: wp_def on_stream_def split: option.split prod.split res.split)

section \<open>Small changes of the streams\<close>

text \<open>A stream that has something to send, or is collected and gone.\<close>

definition stream_pending :: "u64 \<Rightarrow> stream_map \<Rightarrow> bool" where
  "stream_pending sid m \<longleftrightarrow>
     (case sm_streams m sid of Some s \<Rightarrow> stream_is_flushable s | None \<Rightarrow> sid \<in> sm_collected m)"

text \<open>What most operations may do to the streams: the queue and the scheduler stay, a stream that has something
  to send keeps it or is collected, and a collected stream does not come back empty.\<close>

definition stream_change :: "stream_map \<Rightarrow> stream_map \<Rightarrow> bool" where
  "stream_change m m' \<longleftrightarrow> sm_scheduler m' = sm_scheduler m \<and> sm_flushable m' = sm_flushable m
     \<and> (\<forall>sid. stream_pending sid m \<longrightarrow> stream_pending sid m')"

lemma stream_change_refl: "stream_change m m"
  by (simp add: stream_change_def)

lemma stream_change_trans: "stream_change a b \<Longrightarrow> stream_change b c \<Longrightarrow> stream_change a c"
  by (simp add: stream_change_def)

lemma stream_change_same:
  "sm_scheduler m' = sm_scheduler m \<Longrightarrow> sm_flushable m' = sm_flushable m \<Longrightarrow> sm_collected m' = sm_collected m \<Longrightarrow>
   sm_streams m' = sm_streams m \<Longrightarrow> stream_change m m'"
  by (simp add: stream_change_def stream_pending_def cong: option.case_cong)

lemma stream_change_marks:
  "stream_change m (sm_mark_readable sid v m)" "stream_change m (sm_mark_writable sid v m)"
  "stream_change m (sm_mark_canceled sid v m)" "stream_change m (sm_mark_almost_full sid v m)"
  "stream_change m (sm_update_peer_max_streams_bidi k m)" "stream_change m (sm_update_peer_max_streams_uni k m)"
  "stream_change m (snd (sm_update_max_streams_bidi m))" "stream_change m (snd (sm_update_max_streams_uni m))"
  by (rule stream_change_same; simp add: sm_mark_readable_def sm_mark_writable_def sm_mark_canceled_def
      sm_mark_almost_full_def sm_update_peer_max_streams_bidi_def sm_update_peer_max_streams_uni_def
      sm_update_max_streams_bidi_def sm_update_max_streams_uni_def)+

lemma stream_change_put:
  assumes "sm_streams m sid = Some s" "stream_is_flushable s \<Longrightarrow> stream_is_flushable s'"
  shows "stream_change m (m\<lparr>sm_streams := (sm_streams m)(sid \<mapsto> s')\<rparr>)"
  using assms by (auto simp: stream_change_def stream_pending_def cong: option.case_cong)

lemma stream_change_collect: "stream_change m (sm_collect sid local m)"
  by (auto simp: stream_change_def stream_pending_def sm_collect_def Let_def split: option.splits)

lemma stream_change_on_stream:
  assumes "keeps stream_is_flushable a"
  shows "stream_change m (snd (on_stream sid e a m))"
proof (cases "sm_streams m sid")
  case None
  then show ?thesis by (simp add: on_stream_def stream_change_refl)
next
  case (Some s)
  have "stream_is_flushable s \<Longrightarrow> stream_is_flushable (snd (a s))" using assms by (simp add: keeps_def)
  with stream_change_put [OF Some this] Some show ?thesis by (cases "a s") (simp add: on_stream_def)
qed

lemma stream_change_modify: "stream_change m (g m) \<Longrightarrow> stream_change m (snd (modify g m))"
  by (simp add: modify_def)

lemma stream_change_val: "stream_change m (snd (f m)) \<Longrightarrow> stream_change m (snd (case f m of (v, m') \<Rightarrow> (Ok v, m')))"
  by (cases "f m") simp

lemma stream_change_create:
  "stream_change m (snd (pure_val (sm_get_or_create wall clock sid lp pp local is_server dl pr dep) m))"
proof -
  have writable: "stream_change m m1 \<Longrightarrow>
      stream_change m (if b then m1\<lparr>sm_writable := insert sid (sm_writable m1)\<rparr> else m1)" for m1 b
    by (rule stream_change_trans) (auto intro: stream_change_same)
  show ?thesis
  proof (cases "sm_streams m sid")
    case (Some s)
    with writable [OF stream_change_refl, of "stream_is_writable s"] show ?thesis
      by (simp add: pure_val_def sm_get_or_create_def)
  next
    case None
    show ?thesis
    proof (cases "local \<noteq> is_local sid is_server \<or> sid \<in> sm_collected m")
      case True
      with None show ?thesis by (auto simp: pure_val_def sm_get_or_create_def stream_change_refl)
    next
      case False
      obtain rx tx where lim: "stream_limits lp pp local (is_bidi sid) = (rx, tx)" by fastforce
      let ?s = "stream_new_full wall clock rx tx (is_bidi sid) local dl pr dep"
      show ?thesis
      proof (cases "sm_count (is_local sid is_server) (is_bidi sid) m")
        case (Ok m1)
        then have "sm_scheduler m1 = sm_scheduler m" "sm_flushable m1 = sm_flushable m"
          "sm_collected m1 = sm_collected m" "sm_streams m1 = sm_streams m"
          by (auto simp: sm_count_def split: if_splits)
        with None False have "stream_change m (m1\<lparr>sm_streams := (sm_streams m1)(sid \<mapsto> ?s)\<rparr>)"
          by (auto simp: stream_change_def stream_pending_def cong: option.case_cong)
        from writable [OF this, of "stream_is_writable ?s"] None False Ok lim show ?thesis
          by (auto simp: pure_val_def sm_get_or_create_def Let_def)
      qed (use None False lim in \<open>simp_all add: pure_val_def sm_get_or_create_def stream_change_refl\<close>)
    qed
  qed
qed

text \<open>What keeps what a stream has to send: anything about the receive side, and these of the send side.\<close>

lemma flushable_iff:
  "stream_is_flushable s \<longleftrightarrow> (\<exists>b bs. sb_data (st_send s) = b # bs \<and> rb_off b < sb_max_data (st_send s))"
  by (cases "sb_data (st_send s)") (auto simp: stream_is_flushable_def send_ready_def send_off_def bh_peek_def)

lemma flushable_on_recv: "keeps stream_is_flushable (on_recv a)"
  by (auto simp: keeps_def on_recv_def on_part_def flushable_iff split: prod.split)

lemma flushable_on_send:
  "keeps stream_is_flushable (on_send (modify send_un_new))"
  "keeps stream_is_flushable (on_send (modify send_info_frame_lost))"
  "keeps stream_is_flushable (on_send (modify (send_update_max_data k)))"
  by (auto simp: keeps_def on_send_def on_part_def modify_def flushable_iff send_un_new_def send_info_frame_lost_def
      send_update_max_data_def less_max_iff_disj)

lemma flushable_ack: "stream_is_flushable (s\<lparr>st_send := send_ack k n (st_send s)\<rparr>) = stream_is_flushable s"
  by (simp add: flushable_iff send_ack_def)

lemmas stream_changes = stream_change_on_stream stream_change_create stream_change_marks stream_change_modify
  stream_change_val flushable_on_recv flushable_on_send

section \<open>Invariants kept by the bookkeeping\<close>

locale conn_core =
  fixes I :: "('s, 'c) conn \<Rightarrow> bool"
  assumes upd_spaces: "I c \<Longrightarrow> I (c\<lparr>cn_spaces := v1\<rparr>)"
    and upd_tls: "I c \<Longrightarrow> I (c\<lparr>cn_tls := v2\<rparr>)"
    and upd_recovery: "I c \<Longrightarrow> I (c\<lparr>cn_recovery := v3\<rparr>)"
    and upd_change: "stream_change (cn_streams c) v4 \<Longrightarrow> I c \<Longrightarrow> I (c\<lparr>cn_streams := v4\<rparr>)"
    and upd_fec: "I c \<Longrightarrow> I (c\<lparr>cn_fec := v5\<rparr>)"
    and upd_error: "I c \<Longrightarrow> I (c\<lparr>cn_error := Some v6\<rparr>)"
    and upd_app_error: "I c \<Longrightarrow> I (c\<lparr>cn_app_error := Some v7\<rparr>)"
    and upd_app_reason: "I c \<Longrightarrow> I (c\<lparr>cn_app_reason := v8\<rparr>)"
    and upd_challenge: "I c \<Longrightarrow> I (c\<lparr>cn_challenge := v9\<rparr>)"
    and upd_idle_timer: "I c \<Longrightarrow> I (c\<lparr>cn_idle_timer := v10\<rparr>)"
    and upd_draining_timer: "I c \<Longrightarrow> I (c\<lparr>cn_draining_timer := Some v11\<rparr>)"
    and upd_handshake_done_sent: "I c \<Longrightarrow> I (c\<lparr>cn_handshake_done_sent := v12\<rparr>)"
    and upd_handshake_confirmed: "I c \<Longrightarrow> I (c\<lparr>cn_handshake_confirmed := v13\<rparr>)"
    and upd_peer_tp: "I c \<Longrightarrow> I (c\<lparr>cn_peer_tp := v14\<rparr>)"
    and upd_parsed: "I c \<Longrightarrow> I (c\<lparr>cn_parsed_peer_tp := v15\<rparr>)"
    and upd_closed: "I c \<Longrightarrow> I (c\<lparr>cn_closed := v16\<rparr>)"
    and upd_recv_count: "I c \<Longrightarrow> I (c\<lparr>cn_recv_count := v17\<rparr>)"
    and upd_ack_eliciting_sent: "I c \<Longrightarrow> I (c\<lparr>cn_ack_eliciting_sent := v19\<rparr>)"
    and upd_version: "I c \<Longrightarrow> I (c\<lparr>cn_version := v20\<rparr>)"
    and upd_vn: "I c \<Longrightarrow> I (c\<lparr>cn_did_version_negotiation := v21\<rparr>)"
    and upd_got: "I c \<Longrightarrow> I (c\<lparr>cn_got_peer_conn_id := v22\<rparr>)"
    and upd_token: "I c \<Longrightarrow> I (c\<lparr>cn_token := v23\<rparr>)"
    and upd_retry: "I c \<Longrightarrow> I (c\<lparr>cn_did_retry := v24\<rparr>)"
    and upd_odcid: "I c \<Longrightarrow> I (c\<lparr>cn_odcid := v25\<rparr>)"
    and upd_dcid: "I c \<Longrightarrow> I (c\<lparr>cn_dcid := v26\<rparr>)"
    and upd_derived: "I c \<Longrightarrow> I (c\<lparr>cn_derived_initial_secrets := v27\<rparr>)"
    and upd_sent_count: "I c \<Longrightarrow> I (c\<lparr>cn_sent_count := v28\<rparr>)"
begin

lemmas upds = upd_spaces upd_tls upd_recovery upd_fec upd_error upd_app_error upd_app_reason
  upd_challenge upd_idle_timer upd_draining_timer upd_handshake_done_sent upd_handshake_confirmed
  upd_peer_tp upd_parsed upd_closed upd_recv_count upd_ack_eliciting_sent upd_version
  upd_vn upd_got upd_token upd_retry upd_odcid upd_dcid upd_derived upd_sent_count

lemma keeps_core_parts:
  "keeps I (on_space e (m1 :: (pkt_space, 'x) act))" "keeps I (on_recovery (m3 :: ('c recovery, 'z) act))"
  "keeps I (on_tls (m4 :: ('s, 'w) act))"
  "keeps I (on_part cn_fec (\<lambda>f c. c\<lparr>cn_fec := f\<rparr>) (m5 :: (fec_conn, 'v) act))"
  by (auto simp: conn_parts intro!: upds)

lemma keeps_change: "(\<And>m. stream_change m (snd (f m))) \<Longrightarrow> keeps I (on_streams f)"
  by (auto simp: keeps_def on_streams_def on_part_def split: prod.split) (metis snd_conv upd_change)

lemmas core_rules = keeps_core_parts keeps_change stream_changes keeps_andThen keeps_ret keeps_throw keeps_lift
  keeps_reads_st keeps_fail_if keeps_whenever keeps_if keeps_unless_done keeps_each

lemma keeps_callbacks:
  "keeps I (set_encryption_secrets h level cipher r w)" "keeps I (add_handshake_data level data)"
  "keeps I flush_flight" "keeps I (send_alert alert)" "keeps I (select_alpn inp)"
proof -
  have zero: "keeps I (or_zero m f)" if "\<And>y. keeps I (f y)" for m :: "'x result" and f
    using that by (auto simp: or_zero_def intro!: core_rules split: res.split)
  show "keeps I (set_encryption_secrets h level cipher r w)"
    unfolding set_encryption_secrets_def by (intro zero core_rules)
  show "keeps I (add_handshake_data level data)"
    by (auto simp: add_handshake_data_def keeps_def lift_def Let_def split: prod.split intro!: upds)
  show "keeps I flush_flight" unfolding flush_flight_def by (intro core_rules)
  show "keeps I (send_alert alert)" unfolding send_alert_def by (intro core_rules keeps_modify upds)
  show "keeps I (select_alpn inp)" unfolding select_alpn_def by (intro core_rules)
qed

lemma keeps_run_ssl: "keeps I (run_ssl x run)"
  by (induction run) (auto intro!: core_rules keeps_callbacks)

lemma keeps_tls:
  "keeps I (tls_provide_data x level data)" "keeps I (tls_do_handshake x)" "keeps I (tls_clear x)"
  unfolding tls_provide_data_def tls_do_handshake_def tls_clear_def tls_result_def
  by (intro core_rules keeps_run_ssl)+

lemma keeps_close: "keeps I (conn_close app err reason)"
  unfolding conn_close_def by (intro core_rules keeps_modify upds)

lemma keeps_drop_epoch: "I c \<Longrightarrow> I (drop_epoch_state x env e c)"
  by (simp add: drop_epoch_state_def Let_def upds)

lemma keeps_get_or_create:
  "keeps I (get_or_create_stream_full env sid local dl pr dep)" "keeps I (get_or_create_stream env sid local)"
  unfolding get_or_create_stream_def get_or_create_stream_full_def
  using keeps_change [OF stream_change_create] by (auto simp: keeps_def)

lemma keeps_ack: "keeps I (process_ack x env packet_time ack_delay ranges e now)"
  unfolding process_ack_def
  by (intro core_rules keeps_modify keeps_drop_epoch upds)

lemma keeps_reset_initial: "keeps I (reset_initial x env)"
  unfolding reset_initial_def by (intro core_rules keeps_tls keeps_modify upds)

lemma keeps_initial_keys: "keeps I (set_initial_keys x cid)"
  unfolding set_initial_keys_def case_prod_beta by (intro core_rules)

lemma keeps_negotiation: "keeps I (recv_version_negotiation x env h)"
  unfolding recv_version_negotiation_def Let_def
  by (intro core_rules keeps_reset_initial keeps_modify upds)

lemma keeps_retry: "keeps I (recv_retry x env b h)"
  unfolding recv_retry_def
  by (intro core_rules keeps_reset_initial keeps_initial_keys keeps_modify upds)

lemma keeps_prepare: "keeps I (recv_prepare x b h)"
  unfolding recv_prepare_def case_prod_beta
  by (intro core_rules keeps_initial_keys keeps_modify upds)

lemma keeps_acked: "I c \<Longrightarrow> I (process_acked e c)"
proof -
  have stream: "stream_change m (m\<lparr>sm_streams := (sm_streams m)(sid \<mapsto> s\<lparr>st_send := send_ack k n (st_send s)\<rparr>)\<rparr>)"
    if "sm_streams m sid = Some s" for sid m s k n
    using stream_change_put [OF that, of "s\<lparr>st_send := send_ack k n (st_send s)\<rparr>"] by (simp add: flushable_ack)
  have step: "I (process_acked_frame e f c)" if "I c" for f c
  proof (cases f)
    case (StreamFrame sid data)
    with that show ?thesis
      by (auto simp: process_acked_frame_def Let_def split: option.split
          intro!: upd_change stream stream_change_trans [OF stream stream_change_collect])
  qed (use that in \<open>auto simp: process_acked_frame_def Let_def intro: upds split: option.split\<close>)
  have "I (fold (process_acked_frame e) fs c)" if "I c" for fs c
    using that by (induction fs arbitrary: c) (auto intro: step)
  then show "I c \<Longrightarrow> I (process_acked e c)" by (simp add: process_acked_def Let_def upds)
qed

lemma keeps_on_timeout: "keeps I (on_timeout x env)"
  unfolding on_timeout_def Let_def
  by (auto intro!: core_rules keeps_modify upds split: option.split)

end

text \<open>An invariant that does not mention the streams at all.\<close>

locale conn_keeps = conn_core I for I :: "('s, 'c) conn \<Rightarrow> bool" +
  assumes upd_streams: "I c \<Longrightarrow> I (c\<lparr>cn_streams := v38\<rparr>)"
begin

lemma keeps_parts:
  "keeps I (on_space e (m1 :: (pkt_space, 'x) act))" "keeps I (on_streams (m2 :: (stream_map, 'y) act))"
  "keeps I (on_recovery (m3 :: ('c recovery, 'z) act))" "keeps I (on_tls (m4 :: ('s, 'w) act))"
  "keeps I (on_part cn_fec (\<lambda>f c. c\<lparr>cn_fec := f\<rparr>) (m5 :: (fec_conn, 'v) act))"
  by (auto simp: conn_parts intro!: upds upd_streams)

lemmas keep_rules = keeps_parts keeps_andThen keeps_ret keeps_throw keeps_lift keeps_reads_st keeps_fail_if
  keeps_whenever keeps_if keeps_unless_done keeps_each

end

section \<open>The handshake and the received frames\<close>

locale conn_credit_core = conn_core I for I :: "('s, 'c) conn \<Rightarrow> bool" +
  assumes upd_max_tx: "I c \<Longrightarrow> I (c\<lparr>cn_max_tx_data := v29\<rparr>)"
begin

lemma keeps_do_handshake: "keeps I (do_handshake x)"
proof -
  have streams: "I (c\<lparr>cn_max_tx_data := a, cn_streams := sm_update_peer_max_streams_uni j (sm_update_peer_max_streams_bidi k (cn_streams c))\<rparr>)"
    if "I c" for a j k c
    using stream_change_trans [OF stream_change_marks(5) stream_change_marks(6)] that
    by (intro upd_change upd_max_tx) simp_all
  show ?thesis
    unfolding do_handshake_def by (intro core_rules keeps_tls keeps_modify upds streams)
qed

lemma keeps_crypto: "keeps I (process_crypto x env data e)"
  unfolding process_crypto_def case_prod_beta by (intro core_rules keeps_tls keeps_do_handshake)

lemma keeps_block_info: "keeps I (process_block_info env sid bsize prio deadline start)"
  unfolding process_block_info_def peer_may_send_def by (intro core_rules keeps_get_or_create)

end

locale conn_keeps_credit = conn_keeps I + conn_credit_core I for I :: "('s, 'c) conn \<Rightarrow> bool"
begin

lemma keeps_max_stream_data: "keeps I (process_max_stream_data env sid m)"
  unfolding process_max_stream_data_def Let_def by (intro keep_rules keeps_get_or_create)

end

text \<open>\<open>E\<close> is what holds after an error; only the two handlers that count received bytes need it.\<close>

locale conn_recv_inv = conn_credit_core I for I :: "('s, 'c) conn \<Rightarrow> bool" +
  fixes E :: "error option \<Rightarrow> ('s, 'c) conn \<Rightarrow> bool"
  assumes I_E: "I c \<Longrightarrow> E err c"
    and upd_verified: "I c \<Longrightarrow> I (c\<lparr>cn_verified_peer_address := v18\<rparr>)"
    and stream_safe: "safe I E (process_stream env sid data)"
    and reset_safe: "safe I E (process_reset env sid code final_size)"
    and max_stream_data_kept: "keeps I (process_max_stream_data env sid m)"
begin

lemma safeK: "keeps I m \<Longrightarrow> safe I E m"
  by (rule keeps_safe) (auto intro: I_E)

lemmas safe_leaf = keeps_ret [THEN safeK] keeps_throw [THEN safeK] keeps_lift [THEN safeK]
  keeps_reads_st [THEN safeK] keeps_fail_if [THEN safeK] keeps_core_parts [THEN safeK] keeps_change [THEN safeK]
  stream_changes

lemmas safe_rules = safe_andThen safe_whenever safe_if safe_each safe_leaf

lemma safe_modify: "(\<And>c. I c \<Longrightarrow> I (g c)) \<Longrightarrow> safe I E (modify g)"
  by (rule safeK) (rule keeps_modify)

lemmas safe_frame_rules = safe_rules stream_safe reset_safe keeps_ack [THEN safeK] keeps_crypto [THEN safeK]
  keeps_block_info [THEN safeK] max_stream_data_kept [THEN safeK] safe_modify upds upd_max_tx keeps_drop_epoch

lemma safe_process_frame: "safe I E (process_frame x env f e now)"
  unfolding process_frame_def by (cases f; simp only: frame.case; intro safe_frame_rules; assumption?)

lemma safe_payload: "safe I E (process_payload x env i ty e now elicited b)"
proof (induction x env i ty e now elicited b rule: process_payload.induct)
  case (1 x env i ty e now elicited b)
  show ?case
  proof (cases "0 < cap b")
    case True
    with 1 show ?thesis
      by (auto simp: process_payload.simps [of x env i]
          intro!: safe_rules safe_process_frame split: res.split prod.split)
  next
    case False
    then show ?thesis by (auto simp: process_payload.simps [of x env i] intro: safe_leaf)
  qed
qed

lemma safe_packet_frames: "safe I E (process_packet_frames x env h e now payload)"
proof -
  have restored: "safe I E (process_restored x env e now shards)" for shards
    unfolding process_restored_def by (intro safe_rules safe_payload)
  have "safe I E (case r of Some shards \<Rightarrow> process_restored x env e now shards | None \<Rightarrow> ret ())" for r
    by (auto intro: restored safe_leaf split: option.split)
  then show ?thesis
    unfolding process_packet_frames_def Let_def by (intro safe_rules safe_payload)
qed

lemma keeps_packet_done: "I c \<Longrightarrow> I (packet_done x env h e pn now elicited c)"
  by (auto simp: packet_done_def Let_def intro!: upds upd_verified keeps_drop_epoch keeps_acked split: option.split)

lemma safe_protected: "safe I E (recv_protected x env b h payload_len e aead)"
  unfolding recv_protected_def case_prod_beta
  by (intro safe_rules safe_packet_frames safe_modify keeps_packet_done)

lemma safe_recv_single: "safe I E (recv_single x env bytes)"
proof -
  have "safe I E (case k of None \<Rightarrow> ret n | Some aead \<Rightarrow> recv_protected x env b h len e aead)" for k n b h len e
    by (auto intro: safe_protected safe_leaf split: option.split)
  then show ?thesis
    unfolding recv_single_def case_prod_beta
    by (intro safe_rules keeps_negotiation [THEN safeK] keeps_retry [THEN safeK] keeps_prepare [THEN safeK])
qed

end

text \<open>An invariant that does not mention received bytes or the address check.\<close>

locale conn_rx_core = conn_credit_core I for I :: "('s, 'c) conn \<Rightarrow> bool" +
  assumes core_rx: "I c \<Longrightarrow> I (c\<lparr>cn_rx_data := v39\<rparr>)"
    and core_verified: "I c \<Longrightarrow> I (c\<lparr>cn_verified_peer_address := v40\<rparr>)"
    and core_max_stream_data: "keeps I (process_max_stream_data env sid m)"
begin

lemma keeps_stream_frames:
  "keeps I (process_stream env sid data)" "keeps I (process_reset env sid code final_size)"
  unfolding process_stream_def process_reset_def peer_may_send_def Let_def
  by (intro core_rules keeps_get_or_create keeps_modify core_rx; assumption)+

end

sublocale conn_rx_core < receives: conn_recv_inv I "\<lambda>_. I"
  by unfold_locales (auto intro: core_verified keeps_safe keeps_stream_frames core_max_stream_data)

locale conn_rx_free = conn_keeps_credit I for I :: "('s, 'c) conn \<Rightarrow> bool" +
  assumes free_rx: "I c \<Longrightarrow> I (c\<lparr>cn_rx_data := v33\<rparr>)"
    and free_verified: "I c \<Longrightarrow> I (c\<lparr>cn_verified_peer_address := v34\<rparr>)"

sublocale conn_rx_free < conn_rx_core I
  by unfold_locales (auto intro: free_rx free_verified keeps_max_stream_data)

context conn_rx_core
begin

lemma keeps_recv_loop: "keeps I (recv_loop x env i bytes n)"
proof -
  have "I c \<Longrightarrow> I (snd (recv_loop x env i bytes n c))" for c
  proof (induction x env i bytes n c rule: recv_loop.induct)
    case (1 x env i bytes n c)
    have single: "wp (recv_single x (env i) bytes) (\<lambda>_. I) (\<lambda>_. I) c"
      by (rule safe_wp [OF receives.safe_recv_single "1.prems"])
    show ?case
    proof (cases "recv_single x (env i) bytes c")
      case (Pair res t)
      with single have t: "I t" by (cases res) (auto simp: wp_def)
      moreover have "I (snd (conn_close False w [] t))" for w
        using keeps_close t by (auto simp: keeps_def)
      ultimately show ?thesis
        using "1.IH" [OF _ Pair [symmetric]] "1.prems" Pair
        by (cases res) (auto simp: recv_loop.simps [of x env i bytes])
    qed
  qed
  then show ?thesis by (simp add: keeps_def)
qed

end

section \<open>Sending\<close>

context conn_core
begin

lemma keeps_add: "keeps I (add eliciting f p)"
  unfolding add_def by (intro core_rules)

lemma keeps_send_block_info: "keeps I (send_block_info sid p)"
  unfolding send_block_info_def by (auto intro!: core_rules keeps_add split: option.split prod.split)

end

text \<open>The count of sent bytes is only touched by lost and new stream frames.\<close>

locale conn_lost_inv = conn_core I for I :: "('s, 'c) conn \<Rightarrow> bool" +
  assumes keeps_lost_stream: "keeps I (send_lost_stream sid data)"
begin

lemma keeps_send_lost: "keeps I (send_lost e)"
proof -
  have "keeps I (send_lost_frame e f)" for f
    unfolding send_lost_frame_def
    by (cases f) (auto intro!: core_rules keeps_lost_stream keeps_modify upds split: option.split)
  then show ?thesis unfolding send_lost_def by (intro core_rules)
qed

end

locale conn_send_inv = conn_lost_inv I for I :: "('s, 'c) conn \<Rightarrow> bool" +
  fixes x :: "('s, 'c, 'p) ext"
  assumes upd_max_send_bytes: "I c \<Longrightarrow> I (c\<lparr>cn_max_send_bytes := v30\<rparr>)"
    and upd_rx_credit: "I c \<Longrightarrow> I (c\<lparr>cn_max_rx_data := cn_max_rx_data_next c\<rparr>)"
    and keeps_streams: "keeps I (send_streams x env ty pn closing p)"
begin

lemmas send_rules = core_rules keeps_add keeps_modify upds upd_rx_credit

lemma keeps_send_ack: "keeps I (send_ack_frame x env e pn closing p)"
  unfolding send_ack_frame_def Let_def by (intro send_rules)

lemma keeps_send_canceled: "keeps I (send_canceled sids p)"
proof (induction sids arbitrary: p)
  case (Cons sid sids)
  then show ?case
    by (auto simp: Let_def intro!: core_rules keeps_add split: option.split)
qed (simp add: keeps_ret)

lemma keeps_send_max_stream_data: "keeps I (send_max_stream_data sids p)"
proof (induction sids arbitrary: p)
  case (Cons sid sids)
  then show ?case
    by (auto simp: Let_def intro!: core_rules keeps_add split: option.split)
qed (simp add: keeps_ret)

lemma keeps_send_control: "keeps I (send_control_frames x env p)"
  unfolding send_control_frames_def send_handshake_done_def send_max_streams_def send_max_data_def Let_def
  by (intro send_rules keeps_send_max_stream_data)

lemma keeps_send_close: "keeps I (send_close_frames now ty p)"
  unfolding send_close_frames_def Let_def drain_timer_def
  by (auto intro!: send_rules split: option.split)

lemma keeps_send_path_response: "keeps I (send_path_response p)"
  unfolding send_path_response_def Let_def by (auto intro!: send_rules split: option.split)

lemma keeps_send_crypto: "keeps I (send_crypto e closing p)"
  unfolding send_crypto_def by (intro send_rules)

lemma keeps_send_frames: "keeps I (send_frames x env hdr e pn closing b p)"
proof -
  have "keeps I (send_normal_frames x env ty e pn closing p)" for ty
    unfolding send_normal_frames_def send_ping_def
    by (intro core_rules keeps_send_ack keeps_send_canceled keeps_send_control keeps_send_close
        keeps_send_path_response keeps_send_crypto keeps_streams keeps_add)
  then show ?thesis
    unfolding send_frames_def Let_def by (auto intro!: send_rules split: list.split)
qed

lemma keeps_packet_sent: "I c \<Longrightarrow> I (packet_sent x env hdr e pn written p c)"
  by (auto simp: packet_sent_def Let_def intro!: upds upd_max_send_bytes keeps_drop_epoch split: option.split)

lemma keeps_send_packet: "keeps I (send_packet x env hdr e pn pn_len overhead b p)"
  unfolding send_packet_def send_fec_def Let_def case_prod_beta
  by (intro send_rules keeps_packet_sent; assumption?)

lemma keeps_send_datagram: "keeps I (send_datagram x env out closing)"
  unfolding send_datagram_def Let_def case_prod_beta
  by (intro core_rules keeps_send_lost keeps_send_frames keeps_send_packet)

end

locale conn_tx_free = conn_keeps_credit I for I :: "('s, 'c) conn \<Rightarrow> bool" +
  assumes upd_tx: "I c \<Longrightarrow> I (c\<lparr>cn_tx_data := v31\<rparr>)"
    and free_max_send_bytes: "I c \<Longrightarrow> I (c\<lparr>cn_max_send_bytes := v32\<rparr>)"
    and free_rx_credit: "I c \<Longrightarrow> I (c\<lparr>cn_max_rx_data := cn_max_rx_data_next c\<rparr>)"
begin

lemma free_lost_stream: "keeps I (send_lost_stream sid data)"
  unfolding send_lost_stream_def by (auto intro!: keep_rules keeps_modify upd_tx split: option.split)

lemma keeps_one_stream: "keeps I (send_one_stream x si sid blk p)"
  unfolding send_one_stream_def
  by (auto intro!: keep_rules keeps_add keeps_send_block_info keeps_modify upd_tx split: option.split prod.split)

lemma keeps_stream_loop: "keeps I (send_stream_loop x si rounds p)"
proof (induction rounds arbitrary: p)
  case 0
  then show ?case
    by (auto simp: send_stream_loop.simps [of x si 0] intro!: keep_rules split: option.split)
next
  case (Suc rounds)
  then show ?case
    by (auto simp: send_stream_loop.simps [of x si "Suc rounds"] Let_def
        intro!: keep_rules keeps_one_stream split: option.split prod.split)
qed

lemma keeps_send_streams: "keeps I (send_streams x env ty pn closing p)"
  unfolding send_streams_def by (intro keep_rules keeps_stream_loop)

end

sublocale conn_tx_free < sends: conn_send_inv I x for x :: "('s, 'c, 'p) ext"
  by unfold_locales (simp_all add: free_max_send_bytes free_rx_credit free_lost_stream keeps_send_streams)

context conn_tx_free
begin

lemma keeps_conn_send: "keeps I (conn_send_with_blocks x env out)"
  unfolding conn_send_with_blocks_def
  by (intro keep_rules keeps_do_handshake sends.keeps_send_datagram)

end

section \<open>The stream interface of the application\<close>

locale conn_api_inv = conn_keeps I for I :: "('s, 'c) conn \<Rightarrow> bool" +
  assumes upd_read: "I c \<Longrightarrow> I (c\<lparr>cn_max_rx_data_next := sat_add64 (cn_max_rx_data_next c) v35\<rparr>)"
begin

lemma keeps_stream_api:
  "keeps I (stream_recv sid n)" "keeps I (stream_send_full env sid data fin deadline prio depend_id)"
  "keeps I (stream_shutdown sid direction)"
proof -
  show "keeps I (stream_recv sid n)"
    unfolding stream_recv_def case_prod_beta by (intro keep_rules keeps_modify upd_read)
  show "keeps I (stream_send_full env sid data fin deadline prio depend_id)"
    unfolding stream_send_full_def get_or_create_stream_full_def Let_def case_prod_beta
    by (intro keep_rules) (use keeps_parts(2) in \<open>auto simp: keeps_def\<close>)
  show "keeps I (stream_shutdown sid direction)"
    unfolding stream_shutdown_def by (cases direction) (auto intro!: keep_rules)
qed

end

section \<open>The runs of a connection\<close>

inductive conn_step :: "('s, 'c, 'p) ext \<Rightarrow> ('s, 'c) conn \<Rightarrow> ('s, 'c) conn \<Rightarrow> bool" for x where
  step_recv: "conn_recv x env bytes c = (r, c') \<Longrightarrow> r \<noteq> Panic \<Longrightarrow> conn_step x c c'"
| step_send: "conn_send_with_blocks x env' out c = (rs, c') \<Longrightarrow> rs \<noteq> Panic \<Longrightarrow> conn_step x c c'"
| step_stream_recv: "stream_recv sid n c = (rr, c') \<Longrightarrow> rr \<noteq> Panic \<Longrightarrow> conn_step x c c'"
| step_stream_send: "stream_send_full envs sid data fin deadline prio depend_id c = (rn, c') \<Longrightarrow> rn \<noteq> Panic \<Longrightarrow>
    conn_step x c c'"
| step_shutdown: "stream_shutdown sid direction c = (ru, c') \<Longrightarrow> ru \<noteq> Panic \<Longrightarrow> conn_step x c c'"
| step_close: "conn_close app err reason c = (ru, c') \<Longrightarrow> conn_step x c c'"
| step_timeout: "on_timeout x envs c = (ru, c') \<Longrightarrow> ru \<noteq> Panic \<Longrightarrow> conn_step x c c'"
| step_set_tail: "conn_step x c (set_tail x tail c)"

inductive conn_reach :: "('s, 'c, 'p) ext \<Rightarrow> ('s, 'c) conn \<Rightarrow> bool" for x where
  reach_new: "with_tls x env cf cc rnd scid odcid tls is_server = Ok c \<Longrightarrow> conn_reach x c"
| reach_step: "conn_reach x c \<Longrightarrow> conn_step x c c' \<Longrightarrow> conn_reach x c'"

text \<open>An invariant that no step touches but by the bookkeeping.\<close>

locale conn_always = receiving: conn_rx_free I + sending: conn_tx_free I + api: conn_api_inv I
  for I :: "('s, 'c) conn \<Rightarrow> bool" +
  assumes free_tail: "I c \<Longrightarrow> I (c\<lparr>cn_tail_size := v36\<rparr>)"
    and free_credit: "I c \<Longrightarrow> I (c\<lparr>cn_max_send_bytes := v37\<rparr>)"
begin

lemma keeps_conn_recv: "keeps I (conn_recv x env bytes)"
  unfolding conn_recv_def
  by (intro keeps_andThen keeps_ret receiving.keeps_recv_loop keeps_modify) (auto intro: free_credit)

lemma keeps_step: "conn_step x c c' \<Longrightarrow> I c \<Longrightarrow> I c'"
proof (induction rule: conn_step.induct)
  case (step_set_tail c tail)
  then show ?case by (simp add: set_tail_def free_tail)
qed (use keeps_conn_recv sending.keeps_conn_send api.keeps_stream_api receiving.keeps_close receiving.keeps_on_timeout in
    \<open>metis keeps_def snd_conv\<close>)+

end

end
