(* ===== verification/ConnCredit.thy ===== *)
theory ConnCredit
  imports ConnInv
begin

text \<open>Flow control of a connection: the credit given to the peer, the credit taken from it, and what a
  server may send before its peer's address is verified.\<close>

section \<open>The credit given to the peer\<close>

definition rx_ok :: "('s, 'c) conn \<Rightarrow> bool" where
  "rx_ok c \<longleftrightarrow> cn_max_rx_data c \<le> cn_max_rx_data_next c
     \<and> (cn_rx_data c \<le> cn_max_rx_data c \<or> is_closing c \<or> cn_draining_timer c \<noteq> None)"

text \<open>After an error the count may be over the limit, when the error is \<open>FlowControl\<close>.\<close>

definition rx_err :: "error option \<Rightarrow> ('s, 'c) conn \<Rightarrow> bool" where
  "rx_err e c \<longleftrightarrow> cn_max_rx_data c \<le> cn_max_rx_data_next c \<and> (rx_ok c \<or> e = Some FlowControl \<or> e = None)"

text \<open>There is room for \<open>n\<close> more bytes.\<close>

definition rx_room :: "u64 \<Rightarrow> ('s, 'c) conn \<Rightarrow> bool" where
  "rx_room n c \<longleftrightarrow> rx_ok c \<and> cn_rx_data c + n \<le> cn_max_rx_data c"

interpretation rx: conn_keeps_credit rx_ok
  by unfold_locales (auto simp: rx_ok_def is_closing_def)

interpretation room: conn_keeps "rx_room n" for n
  by unfold_locales (auto simp: rx_room_def rx_ok_def is_closing_def)

lemma rx_ok_err: "rx_ok c \<Longrightarrow> rx_err e c"
  by (simp add: rx_err_def rx_ok_def)

lemma rx_stream_safe: "safe rx_ok rx_err (process_stream env sid data)"
proof (rule safeI)
  fix c :: "('s, 'c) conn" assume ok: "rx_ok c"
  define n :: u64 where "n = of_nat (rb_len data)"
  define tail where "tail = (\<lambda>readable. andThen (whenever readable (on_streams (modify (sm_mark_readable sid True))))
      (\<lambda>_. modify (\<lambda>c :: ('s, 'c) conn. c\<lparr>cn_rx_data := cn_rx_data c + n\<rparr>)))"
  have tail: "wp (tail readable) (\<lambda>_. rx_ok) rx_err t" if "rx_room n t" for readable t
    using that by (auto simp: tail_def wp_rules conn_parts rx_room_def rx_ok_def is_closing_def)
  have store: "wp (andThen (on_streams m) tail) (\<lambda>_. rx_ok) rx_err t" if "rx_room n t"
    for m :: "(stream_map, bool) act" and t
    unfolding wp_andThen
    by (rule wp_mono [OF keeps_wp [OF room.keeps_parts(2) that]])
      (auto intro: tail rx_ok_err simp: rx_room_def)
  have create: "wp (unless_done (get_or_create_stream env sid False) (\<lambda>_. andThen (on_streams m) tail))
      (\<lambda>_. rx_ok) rx_err t" if "rx_room n t" for m :: "(stream_map, bool) act" and t
    unfolding wp_unless_done
    by (rule wp_mono [OF keeps_wp [OF room.keeps_get_or_create(2) that]])
      (auto intro: store rx_ok_err simp: rx_room_def)
  show "wp (process_stream env sid data) (\<lambda>_. rx_ok) rx_err c"
    using ok create
    by (auto simp: process_stream_def peer_may_send_def wp_rules Let_def tail_def n_def rx_room_def rx_ok_err not_less)
qed

lemma rx_reset_safe: "safe rx_ok rx_err (process_reset env sid code final_size)"
proof (rule safeI)
  fix c :: "('s, 'c) conn" assume ok: "rx_ok c"
  define tail where "tail = (\<lambda>n. andThen (modify (\<lambda>c :: ('s, 'c) conn. c\<lparr>cn_rx_data := cn_rx_data c + of_nat n\<rparr>))
      (\<lambda>_. andThen (reads_st (\<lambda>c. cn_rx_data c > cn_max_rx_data c)) (\<lambda>over. fail_if over FlowControl)))"
  have tail: "wp (tail n) (\<lambda>_. rx_ok) rx_err t" if "rx_ok t" for n t
    using that by (auto simp: tail_def wp_rules rx_err_def rx_ok_def is_closing_def)
  have store: "wp (andThen (on_streams m) tail) (\<lambda>_. rx_ok) rx_err t" if "rx_ok t"
    for m :: "(stream_map, nat) act" and t
    unfolding wp_andThen
    by (rule wp_mono [OF keeps_wp [OF rx.keeps_parts(2) that]]) (auto intro: tail rx_ok_err)
  have create: "wp (unless_done (get_or_create_stream env sid False) (\<lambda>_. andThen (on_streams m) tail))
      (\<lambda>_. rx_ok) rx_err t" if "rx_ok t" for m :: "(stream_map, nat) act" and t
    unfolding wp_unless_done
    by (rule wp_mono [OF keeps_wp [OF rx.keeps_get_or_create(2) that]]) (auto intro: store rx_ok_err)
  show "wp (process_reset env sid code final_size) (\<lambda>_. rx_ok) rx_err c"
    using ok create
    by (auto simp: process_reset_def peer_may_send_def wp_rules tail_def rx_ok_err)
qed

interpretation rx: conn_recv_inv rx_ok rx_err
  by unfold_locales (auto simp: rx_ok_err rx_stream_safe rx_reset_safe rx.keeps_max_stream_data, simp add: rx_ok_def is_closing_def)

lemma rx_recv_loop: "rx_ok c \<Longrightarrow> recv_loop x env i bytes n0 c = (r, c') \<Longrightarrow> r \<noteq> Panic \<Longrightarrow> rx_ok c'"
proof (induction x env i bytes n0 c arbitrary: r c' rule: recv_loop.induct)
  case (1 x env i bytes n0 c)
  have single: "wp (recv_single x (env i) bytes) (\<lambda>_. rx_ok) rx_err c"
    by (rule safe_wp [OF rx.safe_recv_single "1.prems"(1)])
  have close: "rx_ok (snd (conn_close False w [] t))" if "rx_err e t" for e w and t :: "('a, 'b) conn"
    using that by (auto simp: conn_close_def andThen_run reads_st_def fail_if_def throw_def ret_def modify_def
        rx_err_def rx_ok_def is_closing_def)
  show ?case
  proof (cases "bytes = []")
    case True
    with "1.prems" show ?thesis by (simp add: recv_loop.simps [of x env i])
  next
    case False
    show ?thesis
    proof (cases "recv_single x (env i) bytes c")
      case (Pair res t)
      show ?thesis
      proof (cases res)
        case (Ok n)
        with Pair single have "rx_ok t" by (simp add: wp_def)
        with "1.IH" [OF False Pair [symmetric] Ok] "1.prems" Pair Ok False show ?thesis
          by (auto simp: recv_loop.simps [of x env i bytes] split: if_splits)
      next
        case (Err e)
        with Pair single have "rx_err (Some e) t" by (simp add: wp_def)
        with "1.prems" Pair Err False close [of "Some e" t] show ?thesis
          by (auto simp: recv_loop.simps [of x env i bytes] rx_err_def)
      next
        case Panic
        with "1.prems" Pair False show ?thesis by (simp add: recv_loop.simps [of x env i bytes])
      qed
    qed
  qed
qed

lemma rx_conn_recv:
  assumes "rx_ok c" "conn_recv x env bytes c = (r, c')" "r \<noteq> Panic"
  shows "rx_ok c'"
proof (cases "recv_loop x env 0 bytes 0 c")
  case (Pair res t)
  have "rx_ok t" if "res \<noteq> Panic" using rx_recv_loop [OF assms(1) Pair that] .
  with Pair assms(2,3) show ?thesis
    by (cases res) (auto simp: conn_recv_def andThen_run modify_def ret_def rx_ok_def is_closing_def split: if_splits)
qed

text \<open>Sending sets the limit to the larger one it announces.\<close>

interpretation rx: conn_tx_free rx_ok
  by unfold_locales (auto simp: rx_ok_def is_closing_def)

interpretation rx: conn_api_inv rx_ok
proof (unfold_locales, goal_cases)
  case (1 c v)
  then show ?case
    using unat_sat_add64 [of "cn_max_rx_data_next c" v] unat_u64 [of "cn_max_rx_data_next c"]
    by (auto simp: rx_ok_def is_closing_def word_le_nat_alt)
qed

lemma rx_step: "conn_step x c c' \<Longrightarrow> rx_ok c \<Longrightarrow> rx_ok c'"
proof (induction rule: conn_step.induct)
  case (step_recv env bytes c r c')
  then show ?case using rx_conn_recv by blast
next
  case (step_set_tail c tail)
  then show ?case by (simp add: set_tail_def rx_ok_def is_closing_def)
qed (use rx.keeps_conn_send rx.keeps_stream_api rx.keeps_close rx.keeps_on_timeout in
    \<open>metis keeps_def snd_conv\<close>)+

lemma rx_new:
  assumes "with_tls x env cf cc rnd scid odcid tls is_server = Ok c"
  shows "rx_ok c"
proof -
  define init where "init = conn_init x env cf cc scid odcid tls is_server"
  have "rx_ok init" by (simp add: init_def conn_init_def rx_ok_def Let_def)
  moreover have "keeps rx_ok (andThen (modify (\<lambda>c. case odcid of
        Some cid \<Rightarrow> c\<lparr>cn_local_tp := (cn_local_tp c)\<lparr>tp_original_connection_id := Some cid\<rparr>\<rparr> | None \<Rightarrow> c)) (\<lambda>_.
      andThen (reads_st cn_local_tp) (\<lambda>tp.
      andThen (on_tls (tls_init (x_ssl x) is_server tp)) (\<lambda>_.
      whenever (\<not> is_server) (andThen (set_initial_keys x rnd) (\<lambda>_.
        modify (\<lambda>c. c\<lparr>cn_dcid := cn_dcid c @ rnd, cn_derived_initial_secrets := True\<rparr>)))))))"
    by (intro rx.keep_rules rx.keeps_initial_keys keeps_modify rx.upds)
      (auto simp: rx_ok_def is_closing_def split: option.split)
  ultimately show ?thesis
    using assms unfolding with_tls_def init_def [symmetric]
    by (auto simp: keeps_def split: prod.splits res.splits)
qed

section \<open>The credit taken from the peer\<close>

lemma send_pop_loop_len:
  "send_pop_loop out_len out_off out s = Ok (out', s') \<Longrightarrow> rb_len out' \<le> rb_len out + out_len"
proof (induction out_len out_off out s arbitrary: out' s' rule: send_pop_loop.induct)
  case (1 out_len out_off out s)
  show ?case
  proof (cases "0 < out_len \<and> send_ready s \<and> send_off s = out_off \<and> send_off s < sb_max_data s")
    case True
    show ?thesis
    proof (cases "bh_pop rb_off (sb_data s)")
      case None
      with "1.prems" True show ?thesis by (auto simp: send_pop_loop.simps [of out_len] split: if_splits)
    next
      case (Some p)
      then obtain b data where p: "bh_pop rb_off (sb_data s) = Some (b, data)" by (cases p) auto
      define part where "part = (if out_len < rb_len b \<or> sb_max_data s < rb_max_off b
         then bnd (rb_split_off (min out_len (unat (sb_max_data s - rb_off b))) b)
                (\<lambda>(buf, new_buf). Ok (buf, bh_push rb_off new_buf data))
         else Ok (b, data))"
      from "1.prems" True p obtain b' data' where b': "part = Ok (b', data')"
        and run: "send_pop_loop (out_len - rb_len b') (rb_max_off b')
              \<lparr>rb_data = rb_data out @ rb_data b',
               rb_off = (if rb_is_empty out then rb_off b' else rb_off out), rb_fin = rb_fin out\<rparr>
              (s\<lparr>sb_data := data', sb_len := sb_len s - of_nat (rb_len b')\<rparr>) = Ok (out', s')"
        by (auto simp: send_pop_loop.simps [of out_len] part_def)
      have "rb_len b' \<le> out_len"
        using b' by (auto simp: part_def rb_split_off_def rb_len_def split: if_splits)
      moreover have "rb_len out' \<le> rb_len out + rb_len b' + (out_len - rb_len b')"
        using "1.IH" [OF True p refl b' [unfolded part_def] refl run] by (simp add: rb_len_def)
      ultimately show ?thesis by simp
    qed
  next
    case False
    with "1.prems" show ?thesis by (auto simp: send_pop_loop.simps [of out_len])
  qed
qed

lemma send_pop_len: "send_pop n s = Ok (data, s') \<Longrightarrow> rb_len data \<le> n"
  by (auto simp: send_pop_def rb_len_def dest!: send_pop_loop_len)

text \<open>While the peer's limit is \<open>m\<close> the count does not pass the larger of \<open>m\<close> and its old value \<open>k\<close>.\<close>

definition tx_ok :: "u64 \<Rightarrow> u64 \<Rightarrow> ('s, 'c) conn \<Rightarrow> bool" where
  "tx_ok k m c \<longleftrightarrow> cn_max_tx_data c = m \<and> cn_tx_data c \<le> max k m"

definition tx_below :: "u64 \<Rightarrow> ('s, 'c) conn \<Rightarrow> bool" where
  "tx_below m c \<longleftrightarrow> cn_max_tx_data c = m \<and> cn_tx_data c < m"

interpretation tx: conn_keeps "tx_ok k m" for k m
  by unfold_locales (simp_all add: tx_ok_def)

interpretation tx_below: conn_keeps "tx_below m" for m
  by unfold_locales (simp_all add: tx_below_def)

lemma tx_below_ok: "tx_below m c \<Longrightarrow> tx_ok k m c"
  by (auto simp: tx_below_def tx_ok_def intro: max.coboundedI2)

lemma tx_lost_stream: "keeps (tx_ok k m) (send_lost_stream sid data)"
proof -
  have "tx_ok k m (c\<lparr>cn_tx_data := sat_sub64 (cn_tx_data c) n\<rparr>)" if "tx_ok k m c" for c :: "('a, 'b) conn" and n
    using that by (auto simp: tx_ok_def sat_sub64_def) (meson order_trans word_sub_le_iff word_sub_le)
  then show ?thesis
    unfolding send_lost_stream_def by (auto intro!: tx.keep_rules keeps_modify split: option.split)
qed

text \<open>One stream frame: \<open>False\<close> leaves the count, \<open>True\<close> adds at most the credit that is left.\<close>

lemma tx_one_stream:
  assumes "tx_below m c"
  shows "wp (send_one_stream x si sid blk p) (\<lambda>r c. tx_ok k m c \<and> (\<not> fst r \<longrightarrow> tx_below m c)) (\<lambda>_. tx_ok k m) c"
proof -
  have sum: "tx_ok k m (t\<lparr>cn_tx_data := cn_tx_data t + of_nat n\<rparr>)"
    if t: "tx_below m t" and n: "n \<le> unat l" and l: "l \<le> cn_max_tx_data t - cn_tx_data t" for t :: "('a, 'b) conn" and n l
  proof -
    have "cn_tx_data t \<le> m" "cn_max_tx_data t = m" using t by (auto simp: tx_below_def)
    with l have "unat l \<le> unat m - unat (cn_tx_data t)" by (simp add: word_le_nat_alt unat_sub64)
    moreover have "unat (cn_tx_data t) < unat m" "unat m < 2 ^ 64"
      using t unat_u64 [of m] by (auto simp: tx_below_def word_less_nat_alt)
    moreover have "unat (of_nat n :: u64) = n" using n unat_u64 [of l] by (simp add: unat_of_nat64)
    ultimately have "unat (cn_tx_data t + of_nat n) \<le> unat m"
      using n by (simp add: unat_add64_less)
    then have "cn_tx_data t + of_nat n \<le> m" by (simp add: word_le_nat_alt)
    with t show ?thesis by (auto simp: tx_ok_def tx_below_def intro: max.coboundedI2)
  qed
  have room: "n \<le> cn_max_tx_data t - cn_tx_data t" if "stream_max_len sid q t = Ok n" for q n and t :: "('a, 'b) conn"
    using that by (auto simp: stream_max_len_def Let_def intro: min.coboundedI2 split: option.splits)
  have sub: "l \<le> n" if "checked_sub n k' = Some l" for n k' l :: usize
    using that by (auto simp: checked_sub_def word_sub_le split: if_splits)
  have pop: "wp (on_streams (on_stream sid Done
       (andThen (on_send (pure_val (send_pop (unat l)))) (\<lambda>data. andThen (reads_st (\<lambda>s. s)) (\<lambda>s. ret (data, s))))))
       (\<lambda>r t'. tx_below m t' \<and> rb_len (fst r) \<le> unat l \<and> cn_max_tx_data t' - cn_tx_data t' = cn_max_tx_data t - cn_tx_data t)
       (\<lambda>_. tx_ok k m) t"
    if "tx_below m t" for l and t :: "('a, 'b) conn"
    using that tx_below_ok [OF that, of k]
    by (auto simp: wp_rules on_streams_def on_send_def tx_below_def tx_ok_def split: option.split res.split dest: send_pop_len)
  have push: "wp (whenever b (on_streams (modify g))) (\<lambda>_ t. wp (ret (True, q)) (\<lambda>r c. tx_ok k m c \<and> (\<not> fst r \<longrightarrow> tx_below m c)) (\<lambda>_. tx_ok k m) t)
      (\<lambda>_. tx_ok k m) t"
    if "tx_ok k m t" for b g q and t :: "('a, 'b) conn"
    using that by (auto simp: wp_rules on_streams_def tx_ok_def)
  show ?thesis
    unfolding send_one_stream_def wp_andThen [of "send_block_info sid p"]
  proof (rule wp_mono [OF keeps_wp [OF tx_below.keeps_send_block_info assms]], goal_cases)
    case (1 q t)
    note t = 1 tx_below_ok [OF 1, of k]
    show ?case
    proof (cases "sm_streams (cn_streams t) sid")
      case None
      with t show ?thesis by (simp add: wp_rules)
    next
      case (Some s)
      show ?thesis
      proof (cases "bp_left q > MAX_STREAM_OVERHEAD")
        case False
        with Some t show ?thesis by (simp add: wp_andThen wp_reads_st push)
      next
        case True
        have rest: "wp (case r of (data, s) \<Rightarrow>
             if rb_is_empty data \<and> \<not> rb_fin data then ret (False, q)
             else
               andThen (modify (\<lambda>c. c\<lparr>cn_tx_data := cn_tx_data c + of_nat (rb_len data)\<rparr>)) (\<lambda>_.
               andThen (add True (StreamFrame sid data) (choose_fec x si blk (sb_len (st_send s)) t q)) (\<lambda>p.
               andThen (whenever (stream_is_flushable s) (on_streams (modify (sm_push_flushable sid)))) (\<lambda>_.
               ret (True, p)))))
             (\<lambda>r c. tx_ok k m c \<and> (\<not> fst r \<longrightarrow> tx_below m c)) (\<lambda>_. tx_ok k m) t'"
          if "tx_below m t'" "rb_len (fst r) \<le> unat l" "l \<le> cn_max_tx_data t' - cn_tx_data t'" for r l and t' :: "('a, 'b) conn"
          using that sum [OF that] tx_below_ok [OF that(1), of k]
          by (cases r) (auto simp: wp_ret wp_andThen wp_modify add_def wp_lift push split: res.split)
        have go: "wp (andThen (on_streams (on_stream sid Done
             (andThen (on_send (pure_val (send_pop (unat l)))) (\<lambda>data. andThen (reads_st (\<lambda>s. s)) (\<lambda>s. ret (data, s))))))
             (\<lambda>r. case r of (data, s) \<Rightarrow>
             if rb_is_empty data \<and> \<not> rb_fin data then ret (False, q)
             else
               andThen (modify (\<lambda>c. c\<lparr>cn_tx_data := cn_tx_data c + of_nat (rb_len data)\<rparr>)) (\<lambda>_.
               andThen (add True (StreamFrame sid data) (choose_fec x si blk (sb_len (st_send s)) t q)) (\<lambda>p.
               andThen (whenever (stream_is_flushable s) (on_streams (modify (sm_push_flushable sid)))) (\<lambda>_.
               ret (True, p))))))
             (\<lambda>r c. tx_ok k m c \<and> (\<not> fst r \<longrightarrow> tx_below m c)) (\<lambda>_. tx_ok k m) t"
          if "l \<le> cn_max_tx_data t - cn_tx_data t" for l
          unfolding wp_andThen [of "on_streams _"]
          by (rule wp_mono [OF pop [OF t(1), of l]]) (rule rest [of _ _ l], use that in auto)
        show ?thesis
        proof (cases "stream_max_len sid q t")
          case (Ok n)
          show ?thesis
          proof (cases "stream_overhead sid (send_off (st_send s)) n")
            case (Ok k')
            with \<open>stream_max_len sid q t = Ok n\<close> Some True t show ?thesis
              by (cases "checked_sub n k'")
                (auto simp: wp_reads_st wp_andThen [of "reads_st _"] wp_andThen [of "lift _"] wp_lift wp_ret
                  intro!: go order_trans [OF sub room])
          qed (use Ok Some True t in \<open>auto simp: wp_rules\<close>)
        qed (use Some True t in \<open>auto simp: wp_rules\<close>)
      qed
    qed
  next
    case (2 e t)
    then show ?case by (rule tx_below_ok)
  qed
qed

lemma tx_stream_loop:
  "tx_below m c \<Longrightarrow> wp (send_stream_loop x si rounds p) (\<lambda>_. tx_ok k m) (\<lambda>_. tx_ok k m) c"
proof (induction rounds arbitrary: p c)
  case 0
  show ?case
    unfolding send_stream_loop.simps [of x si 0] wp_andThen
    by (rule wp_mono [OF keeps_wp [OF tx_below.keeps_parts(2) 0]])
      (auto simp: wp_rules tx_below_ok split: option.split)
next
  case (Suc rounds)
  have one: "wp (andThen (send_one_stream x si sid blk q) (\<lambda>(finished, p).
      if finished then ret (Some p) else send_stream_loop x si rounds p)) (\<lambda>_. tx_ok k m) (\<lambda>_. tx_ok k m) t"
    if "tx_below m t" for sid blk q t
    unfolding wp_andThen
    by (rule wp_mono [OF tx_one_stream [OF that, of _ _ _ _ _ k]])
      (auto simp: wp_ret intro: Suc.IH split: prod.split)
  show ?case
    unfolding send_stream_loop.simps [of x si "Suc rounds"] wp_andThen
    by (rule wp_mono [OF keeps_wp [OF tx_below.keeps_parts(2) Suc.prems]])
      (auto simp: wp_rules tx_below_ok Let_def one [unfolded wp_andThen] Suc.IH split: option.split res.split)
qed

lemma tx_streams: "keeps (tx_ok k m) (send_streams x env ty pn closing p)"
proof (rule keepsI)
  fix c :: "('a, 'b) conn" assume ok: "tx_ok k m c"
  show "wp (send_streams x env ty pn closing p) (\<lambda>_. tx_ok k m) (\<lambda>_. tx_ok k m) c"
  proof (cases "cn_max_tx_data c > cn_tx_data c")
    case True
    with ok have "tx_below m c" by (simp add: tx_ok_def tx_below_def)
    with ok show ?thesis
      by (auto simp: send_streams_def wp_rules intro!: wp_mono [OF tx_stream_loop] split: res.split)
  next
    case False
    with ok show ?thesis by (auto simp: send_streams_def wp_rules)
  qed
qed

interpretation tx: conn_send_inv "tx_ok k m" x for k m x
  by unfold_locales (auto simp: tx_lost_stream tx_streams, simp_all add: tx_ok_def)

text \<open>The handshake does not count bytes.\<close>

interpretation tx_same: conn_keeps_credit "\<lambda>c. cn_tx_data c = k" for k
  by unfold_locales auto

lemma tx_conn_send:
  assumes "conn_send_with_blocks x env out c = (r, c')"
  shows "cn_tx_data c' \<le> max (cn_tx_data c) (cn_max_tx_data c')"
proof -
  define k where "k = cn_tx_data c"
  let ?Q = "\<lambda>t. cn_tx_data t \<le> max k (cn_max_tx_data t)"
  have datagram: "wp (send_datagram x env out closing) (\<lambda>_ u. cn_tx_data u \<le> max (cn_tx_data t) (cn_max_tx_data u))
      (\<lambda>_ u. cn_tx_data u \<le> max (cn_tx_data t) (cn_max_tx_data u)) t" for closing t
  proof -
    have "tx_ok (cn_tx_data t) (cn_max_tx_data t) t" by (simp add: tx_ok_def)
    from keeps_wp [OF tx.keeps_send_datagram this]
    show ?thesis by (rule wp_mono) (auto simp: tx_ok_def)
  qed
  have handshake: "wp (whenever b (do_handshake x)) (\<lambda>_ t. cn_tx_data t = k) (\<lambda>_ t. cn_tx_data t = k) c" for b
    by (rule keeps_wp) (auto simp: k_def intro: tx_same.keeps_do_handshake)
  have "wp (conn_send_with_blocks x env out) (\<lambda>_. ?Q) (\<lambda>_. ?Q) c"
    unfolding conn_send_with_blocks_def
    by (auto simp: wp_andThen [of "fail_if _ _"] wp_andThen [of "reads_st _"] wp_andThen [of "whenever _ _"]
        wp_fail_if wp_reads_st k_def [symmetric] intro!: wp_mono [OF handshake] datagram)
  with assms show ?thesis
    by (cases r) (simp_all add: wp_def k_def)
qed

end
