(* ===== verification/ConnLife.thy ===== *)
theory ConnLife
  imports ConnCredit
begin

text \<open>The end of a connection: draining is final, the timers lead to it, and what a server may send before
  its peer's address is verified.\<close>

section \<open>A connection for the examples\<close>

text \<open>A TLS library that never calls back: \<open>init\<close> is what \<open>SSL_in_init\<close> returns.\<close>

definition quiet_ssl :: "int \<Rightarrow> unit ssl_ops" where
  "quiet_ssl init =
     \<lparr>so_set_state = (\<lambda>_ t. t), so_set_ex_data = (\<lambda>t. (1, t)), so_set_proto_versions = (\<lambda>_ _ t. t),
      so_set_quic_method = (\<lambda>t. (1, t)), so_set_quiet_shutdown = (\<lambda>_ t. t), so_set_host_name = (\<lambda>_ t. (1, t)),
      so_set_verify_host = (\<lambda>_ t. (1, t)), so_set_transport_params = (\<lambda>_ t. (1, t)),
      so_peer_transport_params = (\<lambda>_. []), so_alpn_selected = (\<lambda>_. [104, 51]), so_get_error = (\<lambda>_ _. 2),
      so_in_init = (\<lambda>_. init), so_in_early_data = (\<lambda>_. 0), so_session_reused = (\<lambda>_. 0),
      so_write_level = (\<lambda>_. LInitial), so_provide_data = (\<lambda>_ _ t. SslDone 1 t),
      so_do_handshake = (\<lambda>t. SslDone (- 1) t), so_clear = (\<lambda>t. (1, t))\<rparr>"

text \<open>A controller with a fixed window of 20000 bytes.\<close>

definition fixed_cc :: "unit cc_ops" where
  "fixed_cc =
     \<lparr>co_cwnd = (\<lambda>_. 20000), co_bytes_in_flight = (\<lambda>_. 0), co_decrease_bytes_in_flight = (\<lambda>_ c. c),
      co_recovery_start_time = (\<lambda>_. None), co_collapse_cwnd = (\<lambda>c. c), co_on_packet_sent = (\<lambda>_ _ _ c. c),
      co_on_packet_acked = (\<lambda>_ _ _ c. Ok c), co_congestion_event = (\<lambda>_ _ c. Ok c), co_pacing_rate = (\<lambda>_. 8192),
      co_bbr_begin_ack = (\<lambda>_ c. c), co_bbr_end_ack = (\<lambda>c. c), co_bbr_min_rtt = (\<lambda>_. 0)\<rparr>"

definition example_ext :: "int \<Rightarrow> (unit, unit, unit) ext" where
  "example_ext init =
     \<lparr>x_ssl = quiet_ssl init, x_cc = fixed_cc,
      x_hkdf = \<lparr>rh_extract = (\<lambda>_ _ _. ()), rh_prk = (\<lambda>_ _. ()), rh_expand = (\<lambda>_ _ _. None), rh_key = (\<lambda>_ _ _. None)\<rparr>,
      x_rs_new = (\<lambda>_ _. None), x_retry_tag = (\<lambda>_. None), x_interface = None, x_ack_ratio = 4, x_redundancy = 0,
      x_fec = False, x_basic = False\<rparr>"

definition quiet_env :: "instant \<Rightarrow> conn_env" where
  "quiet_env now =
     \<lparr>en_now = now, en_wall = now, en_clock = 0, en_recv_clock = (\<lambda>_. 0),
      en_cc = \<lparr>ce_now = now, ce_wall_ms = 0, ce_recv = None\<rparr>,
      en_ccs = (\<lambda>_. \<lparr>ce_now = now, ce_wall_ms = 0, ce_recv = None\<rparr>), en_order = (\<lambda>_. [])\<rparr>"

definition example_conn :: "bool \<Rightarrow> (unit, unit) conn" where
  "example_conn is_server =
     conn_init (example_ext 1) (quiet_env 0) (config_new PROTOCOL_VERSION_DRAFT25) () [1, 2, 3, 4] None () is_server"

lemma example_accept:
  "conn_accept (example_ext 1) (quiet_env 0) (config_new PROTOCOL_VERSION_DRAFT25) () [1, 2, 3, 4] None () =
     Ok (example_conn True)"
proof -
  have ints: "tp_ints_ok tp_default" by (simp add: tp_ints_ok_def tp_default_def varint_ok_def)
  have "length (tp_enc (tp_entries tp_default True)) \<le> 126"
    by (simp add: tp_entries_def tp_default_def tp_bytes_def tp_int_def tp_entry_def length_varint_enc varint_class_def)
  then obtain raw where raw: "tp_encode tp_default True (replicate 128 0) = Ok raw"
    by (simp add: tp_encode_eq [OF ints refl])
  have "cn_local_tp (example_conn True) = tp_default"
    by (simp add: example_conn_def conn_init_def config_new_def Let_def)
  with raw show ?thesis
    unfolding conn_accept_def with_tls_def example_conn_def [symmetric]
    by (simp add: act_defs andThen_def on_tls_def tls_init_def ssl_call_def ssl_call_ssl_def
        example_ext_def quiet_ssl_def map_result_def map_result_ssl_def)
qed

section \<open>Flow control\<close>

text \<open>C27. The data that a peer may send: in every reachable connection the limit announced to the peer is
  at most the next one, and the data counted as received is within it, unless the connection is being closed.\<close>

theorem received_data_within_limit:
  assumes "conn_reach x c"
  shows "cn_max_rx_data c \<le> cn_max_rx_data_next c
    \<and> (cn_rx_data c \<le> cn_max_rx_data c \<or> is_closing c \<or> cn_draining_timer c \<noteq> None)"
proof -
  have "rx_ok c"
    using assms by (induction rule: conn_reach.induct) (erule rx_new, erule (1) rx_step)
  then show ?thesis by (simp add: rx_ok_def)
qed

lemma received_data_within_limit_witness:
  "\<exists>c. conn_reach (example_ext 1) c \<and> cn_app_error c = Some 7 \<and> cn_max_rx_data c \<le> cn_max_rx_data_next c"
proof -
  let ?c = "example_conn True"
  let ?c' = "?c\<lparr>cn_app_error := Some 7, cn_app_reason := [1, 2]\<rparr>"
  have reach: "conn_reach (example_ext 1) ?c"
    by (rule reach_new) (rule example_accept [unfolded conn_accept_def])
  have "cn_draining_timer ?c = None" "cn_error ?c = None" "cn_app_error ?c = None" "cn_app_reason ?c = []"
    by (simp_all add: example_conn_def conn_init_def Let_def)
  then have "conn_close True 7 [1, 2] ?c = (Ok (), ?c')"
    by (simp add: conn_close_def andThen_run act_defs is_closing_def)
  then have "conn_step (example_ext 1) ?c ?c'" by (rule step_close)
  with reach have "conn_reach (example_ext 1) ?c'" by (rule reach_step)
  from received_data_within_limit [OF this] this show ?thesis by (intro exI [of _ ?c']) simp
qed

text \<open>C28. The data that the connection sends: sending a packet never takes the count of sent bytes over the
  larger of its old value and the peer's limit, whatever the packet carries and however the call ends.\<close>

theorem sent_data_within_limit:
  "cn_tx_data (snd (conn_send x env out c)) \<le> max (cn_tx_data c) (cn_max_tx_data (snd (conn_send x env out c)))"
proof -
  obtain r c' where run: "conn_send_with_blocks x env out c = (r, c')" by fastforce
  then have "snd (conn_send x env out c) = c'"
    by (cases r) (auto simp: conn_send_def andThen_run ret_def split: prod.split)
  with tx_conn_send [OF run] show ?thesis by simp
qed

section \<open>Draining and timers\<close>

interpretation draining: conn_always "\<lambda>c. cn_draining_timer c \<noteq> None"
  by unfold_locales auto

lemma draining_run: "(conn_step x)\<^sup>*\<^sup>* c c' \<Longrightarrow> cn_draining_timer c \<noteq> None \<Longrightarrow> cn_draining_timer c' \<noteq> None"
  by (induction rule: rtranclp_induct) (auto dest: draining.keeps_step)

lemma on_timeout_run:
  "on_timeout x env c =
     (case cn_draining_timer c of
        Some t \<Rightarrow> (Ok (), if t \<le> en_now env then c\<lparr>cn_closed := True\<rparr> else c)
      | None \<Rightarrow>
          if (case cn_idle_timer c of Some t \<Rightarrow> t \<le> en_now env | None \<Rightarrow> False) then (Ok (), c\<lparr>cn_closed := True\<rparr>)
          else if (case rc_loss_detection_timer (cn_recovery c) of Some t \<Rightarrow> t \<le> en_now env | None \<Rightarrow> False)
          then on_recovery (pure_act (rec_on_loss_detection_timeout (x_cc x) (en_cc env) (is_established x c) (en_now env))) c
          else (Ok (), c))"
  by (cases "cn_draining_timer c")
    (simp_all add: on_timeout_def Let_def andThen_run reads_st_def whenever_def modify_def ret_def)

text \<open>C29. Draining is final: once a connection drains, then after every further sequence of calls it still
  does, it neither processes a datagram nor sends one (the state is left alone), and the timer it reports is the
  draining timer, at whose expiry \<open>on_timeout\<close> closes it.\<close>

theorem draining_is_final:
  assumes "(conn_step x)\<^sup>*\<^sup>* c c'" and "cn_draining_timer c \<noteq> None"
  shows "conn_recv x env bytes c' = (if bytes = [] then Ok 0 else Err Done, c')
    \<and> conn_send x env' out c' = (Err (if out = [] then BufferTooShort else Done), c')
    \<and> (\<exists>t. cn_draining_timer c' = Some t \<and> conn_timer c' = Some t
          \<and> on_timeout x env'' c' = (Ok (), if t \<le> en_now env'' then c'\<lparr>cn_closed := True\<rparr> else c'))"
proof -
  from draining_run [OF assms] obtain t where t: "cn_draining_timer c' = Some t" by blast
  have "recv_loop x env 0 bytes 0 c' = (if bytes = [] then Ok 0 else Err Done, c')"
    using t by (simp add: recv_loop.simps [of x env 0] recv_single_def andThen_run act_defs)
  then show ?thesis
    using t by (auto simp: conn_recv_def conn_send_def conn_send_with_blocks_def on_timeout_run conn_timer_def
        andThen_run act_defs)
qed

lemma draining_is_final_witness:
  "\<exists>c'. (conn_step (example_ext 1))\<^sup>*\<^sup>* ((example_conn True)\<lparr>cn_draining_timer := Some 7\<rparr>) c'
     \<and> conn_recv (example_ext 1) (\<lambda>_ _. quiet_env 1) [0] c' = (Err Done, c')"
proof -
  let ?c = "(example_conn True)\<lparr>cn_draining_timer := Some 7\<rparr>"
  let ?c' = "set_tail (example_ext 1) 3 ?c"
  have run: "(conn_step (example_ext 1))\<^sup>*\<^sup>* ?c ?c'" by (rule r_into_rtranclp) (rule step_set_tail)
  from draining_is_final [OF run, of "\<lambda>_ _. quiet_env 1" "[0]"] run show ?thesis by auto
qed

text \<open>C30. The timers. Before the time that \<open>timeout\<close> announces, \<open>on_timeout\<close> does nothing. From that time on it
  fires the timer that expired: it closes the connection, and changes nothing else, when the draining timer runs
  and has expired, or when no draining timer runs and the idle timer has expired; in every other case no draining
  timer runs, the idle timer has not expired, the loss detection timer has, and the expiry is handed to loss
  recovery, with nothing else changed. With both expired the idle timer wins.\<close>

theorem timeout_exact:
  assumes "conn_timeout now c = Some d" and "now \<le> en_now env"
  shows "if en_now env < now + int d then on_timeout x env c = (Ok (), c)
    else if (case cn_draining_timer c of Some t \<Rightarrow> t \<le> en_now env
             | None \<Rightarrow> (\<exists>t. cn_idle_timer c = Some t \<and> t \<le> en_now env))
    then on_timeout x env c = (Ok (), c\<lparr>cn_closed := True\<rparr>)
    else cn_draining_timer c = None \<and> (\<exists>t. rc_loss_detection_timer (cn_recovery c) = Some t \<and> t \<le> en_now env)
      \<and> on_timeout x env c =
          on_recovery (pure_act (rec_on_loss_detection_timeout (x_cc x) (en_cc env) (is_established x c) (en_now env))) c"
proof -
  obtain t where t: "conn_timer c = Some t" "now + int d = max now t"
    using assms(1) by (auto simp: conn_timeout_def duration_since_def split: if_splits option.splits)
  with assms(2) show ?thesis
    by (cases "cn_draining_timer c"; cases "cn_idle_timer c"; cases "rc_loss_detection_timer (cn_recovery c)")
      (auto simp: conn_timer_def on_timeout_run)
qed

lemma timeout_exact_witness:
  "on_timeout (example_ext 1) (quiet_env 8) ((example_conn True)\<lparr>cn_idle_timer := Some 9\<rparr>)
     = (Ok (), (example_conn True)\<lparr>cn_idle_timer := Some 9\<rparr>)
   \<and> on_timeout (example_ext 1) (quiet_env 9) ((example_conn True)\<lparr>cn_idle_timer := Some 9\<rparr>)
     = (Ok (), (example_conn True)\<lparr>cn_idle_timer := Some 9, cn_closed := True\<rparr>)"
  using timeout_exact [of 2 "(example_conn True)\<lparr>cn_idle_timer := Some 9\<rparr>" 7 "quiet_env 8" "example_ext 1"]
    timeout_exact [of 2 "(example_conn True)\<lparr>cn_idle_timer := Some 9\<rparr>" 7 "quiet_env 9" "example_ext 1"]
  by (simp add: conn_timeout_def conn_timer_def example_conn_def conn_init_def Let_def rec_new_def
      duration_since_def quiet_env_def)

section \<open>Before the peer's address is verified\<close>

lemma fills_header: "fills (header_to_bytes h)"
proof -
  have zeros: "fills (put_zeros n)" for n by (rule fills_writes [OF writes_zeros])
  have token: "fills (\<lambda>b. case h_ty h of
          Initial \<Rightarrow>
            (case h_token h of
               Some v \<Rightarrow> bnd (put_varint (of_nat (length v)) b) (put_bytes v)
             | None \<Rightarrow> put_varint 0 b)
        | Retry \<Rightarrow> bnd (unwrap (h_token h)) (\<lambda>v. put_bytes v b)
        | _ \<Rightarrow> Ok b)"
    by (cases "h_ty h"; cases "h_token h"; simp only: ptype.case option.case; intro fills_rules)
  show ?thesis
    unfolding header_to_bytes_def Let_def by (intro fills_if fills_rules fills_pure zeros token)
qed

text \<open>With no credit the limit is zero, and the smallest packet does not fit.\<close>

definition no_credit :: "('s, 'c) conn \<Rightarrow> bool" where
  "no_credit c \<longleftrightarrow> cn_is_server c \<and> \<not> cn_verified_peer_address c \<and> cn_max_send_bytes c = 0"

interpretation no_credit: conn_keeps_credit no_credit
  by unfold_locales (auto simp: no_credit_def)

interpretation no_credit: conn_lost_inv no_credit
proof unfold_locales
  show "keeps no_credit (send_lost_stream sid data)" for sid data
    unfolding send_lost_stream_def
    by (auto intro!: no_credit.keep_rules keeps_modify simp: no_credit_def split: option.split)
qed

interpretation unsent: conn_rx_free "\<lambda>c. cn_is_server c \<and> cn_max_send_bytes c = 0"
  by unfold_locales auto

lemma unsent_recv:
  "recv_loop x env i bytes n c = (r, c') \<Longrightarrow> cn_is_server c \<and> cn_max_send_bytes c = 0 \<Longrightarrow>
   cn_is_server c' \<and> cn_max_send_bytes c' = 0"
  using unsent.keeps_recv_loop [of x env i bytes n] by (auto simp: keeps_def dest!: spec [of _ c])

lemma no_credit_limit: "no_credit c \<Longrightarrow> send_limit x e closing room c = 0"
  by (simp add: no_credit_def send_limit_def Let_def)

lemma no_credit_stuck:
  assumes "header_to_bytes h (with_slice (take n out)) = Ok b" "n \<le> 16383" "pkt_num_len pn = Ok k"
  shows "checked_sub 0 (of_nat (off b) + of_nat k + of_nat (tag_len alg)) = None"
proof -
  have "off b \<le> 16383"
    using fillsD [OF fills_header octets_ok_with_slice assms(1)] assms(2)
    by (auto simp: octets_ok_def with_slice_def)
  moreover have "k \<le> 4" using assms(3) by (auto simp: pkt_num_len_def split: if_splits)
  ultimately have "unat (of_nat (off b + k + tag_len alg) :: u64) \<noteq> 0"
    by (simp add: unat_of_nat64 tag_len_def del: of_nat_add)
  then show ?thesis by (simp add: checked_sub_def unat_gt_0)
qed

lemma no_credit_datagram:
  fixes c :: "('s, 'c) conn"
  assumes "no_credit c"
  shows "wp (send_datagram x env out closing) (\<lambda>_ _. False) (\<lambda>_. no_credit) c"
proof -
  define avail where "avail = min (if is_established x c then unat (min 16383 (tp_max_packet_size (cn_peer_tp c))) else 1200) (length out)"
  have "unat (min 16383 v :: u64) \<le> 16383" for v
    by (auto simp: min_def word_le_nat_alt)
  then have avail: "avail \<le> 16383" by (auto simp: avail_def min.coboundedI1)
  have stuck: "False" if "header_to_bytes h (with_slice (take avail out)) = Ok b" "pkt_num_len pn = Ok k"
    "checked_sub 0 (of_nat (off b) + of_nat k + of_nat (tag_len alg)) = Some v" for h b pn k alg v
    using no_credit_stuck [OF that(1) avail that(2), of alg] that(3) by simp
  have after: "wp (send_lost e) (\<lambda>_ t.
      wp (andThen (lift (pkt_num_len (ps_next_pkt_num (cn_spaces t e)))) (\<lambda>pn_len.
         andThen (lift (ok_or Done (space_overhead (cn_spaces t e)))) (\<lambda>overhead.
         andThen (lift (header_to_bytes (send_header ty pn_len t) (with_slice (take avail out)))) (\<lambda>b.
         andThen (lift (ok_or Done (checked_sub (send_limit x e closing room t) (of_nat (off b + pn_len + overhead))))) (f t pn_len overhead b)))))
      (\<lambda>_ _. False) (\<lambda>_. no_credit) t) (\<lambda>_. no_credit) c" for e ty room f
  proof (rule wp_mono [OF keeps_wp [OF no_credit.keeps_send_lost assms]], goal_cases)
    case (1 u t)
    then show ?case
      by (auto simp: wp_andThen wp_lift no_credit_limit space_overhead_def
          dest: stuck split: res.split option.split)
  qed
  have reads: "wp (andThen (reads_st g) h) Q E = (\<lambda>t. wp (h (g t)) Q E t)" for g :: "('s, 'c) conn \<Rightarrow> 'y" and h Q E
    by (simp add: fun_eq_iff wp_andThen wp_reads_st)
  show ?thesis
    unfolding send_datagram_def Let_def reads avail_def [symmetric] wp_andThen [of "lift (write_epoch _ _)"]
      wp_andThen [of "lift (type_from_epoch _)"] wp_andThen [of "send_lost _"] wp_lift
    using assms after by (auto split: res.split)
qed

text \<open>C31. An error leaves a server without credit: while the peer's address is not verified, a datagram
  whose processing ends in an error adds nothing to what the server may send, although the credit is meant to be
  given for every datagram received; so a server whose first datagram is refused cannot send the
  CONNECTION_CLOSE that it recorded, or anything else.\<close>

theorem refused_datagram_gives_no_credit:
  assumes "cn_is_server c" and "cn_max_send_bytes c = 0"
    and "conn_recv x env bytes c = (Err e, c1)" and "\<not> cn_verified_peer_address c1"
    and "conn_send_with_blocks x env' out c1 = (r, c2)"
  shows "cn_max_send_bytes c1 = 0 \<and> (\<forall>v. r \<noteq> Ok v)"
proof -
  obtain res t where loop: "recv_loop x env 0 bytes 0 c = (res, t)" by fastforce
  with assms(3) have "t = c1" by (cases res) (auto simp: conn_recv_def andThen_run act_defs)
  with loop unsent_recv assms(1,2,4) have c1: "no_credit c1" by (fastforce simp: no_credit_def)
  have "wp (conn_send_with_blocks x env' out) (\<lambda>_ _. False) (\<lambda>_. no_credit) c1"
    unfolding conn_send_with_blocks_def
    using c1 by (auto simp: wp_andThen [of "fail_if _ _"] wp_andThen [of "reads_st _"] wp_andThen [of "whenever _ _"]
        wp_fail_if wp_reads_st wp_whenever no_credit_datagram
        intro!: wp_mono [OF keeps_wp [OF no_credit.keeps_do_handshake]])
  with assms(5) c1 show ?thesis by (cases r) (auto simp: wp_def no_credit_def)
qed

lemma refused_datagram_gives_no_credit_witness:
  "\<exists>c1. conn_recv (example_ext 1) (\<lambda>_ _. quiet_env 1) [0xc0, 0, 0, 0, 9, 0, 0, 0, 0] (example_conn True) = (Err UnknownVersion, c1)
     \<and> is_closing c1 \<and> cn_max_send_bytes c1 = 0 \<and> (\<forall>v. fst (conn_send_with_blocks (example_ext 1) (\<lambda>_. quiet_env 1) [0, 0, 0] c1) \<noteq> Ok v)"
proof -
  let ?bytes = "[0xc0, 0, 0, 0, 9, 0, 0, 0, 0] :: u8 list" and ?c = "example_conn True"
  let ?c1 = "?c\<lparr>cn_error := Some (to_wire UnknownVersion)\<rparr>"
  have "case header_from_bytes 4 (with_slice ?bytes) of
      Ok (h, b) \<Rightarrow> h_ty h = Initial \<and> \<not> version_is_supported (h_version h) | _ \<Rightarrow> False" by code_simp
  then obtain h b where h: "header_from_bytes 4 (with_slice ?bytes) = Ok (h, b)" "h_ty h = Initial"
    "\<not> version_is_supported (h_version h)" by (auto split: res.splits)
  have conn: "length (cn_scid ?c) = 4" "cn_draining_timer ?c = None" "cn_error ?c = None" "cn_app_error ?c = None"
    "cn_is_server ?c" "\<not> cn_did_version_negotiation ?c" "cn_max_send_bytes ?c = 0" "\<not> cn_verified_peer_address ?c"
    by (simp_all add: example_conn_def conn_init_def Let_def)
  then have "recv_single (example_ext 1) (\<lambda>_. quiet_env 1) ?bytes ?c = (Err UnknownVersion, ?c)"
    using h by (simp add: recv_single_def recv_prepare_def andThen_run act_defs is_closing_def)
  then have recv: "conn_recv (example_ext 1) (\<lambda>_ _. quiet_env 1) ?bytes ?c = (Err UnknownVersion, ?c1)"
    using conn by (simp add: conn_recv_def recv_loop.simps [of "example_ext 1" _ 0] andThen_run act_defs conn_close_def is_closing_def)
  obtain r c2 where send: "conn_send_with_blocks (example_ext 1) (\<lambda>_. quiet_env 1) [0, 0, 0] ?c1 = (r, c2)" by fastforce
  have "\<not> cn_verified_peer_address ?c1" using conn by simp
  from refused_datagram_gives_no_credit [OF conn(5,7) recv this send] recv send show ?thesis
    by (auto simp: is_closing_def)
qed

end
