(* ===== verification/ConnFaults.thy ===== *)
theory ConnFaults
  imports ConnLife
begin

text \<open>Where the connection does not do what it means to: the loop over the streams that wait to send, data
  that is counted twice, and repeated \<open>RESET_STREAM\<close> frames.\<close>

section \<open>The loop over the waiting streams\<close>

lemma run_on_streams:
  "on_streams m c = (case m (cn_streams c) of (r, sm) \<Rightarrow> (r, c\<lparr>cn_streams := sm\<rparr>))"
  by (simp add: on_streams_def on_part_def)

lemma run_rules:
  "andThen (reads_st g) f c = f (g c) c"
  "andThen (lift r) h c = (case r of Ok v \<Rightarrow> h v c | Err e \<Rightarrow> (Err e, c) | Panic \<Rightarrow> (Panic, c))"
  "andThen (on_streams m) k c = (case m (cn_streams c) of (Ok v, sm) \<Rightarrow> k v (c\<lparr>cn_streams := sm\<rparr>)
     | (Err e, sm) \<Rightarrow> (Err e, c\<lparr>cn_streams := sm\<rparr>) | (Panic, sm) \<Rightarrow> (Panic, c\<lparr>cn_streams := sm\<rparr>))"
  by (simp_all add: andThen_run reads_st_def lift_def run_on_streams split: prod.split res.split)

lemma send_pop_empty:
  assumes "\<not> send_ready s" "sb_fin_off s \<noteq> Some (sb_off s)"
  shows "send_pop k s = Ok (\<lparr>rb_data = [], rb_off = sb_off s, rb_fin = False\<rparr>, s)"
  using assms by (simp add: send_pop_def send_pop_loop.simps [of k] rb_max_off_def rb_len_def)

text \<open>A stream with an old block and nothing to send, looked at for the next stream frame.\<close>

lemma send_one_stream_idle:
  assumes "sm_streams (cn_streams c) y = Some s" "\<not> send_is_new (st_send s)"
    and "\<not> send_ready (st_send s)" "sb_fin_off (st_send s) \<noteq> Some (sb_off (st_send s))"
    and "MAX_STREAM_OVERHEAD < bp_left p" "fc_fec (cn_fec c) = None"
    and "varint_ok y" "varint_ok (send_off (st_send s))" "varint_ok (min (bp_left p) (cn_max_tx_data c - cn_tx_data c))"
  shows "send_one_stream x si y blk p c = (Ok (False, p), c)"
proof -
  have lens: "varint_len v = Ok (length (varint_enc v))" if "varint_ok v" for v
    using that by (simp add: varint_len_eq)
  have upd: "c\<lparr>cn_streams := (cn_streams c)\<lparr>sm_streams := (sm_streams (cn_streams c))(y \<mapsto> s)\<rparr>\<rparr> = c"
    using assms(1) by (simp add: fun_upd_idem)
  show ?thesis
    using assms lens upd
    by (auto simp: send_one_stream_def send_block_info_def andThen_run act_defs stream_max_len_def stream_overhead_def
        run_on_streams on_stream_def on_send_def send_pop_empty rb_is_empty_def rb_len_def split: option.split)
qed

text \<open>The state of a loop that goes round: only the end of stream \<open>sid\<close> waits to be announced, and the
  scheduler's last choice \<open>y\<close> is another stream, which has nothing to send.\<close>

definition stuck_choice :: "u64 \<Rightarrow> u64 \<Rightarrow> u64 \<Rightarrow> stream_map \<Rightarrow> bool" where
  "stuck_choice sid y now m \<longleftrightarrow>
     (\<exists>d s. sm_scheduler m = DtpScheduler d \<and> ds_last_block_id d = Some y \<and> y \<noteq> sid \<and> sm_flushable m = [sid]
       \<and> flush_ok sid m \<and> blk_remaining (flush_block sid m) = 0 \<and> \<not> dtp_should_drop_block (flush_block sid m) now
       \<and> flush_ok y m \<and> varint_ok y \<and> sm_streams m y = Some s \<and> \<not> send_is_new (st_send s) \<and> \<not> send_ready (st_send s)
       \<and> varint_ok (sb_off (st_send s)) \<and> sb_fin_off (st_send s) \<noteq> Some (sb_off (st_send s)))"

lemma stuck_choice_peek:
  assumes "stuck_choice sid y now m"
  shows "\<exists>m'. sm_peek_flushable ffi bw rtt pid now m = (Ok (Some y), m') \<and> stuck_choice sid y now m'
    \<and> (\<exists>blk. sm_get_block y m' = Ok blk)"
proof -
  from assms obtain d s where a: "sm_scheduler m = DtpScheduler d" "ds_last_block_id d = Some y" "y \<noteq> sid"
    "sm_flushable m = [sid]" "flush_ok sid m" "blk_remaining (flush_block sid m) = 0"
    "\<not> dtp_should_drop_block (flush_block sid m) now" "flush_ok y m" "varint_ok y" "sm_streams m y = Some s"
    "\<not> send_is_new (st_send s)" "\<not> send_ready (st_send s)" "varint_ok (sb_off (st_send s))"
    "sb_fin_off (st_send s) \<noteq> Some (sb_off (st_send s))"
    by (auto simp: stuck_choice_def)
  let ?d = "d\<lparr>ds_ddl := 0, ds_size := 0, ds_prio := 0\<rparr>"
  let ?m = "m\<lparr>sm_scheduler := DtpScheduler ?d, sm_flushable := [sid]\<rparr>"
  have same: "flush_ok z ?m = flush_ok z m" "flush_block z ?m = flush_block z m" for z
    by (simp_all add: flush_ok_def flush_block_def sm_get_block_def sm_get_def)
  have "sm_peek_flushable ffi bw rtt pid now m = (Ok (Some y), ?m)"
    using peek_flushable_empty_fin [OF a(1,4,5,6,7), of ffi bw rtt pid] a(2,3) by simp
  moreover have "stuck_choice sid y now ?m"
    using a unfolding stuck_choice_def same by auto
  moreover have "sm_get_block y ?m = Ok (flush_block y ?m)"
    using a(8) by (intro flush_block_Ok) (simp add: same)
  ultimately show ?thesis by blast
qed

text \<open>C32. \<open>send\<close> can loop for ever. When the queue holds one stream with nothing but its end to announce, the
  DTP scheduler repeats its last choice; when that is another live stream with nothing to send, each round
  of the loop over \<open>peek_flushable\<close> adds a block to the list and leaves the queue as it was. No number
  of rounds is enough: after any number the loop has neither ended nor failed nor panicked (the result is
  \<open>Ok None\<close>, which only the end of the allowed rounds gives), and it is in the same situation.\<close>

theorem send_loops_forever:
  assumes "stuck_choice sid y (si_now_ms si) (cn_streams c)"
    and "MAX_STREAM_OVERHEAD < bp_left p" "bp_left p < 2 ^ 62" "fc_fec (cn_fec c) = None"
  shows "\<exists>c'. send_stream_loop x si rounds p c = (Ok None, c') \<and> stuck_choice sid y (si_now_ms si) (cn_streams c')"
  using assms
proof (induction rounds arbitrary: p c)
  case 0
  from stuck_choice_peek [OF 0(1), of "x_interface x" "si_bandwidth si" "si_rtt si" "si_pn si"] obtain m' where
    "sm_peek_flushable (x_interface x) (si_bandwidth si) (si_rtt si) (si_pn si) (si_now_ms si) (cn_streams c) = (Ok (Some y), m')"
    "stuck_choice sid y (si_now_ms si) m'" by blast
  then show ?case
    by (simp add: send_stream_loop.simps [of x si 0] andThen_run run_on_streams ret_def)
next
  case (Suc rounds)
  from stuck_choice_peek [OF Suc.prems(1), of "x_interface x" "si_bandwidth si" "si_rtt si" "si_pn si"] obtain m' blk where
    peek: "sm_peek_flushable (x_interface x) (si_bandwidth si) (si_rtt si) (si_pn si) (si_now_ms si) (cn_streams c) = (Ok (Some y), m')"
    and m': "stuck_choice sid y (si_now_ms si) m'" and blk: "sm_get_block y m' = Ok blk" by blast
  from m' obtain s where s: "sm_streams m' y = Some s" "\<not> send_is_new (st_send s)" "\<not> send_ready (st_send s)"
    "varint_ok (sb_off (st_send s))" "sb_fin_off (st_send s) \<noteq> Some (sb_off (st_send s))" "varint_ok y"
    by (auto simp: stuck_choice_def)
  let ?c = "c\<lparr>cn_streams := m'\<rparr>" and ?p = "p\<lparr>bp_blocks := bp_blocks p @ [blk]\<rparr>"
  have sending: "varint_ok (send_off (st_send s))"
    using s(3,4) by (simp add: send_off_def send_ready_def bh_peek_def)
  have "varint_ok (min (bp_left ?p) (cn_max_tx_data ?c - cn_tx_data ?c))"
    using Suc.prems(3) by (auto simp: varint_ok_def word_less_nat_alt min_def not_le)
  with s sending Suc.prems have one: "send_one_stream x si y blk ?p ?c = (Ok (False, ?p), ?c)"
    by (intro send_one_stream_idle) auto
  from Suc.IH [of ?c ?p] m' Suc.prems obtain c' where
    "send_stream_loop x si rounds ?p ?c = (Ok None, c')" "stuck_choice sid y (si_now_ms si) (cn_streams c')" by auto
  then show ?case
    using peek blk s(1) one
    by (simp add: send_stream_loop.simps [of x si "Suc rounds"] andThen_run run_on_streams reads_st_def lift_def Let_def)
qed

text \<open>Stream 0 has only its end to announce; stream 4 had sent its five bytes when it was chosen.\<close>

definition stuck_map :: stream_map where
  "stuck_map =
     (let s = stream_new_full 0 0 10000 10000 True True 4000 1 0 in
      (sm_new False False 2 2 SchedDTP)\<lparr>sm_flushable := [0],
        sm_scheduler := DtpScheduler (dtp_default\<lparr>ds_last_block_id := Some 4\<rparr>),
        sm_streams := [0 \<mapsto> s\<lparr>st_send := (st_send s)\<lparr>sb_fin_off := Some 0\<rparr>\<rparr>,
                       4 \<mapsto> s\<lparr>st_send := (st_send s)\<lparr>sb_new := False, sb_off := 5\<rparr>\<rparr>]\<rparr>)"

definition full_packet :: building where
  "full_packet = \<lparr>bp_left = 1200, bp_payload_len = 0, bp_frames = [], bp_ack_eliciting = False, bp_in_flight = False,
     bp_m = 0, bp_n = 0, bp_blocks = []\<rparr>"

definition example_info :: send_info where
  "example_info = \<lparr>si_rtt = Fin 0, si_bandwidth = Fin 1, si_now_ms = 1000, si_pn = 0\<rparr>"

lemma send_loops_forever_witness:
  "\<exists>c'. send_stream_loop (example_ext 0) \<lparr>si_rtt = Fin 0, si_bandwidth = Fin 1, si_now_ms = 1000, si_pn = 0\<rparr> 99 full_packet
      ((example_conn True)\<lparr>cn_streams := stuck_map\<rparr>) = (Ok None, c')"
proof -
  have "stuck_choice 0 4 1000 stuck_map"
    by (simp add: stuck_choice_def stuck_map_def Let_def flush_ok_def flush_block_def sm_get_block_def sm_get_def
        stream_new_full_def send_new_full_def send_block_size_def dtp_default_def dtp_should_drop_block_def
        varint_ok_def send_is_new_def send_ready_def)
  moreover have "fc_fec (cn_fec (example_conn True)) = None"
    by (simp add: example_conn_def conn_init_def Let_def fec_conn_new_def)
  ultimately show ?thesis
    using send_loops_forever [of 0 4 "\<lparr>si_rtt = Fin 0, si_bandwidth = Fin 1, si_now_ms = 1000, si_pn = 0\<rparr>"
        "(example_conn True)\<lparr>cn_streams := stuck_map\<rparr>" full_packet "example_ext 0" 99]
    by (auto simp: full_packet_def MAX_STREAM_OVERHEAD_def)
qed

lemma basic_drop_loop:
  assumes "sm_scheduler m = BasicScheduler l" "sm_drop_loop ffi bw rtt pid now i blocks m = (r, m')"
  shows "m' = m \<and> (\<forall>bs. r = Ok bs \<longrightarrow> blk_id ` set bs \<subseteq> blk_id ` set blocks \<union> set (sm_flushable m))"
  using assms
proof (induction ffi bw rtt pid now i blocks m rule: sm_drop_loop.induct)
  case (2 ffi bw rtt pid now i blocks m)
  show ?case
  proof (cases "length (sm_flushable m) \<le> i")
    case False
    let ?sid = "sm_flushable m ! i"
    show ?thesis
    proof (cases "sm_get_block ?sid m")
      case (Ok blk)
      then have "blk_id blk = ?sid" by (auto simp: sm_get_block_def split: if_splits)
      moreover have "?sid \<in> set (sm_flushable m)" using False by simp
      moreover have "\<not> should_drop_block ffi blk bw rtt pid now (sm_scheduler m)"
        using 2(3) by (simp add: should_drop_block_def)
      ultimately show ?thesis using 2(2) [OF False refl Ok] 2(3,4) False Ok
        by (auto simp: Let_def insert_absorb)
    qed (use 2(4) False in \<open>auto simp: Let_def\<close>)
  qed (use 2(4) in auto)
qed auto

lemma basic_select_member: "basic_select_block blocks l = Ok (bid, l') \<Longrightarrow> bid \<in> blk_id ` set blocks"
  by (auto simp: basic_select_block_def find_Some_iff split: list.splits option.splits if_splits)

lemma basic_peek_shape:
  assumes "sm_scheduler m = BasicScheduler l" "sm_peek_flushable ffi bw rtt pid now m = (r, m')"
  shows "(\<forall>k. r \<noteq> Ok (Some k)) \<and> m' = m
    \<or> (\<exists>k l'. r = Ok (Some k) \<and> k \<in> set (sm_flushable m)
        \<and> m' = m\<lparr>sm_scheduler := BasicScheduler l', sm_flushable := swap_remove_front (first_index k (sm_flushable m)) (sm_flushable m)\<rparr>)"
proof (cases "sm_flushable m = []")
  case True
  with assms(2) show ?thesis by (auto simp: sm_peek_flushable_def sm_has_flushable_def)
next
  case False
  obtain d m1 where drop: "sm_drop_loop ffi bw rtt pid now (length (sm_flushable m)) [] m = (d, m1)" by fastforce
  note b = basic_drop_loop [OF assms(1) drop]
  show ?thesis
  proof (cases "\<exists>bs. d = Ok bs \<and> bs \<noteq> []")
    case True
    then obtain bs where bs: "d = Ok bs" "bs \<noteq> []" by blast
    show ?thesis
    proof (cases "basic_select_block bs l")
      case (Ok p)
      obtain k l' where p: "p = (k, l')" by fastforce
      with basic_select_member [of bs l k l'] Ok b bs(1) have "k \<in> set (sm_flushable m)" by auto
      with False assms drop bs b Ok p show ?thesis
        by (auto simp: sm_peek_flushable_def sm_has_flushable_def select_block_def split: res.splits)
    qed (use False assms drop bs b in \<open>auto simp: sm_peek_flushable_def sm_has_flushable_def select_block_def split: res.splits\<close>)
  next
    case none: False
    with False assms(2) drop b show ?thesis
      by (cases d) (auto simp: sm_peek_flushable_def sm_has_flushable_def split: res.splits)
  qed
qed

lemma first_index_less: "x \<in> set xs \<Longrightarrow> first_index x xs < length xs"
  by (induction xs) auto

lemma set_swap_remove_front: "set (swap_remove_front i xs) \<subseteq> set xs"
proof -
  have "set (tl (xs[i := hd xs])) \<subseteq> set xs" if "i < length xs"
  proof -
    have "xs \<noteq> []" "xs[i := hd xs] \<noteq> []" using that by auto
    then show ?thesis
      using set_update_subset_insert [of xs i "hd xs"] list.set_sel(2) [of "xs[i := hd xs]"] hd_in_set [of xs] by blast
  qed
  then show ?thesis by (auto simp: swap_remove_front_def)
qed

lemma basic_peek:
  assumes "sm_scheduler m = BasicScheduler l" "sm_peek_flushable ffi bw rtt pid now m = (Ok (Some sid), m')"
  shows "(\<exists>l'. sm_scheduler m' = BasicScheduler l') \<and> length (sm_flushable m') < length (sm_flushable m)"
  using basic_peek_shape [OF assms] first_index_less [of sid "sm_flushable m"]
  by (auto simp: swap_remove_front_def)

text \<open>A round that goes on leaves the queue as it is.\<close>

definition queue_within :: "nat \<Rightarrow> ('s, 'c) conn \<Rightarrow> bool" where
  "queue_within k c \<longleftrightarrow> (\<exists>l. sm_scheduler (cn_streams c) = BasicScheduler l) \<and> length (sm_flushable (cn_streams c)) \<le> k"

lemma queue_on_stream: "keeps (queue_within k) (on_streams (on_stream sid e m))"
  by (auto simp: keeps_def run_on_streams on_stream_def queue_within_def split: option.split prod.split)

lemma queue_one_stream:
  assumes "queue_within k c"
  shows "wp (send_one_stream x si sid blk p) (\<lambda>r t. \<not> fst r \<longrightarrow> queue_within k t) (\<lambda>_ _. True) c"
proof -
  have "keeps (queue_within k) (send_block_info sid p)"
    unfolding send_block_info_def add_def
    by (auto intro!: keeps_andThen keeps_reads_st keeps_ret keeps_lift keeps_if queue_on_stream split: option.split)
  note info = keeps_wp [OF this assms]
  have pop: "wp (on_streams (on_stream sid Done m)) (\<lambda>_. queue_within k) (\<lambda>_ _. True) t" if "queue_within k t"
    for m :: "(stream, 'y) act" and t
    by (rule wp_mono [OF keeps_wp [OF queue_on_stream that]]) auto
  have fin: "wp (andThen a (\<lambda>_. ret (True, q))) (\<lambda>r t. \<not> fst r \<longrightarrow> queue_within k t) (\<lambda>_ _. True) t"
    for a :: "(('a, 'b) conn, unit) act" and q t
    by (rule wp_skip) (simp add: wp_ret)
  show ?thesis
    unfolding send_one_stream_def wp_andThen [of "send_block_info sid p"]
  proof (rule wp_mono [OF info], goal_cases)
    case (1 q t)
    have go: "wp (andThen (on_streams (on_stream sid Done m)) (\<lambda>(d, s).
        if rb_is_empty d \<and> \<not> rb_fin d then ret (False, q)
        else andThen (f d) (\<lambda>_. andThen (g d s) (\<lambda>p. andThen (h s) (\<lambda>_. ret (True, p))))))
        (\<lambda>r t. \<not> fst r \<longrightarrow> queue_within k t) (\<lambda>_ _. True) t"
      for m and f :: "range_buf \<Rightarrow> (('a, 'b) conn, unit) act" and g :: "range_buf \<Rightarrow> stream \<Rightarrow> (('a, 'b) conn, building) act"
        and h :: "stream \<Rightarrow> (('a, 'b) conn, unit) act"
      unfolding wp_andThen [of "on_streams _"]
    proof (rule wp_mono [OF pop [OF 1]], goal_cases)
      case (1 r u)
      have "wp (andThen (f d) (\<lambda>_. andThen (g d s) (\<lambda>p. andThen (h s) (\<lambda>_. ret (True, p)))))
          (\<lambda>r t. \<not> fst r \<longrightarrow> queue_within k t) (\<lambda>_ _. True) u" for d s
        by (intro wp_skip) (simp add: wp_ret)
      with 1 show ?case by (cases r) (simp add: wp_ret)
    qed auto
    show ?case
    proof (cases "sm_streams (cn_streams t) sid")
      case None
      with 1 show ?thesis by (simp add: wp_andThen wp_reads_st wp_ret)
    next
      case (Some s)
      show ?thesis
      proof (cases "bp_left q > MAX_STREAM_OVERHEAD")
        case False
        with Some show ?thesis by (simp add: wp_andThen [of "reads_st _"] wp_reads_st fin)
      next
        case True
        with Some 1 show ?thesis
          by (cases "stream_max_len sid q t")
            (auto simp: wp_andThen [of "reads_st _"] wp_andThen [of "lift _"] wp_reads_st wp_lift wp_ret go
              split: res.split option.split)
      qed
    qed
  qed auto
qed

lemma loop_empty: "sm_flushable (cn_streams c) = [] \<Longrightarrow> send_stream_loop x si k p c = (Ok (Some p), c)"
  by (subst send_stream_loop.simps) (simp add: andThen_run run_on_streams sm_peek_flushable_def sm_has_flushable_def ret_def)

lemma loop_same:
  assumes "queue_within n c" "queue_within k c"
  shows "send_stream_loop x si n p c = send_stream_loop x si k p c"
  using assms
proof (induction n arbitrary: k p c)
  case 0
  then show ?case by (simp add: queue_within_def loop_empty)
next
  case (Suc n)
  show ?case
  proof (cases k)
    case 0
    with Suc.prems show ?thesis by (simp add: queue_within_def loop_empty)
  next
    case (Suc k')
    obtain r m' where peek: "sm_peek_flushable (x_interface x) (si_bandwidth si) (si_rtt si) (si_pn si) (si_now_ms si)
        (cn_streams c) = (r, m')" by fastforce
    let ?c = "c\<lparr>cn_streams := m'\<rparr>"
    show ?thesis
    proof (cases "\<exists>sid. r = Ok (Some sid)")
      case True
      then obtain sid where r: "r = Ok (Some sid)" ..
      from Suc.prems obtain l where l: "sm_scheduler (cn_streams c) = BasicScheduler l" by (auto simp: queue_within_def)
      from basic_peek [OF l peek [unfolded r]] Suc.prems \<open>k = Suc k'\<close>
      have q: "queue_within n ?c" "queue_within k' ?c" by (auto simp: queue_within_def)
      have go: "andThen (send_one_stream x si sid blk q) (\<lambda>(finished, p). if finished then ret (Some p) else send_stream_loop x si n p) ?c
          = andThen (send_one_stream x si sid blk q) (\<lambda>(finished, p). if finished then ret (Some p) else send_stream_loop x si k' p) ?c"
        for blk q
      proof (rule andThen_cong [OF refl], goal_cases)
        case (1 r t)
        with queue_one_stream [OF q(1), of x si sid blk q] queue_one_stream [OF q(2), of x si sid blk q]
        have "\<not> fst r \<longrightarrow> queue_within n t \<and> queue_within k' t" by (simp add: wp_def)
        then show ?case using Suc.IH by (auto split: prod.split)
      qed
      show ?thesis
        unfolding \<open>k = Suc k'\<close> send_stream_loop.simps [of x si "Suc n"] send_stream_loop.simps [of x si "Suc k'"]
        using peek r go Suc.IH [OF q]
        by (cases "sm_get_block sid m'"; cases "sm_streams m' sid")
          (simp_all add: run_rules Let_def)
    next
      case False
      with peek show ?thesis
        unfolding \<open>k = Suc k'\<close> send_stream_loop.simps [of x si "Suc n"] send_stream_loop.simps [of x si "Suc k'"]
        by (auto simp: run_rules split: res.split option.split)
    qed
  qed
qed

lemma loop_ends:
  "queue_within n c \<Longrightarrow> wp (send_stream_loop x si n p) (\<lambda>ended _. \<exists>q. ended = Some q) (\<lambda>_ _. True) c"
proof (induction n arbitrary: p c)
  case 0
  then show ?case by (simp add: queue_within_def loop_empty wp_def)
next
  case (Suc n)
  have peek: "wp (on_streams (sm_peek_flushable (x_interface x) (si_bandwidth si) (si_rtt si) (si_pn si) (si_now_ms si)))
      (\<lambda>found t. found \<noteq> None \<longrightarrow> queue_within n t) (\<lambda>_ _. True) c"
  proof -
    obtain l where l: "sm_scheduler (cn_streams c) = BasicScheduler l" using Suc.prems by (auto simp: queue_within_def)
    show ?thesis using basic_peek [OF l] Suc.prems
      by (fastforce simp: wp_def run_on_streams queue_within_def split: prod.split res.split)
  qed
  have one: "wp (andThen (send_one_stream x si sid blk q) (\<lambda>(finished, p).
      if finished then ret (Some p) else send_stream_loop x si n p)) (\<lambda>ended _. \<exists>q. ended = Some q) (\<lambda>_ _. True) t"
    if "queue_within n t" for sid blk q t
    unfolding wp_andThen
    by (rule wp_mono [OF queue_one_stream [OF that]]) (auto simp: wp_ret intro: Suc.IH split: prod.split)
  show ?case
    unfolding send_stream_loop.simps [of x si "Suc n"] wp_andThen [of "on_streams _"]
    by (rule wp_mono [OF peek])
      (auto simp: wp_ret wp_andThen [of "reads_st _"] wp_andThen [of "lift _"] wp_reads_st wp_lift Let_def one Suc.IH
        split: option.split res.split)
qed

text \<open>C33. The loop ends with the basic scheduler: it only names streams of the queue, and every round takes one
  out. With as many rounds as the queue is long, or more, it never runs out of rounds (the result is not
  \<open>Ok None\<close>, which any number of rounds gives for the loop of C32), and the number of rounds does not
  matter for what it does.\<close>

theorem basic_stream_loop_terminates:
  assumes "sm_scheduler (cn_streams c) = BasicScheduler bs"
    and "length (sm_flushable (cn_streams c)) \<le> rounds"
  shows "fst (send_stream_loop x si rounds p c) \<noteq> Ok None
    \<and> send_stream_loop x si rounds p c = send_stream_loop x si (length (sm_flushable (cn_streams c))) p c"
proof -
  have "queue_within rounds c" "queue_within (length (sm_flushable (cn_streams c))) c"
    using assms by (auto simp: queue_within_def)
  from loop_same [OF this, of x si p] loop_ends [OF this(1), of x si p] show ?thesis
    by (auto simp: wp_def split: prod.splits)
qed

lemma basic_stream_loop_terminates_witness:
  "let m = example_map\<lparr>sm_scheduler := BasicScheduler None\<rparr>; c = (example_conn True)\<lparr>cn_streams := m\<rparr> in
     fst (send_stream_loop (example_ext 0) example_info 9 full_packet c) \<noteq> Ok None
     \<and> send_stream_loop (example_ext 0) example_info 9 full_packet c = send_stream_loop (example_ext 0) example_info 2 full_packet c"
proof -
  let ?c = "(example_conn True)\<lparr>cn_streams := example_map\<lparr>sm_scheduler := BasicScheduler None\<rparr>\<rparr>"
  have len: "length (sm_flushable (cn_streams ?c)) = 2" by (simp add: example_map_def)
  have "sm_scheduler (cn_streams ?c) = BasicScheduler None" "length (sm_flushable (cn_streams ?c)) \<le> 9"
    by (simp_all add: example_map_def)
  from basic_stream_loop_terminates [OF this, of "example_ext 0" example_info full_packet]
  show ?thesis unfolding Let_def len .
qed

section \<open>A stream that is taken out of the queue and not put back\<close>

lemma peek_at_end:
  "sm_flushable m = [] \<Longrightarrow> sm_peek_flushable ffi bw rtt pid now m = (Ok None, m)"
  by (simp add: sm_peek_flushable_def sm_has_flushable_def)

lemma overhead_at_least:
  assumes "varint_ok a" "varint_ok b" "varint_ok v"
  shows "\<exists>n. stream_overhead a b v = Ok n \<and> 4 \<le> n"
proof -
  have len: "varint_len u = Ok k \<Longrightarrow> k \<in> {1, 2, 4, 8}" for u k
    by (auto simp: varint_len_def split: if_splits)
  from assms obtain i j k where ijk: "varint_len a = Ok i" "varint_len b = Ok j" "varint_len v = Ok k"
    by (simp add: varint_len_eq)
  with len [OF ijk(1)] len [OF ijk(2)] len [OF ijk(3)] show ?thesis
    by (auto simp: stream_overhead_def)
qed

lemma send_block_info_old:
  "sm_streams (cn_streams c) sid = Some s \<Longrightarrow> \<not> send_is_new (st_send s) \<Longrightarrow> send_block_info sid p c = (Ok p, c)"
  by (simp add: send_block_info_def run_rules ret_def)

lemma wp_get_existing:
  "sm_streams (cn_streams c) sid = Some s \<Longrightarrow>
   wp (get_or_create_stream_full env sid local dl pr dep) Q E c \<longleftrightarrow>
     Q s (c\<lparr>cn_streams := (if stream_is_writable s then (cn_streams c)\<lparr>sm_writable := insert sid (sm_writable (cn_streams c))\<rparr>
       else cn_streams c)\<rparr>)"
  by (simp add: wp_def get_or_create_stream_full_def run_on_streams pure_val_def sm_get_or_create_def)

text \<open>What keeps a stream out of the queue, with the basic scheduler: it has something to send, or is collected, and
  is not queued. An operation queues a stream when this operation gives it the first thing to send, or after
  the loop of \<open>send\<close> took it from the queue.\<close>

definition waits_out :: "u64 \<Rightarrow> stream_map \<Rightarrow> bool" where
  "waits_out sid m \<longleftrightarrow> (\<exists>l. sm_scheduler m = BasicScheduler l) \<and> sid \<notin> set (sm_flushable m) \<and> stream_pending sid m"

abbreviation left_out :: "u64 \<Rightarrow> ('s, 'c) conn \<Rightarrow> bool" where
  "left_out sid c \<equiv> waits_out sid (cn_streams c)"

interpretation left_out: conn_credit_core "left_out sid" for sid
  by unfold_locales (auto simp: waits_out_def stream_change_def)

lemma sift_up_hd: "pos < length xs \<Longrightarrow> key (hd (sift_up key pos xs)) \<le> key (hd xs)"
proof (induction key pos xs rule: sift_up.induct)
  case (1 key pos xs)
  show ?case
  proof (cases "pos = 0 \<or> key (xs ! par pos) \<le> key (xs ! pos)")
    case True
    then show ?thesis by (auto simp: sift_up.simps [of key pos xs])
  next
    case False
    then have p: "par pos < pos" "xs \<noteq> []" using "1.prems" par_less [of pos] by auto
    then have "key (hd (swap_at pos (par pos) xs)) \<le> key (hd xs)"
      using False "1.prems" by (cases "par pos = 0") (auto simp: swap_at_def hd_conv_nth nth_list_update)
    moreover have "key (hd (sift_up key (par pos) (swap_at pos (par pos) xs))) \<le> key (hd (swap_at pos (par pos) xs))"
      using "1.IH" False p "1.prems" by simp
    ultimately show ?thesis using False by (simp add: sift_up.simps [of key pos xs])
  qed
qed

lemma flushable_push:
  "stream_is_flushable s \<Longrightarrow> send_push b (st_send s) = Ok d \<Longrightarrow> stream_is_flushable (s\<lparr>st_send := d\<lparr>sb_off := k\<rparr>\<rparr>)"
proof -
  have push: "\<exists>c cs. bh_push rb_off b (a # as) = c # cs \<and> rb_off c \<le> rb_off a" for a as
  proof -
    have "mset (bh_push rb_off b (a # as)) = mset ((a # as) @ [b])"
      using mset_sift_up [of "length (a # as)" "(a # as) @ [b]" rb_off] by (simp add: bh_push_def)
    from arg_cong [OF this, of size] have "bh_push rb_off b (a # as) \<noteq> []" by auto
    moreover have "rb_off (hd (bh_push rb_off b (a # as))) \<le> rb_off a"
      using sift_up_hd [of "length (a # as)" "(a # as) @ [b]" rb_off] by (simp add: bh_push_def)
    ultimately show ?thesis by (cases "bh_push rb_off b (a # as)") auto
  qed
  assume "stream_is_flushable s" "send_push b (st_send s) = Ok d"
  then show ?thesis
    by (auto simp: flushable_iff send_push_def Let_def split: if_splits)
      (metis push order_le_less_trans)+
qed


lemma flushable_send_push: "keeps stream_is_flushable (on_send (pure_act (send_push b)))"
proof -
  have "stream_is_flushable (s\<lparr>st_send := d\<rparr>)" if "stream_is_flushable s" "send_push b (st_send s) = Ok d" for s d
    using flushable_push [OF that, of "sb_off d"] by simp
  then show ?thesis by (auto simp: keeps_def on_send_def on_part_def pure_act_def split: res.split prod.split)
qed

lemma flushable_push_slice: "keeps stream_is_flushable (on_send (send_push_slice data fin))"
proof -
  have chunks: "stream_is_flushable (s\<lparr>st_send := d\<rparr>) \<Longrightarrow>
      stream_is_flushable (s\<lparr>st_send := snd (send_push_chunks n f len cs d)\<rparr>)" for s :: stream and n f len cs d
  proof (induction n f len cs d rule: send_push_chunks.induct)
    case (2 n f len chunk cs d)
    show ?case
    proof (cases "send_push (rb_from chunk (sb_off d) (len + length chunk = n \<and> f)) d")
      case (Ok d')
      with flushable_push [OF "2.prems", of "rb_from chunk (sb_off d) (len + length chunk = n \<and> f)" d'
          "sb_off d' + of_nat (length chunk)"]
      have "stream_is_flushable (s\<lparr>st_send := d'\<lparr>sb_off := sb_off d' + of_nat (length chunk)\<rparr>\<rparr>)" by simp
      from "2.IH" [OF refl Ok this] show ?thesis by (simp add: Ok Let_def)
    qed (use "2.prems" in \<open>simp_all add: Let_def\<close>)
  qed simp
  have one: "stream_is_flushable (s\<lparr>st_send := d\<rparr>)" if "stream_is_flushable s" "send_push b (st_send s) = Ok d" for s b d
    using flushable_push [OF that, of "sb_off d"] by simp
  have "stream_is_flushable (s\<lparr>st_send := snd (send_push_slice data fin (st_send s))\<rparr>)" if "stream_is_flushable s" for s
  proof -
    have run: "stream_is_flushable (s\<lparr>st_send := d\<rparr>)" if "send_push_chunks n f len cs (st_send s) = (r, d)" for n f len cs r d
      using chunks [where s = s and d = "st_send s" and n = n and f = f and len = len and cs = cs] that \<open>stream_is_flushable s\<close>
      by simp
    show ?thesis
      using that one [OF that] by (auto simp: send_push_slice_def Let_def intro: run split: res.split prod.split)
  qed
  then show ?thesis by (auto simp: keeps_def on_send_def on_part_def split: prod.split) (metis snd_conv)
qed

text \<open>Only another stream is queued.\<close>

lemma left_out_push: "k \<noteq> sid \<Longrightarrow> keeps (left_out sid) (on_streams (modify (sm_push_flushable k)))"
  by (auto simp: keeps_def run_on_streams modify_def sm_push_flushable_def waits_out_def stream_pending_def
      cong: option.case_cong)

lemma left_out_other: "k \<noteq> sid \<Longrightarrow> keeps (left_out sid) (on_streams (on_stream k e a))"
  by (auto simp: keeps_def run_on_streams on_stream_def waits_out_def stream_pending_def split: option.splits prod.split)

lemma left_out_live: "left_out sid c \<Longrightarrow> sm_streams (cn_streams c) sid = Some s \<Longrightarrow> stream_is_flushable s"
  by (simp add: waits_out_def stream_pending_def)

lemma get_or_create_entry:
  assumes "sm_get_or_create wall clock k lp pp local is_server dl pr dep m = Ok (s, m')"
  shows "sm_streams m' k = Some s"
proof (cases "sm_streams m k")
  case (Some s0)
  with assms show ?thesis by (auto simp: sm_get_or_create_def)
next
  case None
  obtain rx tx where lim: "stream_limits lp pp local (is_bidi k) = (rx, tx)" by fastforce
  show ?thesis
    using assms None lim
    by (cases "sm_count (is_local k is_server) (is_bidi k) m") (auto simp: sm_get_or_create_def Let_def split: if_splits)
qed

lemma left_out_create:
  assumes "left_out sid c"
  shows "wp (get_or_create_stream_full env k local dl pr dep)
    (\<lambda>s c. left_out sid c \<and> (k = sid \<longrightarrow> stream_is_flushable s)) (\<lambda>_. left_out sid) c"
proof -
  have keep: "left_out sid (snd (get_or_create_stream_full env k local dl pr dep c))"
    by (rule left_out.keeps_get_or_create(1) [unfolded keeps_def, rule_format, OF assms])
  obtain r m where run: "pure_val (sm_get_or_create (en_wall env) (en_clock env) k (cn_local_tp c) (cn_peer_tp c) local
      (cn_is_server c) dl pr dep) (cn_streams c) = (r, m)" by fastforce
  have "sm_streams m k = Some s" if "r = Ok s" for s
    using run that by (auto simp: pure_val_def split: res.splits dest: get_or_create_entry)
  with keep run left_out_live [of sid "c\<lparr>cn_streams := m\<rparr>"] show ?thesis
    by (auto simp: wp_def get_or_create_stream_full_def run_on_streams split: res.split)
qed


section \<open>Such a stream stays out of the queue\<close>

lemma left_out_max_stream_data: "keeps (left_out sid) (process_max_stream_data env k m)"
proof (rule keepsI)
  fix c :: "('a, 'b) conn" assume c: "left_out sid c"
  have rest: "keeps (left_out sid) (andThen (on_streams (on_stream k InvalidStreamState
       (andThen (on_send (modify (send_update_max_data m))) (\<lambda>_. reads_st (\<lambda>s. s))))) (\<lambda>s'.
     andThen (whenever (stream_is_flushable s' \<and> \<not> stream_is_flushable s) (on_streams (modify (sm_push_flushable k)))) (\<lambda>_.
     whenever (stream_is_writable s') (on_streams (modify (sm_mark_writable k True))))))"
    if "k = sid \<longrightarrow> stream_is_flushable s" for s
    using that by (intro left_out.core_rules left_out_push) auto
  show "wp (process_max_stream_data env k m) (\<lambda>_. left_out sid) (\<lambda>_. left_out sid) c"
    unfolding process_max_stream_data_def get_or_create_stream_def Let_def wp_unless_done
    by (rule wp_mono [OF left_out_create [OF c]]) (auto intro: keeps_wp [OF rest])
qed

lemma left_out_send_full: "keeps (left_out sid) (stream_send_full env k data fin dl pr dep)"
proof (rule keepsI)
  fix c :: "('a, 'b) conn" assume c: "left_out sid c"
  have marks: "keeps (left_out sid) (on_streams (modify (\<lambda>m.
      let m = (if (stream_is_flushable s' \<or> e) \<and> \<not> stream_is_flushable s then sm_push_flushable k m else m)
      in if \<not> stream_is_writable s' then sm_mark_writable k False m else m)))"
    if "k = sid \<longrightarrow> stream_is_flushable s" for s s' e
    using that
    by (auto simp: keeps_def run_on_streams modify_def Let_def sm_push_flushable_def sm_mark_writable_def waits_out_def
        stream_pending_def cong: option.case_cong)
  have rest: "keeps (left_out sid) (andThen (on_streams (on_stream k InvalidStreamState (
       andThen (on_send (send_push_slice data fin)) (\<lambda>sent.
       andThen (reads_st (\<lambda>s. s)) (\<lambda>s. ret (sent, s)))))) (\<lambda>(sent, s').
     andThen (on_streams (modify (\<lambda>m.
       let m = (if (stream_is_flushable s' \<or> e) \<and> \<not> stream_is_flushable s then sm_push_flushable k m else m)
       in if \<not> stream_is_writable s' then sm_mark_writable k False m else m))) (\<lambda>_. ret sent)))"
    if "k = sid \<longrightarrow> stream_is_flushable s" for s e
    unfolding case_prod_beta by (intro left_out.core_rules flushable_push_slice marks that)
  show "wp (stream_send_full env k data fin dl pr dep) (\<lambda>_. left_out sid) (\<lambda>_. left_out sid) c"
    unfolding stream_send_full_def Let_def
    by (auto simp: wp_andThen [of "reads_st _"] wp_andThen [of "fail_if _ _"] wp_reads_st wp_fail_if c
        wp_andThen [of "get_or_create_stream_full _ _ _ _ _ _"]
        intro!: wp_mono [OF left_out_create [OF c]] keeps_wp [OF rest [unfolded Let_def]])
qed

lemma left_out_lost_stream: "keeps (left_out sid) (send_lost_stream k data)"
proof (rule keepsI)
  fix c :: "('a, 'b) conn" assume c: "left_out sid c"
  have push: "keeps (left_out sid) (on_streams (modify (push_if_flushable (stream_is_flushable s) k e s')))"
    if "k = sid \<longrightarrow> stream_is_flushable s" for s s' e
    using that
    by (auto simp: keeps_def run_on_streams modify_def push_if_flushable_def sm_push_flushable_def waits_out_def
        stream_pending_def cong: option.case_cong)
  have rest: "keeps (left_out sid) (andThen (modify (\<lambda>c. c\<lparr>cn_tx_data := sat_sub64 (cn_tx_data c) n\<rparr>)) (\<lambda>_.
      andThen (on_streams (on_stream k Done (andThen (on_send (pure_act (send_push data))) (\<lambda>_. reads_st (\<lambda>s. s))))) (\<lambda>s'.
      on_streams (modify (push_if_flushable (stream_is_flushable s) k e s')))))"
    if "k = sid \<longrightarrow> stream_is_flushable s" for s n e
    by (intro left_out.core_rules flushable_send_push keeps_modify push that) simp
  show "wp (send_lost_stream k data) (\<lambda>_. left_out sid) (\<lambda>_. left_out sid) c"
    using left_out_live [OF c]
    by (auto simp: send_lost_stream_def wp_andThen [of "reads_st _"] wp_reads_st wp_ret c intro: keeps_wp [OF rest c] split: option.split)
qed

lemma basic_peek_out:
  assumes "waits_out sid m" "sm_peek_flushable ffi bw rtt pid now m = (r, m')"
  shows "waits_out sid m' \<and> r \<noteq> Ok (Some sid)"
proof -
  obtain l where l: "sm_scheduler m = BasicScheduler l" using assms(1) by (auto simp: waits_out_def)
  from basic_peek_shape [OF l assms(2)] assms(1) set_swap_remove_front show ?thesis
    by (fastforce simp: waits_out_def stream_pending_def cong: option.case_cong)
qed

lemma left_out_one_stream: "k \<noteq> sid \<Longrightarrow> keeps (left_out sid) (send_one_stream x si k blk p)"
  unfolding send_one_stream_def
  by (auto intro!: left_out.keeps_send_block_info left_out_other left_out_push left_out.keeps_add keeps_andThen keeps_reads_st
      keeps_ret keeps_lift keeps_whenever keeps_if keeps_modify split: option.split prod.split)

lemma left_out_stream_loop: "keeps (left_out sid) (send_stream_loop x si rounds p)"
proof (induction rounds arbitrary: p)
  case 0
  show ?case
    using basic_peek_out
    by (fastforce simp: keeps_def send_stream_loop.simps [of x si 0] run_rules ret_def split: prod.split res.split option.split)
next
  case (Suc rounds)
  show ?case
  proof (rule keepsI)
    fix c :: "('a, 'b) conn" assume c: "left_out sid c"
    have go: "keeps (left_out sid) (andThen (send_one_stream x si k blk q) (\<lambda>(finished, p).
        if finished then ret (Some p) else send_stream_loop x si rounds p))" if "k \<noteq> sid" for k blk q
      using that by (auto intro!: keeps_andThen left_out_one_stream Suc.IH keeps_if keeps_ret split: prod.split)
    have peek: "wp (on_streams (sm_peek_flushable (x_interface x) (si_bandwidth si) (si_rtt si) (si_pn si) (si_now_ms si)))
        (\<lambda>found t. left_out sid t \<and> found \<noteq> Some sid) (\<lambda>_. left_out sid) c"
      using basic_peek_out [OF c] by (auto simp: wp_def run_on_streams split: prod.split res.split) metis+
    show "wp (send_stream_loop x si (Suc rounds) p) (\<lambda>_. left_out sid) (\<lambda>_. left_out sid) c"
      unfolding send_stream_loop.simps [of x si "Suc rounds"] wp_andThen [of "on_streams _"]
      by (rule wp_mono [OF peek])
        (auto simp: wp_ret wp_andThen [of "reads_st _"] wp_andThen [of "lift _"] wp_reads_st wp_lift Let_def
          intro: keeps_wp [OF go] keeps_wp [OF Suc.IH] split: option.split res.split)
  qed
qed

lemma left_out_streams: "keeps (left_out sid) (send_streams x env ty pn closing p)"
  unfolding send_streams_def
  by (intro keeps_andThen keeps_reads_st keeps_if keeps_lift keeps_ret left_out_stream_loop)

interpretation left_out: conn_send_inv "left_out sid" x for sid x
  by unfold_locales (auto simp: left_out_lost_stream left_out_streams)

interpretation left_out: conn_rx_core "left_out sid" for sid
  by unfold_locales (auto simp: left_out_max_stream_data)

lemma left_out_conn_send: "keeps (left_out sid) (conn_send_with_blocks x env out)"
  unfolding conn_send_with_blocks_def
  by (intro left_out.core_rules left_out.keeps_do_handshake left_out.keeps_send_datagram)

lemma left_out_conn_recv: "keeps (left_out sid) (conn_recv x env bytes)"
  unfolding conn_recv_def by (intro keeps_andThen keeps_ret left_out.keeps_recv_loop keeps_modify) simp

lemma left_out_recv: "keeps (left_out sid) (stream_recv k n)"
proof -
  have full: "stream_change m (if b then sm_mark_almost_full k True m else m)" for b m
    by (simp add: stream_change_refl stream_change_marks)
  have readable: "stream_change m (if b then sm_mark_readable k False m else m)" for b m
    by (simp add: stream_change_refl stream_change_marks)
  have collect: "stream_change m (if b then sm_collect k l m else m)" for b l m
    by (simp add: stream_change_refl stream_change_collect)
  note marks = stream_change_trans [OF stream_change_trans [OF full readable] collect]
  show ?thesis
    unfolding stream_recv_def case_prod_beta Let_def
    by (intro left_out.core_rules keeps_modify marks) simp
qed

lemma left_out_shutdown: "k \<noteq> sid \<or> direction = ShutdownRead \<Longrightarrow> keeps (left_out sid) (stream_shutdown k direction)"
  unfolding stream_shutdown_def
  by (cases direction; simp only: shutdown.case; intro left_out.core_rules left_out_other; simp)

text \<open>No step but the shutdown of its sending side by the application ends this.\<close>

definition conn_step_but :: "('s, 'c, 'p) ext \<Rightarrow> u64 \<Rightarrow> ('s, 'c) conn \<Rightarrow> ('s, 'c) conn \<Rightarrow> bool" where
  "conn_step_but x sid c c' \<longleftrightarrow> conn_step x c c' \<and> (\<forall>r. stream_shutdown sid ShutdownWrite c \<noteq> (r, c'))"

lemma left_out_step:
  assumes "conn_step_but x sid c c'" "left_out sid c"
  shows "left_out sid c'"
proof -
  have "conn_step x c c'" "\<And>r. stream_shutdown sid ShutdownWrite c \<noteq> (r, c')"
    using assms(1) by (auto simp: conn_step_but_def)
  then show ?thesis
    using assms(2)
  proof (induction rule: conn_step.induct)
    case (step_shutdown k direction c r c')
    then have "k \<noteq> sid \<or> direction = ShutdownRead" by (cases direction) auto
    from left_out_shutdown [OF this] step_shutdown show ?case by (metis keeps_def snd_conv)
  next
    case (step_set_tail c tail)
    then show ?case by (simp add: set_tail_def)
  qed (use left_out_conn_recv left_out_conn_send left_out_recv left_out_send_full left_out.keeps_close left_out.keeps_on_timeout in
      \<open>metis keeps_def snd_conv\<close>)+
qed

lemma left_out_run: "(conn_step_but x sid)\<^sup>*\<^sup>* c c' \<Longrightarrow> left_out sid c \<Longrightarrow> left_out sid c'"
  by (induction rule: rtranclp_induct) (auto intro: left_out_step)

lemma send_one_stream_starved:
  assumes "sm_streams m sid = Some s" "\<not> send_is_new (st_send s)" "cn_max_tx_data c - cn_tx_data c < 4"
    and "MAX_STREAM_OVERHEAD < bp_left p" "fc_fec (cn_fec c) = None" "varint_ok sid" "varint_ok (send_off (st_send s))"
  shows "send_one_stream x si sid blk p (c\<lparr>cn_streams := m\<rparr>) = (Ok (False, p), c\<lparr>cn_streams := m\<rparr>)"
proof -
  let ?max = "min (bp_left p) (cn_max_tx_data c - cn_tx_data c)"
  have small: "?max < 4" using assms(3) by (simp add: min.strict_coboundedI2)
  then have "varint_ok ?max" by (auto simp: varint_ok_def word_less_nat_alt)
  from overhead_at_least [OF assms(6,7) this] obtain n where n: "stream_overhead sid (send_off (st_send s)) ?max = Ok n" "4 \<le> n"
    by blast
  then have "\<not> n \<le> ?max" using small by (meson leD order_trans)
  then have sub: "checked_sub ?max n = None" by (simp only: checked_sub_def if_False)
  show ?thesis
    using assms(1,2,4,5) n(1) sub
    by (simp add: send_one_stream_def andThen_Ok [OF send_block_info_old] run_rules stream_max_len_def Let_def ret_def)
qed

text \<open>C34. With the basic scheduler a stream can be left out for good. When the credit of the connection is smaller
  than the overhead of a stream frame, \<open>send\<close> takes the waiting stream out of the queue, sends nothing of it and
  goes on with the next round. After this call of \<open>send\<close> the stream still has data to send, but is not in the queue, and
  that stays so in every run of the connection, from any credit: no data that the application adds, no
  \<open>MAX_DATA\<close> or \<open>MAX_STREAM_DATA\<close>, no acknowledgement, lost packet or later \<open>send\<close> puts it back. Only the shutdown
  of the stream's sending side by the application ends this; a stream that is collected does not come back.\<close>

theorem starved_stream_leaves_queue:
  assumes "sm_scheduler (cn_streams c) = BasicScheduler l"
    and "sm_peek_flushable (x_interface x) (si_bandwidth si) (si_rtt si) (si_pn si) (si_now_ms si) (cn_streams c) = (Ok (Some sid), m)"
    and "sid \<notin> set (sm_flushable m)" and "sm_get_block sid m = Ok blk"
    and "sm_streams m sid = Some s" and "stream_is_flushable s" and "\<not> send_is_new (st_send s)"
    and "cn_max_tx_data c - cn_tx_data c < 4" and "MAX_STREAM_OVERHEAD < bp_left p" and "fc_fec (cn_fec c) = None"
    and "varint_ok sid" and "varint_ok (send_off (st_send s))"
  shows "send_stream_loop x si (Suc rounds) p c
      = send_stream_loop x si rounds (p\<lparr>bp_blocks := bp_blocks p @ [blk]\<rparr>) (c\<lparr>cn_streams := m\<rparr>)
    \<and> (cn_streams c1 = cn_streams (snd (send_stream_loop x si (Suc rounds) p c)) \<longrightarrow>
       (conn_step_but x sid)\<^sup>*\<^sup>* c1 c2 \<longrightarrow> waits_out sid (cn_streams c2))"
proof (intro conjI impI)
  let ?c = "c\<lparr>cn_streams := m\<rparr>" and ?p = "p\<lparr>bp_blocks := bp_blocks p @ [blk]\<rparr>"
  show skip: "send_stream_loop x si (Suc rounds) p c = send_stream_loop x si rounds ?p ?c"
    using assms(2,4,5) send_one_stream_starved [OF assms(5,7,8), of "?p" x si blk] assms(9-12)
    by (simp add: send_stream_loop.simps [of x si "Suc rounds"] run_rules Let_def andThen_run [of "send_one_stream _ _ _ _ _"])
  have "left_out sid ?c"
    using basic_peek_shape [OF assms(1,2)] assms(3,5,6) by (auto simp: waits_out_def stream_pending_def)
  then have out: "left_out sid (snd (send_stream_loop x si (Suc rounds) p c))"
    unfolding skip using left_out_stream_loop [of sid x si rounds ?p] by (auto simp: keeps_def)
  assume "cn_streams c1 = cn_streams (snd (send_stream_loop x si (Suc rounds) p c))" "(conn_step_but x sid)\<^sup>*\<^sup>* c1 c2"
  with left_out_run [of x sid c1 c2] out show "waits_out sid (cn_streams c2)" by simp
qed

text \<open>One stream with a byte to send and a credit of two bytes.\<close>

definition starved_map :: stream_map where
  "starved_map =
     (let s = stream_new_full 0 0 10000 10000 True True 4000 1 0 in
      (sm_new False True 2 2 SchedBasic)\<lparr>sm_flushable := [4],
        sm_streams := [4 \<mapsto> s\<lparr>st_send := (st_send s)\<lparr>sb_new := False, sb_len := 1, sb_off := 1,
          sb_data := [\<lparr>rb_data = [7], rb_off = 0, rb_fin = False\<rparr>]\<rparr>\<rparr>]\<rparr>)"

lemma starved_stream_leaves_queue_witness:
  "\<exists>c'. send_stream_loop (example_ext 0) example_info (Suc 0) full_packet
       ((example_conn True)\<lparr>cn_streams := starved_map, cn_max_tx_data := 2\<rparr>)
     = (Ok (Some (full_packet\<lparr>bp_blocks := [\<lparr>blk_id = 4, blk_deadline = 4000, blk_priority = 1, blk_create_time = 0, blk_size = 1,
         blk_remaining = 1\<rparr>]\<rparr>)), c')
     \<and> (\<forall>c2. (conn_step_but (example_ext 0) 4)\<^sup>*\<^sup>* (c'\<lparr>cn_max_tx_data := 1000000\<rparr>) c2 \<longrightarrow> waits_out 4 (cn_streams c2))"
proof -
  let ?c = "(example_conn True)\<lparr>cn_streams := starved_map, cn_max_tx_data := 2\<rparr>"
  let ?m = "starved_map\<lparr>sm_scheduler := BasicScheduler (Some 4), sm_flushable := []\<rparr>"
  let ?b = "\<lparr>blk_id = 4, blk_deadline = 4000, blk_priority = 1, blk_create_time = 0, blk_size = 1, blk_remaining = 1\<rparr> :: block"
  obtain s where s: "sm_streams starved_map 4 = Some s" "sb_start_time (st_send s) = Some 0" "sb_deadline (st_send s) = 4000"
    "sb_priority (st_send s) = 1" "sb_len (st_send s) = 1" "send_block_size (st_send s) = 1" "\<not> send_is_new (st_send s)"
    "stream_is_flushable s" "send_off (st_send s) = 0"
    by (simp add: starved_map_def Let_def stream_new_full_def send_new_full_def send_block_size_def send_is_new_def
        stream_is_flushable_def send_ready_def send_off_def bh_peek_def)
  have b: "sm_get_block 4 starved_map = Ok ?b" "sm_get_block 4 ?m = Ok ?b"
    using s by (simp_all add: sm_get_block_def sm_get_def)
  have q: "sm_flushable starved_map = [4]" "sm_scheduler starved_map = BasicScheduler None"
    by (simp_all add: starved_map_def Let_def sm_new_def scheduler_init_def new_scheduler_def)
  have peek: "sm_peek_flushable (x_interface (example_ext 0)) (si_bandwidth example_info) (si_rtt example_info) (si_pn example_info) (si_now_ms example_info)
      (cn_streams ?c) = (Ok (Some 4), ?m)"
    using b q by (simp add: sm_peek_flushable_def sm_has_flushable_def should_drop_block_def select_block_def
        basic_select_block_def swap_remove_front_def)
  have credit: "cn_max_tx_data ?c - cn_tx_data ?c < 4" "fc_fec (cn_fec ?c) = None"
    by (simp_all add: example_conn_def conn_init_def Let_def fec_conn_new_def)
  let ?loop = "send_stream_loop (example_ext 0) example_info (Suc 0) full_packet ?c"
  note starved = starved_stream_leaves_queue [where rounds = 0, OF _ peek _ b(2) _ s(8,7) credit(1) _ credit(2)]
  have "?loop = (Ok (Some (full_packet\<lparr>bp_blocks := bp_blocks full_packet @ [?b]\<rparr>)), ?c\<lparr>cn_streams := ?m\<rparr>)"
    using starved [where l = None and p = full_packet] s q by (simp add: loop_empty full_packet_def MAX_STREAM_OVERHEAD_def varint_ok_def)
  moreover have "(conn_step_but (example_ext 0) 4)\<^sup>*\<^sup>* ((snd ?loop)\<lparr>cn_max_tx_data := 1000000\<rparr>) c2 \<longrightarrow> waits_out 4 (cn_streams c2)" for c2
    using starved [where l = None and p = full_packet and ?c1.0 = "(snd ?loop)\<lparr>cn_max_tx_data := 1000000\<rparr>" and ?c2.0 = c2] s q
    by (simp add: full_packet_def MAX_STREAM_OVERHEAD_def varint_ok_def)
  ultimately show ?thesis by (auto simp: full_packet_def)
qed

section \<open>Flow control counts a retransmission again\<close>

lemma process_stream_counts:
  assumes "sm_streams (cn_streams c) sid = Some s" "process_stream env sid data c = (Ok (), c1)"
  shows "cn_rx_data c1 = cn_rx_data c + of_nat (rb_len data) \<and> cn_max_rx_data_next c1 = cn_max_rx_data_next c
    \<and> cn_max_rx_data c1 = cn_max_rx_data c \<and> (\<exists>s'. sm_streams (cn_streams c1) sid = Some s')"
proof -
  have "wp (process_stream env sid data) (\<lambda>_ c1. cn_rx_data c1 = cn_rx_data c + of_nat (rb_len data)
      \<and> cn_max_rx_data_next c1 = cn_max_rx_data_next c \<and> cn_max_rx_data c1 = cn_max_rx_data c
      \<and> (\<exists>s'. sm_streams (cn_streams c1) sid = Some s')) (\<lambda>_ _. True) c"
    using assms(1)
    by (auto simp: process_stream_def peer_may_send_def get_or_create_stream_def wp_rules wp_get_existing
        on_streams_def on_recv_def Let_def sm_mark_readable_def split: res.split)
  with assms(2) show ?thesis by (simp add: wp_def)
qed

lemma process_stream_accepts:
  assumes "sm_streams (cn_streams c) sid = Some s" "is_bidi sid" "cn_rx_data c + of_nat (rb_len data) \<le> cn_max_rx_data c"
    and "recv_push_evaluation (en_recv_clock env) data (st_recv s) = Ok r"
  shows "\<exists>c1. process_stream env sid data c = (Ok (), c1) \<and> sm_streams (cn_streams c1) sid = Some (s\<lparr>st_recv := r\<rparr>)
    \<and> cn_rx_data c1 = cn_rx_data c + of_nat (rb_len data) \<and> cn_max_rx_data c1 = cn_max_rx_data c"
proof -
  have "wp (process_stream env sid data) (\<lambda>_ c1. sm_streams (cn_streams c1) sid = Some (s\<lparr>st_recv := r\<rparr>)
      \<and> cn_rx_data c1 = cn_rx_data c + of_nat (rb_len data) \<and> cn_max_rx_data c1 = cn_max_rx_data c) (\<lambda>_ _. False) c"
    using assms
    by (auto simp: process_stream_def peer_may_send_def get_or_create_stream_def wp_rules wp_get_existing
        on_streams_def on_recv_def Let_def sm_mark_readable_def not_less split: res.split)
  then show ?thesis by (auto simp: wp_def split: prod.splits res.splits)
qed

text \<open>C35. A retransmission is counted again: a \<open>STREAM\<close> frame that is processed twice adds its length twice to the
  data received on the connection, although it brings no new data, and neither limit of the connection moves;
  the limit only grows by what the application reads.\<close>

theorem retransmission_counted_again:
  assumes "sm_streams (cn_streams c) sid = Some s"
    and "process_stream env sid data c = (Ok (), c1)" and "process_stream env' sid data c1 = (Ok (), c2)"
  shows "cn_rx_data c2 = cn_rx_data c + 2 * of_nat (rb_len data)
    \<and> cn_max_rx_data c2 = cn_max_rx_data c \<and> cn_max_rx_data_next c2 = cn_max_rx_data_next c"
proof -
  note 1 = process_stream_counts [OF assms(1,2)]
  then obtain s' where "sm_streams (cn_streams c1) sid = Some s'" by blast
  from process_stream_counts [OF this assms(3)] 1 show ?thesis by simp
qed

lemma retransmission_counted_again_witness:
  "\<exists>c2 :: (unit, unit) conn. fst (process_stream (quiet_env 0) 4 \<lparr>rb_data = [1, 2, 3], rb_off = 0, rb_fin = False\<rparr> c2) = Err FlowControl
     \<and> cn_rx_data c2 = 6"
proof -
  let ?s = "stream_new_full 0 0 10000 10000 True True 4000 1 0"
  let ?c = "(example_conn True)\<lparr>cn_max_rx_data := 8, cn_streams := (sm_new False True 2 2 SchedBasic)\<lparr>sm_streams := [4 \<mapsto> ?s]\<rparr>\<rparr>"
  let ?d = "\<lparr>rb_data = [1, 2, 3], rb_off = 0, rb_fin = False\<rparr> :: range_buf"
  let ?push = "recv_push_evaluation (\<lambda>_. 0) ?d"
  have "is_ok (bnd (?push (st_recv ?s)) ?push)" by code_simp
  then obtain r1 r2 where r: "?push (st_recv ?s) = Ok r1" "?push r1 = Ok r2"
    by (auto simp: is_ok_def split: res.splits)
  have c: "cn_rx_data ?c = 0" "cn_max_rx_data ?c = 8" "sm_streams (cn_streams ?c) 4 = Some ?s"
    by (simp_all add: example_conn_def conn_init_def Let_def)
  have clock: "en_recv_clock (quiet_env 0) = (\<lambda>_. 0)" and len: "rb_len ?d = 3" and bidi: "is_bidi 4"
    by (simp_all add: quiet_env_def rb_len_def is_bidi_def)
  from process_stream_accepts [of ?c 4 ?s ?d "quiet_env 0" r1] r(1) c clock len bidi obtain c1 where
    1: "process_stream (quiet_env 0) 4 ?d ?c = (Ok (), c1)" "sm_streams (cn_streams c1) 4 = Some (?s\<lparr>st_recv := r1\<rparr>)"
    "cn_rx_data c1 = 3" "cn_max_rx_data c1 = 8" by auto
  from process_stream_accepts [of c1 4 "?s\<lparr>st_recv := r1\<rparr>" ?d "quiet_env 0" r2] r(2) 1 clock len bidi obtain c2 where
    2: "process_stream (quiet_env 0) 4 ?d c1 = (Ok (), c2)" "cn_rx_data c2 = 6" "cn_max_rx_data c2 = 8" by auto
  have "fst (process_stream (quiet_env 0) 4 ?d c2) = Err FlowControl"
    using 2 len bidi by (simp add: process_stream_def peer_may_send_def andThen_run act_defs Let_def)
  with retransmission_counted_again [OF c(3) 1(1) 2(1)] c(1) len show ?thesis by auto
qed

section \<open>Repeated resets\<close>

text \<open>C36. A repeated \<open>RESET_STREAM\<close> of a missed deadline (code 1) is refused with \<open>Done\<close>: processing stops at it, so
  that the frames behind it in the packet are dropped and the packet is neither recorded nor acknowledged,
  and the peer sends them again.\<close>

theorem repeated_reset_refused:
  assumes "sm_streams (cn_streams c) sid = Some s"
    and "process_frame x env (ResetStream sid 1 n) e now c = (Ok (), c1)"
    and "frame_from_bytes ty b = Ok (ResetStream sid 1 n, b')"
  shows "\<exists>c2. process_payload x envs i ty e now' elicited b c1 = (Err Done, c2)
    \<and> cn_spaces c2 = cn_spaces c1 \<and> cn_rx_data c2 = cn_rx_data c1"
proof -
  have "wp (process_frame x env (ResetStream sid 1 n) e now) (\<lambda>_ c1. (is_bidi sid \<or> \<not> is_local sid (cn_is_server c1))
      \<and> (\<exists>s'. sm_streams (cn_streams c1) sid = Some s' \<and> rv_drain (st_recv s'))) (\<lambda>_ _. True) c"
    using assms(1)
    by (auto simp: process_frame_def process_reset_def peer_may_send_def get_or_create_stream_def wp_rules wp_get_existing
        on_streams_def on_recv_def recv_shutdown_def recv_reset_def split: res.split)
  with assms(2) obtain s' where c1: "is_bidi sid \<or> \<not> is_local sid (cn_is_server c1)"
    "sm_streams (cn_streams c1) sid = Some s'" "rv_drain (st_recv s')" by (auto simp: wp_def)
  have "wp (process_frame x (envs i) (ResetStream sid 1 n) e now') (\<lambda>_ _. False)
      (\<lambda>err c2. err = Some Done \<and> cn_spaces c2 = cn_spaces c1 \<and> cn_rx_data c2 = cn_rx_data c1) c1"
    using c1
    by (auto simp: process_frame_def process_reset_def peer_may_send_def get_or_create_stream_def wp_rules wp_get_existing
        on_streams_def on_recv_def recv_shutdown_def split: res.split)
  moreover have "0 < cap b" using frame_progress [OF assms(3)] by simp
  ultimately show ?thesis
    using assms(3) by (auto simp: process_payload.simps [of x envs i] andThen_run wp_def split: prod.splits res.splits)
qed

lemma repeated_reset_refused_witness:
  "\<exists>c1 c2. process_frame (example_ext 0) (quiet_env 0) (ResetStream 4 1 0) EPOCH_APPLICATION 0
       ((example_conn True)\<lparr>cn_streams := starved_map\<rparr>) = (Ok (), c1)
     \<and> process_payload (example_ext 0) (\<lambda>_. quiet_env 1) 0 Short EPOCH_APPLICATION 1 False (with_slice [4, 4, 0, 1, 0, 1]) c1 = (Err Done, c2)"
proof -
  let ?c = "(example_conn True)\<lparr>cn_streams := starved_map\<rparr>"
  obtain s where s: "sm_streams (cn_streams ?c) 4 = Some s" "\<not> rv_drain (st_recv s)" "rv_fin_off (st_recv s) = None"
    "rv_len (st_recv s) = 0"
    by (simp add: starved_map_def Let_def stream_new_full_def recv_new_def)
  have "wp (process_frame (example_ext 0) (quiet_env 0) (ResetStream 4 1 0) EPOCH_APPLICATION 0) (\<lambda>_ _. True) (\<lambda>_ _. False) ?c"
    using s by (auto simp: process_frame_def process_reset_def peer_may_send_def get_or_create_stream_def wp_rules wp_get_existing
        on_streams_def on_recv_def recv_shutdown_def recv_reset_def is_bidi_def example_conn_def conn_init_def Let_def)
  then obtain c1 where 1: "process_frame (example_ext 0) (quiet_env 0) (ResetStream 4 1 0) EPOCH_APPLICATION 0 ?c = (Ok (), c1)"
    by (auto simp: wp_def split: prod.splits res.splits)
  have "frame_from_bytes Short (with_slice [4, 4, 0, 1, 0, 1])
      = Ok (ResetStream 4 1 0, \<lparr>buf = [4, 4, 0, 1, 0, 1], off = 5\<rparr>)" by code_simp
  from repeated_reset_refused [OF s(1) 1 this, of "\<lambda>_. quiet_env 1" 0 1 False] 1 show ?thesis by blast
qed

end
