(* ===== verification/H3Stream.thy ===== *)
theory H3Stream
  imports Effects H3Frame Streams
begin

text \<open>
  The parser of an HTTP/3 stream (\<open>src/h3/stream.rs\<close>): a state machine that collects bytes of the transport
  stream in a state buffer until the current state is complete. Its operations are actions, because they
  keep what they changed when they fail. Reading from the transport is in H3Conn.
\<close>

section \<open>State\<close>

definition HTTP3_CONTROL_STREAM_TYPE_ID :: u64 where "HTTP3_CONTROL_STREAM_TYPE_ID = 0x0"
definition HTTP3_PUSH_STREAM_TYPE_ID :: u64 where "HTTP3_PUSH_STREAM_TYPE_ID = 0x1"
definition QPACK_ENCODER_STREAM_TYPE_ID :: u64 where "QPACK_ENCODER_STREAM_TYPE_ID = 0x2"
definition QPACK_DECODER_STREAM_TYPE_ID :: u64 where "QPACK_DECODER_STREAM_TYPE_ID = 0x3"
definition MAX_STATE_BUF_SIZE :: nat where "MAX_STATE_BUF_SIZE = 2 ^ 24 - 1"

datatype h3_type = TControl | TRequest | TPush | TQpackEncoder | TQpackDecoder | TUnknown

datatype h3_state = StreamType | FrameType | FramePayloadLen | FramePayload | DataPayload | PushId | QpackInstruction | Drain

text \<open>\<open>Type::deserialize\<close>.\<close>

definition h3_type_of :: "u64 \<Rightarrow> h3_type" where
  "h3_type_of v =
     (if v = HTTP3_CONTROL_STREAM_TYPE_ID then TControl
      else if v = HTTP3_PUSH_STREAM_TYPE_ID then TPush
      else if v = QPACK_ENCODER_STREAM_TYPE_ID then TQpackEncoder
      else if v = QPACK_DECODER_STREAM_TYPE_ID then TQpackDecoder
      else TUnknown)"

record h3_stream =
  hs_id :: u64
  hs_ty :: "h3_type option"
  hs_state :: h3_state
  hs_buf :: "u8 list"
  hs_len :: nat
  hs_off :: nat
  hs_frame_type :: "u64 option"
  hs_is_local :: bool
  hs_initialized :: bool

definition h3_stream_new :: "u64 \<Rightarrow> bool \<Rightarrow> h3_stream" where
  "h3_stream_new sid loc =
     (let (ty, state) = (if is_bidi sid then (Some TRequest, FrameType) else (None, StreamType)) in
      \<lparr>hs_id = sid, hs_ty = ty, hs_state = state, hs_buf = replicate 16 0, hs_len = 1, hs_off = 0,
       hs_frame_type = None, hs_is_local = loc, hs_initialized = False\<rparr>)"

section \<open>Transitions\<close>

type_synonym 'a hs_act = "(h3_stream, h3_error, 'a) eact"

text \<open>\<open>Vec::resize(n, 0)\<close>.\<close>

definition resize_buf :: "nat \<Rightarrow> u8 list \<Rightarrow> u8 list" where
  "resize_buf n xs = take n xs @ replicate (n - length xs) 0"

definition state_transition :: "h3_state \<Rightarrow> nat \<Rightarrow> bool \<Rightarrow> unit hs_act" where
  "state_transition new_state expected_len resize =
     andThen (modify (\<lambda>s. s\<lparr>hs_state := new_state, hs_off := 0, hs_len := expected_len\<rparr>)) (\<lambda>_.
     whenever resize
       (andThen (fail_if (expected_len > MAX_STATE_BUF_SIZE) H3InternalError) (\<lambda>_.
        modify (\<lambda>s. s\<lparr>hs_buf := resize_buf expected_len (hs_buf s)\<rparr>))))"

text \<open>\<open>assert_eq!(self.state, state)\<close>.\<close>

definition assert_state :: "h3_state \<Rightarrow> unit hs_act" where
  "assert_state state = andThen (reads_st hs_state) (\<lambda>st. if st = state then ret () else lift Panic)"

definition set_ty :: "h3_type \<Rightarrow> unit hs_act" where
  "set_ty ty =
     andThen (assert_state StreamType) (\<lambda>_.
     andThen (modify (\<lambda>s. s\<lparr>hs_ty := Some ty\<rparr>)) (\<lambda>_.
     andThen (whenever (ty = TQpackEncoder \<or> ty = TQpackDecoder) (modify (\<lambda>s. s\<lparr>hs_initialized := True\<rparr>))) (\<lambda>_.
     state_transition
       (case ty of TControl \<Rightarrow> FrameType | TRequest \<Rightarrow> FrameType | TPush \<Rightarrow> PushId
        | TQpackEncoder \<Rightarrow> QpackInstruction | TQpackDecoder \<Rightarrow> QpackInstruction | TUnknown \<Rightarrow> Drain) 1 True)))"

definition set_push_id :: "u64 \<Rightarrow> unit hs_act" where
  "set_push_id push_id = andThen (assert_state PushId) (\<lambda>_. state_transition FrameType 1 True)"

text \<open>The check of a frame type against the stream it arrives on: an error, or whether the stream becomes
  initialized by it.\<close>

definition check_frame_type :: "u64 \<Rightarrow> h3_stream \<Rightarrow> bool h3_result" where
  "check_frame_type ty s =
     (case hs_ty s of
        Some TControl \<Rightarrow>
          if \<not> hs_initialized s then (if ty = SETTINGS_FRAME_TYPE_ID then Ok True else Err H3MissingSettings)
          else if ty \<in> {SETTINGS_FRAME_TYPE_ID, DATA_FRAME_TYPE_ID, HEADERS_FRAME_TYPE_ID, PUSH_PROMISE_FRAME_TYPE_ID,
                        DUPLICATE_PUSH_FRAME_TYPE_ID} then Err H3FrameUnexpected
          else Ok False
      | Some TRequest \<Rightarrow>
          if hs_is_local s then Ok False
          else if ty = HEADERS_FRAME_TYPE_ID \<and> \<not> hs_initialized s then Ok True
          else if ty \<in> {CANCEL_PUSH_FRAME_TYPE_ID, SETTINGS_FRAME_TYPE_ID, GOAWAY_FRAME_TYPE_ID, MAX_PUSH_FRAME_TYPE_ID}
          then Err H3FrameUnexpected
          else Ok False
      | Some TPush \<Rightarrow>
          if ty \<in> {CANCEL_PUSH_FRAME_TYPE_ID, SETTINGS_FRAME_TYPE_ID, PUSH_PROMISE_FRAME_TYPE_ID, GOAWAY_FRAME_TYPE_ID,
                   MAX_PUSH_FRAME_TYPE_ID, DUPLICATE_PUSH_FRAME_TYPE_ID} then Err H3FrameUnexpected
          else Ok False
      | _ \<Rightarrow> Err H3FrameUnexpected)"

definition set_frame_type :: "u64 \<Rightarrow> unit hs_act" where
  "set_frame_type ty =
     andThen (assert_state FrameType) (\<lambda>_.
     andThen (reads_st (check_frame_type ty)) (\<lambda>check.
     andThen (lift check) (\<lambda>initialize.
     andThen (modify (\<lambda>s. s\<lparr>hs_initialized := hs_initialized s \<or> initialize, hs_frame_type := Some ty\<rparr>)) (\<lambda>_.
     state_transition FramePayloadLen 1 True))))"

definition set_frame_payload_len :: "u64 \<Rightarrow> unit hs_act" where
  "set_frame_payload_len len =
     andThen (assert_state FramePayloadLen) (\<lambda>_.
     andThen (reads_st (\<lambda>s. s)) (\<lambda>s.
     if hs_ty s = Some TControl \<or> hs_ty s = Some TRequest \<or> hs_ty s = Some TPush
     then if hs_frame_type s = Some DATA_FRAME_TYPE_ID then state_transition DataPayload (unat len) False
          else state_transition FramePayload (unat len) True
     else throw H3InternalError))"

section \<open>Filling and consuming the state buffer\<close>

definition state_buffer_complete :: "h3_stream \<Rightarrow> bool" where
  "state_buffer_complete s \<longleftrightarrow> hs_off s = hs_len s"

text \<open>The length of \<open>&mut self.state_buf[self.state_off..self.state_len]\<close>, and what \<open>try_fill_buffer\<close> does with the
  bytes that were read into it.\<close>

definition fill_room :: "nat hs_act" where
  "fill_room = andThen (reads_st (\<lambda>s. s)) (\<lambda>s.
     if hs_off s \<le> hs_len s \<and> hs_len s \<le> length (hs_buf s) then ret (hs_len s - hs_off s) else lift Panic)"

definition filled :: "u8 list \<Rightarrow> unit hs_act" where
  "filled data =
     andThen (modify (\<lambda>s. s\<lparr>hs_buf := take (hs_off s) (hs_buf s) @ data @ drop (hs_off s + length data) (hs_buf s),
                            hs_off := hs_off s + length data\<rparr>)) (\<lambda>_.
     andThen (reads_st state_buffer_complete) (\<lambda>complete. fail_if (\<not> complete) H3Done))"

definition try_consume_varint :: "u64 hs_act" where
  "try_consume_varint =
     andThen (reads_st (\<lambda>s. s)) (\<lambda>s.
     andThen (if hs_off s = 1
              then andThen (lift (if hs_buf s = [] then Panic else h3_transport (varint_parse_len (hs_buf s ! 0)))) (\<lambda>n.
                   modify (\<lambda>s. s\<lparr>hs_len := n, hs_buf := resize_buf n (hs_buf s)\<rparr>))
              else ret ()) (\<lambda>_.
     andThen (reads_st state_buffer_complete) (\<lambda>complete.
     andThen (fail_if (\<not> complete) H3Done) (\<lambda>_.
     andThen (reads_st (\<lambda>s. h3_short (get_varint (with_slice (hs_buf s))))) (\<lambda>r.
     andThen (lift r) (\<lambda>(v, _). ret v))))))"

definition try_consume_frame :: "h3_frame hs_act" where
  "try_consume_frame =
     andThen (reads_st (\<lambda>s. s)) (\<lambda>s.
     andThen (lift (case hs_frame_type s of
         None \<Rightarrow> Panic | Some ty \<Rightarrow> h3_frame_from_bytes ty (of_nat (hs_len s)) (hs_buf s))) (\<lambda>f.
     andThen (state_transition FrameType 1 True) (\<lambda>_. ret f)))"

text \<open>The room that \<open>try_consume_data\<close> has for an output of \<open>n\<close> bytes, and its end after \<open>k\<close> bytes were read.
  The subtraction of sizes wraps around.\<close>

definition data_room :: "nat \<Rightarrow> h3_stream \<Rightarrow> nat" where
  "data_room n s = min n (unat (of_nat (hs_len s) - of_nat (hs_off s) :: u64))"

definition data_consumed :: "nat \<Rightarrow> unit hs_act" where
  "data_consumed k =
     andThen (modify (\<lambda>s. s\<lparr>hs_off := hs_off s + k\<rparr>)) (\<lambda>_.
     andThen (reads_st state_buffer_complete) (\<lambda>complete.
     whenever complete (state_transition FrameType 1 True)))"

end
