(* ===== verification/H3Conn.thy ===== *)
theory H3Conn
  imports H3Stream Qpack ConnLife
begin

text \<open>
  The HTTP/3 connection (\<open>Connection\<close> of \<open>src/h3/mod.rs\<close>) on top of the transport. Its operations are actions on
  the pair of the two connections. The random numbers behind the greasing values are the argument
  \<open>rnd\<close>, and the readings of the clock at which streams are created the environments.
\<close>

section \<open>State\<close>

record h3_config =
  hcf_max_header_list_size :: "u64 option"
  hcf_qpack_max_table_capacity :: "u64 option"
  hcf_qpack_blocked_streams :: "u64 option"

definition h3_config_new :: h3_config where
  "h3_config_new = \<lparr>hcf_max_header_list_size = None, hcf_qpack_max_table_capacity = None, hcf_qpack_blocked_streams = None\<rparr>"

definition h3_set_max_header_list_size :: "u64 \<Rightarrow> h3_config \<Rightarrow> h3_config" where
  "h3_set_max_header_list_size v cf = cf\<lparr>hcf_max_header_list_size := Some v\<rparr>"

definition h3_set_qpack_max_table_capacity :: "u64 \<Rightarrow> h3_config \<Rightarrow> h3_config" where
  "h3_set_qpack_max_table_capacity v cf = cf\<lparr>hcf_qpack_max_table_capacity := Some v\<rparr>"

definition h3_set_qpack_blocked_streams :: "u64 \<Rightarrow> h3_config \<Rightarrow> h3_config" where
  "h3_set_qpack_blocked_streams v cf = cf\<lparr>hcf_qpack_blocked_streams := Some v\<rparr>"

datatype h3_event = EvHeaders "h3_header list" bool | EvData | EvFinished

record h3_settings =
  set_max_header_list_size :: "u64 option"
  set_qpack_max_table_capacity :: "u64 option"
  set_qpack_blocked_streams :: "u64 option"

record h3_conn =
  hc_is_server :: bool
  hc_highest_request :: u64
  hc_highest_uni :: u64
  hc_streams :: "u64 \<rightharpoonup> h3_stream"
  hc_local_settings :: h3_settings
  hc_peer_settings :: h3_settings
  hc_control :: "u64 option"
  hc_peer_control :: "u64 option"
  hc_local_encoder :: "u64 option"
  hc_local_decoder :: "u64 option"
  hc_peer_encoder :: "u64 option"
  hc_peer_decoder :: "u64 option"
  hc_max_push_id :: u64
  hc_finished :: "u64 list"
  hc_greased :: bool

definition h3_conn_new :: "h3_config \<Rightarrow> bool \<Rightarrow> h3_conn" where
  "h3_conn_new cf is_server =
     \<lparr>hc_is_server = is_server, hc_highest_request = 0, hc_highest_uni = (if is_server then 3 else 2),
      hc_streams = (\<lambda>_. None),
      hc_local_settings = \<lparr>set_max_header_list_size = hcf_max_header_list_size cf,
        set_qpack_max_table_capacity = hcf_qpack_max_table_capacity cf,
        set_qpack_blocked_streams = hcf_qpack_blocked_streams cf\<rparr>,
      hc_peer_settings = \<lparr>set_max_header_list_size = None, set_qpack_max_table_capacity = None,
        set_qpack_blocked_streams = None\<rparr>,
      hc_control = None, hc_peer_control = None, hc_local_encoder = None, hc_local_decoder = None,
      hc_peer_encoder = None, hc_peer_decoder = None, hc_max_push_id = 0, hc_finished = [], hc_greased = False\<rparr>"

type_synonym ('s, 'c) h3_world = "h3_conn \<times> ('s, 'c) conn"
type_synonym ('s, 'c, 'a) h3_act = "(('s, 'c) h3_world, h3_error, 'a) eact"

text \<open>A call of the transport, whose error is converted by \<open>?\<close>; reading and changing the HTTP/3 part; an action on
  an HTTP/3 stream.\<close>

definition transport :: "(('s, 'c) conn, 'a) act \<Rightarrow> ('s, 'c, 'a) h3_act" where
  "transport m = (\<lambda>(h, c). case m c of (r, c) \<Rightarrow> (h3_transport r, (h, c)))"

definition h3_reads :: "(h3_conn \<Rightarrow> 'a) \<Rightarrow> ('s, 'c, 'a) h3_act" where
  "h3_reads g = reads_st (\<lambda>(h, c). g h)"

definition quic_reads :: "(('s, 'c) conn \<Rightarrow> 'a) \<Rightarrow> ('s, 'c, 'a) h3_act" where
  "quic_reads g = reads_st (\<lambda>(h, c). g c)"

definition h3_modify :: "(h3_conn \<Rightarrow> h3_conn) \<Rightarrow> ('s, 'c, unit) h3_act" where
  "h3_modify g = modify (\<lambda>(h, c). (g h, c))"

definition on_h3_stream :: "u64 \<Rightarrow> 'a hs_act \<Rightarrow> ('s, 'c, 'a) h3_act" where
  "on_h3_stream sid m = (\<lambda>(h, c). case hc_streams h sid of
     None \<Rightarrow> (Err H3Done, (h, c))
   | Some s \<Rightarrow> (case m s of (r, s) \<Rightarrow> (r, (h\<lparr>hc_streams := (hc_streams h)(sid \<mapsto> s)\<rparr>, c))))"

text \<open>\<open>conn.close(true, e.to_wire(), reason)?; return Err(e)\<close>.\<close>

definition close_err :: "h3_error \<Rightarrow> string \<Rightarrow> ('s, 'c, 'a) h3_act" where
  "close_err e reason = andThen (transport (conn_close True (h3_to_wire e) (bytes_of reason))) (\<lambda>_. throw e)"

text \<open>\<open>b.put_varint(v)?\<close> as a slice, with the buffer.\<close>

definition put_slice :: "u64 \<Rightarrow> octets \<Rightarrow> (u8 list \<times> octets) h3_result" where
  "put_slice v b =
     bnd (h3_short (put_varint v b)) (\<lambda>b'. Ok (take (off b' - off b) (drop (off b) (buf b')), b'))"

definition grease_value :: "u64 \<Rightarrow> u64" where
  "grease_value n = 31 * n + 33"

section \<open>Opening streams\<close>

definition get_available_request_stream :: "('s, 'c, u64) h3_act" where
  "get_available_request_stream =
     andThen (h3_reads hc_highest_request) (\<lambda>v.
     andThen (fail_if (\<not> v < - 1) H3IdError) (\<lambda>_.
     andThen (h3_modify (\<lambda>h. h\<lparr>hc_highest_request := v + 4\<rparr>)) (\<lambda>_. ret v)))"

definition get_available_uni_stream :: "('s, 'c, u64) h3_act" where
  "get_available_uni_stream =
     andThen (h3_reads hc_highest_uni) (\<lambda>v.
     andThen (fail_if (\<not> v < - 1) H3IdError) (\<lambda>_.
     andThen (h3_modify (\<lambda>h. h\<lparr>hc_highest_uni := v + 4\<rparr>)) (\<lambda>_. ret v)))"

definition open_uni_stream :: "conn_env \<Rightarrow> u64 \<Rightarrow> ('s, 'c, u64) h3_act" where
  "open_uni_stream env ty =
     andThen get_available_uni_stream (\<lambda>sid.
     andThen (lift (put_slice ty (with_slice (replicate 8 0)))) (\<lambda>(bytes, _).
     andThen (transport (stream_send env sid bytes False)) (\<lambda>_. ret sid)))"

definition open_qpack_encoder_stream :: "conn_env \<Rightarrow> ('s, 'c, unit) h3_act" where
  "open_qpack_encoder_stream env =
     andThen (open_uni_stream env QPACK_ENCODER_STREAM_TYPE_ID) (\<lambda>sid.
     h3_modify (\<lambda>h. h\<lparr>hc_local_encoder := Some sid\<rparr>))"

definition open_qpack_decoder_stream :: "conn_env \<Rightarrow> ('s, 'c, unit) h3_act" where
  "open_qpack_decoder_stream env =
     andThen (open_uni_stream env QPACK_DECODER_STREAM_TYPE_ID) (\<lambda>sid.
     h3_modify (\<lambda>h. h\<lparr>hc_local_decoder := Some sid\<rparr>))"

definition grease_word :: "u8 list" where
  "grease_word = bytes_of ''GREASE is the word''"

definition send_grease_frames :: "conn_env \<Rightarrow> (nat \<Rightarrow> u64) \<Rightarrow> u64 \<Rightarrow> ('s, 'c, unit) h3_act" where
  "send_grease_frames env rnd sid =
     andThen (lift (put_slice (grease_value (rnd 0)) (with_slice (replicate 128 42)))) (\<lambda>(bytes, b).
     andThen (transport (stream_send env sid bytes False)) (\<lambda>_.
     andThen (lift (put_slice 0 b)) (\<lambda>(bytes, b).
     andThen (transport (stream_send env sid bytes False)) (\<lambda>_.
     andThen (lift (put_slice (grease_value (rnd 1)) b)) (\<lambda>(bytes, b).
     andThen (transport (stream_send env sid bytes False)) (\<lambda>_.
     andThen (lift (put_slice 18 b)) (\<lambda>(bytes, b).
     andThen (transport (stream_send env sid bytes False)) (\<lambda>_.
     andThen (transport (stream_send env sid grease_word False)) (\<lambda>_. ret ())))))))))"

definition open_grease_stream :: "conn_env \<Rightarrow> u64 \<Rightarrow> ('s, 'c, unit) h3_act" where
  "open_grease_stream env n = (\<lambda>w. case open_uni_stream env (grease_value n) w of
     (Ok sid, w) \<Rightarrow> andThen (transport (stream_send env sid grease_word False)) (\<lambda>_. ret ()) w
   | (Err e, w) \<Rightarrow> (if e = H3IdError then Ok () else Err e, w)
   | (Panic, w) \<Rightarrow> (Panic, w))"

definition send_settings :: "conn_env \<Rightarrow> (nat \<Rightarrow> u64) \<Rightarrow> ('s, 'c, unit) h3_act" where
  "send_settings env rnd =
     andThen (open_uni_stream env HTTP3_CONTROL_STREAM_TYPE_ID) (\<lambda>sid.
     andThen (h3_modify (\<lambda>h. h\<lparr>hc_control := Some sid\<rparr>)) (\<lambda>_.
     andThen (quic_reads cn_grease) (\<lambda>grease.
     andThen (h3_reads hc_local_settings) (\<lambda>st.
     let f = H3Settings (set_max_header_list_size st) (set_qpack_max_table_capacity st) (set_qpack_blocked_streams st)
           (if grease then Some (grease_value (rnd 0), grease_value (rnd 1)) else None) in
     andThen (lift (h3_frame_to_bytes f (with_slice (replicate 128 42)))) (\<lambda>(_, b).
     andThen (transport (stream_send env sid (take (off b) (buf b)) False)) (\<lambda>_. ret ()))))))"

text \<open>\<open>.ok()\<close>: the error is dropped.\<close>

definition ignore_err :: "('s, 'e, unit) eact \<Rightarrow> ('s, 'e, unit) eact" where
  "ignore_err m = (\<lambda>s. case m s of (Panic, s) \<Rightarrow> (Panic, s) | (_, s) \<Rightarrow> (Ok (), s))"

text \<open>\<open>with_transport\<close>: the new connection is in the state that is left.\<close>

definition with_transport :: "(nat \<Rightarrow> conn_env) \<Rightarrow> (nat \<Rightarrow> u64) \<Rightarrow> h3_config \<Rightarrow> ('s, 'c) conn
    \<Rightarrow> unit h3_result \<times> ('s, 'c) h3_world" where
  "with_transport env rnd cf c =
     andThen (send_settings (env 0) rnd) (\<lambda>_.
     andThen (ignore_err (open_qpack_encoder_stream (env 1))) (\<lambda>_.
     andThen (ignore_err (open_qpack_decoder_stream (env 2))) (\<lambda>_.
     andThen (quic_reads cn_grease) (\<lambda>grease.
     whenever grease (ignore_err (open_grease_stream (env 3) (rnd 2)))))))
     (h3_conn_new cf (cn_is_server c), c)"

section \<open>Sending requests, responses and bodies\<close>

definition headers_len :: "h3_header list \<Rightarrow> nat" where
  "headers_len headers = sum_list (map (\<lambda>h. case h of Header name v \<Rightarrow> length v + length name + 32) headers)"

definition encode_header_block :: "h3_header list \<Rightarrow> u8 list h3_result" where
  "encode_header_block headers =
     bnd (map_err (\<lambda>_. H3InternalError) (qpack_encode headers (replicate (headers_len headers) 0))) (\<lambda>(len, block).
     Ok (take len block))"

definition h3_send :: "conn_env \<Rightarrow> u64 \<Rightarrow> u64 \<Rightarrow> u8 list \<Rightarrow> bool \<Rightarrow> ('s, 'c, nat) h3_act" where
  "h3_send env sid deadline data fin = transport (stream_send_full env sid data fin deadline DEFAULT_PRIORITY sid)"

definition send_headers :: "conn_env \<Rightarrow> (nat \<Rightarrow> u64) \<Rightarrow> u64 \<Rightarrow> h3_header list \<Rightarrow> bool \<Rightarrow> u64 \<Rightarrow> ('s, 'c, unit) h3_act" where
  "send_headers env rnd sid headers fin deadline =
     andThen (lift (encode_header_block headers)) (\<lambda>header_block.
     andThen (h3_reads hc_greased) (\<lambda>greased.
     andThen (quic_reads cn_grease) (\<lambda>grease.
     andThen (whenever (\<not> greased \<and> grease)
       (andThen (send_grease_frames env rnd sid) (\<lambda>_. h3_modify (\<lambda>h. h\<lparr>hc_greased := True\<rparr>)))) (\<lambda>_.
     andThen (lift (put_slice HEADERS_FRAME_TYPE_ID (with_slice (replicate 10 42)))) (\<lambda>(bytes, b).
     andThen (h3_send env sid deadline bytes False) (\<lambda>_.
     andThen (lift (put_slice (of_nat (length header_block)) b)) (\<lambda>(bytes, b).
     andThen (h3_send env sid deadline bytes False) (\<lambda>_.
     andThen (h3_send env sid deadline header_block fin) (\<lambda>_.
     andThen (quic_reads (stream_finished sid)) (\<lambda>finished.
     whenever (fin \<and> finished) (h3_modify (\<lambda>h. h\<lparr>hc_streams := (hc_streams h)(sid := None)\<rparr>))))))))))))"

definition send_request_full :: "conn_env \<Rightarrow> (nat \<Rightarrow> u64) \<Rightarrow> h3_header list \<Rightarrow> bool \<Rightarrow> u64 \<Rightarrow> ('s, 'c, u64) h3_act" where
  "send_request_full env rnd headers fin deadline =
     andThen get_available_request_stream (\<lambda>sid.
     andThen (h3_modify (\<lambda>h. h\<lparr>hc_streams := (hc_streams h)(sid \<mapsto> h3_stream_new sid True)\<rparr>)) (\<lambda>_.
     andThen (send_headers env rnd sid headers fin deadline) (\<lambda>_. ret sid)))"

definition send_request :: "conn_env \<Rightarrow> (nat \<Rightarrow> u64) \<Rightarrow> h3_header list \<Rightarrow> bool \<Rightarrow> ('s, 'c, u64) h3_act" where
  "send_request env rnd headers fin = send_request_full env rnd headers fin 200"

definition send_response_full :: "conn_env \<Rightarrow> (nat \<Rightarrow> u64) \<Rightarrow> u64 \<Rightarrow> h3_header list \<Rightarrow> bool \<Rightarrow> u64 \<Rightarrow> ('s, 'c, unit) h3_act" where
  "send_response_full env rnd sid headers fin deadline = send_headers env rnd sid headers fin deadline"

definition send_response :: "conn_env \<Rightarrow> (nat \<Rightarrow> u64) \<Rightarrow> u64 \<Rightarrow> h3_header list \<Rightarrow> bool \<Rightarrow> ('s, 'c, unit) h3_act" where
  "send_response env rnd sid headers fin = send_response_full env rnd sid headers fin 200"

definition send_body_full :: "conn_env \<Rightarrow> u64 \<Rightarrow> u8 list \<Rightarrow> bool \<Rightarrow> u64 \<Rightarrow> ('s, 'c, nat) h3_act" where
  "send_body_full env sid body fin deadline =
     andThen (h3_reads (\<lambda>h. hc_streams h sid = None)) (\<lambda>missing.
     andThen (fail_if (missing \<or> sid mod 4 \<noteq> 0) H3FrameUnexpected) (\<lambda>_.
     andThen (lift (h3_short (varint_len DATA_FRAME_TYPE_ID))) (\<lambda>n1.
     andThen (lift (h3_short (varint_len (of_nat (length body))))) (\<lambda>n2.
     let overhead = n1 + n2 in
     andThen (quic_reads (stream_capacity sid)) (\<lambda>cap.
     andThen (lift (h3_transport cap)) (\<lambda>stream_cap.
     andThen (fail_if (stream_cap \<le> overhead) H3Done) (\<lambda>_.
     let body_len = min (length body) (stream_cap - overhead);
         fin = (if body_len \<noteq> length body then False else fin) in
     andThen (lift (put_slice DATA_FRAME_TYPE_ID (with_slice (replicate 10 42)))) (\<lambda>(bytes, b).
     andThen (h3_send env sid deadline bytes False) (\<lambda>_.
     andThen (lift (put_slice (of_nat body_len) b)) (\<lambda>(bytes, b).
     andThen (h3_send env sid deadline bytes False) (\<lambda>_.
     andThen (h3_send env sid deadline (take body_len body) fin) (\<lambda>written.
     andThen (quic_reads (stream_finished sid)) (\<lambda>finished.
     andThen (whenever (fin \<and> written = length body \<and> finished)
       (h3_modify (\<lambda>h. h\<lparr>hc_streams := (hc_streams h)(sid := None)\<rparr>))) (\<lambda>_.
     ret written))))))))))))))"

definition send_body :: "conn_env \<Rightarrow> u64 \<Rightarrow> u8 list \<Rightarrow> bool \<Rightarrow> ('s, 'c, nat) h3_act" where
  "send_body env sid body fin = send_body_full env sid body fin 200"

end
