(* ===== verification/H3Recv.thy ===== *)
theory H3Recv
  imports H3Conn
begin

text \<open>
  What the HTTP/3 connection does with received data (\<open>recv_body\<close>, \<open>poll\<close>, \<open>process_control_stream\<close>,
  \<open>process_readable_stream\<close> and \<open>process_frame\<close> of \<open>src/h3/mod.rs\<close>, with the two reads of the transport in
  \<open>src/h3/stream.rs\<close>). The loop over the states of a stream takes a number of rounds; what the transport
  holds of the stream bounds it.
\<close>

section \<open>Receiving\<close>

text \<open>What a call does with the errors of another call: \<open>if let Err(e) = m { handler }\<close>.\<close>

definition handling :: "('s, 'e, 'a) eact \<Rightarrow> ('e \<Rightarrow> ('s, 'e, 'a) eact) \<Rightarrow> ('s, 'e, 'a) eact" where
  "handling m f = (\<lambda>s. case m s of (Err e, s) \<Rightarrow> f e s | r \<Rightarrow> r)"

text \<open>\<open>Ok(v) => Some(v), Err(Error::Done) => None, Err(e) => return Err(e)\<close>.\<close>

definition none_if_done :: "('s, h3_error, 'a) eact \<Rightarrow> ('s, h3_error, 'a option) eact" where
  "none_if_done m = handling (andThen m (\<lambda>v. ret (Some v))) (\<lambda>e. if e = H3Done then ret None else throw e)"

definition try_fill_buffer :: "u64 \<Rightarrow> ('s, 'c, unit) h3_act" where
  "try_fill_buffer sid =
     andThen (on_h3_stream sid (andThen fill_room (\<lambda>room. andThen (reads_st hs_id) (\<lambda>i. ret (i, room))))) (\<lambda>(i, room).
     andThen (transport (stream_recv i room)) (\<lambda>(data, _).
     on_h3_stream sid (filled data)))"

text \<open>The bytes that were put at the start of the output buffer of length \<open>n\<close>.\<close>

definition try_consume_data :: "u64 \<Rightarrow> nat \<Rightarrow> ('s, 'c, u8 list) h3_act" where
  "try_consume_data sid n =
     andThen (on_h3_stream sid (reads_st (\<lambda>s. (hs_id s, data_room n s)))) (\<lambda>(i, room).
     andThen (transport (stream_recv i room)) (\<lambda>(data, _).
     andThen (on_h3_stream sid (data_consumed (length data))) (\<lambda>_. ret data)))"

definition note_finished :: "u64 \<Rightarrow> ('s, 'c, unit) h3_act" where
  "note_finished sid =
     andThen (quic_reads (stream_finished sid)) (\<lambda>finished.
     whenever finished (h3_modify (\<lambda>h. h\<lparr>hc_finished := hc_finished h @ [sid]\<rparr>)))"

definition recv_body :: "u64 \<Rightarrow> nat \<Rightarrow> ('s, 'c, u8 list) h3_act" where
  "recv_body sid n =
     andThen (on_h3_stream sid (reads_st hs_state)) (\<lambda>state.
     andThen (fail_if (state \<noteq> DataPayload) H3Done) (\<lambda>_.
     andThen (try_consume_data sid n) (\<lambda>data.
     andThen (note_finished sid) (\<lambda>_. ret data))))"

text \<open>\<open>process_frame\<close>: every branch but the one that returns the headers ends with \<open>Err(Done)\<close>.\<close>

definition peer_settings_of :: "u64 option \<Rightarrow> u64 option \<Rightarrow> u64 option \<Rightarrow> h3_settings" where
  "peer_settings_of l capacity blocked =
     \<lparr>set_max_header_list_size = l, set_qpack_max_table_capacity = capacity, set_qpack_blocked_streams = blocked\<rparr>"

definition h3_process_headers :: "(string \<Rightarrow> string) \<Rightarrow> u64 \<Rightarrow> u8 list \<Rightarrow> ('s, 'c, u64 \<times> h3_event) h3_act" where
  "h3_process_headers lower sid header_block =
     andThen (h3_reads (\<lambda>h. set_max_header_list_size (hc_local_settings h))) (\<lambda>limit.
     let max_size = (case limit of Some n \<Rightarrow> n | None \<Rightarrow> - 1) in
     andThen (lift (map_err (\<lambda>e. if e = HeaderListTooLarge then H3ExcessiveLoad else H3QpackDecompressionFailed)
       (qpack_decode lower header_block max_size))) (\<lambda>headers.
     andThen (quic_reads (\<lambda>c. \<not> stream_finished sid c)) (\<lambda>has_body.
     ret (sid, EvHeaders headers has_body))))"

definition h3_process_frame :: "(string \<Rightarrow> string) \<Rightarrow> u64 \<Rightarrow> h3_frame \<Rightarrow> ('s, 'c, u64 \<times> h3_event) h3_act" where
  "h3_process_frame lower sid frame =
     andThen (h3_reads (\<lambda>h. h)) (\<lambda>h.
     let on_control = (hc_peer_control h = Some sid);
         refuse = close_err H3FrameUnexpected
     in case frame of
       H3Settings l capacity blocked _ \<Rightarrow>
         andThen (h3_modify (\<lambda>h. h\<lparr>hc_peer_settings := peer_settings_of l capacity blocked\<rparr>)) (\<lambda>_. throw H3Done)
     | H3Headers header_block \<Rightarrow>
         if on_control then refuse ''HEADERS received on control stream'' else h3_process_headers lower sid header_block
     | H3Data _ \<Rightarrow> if on_control then refuse ''DATA received on control stream'' else throw H3Done
     | H3GoAway goaway \<Rightarrow>
         if hc_is_server h then refuse ''GOWAY received on server''
         else if \<not> on_control then refuse ''GOAWAY received on non-control stream''
         else if goaway mod 4 \<noteq> 0 then refuse ''GOAWAY received with ID of non-request stream''
         else throw H3Done
     | H3MaxPushId push_id \<Rightarrow>
         if \<not> on_control then refuse ''MAX_PUSH_ID received on non-control stream''
         else if \<not> hc_is_server h then refuse ''MAX_PUSH_ID received by client''
         else if push_id < hc_max_push_id h then close_err H3IdError ''MAX_PUSH_ID reduced limit''
         else andThen (h3_modify (\<lambda>h. h\<lparr>hc_max_push_id := push_id\<rparr>)) (\<lambda>_. throw H3Done)
     | H3PushPromise _ _ \<Rightarrow>
         if hc_is_server h then refuse ''PUSH_PROMISE received by server''
         else if sid mod 4 \<noteq> 0 then refuse ''PUSH_PROMISE received on non-request stream''
         else throw H3Done
     | H3DuplicatePush _ \<Rightarrow>
         if hc_is_server h then refuse ''DUPLICATE_PUSH received by server''
         else if sid mod 4 \<noteq> 0 then refuse ''DUPLICATE_PUSH received on non-request stream''
         else throw H3Done
     | H3CancelPush _ \<Rightarrow>
         if \<not> on_control then refuse ''CANCEL_PUSH received on non-control stream'' else throw H3Done
     | H3Unknown \<Rightarrow> throw H3Done)"

section \<open>The bytes the transport holds of a stream\<close>

definition recv_left :: "u64 \<Rightarrow> ('s, 'c) conn \<Rightarrow> nat" where
  "recv_left sid c = (case sm_streams (cn_streams c) sid of None \<Rightarrow> 0 | Some s \<Rightarrow> recv_size (st_recv s))"

lemma recv_pop_left:
  "recv_pop n r = Ok (res, r') \<Longrightarrow> recv_size r' \<le> recv_size r \<and> (0 < n \<longrightarrow> recv_size r' < recv_size r)"
  using recv_pop_loop_size [of n "[]" r]
  by (auto simp: recv_pop_def recv_size_def Let_def split: if_splits prod.splits)

lemma sm_marks_streams [simp]:
  "sm_streams (sm_mark_almost_full sid b m) = sm_streams m" "sm_streams (sm_mark_readable sid b m) = sm_streams m"
  by (simp_all add: sm_mark_almost_full_def sm_mark_readable_def)

lemma sm_collect_streams: "sm_streams (sm_collect sid loc m) sid' = (if sid' = sid then None else sm_streams m sid')"
  by (simp add: sm_collect_def)

lemma stream_recv_left:
  assumes "stream_recv sid n c = (r, c')"
  shows "recv_left sid c' \<le> recv_left sid c"
    and "0 < n \<Longrightarrow> r = Ok v \<Longrightarrow> recv_left sid c' < recv_left sid c"
  using assms unfolding stream_recv_def
  by (auto simp: andThen_run act_defs on_streams_def on_stream_def on_recv_def recv_left_def Let_def sm_collect_streams
      split: if_splits option.splits prod.splits res.splits dest!: recv_pop_left)

text \<open>The loop that reads data and discards it, until the transport has no more.\<close>

function discard_data :: "u64 \<Rightarrow> (('s, 'c) conn, unit) act" where
  "discard_data sid c =
     (case stream_recv sid 4096 c of
        (Ok _, c) \<Rightarrow> discard_data sid c | (Err e, c) \<Rightarrow> (Err e, c) | (Panic, c) \<Rightarrow> (Panic, c))"
  by pat_completeness auto
termination
  by (relation "measure (\<lambda>(sid, c). recv_left sid c)") (auto dest!: sym [of "(_, _)"] stream_recv_left(2))

declare discard_data.simps [simp del]

section \<open>The states of a stream\<close>

text \<open>\<open>match stream.try_consume_varint() { Ok(v) => v, Err(_) => continue }\<close>.\<close>

definition next_varint :: "u64 \<Rightarrow> ('s, 'c, u64 option) h3_act" where
  "next_varint sid =
     handling (andThen (on_h3_stream sid try_consume_varint) (\<lambda>v. ret (Some v))) (\<lambda>_. ret None)"

text \<open>The type of a stream that the peer opened.\<close>

definition accept_stream_type :: "u64 \<Rightarrow> h3_type \<Rightarrow> ('s, 'c, unit) h3_act" where
  "accept_stream_type sid ty =
     andThen (h3_reads (\<lambda>h. h)) (\<lambda>h.
     case ty of
       TControl \<Rightarrow>
         if hc_peer_control h \<noteq> None then close_err H3StreamCreationError ''Received multiple control streams''
         else h3_modify (\<lambda>h. h\<lparr>hc_peer_control := Some sid\<rparr>)
     | TPush \<Rightarrow>
         if hc_is_server h then close_err H3StreamCreationError ''Server received push stream.'' else ret ()
     | TQpackEncoder \<Rightarrow>
         if hc_peer_encoder h \<noteq> None then close_err H3StreamCreationError ''Received multiple QPACK encoder streams''
         else h3_modify (\<lambda>h. h\<lparr>hc_peer_encoder := Some sid\<rparr>)
     | TQpackDecoder \<Rightarrow>
         if hc_peer_decoder h \<noteq> None then close_err H3StreamCreationError ''Received multiple QPACK decoder streams''
         else h3_modify (\<lambda>h. h\<lparr>hc_peer_decoder := Some sid\<rparr>)
     | TUnknown \<Rightarrow> ret ()
     | TRequest \<Rightarrow> lift Panic)"

fun decimal :: "nat \<Rightarrow> string" where
  "decimal n = (if n < 10 then [char_of (48 + n)] else decimal (n div 10) @ [char_of (48 + n mod 10)])"

declare decimal.simps [simp del]

text \<open>One round of the loop, for each state of a stream whose buffer was filled.\<close>

definition on_stream_type :: "u64 \<Rightarrow> ('s, 'c, unit) h3_act" where
  "on_stream_type sid =
     andThen (next_varint sid) (\<lambda>varint.
     case varint of None \<Rightarrow> ret () | Some v \<Rightarrow>
       let ty = h3_type_of v in
       andThen (handling (on_h3_stream sid (set_ty ty)) (\<lambda>e. close_err e '''')) (\<lambda>_.
       accept_stream_type sid ty))"

definition on_push_id :: "u64 \<Rightarrow> ('s, 'c, unit) h3_act" where
  "on_push_id sid =
     andThen (next_varint sid) (\<lambda>varint.
     case varint of None \<Rightarrow> ret () | Some v \<Rightarrow>
       handling (on_h3_stream sid (set_push_id v)) (\<lambda>e. close_err e ''''))"

definition on_frame_type :: "u64 \<Rightarrow> ('s, 'c, unit) h3_act" where
  "on_frame_type sid =
     andThen (next_varint sid) (\<lambda>varint.
     case varint of None \<Rightarrow> ret () | Some v \<Rightarrow>
       handling (on_h3_stream sid (set_frame_type v)) (\<lambda>e.
         close_err e (if e = H3FrameUnexpected then ''Unexpected frame type '' @ decimal (unat v)
                      else ''Error handling frame.'')))"

definition on_payload_len :: "u64 \<Rightarrow> ('s, 'c, unit) h3_act" where
  "on_payload_len sid =
     andThen (next_varint sid) (\<lambda>varint.
     case varint of None \<Rightarrow> ret () | Some v \<Rightarrow>
       handling (on_h3_stream sid (set_frame_payload_len v)) (\<lambda>e. close_err e ''''))"

definition on_payload :: "(string \<Rightarrow> string) \<Rightarrow> u64 \<Rightarrow> ('s, 'c, (u64 \<times> h3_event) option) h3_act" where
  "on_payload lower sid =
     andThen (handling (on_h3_stream sid try_consume_frame)
       (\<lambda>e. if e = H3Done then throw H3Done else close_err e ''Error handling frame.'')) (\<lambda>frame.
     none_if_done (h3_process_frame lower sid frame))"

text \<open>What a round returns, or \<open>None\<close> when the loop goes on.\<close>

definition read_step :: "(string \<Rightarrow> string) \<Rightarrow> u64 \<Rightarrow> ('s, 'c, (u64 \<times> h3_event) option) h3_act" where
  "read_step lower sid =
     andThen (on_h3_stream sid (reads_st hs_state)) (\<lambda>state.
     let fill = (\<lambda>k. andThen (try_fill_buffer sid) (\<lambda>_. andThen k (\<lambda>_. ret None))) in
     case state of
       StreamType \<Rightarrow> fill (on_stream_type sid)
     | PushId \<Rightarrow> fill (on_push_id sid)
     | FrameType \<Rightarrow> fill (on_frame_type sid)
     | FramePayloadLen \<Rightarrow> fill (on_payload_len sid)
     | FramePayload \<Rightarrow> andThen (try_fill_buffer sid) (\<lambda>_. on_payload lower sid)
     | DataPayload \<Rightarrow> ret (Some (sid, EvData))
     | QpackInstruction \<Rightarrow> andThen (transport (discard_data sid)) (\<lambda>_. throw H3Done)
     | Drain \<Rightarrow> andThen (transport (stream_shutdown sid ShutdownRead)) (\<lambda>_. throw H3Done))"

fun read_loop :: "(string \<Rightarrow> string) \<Rightarrow> u64 \<Rightarrow> nat \<Rightarrow> ('s, 'c, u64 \<times> h3_event) h3_act" where
  "read_loop lower sid rounds =
     andThen (read_step lower sid) (\<lambda>r.
     case r of Some ev \<Rightarrow> ret ev
     | None \<Rightarrow> (case rounds of 0 \<Rightarrow> lift Panic | Suc k \<Rightarrow> read_loop lower sid k))"

declare read_loop.simps [simp del]

definition process_readable_stream :: "(string \<Rightarrow> string) \<Rightarrow> u64 \<Rightarrow> ('s, 'c, u64 \<times> h3_event) h3_act" where
  "process_readable_stream lower sid =
     andThen (h3_modify (\<lambda>h. if hc_streams h sid = None
       then h\<lparr>hc_streams := (hc_streams h)(sid \<mapsto> h3_stream_new sid False)\<rparr> else h)) (\<lambda>_.
     andThen (quic_reads (recv_left sid)) (\<lambda>n.
     read_loop lower sid (2 * n + 1)))"

section \<open>poll\<close>

definition refuse_closed :: "u64 \<Rightarrow> ('s, 'c, unit) h3_act" where
  "refuse_closed sid =
     andThen (quic_reads (stream_finished sid)) (\<lambda>finished.
     if finished then close_err H3ClosedCriticalStream ''Critical stream closed.'' else ret ())"

definition process_control_stream :: "(string \<Rightarrow> string) \<Rightarrow> u64 \<Rightarrow> ('s, 'c, unit) h3_act" where
  "process_control_stream lower sid =
     andThen (refuse_closed sid) (\<lambda>_.
     andThen (none_if_done (process_readable_stream lower sid)) (\<lambda>_.
     refuse_closed sid))"

definition poll_critical :: "(string \<Rightarrow> string) \<Rightarrow> (h3_conn \<Rightarrow> u64 option) \<Rightarrow> ('s, 'c, unit) h3_act" where
  "poll_critical lower get =
     andThen (h3_reads get) (\<lambda>s. case s of None \<Rightarrow> ret () | Some sid \<Rightarrow> process_control_stream lower sid)"

fun poll_streams :: "(string \<Rightarrow> string) \<Rightarrow> u64 list \<Rightarrow> ('s, 'c, u64 \<times> h3_event) h3_act" where
  "poll_streams lower [] = throw H3Done"
| "poll_streams lower (sid # sids) =
     andThen (none_if_done (process_readable_stream lower sid)) (\<lambda>ev.
     andThen (note_finished sid) (\<lambda>_.
     case ev of Some ev \<Rightarrow> ret ev | None \<Rightarrow> poll_streams lower sids))"

definition poll :: "conn_env \<Rightarrow> (string \<Rightarrow> string) \<Rightarrow> ('s, 'c, u64 \<times> h3_event) h3_act" where
  "poll env lower =
     andThen (quic_reads (\<lambda>c. cn_error c \<noteq> None \<or> cn_app_error c \<noteq> None)) (\<lambda>broken.
     andThen (fail_if broken H3Done) (\<lambda>_.
     andThen (poll_critical lower hc_peer_control) (\<lambda>_.
     andThen (poll_critical lower hc_peer_encoder) (\<lambda>_.
     andThen (poll_critical lower hc_peer_decoder) (\<lambda>_.
     andThen (h3_reads hc_finished) (\<lambda>finished.
     case finished of
       sid # rest \<Rightarrow> andThen (h3_modify (\<lambda>h. h\<lparr>hc_finished := rest\<rparr>)) (\<lambda>_. ret (sid, EvFinished))
     | [] \<Rightarrow>
         andThen (quic_reads (\<lambda>c. en_order env (conn_readable c))) (\<lambda>sids.
         poll_streams lower sids)))))))"

end
