(* ===== verification/H3Inv.thy ===== *)
theory H3Inv
  imports H3Recv
begin

text \<open>
  What the HTTP/3 connection keeps: every stream's state buffer fits the state, so that neither a slice nor an
  assertion of the parser fails. The contracts of the parser's operations come first, then those of the
  connection's.
\<close>

section \<open>Weakest preconditions\<close>

lemma wp_transport [wp_rules]:
  "wp (transport m) Q E w \<longleftrightarrow>
     wp m (\<lambda>x c. Q x (fst w, c)) (\<lambda>e c. E (map_option h3_from_error e) (fst w, c)) (snd w)"
  by (cases w) (auto simp: wp_def transport_def h3_transport_def split: prod.split res.split)

lemma wp_h3_reads [wp_rules]: "wp (h3_reads g) Q E w \<longleftrightarrow> Q (g (fst w)) w"
  by (cases w) (simp add: h3_reads_def wp_reads_st)

lemma wp_quic_reads [wp_rules]: "wp (quic_reads g) Q E w \<longleftrightarrow> Q (g (snd w)) w"
  by (cases w) (simp add: quic_reads_def wp_reads_st)

lemma wp_h3_modify [wp_rules]: "wp (h3_modify g) Q E w \<longleftrightarrow> Q () (g (fst w), snd w)"
  by (cases w) (simp add: h3_modify_def wp_modify)

definition put_stream :: "u64 \<Rightarrow> h3_stream \<Rightarrow> h3_conn \<Rightarrow> h3_conn" where
  "put_stream sid s h = h\<lparr>hc_streams := (hc_streams h)(sid \<mapsto> s)\<rparr>"

lemma wp_on_h3_stream [wp_rules]:
  "wp (on_h3_stream sid m) Q E w \<longleftrightarrow> (case hc_streams (fst w) sid of
     None \<Rightarrow> E (Some H3Done) w
   | Some s \<Rightarrow> wp m (\<lambda>x t. Q x (put_stream sid t (fst w), snd w)) (\<lambda>e t. E e (put_stream sid t (fst w), snd w)) s)"
  by (cases w) (auto simp: wp_def on_h3_stream_def put_stream_def split: option.split prod.split res.split)

lemma wp_handling [wp_rules]:
  "wp (handling m f) Q E s \<longleftrightarrow> wp m Q (\<lambda>e t. case e of None \<Rightarrow> E None t | Some e \<Rightarrow> wp (f e) Q E t) s"
  by (auto simp: wp_def handling_def split: prod.split res.split)

lemma wp_none_if_done [wp_rules]:
  "wp (none_if_done m) Q E s \<longleftrightarrow>
     wp m (\<lambda>v. Q (Some v)) (\<lambda>e t. if e = Some H3Done then Q None t else E e t) s"
  by (auto simp: wp_def none_if_done_def handling_def andThen_run ret_def throw_def split: prod.split res.split)

section \<open>Well-formed streams\<close>

definition hs_reads_varint :: "h3_stream \<Rightarrow> bool" where
  "hs_reads_varint s \<longleftrightarrow> hs_state s \<in> {StreamType, PushId, FrameType, FramePayloadLen}"

definition hs_payload_ok :: "h3_stream \<Rightarrow> bool" where
  "hs_payload_ok s \<longleftrightarrow> length (hs_buf s) \<le> MAX_STATE_BUF_SIZE
     \<and> (hs_state s = FramePayloadLen \<longrightarrow> hs_frame_type s \<noteq> None)
     \<and> (hs_state s = FramePayload \<longrightarrow> hs_frame_type s \<noteq> None \<and> hs_off s \<le> hs_len s \<and> hs_len s = length (hs_buf s))"

text \<open>In a state that reads a varint, the first byte is awaited, or its length is known from the first byte and
  more is awaited.\<close>

definition h3_stream_ok :: "h3_stream \<Rightarrow> bool" where
  "h3_stream_ok s \<longleftrightarrow> hs_payload_ok s
     \<and> (hs_reads_varint s \<longrightarrow>
          (if hs_off s = 0 then hs_len s = 1 \<and> hs_buf s \<noteq> []
           else hs_off s < hs_len s \<and> varint_parse_len (hs_buf s ! 0) = Ok (hs_len s) \<and> length (hs_buf s) = hs_len s))"

definition hs_filled :: "h3_stream \<Rightarrow> bool" where
  "hs_filled s \<longleftrightarrow> hs_payload_ok s
     \<and> (hs_reads_varint s \<longrightarrow> hs_off s = hs_len s \<and> hs_buf s \<noteq> []
          \<and> (hs_off s = 1 \<or> 1 < hs_off s \<and> varint_parse_len (hs_buf s ! 0) = Ok (hs_len s) \<and> length (hs_buf s) = hs_len s))"

lemma stream_ok_new: "h3_stream_ok (h3_stream_new sid loc)"
  by (auto simp: h3_stream_ok_def hs_payload_ok_def h3_stream_new_def hs_reads_varint_def
      MAX_STATE_BUF_SIZE_def)

lemma length_resize_buf [simp]: "length (resize_buf n xs) = n"
  by (simp add: resize_buf_def)

lemma resize_buf_Nil [simp]: "resize_buf n xs = [] \<longleftrightarrow> n = 0"
  by (simp flip: length_0_conv)

lemma resize_buf_hd: "xs \<noteq> [] \<Longrightarrow> 0 < n \<Longrightarrow> resize_buf n xs ! 0 = xs ! 0"
  by (simp add: resize_buf_def nth_append)

lemma stream_ok_bounds:
  assumes "h3_stream_ok s" "hs_reads_varint s \<or> hs_state s = FramePayload"
  shows "hs_off s \<le> hs_len s \<and> hs_len s \<le> length (hs_buf s)"
  using assms(2)
proof
  assume "hs_reads_varint s"
  with assms(1) show ?thesis
    by (cases "hs_off s = 0") (simp_all add: h3_stream_ok_def Suc_le_eq)
next
  assume "hs_state s = FramePayload"
  with assms(1) show ?thesis by (simp add: h3_stream_ok_def hs_payload_ok_def)
qed

lemma fill_room_ok:
  assumes "h3_stream_ok s" "hs_reads_varint s \<or> hs_state s = FramePayload"
  shows "fill_room s = (Ok (hs_len s - hs_off s), s)" and "hs_reads_varint s \<Longrightarrow> hs_off s < hs_len s"
proof -
  from assms have "hs_off s \<le> hs_len s \<and> hs_len s \<le> length (hs_buf s)" by (rule stream_ok_bounds)
  then show "fill_room s = (Ok (hs_len s - hs_off s), s)"
    by (simp add: fill_room_def andThen_run reads_st_def ret_def)
  show "hs_off s < hs_len s" if "hs_reads_varint s"
    using assms(1) that by (auto simp: h3_stream_ok_def split: if_splits)
qed

lemma filled_ok:
  assumes ok: "h3_stream_ok s" and state: "hs_reads_varint s \<or> hs_state s = FramePayload"
    and room: "length data \<le> hs_len s - hs_off s"
  shows "wp (filled data) (\<lambda>_ t. hs_filled t \<and> hs_state t = hs_state s \<and> hs_id t = hs_id s)
    (\<lambda>e t. e = Some H3Done \<and> h3_stream_ok t \<and> hs_id t = hs_id s) s"
proof -
  define t where "t = s\<lparr>hs_buf := take (hs_off s) (hs_buf s) @ data @ drop (hs_off s + length data) (hs_buf s),
    hs_off := hs_off s + length data\<rparr>"
  have bounds: "hs_off s \<le> hs_len s" "hs_len s \<le> length (hs_buf s)"
    using stream_ok_bounds [OF ok state] by simp_all
  then have len: "length (hs_buf t) = length (hs_buf s)" using room by (simp add: t_def)
  then have ne: "hs_buf t = [] \<longleftrightarrow> hs_buf s = []" by (metis length_0_conv)
  have hd: "hs_buf t ! 0 = hs_buf s ! 0" if "0 < hs_off s"
    using that bounds by (simp add: t_def nth_append)
  have same: "hs_state t = hs_state s" "hs_id t = hs_id s" "hs_len t = hs_len s" "hs_frame_type t = hs_frame_type s"
    "hs_off t = hs_off s + length data" "hs_reads_varint t = hs_reads_varint s"
    by (simp_all add: t_def hs_reads_varint_def)
  have payload: "hs_payload_ok t"
    using ok room bounds by (auto simp: h3_stream_ok_def hs_payload_ok_def same len)
  have "hs_filled t" if "hs_off t = hs_len t"
    using ok that payload hd by (cases "hs_off s = 0") (auto simp: hs_filled_def h3_stream_ok_def same len ne)
  moreover have "h3_stream_ok t" if "hs_off t \<noteq> hs_len t"
    using ok that payload hd room by (cases "hs_off s = 0") (auto simp: h3_stream_ok_def same len ne le_Suc_eq)
  ultimately show ?thesis
    by (simp add: filled_def wp_rules state_buffer_complete_def same flip: t_def)
qed

lemma get_varint_whole:
  "bs \<noteq> [] \<Longrightarrow> varint_parse_len (bs ! 0) = Ok (length bs) \<Longrightarrow> \<exists>v b. get_varint (with_slice bs) = Ok (v, b)"
  by (auto simp: get_varint_eq varint_parse_len_eq cap_def with_slice_def as_ref_def Let_def)

lemma consume_varint_ok:
  assumes "hs_filled s" "hs_reads_varint s"
  shows "wp try_consume_varint
    (\<lambda>_ t. hs_state t = hs_state s \<and> hs_id t = hs_id s \<and> hs_frame_type t = hs_frame_type s
       \<and> length (hs_buf t) \<le> MAX_STATE_BUF_SIZE)
    (\<lambda>e t. e \<noteq> None \<and> h3_stream_ok t \<and> hs_state t = hs_state s \<and> hs_id t = hs_id s) s"
proof -
  from assms have buf: "hs_buf s \<noteq> []" "hs_off s = hs_len s" and payload: "hs_payload_ok s"
    by (simp_all add: hs_filled_def)
  have not_payload: "hs_state s \<noteq> FramePayload" using assms(2) by (auto simp: hs_reads_varint_def)
  have "unat (hs_buf s ! 0) div 64 \<le> 3" using unat_u8 [of "hs_buf s ! 0"] by simp
  then have "(2::nat) ^ (unat (hs_buf s ! 0) div 64) \<le> 2 ^ 3" by (rule power_increasing) simp
  then obtain n where n: "varint_parse_len (hs_buf s ! 0) = Ok n" "0 < n" "n \<le> MAX_STATE_BUF_SIZE"
    by (simp add: varint_parse_len_eq MAX_STATE_BUF_SIZE_def)
  define t where "t = (if hs_off s = 1 then s\<lparr>hs_len := n, hs_buf := resize_buf n (hs_buf s)\<rparr> else s)"
  have t: "hs_state t = hs_state s" "hs_id t = hs_id s" "hs_frame_type t = hs_frame_type s" "hs_off t = hs_off s"
    "hs_len t = n" "length (hs_buf t) = n" "varint_parse_len (hs_buf t ! 0) = Ok n"
    using assms n buf by (auto simp: t_def hs_filled_def resize_buf_hd)
  have ok: "h3_stream_ok t" if "hs_off t \<noteq> n"
  proof -
    have "hs_off s = 1" using that t assms n by (auto simp: hs_filled_def)
    with that t(4) n have "hs_off t = 1" "1 < n" by simp_all
    with t n(3) payload not_payload show ?thesis by (simp add: h3_stream_ok_def hs_payload_ok_def)
  qed
  obtain v b where "get_varint (with_slice (hs_buf t)) = Ok (v, b)"
    using get_varint_whole [of "hs_buf t"] t n(2) by (cases "hs_buf t") auto
  then have read: "h3_short (get_varint (with_slice (hs_buf t))) = Ok (v, b)" by (simp add: h3_short_def)
  have "wp try_consume_varint Q E s = wp (andThen (reads_st state_buffer_complete) (\<lambda>complete.
     andThen (fail_if (\<not> complete) H3Done) (\<lambda>_.
     andThen (reads_st (\<lambda>s. h3_short (get_varint (with_slice (hs_buf s))))) (\<lambda>r.
     andThen (lift r) (\<lambda>(v, _). ret v))))) Q E t" for Q E
    using buf n(1) by (simp add: try_consume_varint_def wp_rules t_def h3_transport_def)
  then show ?thesis using ok t n(3) read by (simp add: wp_rules state_buffer_complete_def)
qed

lemma transition_ok:
  "new_state \<notin> {FramePayloadLen, FramePayload} \<Longrightarrow>
   wp (state_transition new_state (Suc 0) True)
     (\<lambda>_ t. h3_stream_ok t \<and> hs_state t = new_state \<and> hs_id t = hs_id s) (\<lambda>_ _. False) s"
  by (auto simp: state_transition_def wp_rules h3_stream_ok_def hs_payload_ok_def MAX_STATE_BUF_SIZE_def)

lemma set_ty_ok:
  "hs_state s = StreamType \<Longrightarrow>
   wp (set_ty ty) (\<lambda>_ t. h3_stream_ok t \<and> hs_state t \<noteq> FramePayload \<and> hs_id t = hs_id s) (\<lambda>_ _. False) s"
  unfolding set_ty_def assert_state_def
  by (auto simp: wp_rules split: h3_type.split intro!: wp_mono [OF transition_ok])

lemma set_push_id_ok:
  "hs_state s = PushId \<Longrightarrow>
   wp (set_push_id v) (\<lambda>_ t. h3_stream_ok t \<and> hs_state t \<noteq> FramePayload \<and> hs_id t = hs_id s) (\<lambda>_ _. False) s"
  unfolding set_push_id_def assert_state_def by (auto simp: wp_rules intro!: wp_mono [OF transition_ok])

lemma check_frame_type_cases:
  "check_frame_type v s \<in> range Ok \<union> {Err H3MissingSettings, Err H3FrameUnexpected}"
proof (cases "hs_ty s")
  case (Some ty)
  then show ?thesis by (cases ty) (auto simp: check_frame_type_def)
qed (simp add: check_frame_type_def)

lemma set_frame_type_ok:
  assumes "hs_state s = FrameType"
  shows "wp (set_frame_type v) (\<lambda>_ t. h3_stream_ok t \<and> hs_state t \<noteq> FramePayload \<and> hs_id t = hs_id s)
     (\<lambda>e t. e \<noteq> None \<and> e \<noteq> Some H3Done) s"
proof -
  from check_frame_type_cases [of v s] consider b where "check_frame_type v s = Ok b"
    | e where "check_frame_type v s = Err e" "e \<noteq> H3Done" by auto
  then show ?thesis
    using assms by cases (simp_all add: set_frame_type_def assert_state_def wp_rules state_transition_def h3_stream_ok_def
      hs_payload_ok_def MAX_STATE_BUF_SIZE_def)
qed

lemma set_payload_len_ok:
  "hs_state s = FramePayloadLen \<Longrightarrow> hs_frame_type s \<noteq> None \<Longrightarrow> length (hs_buf s) \<le> MAX_STATE_BUF_SIZE \<Longrightarrow>
   wp (set_frame_payload_len v) (\<lambda>_ t. h3_stream_ok t \<and> hs_id t = hs_id s) (\<lambda>e t. e = Some H3InternalError) s"
  by (simp add: set_frame_payload_len_def assert_state_def wp_rules state_transition_def h3_stream_ok_def
      hs_payload_ok_def hs_reads_varint_def)

lemma h3_short_Panic_iff [simp]: "h3_short m = Panic \<longleftrightarrow> m = Panic"
  by (simp add: h3_short_def)

lemma settings_no_panic: "parse_settings_loop n a c d b \<noteq> Panic"
proof (induction n a c d b rule: parse_settings_loop.induct)
  case (1 n a c d b)
  show ?case
    unfolding parse_settings_loop.simps [of n a c d b]
  proof (split if_split, intro conjI impI bnd_no_Panic)
    fix p assume "off b < n" "h3_short (get_varint b) = Ok p"
    then obtain ty b1 where p: "p = (ty, b1)" "h3_short (get_varint b) = Ok (ty, b1)" "off b < n" by (cases p) auto
    show "(case p of (ty, b) \<Rightarrow> bnd (h3_short (get_varint b)) (\<lambda>(v, b).
        if ty = SETTINGS_QPACK_MAX_TABLE_CAPACITY then parse_settings_loop n a (Some v) d b
        else if ty = SETTINGS_MAX_HEADER_LIST_SIZE then parse_settings_loop n (Some v) c d b
        else if ty = SETTINGS_QPACK_BLOCKED_STREAMS then parse_settings_loop n a c (Some v) b
        else parse_settings_loop n a c d b)) \<noteq> Panic"
      unfolding p(1) prod.case
    proof (rule bnd_no_Panic)
      fix q assume "h3_short (get_varint b1) = Ok q"
      then obtain v b2 where q: "q = (v, b2)" "h3_short (get_varint b1) = Ok (v, b2)" by (cases q) auto
      note ih = "1.IH" [OF p(3,2) refl q(2) refl]
      show "(case q of (v, b) \<Rightarrow>
          if ty = SETTINGS_QPACK_MAX_TABLE_CAPACITY then parse_settings_loop n a (Some v) d b
          else if ty = SETTINGS_MAX_HEADER_LIST_SIZE then parse_settings_loop n (Some v) c d b
          else if ty = SETTINGS_QPACK_BLOCKED_STREAMS then parse_settings_loop n a c (Some v) b
          else parse_settings_loop n a c d b) \<noteq> Panic"
        using ih by (simp add: q(1))
    qed (simp add: vi.get_no_panic)
  qed (simp_all add: vi.get_no_panic)
qed

lemma frame_from_bytes_no_panic: "h3_frame_from_bytes ty n bytes \<noteq> Panic"
proof -
  have len: "varint_len v \<noteq> Panic" if "h3_short (get_varint b) = Ok (v, b')" for v b b'
    using that get_varint_bound [of b v b'] by (simp add: varint_len_eq h3_short_def)
  have push: "parse_push_promise n b \<noteq> Panic" for b
    by (auto simp: parse_push_promise_def bnd_Panic_iff vi.get_no_panic get_bytes_no_panic dest: len)
  show ?thesis
    unfolding h3_frame_from_bytes_def Let_def parse_settings_frame_def
    using push settings_no_panic by (auto simp: bnd_Panic_iff vi.get_no_panic get_bytes_no_panic split: if_splits)
qed

lemma consume_frame_ok:
  assumes "hs_filled s" "hs_state s = FramePayload"
  shows "wp try_consume_frame (\<lambda>_ t. h3_stream_ok t \<and> hs_state t = FrameType \<and> hs_id t = hs_id s)
    (\<lambda>e t. e \<noteq> None \<and> h3_stream_ok t \<and> hs_id t = hs_id s) s"
proof -
  from assms obtain ty where ty: "hs_frame_type s = Some ty" and payload: "hs_payload_ok s"
    by (auto simp: hs_filled_def hs_payload_ok_def)
  then have "h3_stream_ok s" using assms by (simp add: h3_stream_ok_def hs_reads_varint_def)
  then show ?thesis
    using ty frame_from_bytes_no_panic [of ty "of_nat (hs_len s)" "hs_buf s"] assms(2)
    by (cases "h3_frame_from_bytes ty (of_nat (hs_len s)) (hs_buf s)")
      (auto simp: try_consume_frame_def wp_rules intro!: wp_mono [OF transition_ok])
qed

section \<open>What the transport does\<close>

text \<open>No timer starts and no error is set.\<close>

definition same_fate :: "('s, 'c) conn \<Rightarrow> ('s, 'c) conn \<Rightarrow> bool" where
  "same_fate c c' \<longleftrightarrow> cn_draining_timer c' = cn_draining_timer c \<and> is_closing c' = is_closing c"

lemma same_fate_refl [simp]: "same_fate c c"
  by (simp add: same_fate_def)

lemma same_fate_trans: "same_fate c c' \<Longrightarrow> same_fate c' c'' \<Longrightarrow> same_fate c c''"
  by (simp add: same_fate_def)

lemma recv_pop_loop_length: "recv_pop_loop n out r = (out', r') \<Longrightarrow> length out' \<le> length out + n"
proof (induction n out r arbitrary: out' r' rule: recv_pop_loop.induct)
  case (1 n out r)
  show ?case
  proof (cases "0 < n \<and> recv_ready r")
    case True
    then obtain b data where pop: "bh_pop rb_off (rv_data r) = Some (b, data)"
      using bh_pop_ready by blast
    define q where "q = (if n < rb_len b
      then (b\<lparr>rb_data := take n (rb_data b), rb_fin := False\<rparr>,
            bh_push rb_off \<lparr>rb_data = drop n (rb_data b), rb_off = rb_off b + of_nat n, rb_fin = rb_fin b\<rparr> data)
      else (b, data))"
    have "recv_pop_loop (n - rb_len (fst q)) (out @ rb_data (fst q))
        (r\<lparr>rv_data := snd q, rv_off := rv_off r + of_nat (rb_len (fst q))\<rparr>) = (out', r')"
      using "1.prems" True pop by (simp add: recv_pop_loop.simps [of n] q_def split: if_splits)
    then have "length out' \<le> length (out @ rb_data (fst q)) + (n - rb_len (fst q))"
      using "1.IH" [OF True pop refl q_def prod.collapse] by simp
    moreover have "rb_len (fst q) \<le> n" by (auto simp: q_def rb_len_def)
    ultimately show ?thesis by (simp add: rb_len_def)
  next
    case False
    with "1.prems" show ?thesis by (auto simp: recv_pop_loop.simps [of n] split: if_splits)
  qed
qed

lemma recv_pop_length: "recv_pop n r = Ok ((out, fin), r') \<Longrightarrow> length out \<le> n"
  using recv_pop_loop_length [of n "[]" r] by (auto simp: recv_pop_def Let_def split: if_splits prod.splits)

lemma recv_pop_no_panic: "recv_pop n r \<noteq> Panic"
  by (simp add: recv_pop_def Let_def split: prod.split)

lemma stream_recv_frame:
  assumes "stream_recv sid n c = (r, c')"
  shows "r \<noteq> Panic \<and> same_fate c c' \<and> (\<forall>v. r = Ok v \<longrightarrow> length (fst v) \<le> n)"
  using assms unfolding stream_recv_def
  by (auto simp: andThen_run act_defs on_streams_def on_stream_def on_recv_def same_fate_def is_closing_def
      split: if_splits option.splits prod.splits res.splits dest: recv_pop_length recv_pop_no_panic [THEN notE])

lemma stream_recv_ok:
  "wp (stream_recv sid n)
     (\<lambda>v c'. length (fst v) \<le> n \<and> same_fate c c' \<and> recv_left sid c' \<le> recv_left sid c
        \<and> (0 < n \<longrightarrow> recv_left sid c' < recv_left sid c))
     (\<lambda>e c'. e \<noteq> None \<and> same_fate c c') c"
proof (cases "stream_recv sid n c")
  case (Pair r c')
  with stream_recv_frame [OF Pair] stream_recv_left [OF Pair] show ?thesis
    by (cases r) (auto simp: wp_def)
qed

lemma discard_data_ok: "wp (discard_data sid) (\<lambda>_ _. False) (\<lambda>e c'. e \<noteq> None \<and> same_fate c c') c"
proof (induction sid c rule: discard_data.induct)
  case (1 sid c)
  obtain r c1 where run: "stream_recv sid 4096 c = (r, c1)" by fastforce
  with stream_recv_frame [OF run] 1 [OF run [symmetric]] show ?case
    by (cases r) (auto simp: wp_def discard_data.simps [of sid c] split: prod.splits res.splits intro: same_fate_trans)
qed

lemma shutdown_ok:
  "wp (stream_shutdown sid ShutdownRead) (\<lambda>_ c'. same_fate c c') (\<lambda>e c'. e \<noteq> None \<and> same_fate c c') c"
  by (auto simp: stream_shutdown_def wp_rules on_streams_def on_recv_def same_fate_def is_closing_def recv_shutdown_def
      split: option.split)

definition conn_open :: "('s, 'c) conn \<Rightarrow> bool" where
  "conn_open c \<longleftrightarrow> cn_draining_timer c = None \<and> \<not> is_closing c"

lemma conn_open_same: "conn_open c \<Longrightarrow> same_fate c c' \<Longrightarrow> conn_open c'"
  by (simp add: conn_open_def same_fate_def)

section \<open>The invariant of the connection\<close>

definition h3_good :: "h3_conn \<Rightarrow> bool" where
  "h3_good h \<longleftrightarrow> (\<forall>sid s. hc_streams h sid = Some s \<longrightarrow> hs_id s = sid \<and> h3_stream_ok s)"

definition h3_inv :: "('s, 'c) h3_world \<Rightarrow> bool" where
  "h3_inv w \<longleftrightarrow> h3_good (fst w) \<and> conn_open (snd w)"

text \<open>What a call that fails leaves: it never panics, and an error other than \<open>Done\<close> may have closed the connection.\<close>

definition h3_fails :: "h3_error option \<Rightarrow> ('s, 'c) h3_world \<Rightarrow> bool" where
  "h3_fails e w \<longleftrightarrow> e \<noteq> None \<and> (h3_inv w \<or> e \<noteq> Some H3Done \<and> is_closing (snd w))"

lemma put_stream_put [simp]: "put_stream sid t (put_stream sid s h) = put_stream sid t h"
  by (simp add: put_stream_def)

lemma put_stream_get [simp]: "hc_streams (put_stream sid s h) sid = Some s"
  by (simp add: put_stream_def)

lemma h3_good_put: "h3_good h \<Longrightarrow> hs_id s = sid \<Longrightarrow> h3_stream_ok s \<Longrightarrow> h3_good (put_stream sid s h)"
  by (simp add: h3_good_def put_stream_def)

lemma close_err_ok: "e \<noteq> H3Done \<Longrightarrow> conn_open (snd w) \<Longrightarrow> wp (close_err e reason) Q h3_fails w"
  by (simp add: close_err_def wp_rules conn_close_def conn_open_def h3_fails_def is_closing_def)

text \<open>A world whose streams are well formed but for one, of which something else is known.\<close>

definition h3_puts :: "u64 \<Rightarrow> (h3_stream \<Rightarrow> bool) \<Rightarrow> ('s, 'c) h3_world \<Rightarrow> bool" where
  "h3_puts sid P w \<longleftrightarrow> conn_open (snd w)
     \<and> (\<exists>h t. h3_good h \<and> fst w = put_stream sid t h \<and> hs_id t = sid \<and> P t)"

lemma h3_putsI: "conn_open c \<Longrightarrow> h3_good h \<Longrightarrow> hs_id t = sid \<Longrightarrow> P t \<Longrightarrow> h3_puts sid P (put_stream sid t h, c)"
  by (auto simp: h3_puts_def)

lemma h3_putsE:
  assumes "h3_puts sid P w"
  obtains h t where "fst w = put_stream sid t h" "h3_good h" "hs_id t = sid" "P t" "conn_open (snd w)"
  using assms by (auto simp: h3_puts_def)

lemma h3_puts_ok: "h3_puts sid h3_stream_ok w \<Longrightarrow> h3_inv w"
  by (auto simp: h3_puts_def h3_inv_def h3_good_put)

lemma h3_puts_get:
  "h3_inv w \<Longrightarrow> hc_streams (fst w) sid = Some s \<Longrightarrow> P s \<Longrightarrow> h3_puts sid (\<lambda>t. h3_stream_ok t \<and> P t) w"
  unfolding h3_puts_def by (rule conjI, simp add: h3_inv_def, rule exI [of _ "fst w"], rule exI [of _ s])
    (auto simp: h3_inv_def h3_good_def put_stream_def fun_upd_idem)

lemma fill_ok:
  assumes "h3_inv w" "hc_streams (fst w) sid = Some s" "hs_reads_varint s \<or> hs_state s = FramePayload"
  shows "wp (try_fill_buffer sid)
    (\<lambda>_ w'. h3_puts sid (\<lambda>t. hs_filled t \<and> hs_state t = hs_state s) w' \<and> recv_left sid (snd w') \<le> recv_left sid (snd w)
       \<and> (hs_reads_varint s \<longrightarrow> recv_left sid (snd w') < recv_left sid (snd w)))
    h3_fails w"
proof -
  from assms have s: "hs_id s = sid" "h3_stream_ok s" and good: "h3_good (fst w)" and opn: "conn_open (snd w)"
    by (auto simp: h3_inv_def h3_good_def)
  note room = fill_room_ok [OF s(2) assms(3)]
  have same: "put_stream sid s (fst w) = fst w"
    using assms(2) by (simp add: put_stream_def fun_upd_idem)
  have fails: "h3_fails (Some e) (put_stream i t (fst w), c)" if "hs_id t = i" "h3_stream_ok t" "conn_open c" for e t i c
    using that good by (simp add: h3_fails_def h3_inv_def h3_good_put)
  have room': "wp fill_room Q E s \<longleftrightarrow> Q (hs_len s - hs_off s) s" for Q E
    by (simp add: wp_def room(1))
  show ?thesis
    unfolding try_fill_buffer_def
  proof (simp add: wp_rules assms(2) room' s(1) same, rule wp_mono [OF stream_recv_ok])
    fix v :: "u8 list \<times> bool" and c
    assume v: "length (fst v) \<le> hs_len s - hs_off s \<and> same_fate (snd w) c \<and> recv_left sid c \<le> recv_left sid (snd w)
      \<and> (0 < hs_len s - hs_off s \<longrightarrow> recv_left sid c < recv_left sid (snd w))"
    then have c: "conn_open c" using conn_open_same opn by blast
    show "wp (case v of (data, x) \<Rightarrow> on_h3_stream sid (filled data))
        (\<lambda>_ w'. h3_puts sid (\<lambda>t. hs_filled t \<and> hs_state t = hs_state s) w' \<and> recv_left sid (snd w') \<le> recv_left sid (snd w)
         \<and> (hs_reads_varint s \<longrightarrow> recv_left sid (snd w') < recv_left sid (snd w)))
        h3_fails (fst w, c)"
      using v c room(2) s(1) assms(2) good
      by (cases v) (auto simp: wp_rules intro!: wp_mono [OF filled_ok [OF s(2) assms(3)]] fails h3_putsI)
  next
    fix e :: "error option" and c
    assume "e \<noteq> None \<and> same_fate (snd w) c"
    then show "h3_fails (map_option h3_from_error e) (fst w, c)"
      using conn_open_same [OF opn, of c] fails [OF s, of c] by (auto simp: same)
  qed
qed

section \<open>The rounds of the loop\<close>

lemma accept_ok:
  assumes "h3_inv w" "hc_streams (fst w) sid \<noteq> None" "ty \<noteq> TRequest"
  shows "wp (accept_stream_type sid ty)
    (\<lambda>_ w'. h3_inv w' \<and> snd w' = snd w \<and> hc_streams (fst w') = hc_streams (fst w)) h3_fails w"
  using assms
  by (cases ty) (auto simp: accept_stream_type_def wp_rules h3_inv_def h3_good_def intro!: close_err_ok)

text \<open>What a round leaves when the loop goes on: well-formed streams, and this one does not wait for a payload
  unless it has just read the payload's length.\<close>

definition h3_goes_on :: "bool \<Rightarrow> u64 \<Rightarrow> ('s, 'c) conn \<Rightarrow> ('s, 'c) h3_world \<Rightarrow> bool" where
  "h3_goes_on payload sid c w \<longleftrightarrow> h3_inv w \<and> snd w = c
     \<and> (\<exists>t. hc_streams (fst w) sid = Some t \<and> (payload \<or> hs_state t \<noteq> FramePayload))"

lemma h3_goes_onI:
  "h3_good h \<Longrightarrow> conn_open c \<Longrightarrow> hs_id t = sid \<Longrightarrow> h3_stream_ok t \<Longrightarrow> payload \<or> hs_state t \<noteq> FramePayload
   \<Longrightarrow> h3_goes_on payload sid c (put_stream sid t h, c)"
  by (simp add: h3_goes_on_def h3_inv_def h3_good_put)

lemma next_varint_ok:
  assumes "h3_puts sid (\<lambda>t. hs_filled t \<and> hs_state t = state) w" "state \<in> {StreamType, PushId, FrameType, FramePayloadLen}"
  shows "wp (next_varint sid)
    (\<lambda>v w'. snd w' = snd w
       \<and> (case v of None \<Rightarrow> h3_goes_on False sid (snd w) w'
          | Some v \<Rightarrow> h3_puts sid (\<lambda>t. hs_state t = state \<and> (state = FramePayloadLen \<longrightarrow> hs_frame_type t \<noteq> None)
              \<and> length (hs_buf t) \<le> MAX_STATE_BUF_SIZE) w'))
    h3_fails w"
proof -
  from assms(1) obtain h t where w: "fst w = put_stream sid t h" "h3_good h" "hs_id t = sid" "hs_filled t"
    "hs_state t = state" "conn_open (snd w)" by (auto elim: h3_putsE)
  then have "hs_reads_varint t" using assms(2) by (simp add: hs_reads_varint_def)
  note consume = consume_varint_ok [OF w(4) this]
  have payload: "state = FramePayloadLen \<longrightarrow> hs_frame_type t \<noteq> None"
    using w(4,5) by (simp add: hs_filled_def hs_payload_ok_def)
  show ?thesis
    using assms(2) w payload
    by (auto simp: next_varint_def wp_rules split: option.split
        intro!: wp_mono [OF consume] h3_goes_onI h3_putsI)
qed

lemma h3_goes_on_weaken: "h3_goes_on False sid c w \<Longrightarrow> h3_goes_on True sid c w"
  by (auto simp: h3_goes_on_def)

lemma wp_handled:
  assumes "wp (on_h3_stream sid m) Q (\<lambda>e t. e \<noteq> None \<and> e \<noteq> Some H3Done \<and> conn_open (snd t)) w"
  shows "wp (handling (on_h3_stream sid m) (\<lambda>e. close_err e (reason e))) Q h3_fails w"
  unfolding wp_handling by (rule wp_mono [OF assms]) (auto intro: close_err_ok split: option.split)

lemma on_stream_type_ok:
  assumes "h3_puts sid (\<lambda>t. hs_filled t \<and> hs_state t = StreamType) w"
  shows "wp (on_stream_type sid) (\<lambda>_. h3_goes_on False sid (snd w)) h3_fails w"
  unfolding on_stream_type_def wp_andThen
proof (rule wp_mono [OF next_varint_ok [OF assms]], simp, goal_cases)
  case (1 v w')
  show ?case
  proof (cases v)
    case None
    with 1 show ?thesis by (simp add: wp_ret)
  next
    case (Some x)
    with 1 obtain h t where w': "fst w' = put_stream sid t h" "h3_good h" "hs_id t = sid" "hs_state t = StreamType"
      "conn_open (snd w')" "snd w' = snd w" by (auto elim: h3_putsE)
    let ?ty = "h3_type_of x"
    have ty: "?ty \<noteq> TRequest" by (simp add: h3_type_of_def)
    have set: "wp (handling (on_h3_stream sid (set_ty ?ty)) (\<lambda>e. close_err e []))
        (\<lambda>_. h3_goes_on False sid (snd w)) h3_fails w'"
      by (rule wp_handled)
        (use w' in \<open>auto simp: wp_on_h3_stream intro!: wp_mono [OF set_ty_ok] h3_goes_onI\<close>)
    then show ?thesis
      using ty by (simp add: Some Let_def wp_andThen)
        (auto elim!: wp_mono simp: h3_goes_on_def intro!: wp_mono [OF accept_ok])
  qed
qed simp

lemma on_push_id_ok:
  assumes "h3_puts sid (\<lambda>t. hs_filled t \<and> hs_state t = PushId) w"
  shows "wp (on_push_id sid) (\<lambda>_. h3_goes_on False sid (snd w)) h3_fails w"
  unfolding on_push_id_def wp_andThen
  by (rule wp_mono [OF next_varint_ok [OF assms]])
    (auto simp: wp_ret wp_on_h3_stream elim!: h3_putsE split: option.split
      intro!: wp_handled wp_mono [OF set_push_id_ok] simp: h3_goes_onI)

lemma on_frame_type_ok:
  assumes "h3_puts sid (\<lambda>t. hs_filled t \<and> hs_state t = FrameType) w"
  shows "wp (on_frame_type sid) (\<lambda>_. h3_goes_on False sid (snd w)) h3_fails w"
  unfolding on_frame_type_def wp_andThen
  by (rule wp_mono [OF next_varint_ok [OF assms]])
    (auto simp: wp_ret wp_on_h3_stream elim!: h3_putsE split: option.split
      intro!: wp_handled wp_mono [OF set_frame_type_ok] simp: h3_goes_onI)

lemma on_payload_len_ok:
  assumes "h3_puts sid (\<lambda>t. hs_filled t \<and> hs_state t = FramePayloadLen) w"
  shows "wp (on_payload_len sid) (\<lambda>_. h3_goes_on True sid (snd w)) h3_fails w"
  unfolding on_payload_len_def wp_andThen
  by (rule wp_mono [OF next_varint_ok [OF assms]])
    (auto simp: wp_ret wp_on_h3_stream elim!: h3_putsE split: option.split
      intro!: wp_handled wp_mono [OF set_payload_len_ok] simp: h3_goes_onI
      intro: h3_goes_on_weaken)

text \<open>The frames.\<close>

lemma h3_process_headers_ok:
  assumes "h3_inv w"
  shows "wp (h3_process_headers lower sid block) (\<lambda>_ w'. w' = w) h3_fails w"
proof -
  obtain h c where w: "w = (h, c)" by fastforce
  let ?limit = "case set_max_header_list_size (hc_local_settings h) of Some n \<Rightarrow> n | None \<Rightarrow> - 1"
  show ?thesis
    using qpack_decode_total [where lower = lower and block = block and max_size = ?limit] assms
    by (cases "qpack_decode lower block ?limit") (auto simp: h3_process_headers_def wp_rules Let_def w h3_fails_def)
qed

lemma h3_inv_modify:
  "h3_inv w \<Longrightarrow> hc_streams h = hc_streams (fst w) \<Longrightarrow> h3_inv (h, snd w)"
  by (simp add: h3_inv_def h3_good_def)

lemma process_frame_ok:
  assumes "h3_inv w"
  shows "wp (h3_process_frame lower sid frame) (\<lambda>_ w'. w' = w)
    (\<lambda>e w'. h3_fails e w' \<and> (e = Some H3Done \<longrightarrow> snd w' = snd w \<and> hc_streams (fst w') = hc_streams (fst w))) w"
proof -
  have refuse: "wp (close_err e reason) (\<lambda>_ w'. w' = w)
      (\<lambda>e w'. h3_fails e w' \<and> (e = Some H3Done \<longrightarrow> snd w' = snd w \<and> hc_streams (fst w') = hc_streams (fst w))) w"
    if "e \<noteq> H3Done" for e reason
    using that assms by (simp add: close_err_def wp_rules conn_close_def h3_inv_def conn_open_def h3_fails_def is_closing_def)
  have headers: "wp (h3_process_headers lower sid block) (\<lambda>_ w'. w' = w)
      (\<lambda>e w'. h3_fails e w' \<and> (e = Some H3Done \<longrightarrow> snd w' = snd w \<and> hc_streams (fst w') = hc_streams (fst w))) w" for block
  proof -
    have "wp (h3_process_headers lower sid block) (\<lambda>_ _. True) (\<lambda>e w'. w' = w) w"
      by (auto simp: h3_process_headers_def wp_rules Let_def split: res.split)
    from wp_conj [OF h3_process_headers_ok [OF assms] this] show ?thesis by (rule wp_mono) auto
  qed
  have ends: "h3_fails (Some H3Done) (h, snd w)" if "hc_streams h = hc_streams (fst w)" for h
    using h3_inv_modify [OF assms that] by (simp add: h3_fails_def)
  show ?thesis
    using ends ends [of "fst w"] by (cases frame) (auto simp: h3_process_frame_def wp_rules Let_def intro!: refuse headers)
qed

lemma on_payload_ok:
  assumes "h3_puts sid (\<lambda>t. hs_filled t \<and> hs_state t = FramePayload) w"
  shows "wp (on_payload lower sid) (\<lambda>_. h3_goes_on False sid (snd w)) h3_fails w"
proof -
  from assms obtain h t where w: "fst w = put_stream sid t h" "h3_good h" "hs_id t = sid" "hs_filled t"
    "hs_state t = FramePayload" "conn_open (snd w)" by (auto elim: h3_putsE)
  have consume: "wp (handling (on_h3_stream sid try_consume_frame)
      (\<lambda>e. if e = H3Done then throw H3Done else close_err e ''Error handling frame.''))
      (\<lambda>_. h3_goes_on False sid (snd w)) h3_fails w"
    unfolding wp_handling wp_on_h3_stream using w
    by (auto simp: wp_throw h3_goes_onI h3_fails_def h3_inv_def h3_good_put split: option.split
        intro!: wp_mono [OF consume_frame_ok [OF w(4,5)]] close_err_ok)
  show ?thesis
    unfolding on_payload_def wp_andThen
    by (rule wp_mono [OF consume]) (auto simp: wp_none_if_done h3_goes_on_def intro!: wp_mono [OF process_frame_ok]
        simp: h3_fails_def)
qed

section \<open>The loop\<close>

text \<open>A bound on the rounds to come: a round that waits for a varint reads at least a byte of the transport; one
  that waits for a payload may read nothing, but is followed by one that waits for a frame type.\<close>

definition rounds_left :: "u64 \<Rightarrow> ('s, 'c) h3_world \<Rightarrow> nat" where
  "rounds_left sid w = 2 * recv_left sid (snd w)
     + (case hc_streams (fst w) sid of Some s \<Rightarrow> if hs_state s = FramePayload then 1 else 0 | None \<Rightarrow> 0)"

definition h3_round_ends :: "u64 \<Rightarrow> ('s, 'c) h3_world \<Rightarrow> 'a option \<Rightarrow> ('s, 'c) h3_world \<Rightarrow> bool" where
  "h3_round_ends sid w r w' \<longleftrightarrow> h3_inv w'
     \<and> (r = None \<longrightarrow> hc_streams (fst w') sid \<noteq> None \<and> rounds_left sid w' < rounds_left sid w)"

lemma varint_round_ok:
  assumes "h3_inv w" "hc_streams (fst w) sid = Some s" "hs_reads_varint s"
    and k: "\<And>w1. h3_puts sid (\<lambda>t. hs_filled t \<and> hs_state t = hs_state s) w1 \<Longrightarrow>
      wp k (\<lambda>_. h3_goes_on True sid (snd w1)) h3_fails w1"
  shows "wp (andThen (try_fill_buffer sid) (\<lambda>_. andThen k (\<lambda>_. ret None))) (h3_round_ends sid w) h3_fails w"
proof -
  have "hs_state s \<noteq> FramePayload" using assms(3) by (auto simp: hs_reads_varint_def)
  moreover have "wp k (\<lambda>_ w'. h3_goes_on True sid (snd w1) w') h3_fails w1"
    if "h3_puts sid (\<lambda>t. hs_filled t \<and> hs_state t = hs_state s) w1" for w1 using k [OF that] .
  ultimately show ?thesis
    unfolding wp_andThen wp_ret using assms(2,3)
    by (auto intro!: wp_mono [OF fill_ok [OF assms(1,2)]] wp_mono [OF k]
        simp: h3_goes_on_def h3_round_ends_def rounds_left_def)
qed

lemma payload_round_ok:
  assumes "h3_inv w" "hc_streams (fst w) sid = Some s" "hs_state s = FramePayload"
  shows "wp (andThen (try_fill_buffer sid) (\<lambda>_. on_payload lower sid)) (h3_round_ends sid w) h3_fails w"
  unfolding wp_andThen using assms(2,3)
  by (auto intro!: wp_mono [OF fill_ok [OF assms(1,2)]] wp_mono [OF on_payload_ok]
      simp: h3_goes_on_def h3_round_ends_def rounds_left_def)

lemma h3_fails_same:
  "h3_inv w \<Longrightarrow> same_fate (snd w) c \<Longrightarrow> e \<noteq> None \<Longrightarrow> h3_fails e (fst w, c)"
  by (auto simp: h3_fails_def h3_inv_def conn_open_same)

lemma read_step_ok:
  assumes "h3_inv w" "hc_streams (fst w) sid = Some s"
  shows "wp (read_step lower sid) (h3_round_ends sid w) h3_fails w"
proof -
  have state: "wp (on_h3_stream sid (reads_st hs_state)) Q E w = Q (hs_state s) w" for Q E
    using assms(2) by (cases w) (simp add: wp_rules put_stream_def fun_upd_idem)
  note weaken = wp_mono [OF _ h3_goes_on_weaken]
  show ?thesis
    unfolding read_step_def Let_def
  proof (subst wp_andThen, subst state, cases "hs_state s", simp_all)
    assume "hs_state s = StreamType"
    with assms show "wp (andThen (try_fill_buffer sid) (\<lambda>_. andThen (on_stream_type sid) (\<lambda>_. ret None)))
        (h3_round_ends sid w) h3_fails w"
      by (intro varint_round_ok) (auto simp: hs_reads_varint_def intro: weaken [OF on_stream_type_ok])
  next
    assume "hs_state s = FrameType"
    with assms show "wp (andThen (try_fill_buffer sid) (\<lambda>_. andThen (on_frame_type sid) (\<lambda>_. ret None)))
        (h3_round_ends sid w) h3_fails w"
      by (intro varint_round_ok) (auto simp: hs_reads_varint_def intro: weaken [OF on_frame_type_ok])
  next
    assume "hs_state s = FramePayloadLen"
    with assms show "wp (andThen (try_fill_buffer sid) (\<lambda>_. andThen (on_payload_len sid) (\<lambda>_. ret None)))
        (h3_round_ends sid w) h3_fails w"
      by (intro varint_round_ok) (auto simp: hs_reads_varint_def intro: on_payload_len_ok)
  next
    assume "hs_state s = PushId"
    with assms show "wp (andThen (try_fill_buffer sid) (\<lambda>_. andThen (on_push_id sid) (\<lambda>_. ret None)))
        (h3_round_ends sid w) h3_fails w"
      by (intro varint_round_ok) (auto simp: hs_reads_varint_def intro: weaken [OF on_push_id_ok])
  next
    assume "hs_state s = FramePayload"
    with assms show "wp (andThen (try_fill_buffer sid) (\<lambda>_. on_payload lower sid)) (h3_round_ends sid w) h3_fails w"
      by (intro payload_round_ok)
  qed (use assms in \<open>auto simp: wp_rules h3_round_ends_def
    intro!: wp_mono [OF discard_data_ok] wp_mono [OF shutdown_ok] h3_fails_same\<close>)
qed

lemma read_loop_ok:
  assumes "h3_inv w" "hc_streams (fst w) sid \<noteq> None" "rounds_left sid w \<le> n"
  shows "wp (read_loop lower sid n) (\<lambda>_. h3_inv) h3_fails w"
  using assms
proof (induction n arbitrary: w)
  case (0 w)
  then obtain s where "hc_streams (fst w) sid = Some s" by auto
  from read_step_ok [OF 0(1) this, of lower] show ?case
    using 0(3) by (simp add: read_loop.simps [of lower sid 0] wp_andThen)
      (erule wp_mono, auto simp: wp_ret wp_lift h3_round_ends_def split: option.split)
next
  case (Suc n)
  then obtain s where s: "hc_streams (fst w) sid = Some s" by auto
  have "wp (case r of None \<Rightarrow> read_loop lower sid n | Some ev \<Rightarrow> ret ev) (\<lambda>_. h3_inv) h3_fails w'"
    if "h3_round_ends sid w r w'" for r w'
    using that Suc.prems(3) by (auto simp: h3_round_ends_def wp_ret split: option.split intro: Suc.IH)
  with read_step_ok [OF Suc.prems(1) s, of lower] show ?case
    by (simp add: read_loop.simps [of lower sid "Suc n"] wp_andThen) (erule wp_mono, auto)
qed

section \<open>The operations\<close>

lemma process_readable_ok: "safe h3_inv h3_fails (process_readable_stream lower sid)"
proof (rule safeI)
  fix w :: "('s, 'c) h3_world"
  assume w: "h3_inv w"
  let ?h = "if hc_streams (fst w) sid = None
    then (fst w)\<lparr>hc_streams := (hc_streams (fst w))(sid \<mapsto> h3_stream_new sid False)\<rparr> else fst w"
  have inv: "h3_inv (?h, snd w)"
    using w stream_ok_new [of sid False] by (auto simp: h3_inv_def h3_good_def h3_stream_new_def Let_def split: prod.split)
  have "hc_streams ?h sid \<noteq> None" "rounds_left sid (?h, snd w) \<le> 2 * recv_left sid (snd w) + 1"
    by (auto simp: rounds_left_def split: option.split)
  with inv show "wp (process_readable_stream lower sid) (\<lambda>_. h3_inv) h3_fails w"
    unfolding process_readable_stream_def wp_andThen wp_h3_modify wp_quic_reads snd_conv
    by (intro read_loop_ok) simp_all
qed

lemma h3_inv_fails: "h3_inv w \<Longrightarrow> h3_fails (Some e) w"
  by (simp add: h3_fails_def)

lemma safe_ret: "safe I E (ret x)"
  by (simp add: safe_def wp_ret)

lemma safe_option: "safe I E m \<Longrightarrow> (\<And>x. safe I E (f x)) \<Longrightarrow> safe I E (case ev of None \<Rightarrow> m | Some x \<Rightarrow> f x)"
  by (cases ev) simp_all

lemma none_if_done_ok:
  assumes "safe h3_inv h3_fails m"
  shows "safe h3_inv h3_fails (none_if_done m)"
  by (rule safeI, unfold wp_none_if_done, rule wp_mono [OF safe_wp [OF assms]]) (auto simp: h3_fails_def)

lemma refuse_closed_ok: "safe h3_inv h3_fails (refuse_closed sid)"
  by (rule safeI) (auto simp: refuse_closed_def wp_rules h3_inv_def intro: close_err_ok)

lemma note_finished_ok: "safe h3_inv h3_fails (note_finished sid)"
  by (rule safeI) (auto simp: note_finished_def wp_rules h3_inv_def h3_good_def)

lemma control_stream_ok: "safe h3_inv h3_fails (process_control_stream lower sid)"
  unfolding process_control_stream_def
  by (intro safe_andThen refuse_closed_ok none_if_done_ok process_readable_ok)

lemma poll_critical_ok: "safe h3_inv h3_fails (poll_critical lower get)"
  by (rule safeI)
    (auto simp: poll_critical_def wp_rules split: option.split intro: safe_wp [OF control_stream_ok])

lemma poll_streams_ok: "safe h3_inv h3_fails (poll_streams lower sids)"
proof (induction sids)
  case Nil
  then show ?case by (auto simp: safe_def wp_throw h3_fails_def)
next
  case (Cons sid sids)
  then show ?case
    by (simp, intro safe_andThen safe_option safe_ret none_if_done_ok process_readable_ok note_finished_ok)
qed

lemma poll_ok:
  assumes "h3_inv w"
  shows "wp (poll env lower) (\<lambda>_. h3_inv) h3_fails w"
proof -
  let ?rest = "andThen (h3_reads hc_finished) (\<lambda>finished.
     case finished of
       sid # rest \<Rightarrow> andThen (h3_modify (\<lambda>h. h\<lparr>hc_finished := rest\<rparr>)) (\<lambda>_. ret (sid, EvFinished))
     | [] \<Rightarrow> andThen (quic_reads (\<lambda>c. en_order env (conn_readable c))) (\<lambda>sids. poll_streams lower sids))"
  let ?all = "andThen (poll_critical lower hc_peer_control) (\<lambda>_. andThen (poll_critical lower hc_peer_encoder) (\<lambda>_.
     andThen (poll_critical lower hc_peer_decoder) (\<lambda>_. ?rest)))"
  have "safe h3_inv h3_fails ?rest"
    by (rule safeI)
      (auto simp: wp_rules h3_inv_def h3_good_def split: list.split intro!: safe_wp [OF poll_streams_ok])
  then have "safe h3_inv h3_fails ?all"
    by (rule safe_andThen [OF poll_critical_ok safe_andThen [OF poll_critical_ok safe_andThen [OF poll_critical_ok]]])
  note all = safe_wp [OF this assms]
  from assms have "\<not> (cn_error (snd w) \<noteq> None \<or> cn_app_error (snd w) \<noteq> None)"
    by (simp add: h3_inv_def conn_open_def is_closing_def)
  then show ?thesis
    unfolding poll_def wp_andThen [where m = "quic_reads _"] wp_andThen [where m = "fail_if _ _"] wp_quic_reads wp_fail_if
    using all by (simp only: if_False)
qed

end
