(* ===== verification/H3Safe.thy ===== *)
theory H3Safe
  imports H3Inv
begin

text \<open>
  What every call of the HTTP/3 connection keeps (the locales), the states that are reached by the calls
  of an application and of the transport, and the properties of \<open>poll\<close> in them.
\<close>

section \<open>Interfaces\<close>

lemma keeps_run: "keeps I m \<Longrightarrow> m s = (r, t) \<Longrightarrow> I s \<Longrightarrow> I t"
  unfolding keeps_def by (metis snd_conv)

lemma keeps_prod: "(\<And>a b. keeps I (f a b)) \<Longrightarrow> keeps I (case x of (a, b) \<Rightarrow> f a b)"
  by (cases x) simp

lemma keeps_option: "keeps I m \<Longrightarrow> (\<And>x. keeps I (f x)) \<Longrightarrow> keeps I (case v of None \<Rightarrow> m | Some x \<Rightarrow> f x)"
  by (cases v) simp_all

lemma keeps_handling: "keeps I m \<Longrightarrow> (\<And>e. keeps I (f e)) \<Longrightarrow> keeps I (handling m f)"
  by (auto simp: keeps_iff_wp wp_handling intro!: wp_mono [OF keeps_wp [of I m]] split: option.split)

lemma keeps_none_if_done: "keeps I m \<Longrightarrow> keeps I (none_if_done m)"
  unfolding none_if_done_def by (intro keeps_handling keeps_andThen keeps_ret keeps_if keeps_throw)

lemma keeps_ignore_err: "keeps I m \<Longrightarrow> keeps I (ignore_err m)"
  by (auto simp: keeps_def ignore_err_def split: prod.split res.split)

lemma keeps_reading [intro!]: "keeps J (h3_reads g)" "keeps J (quic_reads g')"
  by (simp_all add: h3_reads_def quic_reads_def keeps_reads_st)

lemma keeps_h3_modify: "(\<And>h c. J (h, c) \<Longrightarrow> J (g h, c)) \<Longrightarrow> keeps J (h3_modify g)"
  by (auto simp: keeps_def h3_modify_def modify_def)

lemma keeps_transport: "keeps I m \<Longrightarrow> keeps (\<lambda>w. I (snd w)) (transport m)"
  by (auto simp: keeps_def transport_def split: prod.split)

lemma keeps_transport_fst: "keeps (\<lambda>w. I (fst w)) (transport m)"
  by (auto simp: keeps_def transport_def split: prod.split)

lemmas h3_keep_rules = keeps_andThen keeps_ret keeps_throw keeps_lift keeps_fail_if keeps_whenever keeps_if keeps_reading
  keeps_prod keeps_option keeps_ignore_err keeps_handling keeps_none_if_done

text \<open>What is kept by everything that sends.\<close>

locale h3_sending =
  fixes J :: "('s, 'c) h3_world \<Rightarrow> bool"
  assumes kept_send: "keeps J (transport (stream_send_full env sid data fin deadline priority depend_id))"
    and kept_request: "J (h, c) \<Longrightarrow> J (h\<lparr>hc_highest_request := v1\<rparr>, c)"
    and kept_uni: "J (h, c) \<Longrightarrow> J (h\<lparr>hc_highest_uni := v2\<rparr>, c)"
    and kept_control: "J (h, c) \<Longrightarrow> J (h\<lparr>hc_control := v3\<rparr>, c)"
    and kept_encoder: "J (h, c) \<Longrightarrow> J (h\<lparr>hc_local_encoder := v4\<rparr>, c)"
    and kept_decoder: "J (h, c) \<Longrightarrow> J (h\<lparr>hc_local_decoder := v5\<rparr>, c)"
    and kept_greased: "J (h, c) \<Longrightarrow> J (h\<lparr>hc_greased := v6\<rparr>, c)"
    and kept_opened: "J (h, c) \<Longrightarrow> J (h\<lparr>hc_streams := (hc_streams h)(sid \<mapsto> h3_stream_new sid True)\<rparr>, c)"
    and kept_removed: "J (h, c) \<Longrightarrow> J (h\<lparr>hc_streams := (hc_streams h)(sid := None)\<rparr>, c)"
begin

lemmas sending_rules = h3_keep_rules kept_send keeps_h3_modify kept_request kept_uni kept_control kept_encoder kept_decoder
  kept_greased kept_opened kept_removed

lemma keeps_h3_send: "keeps J (h3_send env sid deadline data fin)"
  unfolding h3_send_def by (rule kept_send)

lemma keeps_stream_send: "keeps J (transport (stream_send env sid data fin))"
  unfolding stream_send_def by (rule kept_send)

lemma keeps_open_uni: "keeps J (open_uni_stream env ty)"
  unfolding open_uni_stream_def get_available_uni_stream_def by (intro sending_rules keeps_stream_send)

lemma keeps_send_settings: "keeps J (send_settings env rnd)"
  unfolding send_settings_def Let_def by (intro sending_rules keeps_open_uni keeps_stream_send)

lemma keeps_open_grease: "keeps J (open_grease_stream env n)"
proof (unfold keeps_def, intro allI impI)
  fix w assume w: "J w"
  obtain r w1 where run: "open_uni_stream env (grease_value n) w = (r, w1)" by (rule prod.exhaust)
  with w keeps_open_uni [of env "grease_value n"] have w1: "J w1" unfolding keeps_def by (metis snd_conv)
  have "keeps J (andThen (transport (stream_send env sid grease_word False)) (\<lambda>_. ret ()))" for sid
    by (intro sending_rules keeps_stream_send)
  with w1 have "J (snd (andThen (transport (stream_send env sid grease_word False)) (\<lambda>_. ret ()) w1))" for sid
    unfolding keeps_def by blast
  with w1 show "J (snd (open_grease_stream env n w))"
    by (cases r) (simp_all add: open_grease_stream_def run)
qed

lemma keeps_open_qpack: "keeps J (open_qpack_encoder_stream env)" "keeps J (open_qpack_decoder_stream env)"
  unfolding open_qpack_encoder_stream_def open_qpack_decoder_stream_def by (intro sending_rules keeps_open_uni; assumption)+

lemma keeps_send_headers: "keeps J (send_headers env rnd sid headers fin deadline)"
  unfolding send_headers_def send_grease_frames_def
  by (intro sending_rules keeps_h3_send keeps_stream_send)

lemma keeps_send_request: "keeps J (send_request_full env rnd headers fin deadline)"
  unfolding send_request_full_def get_available_request_stream_def by (intro sending_rules keeps_send_headers)

lemma keeps_send_response: "keeps J (send_response_full env rnd sid headers fin deadline)"
  unfolding send_response_full_def by (rule keeps_send_headers)

lemma keeps_send_body: "keeps J (send_body_full env sid body fin deadline)"
  unfolding send_body_full_def Let_def by (intro sending_rules keeps_h3_send)

lemma keeps_with_transport:
  assumes "with_transport env rnd cf c = (r, w)" "J (h3_conn_new cf (cn_is_server c), c)"
  shows "J w"
proof -
  have "keeps J (andThen (send_settings (env 0) rnd) (\<lambda>_.
     andThen (ignore_err (open_qpack_encoder_stream (env 1))) (\<lambda>_.
     andThen (ignore_err (open_qpack_decoder_stream (env 2))) (\<lambda>_.
     andThen (quic_reads cn_grease) (\<lambda>grease.
     whenever grease (ignore_err (open_grease_stream (env 3) (rnd 2))))))))"
    by (intro sending_rules keeps_send_settings keeps_open_qpack keeps_open_grease)
  with assms show ?thesis unfolding with_transport_def keeps_def by (metis snd_conv)
qed

end

text \<open>What is kept by everything, because it does not depend on the streams' parsers.\<close>

locale h3_receiving = h3_sending J for J :: "('s, 'c) h3_world \<Rightarrow> bool" +
  assumes kept_recv: "keeps J (transport (stream_recv sid n))"
    and kept_shutdown: "keeps J (transport (stream_shutdown sid direction))"
    and kept_close: "keeps J (transport (conn_close app err reason))"
    and kept_streams: "J (h, c) \<Longrightarrow> J (h\<lparr>hc_streams := v7\<rparr>, c)"
    and kept_settings: "J (h, c) \<Longrightarrow> J (h\<lparr>hc_peer_settings := v8\<rparr>, c)"
    and kept_push: "J (h, c) \<Longrightarrow> J (h\<lparr>hc_max_push_id := v9\<rparr>, c)"
    and kept_finished: "J (h, c) \<Longrightarrow> J (h\<lparr>hc_finished := v10\<rparr>, c)"
    and kept_peer_control: "J (h, c) \<Longrightarrow> J (h\<lparr>hc_peer_control := v11\<rparr>, c)"
    and kept_peer_encoder: "J (h, c) \<Longrightarrow> J (h\<lparr>hc_peer_encoder := v12\<rparr>, c)"
    and kept_peer_decoder: "J (h, c) \<Longrightarrow> J (h\<lparr>hc_peer_decoder := v13\<rparr>, c)"
begin

lemma keeps_on_stream: "keeps J (on_h3_stream sid m)"
  by (auto simp: keeps_def on_h3_stream_def kept_streams split: option.split prod.split)

lemma keeps_close_err: "keeps J (close_err e reason)"
  unfolding close_err_def by (intro h3_keep_rules kept_close)

lemma keeps_discard: "keeps J (transport (discard_data sid))"
proof -
  have "J (h, snd (discard_data sid c))" if "J (h, c)" for h c
    using that
  proof (induction sid c rule: discard_data.induct)
    case (1 sid c)
    obtain r c1 where run: "stream_recv sid 4096 c = (r, c1)" by fastforce
    with 1(2) kept_recv [of sid 4096] have "J (h, c1)"
      by (auto simp: keeps_def transport_def split: prod.splits)
    with 1(1) [OF run [symmetric]] run show ?case
      by (cases r) (auto simp: discard_data.simps [of sid c] split: prod.splits)
  qed
  then show ?thesis by (auto simp: keeps_def transport_def split: prod.split) (metis snd_conv)
qed

lemmas receiving_rules = h3_keep_rules keeps_on_stream keeps_close_err keeps_discard kept_recv kept_shutdown keeps_h3_modify
  kept_streams kept_settings kept_push kept_finished kept_peer_control kept_peer_encoder kept_peer_decoder

lemma keeps_recv_body: "keeps J (recv_body sid n)"
  unfolding recv_body_def try_consume_data_def note_finished_def by (intro receiving_rules)

lemma keeps_frame: "keeps J (h3_process_frame lower sid frame)"
  unfolding h3_process_frame_def h3_process_headers_def Let_def
  by (cases frame; simp only: h3_frame.case; intro receiving_rules)

lemma keeps_read_step: "keeps J (read_step lower sid)"
proof -
  have accept: "keeps J (accept_stream_type sid ty)" for ty
    unfolding accept_stream_type_def by (cases ty; simp only: h3_type.case; intro receiving_rules)
  have step: "keeps J (on_stream_type sid)" "keeps J (on_push_id sid)" "keeps J (on_frame_type sid)"
    "keeps J (on_payload_len sid)" "keeps J (on_payload lower sid)" "keeps J (try_fill_buffer sid)"
    unfolding on_stream_type_def on_push_id_def on_frame_type_def on_payload_len_def on_payload_def try_fill_buffer_def
      next_varint_def Let_def
    by (intro receiving_rules accept keeps_frame)+
  have "keeps J (case state of
       StreamType \<Rightarrow> andThen (try_fill_buffer sid) (\<lambda>_. andThen (on_stream_type sid) (\<lambda>_. ret None))
     | PushId \<Rightarrow> andThen (try_fill_buffer sid) (\<lambda>_. andThen (on_push_id sid) (\<lambda>_. ret None))
     | FrameType \<Rightarrow> andThen (try_fill_buffer sid) (\<lambda>_. andThen (on_frame_type sid) (\<lambda>_. ret None))
     | FramePayloadLen \<Rightarrow> andThen (try_fill_buffer sid) (\<lambda>_. andThen (on_payload_len sid) (\<lambda>_. ret None))
     | FramePayload \<Rightarrow> andThen (try_fill_buffer sid) (\<lambda>_. on_payload lower sid)
     | DataPayload \<Rightarrow> ret (Some (sid, EvData))
     | QpackInstruction \<Rightarrow> andThen (transport (discard_data sid)) (\<lambda>_. throw H3Done)
     | Drain \<Rightarrow> andThen (transport (stream_shutdown sid ShutdownRead)) (\<lambda>_. throw H3Done))" for state
    by (cases state; simp only: h3_state.case; intro receiving_rules step)
  then show ?thesis unfolding read_step_def Let_def by (intro keeps_andThen keeps_on_stream)
qed

lemma keeps_read_loop: "keeps J (read_loop lower sid n)"
proof (induction n)
  case 0
  show ?case unfolding read_loop.simps [of lower sid 0] nat.case by (intro receiving_rules keeps_read_step)
next
  case (Suc n)
  then show ?case unfolding read_loop.simps [of lower sid "Suc n"] nat.case
    by (intro receiving_rules keeps_read_step)
qed

lemma keeps_readable: "keeps J (process_readable_stream lower sid)"
  unfolding process_readable_stream_def by (intro receiving_rules keeps_read_loop) (simp add: kept_streams)

lemma keeps_poll: "keeps J (poll env lower)"
proof -
  have closed: "keeps J (refuse_closed sid)" for sid
    unfolding refuse_closed_def by (intro receiving_rules)
  have critical: "keeps J (poll_critical lower get)" for get
    unfolding poll_critical_def process_control_stream_def by (intro receiving_rules closed keeps_readable)
  have streams: "keeps J (poll_streams lower sids)" for sids
    by (induction sids; simp only: poll_streams.simps note_finished_def; intro receiving_rules keeps_readable)
  have rest: "keeps J (case finished of
       sid # rest \<Rightarrow> andThen (h3_modify (\<lambda>h. h\<lparr>hc_finished := rest\<rparr>)) (\<lambda>_. ret (sid, EvFinished))
     | [] \<Rightarrow> andThen (quic_reads (\<lambda>c. en_order env (conn_readable c))) (\<lambda>sids. poll_streams lower sids))" for finished
    by (cases finished; simp only: list.case; intro receiving_rules streams)
  show ?thesis unfolding poll_def by (intro keeps_andThen keeps_reading keeps_fail_if critical rest)
qed

end

section \<open>The runs\<close>

text \<open>The calls of an application: those of the HTTP/3 connection and, on the same transport connection, those of
  the transport (packets, timers, streams of its own). A call that panics ends the run.\<close>

inductive h3_step :: "('s, 'c, 'p) ext \<Rightarrow> ('s, 'c) h3_world \<Rightarrow> ('s, 'c) h3_world \<Rightarrow> bool" for x where
  h3_step_transport: "conn_step x c c' \<Longrightarrow> h3_step x (h, c) (h, c')"
| h3_step_request: "send_request_full env rnd headers fin deadline w = (ri, w') \<Longrightarrow> ri \<noteq> Panic \<Longrightarrow> h3_step x w w'"
| h3_step_response: "send_response_full env rnd sid headers fin deadline w = (ru, w') \<Longrightarrow> ru \<noteq> Panic \<Longrightarrow> h3_step x w w'"
| h3_step_body: "send_body_full env sid body fin deadline w = (rn, w') \<Longrightarrow> rn \<noteq> Panic \<Longrightarrow> h3_step x w w'"
| h3_step_recv_body: "recv_body sid n w = (rb, w') \<Longrightarrow> rb \<noteq> Panic \<Longrightarrow> h3_step x w w'"
| h3_step_poll: "poll env lower w = (re, w') \<Longrightarrow> re \<noteq> Panic \<Longrightarrow> h3_step x w w'"

inductive h3_reach :: "('s, 'c, 'p) ext \<Rightarrow> ('s, 'c) h3_world \<Rightarrow> bool" for x where
  h3_reach_new: "with_transport env rnd cf c = (Ok (), w) \<Longrightarrow> h3_reach x w"
| h3_reach_step: "h3_reach x w \<Longrightarrow> h3_step x w w' \<Longrightarrow> h3_reach x w'"

text \<open>The transport connection is closing or draining: it stays so.\<close>

definition conn_ending :: "('s, 'c) conn \<Rightarrow> bool" where
  "conn_ending c \<longleftrightarrow> is_closing c \<or> cn_draining_timer c \<noteq> None"

interpretation ending: conn_always conn_ending
  by unfold_locales (auto simp: conn_ending_def is_closing_def)

interpretation h3_ending: h3_receiving "\<lambda>w. conn_ending (snd w)"
proof
  show "keeps (\<lambda>w. conn_ending (snd w)) (transport (conn_close app err reason))" for app err reason
    by (intro keeps_transport) (auto simp: conn_close_def conn_ending_def is_closing_def
        intro!: keeps_andThen keeps_reads_st keeps_fail_if keeps_if keeps_modify)
qed (auto intro: keeps_transport ending.api.keeps_stream_api)

interpretation h3_parsers: h3_sending "\<lambda>w. h3_good (fst w)"
proof
  show "h3_good (fst (h\<lparr>hc_streams := (hc_streams h)(sid \<mapsto> h3_stream_new sid True)\<rparr>, c))"
    if "h3_good (fst (h, c))" for h sid and c :: "('s, 'c) conn"
    using that stream_ok_new [of sid True]
    by (auto simp: h3_good_def h3_stream_new_def Let_def split: prod.split)
qed (auto intro: keeps_transport_fst simp: h3_good_def)

lemma data_consumed_ok:
  assumes "hs_state s = DataPayload" "length (hs_buf s) \<le> MAX_STATE_BUF_SIZE"
  shows "wp (data_consumed k) (\<lambda>_ t. h3_stream_ok t \<and> hs_id t = hs_id s) (\<lambda>_ _. False) s"
proof -
  have "h3_stream_ok (s\<lparr>hs_off := n\<rparr>)" for n
    using assms by (simp add: h3_stream_ok_def hs_payload_ok_def hs_reads_varint_def)
  then show ?thesis
    using assms by (auto simp: data_consumed_def wp_rules intro!: wp_mono [OF transition_ok])
qed

lemma recv_body_ok:
  assumes "h3_good (fst w)"
  shows "wp (recv_body sid n) (\<lambda>_ w'. h3_good (fst w')) (\<lambda>e w'. e \<noteq> None \<and> h3_good (fst w')) w"
proof (cases "hc_streams (fst w) sid")
  case None
  then show ?thesis using assms by (simp add: recv_body_def wp_rules)
next
  case (Some s)
  with assms have s: "hs_id s = sid" "length (hs_buf s) \<le> MAX_STATE_BUF_SIZE" "put_stream sid s (fst w) = fst w"
    by (auto simp: h3_good_def h3_stream_ok_def hs_payload_ok_def put_stream_def fun_upd_idem)
  show ?thesis
    using assms Some s
    by (auto simp: recv_body_def try_consume_data_def note_finished_def wp_rules h3_good_put
        h3_good_def [of "_\<lparr>hc_finished := _\<rparr>"] h3_good_def [symmetric]
        intro!: wp_mono [OF stream_recv_ok] wp_mono [OF data_consumed_ok])
qed

lemma poll_good:
  assumes "h3_good h" "\<not> conn_ending c" "poll env lower (h, c) = (r, (h', c'))"
  shows "r \<noteq> Panic \<and> (h3_good h' \<or> is_closing c')"
proof -
  have "h3_inv (h, c)" using assms by (simp add: h3_inv_def conn_open_def conn_ending_def)
  from poll_ok [OF this, of env lower] assms(3) show ?thesis
    by (cases r) (auto simp: wp_def h3_fails_def h3_inv_def)
qed

lemma poll_closing: "is_closing (snd w) \<Longrightarrow> poll env lower w = (Err H3Done, w)"
  by (cases w) (simp add: poll_def andThen_run quic_reads_def reads_st_def fail_if_def throw_def is_closing_def)

lemma h3_step_good:
  assumes "h3_step x w w'" "h3_good (fst w) \<or> conn_ending (snd w)"
  shows "h3_good (fst w') \<or> conn_ending (snd w')"
  using assms
proof (cases "conn_ending (snd w)")
  case True
  from assms(1) True have "conn_ending (snd w')"
  proof cases
    case (h3_step_transport c c' h)
    with True show ?thesis using ending.keeps_step by simp
  qed (use True in \<open>auto dest: keeps_run [OF h3_ending.keeps_send_request] keeps_run [OF h3_ending.keeps_send_response]
      keeps_run [OF h3_ending.keeps_send_body] keeps_run [OF h3_ending.keeps_recv_body] keeps_run [OF h3_ending.keeps_poll]\<close>)
  then show ?thesis ..
next
  case False
  with assms(2) have good: "h3_good (fst w)" by simp
  from assms(1) show ?thesis
  proof cases
    case (h3_step_recv_body sid n rb)
    with recv_body_ok [OF good, of sid n] show ?thesis by (cases rb) (simp_all add: wp_def)
  next
    case (h3_step_poll env lower re)
    with poll_good [OF good False, of env lower re "fst w'" "snd w'"] show ?thesis by (auto simp: conn_ending_def)
  qed (use good in \<open>auto dest: keeps_run [OF h3_parsers.keeps_send_request] keeps_run [OF h3_parsers.keeps_send_response]
      keeps_run [OF h3_parsers.keeps_send_body]\<close>)
qed

lemma h3_reach_good: "h3_reach x w \<Longrightarrow> h3_good (fst w) \<or> conn_ending (snd w)"
proof (induction rule: h3_reach.induct)
  case (h3_reach_new env rnd cf c w)
  have "h3_good (h3_conn_new cf (cn_is_server c))" by (simp add: h3_good_def h3_conn_new_def)
  with h3_parsers.keeps_with_transport [OF h3_reach_new(1)] show ?case by simp
next
  case (h3_reach_step w w')
  then show ?case using h3_step_good by blast
qed

section \<open>An example\<close>

text \<open>A server whose peer allows one unidirectional stream and no data on it: the control stream is opened, the
  QPACK streams are not.\<close>

definition example_quic :: "(unit, unit) conn" where
  "example_quic = (example_conn True)\<lparr>cn_grease := False,
     cn_streams := (sm_new False True 2 2 SchedBasic)\<lparr>sm_peer_max_streams_uni := 1\<rparr>\<rparr>"

lemma quic_fields: "cn_is_server example_quic" "cn_local_tp example_quic = tp_default" "cn_peer_tp example_quic = tp_default"
  "\<not> cn_grease example_quic" "cn_draining_timer example_quic = None" "\<not> is_closing example_quic"
  "cn_streams example_quic = (sm_new False True 2 2 SchedBasic)\<lparr>sm_peer_max_streams_uni := 1\<rparr>"
  by (simp_all add: example_quic_def example_conn_def conn_init_def Let_def config_new_def is_closing_def)

lemma example_ids: "is_local 3 True" "\<not> is_bidi 3" "is_local 7 True" "\<not> is_bidi 7" "is_local 11 True" "\<not> is_bidi 11"
  by (simp_all add: is_local_def is_bidi_def)

definition stalled :: "(unit, unit) conn \<Rightarrow> bool" where
  "stalled c \<longleftrightarrow> cn_is_server c \<and> \<not> cn_grease c \<and> cn_draining_timer c = None \<and> \<not> is_closing c
     \<and> (\<exists>s. sm_streams (cn_streams c) = [3 \<mapsto> s] \<and> \<not> sb_shutdown (st_send s) \<and> send_cap (st_send s) = 0)
     \<and> sm_peer_max_streams_uni (cn_streams c) = 1 \<and> sm_local_opened_streams_uni (cn_streams c) = 1
     \<and> sm_collected (cn_streams c) = {}"

lemma push_stalled: "\<not> sb_shutdown b \<Longrightarrow> send_cap b = 0 \<Longrightarrow> data \<noteq> [] \<Longrightarrow> send_push_slice data False b = (Ok 0, b)"
  by (simp add: send_push_slice_def chunks_of.simps)

lemma send_stalled:
  assumes "stalled c" "data \<noteq> []"
  shows "\<exists>c'. stream_send (quiet_env 0) 3 data False c = (Ok 0, c') \<and> stalled c'"
proof -
  from assms obtain s where s: "sm_streams (cn_streams c) = [3 \<mapsto> s]" "\<not> sb_shutdown (st_send s)" "send_cap (st_send s) = 0"
    by (auto simp: stalled_def)
  show ?thesis
    using assms s push_stalled [OF s(2,3) assms(2)]
    by (auto simp: stream_send_def stream_send_full_def andThen_run reads_st_def fail_if_def ret_def stalled_def example_ids
        get_or_create_stream_full_def on_streams_def on_part_def pure_val_def sm_get_or_create_def on_stream_def on_send_def Let_def
        modify_def is_closing_def sm_push_flushable_def sm_mark_writable_def)
qed

lemma send_first:
  assumes "data \<noteq> []"
  shows "\<exists>c'. stream_send (quiet_env 0) 3 data False example_quic = (Ok 0, c') \<and> stalled c'"
proof -
  let ?s = "stream_new_full (en_wall (quiet_env 0)) (en_clock (quiet_env 0)) 0 0 False True MAX_DEADLINE DEFAULT_PRIORITY 3"
  have s: "\<not> sb_shutdown (st_send ?s)" "send_cap (st_send ?s) = 0" "\<not> stream_is_writable ?s"
    by (simp_all add: stream_new_full_def send_new_full_def send_cap_def stream_is_writable_def)
  show ?thesis
    using s push_stalled [OF s(1,2) assms] quic_fields
    by (auto simp: stream_send_def stream_send_full_def andThen_run reads_st_def fail_if_def ret_def stalled_def example_ids
        get_or_create_stream_full_def on_streams_def on_part_def pure_val_def sm_get_or_create_def on_stream_def on_send_def Let_def
        sm_new_def stream_limits_def tp_default_def sm_count_def
        modify_def is_closing_def sm_push_flushable_def sm_mark_writable_def)
qed

lemma refuse_more:
  assumes "stalled c" "sid \<in> {7, 11}"
  shows "stream_send (quiet_env 0) sid data False c = (Err StreamLimit, c)"
  using assms by (auto simp: stalled_def stream_send_def stream_send_full_def andThen_run reads_st_def fail_if_def ret_def example_ids
      get_or_create_stream_full_def on_streams_def on_part_def pure_val_def sm_get_or_create_def Let_def stream_limits_def sm_count_def)

lemma type_slices:
  "put_slice HTTP3_CONTROL_STREAM_TYPE_ID (with_slice (replicate 8 0)) = Ok ([0], \<lparr>buf = replicate 8 0, off = 1\<rparr>)"
  "put_slice QPACK_ENCODER_STREAM_TYPE_ID (with_slice (replicate 8 0)) = Ok ([2], \<lparr>buf = 2 # replicate 7 0, off = 1\<rparr>)"
  "put_slice QPACK_DECODER_STREAM_TYPE_ID (with_slice (replicate 8 0)) = Ok ([3], \<lparr>buf = 3 # replicate 7 0, off = 1\<rparr>)"
  by code_simp+

lemma settings_bytes: "\<exists>n b. h3_frame_to_bytes (H3Settings None None None None) (with_slice (replicate 128 42)) = Ok (n, b)
    \<and> take (off b) (buf b) = [4, 0]"
proof -
  have "case h3_frame_to_bytes (H3Settings None None None None) (with_slice (replicate 128 42)) of
    Ok (n, b) \<Rightarrow> take (off b) (buf b) = [4, 0] | _ \<Rightarrow> False" by code_simp
  then show ?thesis by (auto split: res.splits)
qed

lemma example_with_transport:
  "\<exists>h c. with_transport (\<lambda>_. quiet_env 0) (\<lambda>_. 0) h3_config_new example_quic = (Ok (), (h, c)) \<and> stalled c
     \<and> hc_streams h = Map.empty \<and> hc_peer_control h = None \<and> hc_peer_encoder h = None \<and> hc_peer_decoder h = None \<and> hc_finished h = []"
proof -
  from send_first [of "[0]"] obtain c1 where 1: "stream_send (quiet_env 0) 3 [0] False example_quic = (Ok 0, c1)" "stalled c1" by auto
  from send_stalled [OF 1(2), of "[4, 0]"] obtain c2 where
    2: "stream_send (quiet_env 0) 3 [4, 0] False c1 = (Ok 0, c2)" "stalled c2" by auto
  from settings_bytes obtain n b where
    b: "h3_frame_to_bytes (H3Settings None None None None) (with_slice (replicate 128 42)) = Ok (n, b)" "take (off b) (buf b) = [4, 0]"
    by blast
  have grease: "\<not> cn_grease c1" "\<not> cn_grease c2" using 1(2) 2(2) by (simp_all add: stalled_def)
  have more: "stream_send (quiet_env 0) 7 data False c2 = (Err StreamLimit, c2)" "stream_send (quiet_env 0) 11 data False c2 = (Err StreamLimit, c2)"
    for data using refuse_more [OF 2(2)] by simp_all
  show ?thesis
    using 1(1) 2 b grease more
    by (simp add: with_transport_def andThen_run send_settings_def open_uni_stream_def get_available_uni_stream_def h3_reads_def
        quic_reads_def reads_st_def fail_if_def h3_modify_def modify_def ret_def lift_def type_slices transport_def h3_transport_def
        h3_conn_new_def h3_config_new_def quic_fields Let_def ignore_err_def open_qpack_encoder_stream_def
        open_qpack_decoder_stream_def whenever_def)
qed

section \<open>Properties\<close>

text \<open>C38. The parsers of the streams. In every state that the calls of an application reach while the connection is neither
  closing nor draining, each stream's state buffer holds what the state expects, and no peer makes it larger than
  \<open>MAX_STATE_BUF_SIZE\<close>; a frame's payload is awaited only when its type is known.\<close>

theorem h3_streams_well_formed:
  assumes "h3_reach x (h, c)" "\<not> is_closing c" "cn_draining_timer c = None" "hc_streams h sid = Some s"
  shows "hs_id s = sid \<and> length (hs_buf s) \<le> MAX_STATE_BUF_SIZE
    \<and> (hs_state s \<in> {StreamType, PushId, FrameType, FramePayloadLen} \<longrightarrow> hs_off s < hs_len s \<and> hs_len s \<le> length (hs_buf s))
    \<and> (hs_state s = FramePayload \<longrightarrow> hs_off s \<le> hs_len s \<and> hs_len s = length (hs_buf s))
    \<and> (hs_state s \<in> {FramePayloadLen, FramePayload} \<longrightarrow> hs_frame_type s \<noteq> None)"
proof -
  from h3_reach_good [OF assms(1)] assms(2-4) have id: "hs_id s = sid" and ok: "h3_stream_ok s"
    by (auto simp: conn_ending_def h3_good_def)
  from fill_room_ok(2) [OF ok] stream_ok_bounds [OF ok]
  have "hs_reads_varint s \<longrightarrow> hs_off s < hs_len s \<and> hs_len s \<le> length (hs_buf s)" by blast
  with id ok show ?thesis by (auto simp: h3_stream_ok_def hs_payload_ok_def hs_reads_varint_def)
qed

lemma h3_example_reach:
  "\<exists>h c. h3_reach (example_ext 1) (h, c) \<and> stalled c
     \<and> hc_streams h = Map.empty \<and> hc_peer_control h = None \<and> hc_peer_encoder h = None \<and> hc_peer_decoder h = None \<and> hc_finished h = []"
  using example_with_transport h3_reach_new by metis

lemma h3_streams_well_formed_witness:
  "\<exists>h c s. h3_reach (example_ext 1) (h, c) \<and> hc_streams h 0 = Some s \<and> hs_state s = FrameType
     \<and> hs_off s < hs_len s \<and> hs_len s \<le> length (hs_buf s)"
proof -
  let ?env = "(quiet_env 0)\<lparr>en_order := \<lambda>_. [0]\<rparr>"
  from h3_example_reach obtain h c where h: "h3_reach (example_ext 1) (h, c)" "stalled c" "hc_streams h = Map.empty"
    "hc_peer_control h = None" "hc_peer_encoder h = None" "hc_peer_decoder h = None" "hc_finished h = []" by blast
  let ?s = "h3_stream_new 0 False"
  have c: "sm_streams (cn_streams c) 0 = None" "cn_error c = None" "cn_app_error c = None" "cn_draining_timer c = None" "\<not> is_closing c"
    using h(2) by (auto simp: stalled_def is_closing_def)
  have s: "hs_state ?s = FrameType" "fill_room ?s = (Ok 1, ?s)" "hs_id ?s = 0"
    by (simp_all add: h3_stream_new_def is_bidi_def fill_room_def andThen_run reads_st_def ret_def)
  let ?h = "h\<lparr>hc_streams := [0 \<mapsto> ?s]\<rparr>"
  have "stream_recv 0 1 c = (Err InvalidStreamState, c)"
    using c(1) by (simp add: stream_recv_def andThen_run reads_st_def fail_if_def is_bidi_def ret_def on_streams_def on_part_def
        on_stream_def)
  then have "read_loop (\<lambda>s. s) 0 n (?h, c) = (Err (H3TransportError InvalidStreamState), (?h, c))" for n
    by (simp add: read_loop.simps [of _ 0 n] read_step_def andThen_run on_h3_stream_def reads_st_def s try_fill_buffer_def ret_def
        transport_def h3_transport_def)
  then have "poll ?env (\<lambda>s. s) (h, c) = (Err (H3TransportError InvalidStreamState), (?h, c))"
    using c h(3-7) by (simp add: poll_def andThen_run quic_reads_def h3_reads_def reads_st_def fail_if_def ret_def poll_critical_def
        none_if_done_def handling_def process_readable_stream_def h3_modify_def modify_def throw_def)
  then have "h3_step (example_ext 1) (h, c) (?h, c)" by (rule h3_step_poll) simp
  with h(1) have reach: "h3_reach (example_ext 1) (?h, c)" by (rule h3_reach_step)
  have "hc_streams ?h 0 = Some ?s" by simp
  from h3_streams_well_formed [OF reach c(5,4) this] reach s(1) show ?thesis
    by (intro exI [of _ ?h] exI [of _ c] exI [of _ ?s]) simp
qed

text \<open>C37. \<open>poll\<close> never panics in such a state, whatever the peer sent: no slice or assertion fails and the loop over the
  states of a stream ends within its rounds. It leaves well-formed parsers or a closing connection.\<close>

theorem poll_never_panics:
  assumes "h3_reach x (h, c)" "cn_draining_timer c = None"
    and "poll env lower (h, c) = (r, (h', c'))"
  shows "r \<noteq> Panic \<and> (h3_good h' \<or> is_closing c')"
proof (cases "is_closing c")
  case True
  with assms(3) show ?thesis by (auto simp: poll_closing)
next
  case False
  with assms(2) h3_reach_good [OF assms(1)] have "h3_good h" "\<not> conn_ending c" by (simp_all add: conn_ending_def)
  with assms(3) show ?thesis by (intro poll_good)
qed

lemma poll_never_panics_witness:
  "\<exists>h c. h3_reach (example_ext 1) (h, c) \<and> fst (poll (quiet_env 0) (\<lambda>s. s) (h, c)) \<noteq> Panic"
proof -
  from h3_example_reach obtain h c where h: "h3_reach (example_ext 1) (h, c)" "stalled c" by blast
  obtain r h' c' where run: "poll (quiet_env 0) (\<lambda>s. s) (h, c) = (r, (h', c'))" by (metis prod.exhaust)
  have "cn_draining_timer c = None" using h(2) by (simp add: stalled_def)
  from poll_never_panics [OF h(1) this run] run have "fst (poll (quiet_env 0) (\<lambda>s. s) (h, c)) \<noteq> Panic" by simp
  with h(1) show ?thesis by blast
qed

end
