(* ===== verification/H3Read.thy ===== *)
theory H3Read
  imports H3Safe
begin

text \<open>
  Reading what a peer wrote on a request stream: the bytes that the transport holds, taken through the states
  of the parser.
\<close>

section \<open>Bytes of a request stream in the transport\<close>

text \<open>The bytes \<open>bs\<close> have arrived, in one chunk at the read offset, and the stream does not end within them.\<close>

definition recv_holds :: "u64 \<Rightarrow> u8 list \<Rightarrow> ('s, 'c) conn \<Rightarrow> bool" where
  "recv_holds sid bs c \<longleftrightarrow> is_bidi sid
     \<and> (\<exists>s fin. sm_streams (cn_streams c) sid = Some s \<and> st_bidi s
          \<and> rv_data (st_recv s) = [\<lparr>rb_data = bs, rb_off = rv_off (st_recv s), rb_fin = fin\<rparr>]
          \<and> (\<forall>k < length bs. rv_fin_off (st_recv s) \<noteq> Some (rv_off (st_recv s) + of_nat k)))"

lemma pop_one:
  assumes "rv_data r = [b]" "rb_off b = rv_off r" "0 < n"
  shows "\<exists>fin r'. recv_pop n r = Ok ((take n (rb_data b), fin), r')
    \<and> (n < rb_len b \<longrightarrow> rv_data r' = [\<lparr>rb_data = drop n (rb_data b), rb_off = rv_off r', rb_fin = rb_fin b\<rparr>]
         \<and> rv_off r' = rv_off r + of_nat n \<and> rv_fin_off r' = rv_fin_off r)"
proof -
  have ready: "recv_ready r" using assms by (simp add: recv_ready_def bh_peek_def)
  have pop: "bh_pop rb_off [b] = Some (b, [])" by (simp add: bh_pop_def)
  have push: "bh_push rb_off x [] = [x]" for x :: range_buf
    by (simp add: bh_push_def sift_up.simps)
  show ?thesis
    using assms ready
    by (auto simp: recv_pop_def recv_pop_loop.simps [of n] recv_pop_loop.simps [of 0] recv_pop_loop.simps [of "n - _"] pop push Let_def rb_len_def
        recv_ready_def bh_peek_def)
qed

lemma recv_holds_take:
  assumes "recv_holds sid bs c" "0 < n"
  shows "\<exists>fin c'. stream_recv sid n c = (Ok (take n bs, fin), c') \<and> same_fate c c'
    \<and> (n < length bs \<longrightarrow> recv_holds sid (drop n bs) c')"
proof -
  from assms(1) obtain s f where s: "is_bidi sid" "sm_streams (cn_streams c) sid = Some s" "st_bidi s"
    "rv_data (st_recv s) = [\<lparr>rb_data = bs, rb_off = rv_off (st_recv s), rb_fin = f\<rparr>]"
    "\<forall>k < length bs. rv_fin_off (st_recv s) \<noteq> Some (rv_off (st_recv s) + of_nat k)"
    by (auto simp: recv_holds_def)
  from pop_one [OF s(4) _ assms(2)] obtain fin r' where pop: "recv_pop n (st_recv s) = Ok ((take n bs, fin), r')"
    and r': "n < length bs \<Longrightarrow> rv_data r' = [\<lparr>rb_data = drop n bs, rb_off = rv_off r', rb_fin = f\<rparr>]
      \<and> rv_off r' = rv_off (st_recv s) + of_nat n \<and> rv_fin_off r' = rv_fin_off (st_recv s)"
    by (auto simp: rb_len_def)
  have ready: "stream_is_readable s" using s(4) by (simp add: stream_is_readable_def recv_ready_def bh_peek_def)
  obtain x c' where run: "stream_recv sid n c = (x, c')" by fastforce
  let ?s = "s\<lparr>st_recv := r'\<rparr>"
  from run have x: "x = Ok (take n bs, fin)"
    and c': "sm_streams (cn_streams c') sid = (if stream_is_complete ?s then None else Some ?s)"
    using s(1,2) ready pop
    by (auto simp: stream_recv_def andThen_run act_defs on_streams_def on_stream_def on_recv_def Let_def sm_collect_streams
        split: if_splits)
  have "recv_holds sid (drop n bs) c'" if n: "n < length bs"
  proof -
    have "rv_fin_off r' \<noteq> Some (rv_off r')" using s(5) r' [OF n] n by auto
    then have "\<not> stream_is_complete ?s" using s(3) by (simp add: stream_is_complete_def recv_is_fin_def)
    moreover have "rv_fin_off r' \<noteq> Some (rv_off r' + of_nat k)" if "k < length bs - n" for k
    proof -
      have "n + k < length bs" using that n by simp
      with s(5) have "rv_fin_off (st_recv s) \<noteq> Some (rv_off (st_recv s) + of_nat (n + k))" by blast
      with r' [OF n] show ?thesis by (simp add: add.assoc)
    qed
    ultimately show ?thesis using s c' r' [OF n] by (auto simp: recv_holds_def)
  qed
  with run x stream_recv_frame [OF run] show ?thesis by blast
qed

section \<open>Reading a varint\<close>

lemma run_stream:
  assumes "hc_streams h sid = Some s"
  shows "on_h3_stream sid m (h, c) = (case m s of (r, t) \<Rightarrow> (r, (put_stream sid t h, c)))"
  using assms by (simp add: on_h3_stream_def put_stream_def)

lemma run_transport: "transport m (h, c) = (case m c of (r, c') \<Rightarrow> (h3_transport r, (h, c')))"
  by (simp add: transport_def)

lemma fill_holds:
  assumes s: "hc_streams h sid = Some s" "hs_id s = sid" "hs_off s < hs_len s" "hs_len s \<le> length (hs_buf s)"
    and bs: "recv_holds sid bs c" "n = hs_len s - hs_off s" "n \<le> length bs"
  shows "\<exists>c'. try_fill_buffer sid (h, c)
      = (Ok (), (put_stream sid (s\<lparr>hs_buf := take (hs_off s) (hs_buf s) @ take n bs @ drop (hs_len s) (hs_buf s),
                                   hs_off := hs_len s\<rparr>) h, c'))
    \<and> same_fate c c' \<and> (n < length bs \<longrightarrow> recv_holds sid (drop n bs) c')"
proof -
  have "0 < n" using s(3) bs(2) by simp
  from recv_holds_take [OF bs(1) this] obtain fin c' where run: "stream_recv sid n c = (Ok (take n bs, fin), c')"
    and c': "same_fate c c'" "n < length bs \<longrightarrow> recv_holds sid (drop n bs) c'" by blast
  have room: "fill_room s = (Ok n, s)" using s bs(2) by (simp add: fill_room_def andThen_run reads_st_def ret_def)
  have same: "put_stream sid s h = h" using s(1) by (simp add: put_stream_def fun_upd_idem)
  have len: "hs_off s + n = hs_len s" "min (length bs) n = n" using s(3) bs by auto
  show ?thesis
    using c' by (simp add: try_fill_buffer_def andThen_run run_stream [OF s(1)] room reads_st_def ret_def s(2) same
        run_transport run h3_transport_def filled_def modify_def state_buffer_complete_def fail_if_def len)
qed

text \<open>What a round does with the value it has read.\<close>

definition use_varint :: "u64 \<Rightarrow> h3_state \<Rightarrow> u64 \<Rightarrow> ('s, 'c, unit) h3_act" where
  "use_varint sid state v =
     (if state = FrameType
      then handling (on_h3_stream sid (set_frame_type v)) (\<lambda>e.
         close_err e (if e = H3FrameUnexpected then ''Unexpected frame type '' @ decimal (unat v) else ''Error handling frame.''))
      else handling (on_h3_stream sid (set_frame_payload_len v)) (\<lambda>e. close_err e ''''))"

lemma read_round:
  assumes "hc_streams h sid = Some s" "hs_state s \<in> {FrameType, FramePayloadLen}" "try_fill_buffer sid (h, c) = (Ok (), w)"
  shows "read_loop lower sid (Suc k) (h, c) = (case next_varint sid w of
     (Ok None, w) \<Rightarrow> read_loop lower sid k w
   | (Ok (Some v), w) \<Rightarrow> andThen (use_varint sid (hs_state s) v) (\<lambda>_. read_loop lower sid k) w
   | (Err e, w) \<Rightarrow> (Err e, w) | (Panic, w) \<Rightarrow> (Panic, w))"
proof -
  have same: "put_stream sid s h = h" using assms(1) by (simp add: put_stream_def fun_upd_idem)
  show ?thesis
    using assms(2)
    by (auto simp: read_loop.simps [of lower sid "Suc k"] read_step_def andThen_run run_stream [OF assms(1)] reads_st_def same
        assms(3) on_frame_type_def on_payload_len_def use_varint_def ret_def
        split: prod.split res.split option.split)
qed

lemma varint_enc_whole:
  assumes "varint_ok v"
  shows "get_varint (with_slice (varint_enc v)) = Ok (v, advance (length (varint_enc v)) (with_slice (varint_enc v)))"
    and "varint_parse_len (varint_enc v ! 0) = Ok (length (varint_enc v))" and "length (varint_enc v) \<le> 8"
proof -
  have b: "as_ref (with_slice (varint_enc v)) = varint_enc v" "off (with_slice (varint_enc v)) = 0"
    by (simp_all add: with_slice_def as_ref_def)
  show get: "get_varint (with_slice (varint_enc v))
      = Ok (v, advance (length (varint_enc v)) (with_slice (varint_enc v)))"
    using get_varint_enc [OF assms, of "with_slice (varint_enc v)" "[]"] b by simp
  then show "varint_parse_len (varint_enc v ! 0) = Ok (length (varint_enc v))"
    by (auto simp: get_varint_eq varint_parse_len_eq Let_def b b [unfolded with_slice_def] advance_def with_slice_def
        split: if_splits)
  show "length (varint_enc v) \<le> 8"
    using get_varint_total [of "with_slice (varint_enc v)"] by (auto simp: get advance_def b)
qed

text \<open>The same stream, but for its state buffer.\<close>

definition same_stream :: "h3_stream \<Rightarrow> h3_stream \<Rightarrow> bool" where
  "same_stream s t \<longleftrightarrow> hs_id t = hs_id s \<and> hs_state t = hs_state s \<and> hs_ty t = hs_ty s \<and> hs_is_local t = hs_is_local s
     \<and> hs_initialized t = hs_initialized s \<and> hs_frame_type t = hs_frame_type s"

lemma next_varint_done:
  assumes "hc_streams h sid = Some s" "hs_off s = hs_len s" "hs_buf s \<noteq> []"
    and "hs_off s \<noteq> 1 \<Longrightarrow> get_varint (with_slice (hs_buf s)) = Ok (v, b)"
    and "hs_off s = 1 \<Longrightarrow> varint_parse_len (hs_buf s ! 0) = Ok 1 \<and> get_varint (with_slice (resize_buf 1 (hs_buf s))) = Ok (v, b)"
  shows "\<exists>t. next_varint sid (h, c) = (Ok (Some v), (put_stream sid t h, c)) \<and> same_stream s t
    \<and> length (hs_buf t) = (if hs_off s = 1 then 1 else length (hs_buf s))"
proof (cases "hs_off s = 1")
  case True
  then show ?thesis
    using assms by (intro exI [of _ "s\<lparr>hs_len := 1, hs_buf := resize_buf 1 (hs_buf s)\<rparr>"])
      (simp add: next_varint_def handling_def andThen_run run_stream [OF assms(1)] try_consume_varint_def same_stream_def
        reads_st_def lift_def h3_transport_def modify_def state_buffer_complete_def fail_if_def ret_def h3_short_def)
next
  case False
  then show ?thesis
    using assms by (intro exI [of _ s])
      (simp add: next_varint_def handling_def andThen_run run_stream [OF assms(1)] try_consume_varint_def same_stream_def
        reads_st_def lift_def state_buffer_complete_def fail_if_def ret_def h3_short_def)
qed

lemma next_varint_more:
  assumes "hc_streams h sid = Some s" "hs_off s = 1" "hs_buf s \<noteq> []" "varint_parse_len (hs_buf s ! 0) = Ok n" "n \<noteq> 1"
  shows "next_varint sid (h, c) = (Ok None, (put_stream sid (s\<lparr>hs_len := n, hs_buf := resize_buf n (hs_buf s)\<rparr>) h, c))"
  using assms by (simp add: next_varint_def handling_def andThen_run run_stream [OF assms(1)] try_consume_varint_def
      reads_st_def lift_def h3_transport_def modify_def state_buffer_complete_def fail_if_def ret_def throw_def)

lemma read_varint:
  assumes s: "hc_streams h sid = Some s" "hs_id s = sid" "hs_state s \<in> {FrameType, FramePayloadLen}"
      "hs_off s = 0" "hs_len s = 1" "hs_buf s \<noteq> []"
    and v: "varint_ok v" "recv_holds sid (varint_enc v @ rest) c" "rest \<noteq> []" and k: "2 \<le> k"
  shows "\<exists>j c' t. k - 2 \<le> j \<and> recv_holds sid rest c' \<and> same_fate c c' \<and> same_stream s t \<and> length (hs_buf t) \<le> 8
    \<and> read_loop lower sid k (h, c) = andThen (use_varint sid (hs_state s) v) (\<lambda>_. read_loop lower sid j) (put_stream sid t h, c')"
proof -
  obtain k1 where k1: "k = Suc (Suc k1)" using k by (metis Suc_le_D add_2_eq_Suc le_Suc_ex)
  obtain b0 bs0 where buf: "hs_buf s = b0 # bs0" using s(6) by (cases "hs_buf s") auto
  note enc = varint_enc_whole [OF v(1)]
  obtain e es where e: "varint_enc v = e # es" using enc(1) by (cases "varint_enc v") (auto simp: get_varint_eq cap_def with_slice_def)
  let ?n = "length (varint_enc v)"
  let ?s1 = "s\<lparr>hs_buf := e # bs0, hs_off := 1\<rparr>"
  have len: "hs_off s < hs_len s" "hs_len s \<le> length (hs_buf s)" "1 = hs_len s - hs_off s" "1 \<le> length (varint_enc v @ rest)"
    using s buf v(3) by (auto simp: Suc_le_eq)
  from fill_holds [OF s(1,2) len(1,2) v(2) len(3,4)] obtain c1 where
    fill1: "try_fill_buffer sid (h, c) = (Ok (), (put_stream sid ?s1 h, c1))" and c1: "same_fate c c1" "recv_holds sid (es @ rest) c1"
    using s(4,5) buf e v(3) by auto
  have g1: "hc_streams (put_stream sid ?s1 h) sid = Some ?s1" by simp
  note round1 = read_round [OF s(1,3) fill1, of lower "Suc k1"]
  show ?thesis
  proof (cases "?n = 1")
    case True
    with e have es: "es = []" by simp
    have "resize_buf 1 (e # bs0) = varint_enc v" by (simp add: resize_buf_def e es)
    with enc True e have read: "varint_parse_len (hs_buf ?s1 ! 0) = Ok 1
        \<and> get_varint (with_slice (resize_buf 1 (hs_buf ?s1))) = Ok (v, advance ?n (with_slice (varint_enc v)))"
      by simp
    have "\<exists>t. next_varint sid (put_stream sid ?s1 h, c1) = (Ok (Some v), (put_stream sid t (put_stream sid ?s1 h), c1))
        \<and> same_stream ?s1 t \<and> length (hs_buf t) = (if hs_off ?s1 = 1 then 1 else length (hs_buf ?s1))"
      by (rule next_varint_done [OF g1, of v "advance ?n (with_slice (varint_enc v))"]) (use read s(5) in simp_all)
    then obtain t where t: "next_varint sid (put_stream sid ?s1 h, c1) = (Ok (Some v), (put_stream sid t h, c1))"
      "same_stream s t" "length (hs_buf t) = 1" by (auto simp: same_stream_def)
    show ?thesis
      using round1 t c1 es k1
      by (intro exI [of _ "Suc k1"] exI [of _ c1] exI [of _ t]) simp
  next
    case False
    let ?s2 = "?s1\<lparr>hs_len := ?n, hs_buf := resize_buf ?n (e # bs0)\<rparr>"
    have "varint_parse_len (hs_buf ?s1 ! 0) = Ok ?n" using enc(2) e by simp
    from next_varint_more [OF g1 _ _ this False, of c1] have
      next1: "next_varint sid (put_stream sid ?s1 h, c1) = (Ok None, (put_stream sid ?s2 h, c1))" by simp
    have g2: "hc_streams (put_stream sid ?s2 h) sid = Some ?s2" by simp
    from False e have "es \<noteq> []" by auto
    have ne: "varint_enc v \<noteq> []" using e by simp
    from \<open>es \<noteq> []\<close> e have n2: "1 < ?n" "length es = ?n - 1" by simp_all
    have take2: "take 1 (resize_buf ?n (e # bs0)) = [e]" by (simp add: resize_buf_def e)
    let ?b2 = "take 1 (resize_buf ?n (e # bs0)) @ take (?n - 1) (es @ rest) @ drop ?n (resize_buf ?n (e # bs0))"
    let ?s3 = "?s2\<lparr>hs_buf := ?b2, hs_off := ?n\<rparr>"
    have b2: "?b2 = varint_enc v"
      using take2 by (simp add: e)
    have len2: "hs_id ?s2 = sid" "hs_off ?s2 < hs_len ?s2" "hs_len ?s2 \<le> length (hs_buf ?s2)" "?n - 1 = hs_len ?s2 - hs_off ?s2"
      "?n - 1 \<le> length (es @ rest)"
      using n2 s(2) by simp_all
    from fill_holds [OF g2 len2(1-3) c1(2) len2(4,5)] obtain c2 where
      "try_fill_buffer sid (put_stream sid ?s2 h, c1) = (Ok (), (put_stream sid
         (?s2\<lparr>hs_buf := take (hs_off ?s2) (hs_buf ?s2) @ take (?n - 1) (es @ rest) @ drop (hs_len ?s2) (hs_buf ?s2),
               hs_off := hs_len ?s2\<rparr>) (put_stream sid ?s2 h), c2))"
      and c2: "same_fate c1 c2" "?n - 1 < length (es @ rest) \<longrightarrow> recv_holds sid (drop (?n - 1) (es @ rest)) c2" by blast
    then have fill2: "try_fill_buffer sid (put_stream sid ?s2 h, c1) = (Ok (), (put_stream sid ?s3 h, c2))" by simp
    have "?n - 1 < length (es @ rest)" using n2 v(3) by (cases rest) simp_all
    with c2(2) n2(2) have holds: "recv_holds sid rest c2" by simp
    have state2: "hs_state ?s2 \<in> {FrameType, FramePayloadLen}" using s(3) by simp
    note round2 = read_round [OF g2 state2 fill2, of lower k1]
    have g3: "hc_streams (put_stream sid ?s3 h) sid = Some ?s3" by simp
    have "\<exists>t. next_varint sid (put_stream sid ?s3 h, c2) = (Ok (Some v), (put_stream sid t (put_stream sid ?s3 h), c2))
        \<and> same_stream ?s3 t \<and> length (hs_buf t) = (if hs_off ?s3 = 1 then 1 else length (hs_buf ?s3))"
      by (rule next_varint_done [OF g3, of v "advance ?n (with_slice (varint_enc v))"]) (use enc(1) n2 b2 ne in simp_all)
    then obtain t where t: "next_varint sid (put_stream sid ?s3 h, c2) = (Ok (Some v), (put_stream sid t h, c2))"
      "same_stream s t" "length (hs_buf t) = ?n" using n2 b2 by (auto simp: same_stream_def)
    have "same_fate c c2" using c1(1) c2(1) by (rule same_fate_trans)
    with round1 round2 next1 t holds k1 enc(3) show ?thesis
      by (intro exI [of _ k1] exI [of _ c2] exI [of _ t]) simp
  qed
qed

section \<open>What a peer's bytes do\<close>

text \<open>A request stream that awaits a frame: the parser of one that was not read before is so.\<close>

definition awaits_frame :: "u64 \<Rightarrow> h3_stream \<Rightarrow> bool" where
  "awaits_frame sid s \<longleftrightarrow> hs_id s = sid \<and> hs_ty s = Some TRequest \<and> hs_state s = FrameType
     \<and> hs_off s = 0 \<and> hs_len s = 1 \<and> hs_buf s \<noteq> []"

lemma awaits_frame_new: "is_bidi sid \<Longrightarrow> awaits_frame sid (h3_stream_new sid loc)"
  by (simp add: awaits_frame_def h3_stream_new_def Let_def)

lemma use_frame_type:
  assumes "hs_state s = FrameType" "hs_ty s = Some TRequest" "check_frame_type v s = Ok b"
  shows "\<exists>s'. use_varint sid FrameType v (put_stream sid s h, c) = (Ok (), (put_stream sid s' h, c))
    \<and> hs_id s' = hs_id s \<and> hs_state s' = FramePayloadLen \<and> hs_off s' = 0 \<and> hs_len s' = 1 \<and> hs_buf s' \<noteq> []
    \<and> hs_ty s' = Some TRequest \<and> hs_frame_type s' = Some v"
proof -
  have g: "hc_streams (put_stream sid s h) sid = Some s" by simp
  let ?s = "s\<lparr>hs_initialized := hs_initialized s \<or> b, hs_frame_type := Some v, hs_state := FramePayloadLen, hs_off := 0,
    hs_len := 1, hs_buf := resize_buf 1 (hs_buf s)\<rparr>"
  show ?thesis
    using assms
    by (intro exI [of _ ?s])
      (simp add: use_varint_def handling_def run_stream [OF g] set_frame_type_def assert_state_def andThen_run reads_st_def
        ret_def lift_def modify_def state_transition_def whenever_def fail_if_def MAX_STATE_BUF_SIZE_def)
qed

lemma use_payload_len:
  assumes "hs_state s = FramePayloadLen" "hs_ty s = Some TRequest" "hs_frame_type s = Some ty" "ty \<noteq> DATA_FRAME_TYPE_ID"
  shows "use_varint sid FramePayloadLen v (put_stream sid s h, c) =
    (let s' = s\<lparr>hs_state := FramePayload, hs_off := 0, hs_len := unat v\<rparr> in
     if unat v > MAX_STATE_BUF_SIZE then close_err H3InternalError '''' (put_stream sid s' h, c)
     else (Ok (), (put_stream sid (s'\<lparr>hs_buf := resize_buf (unat v) (hs_buf s)\<rparr>) h, c)))"
proof -
  have g: "hc_streams (put_stream sid s h) sid = Some s" by simp
  show ?thesis
    using assms
    by (simp add: use_varint_def handling_def run_stream [OF g] set_frame_payload_len_def assert_state_def andThen_run reads_st_def
        ret_def throw_def modify_def state_transition_def whenever_def fail_if_def Let_def)
qed

text \<open>The header of a frame.\<close>

lemma read_frame_header:
  assumes s: "hc_streams h sid = Some s" "awaits_frame sid s" "check_frame_type ty s = Ok b"
    and v: "varint_ok ty" "varint_ok v" "recv_holds sid (varint_enc ty @ varint_enc v @ rest) c" "rest \<noteq> []"
    and k: "4 \<le> k"
  shows "\<exists>j c' t. k - 4 \<le> j \<and> recv_holds sid rest c' \<and> same_fate c c' \<and> hs_id t = sid \<and> hs_frame_type t = Some ty
    \<and> hs_state t = FramePayloadLen \<and> hs_ty t = Some TRequest \<and> length (hs_buf t) \<le> 8
    \<and> read_loop lower sid k (h, c) = andThen (use_varint sid FramePayloadLen v) (\<lambda>_. read_loop lower sid j) (put_stream sid t h, c')"
proof -
  from s(2) have s': "hs_id s = sid" "hs_state s \<in> {FrameType, FramePayloadLen}" "hs_off s = 0" "hs_len s = 1" "hs_buf s \<noteq> []"
    by (simp_all add: awaits_frame_def)
  have "varint_enc v @ rest \<noteq> []" using v(4) by simp
  from read_varint [OF s(1) s' v(1,3) this, of k lower] k obtain j1 c1 t1 where
    1: "k - 2 \<le> j1" "recv_holds sid (varint_enc v @ rest) c1" "same_fate c c1" "same_stream s t1"
    "read_loop lower sid k (h, c) = andThen (use_varint sid (hs_state s) ty) (\<lambda>_. read_loop lower sid j1) (put_stream sid t1 h, c1)"
    by auto
  have "check_frame_type ty t1 = check_frame_type ty s"
    using 1(4) by (simp only: same_stream_def check_frame_type_def)
  with 1(4) s(2,3) have t1: "hs_state t1 = FrameType" "hs_ty t1 = Some TRequest" "check_frame_type ty t1 = Ok b" "hs_id t1 = sid"
    by (simp_all add: same_stream_def awaits_frame_def)
  from use_frame_type [OF t1(1-3), of sid h c1] obtain t2 where
    2: "use_varint sid FrameType ty (put_stream sid t1 h, c1) = (Ok (), (put_stream sid t2 h, c1))"
    "hs_id t2 = sid" "hs_state t2 = FramePayloadLen" "hs_off t2 = 0" "hs_len t2 = 1" "hs_buf t2 \<noteq> []"
    "hs_ty t2 = Some TRequest" "hs_frame_type t2 = Some ty"
    using t1(4) by auto
  have step1: "read_loop lower sid k (h, c) = read_loop lower sid j1 (put_stream sid t2 h, c1)"
    using 1(5) 2(1) s(2) by (simp add: andThen_run awaits_frame_def)
  have g: "hc_streams (put_stream sid t2 h) sid = Some t2" and st: "hs_state t2 \<in> {FrameType, FramePayloadLen}"
    using 2(3) by simp_all
  have "2 \<le> j1" using 1(1) k by simp
  from read_varint [OF g 2(2) st 2(4-6) v(2) 1(2) v(4) this, of lower] obtain j2 c2 t3 where
    3: "j1 - 2 \<le> j2" "recv_holds sid rest c2" "same_fate c1 c2" "same_stream t2 t3" "length (hs_buf t3) \<le> 8"
    "read_loop lower sid j1 (put_stream sid t2 h, c1)
     = andThen (use_varint sid (hs_state t2) v) (\<lambda>_. read_loop lower sid j2) (put_stream sid t3 (put_stream sid t2 h), c2)"
    by auto
  have "same_fate c c2" using 1(3) 3(3) by (rule same_fate_trans)
  then show ?thesis
    using 1(1) 2 3 step1
    by (intro exI [of _ j2] exI [of _ c2] exI [of _ t3]) (simp add: same_stream_def)
qed

lemma recv_holds_left: "recv_holds sid bs c \<Longrightarrow> recv_left sid c = Suc (length bs)"
  by (auto simp: recv_holds_def recv_left_def recv_size_def rb_len_def)

lemma read_new_stream:
  assumes "hc_streams h sid = None"
  shows "process_readable_stream lower sid (h, c)
    = read_loop lower sid (Suc (2 * recv_left sid c)) (put_stream sid (h3_stream_new sid False) h, c)"
  using assms by (simp add: process_readable_stream_def andThen_run h3_modify_def modify_def quic_reads_def reads_st_def
      put_stream_def)

lemma close_err_draining: "cn_draining_timer c \<noteq> None \<Longrightarrow> close_err e reason (h, c) = (Err H3Done, (h, c))"
  by (simp add: close_err_def andThen_run run_transport conn_close_def reads_st_def fail_if_def throw_def h3_transport_def)

text \<open>C40. An oversized frame on a connection that the peer is closing. The length of a frame's payload is checked
  after the parser has gone to the payload's state; when the connection drains, \<open>close\<close> fails with \<open>Done\<close>, which
  the application takes for the end of the data. The next call slices the state buffer out of its bounds.\<close>

theorem oversized_frame_panics:
  assumes "hc_streams h sid = None" and "cn_draining_timer c \<noteq> None"
    and "recv_holds sid (varint_enc ty @ varint_enc len @ rest) c" "rest \<noteq> []" "varint_ok ty" "varint_ok len"
    and "ty \<notin> {DATA_FRAME_TYPE_ID, CANCEL_PUSH_FRAME_TYPE_ID, SETTINGS_FRAME_TYPE_ID, GOAWAY_FRAME_TYPE_ID, MAX_PUSH_FRAME_TYPE_ID}"
    and "MAX_STATE_BUF_SIZE < unat len"
  shows "\<exists>w. process_readable_stream lower sid (h, c) = (Err H3Done, w)
    \<and> fst (process_readable_stream lower sid w) = Panic"
proof -
  let ?s = "h3_stream_new sid False" and ?k = "Suc (2 * recv_left sid c)"
  have bidi: "is_bidi sid" using assms(3) by (simp add: recv_holds_def)
  have g: "hc_streams (put_stream sid ?s h) sid = Some ?s" by simp
  have check: "check_frame_type ty ?s = Ok (ty = HEADERS_FRAME_TYPE_ID)"
    using assms(7) bidi by (simp add: check_frame_type_def h3_stream_new_def)
  have "4 \<le> ?k" using assms(4) by (cases rest) (simp_all add: recv_holds_left [OF assms(3)])
  from read_frame_header [OF g awaits_frame_new [OF bidi] check assms(5,6,3,4) this, of lower] obtain j c1 t where
    t: "same_fate c c1" "hs_id t = sid" "hs_frame_type t = Some ty" "hs_state t = FramePayloadLen" "hs_ty t = Some TRequest"
    "length (hs_buf t) \<le> 8"
    and run: "read_loop lower sid ?k (put_stream sid ?s h, c)
      = andThen (use_varint sid FramePayloadLen len) (\<lambda>_. read_loop lower sid j) (put_stream sid t h, c1)"
    by auto
  let ?t = "t\<lparr>hs_state := FramePayload, hs_off := 0, hs_len := unat len\<rparr>"
  have "cn_draining_timer c1 \<noteq> None" using t(1) assms(2) by (simp add: same_fate_def)
  note close = close_err_draining [OF this]
  have first: "process_readable_stream lower sid (h, c) = (Err H3Done, (put_stream sid ?t h, c1))"
    using use_payload_len [OF t(4,5,3), of sid len h c1] assms(7,8)
    by (simp add: read_new_stream [OF assms(1)] run andThen_run Let_def close)
  have big: "\<not> (hs_off ?t \<le> hs_len ?t \<and> hs_len ?t \<le> length (hs_buf ?t))"
    using t(6) assms(8) by (simp add: MAX_STATE_BUF_SIZE_def)
  have g': "hc_streams (put_stream sid ?t h) sid = Some ?t" by simp
  have "fst (read_loop lower sid n (put_stream sid ?t h, c1)) = Panic" for n
    using big by (simp add: read_loop.simps [of lower sid n] read_step_def andThen_run run_stream [OF g'] reads_st_def try_fill_buffer_def
        fill_room_def lift_def)
  then have "fst (process_readable_stream lower sid (put_stream sid ?t h, c1)) = Panic"
    by (simp add: process_readable_stream_def andThen_run h3_modify_def modify_def quic_reads_def reads_st_def)
  with first show ?thesis by blast
qed

text \<open>A connection whose stream 0 has received \<open>bs\<close>.\<close>

definition example_received :: "u8 list \<Rightarrow> (unit, unit) conn" where
  "example_received bs =
     (let s = stream_new_full 0 0 10000 10000 True False 4000 1 0 in
      (example_conn True)\<lparr>cn_streams := (sm_new False True 2 2 SchedBasic)\<lparr>sm_streams :=
        [0 \<mapsto> s\<lparr>st_recv := (st_recv s)\<lparr>rv_data := [\<lparr>rb_data = bs, rb_off = 0, rb_fin = False\<rparr>]\<rparr>\<rparr>]\<rparr>\<rparr>)"

lemma example_received_holds: "recv_holds 0 bs (example_received bs)"
  by (auto simp: recv_holds_def example_received_def Let_def stream_new_full_def recv_new_def is_bidi_def)

lemma oversized_frame_panics_witness:
  "\<exists>w. process_readable_stream (\<lambda>s. s) 0
         (h3_conn_new h3_config_new True, (example_received (varint_enc 33 @ varint_enc 16777216 @ [0]))\<lparr>cn_draining_timer := Some 7\<rparr>)
       = (Err H3Done, w)
     \<and> fst (process_readable_stream (\<lambda>s. s) 0 w) = Panic"
proof -
  let ?bs = "varint_enc 33 @ varint_enc 16777216 @ [0]"
  have holds: "recv_holds 0 ?bs ((example_received ?bs)\<lparr>cn_draining_timer := Some 7\<rparr>)"
    using example_received_holds [of ?bs] by (simp add: recv_holds_def)
  show ?thesis
    by (rule oversized_frame_panics [OF _ _ holds])
      (simp_all add: h3_conn_new_def varint_ok_def h3_type_ids MAX_STATE_BUF_SIZE_def)
qed









end
