(* ===== verification/Spec2Isabelle.thy ===== *)
theory Spec2Isabelle
  imports Prelude Octets Wire BTree Ranges BinHeap RangeBuf RecvBuf SendBuf Fec Crypto Packet Frame
    Float64 Scheduler Params Streams Flush Clock Minmax Congestion Cubic Recovery
    HuffTable HuffTree Huffman Qpack H3Frame
    Effects Conn ConnOps ConnFrame ConnRecv ConnSend ConnInv ConnCredit ConnLife ConnFaults
    H3Stream H3Conn H3Recv H3Inv H3Safe H3Read
begin

text \<open>
  A verification development for DTP, the deadline-aware extension of the QUIC implementation
  quiche, over the Rust sources under \<open>src/src/\<close>.

  The program. Datagrams are cut into packets (\<open>packet.rs\<close>) that are protected with keys derived
  by \<open>crypto.rs\<close>. Their payload is a sequence of frames, written and read through the byte buffer
  of \<open>octets.rs\<close>. Stream data passes through the receive and send buffers of \<open>stream.rs\<close>, which
  hold chunks in binary heaps ordered by offset. Acknowledged packet numbers are kept in the range
  sets of \<open>ranges.rs\<close>. The streams of a connection, their limits and the queue of those that wait to
  send are a stream map; a scheduler (\<open>scheduler/\<close>) chooses the next one by deadline and priority and drops
  late ones. DTP adds redundancy packets: \<open>fec.rs\<close> groups packets, encodes the parity
  shards and restores missing ones. On top, \<open>h3/\<close> carries requests and responses: their headers are compressed
  by QPACK and framed, and \<open>poll\<close> turns what the streams deliver into events.

  The theories.
    \<^item> Prelude: machine integers, the error type of \<open>lib.rs\<close>, results with panics, byte strings.
    \<^item> Octets: \<open>octets.rs\<close>; the locale \<open>wire_codec\<close> is the contract of a get/put pair.
    \<^item> Wire: a calculus of printers and parsers, on which packets and frames rest.
    \<^item> BTree: the ordered map behind \<open>BTreeMap\<close>; the locale \<open>ordered_map\<close>. Ranges: \<open>ranges.rs\<close>.
    \<^item> BinHeap: the standard library's \<open>BinaryHeap\<close> with its array; the locale \<open>offset_queue\<close>.
    \<^item> RangeBuf, RecvBuf, SendBuf: \<open>RangeBuf\<close>, \<open>RecvBuf\<close> and \<open>SendBuf\<close> of \<open>stream.rs\<close>.
    \<^item> Fec: \<open>fec.rs\<close> and the two places of \<open>lib.rs\<close> that use it.
    \<^item> Crypto: \<open>crypto.rs\<close> over the \<open>ring\<close> crate as a parameter.
    \<^item> Packet: \<open>packet.rs\<close>. Frame: \<open>frame.rs\<close> and the loop that cuts a payload into frames.
    \<^item> Params: the transport parameters of \<open>lib.rs\<close>.
    \<^item> Float64: the floating-point numbers of the schedulers. Scheduler: \<open>scheduler/\<close>.
    \<^item> Streams: \<open>Stream\<close> and \<open>StreamMap\<close> of \<open>stream.rs\<close>, the invariant of the stream counts over every
      reachable map. Flush: what \<open>peek_flushable\<close> does to the queue.
    \<^item> Clock: instants and durations. Minmax: \<open>minmax.rs\<close>. Congestion: the trait \<open>CongestionControl\<close> of
      \<open>cc/mod.rs\<close> as a record of operations, the locale \<open>bytes_in_flight\<close> that is its contract, Reno and the
      externally computed window; Cubic: \<open>cc/cubic.rs\<close> and \<open>cc/hystart.rs\<close>.
    \<^item> Recovery: \<open>recovery.rs\<close> over any congestion control that keeps the contract; invariants of every
      reachable state.
    \<^item> HuffTable: the tables of \<open>h3/qpack/huffman/table.rs\<close>; HuffTree: the code as a tree and what it says of the tables;
      Huffman: coder and decoder; Qpack: \<open>h3/qpack/encoder.rs\<close> and \<open>decoder.rs\<close>. H3Frame: \<open>h3/frame.rs\<close>.
    \<^item> Effects: handlers that change a state and may fail, as actions with weakest preconditions.
    \<^item> Conn: the state of \<open>Connection\<close> of \<open>lib.rs\<close> with its packet number spaces, and \<open>tls.rs\<close> over the TLS
      library as a parameter (a call is a tree of the callbacks it makes). ConnOps: creation, the stream
      calls, the handshake, timers and closing. ConnFrame: \<open>process_frame\<close>. ConnRecv: \<open>recv\<close> and
      \<open>recv_single\<close>. ConnSend: \<open>send\<close> and \<open>send_with_blocks\<close>, a definition per step of the function.
    \<^item> ConnInv: the locales of connection invariants, by the fields that the parts of the code change; ConnCredit: the
      flow control invariants as interpretations of them. ConnLife: what every run keeps, draining, timers,
      the credit of a server. ConnFaults: where the loops and counts of the connection go wrong.
    \<^item> H3Stream: the parser of an HTTP/3 stream (\<open>h3/stream.rs\<close>), a state machine over a state buffer. H3Conn: the
      state of the HTTP/3 \<open>Connection\<close> of \<open>h3/mod.rs\<close>, the streams it opens, sending headers and bodies; its
      operations are actions on the pair of the two connections. H3Recv: reading streams, \<open>process_frame\<close>,
      \<open>recv_body\<close> and \<open>poll\<close>.
    \<^item> H3Inv: what a round of the parser keeps. H3Safe: the locales \<open>h3_sending\<close> and \<open>h3_receiving\<close> of invariants
      of the two connections, every run of an application, and that \<open>poll\<close> does not panic. H3Read: what the
      parser makes of the bytes of a peer, from the encoded headers to the event, and of an oversized frame.

  Modelling. Integers of the sources are words of their width and wrap as in the release profile;
  lengths of buffers in memory are natural numbers. \<open>Panic\<close> is a third result beside \<open>Ok\<close> and
  \<open>Err\<close>. A \<open>HashMap\<close> is a partial map, a \<open>BTreeMap\<close> a sorted association list, a \<open>BinaryHeap\<close> its
  array. Readings of the clock, random bytes and greasing values are arguments. Third-party code (ring, the
  reed-solomon codes, TLS) is a parameter with its documented laws as predicates, instantiated by a
  concrete function in the witnesses. Every loop is a terminating function, but for the loop of \<open>send\<close> over
  the waiting streams, which has fuel: its rounds are bounded by the length of the queue with the basic
  scheduler, and not at all with the DTP scheduler (ConnFaults), and the loop over the states of an HTTP/3
  stream, which has two rounds more than twice the bytes that the transport holds of it: a round that goes on
  either takes a byte or ends a frame's payload, and running out of rounds would be a panic, which H3Safe excludes.

  Not modelled. BBR, whose use goes through the parameter of Recovery; the setters of the transport's
  \<open>Config\<close>; the C interface, the time query and the random generator, which only call out; logging and the
  tools of the repository.
\<close>

end
